(* ===== verification/Prelude.thy ===== *)
theory Prelude
  imports Main "HOL-Library.AList" "HOL-Library.Sublist"
begin

text \<open>
  Shared vocabulary of the development: byte strings, clocks, 64-bit saturating arithmetic,
  the hash maps of the Rust sources as association lists, and the generic lemmas the
  components share.

  Conventions. A Rust \<open>Result<T, E>\<close> is \<open>'e + 't\<close> with \<open>Inl\<close> the error; an \<open>Option\<close>
  is \<open>option\<close>. An \<open>Instant\<close> is a number of nanoseconds on the monotonic clock. A
  \<open>HashMap\<close> is an association list whose order is the (arbitrary) iteration order.
\<close>

type_synonym bytes = "char list"
type_synonym instant = nat

named_theorems hm_simps "laws of the hash-map operations"
named_theorems sat_simps "saturating arithmetic"

subsection \<open>Clocks\<close>

abbreviation (input) CR :: char where "CR \<equiv> CHR 0x0D"
abbreviation (input) LF :: char where "LF \<equiv> CHR 0x0A"

definition from_secs :: "nat \<Rightarrow> nat" where
  "from_secs n = n * 1000000000"

definition as_secs :: "nat \<Rightarrow> nat" where
  "as_secs d = d div 1000000000"

text \<open>\<open>Instant::duration_since\<close> saturates at zero, as subtraction on \<open>nat\<close> does.\<close>

definition duration_since :: "instant \<Rightarrow> instant \<Rightarrow> nat" where
  "duration_since now t = now - t"

lemma as_secs_from_secs [simp]: "as_secs (from_secs n) = n"
  by (simp add: as_secs_def from_secs_def)

lemma duration_since_mono: "a \<le> b \<Longrightarrow> duration_since a t \<le> duration_since b t"
  by (simp add: duration_since_def)

subsection \<open>Saturating 64-bit arithmetic\<close>

definition u64_max :: nat where
  "u64_max = 2 ^ 64 - 1"

definition sat_add :: "nat \<Rightarrow> nat \<Rightarrow> nat" where
  "sat_add a b = min (a + b) u64_max"

lemma sat_add_exact [sat_simps]: "a + b \<le> u64_max \<Longrightarrow> sat_add a b = a + b"
  by (simp add: sat_add_def)

lemma sat_add_le [sat_simps]: "sat_add a b \<le> a + b"
  by (simp add: sat_add_def)

subsection \<open>Hash maps\<close>

type_synonym ('k, 'v) hmap = "('k \<times> 'v) list"

abbreviation hm_get :: "('k, 'v) hmap \<Rightarrow> 'k \<Rightarrow> 'v option" where
  "hm_get m k \<equiv> map_of m k"

abbreviation hm_insert :: "'k \<Rightarrow> 'v \<Rightarrow> ('k, 'v) hmap \<Rightarrow> ('k, 'v) hmap" where
  "hm_insert k v m \<equiv> AList.update k v m"

abbreviation hm_remove :: "'k \<Rightarrow> ('k, 'v) hmap \<Rightarrow> ('k, 'v) hmap" where
  "hm_remove k m \<equiv> AList.delete k m"

abbreviation hm_contains :: "('k, 'v) hmap \<Rightarrow> 'k \<Rightarrow> bool" where
  "hm_contains m k \<equiv> map_of m k \<noteq> None"

definition hm_ok :: "('k, 'v) hmap \<Rightarrow> bool" where
  "hm_ok m \<longleftrightarrow> distinct (map fst m)"

lemma hm_ok_Nil [simp]: "hm_ok []"
  by (simp add: hm_ok_def)

lemma hm_ok_insert [intro, simp]: "hm_ok m \<Longrightarrow> hm_ok (hm_insert k v m)"
  by (simp add: hm_ok_def distinct_update)

lemma hm_ok_remove [intro, simp]: "hm_ok m \<Longrightarrow> hm_ok (hm_remove k m)"
  by (simp add: hm_ok_def distinct_delete)

lemma hm_ok_filter [intro, simp]: "hm_ok m \<Longrightarrow> hm_ok (filter P m)"
  by (induction m) (auto simp: hm_ok_def)

lemma hm_get_insert [hm_simps, simp]: "hm_get (hm_insert k v m) k' = (if k' = k then Some v else hm_get m k')"
  by (simp add: update_conv')

lemma hm_get_remove [hm_simps, simp]: "hm_get (hm_remove k m) k' = (if k' = k then None else hm_get m k')"
  by (simp add: delete_conv')

lemma hm_get_filter: 
  "hm_ok m \<Longrightarrow> hm_get (filter (\<lambda>(k, v). P k v) m) k =
     (case hm_get m k of None \<Rightarrow> None | Some v \<Rightarrow> if P k v then Some v else None)"
proof (induction m)
  case Nil
  then show ?case by simp
next
  case (Cons kv m)
  obtain k' v' where kv: "kv = (k', v')" by (cases kv)
  from Cons.prems kv have ok: "hm_ok m" and fresh: "k' \<notin> fst ` set m"
    by (auto simp: hm_ok_def)
  have "hm_get m k' = None" using fresh by (simp add: map_of_eq_None_iff)
  with Cons.IH[OF ok] kv show ?case by auto
qed

lemma hm_get_SomeD: "hm_get m k = Some v \<Longrightarrow> (k, v) \<in> set m"
  by (rule map_of_SomeD)

lemma hm_get_in: "hm_ok m \<Longrightarrow> (k, v) \<in> set m \<Longrightarrow> hm_get m k = Some v"
  by (simp add: hm_ok_def)

lemma hm_remove_absent: "hm_get m k = None \<Longrightarrow> hm_remove k m = m"
  by (simp add: map_of_eq_None_iff)

lemma hm_remove_eq_filter: "hm_remove k m = filter (\<lambda>(k', _). k' \<noteq> k) m"
  by (auto simp: AList.delete_eq intro!: filter_cong)

lemma set_hm_remove: "set (hm_remove k m) \<subseteq> set m"
  by (auto simp: hm_remove_eq_filter)

lemma set_hm_insert: "set (hm_insert k v m) \<subseteq> insert (k, v) (set m)"
  by (induction m) auto

lemma length_hm_remove: "hm_get m k \<noteq> None \<Longrightarrow> length (hm_remove k m) < length m"
proof -
  assume "hm_get m k \<noteq> None"
  then obtain v where "(k, v) \<in> set m" by (auto dest: map_of_SomeD)
  then show ?thesis
    by (auto simp: hm_remove_eq_filter intro!: length_filter_less)
qed

subsection \<open>Characters as bytes\<close>

lemma of_char_less_256: "(of_char c :: nat) < 256"
  by (metis mod_less_divisor of_char_mod_256 zero_less_numeral)

subsection \<open>Lists\<close>

lemma find_SomeD: "find P xs = Some x \<Longrightarrow> x \<in> set xs \<and> P x"
  by (auto simp: find_Some_iff)

lemma find_NoneD: "find P xs = None \<Longrightarrow> x \<in> set xs \<Longrightarrow> \<not> P x"
  by (auto simp: find_None_iff)

end
