(* ===== verification/Ring.thy ===== *)
theory Ring
  imports Prelude
begin

text \<open>
  The in-memory output ring of a session (\<open>src/src/daemon/session.rs\<close>, \<open>RingBuffer\<close>): a
  bounded byte buffer addressed by absolute stream offsets. The specification is the whole
  stream ever pushed; the ring is shown to hold its last \<open>cap\<close> bytes. Stream positions are
  \<open>u64\<close> in the code and \<open>nat\<close> here: they count bytes received, far below \<open>2 ^ 64\<close>.
\<close>

definition RING_CAPACITY :: nat where
  "RING_CAPACITY = 256 * 1024"

record ring =
  ring_buf :: bytes
  ring_cap :: nat
  total_written :: nat

definition ring_new :: "nat \<Rightarrow> ring" where
  "ring_new c = \<lparr>ring_buf = [], ring_cap = c, total_written = 0\<rparr>"

definition push_slice :: "ring \<Rightarrow> bytes \<Rightarrow> ring" where
  "push_slice r data =
     (let data' = (if length data > ring_cap r then drop (length data - ring_cap r) data else data);
          overflow = length (ring_buf r) + length data' - ring_cap r;
          kept = (if length (ring_buf r) + length data' > ring_cap r
                  then drop (min overflow (length (ring_buf r))) (ring_buf r)
                  else ring_buf r)
      in r\<lparr>ring_buf := kept @ data', total_written := total_written r + length data\<rparr>)"

definition start_offset :: "ring \<Rightarrow> nat" where
  "start_offset r = total_written r - length (ring_buf r)"

definition ring_since :: "ring \<Rightarrow> nat \<Rightarrow> bytes \<times> bool" where
  "ring_since r cursor =
     (let start = start_offset r;
          dropped = cursor < start;
          effective = max cursor start
      in (drop (effective - start) (ring_buf r), dropped))"

definition ring_tail :: "ring \<Rightarrow> nat \<Rightarrow> bytes" where
  "ring_tail r n = drop (length (ring_buf r) - n) (ring_buf r)"

subsection \<open>The contract of a bounded stream buffer\<close>

text \<open>
  \<open>holds b s\<close>: the buffer stands for the stream \<open>s\<close>. A client relies on these laws only:
  pushing appends to the stream, and reading from an offset returns the stream from there,
  minus what has left the window of the last \<open>window b\<close> bytes.
\<close>

locale stream_buffer =
  fixes push :: "'b \<Rightarrow> bytes \<Rightarrow> 'b"
    and since :: "'b \<Rightarrow> nat \<Rightarrow> bytes \<times> bool"
    and written :: "'b \<Rightarrow> nat"
    and window :: "'b \<Rightarrow> nat"
    and holds :: "'b \<Rightarrow> bytes \<Rightarrow> bool"
  assumes holds_push: "holds b s \<Longrightarrow> holds (push b d) (s @ d)"
    and window_push: "window (push b d) = window b"
    and written_holds: "holds b s \<Longrightarrow> written b = length s"
    and since_holds: "holds b s \<Longrightarrow>
          since b c = (drop (max c (length s - window b)) s, c < length s - window b)"
begin

definition push_all :: "'b \<Rightarrow> bytes list \<Rightarrow> 'b" where
  "push_all b ds = foldl push b ds"

lemma holds_push_all: "holds b s \<Longrightarrow> holds (push_all b ds) (s @ concat ds)"
proof (induction ds arbitrary: b s)
  case Nil
  then show ?case by (simp add: push_all_def)
next
  case (Cons d ds)
  from Cons.IH[OF holds_push[OF Cons.prems]] show ?case by (simp add: push_all_def)
qed

lemma window_push_all: "window (push_all b ds) = window b"
  by (induction ds arbitrary: b) (simp_all add: push_all_def window_push)

lemma written_push_all: "holds b s \<Longrightarrow> written (push_all b ds) = written b + length (concat ds)"
  using written_holds holds_push_all by (metis length_append)

text \<open>Whatever was pushed after a noted offset is read back exactly while it fits the window.\<close>

lemma since_noted_offset:
  assumes "holds b s" and "length (concat ds) \<le> window b"
  shows "since (push_all b ds) (written b) = (concat ds, False)"
  using since_holds[OF holds_push_all[OF assms(1), of ds], of "written b"]
    written_holds[OF assms(1)] window_push_all[of b ds] assms(2)
  by (auto simp: max_def)

text \<open>And what no longer fits is reported as dropped, its last \<open>window\<close> bytes still served.\<close>

lemma since_overrun:
  assumes "holds b s" and "window b < length (concat ds)"
  shows "since (push_all b ds) (written b) =
     (drop (length (concat ds) - window b) (concat ds), True)"
  using since_holds[OF holds_push_all[OF assms(1), of ds], of "written b"]
    written_holds[OF assms(1)] window_push_all[of b ds] assms(2)
  by (auto simp: max_def)

end

subsection \<open>The ring satisfies the contract\<close>

definition ring_holds :: "ring \<Rightarrow> bytes \<Rightarrow> bool" where
  "ring_holds r s \<longleftrightarrow>
     total_written r = length s \<and> ring_buf r = drop (length s - ring_cap r) s"

lemma ring_holds_new: "ring_holds (ring_new c) []"
  by (simp add: ring_holds_def ring_new_def)

lemma ring_cap_push [simp]: "ring_cap (push_slice r d) = ring_cap r"
  by (simp add: push_slice_def Let_def)

lemma total_written_push [simp]: "total_written (push_slice r d) = total_written r + length d"
  by (simp add: push_slice_def Let_def)

lemma ring_holds_push:
  assumes "ring_holds r s"
  shows "ring_holds (push_slice r d) (s @ d)"
proof -
  have tw: "total_written r = length s" and b: "ring_buf r = drop (length s - ring_cap r) s"
    using assms by (auto simp: ring_holds_def)
  show ?thesis
  proof (cases "length d > ring_cap r")
    case True
    then have "ring_buf (push_slice r d) = drop (length d - ring_cap r) d"
      by (auto simp: push_slice_def Let_def b)
    with True tw show ?thesis by (simp add: ring_holds_def)
  next
    case False
    then have fits: "length d \<le> ring_cap r" by simp
    have "ring_buf (push_slice r d) = drop (length s + length d - ring_cap r) s @ d"
    proof (cases "length s + length d \<le> ring_cap r")
      case True
      then show ?thesis by (simp add: push_slice_def Let_def b)
    next
      case False
      then have "length s - ring_cap r + (length (ring_buf r) + length d - ring_cap r)
          = length s + length d - ring_cap r"
        using fits by (simp add: b)
      moreover have "length (ring_buf r) + length d - ring_cap r \<le> length (ring_buf r)"
        using fits by simp
      moreover have "d = [] \<or> ring_cap r < length (ring_buf r) + length d"
        using False by (cases d) (auto simp: b)
      ultimately show ?thesis
        using fits by (auto simp: push_slice_def Let_def b min_def drop_drop add.commute)
    qed
    with fits tw show ?thesis by (simp add: ring_holds_def drop_append)
  qed
qed

lemma ring_since_holds:
  assumes "ring_holds r s"
  shows "ring_since r c = (drop (max c (length s - ring_cap r)) s, c < length s - ring_cap r)"
proof -
  have "start_offset r = length s - ring_cap r"
    using assms by (auto simp: start_offset_def ring_holds_def)
  then show ?thesis
    using assms by (auto simp: ring_since_def Let_def ring_holds_def max_def)
qed

interpretation rb: stream_buffer push_slice ring_since total_written ring_cap ring_holds
  by unfold_locales (simp_all add: ring_holds_push ring_since_holds, simp add: ring_holds_def)

lemma ring_bounded: "ring_holds r s \<Longrightarrow> length (ring_buf r) \<le> ring_cap r"
  by (auto simp: ring_holds_def)

subsection \<open>Properties\<close>

text \<open>
  The ring is a faithful bounded window of the output stream: after any sequence of
  pushes into a new ring, a read from any absolute offset returns exactly the pushed bytes
  from that offset on, except those older than the capacity, and reports whether some were
  lost; and the tail read returns the last bytes of the stream.
\<close>

theorem ring_refines_stream:
  "let r = foldl push_slice (ring_new c) ds; s = concat ds in
     ring_since r cur = (drop (max cur (length s - c)) s, cur < length s - c)
     \<and> ring_tail r n = drop (length s - min n c) s
     \<and> total_written r = length s"
proof -
  have h: "ring_holds (foldl push_slice (ring_new c) ds) (concat ds)"
    using rb.holds_push_all[OF ring_holds_new, of c ds] by (simp add: rb.push_all_def)
  have cap: "ring_cap (foldl push_slice (ring_new c) ds) = c"
    using rb.window_push_all[of "ring_new c" ds] by (simp add: rb.push_all_def ring_new_def)
  have "length s - (length s - m) = min m (length s)" for s :: bytes and m
    by simp
  moreover have "(length s - c) + (length (drop (length s - c) s) - n) = length s - min n c"
    for s :: bytes by auto
  ultimately show ?thesis
    using ring_since_holds[OF h, of cur] h cap
    by (simp add: Let_def ring_tail_def ring_holds_def drop_drop add.commute)
qed

end
