(* ===== verification/Text.thy ===== *)
theory Text
  imports Prelude "HOL-Library.Char_ord" "HOL-Library.List_Lexorder"
begin

text \<open>
  The parts of Rust's \<open>str\<close> and \<open>char\<close> the sources use. A \<open>&str\<close> is a list of
  characters read as Unicode scalar values U+0000 to U+00FF; text outside this range is not
  modelled. Within it the functions below are exact: Unicode white space and control
  characters of the range included, and \<open>str_len\<close> counts UTF-8 bytes as \<open>str::len\<close> does.
\<close>

abbreviation (input) code :: "char \<Rightarrow> nat" where "code c \<equiv> of_char c"

definition is_ws :: "char \<Rightarrow> bool" where
  "is_ws c \<longleftrightarrow> code c \<in> {9, 10, 11, 12, 13, 32, 133, 160}"

definition is_control :: "char \<Rightarrow> bool" where
  "is_control c \<longleftrightarrow> code c < 32 \<or> (127 \<le> code c \<and> code c < 160)"

definition str_len :: "string \<Rightarrow> nat" where
  "str_len s = sum_list (map (\<lambda>c. if code c < 128 then 1 else 2) s)"

definition trim_start :: "string \<Rightarrow> string" where "trim_start s = dropWhile is_ws s"
definition trim_end :: "string \<Rightarrow> string" where "trim_end s = rev (dropWhile is_ws (rev s))"
definition trim :: "string \<Rightarrow> string" where "trim s = trim_end (trim_start s)"

definition ascii_lower_char :: "char \<Rightarrow> char" where
  "ascii_lower_char c = (if 65 \<le> code c \<and> code c \<le> 90 then char_of (code c + 32) else c)"

definition to_ascii_lowercase :: "string \<Rightarrow> string" where
  "to_ascii_lowercase s = map ascii_lower_char s"

definition eq_ignore_ascii_case :: "string \<Rightarrow> string \<Rightarrow> bool" where
  "eq_ignore_ascii_case a b \<longleftrightarrow> to_ascii_lowercase a = to_ascii_lowercase b"

text \<open>\<open>str::split(c)\<close>: always at least one piece.\<close>

fun split_on :: "char \<Rightarrow> string \<Rightarrow> string list" where
  "split_on d [] = [[]]"
| "split_on d (c # s) =
     (if c = d then [] # split_on d s
      else (case split_on d s of [] \<Rightarrow> [[c]] | w # ws \<Rightarrow> (c # w) # ws))"

fun split_ws_from :: "string \<Rightarrow> string \<Rightarrow> string list" where
  "split_ws_from tok [] = (if tok = [] then [] else [tok])"
| "split_ws_from tok (c # s) =
     (if is_ws c then (if tok = [] then split_ws_from [] s else tok # split_ws_from [] s)
      else split_ws_from (tok @ [c]) s)"

definition split_whitespace :: "string \<Rightarrow> string list" where
  "split_whitespace s = split_ws_from [] s"

text \<open>\<open>str::split_inclusive('\n')\<close> and \<open>str::lines\<close>.\<close>

fun split_inclusive :: "string \<Rightarrow> string \<Rightarrow> string list" where
  "split_inclusive acc [] = (if acc = [] then [] else [acc])"
| "split_inclusive acc (c # s) =
     (if c = LF then (acc @ [c]) # split_inclusive [] s else split_inclusive (acc @ [c]) s)"

definition strip_newline :: "string \<Rightarrow> string" where
  "strip_newline l =
     (if l \<noteq> [] \<and> last l = LF
      then (let b = butlast l in if b \<noteq> [] \<and> last b = CR then butlast b else b)
      else l)"

definition str_lines :: "string \<Rightarrow> string list" where
  "str_lines s = map strip_newline (split_inclusive [] s)"

definition split_once :: "char \<Rightarrow> string \<Rightarrow> (string \<times> string) option" where
  "split_once d s =
     (if d \<in> set s then Some (takeWhile (\<lambda>c. c \<noteq> d) s, tl (dropWhile (\<lambda>c. c \<noteq> d) s)) else None)"

definition rsplit_once :: "char \<Rightarrow> string \<Rightarrow> (string \<times> string) option" where
  "rsplit_once d s =
     (case split_once d (rev s) of None \<Rightarrow> None | Some (a, b) \<Rightarrow> Some (rev b, rev a))"

definition strip_prefix :: "string \<Rightarrow> string \<Rightarrow> string option" where
  "strip_prefix p s = (if take (length p) s = p then Some (drop (length p) s) else None)"

text \<open>\<open>str::parse::<u16>\<close>: an optional plus sign, then decimal digits, at most 65535.\<close>

definition digit_of :: "char \<Rightarrow> nat option" where
  "digit_of c = (if 48 \<le> code c \<and> code c \<le> 57 then Some (code c - 48) else None)"

fun parse_dec :: "nat \<Rightarrow> string \<Rightarrow> nat option" where
  "parse_dec acc [] = Some acc"
| "parse_dec acc (c # s) =
     (case digit_of c of None \<Rightarrow> None | Some d \<Rightarrow> parse_dec (10 * acc + d) s)"

definition parse_bounded :: "nat \<Rightarrow> string \<Rightarrow> nat option" where
  "parse_bounded bound s =
     (let ds = (case s of c # r \<Rightarrow> if c = CHR ''+'' then r else s | [] \<Rightarrow> s) in
      if ds = [] then None
      else (case parse_dec 0 ds of None \<Rightarrow> None | Some n \<Rightarrow> if n \<le> bound then Some n else None))"

definition parse_u16 :: "string \<Rightarrow> nat option" where
  "parse_u16 s = parse_bounded 65535 s"

lemma parse_u16_bound: "parse_u16 s = Some n \<Longrightarrow> n \<le> 65535"
  by (auto simp: parse_u16_def parse_bounded_def Let_def split: if_splits option.splits)

text \<open>\<open>Path::join\<close> on path text.\<close>

definition path_join :: "string \<Rightarrow> string \<Rightarrow> string" where
  "path_join a b =
     (if take 1 b = ''/'' then b
      else if a = [] \<or> last a = CHR ''/'' then a @ b
      else a @ ''/'' @ b)"

text \<open>Decimal formatting of unsigned integers, and \<open>[String]::join\<close>.\<close>

fun show_nat :: "nat \<Rightarrow> string" where
  "show_nat n =
     (if n < 10 then [char_of (48 + n)] else show_nat (n div 10) @ [char_of (48 + n mod 10)])"

fun join_with :: "string \<Rightarrow> string list \<Rightarrow> string" where
  "join_with sep [] = []"
| "join_with sep [s] = s"
| "join_with sep (s # t # ss) = s @ sep @ join_with sep (t # ss)"

declare show_nat.simps [simp del]

subsection \<open>Lemmas\<close>

lemma concat_split_inclusive: "concat (split_inclusive acc s) = acc @ s"
  by (induction acc s rule: split_inclusive.induct) auto

lemma split_on_nonempty [simp]: "split_on d s \<noteq> []"
  by (induction s) (auto split: list.splits)

lemma split_once_SomeD:
  "split_once d s = Some (a, b) \<Longrightarrow> s = a @ d # b \<and> d \<notin> set a"
proof -
  assume "split_once d s = Some (a, b)"
  then have d: "d \<in> set s" and a: "a = takeWhile (\<lambda>c. c \<noteq> d) s" and b: "b = tl (dropWhile (\<lambda>c. c \<noteq> d) s)"
    by (auto simp: split_once_def split: if_splits)
  have "dropWhile (\<lambda>c. c \<noteq> d) s \<noteq> []" using d by auto
  moreover from this have "hd (dropWhile (\<lambda>c. c \<noteq> d) s) = d"
    using hd_dropWhile[of "\<lambda>c. c \<noteq> d" s] by auto
  ultimately have "dropWhile (\<lambda>c. c \<noteq> d) s = d # b" using b by (metis list.collapse)
  then show ?thesis using a takeWhile_dropWhile_id[of "\<lambda>c. c \<noteq> d" s]
    by (auto dest: set_takeWhileD)
qed

lemma split_once_at: "d \<notin> set a \<Longrightarrow> split_once d (a @ d # b) = Some (a, b)"
  by (induction a) (auto simp: split_once_def)

lemma rsplit_once_at: "d \<notin> set b \<Longrightarrow> rsplit_once d (a @ d # b) = Some (a, b)"
  using split_once_at[of d "rev b" "rev a"] by (simp add: rsplit_once_def)

lemma rsplit_once_SomeD:
  "rsplit_once d s = Some (a, b) \<Longrightarrow> s = a @ d # b \<and> d \<notin> set b"
proof -
  assume "rsplit_once d s = Some (a, b)"
  then have "split_once d (rev s) = Some (rev b, rev a)"
    by (auto simp: rsplit_once_def split: option.splits prod.splits)
  from split_once_SomeD[OF this] have "rev s = rev b @ d # rev a" "d \<notin> set b" by auto
  then show ?thesis by (metis rev_append rev_rev_ident rev.simps(2) append.assoc append_Cons append_Nil)
qed

end
