(* ===== verification/Shape.thy ===== *)
theory Shape
  imports Ring Text
begin

text \<open>
  Shaping of session output for replies (\<open>src/src/daemon/session.rs\<close>): removal of terminal
  escape sequences, the echo heuristic, lossy UTF-8 decoding and the cap that keeps the tail.
  Output is a byte string; a decoded text is a list of Unicode code points. Byte indices of
  the Rust loops are suffixes here; a command is the bytes of its UTF-8 text.
\<close>

type_synonym utext = "nat list"

definition MAX_OUTPUT_CHARS :: nat where "MAX_OUTPUT_CHARS = 30000"

abbreviation (input) ESC :: char where "ESC \<equiv> CHR 0x1B"
abbreviation (input) BEL :: char where "BEL \<equiv> CHR 0x07"
abbreviation (input) BSL :: char where "BSL \<equiv> CHR 0x5C"

subsection \<open>Escape sequences\<close>

fun skip_csi :: "bytes \<Rightarrow> bytes" where
  "skip_csi [] = []"
| "skip_csi (b # bs) = (if 0x40 \<le> code b \<and> code b \<le> 0x7E then bs else skip_csi bs)"

fun skip_osc :: "bytes \<Rightarrow> bytes" where
  "skip_osc [] = []"
| "skip_osc (b # bs) =
     (if b = BEL then bs
      else if b = ESC \<and> bs \<noteq> [] \<and> hd bs = BSL then tl bs
      else skip_osc bs)"

lemma length_skip_csi: "length (skip_csi bs) \<le> length bs"
  by (induction bs) auto

lemma length_skip_osc: "length (skip_osc bs) \<le> length bs"
  by (induction bs) auto

function strip_ansi :: "bytes \<Rightarrow> bytes" where
  "strip_ansi [] = []"
| "strip_ansi (b # bs) =
     (if b \<noteq> ESC then b # strip_ansi bs
      else (case bs of
              [] \<Rightarrow> []
            | c # rest \<Rightarrow>
                if c = CHR ''['' then strip_ansi (skip_csi rest)
                else if c = CHR '']'' then strip_ansi (skip_osc rest)
                else strip_ansi rest))"
  by pat_completeness auto
termination
  by (relation "measure length")
    (auto simp: le_imp_less_Suc le_SucI length_skip_csi length_skip_osc)

subsection \<open>Echo suppression\<close>

text \<open>
  \<open>str::trim_end\<close> on the UTF-8 bytes of a command: the number of bytes of a final white-space
  character, read from the end, and their removal.
\<close>

definition ws_bytes :: "bytes \<Rightarrow> nat" where
  "ws_bytes r =
     (case r of [] \<Rightarrow> 0 | a # r1 \<Rightarrow>
        if code a \<in> {9, 10, 11, 12, 13, 32} then 1
        else (case r1 of [] \<Rightarrow> 0 | b # r2 \<Rightarrow>
          if code b = 0xC2 \<and> code a \<in> {0x85, 0xA0} then 2
          else (case r2 of [] \<Rightarrow> 0 | c # r3 \<Rightarrow>
            if (code c, code b, code a) \<in> {(0xE1, 0x9A, 0x80), (0xE2, 0x81, 0x9F), (0xE3, 0x80, 0x80)}
               \<or> code c = 0xE2 \<and> code b = 0x80
                 \<and> (0x80 \<le> code a \<and> code a \<le> 0x8A \<or> code a \<in> {0xA8, 0xA9, 0xAF})
            then 3 else 0)))"

function trim_end_rev :: "bytes \<Rightarrow> bytes" where
  "trim_end_rev r = (if ws_bytes r = 0 then r else trim_end_rev (drop (ws_bytes r) r))"
  by pat_completeness auto
termination
proof (relation "measure length")
  fix r assume "ws_bytes r \<noteq> 0"
  then have "r \<noteq> []" by (auto simp: ws_bytes_def)
  with \<open>ws_bytes r \<noteq> 0\<close> show "(drop (ws_bytes r) r, r) \<in> measure length" by simp
qed simp

declare trim_end_rev.simps [simp del]

definition trim_end_bytes :: "bytes \<Rightarrow> bytes" where
  "trim_end_bytes s = rev (trim_end_rev (rev s))"

definition strip_echoed_command :: "bytes \<Rightarrow> bytes list \<Rightarrow> bytes" where
  "strip_echoed_command output candidates =
     (case split_once LF output of
        None \<Rightarrow> output
      | Some (line, rest) \<Rightarrow>
          (let first_line = (if line \<noteq> [] \<and> last line = CR then butlast line else line) in
           if \<exists>c \<in> set candidates. first_line = trim_end_bytes c then rest else output))"

subsection \<open>Lossy decoding\<close>

text \<open>
  \<open>String::from_utf8_lossy\<close>: maximal well-formed sequences are decoded, every maximal
  ill-formed prefix becomes U+FFFD. \<open>utf8_next\<close> decodes one sequence and returns what is left.
\<close>

definition REPLACEMENT :: nat where "REPLACEMENT = 0xFFFD"

definition is_cont :: "char \<Rightarrow> bool" where
  "is_cont b \<longleftrightarrow> 0x80 \<le> code b \<and> code b \<le> 0xBF"

definition utf8_width :: "char \<Rightarrow> nat" where
  "utf8_width b =
     (if code b < 0x80 then 1
      else if 0xC2 \<le> code b \<and> code b \<le> 0xDF then 2
      else if 0xE0 \<le> code b \<and> code b \<le> 0xEF then 3
      else if 0xF0 \<le> code b \<and> code b \<le> 0xF4 then 4
      else 0)"

text \<open>The second byte of a sequence: overlong forms, surrogates and values past U+10FFFF are out.\<close>

definition second_ok :: "char \<Rightarrow> char \<Rightarrow> bool" where
  "second_ok b c \<longleftrightarrow> is_cont c
     \<and> (code b = 0xE0 \<longrightarrow> 0xA0 \<le> code c) \<and> (code b = 0xED \<longrightarrow> code c \<le> 0x9F)
     \<and> (code b = 0xF0 \<longrightarrow> 0x90 \<le> code c) \<and> (code b = 0xF4 \<longrightarrow> code c \<le> 0x8F)"

fun take_cont :: "nat \<Rightarrow> nat \<Rightarrow> bytes \<Rightarrow> nat \<times> bytes" where
  "take_cont 0 acc bs = (acc, bs)"
| "take_cont (Suc n) acc [] = (REPLACEMENT, [])"
| "take_cont (Suc n) acc (b # bs) =
     (if is_cont b then take_cont n (acc * 64 + (code b - 0x80)) bs else (REPLACEMENT, b # bs))"

definition utf8_next :: "char \<Rightarrow> bytes \<Rightarrow> nat \<times> bytes" where
  "utf8_next b bs =
     (let w = utf8_width b in
      if w = 1 then (code b, bs)
      else if w = 0 then (REPLACEMENT, bs)
      else (case bs of
              [] \<Rightarrow> (REPLACEMENT, [])
            | c # cs \<Rightarrow>
                if second_ok b c
                then take_cont (w - 2) ((code b mod 2 ^ (7 - w)) * 64 + (code c - 0x80)) cs
                else (REPLACEMENT, c # cs)))"

lemma take_cont_len: "length (snd (take_cont n acc bs)) \<le> length bs"
  by (induction n acc bs rule: take_cont.induct) auto

lemma utf8_next_len: "length (snd (utf8_next b bs)) \<le> length bs"
  using take_cont_len[THEN le_SucI] by (auto simp: utf8_next_def Let_def split: list.splits)

function from_utf8_lossy :: "bytes \<Rightarrow> utext" where
  "from_utf8_lossy [] = []"
| "from_utf8_lossy (b # bs) = fst (utf8_next b bs) # from_utf8_lossy (snd (utf8_next b bs))"
  by pat_completeness auto
termination
  by (relation "measure length") (auto simp: le_imp_less_Suc utf8_next_len)

subsection \<open>Shaping\<close>

definition to_utext :: "string \<Rightarrow> utext" where
  "to_utext s = map of_char s"

definition truncation_marker :: "nat \<Rightarrow> nat \<Rightarrow> utext" where
  "truncation_marker skip tot =
     to_utext (''... [truncated '' @ show_nat skip @ '' chars; '' @ show_nat tot
       @ '' bytes total in this run '') @ [0x2014]
     @ to_utext ('' see spool file for retained output (64 MiB/run cap)] ...'' @ [LF])"

definition shape_output :: "bytes \<Rightarrow> bool \<Rightarrow> utext \<times> bool \<times> nat" where
  "shape_output raw raw_mode =
     (let processed = (if raw_mode then raw else strip_ansi raw);
          total_bytes = length processed;
          txt = from_utf8_lossy processed;
          char_count = length txt
      in if char_count \<le> MAX_OUTPUT_CHARS then (txt, False, total_bytes)
         else
           let skip = char_count - MAX_OUTPUT_CHARS
           in (truncation_marker skip total_bytes @ drop skip txt, True, total_bytes))"

subsection \<open>Lemmas\<close>

lemma strip_ansi_no_esc: "ESC \<notin> set (strip_ansi bs)"
  by (induction bs rule: strip_ansi.induct) (auto split: list.splits)

lemma strip_ansi_id: "ESC \<notin> set bs \<Longrightarrow> strip_ansi bs = bs"
  by (induction bs) auto

lemma strip_ansi_length: "length (strip_ansi bs) \<le> length bs"
proof (induction bs rule: strip_ansi.induct)
  case (2 b bs)
  then show ?case
    using length_skip_csi length_skip_osc by (fastforce split: list.splits intro: le_trans le_SucI)
qed simp

lemma take_cont_code:
  "fst (take_cont n acc bs) = REPLACEMENT \<or> acc * 64 ^ n \<le> fst (take_cont n acc bs)"
proof (induction n acc bs rule: take_cont.induct)
  case (3 n acc b bs)
  have "acc * 64 ^ Suc n \<le> (acc * 64 + (code b - 0x80)) * 64 ^ n" by simp
  with 3 have "is_cont b \<Longrightarrow> fst (take_cont n (acc * 64 + (code b - 0x80)) bs) = REPLACEMENT
      \<or> acc * 64 ^ Suc n \<le> fst (take_cont n (acc * 64 + (code b - 0x80)) bs)"
    using le_trans by blast
  then show ?case unfolding take_cont.simps by (cases "is_cont b") (simp_all only: if_True if_False fst_conv simp_thms)
qed simp_all

lemma take_cont_set: "set (snd (take_cont n acc bs)) \<subseteq> set bs"
  by (induction n acc bs rule: take_cont.induct) auto

lemma utf8_next_set: "set (snd (utf8_next b bs)) \<subseteq> set bs"
  by (auto simp: utf8_next_def Let_def split: list.splits dest: subsetD[OF take_cont_set])

lemma mod_window: "m * q \<le> n \<Longrightarrow> n < m * q + m \<Longrightarrow> n mod m = n - m * (q :: nat)"
  by (metis add_diff_inverse_nat less_diff_conv2 mod_less mod_mult_self4 not_less add.commute)

lemma lead_bits:
  "194 \<le> (n::nat) \<Longrightarrow> n \<le> 223 \<Longrightarrow> 2 \<le> n mod 32"
  "224 \<le> n \<Longrightarrow> n \<le> 239 \<Longrightarrow> n = 224 \<or> 1 \<le> n mod 16"
  "240 \<le> n \<Longrightarrow> n \<le> 244 \<Longrightarrow> n = 240 \<or> 1 \<le> n mod 8"
  using mod_window[of 32 6 n] mod_window[of 16 14 n] mod_window[of 8 30 n] by simp_all linarith+

text \<open>A multi-byte sequence never decodes to an ASCII character.\<close>

lemma utf8_next_ascii: "fst (utf8_next b bs) < 32 \<Longrightarrow> fst (utf8_next b bs) = code b"
proof (rule ccontr)
  assume lt: "fst (utf8_next b bs) < 32" and ne: "fst (utf8_next b bs) \<noteq> code b"
  have wid: "utf8_width b \<in> {0, 1, 2, 3, 4}" by (simp add: utf8_width_def)
  have w: "utf8_width b \<noteq> 1" "utf8_width b \<noteq> 0"
    using lt ne by (cases "utf8_width b = 0"; auto simp: utf8_next_def Let_def REPLACEMENT_def)+
  from lt w obtain c cs where bs: "bs = c # cs"
    by (cases bs) (simp_all add: utf8_next_def Let_def REPLACEMENT_def)
  from lt w bs have so: "second_ok b c"
    by (cases "second_ok b c") (simp_all add: utf8_next_def Let_def REPLACEMENT_def)
  with w bs wid obtain w where c: "bs = c # cs" "second_ok b c" "w = utf8_width b" "w \<in> {2, 3, 4}"
    and eq: "utf8_next b bs = take_cont (w - 2) ((code b mod 2 ^ (7 - w)) * 64 + (code c - 0x80)) cs"
    by (simp add: utf8_next_def Let_def)
  define acc where "acc = (code b mod 2 ^ (7 - w)) * 64 + (code c - 0x80)"
  have "acc * 64 ^ (w - 2) < 32"
    using take_cont_code[of "w - 2" acc cs] lt eq by (auto simp: REPLACEMENT_def acc_def)
  moreover have "32 \<le> acc * 64 ^ (w - 2)"
  proof -
    consider "w = 2" | "w = 3" | "w = 4" using c(4) by auto
    then show ?thesis
    proof cases
      case 1
      with c(3) have "194 \<le> code b" "code b \<le> 223" by (auto simp: utf8_width_def split: if_splits)
      then have "2 \<le> code b mod 32" using lead_bits(1) by blast
      with 1 show ?thesis by (simp add: acc_def)
    next
      case 2
      with c(3) have "224 \<le> code b" "code b \<le> 239" by (auto simp: utf8_width_def split: if_splits)
      then have "code b = 224 \<or> 1 \<le> code b mod 16" using lead_bits(2) by blast
      moreover have "code b = 224 \<Longrightarrow> 0x20 \<le> code c - 0x80" using c(2) unfolding second_ok_def by linarith
      ultimately show ?thesis using 2 by (auto simp: acc_def)
    next
      case 3
      with c(3) have "240 \<le> code b" "code b \<le> 244" by (auto simp: utf8_width_def split: if_splits)
      then have "code b = 240 \<or> 1 \<le> code b mod 8" using lead_bits(3) by blast
      moreover have "code b = 240 \<Longrightarrow> 0x10 \<le> code c - 0x80" using c(2) unfolding second_ok_def by linarith
      ultimately show ?thesis using 3 by (auto simp: acc_def)
    qed
  qed
  ultimately show False by simp
qed

lemma decoded_no_esc: "ESC \<notin> set bs \<Longrightarrow> 27 \<notin> set (from_utf8_lossy bs)"
proof (induction bs rule: from_utf8_lossy.induct)
  case (2 b bs)
  have "fst (utf8_next b bs) \<noteq> 27"
  proof
    assume "fst (utf8_next b bs) = 27"
    with utf8_next_ascii[of b bs] have "code b = 27" by simp
    then have "code b = code ESC" by simp
    then have "b = ESC" using of_char_eq_iff by blast
    with 2(2) show False by simp
  qed
  with 2 utf8_next_set show ?case by (auto simp: subset_iff)
qed simp

lemma length_from_utf8: "length (from_utf8_lossy bs) \<le> length bs"
proof (induction bs rule: from_utf8_lossy.induct)
  case (2 b bs)
  then show ?case using utf8_next_len[of b bs] by simp
qed simp

lemma from_utf8_ascii: "\<forall>b\<in>set bs. code b < 0x80 \<Longrightarrow> from_utf8_lossy bs = to_utext bs"
  by (induction bs) (auto simp: to_utext_def utf8_next_def utf8_width_def Let_def)

lemma length_show_nat: "n < 10 ^ Suc k \<Longrightarrow> length (show_nat n) \<le> Suc k"
proof (induction k arbitrary: n)
  case 0
  then show ?case by (subst show_nat.simps) simp
next
  case (Suc k)
  then have "n div 10 < 10 ^ Suc k" by (simp add: less_mult_imp_div_less)
  from Suc.IH[OF this] show ?case by (subst show_nat.simps) simp
qed

lemma show_nat_digits: "c \<in> set (show_nat n) \<Longrightarrow> 48 \<le> code c \<and> code c \<le> 57"
proof (induction n rule: show_nat.induct)
  case (1 n)
  show ?case
  proof (cases "n < 10")
    case True
    with "1.prems" show ?thesis by (subst (asm) show_nat.simps) (auto simp: of_char_of)
  next
    case False
    with 1 show ?thesis by (subst (asm) show_nat.simps) (auto simp: of_char_of)
  qed
qed

subsection \<open>Property\<close>

lemma marker_no_esc: "27 \<notin> set (truncation_marker skip tot)"
  by (auto simp: truncation_marker_def to_utext_def dest: show_nat_digits)

lemma marker_length: "skip \<le> u64_max \<Longrightarrow> tot \<le> u64_max \<Longrightarrow> length (truncation_marker skip tot) \<le> 200"
  using length_show_nat[of skip 19] length_show_nat[of tot 19]
  by (simp add: truncation_marker_def to_utext_def u64_max_def)

text \<open>
  What an agent is shown is a bounded, escape-free tail of the real output: the text is
  the last 30000 characters of the decoded output (all of it when it is no longer than that),
  preceded only when something was cut by a marker of at most 200 characters; the reported
  size is that of the processed output; and unless raw output was asked for no escape
  character is left in it, however the stream was malformed.
\<close>

theorem shaped_output_is_safe_tail:
  assumes "shape_output raw raw_mode = (txt, tr, tot)" and "length raw \<le> u64_max"
  shows "\<exists>pre full. full = from_utf8_lossy (if raw_mode then raw else strip_ansi raw)
      \<and> txt = pre @ drop (length full - MAX_OUTPUT_CHARS) full
      \<and> length pre \<le> 200 \<and> tr = (MAX_OUTPUT_CHARS < length full) \<and> (tr \<or> pre = [])
      \<and> length full \<le> tot \<and> tot \<le> length raw \<and> (raw_mode \<or> 27 \<notin> set txt)"
proof -
  define proc where "proc = (if raw_mode then raw else strip_ansi raw)"
  define full where "full = from_utf8_lossy proc"
  have len: "length full \<le> length proc" "length proc \<le> length raw"
    using length_from_utf8 strip_ansi_length by (auto simp: full_def proc_def)
  have esc: "raw_mode \<or> 27 \<notin> set full"
    using decoded_no_esc[OF strip_ansi_no_esc] by (auto simp: full_def proc_def)
  define pre where "pre = (if MAX_OUTPUT_CHARS < length full
     then truncation_marker (length full - MAX_OUTPUT_CHARS) (length proc) else [])"
  have pre: "length pre \<le> 200" "27 \<notin> set pre" "MAX_OUTPUT_CHARS < length full \<or> pre = []"
    using marker_length[of "length full - MAX_OUTPUT_CHARS" "length proc"] len assms(2)
    by (auto simp: pre_def marker_no_esc)
  have eq: "txt = pre @ drop (length full - MAX_OUTPUT_CHARS) full"
    "tr = (MAX_OUTPUT_CHARS < length full)" "tot = length proc"
    using assms(1) by (auto simp: shape_output_def Let_def pre_def full_def proc_def split: if_splits)
  have "raw_mode \<or> 27 \<notin> set txt"
    using esc pre(2) eq(1) by (auto dest: in_set_dropD)
  with pre eq len show ?thesis
    by (intro exI[of _ pre] exI[of _ full]) (simp add: full_def proc_def)
qed

theorem shaped_output_is_safe_tail_witness:
  "\<exists>pre full. full = from_utf8_lossy ''red''
      \<and> to_utext ''red'' = pre @ drop (length full - MAX_OUTPUT_CHARS) full \<and> length full \<le> 3"
proof -
  have strip: "strip_ansi (ESC # ''[31mred'') = ''red''" by simp
  have dec: "from_utf8_lossy ''red'' = to_utext ''red''" by (rule from_utf8_ascii) simp
  have "shape_output (ESC # ''[31mred'') False = (to_utext ''red'', False, 3)"
    by (simp add: shape_output_def strip dec Let_def MAX_OUTPUT_CHARS_def to_utext_def del: from_utf8_lossy.simps)
  from shaped_output_is_safe_tail[OF this] show ?thesis
    by (simp add: strip u64_max_def)
qed

end
