(* ===== verification/Scrubber.thy ===== *)
theory Scrubber
  imports Prelude
begin

text \<open>
  Sentinel framing of the PTY stream (\<open>src/src/daemon/session.rs\<close>): the marker pattern
  \<open><sentinel><digits><sentinel>\<close>, the scanner that recognises it at one position of a
  buffer, and the streaming scrubber that removes markers from the shell's output before
  anything reaches the ring buffer. Byte indices of the Rust scanner are suffixes here: each
  helper returns what is left of the buffer.
\<close>

subsection \<open>Marker pattern\<close>

definition SENTINEL_PREFIX :: bytes where "SENTINEL_PREFIX = ''__sloosh_''"
definition SENTINEL_HEX_LEN :: nat where "SENTINEL_HEX_LEN = 32"
definition SENTINEL_SUFFIX :: bytes where "SENTINEL_SUFFIX = ''__''"
definition SENTINEL_LEN :: nat where
  "SENTINEL_LEN = length SENTINEL_PREFIX + SENTINEL_HEX_LEN + length SENTINEL_SUFFIX"
definition MARKER_MAX_DIGITS :: nat where "MARKER_MAX_DIGITS = 3"

definition HEX_CHARS :: bytes where "HEX_CHARS = ''0123456789abcdef''"
definition DIGIT_CHARS :: bytes where "DIGIT_CHARS = ''0123456789''"

definition is_hex :: "char \<Rightarrow> bool" where "is_hex b \<longleftrightarrow> b \<in> set HEX_CHARS"
definition is_digit :: "char \<Rightarrow> bool" where "is_digit b \<longleftrightarrow> b \<in> set DIGIT_CHARS"

text \<open>\<open>format!("{n:032x}")\<close>: the 32 lowercase hex digits of a random 128-bit number.\<close>

fun hex_pad :: "nat \<Rightarrow> nat \<Rightarrow> bytes" where
  "hex_pad 0 n = []"
| "hex_pad (Suc k) n = hex_pad k (n div 16) @ [HEX_CHARS ! (n mod 16)]"

definition make_sentinel :: "nat \<Rightarrow> bytes" where
  "make_sentinel n = SENTINEL_PREFIX @ hex_pad SENTINEL_HEX_LEN n @ SENTINEL_SUFFIX"

definition marker_printf :: "bytes \<Rightarrow> bytes" where
  "marker_printf sentinel = ''printf '' @ [CHR 0x27, CHR 0x5C, CHR ''n''] @ sentinel @ ''%s''
     @ sentinel @ [CHR 0x5C, CHR ''n'', CHR 0x27] @ '' $?'' @ [LF]"

definition frame_command :: "bytes \<Rightarrow> bytes \<Rightarrow> bytes" where
  "frame_command command sentinel = command @ ''; '' @ marker_printf sentinel"

subsection \<open>Scanning one position\<close>

datatype marker_scan = No | Partial | Complete nat bytes int

fun match_literal :: "bytes \<Rightarrow> bytes \<Rightarrow> marker_scan + bytes" where
  "match_literal [] buf = Inr buf"
| "match_literal (e # es) [] = Inl Partial"
| "match_literal (e # es) (b # bs) = (if b = e then match_literal es bs else Inl No)"

fun match_hex :: "nat \<Rightarrow> bytes \<Rightarrow> marker_scan + bytes" where
  "match_hex 0 buf = Inr buf"
| "match_hex (Suc n) [] = Inl Partial"
| "match_hex (Suc n) (b # bs) = (if is_hex b then match_hex n bs else Inl No)"

fun span_digits :: "nat \<Rightarrow> bytes \<Rightarrow> bytes \<times> bytes" where
  "span_digits 0 buf = ([], buf)"
| "span_digits (Suc n) [] = ([], [])"
| "span_digits (Suc n) (b # bs) =
     (if is_digit b then let (ds, r) = span_digits n bs in (b # ds, r) else ([], b # bs))"

definition digit_val :: "char \<Rightarrow> int" where
  "digit_val c = of_char c - 48"

definition parse_digits :: "bytes \<Rightarrow> int" where
  "parse_digits ds = foldl (\<lambda>acc d. 10 * acc + digit_val d) 0 ds"

definition scan_marker :: "bytes \<Rightarrow> marker_scan" where
  "scan_marker buf =
     (case match_literal SENTINEL_PREFIX buf of Inl r \<Rightarrow> r | Inr b1 \<Rightarrow>
      (case match_hex SENTINEL_HEX_LEN b1 of Inl r \<Rightarrow> r | Inr b2 \<Rightarrow>
      (case match_literal SENTINEL_SUFFIX b2 of Inl r \<Rightarrow> r | Inr b3 \<Rightarrow>
      (let (digits, b4) = span_digits MARKER_MAX_DIGITS b3 in
       if b4 = [] then Partial
       else if digits = [] then No
       else (case match_literal (take SENTINEL_LEN buf) b4 of Inl r \<Rightarrow> r | Inr b5 \<Rightarrow>
         Complete (length buf - length b5) (take SENTINEL_LEN buf) (parse_digits digits))))))"

definition skip_sep :: "bytes \<Rightarrow> bytes" where
  "skip_sep buf =
     (let b1 = (case buf of b # bs \<Rightarrow> if b = CR then bs else buf | [] \<Rightarrow> buf)
      in (case b1 of b # bs \<Rightarrow> if b = LF then bs else b1 | [] \<Rightarrow> b1))"

definition scan_sep_marker :: "bytes \<Rightarrow> marker_scan" where
  "scan_sep_marker buf =
     (let rest = skip_sep buf; i = length buf - length rest in
      if rest = [] then Partial
      else (case scan_marker rest of
              Complete len sentinel exit_code \<Rightarrow> Complete (len + i) sentinel exit_code
            | other \<Rightarrow> other))"

subsection \<open>Facts about the helpers\<close>

lemma match_literal_Inr: "match_literal es buf = Inr r \<Longrightarrow> buf = es @ r"
  by (induction es buf rule: match_literal.induct) (auto split: if_splits)

lemma match_literal_hit [simp]: "match_literal es (es @ r) = Inr r"
  by (induction es) auto

lemma match_literal_No_mono:
  "match_literal es buf = Inl No \<Longrightarrow> match_literal es (buf @ x) = Inl No"
  by (induction es buf rule: match_literal.induct) (auto split: if_splits)

lemma match_literal_Inr_mono:
  "match_literal es buf = Inr r \<Longrightarrow> match_literal es (buf @ x) = Inr (r @ x)"
  by (induction es buf rule: match_literal.induct) (auto split: if_splits)

lemma match_literal_not_Complete: "match_literal es buf \<noteq> Inl (Complete l s c)"
  by (induction es buf rule: match_literal.induct) auto

lemma match_literal_Partial_len: "match_literal es buf = Inl Partial \<Longrightarrow> length buf < length es"
  by (induction es buf rule: match_literal.induct) (auto split: if_splits)

lemma match_hex_Inr:
  "match_hex n buf = Inr r \<Longrightarrow> \<exists>h. buf = h @ r \<and> length h = n \<and> (\<forall>c\<in>set h. is_hex c)"
proof (induction n buf rule: match_hex.induct)
  case (3 n b bs)
  then obtain h where "bs = h @ r" "length h = n" "\<forall>c\<in>set h. is_hex c" "is_hex b"
    by (auto split: if_splits)
  then show ?case by (intro exI[of _ "b # h"]) auto
qed auto

lemma match_hex_hit: "length h = n \<Longrightarrow> \<forall>c\<in>set h. is_hex c \<Longrightarrow> match_hex n (h @ r) = Inr r"
  by (induction h arbitrary: n) auto

lemma match_hex_No_mono: "match_hex n buf = Inl No \<Longrightarrow> match_hex n (buf @ x) = Inl No"
  by (induction n buf rule: match_hex.induct) (auto split: if_splits)

lemma match_hex_Inr_mono: "match_hex n buf = Inr r \<Longrightarrow> match_hex n (buf @ x) = Inr (r @ x)"
  by (induction n buf rule: match_hex.induct) (auto split: if_splits)

lemma match_hex_not_Complete: "match_hex n buf \<noteq> Inl (Complete l s c)"
  by (induction n buf rule: match_hex.induct) auto

lemma match_hex_Partial_len: "match_hex n buf = Inl Partial \<Longrightarrow> length buf < n"
  by (induction n buf rule: match_hex.induct) (auto split: if_splits)

lemma span_digits_props:
  "span_digits n buf = (ds, r) \<Longrightarrow> buf = ds @ r \<and> length ds \<le> n \<and> (\<forall>c\<in>set ds. is_digit c)"
  by (induction n buf arbitrary: ds r rule: span_digits.induct)
    (auto split: if_splits prod.splits)

lemma span_digits_mono:
  "span_digits n buf = (ds, r) \<Longrightarrow> r \<noteq> [] \<Longrightarrow> span_digits n (buf @ x) = (ds, r @ x)"
  by (induction n buf arbitrary: ds r rule: span_digits.induct)
    (auto split: if_splits prod.splits)

lemma span_digits_hit:
  "length ds \<le> n \<Longrightarrow> \<forall>c\<in>set ds. is_digit c \<Longrightarrow> r \<noteq> [] \<Longrightarrow> \<not> is_digit (hd r) \<Longrightarrow>
     span_digits n (ds @ r) = (ds, r)"
proof (induction ds arbitrary: n)
  case Nil
  then show ?case by (cases n; cases r) auto
next
  case (Cons d ds)
  then show ?case by (cases n) auto
qed

subsection \<open>What a complete marker is\<close>

definition is_sentinel :: "bytes \<Rightarrow> bool" where
  "is_sentinel s \<longleftrightarrow> (\<exists>h. s = SENTINEL_PREFIX @ h @ SENTINEL_SUFFIX
      \<and> length h = SENTINEL_HEX_LEN \<and> (\<forall>c\<in>set h. is_hex c))"

definition is_status :: "bytes \<Rightarrow> bool" where
  "is_status ds \<longleftrightarrow> ds \<noteq> [] \<and> length ds \<le> MARKER_MAX_DIGITS \<and> (\<forall>c\<in>set ds. is_digit c)"

lemma sentinel_lens [simp]:
  "length SENTINEL_PREFIX = 9" "length SENTINEL_SUFFIX = 2"
  by (simp_all add: SENTINEL_PREFIX_def SENTINEL_SUFFIX_def)

lemma sentinel_consts: "SENTINEL_LEN = 43" "SENTINEL_HEX_LEN = 32" "MARKER_MAX_DIGITS = 3"
  by (simp_all add: SENTINEL_LEN_def SENTINEL_HEX_LEN_def MARKER_MAX_DIGITS_def)

lemma is_sentinel_length: "is_sentinel s \<Longrightarrow> length s = 43"
  by (auto simp: is_sentinel_def sentinel_consts)

lemma is_sentinel_hd: "is_sentinel s \<Longrightarrow> s \<noteq> [] \<and> hd s = CHR ''_''"
  by (auto simp: is_sentinel_def SENTINEL_PREFIX_def)

lemma length_hex_pad [simp]: "length (hex_pad k n) = k"
  by (induction k arbitrary: n) auto

lemma hex_pad_hex: "c \<in> set (hex_pad k n) \<Longrightarrow> is_hex c"
proof (induction k arbitrary: n)
  case (Suc k)
  have "HEX_CHARS ! (n mod 16) \<in> set HEX_CHARS"
    by (rule nth_mem) (simp add: HEX_CHARS_def)
  with Suc show ?case by (auto simp: is_hex_def)
qed simp

lemma make_sentinel_is_sentinel: "is_sentinel (make_sentinel n)"
  unfolding is_sentinel_def make_sentinel_def
  by (rule exI[of _ "hex_pad SENTINEL_HEX_LEN n"]) (auto intro: hex_pad_hex)

lemma scan_marker_hit:
  assumes "is_sentinel s" and "is_status ds"
  shows "scan_marker (s @ ds @ s @ r) = Complete (86 + length ds) s (parse_digits ds)"
proof -
  obtain h where s: "s = SENTINEL_PREFIX @ h @ SENTINEL_SUFFIX"
    and h: "length h = 32" "\<forall>c\<in>set h. is_hex c"
    using assms(1) by (auto simp: is_sentinel_def sentinel_consts)
  have len: "length s = 43" by (simp add: s h)
  have tk: "take SENTINEL_LEN (s @ ds @ s @ r) = s" by (simp add: len sentinel_consts)
  have "\<not> is_digit (hd (s @ r))"
    using is_sentinel_hd[OF assms(1)] by (auto simp: is_digit_def DIGIT_CHARS_def)
  then have sp: "span_digits MARKER_MAX_DIGITS (ds @ s @ r) = (ds, s @ r)"
    using assms(2) is_sentinel_hd[OF assms(1)]
    by (intro span_digits_hit) (auto simp: is_status_def)
  have 1: "match_literal SENTINEL_PREFIX (s @ ds @ s @ r) = Inr (h @ SENTINEL_SUFFIX @ ds @ s @ r)"
    unfolding s by (simp add: match_literal_hit)
  have 2: "match_hex SENTINEL_HEX_LEN (h @ SENTINEL_SUFFIX @ ds @ s @ r)
      = Inr (SENTINEL_SUFFIX @ ds @ s @ r)"
    using h by (intro match_hex_hit) (auto simp: sentinel_consts)
  show ?thesis
    unfolding scan_marker_def 1 sum.case 2 match_literal_hit sp prod.case Let_def tk
    using assms(2) is_sentinel_hd[OF assms(1)] by (auto simp: is_status_def len)
qed

lemma scan_marker_CompleteD:
  assumes "scan_marker buf = Complete l s c"
  shows "\<exists>ds r. is_sentinel s \<and> is_status ds \<and> buf = s @ ds @ s @ r
      \<and> l = 86 + length ds \<and> c = parse_digits ds"
proof -
  obtain b1 where b1: "match_literal SENTINEL_PREFIX buf = Inr b1"
    using assms match_literal_not_Complete by (auto simp: scan_marker_def split: sum.splits)
  obtain b2 where b2: "match_hex SENTINEL_HEX_LEN b1 = Inr b2"
    using assms match_hex_not_Complete by (auto simp: scan_marker_def b1 split: sum.splits)
  obtain b3 where b3: "match_literal SENTINEL_SUFFIX b2 = Inr b3"
    using assms match_literal_not_Complete by (auto simp: scan_marker_def b1 b2 split: sum.splits)
  obtain ds b4 where ds: "span_digits MARKER_MAX_DIGITS b3 = (ds, b4)"
    by (cases "span_digits MARKER_MAX_DIGITS b3")
  have ne: "b4 \<noteq> []" "ds \<noteq> []"
    using assms by (auto simp: scan_marker_def b1 b2 b3 ds split: if_splits)
  obtain b5 where b5: "match_literal (take SENTINEL_LEN buf) b4 = Inr b5"
    using assms ne match_literal_not_Complete
    by (auto simp: scan_marker_def b1 b2 b3 ds split: sum.splits)
  have res: "l = length buf - length b5" "s = take SENTINEL_LEN buf" "c = parse_digits ds"
    using assms ne by (auto simp: scan_marker_def b1 b2 b3 ds b5)
  obtain h where h: "b1 = h @ b2" "length h = 32" "\<forall>c\<in>set h. is_hex c"
    using match_hex_Inr[OF b2] by (auto simp: sentinel_consts)
  have buf: "buf = (SENTINEL_PREFIX @ h @ SENTINEL_SUFFIX) @ b3"
    using match_literal_Inr[OF b1] match_literal_Inr[OF b3] h by simp
  have s: "s = SENTINEL_PREFIX @ h @ SENTINEL_SUFFIX"
    unfolding res(2) buf by (simp add: h sentinel_consts)
  have "b3 = ds @ b4" "is_status ds" using span_digits_props[OF ds] ne by (auto simp: is_status_def)
  moreover have "b4 = s @ b5" using match_literal_Inr[OF b5] res(2) by simp
  moreover have "is_sentinel s" using s h by (auto simp: is_sentinel_def sentinel_consts)
  ultimately show ?thesis using buf s res is_sentinel_length[of s] by auto
qed

lemma scan_marker_Complete_mono:
  "scan_marker buf = Complete l s c \<Longrightarrow> scan_marker (buf @ x) = Complete l s c"
  by (drule scan_marker_CompleteD) (auto simp: scan_marker_hit)

lemma scan_marker_No_mono:
  assumes "scan_marker buf = No"
  shows "scan_marker (buf @ x) = No"
proof (cases "match_literal SENTINEL_PREFIX buf")
  case (Inl r)
  with assms have "r = No" by (simp add: scan_marker_def)
  with Inl show ?thesis using match_literal_No_mono by (fastforce simp: scan_marker_def)
next
  case 1: (Inr b1)
  note m1 = match_literal_Inr_mono[OF 1, of x]
  show ?thesis
  proof (cases "match_hex SENTINEL_HEX_LEN b1")
    case (Inl r)
    with assms 1 have "r = No" by (simp add: scan_marker_def)
    with Inl m1 show ?thesis using match_hex_No_mono by (fastforce simp: scan_marker_def)
  next
    case 2: (Inr b2)
    note m2 = match_hex_Inr_mono[OF 2, of x]
    show ?thesis
    proof (cases "match_literal SENTINEL_SUFFIX b2")
      case (Inl r)
      with assms 1 2 have "r = No" by (simp add: scan_marker_def)
      with Inl m1 m2 show ?thesis using match_literal_No_mono by (fastforce simp: scan_marker_def)
    next
      case 3: (Inr b3)
      note m3 = match_literal_Inr_mono[OF 3, of x]
      obtain ds b4 where ds: "span_digits MARKER_MAX_DIGITS b3 = (ds, b4)"
        by (cases "span_digits MARKER_MAX_DIGITS b3")
      have ne: "b4 \<noteq> []" using assms 1 2 3 ds by (auto simp: scan_marker_def)
      note m4 = span_digits_mono[OF ds ne, of x]
      obtain h where "b1 = h @ b2" "length h = 32" using match_hex_Inr[OF 2] by (auto simp: sentinel_consts)
      then have "length buf \<ge> 43"
        using match_literal_Inr[OF 1] match_literal_Inr[OF 3] by simp
      then have tk: "take SENTINEL_LEN (buf @ x) = take SENTINEL_LEN buf" by (simp add: sentinel_consts)
      show ?thesis
      proof (cases "ds = []")
        case True
        then show ?thesis using m1 m2 m3 m4 ne by (simp add: scan_marker_def)
      next
        case False
        then have "match_literal (take SENTINEL_LEN buf) b4 = Inl No"
          using assms 1 2 3 ds ne by (auto simp: scan_marker_def split: sum.splits)
        then have "match_literal (take SENTINEL_LEN (buf @ x)) (b4 @ x) = Inl No"
          unfolding tk by (rule match_literal_No_mono)
        then show ?thesis using m1 m2 m3 m4 ne False by (simp add: scan_marker_def)
      qed
    qed
  qed
qed

lemma scan_marker_Partial_len:
  assumes "scan_marker buf = Partial"
  shows "length buf < 89"
proof (cases "match_literal SENTINEL_PREFIX buf")
  case (Inl r)
  with assms match_literal_Partial_len[of SENTINEL_PREFIX buf] show ?thesis
    by (simp add: scan_marker_def)
next
  case 1: (Inr b1)
  then have l1: "length buf = 9 + length b1" using match_literal_Inr by fastforce
  show ?thesis
  proof (cases "match_hex SENTINEL_HEX_LEN b1")
    case (Inl r)
    with assms 1 l1 match_hex_Partial_len[of SENTINEL_HEX_LEN b1] show ?thesis
      by (simp add: scan_marker_def sentinel_consts)
  next
    case 2: (Inr b2)
    then have l2: "length b1 = 32 + length b2" using match_hex_Inr by (fastforce simp: sentinel_consts)
    show ?thesis
    proof (cases "match_literal SENTINEL_SUFFIX b2")
      case (Inl r)
      with assms 1 2 l1 l2 match_literal_Partial_len[of SENTINEL_SUFFIX b2] show ?thesis
        by (simp add: scan_marker_def)
    next
      case 3: (Inr b3)
      then have l3: "length b2 = 2 + length b3" using match_literal_Inr by fastforce
      obtain ds b4 where ds: "span_digits MARKER_MAX_DIGITS b3 = (ds, b4)"
        by (cases "span_digits MARKER_MAX_DIGITS b3")
      then have l4: "length b3 = length ds + length b4" "length ds \<le> 3"
        using span_digits_props by (fastforce simp: sentinel_consts)+
      show ?thesis
      proof (cases "b4 = []")
        case True
        with l1 l2 l3 l4 show ?thesis by (simp add: sentinel_consts)
      next
        case False
        then have "match_literal (take SENTINEL_LEN buf) b4 = Inl Partial"
          using assms 1 2 3 ds by (auto simp: scan_marker_def split: sum.splits if_splits)
        from match_literal_Partial_len[OF this] l1 l2 l3 l4 show ?thesis by (simp add: sentinel_consts)
      qed
    qed
  qed
qed

subsection \<open>The separator newline\<close>

lemma skip_sep_append: "skip_sep buf \<noteq> [] \<Longrightarrow> skip_sep (buf @ x) = skip_sep buf @ x"
  by (cases buf; cases "tl buf") (auto simp: skip_sep_def split: if_splits)

lemma skip_sep_split:
  "\<exists>sep. sep \<in> {[], [CR], [LF], [CR, LF]} \<and> buf = sep @ skip_sep buf"
  by (cases buf; cases "tl buf") (auto simp: skip_sep_def)

lemma skip_sep_len: "length (skip_sep buf) \<le> length buf" "length buf \<le> length (skip_sep buf) + 2"
proof -
  obtain sep where "sep \<in> {[], [CR], [LF], [CR, LF]}" "buf = sep @ skip_sep buf"
    using skip_sep_split by blast
  then have "length buf = length sep + length (skip_sep buf)" "length sep \<le> 2"
    by (metis length_append, auto)
  then show "length (skip_sep buf) \<le> length buf" "length buf \<le> length (skip_sep buf) + 2" by auto
qed

lemma scan_sep_Complete_mono:
  assumes "scan_sep_marker buf = Complete l s c"
  shows "scan_sep_marker (buf @ x) = Complete l s c"
proof -
  have ne: "skip_sep buf \<noteq> []" using assms by (auto simp: scan_sep_marker_def Let_def)
  obtain l' where "scan_marker (skip_sep buf) = Complete l' s c"
    and "l = l' + (length buf - length (skip_sep buf))"
    using assms ne by (auto simp: scan_sep_marker_def Let_def split: marker_scan.splits)
  then show ?thesis
    using ne skip_sep_append[OF ne] scan_marker_Complete_mono
    by (fastforce simp: scan_sep_marker_def Let_def)
qed

lemma scan_sep_No_mono:
  assumes "scan_sep_marker buf = No"
  shows "scan_sep_marker (buf @ x) = No"
proof -
  have ne: "skip_sep buf \<noteq> []" using assms by (auto simp: scan_sep_marker_def Let_def)
  then have "scan_marker (skip_sep buf) = No"
    using assms by (auto simp: scan_sep_marker_def Let_def split: marker_scan.splits)
  then show ?thesis
    using ne skip_sep_append[OF ne] scan_marker_No_mono
    by (fastforce simp: scan_sep_marker_def Let_def)
qed

lemma scan_sep_CompleteD:
  assumes "scan_sep_marker buf = Complete l s c"
  shows "\<exists>sep ds r. sep \<in> {[], [CR], [LF], [CR, LF]} \<and> is_sentinel s \<and> is_status ds
     \<and> buf = sep @ s @ ds @ s @ r \<and> l = length sep + 86 + length ds \<and> c = parse_digits ds"
proof -
  obtain sep where sep: "sep \<in> {[], [CR], [LF], [CR, LF]}" "buf = sep @ skip_sep buf"
    using skip_sep_split by blast
  have ne: "skip_sep buf \<noteq> []" using assms by (auto simp: scan_sep_marker_def Let_def)
  obtain l' where l': "scan_marker (skip_sep buf) = Complete l' s c"
    and l: "l = l' + (length buf - length (skip_sep buf))"
    using assms ne by (auto simp: scan_sep_marker_def Let_def split: marker_scan.splits)
  have "length buf - length (skip_sep buf) = length sep"
    using arg_cong[OF sep(2), of length] by simp
  moreover obtain ds r where d: "is_sentinel s" "is_status ds" "skip_sep buf = s @ ds @ s @ r"
    "l' = 86 + length ds" "c = parse_digits ds"
    using scan_marker_CompleteD[OF l'] by blast
  moreover have "buf = sep @ s @ ds @ s @ r"
    unfolding d(3)[symmetric] by (rule sep(2))
  ultimately show ?thesis
    using sep(1) l by (intro exI[of _ sep] exI[of _ ds] exI[of _ r]) simp
qed

lemma scan_sep_Complete_len:
  assumes "scan_sep_marker buf = Complete l s c"
  shows "86 < l" "l \<le> length buf"
  using scan_sep_CompleteD[OF assms] is_sentinel_length
  by (auto simp: is_status_def)

lemma scan_sep_Partial_len:
  assumes "scan_sep_marker buf = Partial"
  shows "length buf < 91"
proof (cases "skip_sep buf = []")
  case True
  then show ?thesis using skip_sep_len(2)[of buf] by simp
next
  case False
  then have "scan_marker (skip_sep buf) = Partial"
    using assms by (auto simp: scan_sep_marker_def Let_def split: marker_scan.splits)
  from scan_marker_Partial_len[OF this] skip_sep_len(2)[of buf] show ?thesis by simp
qed

subsection \<open>The streaming scrubber\<close>

datatype scrub_event = Payload bytes | Marker bytes int

record scrubber =
  held :: bytes
  eat_newline :: bool

definition scrubber_default :: scrubber where
  "scrubber_default = \<lparr>held = [], eat_newline = False\<rparr>"

definition flush_payload :: "bytes \<Rightarrow> scrub_event list" where
  "flush_payload p = (if p = [] then [] else [Payload p])"

text \<open>
  The loop of \<open>feed\<close> over the joined buffer: \<open>eat\<close> is the field \<open>eat_newline\<close>, \<open>payload\<close>
  and \<open>events\<close> the two accumulators, and the remaining argument the buffer from index \<open>i\<close>.
\<close>

function feed_loop :: "bool \<Rightarrow> bytes \<Rightarrow> scrub_event list \<Rightarrow> bytes \<Rightarrow> scrubber \<times> scrub_event list" where
  "feed_loop eat payload events [] =
     (\<lparr>held = [], eat_newline = eat\<rparr>, events @ flush_payload payload)"
| "feed_loop eat payload events (b # bs) =
     (if eat \<and> b = CR then feed_loop True payload events bs
      else if eat \<and> b = LF then feed_loop False payload events bs
      else if b \<in> {CR, LF, CHR ''_''} then
        (case scan_sep_marker (b # bs) of
           Complete len sentinel exit_code \<Rightarrow>
             feed_loop True [] (events @ flush_payload payload @ [Marker sentinel exit_code])
               (drop len (b # bs))
         | Partial \<Rightarrow>
             (\<lparr>held = b # bs, eat_newline = False\<rparr>, events @ flush_payload payload)
         | No \<Rightarrow> feed_loop False (payload @ [b]) events bs)
      else feed_loop False (payload @ [b]) events bs)"
  by pat_completeness auto
termination
  by (relation "measure (\<lambda>(_, _, _, buf). length buf)")
    (auto dest: scan_sep_Complete_len)

declare feed_loop.simps(2) [simp del]

lemma feed_loop_steps:
  "eat \<and> b = CR \<Longrightarrow> feed_loop eat p e (b # bs) = feed_loop True p e bs"
  "eat \<and> b = LF \<Longrightarrow> feed_loop eat p e (b # bs) = feed_loop False p e bs"
  "\<not> (eat \<and> b = CR) \<Longrightarrow> \<not> (eat \<and> b = LF) \<Longrightarrow> b \<in> {CR, LF, CHR ''_''} \<Longrightarrow>
     feed_loop eat p e (b # bs) =
       (case scan_sep_marker (b # bs) of
           Complete len s c \<Rightarrow>
             feed_loop True [] (e @ flush_payload p @ [Marker s c]) (drop len (b # bs))
         | Partial \<Rightarrow> (\<lparr>held = b # bs, eat_newline = False\<rparr>, e @ flush_payload p)
         | No \<Rightarrow> feed_loop False (p @ [b]) e bs)"
  "\<not> (eat \<and> b = CR) \<Longrightarrow> \<not> (eat \<and> b = LF) \<Longrightarrow> b \<notin> {CR, LF, CHR ''_''} \<Longrightarrow>
     feed_loop eat p e (b # bs) = feed_loop False (p @ [b]) e bs"
  by (auto simp: feed_loop.simps(2))

text \<open>The four ways the loop treats the byte at hand.\<close>

lemma byte_cases:
  obtains (cr) "eat \<and> b = CR" | (lf) "eat \<and> b = LF" "\<not> (eat \<and> b = CR)"
    | (sep) "\<not> (eat \<and> b = CR)" "\<not> (eat \<and> b = LF)" "b \<in> {CR, LF, CHR ''_''}"
    | (plain) "\<not> (eat \<and> b = CR)" "\<not> (eat \<and> b = LF)" "b \<notin> {CR, LF, CHR ''_''}"
  by blast

definition feed :: "scrubber \<Rightarrow> bytes \<Rightarrow> scrubber \<times> scrub_event list" where
  "feed s data = feed_loop (eat_newline s) [] [] (held s @ data)"

fun feed_chunks :: "scrubber \<Rightarrow> bytes list \<Rightarrow> scrubber \<times> scrub_event list" where
  "feed_chunks s [] = (s, [])"
| "feed_chunks s (d # ds) =
     (let (s1, e1) = feed s d; (s2, e2) = feed_chunks s1 ds in (s2, e1 @ e2))"

subsection \<open>Specification: one item per byte\<close>

text \<open>
  The specification of the scrubber is a stream of items, a byte of payload or a marker. The
  events of the code group the bytes between two markers of one call; \<open>items\<close> forgets the
  grouping.
\<close>

datatype item = Byte char | Mark bytes int

fun items :: "scrub_event list \<Rightarrow> item list" where
  "items [] = []"
| "items (Payload p # es) = map Byte p @ items es"
| "items (Marker s c # es) = Mark s c # items es"

lemma items_append [simp]: "items (xs @ ys) = items xs @ items ys"
  by (induction xs rule: items.induct) auto

lemma items_flush [simp]: "items (flush_payload p) = map Byte p"
  by (simp add: flush_payload_def)

function scrub :: "bool \<Rightarrow> bytes \<Rightarrow> scrubber \<times> item list" where
  "scrub eat [] = (\<lparr>held = [], eat_newline = eat\<rparr>, [])"
| "scrub eat (b # bs) =
     (if eat \<and> b = CR then scrub True bs
      else if eat \<and> b = LF then scrub False bs
      else if b \<in> {CR, LF, CHR ''_''} then
        (case scan_sep_marker (b # bs) of
           Complete len s c \<Rightarrow> map_prod id ((#) (Mark s c)) (scrub True (drop len (b # bs)))
         | Partial \<Rightarrow> (\<lparr>held = b # bs, eat_newline = False\<rparr>, [])
         | No \<Rightarrow> map_prod id ((#) (Byte b)) (scrub False bs))
      else map_prod id ((#) (Byte b)) (scrub False bs))"
  by pat_completeness auto
termination
  by (relation "measure (\<lambda>(_, buf). length buf)") (auto dest: scan_sep_Complete_len)

declare scrub.simps(2) [simp del]

lemma scrub_steps:
  "eat \<and> b = CR \<Longrightarrow> scrub eat (b # bs) = scrub True bs"
  "eat \<and> b = LF \<Longrightarrow> scrub eat (b # bs) = scrub False bs"
  "\<not> (eat \<and> b = CR) \<Longrightarrow> \<not> (eat \<and> b = LF) \<Longrightarrow> b \<in> {CR, LF, CHR ''_''} \<Longrightarrow>
     scrub eat (b # bs) =
       (case scan_sep_marker (b # bs) of
           Complete len s c \<Rightarrow> map_prod id ((#) (Mark s c)) (scrub True (drop len (b # bs)))
         | Partial \<Rightarrow> (\<lparr>held = b # bs, eat_newline = False\<rparr>, [])
         | No \<Rightarrow> map_prod id ((#) (Byte b)) (scrub False bs))"
  "\<not> (eat \<and> b = CR) \<Longrightarrow> \<not> (eat \<and> b = LF) \<Longrightarrow> b \<notin> {CR, LF, CHR ''_''} \<Longrightarrow>
     scrub eat (b # bs) = map_prod id ((#) (Byte b)) (scrub False bs)"
  by (auto simp: scrub.simps(2))

lemma feed_loop_scrub:
  "map_prod id items (feed_loop eat p ev buf)
     = map_prod id ((@) (items ev @ map Byte p)) (scrub eat buf)"
proof (induction eat p ev buf rule: feed_loop.induct)
  case (2 eat p ev b bs)
  show ?case
  proof (rule byte_cases[of eat b])
    assume "eat \<and> b = CR"
    with "2.IH"(1) show ?thesis by (simp add: feed_loop_steps(1) scrub_steps(1))
  next
    assume lf: "eat \<and> b = LF" "\<not> (eat \<and> b = CR)"
    from "2.IH"(2)[OF lf(2,1)] lf show ?thesis by (simp add: feed_loop_steps(2) scrub_steps(2))
  next
    assume sep: "\<not> (eat \<and> b = CR)" "\<not> (eat \<and> b = LF)" "b \<in> {CR, LF, CHR ''_''}"
    note steps = feed_loop_steps(3)[OF sep] scrub_steps(3)[OF sep]
    show ?thesis
    proof (cases "scan_sep_marker (b # bs)")
      case No
      from "2.IH"(3)[OF sep No] No show ?thesis by (simp add: steps prod.map_comp o_def)
    next
      case Partial
      then show ?thesis by (simp add: steps)
    next
      case (Complete len s c)
      from "2.IH"(4)[OF sep Complete] Complete show ?thesis
        by (simp add: steps prod.map_comp o_def)
    qed
  next
    assume plain: "\<not> (eat \<and> b = CR)" "\<not> (eat \<and> b = LF)" "b \<notin> {CR, LF, CHR ''_''}"
    from "2.IH"(5)[OF plain] show ?thesis
      by (simp add: feed_loop_steps(4)[OF plain] scrub_steps(4)[OF plain] prod.map_comp o_def)
  qed
qed simp

lemma feed_items: "map_prod id items (feed s d) = scrub (eat_newline s) (held s @ d)"
proof -
  have "map_prod id ((@) []) x = x" for x :: "scrubber \<times> item list" by (cases x) simp
  then show ?thesis by (simp add: feed_def feed_loop_scrub)
qed

text \<open>Scrubbing a prefix, then the held bytes with the rest, is scrubbing the whole.\<close>

lemma scrub_append:
  "scrub eat (xs @ ys) =
     (let (s1, i1) = scrub eat xs; (s2, i2) = scrub (eat_newline s1) (held s1 @ ys)
      in (s2, i1 @ i2))"
proof (induction eat xs rule: scrub.induct)
  case (1 eat)
  then show ?case by simp
next
  case (2 eat b bs)
  show ?case
  proof (rule byte_cases[of eat b])
    assume "eat \<and> b = CR"
    with "2.IH"(1) show ?thesis by (simp add: scrub_steps(1))
  next
    assume lf: "eat \<and> b = LF" "\<not> (eat \<and> b = CR)"
    from "2.IH"(2)[OF lf(2,1)] lf show ?thesis by (simp add: scrub_steps(2))
  next
    assume sep: "\<not> (eat \<and> b = CR)" "\<not> (eat \<and> b = LF)" "b \<in> {CR, LF, CHR ''_''}"
    note steps = scrub_steps(3)[OF sep]
    show ?thesis
    proof (cases "scan_sep_marker (b # bs)")
      case No
      from "2.IH"(3)[OF sep No] No scan_sep_No_mono[OF No, of ys] show ?thesis
        by (simp add: steps map_prod_def split: prod.splits)
    next
      case Partial
      have "scrub False ((b # bs) @ ys) = scrub eat ((b # bs) @ ys)"
        using sep scrub_steps(3)[of False b] by (simp add: steps)
      with Partial show ?thesis by (simp add: steps split: prod.splits)
    next
      case (Complete len s c)
      have "drop len (b # bs @ ys) = drop len (b # bs) @ ys"
        using drop_append[of len "b # bs" ys] scan_sep_Complete_len(2)[OF Complete] by simp
      with "2.IH"(4)[OF sep Complete] Complete scan_sep_Complete_mono[OF Complete, of ys]
      show ?thesis by (simp add: steps map_prod_def split: prod.splits)
    qed
  next
    assume plain: "\<not> (eat \<and> b = CR)" "\<not> (eat \<and> b = LF)" "b \<notin> {CR, LF, CHR ''_''}"
    from "2.IH"(5)[OF plain] show ?thesis
      by (simp add: scrub_steps(4)[OF plain] map_prod_def split: prod.splits)
  qed
qed

subsection \<open>Chunk invariance\<close>

definition scrubber_ok :: "scrubber \<Rightarrow> bool" where
  "scrubber_ok s \<longleftrightarrow> scrub (eat_newline s) (held s) = (s, [])"

lemma scrubber_ok_default [simp]: "scrubber_ok scrubber_default"
  by (simp add: scrubber_ok_def scrubber_default_def)

lemma scrub_ok: "scrubber_ok (fst (scrub eat buf))"
proof (induction eat buf rule: scrub.induct)
  case (1 eat)
  then show ?case by (simp add: scrubber_ok_def)
next
  case (2 eat b bs)
  show ?case
  proof (rule byte_cases[of eat b])
    assume "eat \<and> b = CR"
    with "2.IH"(1) show ?thesis by (simp add: scrub_steps(1))
  next
    assume lf: "eat \<and> b = LF" "\<not> (eat \<and> b = CR)"
    from "2.IH"(2)[OF lf(2,1)] lf show ?thesis by (simp add: scrub_steps(2))
  next
    assume sep: "\<not> (eat \<and> b = CR)" "\<not> (eat \<and> b = LF)" "b \<in> {CR, LF, CHR ''_''}"
    show ?thesis
    proof (cases "scan_sep_marker (b # bs)")
      case Partial
      then show ?thesis
        using sep scrub_steps(3)[OF sep, of bs] scrub_steps(3)[of False b bs]
        by (simp add: scrubber_ok_def)
    qed (use "2.IH"(3,4)[OF sep] scrub_steps(3)[OF sep, of bs] in simp_all)
  next
    assume plain: "\<not> (eat \<and> b = CR)" "\<not> (eat \<and> b = LF)" "b \<notin> {CR, LF, CHR ''_''}"
    from "2.IH"(5)[OF plain] show ?thesis by (simp add: scrub_steps(4)[OF plain])
  qed
qed

lemma feed_state: "fst (feed s d) = fst (scrub (eat_newline s) (held s @ d))"
  using feed_items[of s d] by (metis fst_map_prod id_apply)

lemma feed_ok: "scrubber_ok (fst (feed s d))"
  by (simp add: feed_state scrub_ok)

lemma feed_chunks_scrub:
  "scrubber_ok s \<Longrightarrow>
     map_prod id items (feed_chunks s ds) = scrub (eat_newline s) (held s @ concat ds)"
proof (induction ds arbitrary: s)
  case Nil
  then show ?case by (simp add: scrubber_ok_def)
next
  case (Cons d ds)
  obtain s1 e1 where f: "feed s d = (s1, e1)" by (cases "feed s d")
  obtain s2 e2 where g: "feed_chunks s1 ds = (s2, e2)" by (cases "feed_chunks s1 ds")
  have "scrubber_ok s1" using feed_ok[of s d] f by simp
  from Cons.IH[OF this] g
  have "scrub (eat_newline s1) (held s1 @ concat ds) = (s2, items e2)" by simp
  moreover have "scrub (eat_newline s) (held s @ d) = (s1, items e1)"
    using feed_items[of s d] f by simp
  ultimately show ?case
    using scrub_append[of "eat_newline s" "held s @ d" "concat ds"] f g by simp
qed

text \<open>
  C3: how the byte stream is cut into chunks does not matter: feeding a list of chunks one by
  one emits the same payload bytes and markers, in the same order, and ends in the same
  scrubber state as feeding their concatenation at once. Splitting a sentinel anywhere can
  neither leak a part of it nor lose it.
\<close>

theorem scrubber_chunk_invariant:
  "map_prod id items (feed_chunks scrubber_default ds)
     = map_prod id items (feed scrubber_default (concat ds))"
  using feed_chunks_scrub[OF scrubber_ok_default, of ds] feed_items[of scrubber_default "concat ds"]
  by simp

subsection \<open>No marker survives scrubbing\<close>

definition contains_marker :: "bytes \<Rightarrow> bool" where
  "contains_marker p \<longleftrightarrow>
     (\<exists>u s ds w. p = u @ s @ ds @ s @ w \<and> is_sentinel s \<and> is_status ds)"

lemma scan_marker_other_head: "c \<noteq> CHR ''_'' \<Longrightarrow> scan_marker (c # cs) = No"
  by (simp add: scan_marker_def SENTINEL_PREFIX_def)

lemma scan_sep_hit:
  assumes "is_sentinel s" and "is_status ds" and "sep \<in> {[], [CR], [LF], [CR, LF]}"
  shows "scan_sep_marker (sep @ s @ ds @ s @ r)
     = Complete (length sep + 86 + length ds) s (parse_digits ds)"
proof -
  obtain s' where s: "s = CHR ''_'' # s'"
    using is_sentinel_hd[OF assms(1)] by (cases s) auto
  have "skip_sep (sep @ s @ ds @ s @ r) = s @ ds @ s @ r"
    using assms(3) by (auto simp: skip_sep_def s)
  then show ?thesis
    using scan_marker_hit[OF assms(1,2), of r] s by (simp add: scan_sep_marker_def Let_def)
qed

lemma scrub_step_plain:
  assumes "snd (scrub False (b # bs)) = Byte c # ys"
  shows "c = b" and "snd (scrub False bs) = ys"
    and "b = CHR ''_'' \<Longrightarrow> scan_sep_marker (b # bs) = No"
  using assms
  by (cases "b \<in> {CR, LF, CHR ''_''}"; cases "scan_sep_marker (b # bs)";
      simp add: scrub.simps(2) split: if_splits)+

lemma scrub_False_contiguous:
  "snd (scrub False buf) = map Byte p @ ys \<Longrightarrow> \<exists>rest. buf = p @ rest"
proof (induction p arbitrary: buf)
  case (Cons c p)
  then obtain b bs where buf: "buf = b # bs" by (cases buf) auto
  with Cons.prems have "snd (scrub False (b # bs)) = Byte c # map Byte p @ ys" by simp
  from scrub_step_plain[OF this] Cons.IH[of bs] buf show ?case by auto
qed simp

lemma scrub_run_clean:
  "snd (scrub False buf) = map Byte p @ ys \<Longrightarrow> \<not> contains_marker p"
proof (induction p arbitrary: buf)
  case Nil
  then show ?case by (auto simp: contains_marker_def is_status_def)
next
  case (Cons c p)
  then obtain b bs where buf: "buf = b # bs" by (cases buf) auto
  with Cons.prems have st: "snd (scrub False (b # bs)) = Byte c # map Byte p @ ys" by simp
  note step = scrub_step_plain[OF st]
  have tail: "\<not> contains_marker p" using Cons.IH step(2) by blast
  show ?case
  proof
    assume "contains_marker (c # p)"
    then obtain u s ds w where m: "c # p = u @ s @ ds @ s @ w" "is_sentinel s" "is_status ds"
      by (auto simp: contains_marker_def)
    show False
    proof (cases u)
      case (Cons x u')
      with m have "p = u' @ s @ ds @ s @ w" by simp
      with m tail show False by (auto simp: contains_marker_def)
    next
      case Nil
      with m is_sentinel_hd[OF m(2)] have c: "c = CHR ''_''" by (cases s) auto
      obtain rest where "buf = (c # p) @ rest"
        using scrub_False_contiguous[OF Cons.prems] by auto
      with m Nil have "scan_sep_marker buf = Complete (86 + length ds) s (parse_digits ds)"
        using scan_sep_hit[OF m(2,3), of "[]" "w @ rest"] by simp
      with step c buf show False by simp
    qed
  qed
qed

lemma scrub_run_clean_any:
  "snd (scrub eat buf) = map Byte p @ ys \<Longrightarrow> \<not> contains_marker p"
proof (induction eat buf rule: scrub.induct)
  case (1 eat)
  then show ?case by (auto simp: contains_marker_def is_status_def)
next
  case (2 eat b bs)
  show ?case
  proof (rule byte_cases[of eat b])
    assume "eat \<and> b = CR"
    with "2.IH"(1) "2.prems" show ?thesis by (simp add: scrub_steps(1))
  next
    assume lf: "eat \<and> b = LF" "\<not> (eat \<and> b = CR)"
    from "2.IH"(2)[OF lf(2,1)] lf "2.prems" show ?thesis by (simp add: scrub_steps(2))
  next
    assume sep: "\<not> (eat \<and> b = CR)" "\<not> (eat \<and> b = LF)" "b \<in> {CR, LF, CHR ''_''}"
    then have "scrub eat (b # bs) = scrub False (b # bs)"
      using scrub_steps(3)[OF sep, of bs] scrub_steps(3)[of False b bs] by simp
    with "2.prems" scrub_run_clean show ?thesis by metis
  next
    assume plain: "\<not> (eat \<and> b = CR)" "\<not> (eat \<and> b = LF)" "b \<notin> {CR, LF, CHR ''_''}"
    then have "scrub eat (b # bs) = scrub False (b # bs)"
      using scrub_steps(4)[OF plain, of bs] scrub_steps(4)[of False b bs] by simp
    with "2.prems" scrub_run_clean show ?thesis by metis
  qed
qed

lemma scrub_tail_items:
  "snd (scrub eat buf) = xs @ ys \<Longrightarrow> \<exists>eat' buf'. snd (scrub eat' buf') = ys"
proof (induction xs arbitrary: eat buf)
  case Nil
  then show ?case by auto
next
  case (Cons x xs)
  have "snd (scrub eat buf) = x # xs @ ys \<Longrightarrow> \<exists>eat' buf'. snd (scrub eat' buf') = xs @ ys" for x
  proof (induction eat buf rule: scrub.induct)
    case (2 eat b bs)
    show ?case
    proof (rule byte_cases[of eat b])
      assume "eat \<and> b = CR"
      with 2 show ?thesis by (simp add: scrub_steps(1))
    next
      assume lf: "eat \<and> b = LF" "\<not> (eat \<and> b = CR)"
      with "2.IH"(2)[OF lf(2,1)] "2.prems" show ?thesis by (simp add: scrub_steps(2))
    next
      assume sep: "\<not> (eat \<and> b = CR)" "\<not> (eat \<and> b = LF)" "b \<in> {CR, LF, CHR ''_''}"
      with "2.prems" show ?thesis
        by (cases "scan_sep_marker (b # bs)") (auto simp: scrub_steps(3)[OF sep])
    next
      assume plain: "\<not> (eat \<and> b = CR)" "\<not> (eat \<and> b = LF)" "b \<notin> {CR, LF, CHR ''_''}"
      with "2.prems" show ?thesis by (auto simp: scrub_steps(4)[OF plain])
    qed
  qed simp
  with Cons.prems Cons.IH show ?case by (metis append_Cons)
qed

text \<open>
  C17: no complete sentinel marker ever reaches agent-visible output: in whatever chunks the
  stream arrives, no run of consecutive payload bytes between two recognised markers contains
  a marker (a sentinel, one to three digits, and the same sentinel).
\<close>

theorem scrubbed_payload_has_no_marker:
  assumes "items (snd (feed_chunks scrubber_default ds)) = xs @ map Byte p @ ys"
  shows "\<not> contains_marker p"
proof -
  have "snd (scrub False (concat ds)) = xs @ map Byte p @ ys"
    using arg_cong[OF feed_chunks_scrub[OF scrubber_ok_default, of ds], of snd] assms
    by (simp add: scrubber_default_def)
  from scrub_tail_items[OF this] scrub_run_clean_any show ?thesis by blast
qed

theorem scrubbed_payload_has_no_marker_witness:
  "\<not> contains_marker ''hi''"
  by (rule scrubbed_payload_has_no_marker[of "[''h'', ''i'']" "[]" _ "[]"]) code_simp

subsection \<open>Framing round trip\<close>

lemma match_literal_off: "\<not> prefix es v \<Longrightarrow> c \<notin> set es \<Longrightarrow> match_literal es (v @ c # r) = Inl No"
proof (induction es arbitrary: v)
  case (Cons e es)
  then show ?case by (cases v) auto
qed simp

lemma scan_marker_off: "\<not> prefix SENTINEL_PREFIX v \<Longrightarrow> c \<in> {CR, LF} \<Longrightarrow> scan_marker (v @ c # r) = No"
  using match_literal_off[of SENTINEL_PREFIX v c r]
  by (auto simp: scan_marker_def SENTINEL_PREFIX_def)

lemma scan_sep_off:
  assumes "\<not> sublist SENTINEL_PREFIX (b # out)" and "last (b # out) \<noteq> CR"
    and "sep \<in> {[LF], [CR, LF]}" and "b \<in> {CR, LF, CHR ''_''}"
  shows "scan_sep_marker (b # out @ sep @ rest) = No"
proof -
  have off: "\<not> prefix SENTINEL_PREFIX v" if "suffix v (b # out)" for v
    using assms(1) that by (meson prefix_imp_sublist suffix_imp_sublist sublist_order.order.trans)
  have "\<exists>v. suffix v (b # out) \<and> skip_sep (b # out @ sep @ rest) = v @ sep @ rest"
  proof (cases "b = CHR ''_''")
    case True
    then show ?thesis by (intro exI[of _ "b # out"]) (simp add: skip_sep_def)
  next
    case False
    then consider "b = LF" | "b = CR" "out \<noteq> []" "hd out = LF" | "b = CR" "out \<noteq> []" "hd out \<noteq> LF"
      using assms(2,4) by (cases "out = []") auto
    then show ?thesis
    proof cases
      case 1
      then show ?thesis by (intro exI[of _ out]) (simp add: skip_sep_def suffix_def)
    next
      case 2
      then show ?thesis
        by (intro exI[of _ "tl out"], cases out) (simp_all add: skip_sep_def suffix_def)
    next
      case 3
      then show ?thesis by (intro exI[of _ out], cases out) (simp_all add: skip_sep_def suffix_def)
    qed
  qed
  then obtain v where v: "suffix v (b # out)" "skip_sep (b # out @ sep @ rest) = v @ sep @ rest"
    by blast
  obtain c r where "sep @ rest = c # r" "c \<in> {CR, LF}" using assms(3) by auto
  with v scan_marker_off[OF off[OF v(1)]] show ?thesis
    by (simp add: scan_sep_marker_def Let_def)
qed

lemma scrub_output_then_marker:
  assumes "\<not> sublist SENTINEL_PREFIX out" and "out = [] \<or> last out \<noteq> CR" and "sep \<in> {[LF], [CR, LF]}"
  shows "scrub False (out @ sep @ rest) = map_prod id ((@) (map Byte out)) (scrub False (sep @ rest))"
  using assms
proof (induction out)
  case Nil
  show ?case by (cases "scrub False (sep @ rest)") simp
next
  case (Cons b out)
  have "\<not> sublist SENTINEL_PREFIX out" using Cons.prems(1) by (auto simp: sublist_Cons_right)
  then have IH: "scrub False (out @ sep @ rest)
      = map_prod id ((@) (map Byte out)) (scrub False (sep @ rest))"
    by (rule Cons.IH) (use Cons.prems in \<open>auto split: if_splits\<close>)
  have "scrub False (b # out @ sep @ rest)
      = map_prod id ((#) (Byte b)) (scrub False (out @ sep @ rest))"
    using scan_sep_off[OF Cons.prems(1) _ Cons.prems(3), of rest] Cons.prems(2)
    by (cases "b \<in> {CR, LF, CHR ''_''}") (auto simp: scrub.simps(2))
  with IH show ?case by (simp add: prod.map_comp o_def)
qed

lemma framing_scrub:
  assumes "is_sentinel s" and "is_status status"
    and "sep \<in> {[LF], [CR, LF]}" and "nl \<in> {[LF], [CR, LF]}"
    and "\<not> sublist SENTINEL_PREFIX out" and "out = [] \<or> last out \<noteq> CR"
  shows "scrub False (out @ sep @ s @ status @ s @ nl)
     = (scrubber_default, map Byte out @ [Mark s (parse_digits status)])"
proof -
  have sc: "scan_sep_marker (sep @ s @ status @ s @ nl)
      = Complete (length sep + 86 + length status) s (parse_digits status)"
    using scan_sep_hit[OF assms(1,2)] assms(3) by auto
  have dr: "drop (length sep + 86 + length status) (sep @ s @ status @ s @ nl) = nl"
    using is_sentinel_length[OF assms(1)] by simp
  have nl: "scrub True nl = (scrubber_default, [])"
    using assms(4) by (auto simp: scrub_steps scrubber_default_def)
  obtain b bs where h: "sep @ s @ status @ s @ nl = b # bs" "b \<in> {CR, LF}"
    using assms(3) by auto
  have "scrub False (sep @ s @ status @ s @ nl) = (scrubber_default, [Mark s (parse_digits status)])"
    unfolding h(1) using scrub_steps(3)[of False b bs] sc dr nl h(2) by (auto simp: h(1))
  then show ?thesis
    using scrub_output_then_marker[OF assms(5,6,3), of "s @ status @ s @ nl"] by simp
qed

text \<open>
  A command's output and then a marker line, in any chunking, are emitted as exactly the output bytes
  and one marker; \<open>Framing\<close> says that this is what the shell writes for \<open>frame_command\<close>.
\<close>

lemma framed_output:
  assumes "concat chunks = out @ sep @ s @ status @ s @ nl"
    and "is_sentinel s" and "is_status status"
    and "sep \<in> {[LF], [CR, LF]}" and "nl \<in> {[LF], [CR, LF]}"
    and "\<not> sublist SENTINEL_PREFIX out" and "out = [] \<or> last out \<noteq> CR"
  shows "map_prod id items (feed_chunks scrubber_default chunks)
     = (scrubber_default, map Byte out @ [Mark s (parse_digits status)])"
  using feed_chunks_scrub[OF scrubber_ok_default, of chunks] assms(1) framing_scrub[OF assms(2-7)]
  by (simp add: scrubber_default_def)

lemma scrub_held_len: "length (held (fst (scrub eat buf))) < 91"
proof (induction eat buf rule: scrub.induct)
  case (2 eat b bs)
  show ?case
  proof (rule byte_cases[of eat b])
    assume "eat \<and> b = CR"
    with 2 show ?thesis by (simp add: scrub_steps(1))
  next
    assume lf: "eat \<and> b = LF" "\<not> (eat \<and> b = CR)"
    with "2.IH"(2)[OF lf(2,1)] show ?thesis by (simp add: scrub_steps(2))
  next
    assume sep: "\<not> (eat \<and> b = CR)" "\<not> (eat \<and> b = LF)" "b \<in> {CR, LF, CHR ''_''}"
    show ?thesis
      using "2.IH"(3,4)[OF sep] scan_sep_Partial_len[of "b # bs"]
      by (cases "scan_sep_marker (b # bs)") (simp_all add: scrub_steps(3)[OF sep])
  next
    assume plain: "\<not> (eat \<and> b = CR)" "\<not> (eat \<and> b = LF)" "b \<notin> {CR, LF, CHR ''_''}"
    with "2.IH"(5)[OF plain] show ?thesis by (simp add: scrub_steps(4)[OF plain])
  qed
qed simp

text \<open>
  The scrubber never withholds more than one incomplete marker: whatever was fed before,
  at most 90 bytes (two sentinels, three digits, two separator bytes, less one) stay held back.
\<close>

theorem scrubber_holdback_bounded:
  "length (held (fst (feed s d))) < 2 * SENTINEL_LEN + MARKER_MAX_DIGITS + 2"
  using scrub_held_len by (simp add: feed_state sentinel_consts)

end
