(* ===== verification/Spool.thy ===== *)
theory Spool
  imports Prelude "HOL-Library.Product_Lexorder" "HOL-Library.List_Lexorder" "HOL-Library.Char_ord"
begin

text \<open>
  Bounded spool persistence (\<open>src/src/daemon/session/spool.rs\<close>): the actual-byte ledger with
  its evictions, the per-run writer, file naming and creation, and the initial index of the
  spool root.

  Paths are lists of components, so \<open>Path::parent\<close> drops the last one and \<open>PathBuf\<close>'s
  order is the lexicographic one. The operating system is an argument of each operation: the
  outcome of \<open>remove_file\<close> for a path (\<open>rm\<close>), of \<open>write_all\<close>, of \<open>open\<close>, the directory
  listings and the wall clock. Logging and its warning limiter are left out: they return
  nothing to this code.
\<close>

type_synonym path = "string list"

definition path_parent :: "path \<Rightarrow> path option" where
  "path_parent p = (if p = [] then None else Some (butlast p))"

definition MAX_SPOOL_DIR_BYTES :: nat where "MAX_SPOOL_DIR_BYTES = 64 * 1024 * 1024"
definition MAX_SPOOL_FILE_BYTES :: nat where "MAX_SPOOL_FILE_BYTES = 64 * 1024 * 1024"
definition MAX_SPOOL_ROOT_BYTES :: nat where "MAX_SPOOL_ROOT_BYTES = 1024 * 1024 * 1024"
definition SPOOL_SCAN_RETRY_INTERVAL :: nat where "SPOOL_SCAN_RETRY_INTERVAL = from_secs 30"
definition MAX_ENCODED_SPOOL_NAME_BYTES :: nat where "MAX_ENCODED_SPOOL_NAME_BYTES = 96"
definition SPOOL_LIMIT_MARKER :: bytes where
  "SPOOL_LIMIT_MARKER = [LF]
     @ ''[... sloosh spool limit reached; further output was not persisted ...]'' @ [LF]"

subsection \<open>Ledger\<close>

record spool_entry =
  se_bytes :: nat
  se_modified :: nat
  se_active :: bool

record spool_ledger =
  sl_max_bytes :: nat
  sl_initialized :: bool
  sl_next_scan_attempt :: "instant option"
  sl_total_bytes :: nat
  sl_entries :: "(path, spool_entry) hmap"

definition ledger_new :: "nat \<Rightarrow> spool_ledger" where
  "ledger_new max_bytes = \<lparr>sl_max_bytes = max_bytes, sl_initialized = False,
     sl_next_scan_attempt = None, sl_total_bytes = 0, sl_entries = []\<rparr>"

datatype remove_result = Removed | RemoveNotFound | RemoveFailed

text \<open>Eviction candidates, oldest first (ties by path).\<close>

definition eviction_candidates :: "path option \<Rightarrow> path set \<Rightarrow> spool_ledger \<Rightarrow> path list" where
  "eviction_candidates dir attempted L =
     map snd (sort (map (\<lambda>(p, e). (se_modified e, p))
       (filter (\<lambda>(p, e). \<not> se_active e \<and> se_bytes e > 0 \<and> p \<notin> attempted
            \<and> (case dir of None \<Rightarrow> True | Some d \<Rightarrow> path_parent p = Some d))
          (sl_entries L))))"

definition drop_entry :: "path \<Rightarrow> spool_ledger \<Rightarrow> spool_ledger" where
  "drop_entry p L =
     (case hm_get (sl_entries L) p of
        None \<Rightarrow> L
      | Some e \<Rightarrow> L\<lparr>sl_entries := hm_remove p (sl_entries L),
                     sl_total_bytes := sl_total_bytes L - se_bytes e\<rparr>)"

fun evict_first :: "(path \<Rightarrow> remove_result) \<Rightarrow> path list \<Rightarrow> spool_ledger \<Rightarrow> path set
    \<Rightarrow> bool \<times> spool_ledger \<times> path set" where
  "evict_first rm [] L attempted = (False, L, attempted)"
| "evict_first rm (p # ps) L attempted =
     (case rm p of
        Removed \<Rightarrow> (True, drop_entry p L, attempted)
      | RemoveNotFound \<Rightarrow> (True, drop_entry p L, attempted)
      | RemoveFailed \<Rightarrow> evict_first rm ps L (insert p attempted))"

definition evict_oldest :: "(path \<Rightarrow> remove_result) \<Rightarrow> path option \<Rightarrow> spool_ledger \<Rightarrow> path set
    \<Rightarrow> bool \<times> spool_ledger \<times> path set" where
  "evict_oldest rm dir L attempted =
     evict_first rm (eviction_candidates dir attempted L) L attempted"

lemma set_candidates:
  "p \<in> set (eviction_candidates dir att L) \<longleftrightarrow>
     (\<exists>e. (p, e) \<in> set (sl_entries L) \<and> \<not> se_active e \<and> se_bytes e > 0 \<and> p \<notin> att
        \<and> (case dir of None \<Rightarrow> True | Some d \<Rightarrow> path_parent p = Some d))"
proof -
  have "set (eviction_candidates dir att L) = fst ` {x \<in> set (sl_entries L). case x of (p, e) \<Rightarrow>
      \<not> se_active e \<and> se_bytes e > 0 \<and> p \<notin> att
      \<and> (case dir of None \<Rightarrow> True | Some d \<Rightarrow> path_parent p = Some d)}"
    by (simp add: eviction_candidates_def image_image split_def)
  then show ?thesis by (simp only:) (auto simp: image_iff)
qed

lemma evict_first_result:
  "evict_first rm ps L att = (b, L', att') \<Longrightarrow>
     (if b then \<exists>p\<in>set ps. L' = drop_entry p L \<and> rm p \<noteq> RemoveFailed
      else L' = L \<and> (\<forall>p\<in>set ps. rm p = RemoveFailed) \<and> att' = att \<union> set ps)"
proof (induction ps arbitrary: att)
  case (Cons p ps)
  show ?case
  proof (cases "rm p")
    case RemoveFailed
    with Cons.prems have "evict_first rm ps L (insert p att) = (b, L', att')" by simp
    from Cons.IH[OF this] RemoveFailed show ?thesis by (auto split: if_splits)
  qed (use Cons.prems in auto)
qed simp

lemma drop_entry_shrinks:
  "hm_get (sl_entries L) p \<noteq> None \<Longrightarrow>
     length (sl_entries (drop_entry p L)) < length (sl_entries L)"
  using length_hm_remove[of "sl_entries L" p] by (auto simp: drop_entry_def)

lemma evict_oldest_shrinks:
  assumes "evict_oldest rm dir L att = (True, L', att')"
  shows "length (sl_entries L') < length (sl_entries L)"
proof -
  obtain p where p: "p \<in> set (eviction_candidates dir att L)" "L' = drop_entry p L"
    using evict_first_result[OF assms[unfolded evict_oldest_def]] by auto
  then obtain e where "(p, e) \<in> set (sl_entries L)" by (auto simp: set_candidates)
  then have "hm_get (sl_entries L) p \<noteq> None" by (auto simp: map_of_eq_None_iff intro: rev_image_eqI)
  with p show ?thesis by (simp add: drop_entry_shrinks)
qed

function evict_loop :: "(path \<Rightarrow> remove_result) \<Rightarrow> nat \<Rightarrow> spool_ledger \<Rightarrow> path set \<Rightarrow> spool_ledger" where
  "evict_loop rm target L attempted =
     (if sl_total_bytes L > target then
        (case evict_oldest rm None L attempted of
           (True, L', attempted') \<Rightarrow> evict_loop rm target L' attempted'
         | (False, L', _) \<Rightarrow> L')
      else L)"
  by pat_completeness auto
termination
  by (relation "measure (\<lambda>(_, _, L, _). length (sl_entries L))")
    (auto dest: evict_oldest_shrinks[OF sym])

definition evict_global_until :: "(path \<Rightarrow> remove_result) \<Rightarrow> nat \<Rightarrow> spool_ledger \<Rightarrow> spool_ledger" where
  "evict_global_until rm target L = evict_loop rm target L {}"

definition enforce_global_budget :: "(path \<Rightarrow> remove_result) \<Rightarrow> spool_ledger \<Rightarrow> spool_ledger" where
  "enforce_global_budget rm L = evict_global_until rm (sl_max_bytes L) L"

definition dir_total :: "path \<Rightarrow> spool_ledger \<Rightarrow> nat" where
  "dir_total dir L = sum_list (map (\<lambda>(p, e). se_bytes e)
     (filter (\<lambda>(p, e). path_parent p = Some dir) (sl_entries L)))"

function dir_loop :: "(path \<Rightarrow> remove_result) \<Rightarrow> path \<Rightarrow> spool_ledger \<Rightarrow> path set \<Rightarrow> spool_ledger" where
  "dir_loop rm dir L attempted =
     (if dir_total dir L \<le> MAX_SPOOL_DIR_BYTES then L
      else (case evict_oldest rm (Some dir) L attempted of
              (True, L', attempted') \<Rightarrow> dir_loop rm dir L' attempted'
            | (False, L', _) \<Rightarrow> L'))"
  by pat_completeness auto
termination
  by (relation "measure (\<lambda>(_, _, L, _). length (sl_entries L))")
    (auto dest: evict_oldest_shrinks[OF sym])

definition enforce_dir_budget :: "(path \<Rightarrow> remove_result) \<Rightarrow> path \<Rightarrow> spool_ledger \<Rightarrow> spool_ledger" where
  "enforce_dir_budget rm dir L = dir_loop rm dir L {}"

declare evict_loop.simps [simp del] dir_loop.simps [simp del]

definition register_active :: "nat \<Rightarrow> path \<Rightarrow> spool_ledger \<Rightarrow> spool_ledger" where
  "register_active wall p L =
     (let L1 = drop_entry p L
      in L1\<lparr>sl_entries := hm_insert p \<lparr>se_bytes = 0, se_modified = wall, se_active = True\<rparr>
            (sl_entries L1)\<rparr>)"

definition claim_bytes :: "(path \<Rightarrow> remove_result) \<Rightarrow> nat \<Rightarrow> path \<Rightarrow> nat \<Rightarrow> spool_ledger
    \<Rightarrow> nat \<times> spool_ledger" where
  "claim_bytes rm wall p desired L =
     (if desired = 0 \<or> \<not> sl_initialized L then (0, L)
      else
        let target = sl_max_bytes L - min desired (sl_max_bytes L);
            L1 = evict_global_until rm target L;
            granted = min desired (sl_max_bytes L1 - sl_total_bytes L1);
            entry = (case hm_get (sl_entries L1) p of
                       Some e \<Rightarrow> e
                     | None \<Rightarrow> \<lparr>se_bytes = 0, se_modified = wall, se_active = True\<rparr>)
        in (granted,
            L1\<lparr>sl_entries := hm_insert p
                 (entry\<lparr>se_bytes := sat_add (se_bytes entry) granted, se_modified := wall\<rparr>)
                 (sl_entries L1),
               sl_total_bytes := sat_add (sl_total_bytes L1) granted\<rparr>))"

definition set_actual_bytes :: "nat \<Rightarrow> path \<Rightarrow> nat \<Rightarrow> spool_ledger \<Rightarrow> spool_ledger" where
  "set_actual_bytes wall p actual L =
     (case hm_get (sl_entries L) p of
        None \<Rightarrow> L
      | Some e \<Rightarrow> L\<lparr>sl_total_bytes := sat_add (sl_total_bytes L - se_bytes e) actual,
             sl_entries := hm_insert p (e\<lparr>se_bytes := actual, se_modified := wall\<rparr>) (sl_entries L)\<rparr>)"

definition mark_inactive :: "nat \<Rightarrow> path \<Rightarrow> spool_ledger \<Rightarrow> spool_ledger" where
  "mark_inactive wall p L =
     (case hm_get (sl_entries L) p of
        None \<Rightarrow> L
      | Some e \<Rightarrow>
          let es = hm_insert p (e\<lparr>se_active := False, se_modified := wall\<rparr>) (sl_entries L)
          in if se_bytes e = 0 then L\<lparr>sl_entries := hm_remove p es\<rparr> else L\<lparr>sl_entries := es\<rparr>)"

subsection \<open>Initial index of the spool root\<close>

datatype file_kind = KindFailed | KindDir | KindFile | KindOther
datatype metadata = MetaFailed | Meta nat "nat option"  \<comment> \<open>length, modification time\<close>
datatype dir_entry = EntryFailed | DirEntry path file_kind metadata

type_synonym read_dir = "path \<Rightarrow> dir_entry list option"

fun scan_files :: "dir_entry list \<Rightarrow> (path, spool_entry) hmap \<Rightarrow> nat
    \<Rightarrow> ((path, spool_entry) hmap \<times> nat) option" where
  "scan_files [] es tot = Some (es, tot)"
| "scan_files (EntryFailed # ds) es tot = None"
| "scan_files (DirEntry p KindFailed m # ds) es tot = None"
| "scan_files (DirEntry p KindFile MetaFailed # ds) es tot = None"
| "scan_files (DirEntry p KindFile (Meta len mtime) # ds) es tot =
     (if len = 0 then scan_files ds es tot
      else scan_files ds
        (hm_insert p \<lparr>se_bytes = len, se_modified = (case mtime of None \<Rightarrow> 0 | Some t \<Rightarrow> t),
                      se_active = False\<rparr> es)
        (sat_add tot len))"
| "scan_files (DirEntry p KindDir m # ds) es tot = scan_files ds es tot"
| "scan_files (DirEntry p KindOther m # ds) es tot = scan_files ds es tot"

fun scan_dirs :: "read_dir \<Rightarrow> dir_entry list \<Rightarrow> (path, spool_entry) hmap \<Rightarrow> nat
    \<Rightarrow> ((path, spool_entry) hmap \<times> nat) option" where
  "scan_dirs rd [] es tot = Some (es, tot)"
| "scan_dirs rd (EntryFailed # ds) es tot = None"
| "scan_dirs rd (DirEntry p KindFailed m # ds) es tot = None"
| "scan_dirs rd (DirEntry p KindDir m # ds) es tot =
     (case rd p of
        None \<Rightarrow> None
      | Some fs \<Rightarrow> (case scan_files fs es tot of
                     None \<Rightarrow> None
                   | Some (es', tot') \<Rightarrow> scan_dirs rd ds es' tot'))"
| "scan_dirs rd (DirEntry p KindFile m # ds) es tot = scan_dirs rd ds es tot"
| "scan_dirs rd (DirEntry p KindOther m # ds) es tot = scan_dirs rd ds es tot"

definition scan_spool_root :: "read_dir \<Rightarrow> path \<Rightarrow> ((path, spool_entry) hmap \<times> nat) option" where
  "scan_spool_root rd root =
     (case rd root of None \<Rightarrow> None | Some ds \<Rightarrow> scan_dirs rd ds [] 0)"

text \<open>Entries of runs still being written replace what the scan saw of their files.\<close>

fun merge_active :: "(path \<times> spool_entry) list \<Rightarrow> (path, spool_entry) hmap \<times> nat
    \<Rightarrow> (path, spool_entry) hmap \<times> nat" where
  "merge_active [] acc = acc"
| "merge_active ((p, a) # as) (es, tot) =
     (if se_active a then
        (let (es1, t1) = (case hm_get es p of
                            Some sc \<Rightarrow> (hm_remove p es, tot - se_bytes sc)
                          | None \<Rightarrow> (es, tot))
         in merge_active as
              (hm_insert p \<lparr>se_bytes = se_bytes a, se_modified = se_modified a, se_active = True\<rparr> es1,
               sat_add t1 (se_bytes a)))
      else merge_active as (es, tot))"

definition ledger_initialize :: "(path \<Rightarrow> remove_result) \<Rightarrow> read_dir \<Rightarrow> path \<Rightarrow> instant
    \<Rightarrow> spool_ledger \<Rightarrow> spool_ledger" where
  "ledger_initialize rm rd root now L =
     (if sl_initialized L then L
      else if (case sl_next_scan_attempt L of None \<Rightarrow> False | Some deadline \<Rightarrow> deadline > now) then L
      else (case scan_spool_root rd root of
              None \<Rightarrow> L\<lparr>sl_next_scan_attempt := Some (now + SPOOL_SCAN_RETRY_INTERVAL)\<rparr>
            | Some snapshot \<Rightarrow>
                let (es, tot) = merge_active (sl_entries L) snapshot
                in enforce_global_budget rm
                     (L\<lparr>sl_entries := es, sl_total_bytes := tot, sl_initialized := True,
                        sl_next_scan_attempt := None\<rparr>)))"

subsection \<open>Ledger invariant\<close>

definition ledger_sum :: "(path, spool_entry) hmap \<Rightarrow> nat" where
  "ledger_sum es = sum_list (map (\<lambda>(p, e). se_bytes e) es)"

text \<open>
  The accounted total is the sum of the entries: what every operation keeps, whatever the
  removals do.
\<close>

definition ledger_ok :: "spool_ledger \<Rightarrow> bool" where
  "ledger_ok L \<longleftrightarrow> hm_ok (sl_entries L) \<and> sl_total_bytes L = ledger_sum (sl_entries L)"

lemma ledger_sum_remove:
  "hm_ok es \<Longrightarrow> hm_get es p = Some e \<Longrightarrow>
     ledger_sum es = se_bytes e + ledger_sum (hm_remove p es)"
proof (induction es)
  case (Cons x es)
  obtain q f where x: "x = (q, f)" by (cases x)
  have "q = p \<Longrightarrow> hm_remove p es = es"
    using Cons.prems x by (intro hm_remove_absent) (auto simp: hm_ok_def map_of_eq_None_iff)
  then show ?case using Cons x by (auto simp: ledger_sum_def hm_ok_def split: if_splits)
qed simp

lemma ledger_sum_insert_new:
  "hm_get es p = None \<Longrightarrow> ledger_sum (hm_insert p e es) = ledger_sum es + se_bytes e"
  by (induction es) (auto simp: ledger_sum_def split: if_splits)

lemma ledger_sum_insert_old:
  "hm_ok es \<Longrightarrow> hm_get es p = Some e \<Longrightarrow>
     ledger_sum (hm_insert p e' es) = ledger_sum (hm_remove p es) + se_bytes e'"
proof (induction es)
  case (Cons x es)
  obtain q f where x: "x = (q, f)" by (cases x)
  have "q = p \<Longrightarrow> hm_remove p es = es"
    using Cons.prems x by (intro hm_remove_absent) (auto simp: hm_ok_def map_of_eq_None_iff)
  then show ?case using Cons x by (auto simp: ledger_sum_def hm_ok_def split: if_splits)
qed simp

lemma drop_entry_ok: "ledger_ok L \<Longrightarrow> ledger_ok (drop_entry p L)"
  using ledger_sum_remove[of "sl_entries L" p]
  by (auto simp: ledger_ok_def drop_entry_def split: option.splits)

lemma drop_entry_frame [simp]:
  "sl_max_bytes (drop_entry p L) = sl_max_bytes L"
  "sl_initialized (drop_entry p L) = sl_initialized L"
  "sl_total_bytes (drop_entry p L) \<le> sl_total_bytes L"
  "hm_get (sl_entries (drop_entry p L)) q = (if q = p then None else hm_get (sl_entries L) q)"
  by (auto simp: drop_entry_def split: option.splits)

definition evictable :: "(path \<Rightarrow> remove_result) \<Rightarrow> spool_ledger \<Rightarrow> path \<Rightarrow> bool" where
  "evictable rm L p \<longleftrightarrow>
     (\<exists>e. (p, e) \<in> set (sl_entries L) \<and> \<not> se_active e \<and> se_bytes e > 0 \<and> rm p \<noteq> RemoveFailed)"

lemma evict_oldest_True:
  assumes "evict_oldest rm dir L att = (True, L', att')"
  shows "\<exists>p. evictable rm L p \<and> L' = drop_entry p L"
proof -
  obtain p where "p \<in> set (eviction_candidates dir att L)" "L' = drop_entry p L" "rm p \<noteq> RemoveFailed"
    using evict_first_result[OF assms[unfolded evict_oldest_def]] by auto
  then show ?thesis by (auto simp: set_candidates evictable_def)
qed

lemma evict_first_att:
  "evict_first rm ps L att = (b, L', att') \<Longrightarrow> \<forall>p\<in>att. rm p = RemoveFailed \<Longrightarrow>
     \<forall>p\<in>att'. rm p = RemoveFailed"
proof (induction ps arbitrary: att)
  case (Cons p ps)
  show ?case
  proof (cases "rm p")
    case RemoveFailed
    with Cons.prems have "evict_first rm ps L (insert p att) = (b, L', att')" by simp
    then show ?thesis by (rule Cons.IH) (use RemoveFailed Cons.prems in simp)
  qed (use Cons.prems in simp_all)
qed simp

lemma evict_oldest_att:
  assumes "evict_oldest rm dir L att = (b, L', att')" and "\<forall>p\<in>att. rm p = RemoveFailed"
  shows "\<forall>p\<in>att'. rm p = RemoveFailed"
  using evict_first_att assms unfolding evict_oldest_def by blast

lemma evict_oldest_False:
  assumes "evict_oldest rm dir L att = (False, L', att')" and "\<forall>p\<in>att. rm p = RemoveFailed"
  shows "L' = L" and "\<And>p. evictable rm L p \<Longrightarrow>
    (case dir of None \<Rightarrow> False | Some d \<Rightarrow> path_parent p \<noteq> Some d)"
proof -
  note r = evict_first_result[OF assms(1)[unfolded evict_oldest_def], simplified]
  show "L' = L" using r by simp
  fix p assume ev: "evictable rm L p"
  then have "p \<notin> set (eviction_candidates dir att L)" "p \<notin> att"
    using r assms(2) by (auto simp: evictable_def)
  with ev show "(case dir of None \<Rightarrow> False | Some d \<Rightarrow> path_parent p \<noteq> Some d)"
    unfolding set_candidates evictable_def by (cases dir) auto
qed

text \<open>Whatever evicting one entry keeps, the eviction loops keep.\<close>

lemma evict_loop_keeps:
  assumes "P L" and "\<And>L p. P L \<Longrightarrow> evictable rm L p \<Longrightarrow> P (drop_entry p L)"
  shows "P (evict_loop rm target L att)"
  using assms
proof (induction rm target L att rule: evict_loop.induct)
  case (1 rm target L att)
  obtain b L' att' where e: "evict_oldest rm None L att = (b, L', att')"
    by (cases "evict_oldest rm None L att")
  show ?case
  proof (cases "sl_total_bytes L > target \<and> b")
    case True
    with e have t: "evict_oldest rm None L att = (True, L', att')" by simp
    then have "P L'" using evict_oldest_True[OF t] 1(2,3) by blast
    with 1 True t show ?thesis by (simp add: evict_loop.simps[of rm target L])
  next
    case False
    then have "L' = L \<or> sl_total_bytes L \<le> target"
      using e evict_first_result[OF e[unfolded evict_oldest_def]] by auto
    with 1(2) False e show ?thesis by (auto simp: evict_loop.simps[of rm target L])
  qed
qed

lemma dir_loop_keeps:
  assumes "P L" and "\<And>L p. P L \<Longrightarrow> evictable rm L p \<Longrightarrow> P (drop_entry p L)"
  shows "P (dir_loop rm dir L att)"
  using assms
proof (induction rm dir L att rule: dir_loop.induct)
  case (1 rm dir L att)
  obtain b L' att' where e: "evict_oldest rm (Some dir) L att = (b, L', att')"
    by (cases "evict_oldest rm (Some dir) L att")
  show ?case
  proof (cases "\<not> dir_total dir L \<le> MAX_SPOOL_DIR_BYTES \<and> b")
    case True
    with e have t: "evict_oldest rm (Some dir) L att = (True, L', att')" by simp
    then have "P L'" using evict_oldest_True[OF t] 1(2,3) by blast
    with 1 True t show ?thesis by (simp add: dir_loop.simps[of rm dir L])
  next
    case False
    then have "L' = L \<or> dir_total dir L \<le> MAX_SPOOL_DIR_BYTES"
      using e evict_first_result[OF e[unfolded evict_oldest_def]] by auto
    with 1(2) False e show ?thesis by (auto simp: dir_loop.simps[of rm dir L])
  qed
qed

lemmas eviction_keeps = evict_loop_keeps dir_loop_keeps

lemma evict_loop_outcome:
  assumes "\<forall>p\<in>att. rm p = RemoveFailed"
  shows "sl_total_bytes (evict_loop rm target L att) \<le> target
    \<or> (\<forall>p. \<not> evictable rm (evict_loop rm target L att) p)"
  using assms
proof (induction rm target L att rule: evict_loop.induct)
  case (1 rm target L att)
  obtain b L' att' where e: "evict_oldest rm None L att = (b, L', att')"
    by (cases "evict_oldest rm None L att")
  show ?case
  proof (cases "sl_total_bytes L > target")
    case True
    show ?thesis
    proof (cases b)
      case True
      with e have t: "evict_oldest rm None L att = (True, L', att')" by simp
      from 1(1)[OF \<open>sl_total_bytes L > target\<close> t[symmetric] refl refl] evict_oldest_att[OF t 1(2)]
      show ?thesis using \<open>sl_total_bytes L > target\<close> t by (simp add: evict_loop.simps[of rm target L])
    next
      case False
      with e have f: "evict_oldest rm None L att = (False, L', att')" by simp
      show ?thesis
        using evict_oldest_False[OF f 1(2)] \<open>sl_total_bytes L > target\<close> f
        by (auto simp: evict_loop.simps[of rm target L])
    qed
  qed (simp add: evict_loop.simps[of rm target L])
qed

lemma evict_global_ok: "ledger_ok L \<Longrightarrow> ledger_ok (evict_global_until rm target L)"
  unfolding evict_global_until_def by (rule evict_loop_keeps) (auto intro: drop_entry_ok)

lemma drop_entry_total: "t \<ge> sl_total_bytes L \<Longrightarrow> t \<ge> sl_total_bytes (drop_entry p L)"
  using drop_entry_frame(3) le_trans by blast

lemma evict_global_frame [simp]:
  "sl_max_bytes (evict_global_until rm target L) = sl_max_bytes L"
  "sl_initialized (evict_global_until rm target L) = sl_initialized L"
  "sl_total_bytes (evict_global_until rm target L) \<le> sl_total_bytes L"
  unfolding evict_global_until_def
    apply (rule evict_loop_keeps; simp)
   apply (rule evict_loop_keeps; simp)
  apply (rule evict_loop_keeps[where P = "\<lambda>L'. sl_total_bytes L' \<le> sl_total_bytes L"])
   apply (simp_all add: drop_entry_total)
  done

lemma evictable_inactive:
  "hm_ok (sl_entries L) \<Longrightarrow> hm_get (sl_entries L) p = Some e \<Longrightarrow> se_active e \<Longrightarrow> \<not> evictable rm L p"
  by (auto simp: evictable_def dest: hm_get_in)

lemma evict_global_keeps_active:
  assumes "ledger_ok L" and "hm_get (sl_entries L) p = Some e" and "se_active e"
  shows "hm_get (sl_entries (evict_global_until rm target L)) p = Some e"
proof -
  let ?P = "\<lambda>L'. ledger_ok L' \<and> hm_get (sl_entries L') p = Some e"
  have "?P (evict_loop rm target L {})"
  proof (rule evict_loop_keeps[where P = ?P])
    show "?P L" using assms by simp
    fix L' q assume "?P L'" and "evictable rm L' q"
    moreover from this have "p \<noteq> q" using evictable_inactive assms(3) by (auto simp: ledger_ok_def)
    ultimately show "?P (drop_entry q L')" by (simp add: drop_entry_ok)
  qed
  then show ?thesis by (simp add: evict_global_until_def)
qed

subsection \<open>What each ledger operation keeps\<close>

lemma ledger_entry_le: "ledger_ok L \<Longrightarrow> hm_get (sl_entries L) p = Some e \<Longrightarrow> se_bytes e \<le> sl_total_bytes L"
  using ledger_sum_remove by (fastforce simp: ledger_ok_def)

lemma enforce_global_ok: "ledger_ok L \<Longrightarrow> ledger_ok (enforce_global_budget rm L)"
  by (simp add: enforce_global_budget_def evict_global_ok)

lemma enforce_dir_ok: "ledger_ok L \<Longrightarrow> ledger_ok (enforce_dir_budget rm dir L)"
  unfolding enforce_dir_budget_def by (rule dir_loop_keeps) (auto intro: drop_entry_ok)

lemma register_active_ok: "ledger_ok L \<Longrightarrow> ledger_ok (register_active wall p L)"
  using drop_entry_ok[of L p] ledger_sum_insert_new[of "sl_entries (drop_entry p L)" p]
  by (simp add: register_active_def Let_def ledger_ok_def)

lemma set_actual_bytes_ok:
  assumes "ledger_ok L" and "sl_total_bytes L + actual \<le> u64_max"
  shows "ledger_ok (set_actual_bytes wall p actual L)"
proof (cases "hm_get (sl_entries L) p")
  case None
  with assms show ?thesis by (simp add: set_actual_bytes_def)
next
  case (Some e)
  then show ?thesis
    using assms ledger_sum_remove[of "sl_entries L" p e]
      ledger_sum_insert_old[of "sl_entries L" p e]
    by (simp add: set_actual_bytes_def ledger_ok_def sat_simps)
qed

lemma mark_inactive_ok: "ledger_ok L \<Longrightarrow> ledger_ok (mark_inactive wall p L)"
proof (cases "hm_get (sl_entries L) p")
  case (Some e)
  assume ok: "ledger_ok L"
  let ?es = "hm_insert p (e\<lparr>se_active := False, se_modified := wall\<rparr>) (sl_entries L)"
  have "ledger_sum ?es = ledger_sum (sl_entries L)" and h: "hm_ok ?es"
    using ok Some ledger_sum_remove[of "sl_entries L" p e] ledger_sum_insert_old[of "sl_entries L" p e]
    by (auto simp: ledger_ok_def)
  moreover have "se_bytes e = 0 \<Longrightarrow> ledger_sum (hm_remove p ?es) = ledger_sum ?es"
    using ledger_sum_remove[OF h, of p "e\<lparr>se_active := False, se_modified := wall\<rparr>"] by simp
  ultimately show ?thesis
    using ok Some by (auto simp: mark_inactive_def ledger_ok_def Let_def)
qed (simp add: mark_inactive_def)

lemma claim_bytes_facts:
  assumes "ledger_ok L" and "sl_total_bytes L \<le> sl_max_bytes L" and "sl_max_bytes L \<le> u64_max"
    and "claim_bytes rm wall p desired L = (g, L')"
  shows "g \<le> desired" and "ledger_ok L'" and "sl_total_bytes L' \<le> sl_max_bytes L'"
    and "sl_max_bytes L' = sl_max_bytes L" and "sl_initialized L' = sl_initialized L"
    and "\<And>q e. q \<noteq> p \<Longrightarrow> hm_get (sl_entries L) q = Some e \<Longrightarrow> se_active e \<Longrightarrow>
           hm_get (sl_entries L') q = Some e"
proof -
  let ?L1 = "evict_global_until rm (sl_max_bytes L - min desired (sl_max_bytes L)) L"
  let ?e0 = "case hm_get (sl_entries ?L1) p of Some e \<Rightarrow> e
     | None \<Rightarrow> \<lparr>se_bytes = 0, se_modified = wall, se_active = True\<rparr>"
  have ok1: "ledger_ok ?L1" using assms(1) by (rule evict_global_ok)
  have le1: "sl_total_bytes ?L1 \<le> sl_max_bytes L"
    using evict_global_frame(3) assms(2) le_trans by blast
  have e0: "se_bytes ?e0 \<le> sl_total_bytes ?L1"
    using ledger_entry_le[OF ok1, of p] by (auto split: option.splits)
  have eq: "claim_bytes rm wall p desired L = (0, L)" if "desired = 0 \<or> \<not> sl_initialized L"
    using that by (simp add: claim_bytes_def)
  have eq': "g = min desired (sl_max_bytes L - sl_total_bytes ?L1)
      \<and> L' = ?L1\<lparr>sl_entries := hm_insert p
                 (?e0\<lparr>se_bytes := sat_add (se_bytes ?e0) g, se_modified := wall\<rparr>)
                 (sl_entries ?L1), sl_total_bytes := sat_add (sl_total_bytes ?L1) g\<rparr>"
    if "\<not> (desired = 0 \<or> \<not> sl_initialized L)"
    using assms(4)[symmetric] that unfolding claim_bytes_def Let_def
    by (simp only: if_False prod.inject evict_global_frame)
  consider (zero) "desired = 0 \<or> \<not> sl_initialized L" "g = 0" "L' = L"
    | (claimed) "g = min desired (sl_max_bytes L - sl_total_bytes ?L1)"
        "L' = ?L1\<lparr>sl_entries := hm_insert p
                 (?e0\<lparr>se_bytes := sat_add (se_bytes ?e0) g, se_modified := wall\<rparr>)
                 (sl_entries ?L1), sl_total_bytes := sat_add (sl_total_bytes ?L1) g\<rparr>"
    using eq eq' assms(4) by (metis prod.inject)
  then have "g \<le> desired \<and> ledger_ok L' \<and> sl_total_bytes L' \<le> sl_max_bytes L'
     \<and> sl_max_bytes L' = sl_max_bytes L \<and> sl_initialized L' = sl_initialized L
     \<and> (\<forall>q e. q \<noteq> p \<longrightarrow> hm_get (sl_entries L) q = Some e \<longrightarrow> se_active e \<longrightarrow>
           hm_get (sl_entries L') q = Some e)"
  proof cases
    case zero
    then show ?thesis using assms by simp
  next
    case claimed
    have fit: "sl_total_bytes ?L1 + g \<le> sl_max_bytes L" using claimed(1) le1 by (auto simp: min_def)
    then have ex: "sat_add (sl_total_bytes ?L1) g = sl_total_bytes ?L1 + g"
      "sat_add (se_bytes ?e0) g = se_bytes ?e0 + g"
      using assms(3) e0 by (simp_all add: sat_simps)
    have "ledger_ok L'"
    proof (cases "hm_get (sl_entries ?L1) p")
      case None
      then show ?thesis
        using ok1 claimed(2) ex ledger_sum_insert_new[of "sl_entries ?L1" p]
        by (simp add: ledger_ok_def)
    next
      case (Some e)
      then show ?thesis
        using ok1 claimed(2) ex ledger_sum_insert_old[of "sl_entries ?L1" p e]
          ledger_sum_remove[of "sl_entries ?L1" p e]
        by (simp add: ledger_ok_def)
    qed
    moreover have "hm_get (sl_entries L') q = Some e"
      if "q \<noteq> p" "hm_get (sl_entries L) q = Some e" "se_active e" for q e
      using evict_global_keeps_active[OF assms(1) that(2,3)] that(1) claimed(2) by simp
    moreover have "g \<le> desired" unfolding claimed(1) by simp
    moreover have "sl_total_bytes L' \<le> sl_max_bytes L'" "sl_max_bytes L' = sl_max_bytes L"
      "sl_initialized L' = sl_initialized L"
      unfolding claimed(2) using fit ex(1) by simp_all
    ultimately show ?thesis by blast
  qed
  then show "g \<le> desired" and "ledger_ok L'" and "sl_total_bytes L' \<le> sl_max_bytes L'"
    and "sl_max_bytes L' = sl_max_bytes L" and "sl_initialized L' = sl_initialized L"
    and "\<And>q e. q \<noteq> p \<Longrightarrow> hm_get (sl_entries L) q = Some e \<Longrightarrow> se_active e \<Longrightarrow>
           hm_get (sl_entries L') q = Some e"
    by blast+
qed

subsection \<open>Writer\<close>

record spool_writer =
  sw_file :: bytes  \<comment> \<open>contents of the open file\<close>
  sw_path :: path
  sw_limit :: nat
  sw_bytes_written :: nat
  sw_limited :: bool

definition new_accounted :: "path \<Rightarrow> spool_writer" where
  "new_accounted p = \<lparr>sw_file = [], sw_path = p, sw_limit = MAX_SPOOL_FILE_BYTES,
     sw_bytes_written = 0, sw_limited = False\<rparr>"

text \<open>\<open>WriteErr n\<close>: the write failed after \<open>n\<close> bytes had reached the file.\<close>

datatype write_outcome = WriteOk | WriteErr nat

definition write_all :: "write_outcome \<Rightarrow> bytes \<Rightarrow> bytes \<Rightarrow> bytes \<times> bool" where
  "write_all oc file data =
     (case oc of WriteOk \<Rightarrow> (file @ data, True) | WriteErr n \<Rightarrow> (file @ take n data, False))"

record spool_env =
  env_rm :: "path \<Rightarrow> remove_result"
  env_wall :: nat
  env_payload_write :: write_outcome
  env_marker_write :: write_outcome
  env_stat_ok :: bool

definition reconcile_accounting :: "spool_env \<Rightarrow> spool_writer \<Rightarrow> spool_ledger
    \<Rightarrow> spool_writer \<times> spool_ledger" where
  "reconcile_accounting env w L =
     (if env_stat_ok env then
        (w\<lparr>sw_bytes_written := min (length (sw_file w)) (sw_limit w)\<rparr>,
         set_actual_bytes (env_wall env) (sw_path w) (length (sw_file w)) L)
      else (w, L))"

text \<open>What one write plans to persist: payload bytes, whether the limit marker follows, the total.\<close>

definition plan_write :: "nat \<Rightarrow> nat \<Rightarrow> nat \<Rightarrow> nat \<times> bool \<times> nat" where
  "plan_write limit bytes_written n =
     (let marker_len = length SPOOL_LIMIT_MARKER;
          payload_limit = limit - marker_len;
          remaining = payload_limit - bytes_written;
          planned_payload = min remaining n;
          planned_marker = (planned_payload < n \<and> limit \<ge> marker_len)
      in (planned_payload, planned_marker,
          sat_add planned_payload (if planned_marker then marker_len else 0)))"

text \<open>How a possibly smaller grant is split into payload to keep and the marker.\<close>

definition split_grant :: "nat \<Rightarrow> bool \<Rightarrow> nat \<Rightarrow> nat \<Rightarrow> nat \<times> bool" where
  "split_grant planned_payload planned_marker planned granted =
     (let marker_len = length SPOOL_LIMIT_MARKER in
      if granted < planned \<and> granted \<ge> marker_len
      then (min (granted - marker_len) planned_payload, True)
      else (min granted planned_payload, planned_marker \<and> granted = planned))"

definition write_payload :: "spool_env \<Rightarrow> bytes \<Rightarrow> spool_writer \<Rightarrow> spool_ledger
    \<Rightarrow> bool \<times> spool_writer \<times> spool_ledger" where
  "write_payload env bs w L =
     (if sw_limited w \<or> bs = [] then (True, w, L)
      else
        let (planned_payload, planned_marker, planned) =
              plan_write (sw_limit w) (sw_bytes_written w) (length bs);
            (granted, L1) = claim_bytes (env_rm env) (env_wall env) (sw_path w) planned L;
            (keep, write_marker) = split_grant planned_payload planned_marker planned granted;
            (f1, ok1) = (if keep > 0 then write_all (env_payload_write env) (sw_file w) (take keep bs)
                         else (sw_file w, True));
            (f2, ok2) = (if ok1 \<and> write_marker then write_all (env_marker_write env) f1 SPOOL_LIMIT_MARKER
                         else (f1, ok1));
            w1 = w\<lparr>sw_file := f2\<rparr>
        in if \<not> ok2 then
             (let (w2, L2) = reconcile_accounting env w1 L1 in (False, w2, L2))
           else
             (True,
              w1\<lparr>sw_bytes_written :=
                    sat_add (sat_add (sw_bytes_written w) keep)
                      (if write_marker then length SPOOL_LIMIT_MARKER else 0),
                 sw_limited := (planned_marker \<or> granted < planned)\<rparr>,
              L1))"

text \<open>\<open>Drop\<close> of a writer: the run's file is closed, its entry becomes evictable.\<close>

definition drop_writer :: "spool_env \<Rightarrow> spool_writer \<Rightarrow> spool_ledger \<Rightarrow> spool_ledger" where
  "drop_writer env w L =
     (let (w1, L1) = reconcile_accounting env w L;
          L2 = mark_inactive (env_wall env) (sw_path w1) L1;
          L3 = (case path_parent (sw_path w1) of
                  Some dir \<Rightarrow> enforce_dir_budget (env_rm env) dir L2
                | None \<Rightarrow> L2)
      in enforce_global_budget (env_rm env) L3)"

subsection \<open>Names and creation of spool files\<close>

definition spool_hex :: "nat \<Rightarrow> char" where
  "spool_hex n = ''0123456789abcdef'' ! n"

definition ascii_alnum :: "char \<Rightarrow> bool" where
  "ascii_alnum c \<longleftrightarrow> c \<in> set (''0123456789'' @ ''abcdefghijklmnopqrstuvwxyz''
     @ ''ABCDEFGHIJKLMNOPQRSTUVWXYZ'')"

fun encode_bytes :: "bytes \<Rightarrow> string" where
  "encode_bytes [] = []"
| "encode_bytes (b # bs) =
     (if ascii_alnum b \<or> b \<in> set ''-_'' then b # encode_bytes bs
      else CHR ''~'' # spool_hex (of_char b div 16) # spool_hex (of_char b mod 16) # encode_bytes bs)"

fun hex16 :: "nat \<Rightarrow> nat \<Rightarrow> string" where
  "hex16 0 n = []"
| "hex16 (Suc k) n = hex16 k (n div 16) @ [spool_hex (n mod 16)]"

text \<open>\<open>hash\<close> stands for the standard library's \<open>DefaultHasher\<close>, whose value is unspecified.\<close>

definition encode_spool_name :: "(bytes \<Rightarrow> nat) \<Rightarrow> bytes \<Rightarrow> string" where
  "encode_spool_name hash v =
     (let encoded = encode_bytes v in
      if length encoded \<le> MAX_ENCODED_SPOOL_NAME_BYTES then encoded
      else
        let suffix = CHR ''~'' # hex16 16 (hash v)
        in take (MAX_ENCODED_SPOOL_NAME_BYTES - length suffix) encoded @ suffix)"

definition spool_dir_under :: "(bytes \<Rightarrow> nat) \<Rightarrow> path \<Rightarrow> bytes \<Rightarrow> bytes \<Rightarrow> path" where
  "spool_dir_under hash root host name =
     root @ [''h-'' @ encode_spool_name hash host @ ''--s-'' @ encode_spool_name hash name]"

fun dec_digits :: "nat \<Rightarrow> string" where
  "dec_digits n = (if n < 10 then [spool_hex n] else dec_digits (n div 10) @ [spool_hex (n mod 10)])"

declare dec_digits.simps [simp del]

definition pad8 :: "nat \<Rightarrow> string" where
  "pad8 n = (let s = dec_digits n in replicate (8 - length s) (CHR ''0'') @ s)"

definition spool_filename :: "(nat \<Rightarrow> nat) \<Rightarrow> nat \<Rightarrow> nat \<Rightarrow> string" where
  "spool_filename random seq attempt =
     (if attempt = 0 then pad8 seq @ ''.log''
      else pad8 seq @ ''-'' @ hex16 16 (random attempt) @ ''.log'')"

datatype open_result = Opened | OpenExists | OpenFailed

datatype spool_error = PrivateDirFailed | AlreadyExists | OpenError | NotRegular | MetadataError
  | PermissionsError

fun create_attempts :: "(path \<Rightarrow> open_result) \<Rightarrow> (nat \<Rightarrow> nat) \<Rightarrow> path \<Rightarrow> nat \<Rightarrow> nat list
    \<Rightarrow> spool_error + path" where
  "create_attempts opn random dir seq [] = Inl AlreadyExists"
| "create_attempts opn random dir seq (a # as) =
     (let p = dir @ [spool_filename random seq a] in
      case opn p of
        Opened \<Rightarrow> Inr p
      | OpenExists \<Rightarrow> create_attempts opn random dir seq as
      | OpenFailed \<Rightarrow> Inl OpenError)"

definition create_spool_file :: "(path \<Rightarrow> open_result) \<Rightarrow> (nat \<Rightarrow> nat) \<Rightarrow> path \<Rightarrow> nat
    \<Rightarrow> spool_error + path" where
  "create_spool_file opn random dir seq = create_attempts opn random dir seq [0..<16]"

record open_env =
  oe_hash :: "bytes \<Rightarrow> nat"
  oe_private_dir :: "path \<Rightarrow> bool"  \<comment> \<open>\<open>ensure_private_dir\<close> succeeds\<close>
  oe_read_dir :: read_dir
  oe_now :: instant
  oe_wall :: nat
  oe_rm :: "path \<Rightarrow> remove_result"
  oe_open :: "path \<Rightarrow> open_result"
  oe_random :: "nat \<Rightarrow> nat"
  oe_regular :: "path \<Rightarrow> bool option"  \<comment> \<open>\<open>metadata().is_file()\<close>\<close>
  oe_chmod :: "path \<Rightarrow> bool"

definition open_spool_file_under :: "open_env \<Rightarrow> path \<Rightarrow> bytes \<Rightarrow> bytes \<Rightarrow> nat \<Rightarrow> spool_ledger
    \<Rightarrow> (spool_error + path \<times> spool_writer) \<times> spool_ledger" where
  "open_spool_file_under env root host name seq L =
     (let dir = spool_dir_under (oe_hash env) root host name in
      if \<not> oe_private_dir env root \<or> \<not> oe_private_dir env dir then (Inl PrivateDirFailed, L)
      else
        let L1 = ledger_initialize (oe_rm env) (oe_read_dir env) root (oe_now env) L in
        (case create_spool_file (oe_open env) (oe_random env) dir seq of
           Inl e \<Rightarrow> (Inl e, L1)
         | Inr p \<Rightarrow>
             (case oe_regular env p of
                None \<Rightarrow> (Inl MetadataError, L1)
              | Some False \<Rightarrow> (Inl NotRegular, L1)
              | Some True \<Rightarrow>
                  if \<not> oe_chmod env p then (Inl PermissionsError, L1)
                  else
                    let L2 = register_active (oe_wall env) p L1;
                        L3 = enforce_dir_budget (oe_rm env) dir L2;
                        L4 = enforce_global_budget (oe_rm env) L3
                    in (Inr (p, new_accounted p), L4))))"

definition open_spool_file_best_effort :: "open_env \<Rightarrow> path \<Rightarrow> bytes \<Rightarrow> bytes \<Rightarrow> nat \<Rightarrow> spool_ledger
    \<Rightarrow> (path \<times> spool_writer option) \<times> spool_ledger" where
  "open_spool_file_best_effort env root host name seq L =
     (case open_spool_file_under env root host name seq L of
        (Inr (p, w), L') \<Rightarrow> ((p, Some w), L')
      | (Inl e, L') \<Rightarrow> (([], None), L'))"

subsection \<open>Budget properties\<close>

text \<open>
  A byte claim never exceeds its request nor the global budget: from a consistent ledger
  within its maximum, \<open>claim_bytes\<close> grants at most what was asked, keeps the accounting exact
  and the total within the maximum, and leaves the entry of every other run still being
  written as it was, whatever removals succeed or fail.
\<close>

theorem claim_bytes_budget:
  assumes "ledger_ok L" and "sl_total_bytes L \<le> sl_max_bytes L" and "sl_max_bytes L \<le> u64_max"
  shows "case claim_bytes rm wall p desired L of (g, L') \<Rightarrow>
     g \<le> desired \<and> ledger_ok L' \<and> sl_total_bytes L' \<le> sl_max_bytes L'
     \<and> sl_max_bytes L' = sl_max_bytes L
     \<and> (\<forall>q e. q \<noteq> p \<and> hm_get (sl_entries L) q = Some e \<and> se_active e
            \<longrightarrow> hm_get (sl_entries L') q = Some e)"
proof -
  obtain g L' where c: "claim_bytes rm wall p desired L = (g, L')"
    by (cases "claim_bytes rm wall p desired L")
  from claim_bytes_facts[OF assms c] c show ?thesis by auto
qed

definition demo_ledger :: spool_ledger where
  "demo_ledger = \<lparr>sl_max_bytes = 10, sl_initialized = True, sl_next_scan_attempt = None,
     sl_total_bytes = 9,
     sl_entries = [([''a''], \<lparr>se_bytes = 5, se_modified = 1, se_active = False\<rparr>),
                   ([''b''], \<lparr>se_bytes = 4, se_modified = 2, se_active = True\<rparr>)]\<rparr>"

lemma demo_ledger_ok: "ledger_ok demo_ledger" "sl_total_bytes demo_ledger \<le> sl_max_bytes demo_ledger"
  "sl_max_bytes demo_ledger \<le> u64_max"
  by (simp_all add: ledger_ok_def demo_ledger_def hm_ok_def ledger_sum_def u64_max_def)

theorem claim_bytes_budget_witness:
  "case claim_bytes (\<lambda>_. Removed) 3 [''c''] 6 demo_ledger of (g, L') \<Rightarrow>
     g \<le> 6 \<and> ledger_ok L' \<and> sl_total_bytes L' \<le> sl_max_bytes L' \<and> sl_max_bytes L' = sl_max_bytes demo_ledger
     \<and> (\<forall>q e. q \<noteq> [''c''] \<and> hm_get (sl_entries demo_ledger) q = Some e \<and> se_active e
            \<longrightarrow> hm_get (sl_entries L') q = Some e)"
  by (rule claim_bytes_budget) (rule demo_ledger_ok)+

definition active_sum :: "spool_ledger \<Rightarrow> nat" where
  "active_sum L = ledger_sum (filter (\<lambda>(p, e). se_active e) (sl_entries L))"

lemma ledger_sum_filter_le: "ledger_sum (filter P es) \<le> ledger_sum es"
  by (induction es) (auto simp: ledger_sum_def)

lemma active_sum_drop: "active_sum (drop_entry p L) \<le> active_sum L"
proof (cases "hm_get (sl_entries L) p")
  case (Some e)
  let ?A = "\<lambda>(p, e). se_active e" and ?B = "\<lambda>(k, _). k \<noteq> p"
  have "filter ?A (filter ?B (sl_entries L)) = filter ?B (filter ?A (sl_entries L))"
    by (simp add: filter_filter conj_commute split_def)
  then have "active_sum (drop_entry p L) = ledger_sum (filter ?B (filter ?A (sl_entries L)))"
    using Some by (simp add: drop_entry_def active_sum_def hm_remove_eq_filter)
  then show ?thesis by (simp only: active_sum_def ledger_sum_filter_le)
qed (simp add: drop_entry_def)

lemma inactive_zero_sum:
  "(\<forall>(p, e)\<in>set es. se_active e \<or> se_bytes e = 0) \<Longrightarrow>
     ledger_sum (filter (\<lambda>(p, e). se_active e) es) = ledger_sum es"
  by (induction es) (auto simp: ledger_sum_def)

text \<open>
  Persistence is not refused while it can be paid for: if the index is complete, every
  removal succeeds and the request fits the budget next to the runs still being written,
  \<open>claim_bytes\<close> grants the whole request, evicting finished runs as needed.
\<close>

theorem claim_bytes_full_grant:
  assumes "ledger_ok L" and "sl_initialized L"
    and "\<And>q. rm q \<noteq> RemoveFailed"
    and "active_sum L + desired \<le> sl_max_bytes L"
  shows "fst (claim_bytes rm wall p desired L) = desired"
proof (cases "desired = 0")
  case True
  then show ?thesis by (simp add: claim_bytes_def)
next
  case False
  let ?t = "sl_max_bytes L - min desired (sl_max_bytes L)"
  let ?L1 = "evict_global_until rm ?t L"
  have ok1: "ledger_ok ?L1" using assms(1) by (rule evict_global_ok)
  have act: "active_sum ?L1 \<le> active_sum L"
    unfolding evict_global_until_def
    by (rule evict_loop_keeps[where P = "\<lambda>L'. active_sum L' \<le> active_sum L"])
      (auto intro: order.trans[OF active_sum_drop])
  have "sl_total_bytes ?L1 + desired \<le> sl_max_bytes L"
  proof (cases "sl_total_bytes ?L1 \<le> ?t")
    case True
    then show ?thesis using assms(4) by (auto simp: min_def split: if_splits)
  next
    case False
    then have "\<forall>q. \<not> evictable rm ?L1 q"
      using evict_loop_outcome[of "{}" rm ?t L] by (auto simp: evict_global_until_def)
    then have "\<forall>(q, e)\<in>set (sl_entries ?L1). se_active e \<or> se_bytes e = 0"
      using assms(3) by (fastforce simp: evictable_def)
    then have "active_sum ?L1 = sl_total_bytes ?L1"
      using inactive_zero_sum ok1 by (simp add: active_sum_def ledger_ok_def)
    with act assms(4) show ?thesis by simp
  qed
  then have fits: "desired \<le> sl_max_bytes L - sl_total_bytes ?L1"
    by (intro add_le_imp_le_diff) (subst add.commute)
  have "fst (claim_bytes rm wall p desired L) = min desired (sl_max_bytes L - sl_total_bytes ?L1)"
    using False assms(2) by (simp add: claim_bytes_def Let_def)
  from this min.absorb1[OF fits] show ?thesis by (rule trans)
qed

theorem claim_bytes_full_grant_witness:
  "fst (claim_bytes (\<lambda>_. Removed) 3 [''c''] 6 demo_ledger) = 6"
  by (rule claim_bytes_full_grant[OF demo_ledger_ok(1)])
    (simp_all add: demo_ledger_def active_sum_def ledger_sum_def)

lemma sort_filter_first:
  "sorted xs \<Longrightarrow> x \<in> set xs \<Longrightarrow> \<not> P x \<Longrightarrow> \<exists>y. find (\<lambda>x. \<not> P x) xs = Some y \<and> y \<le> x"
  by (induction xs) auto

lemma evict_first_find:
  "evict_first rm (map snd xs) L att = (True, L', att') \<Longrightarrow>
     \<exists>y. find (\<lambda>x. rm (snd x) \<noteq> RemoveFailed) xs = Some y \<and> L' = drop_entry (snd y) L"
proof (induction xs arbitrary: att)
  case (Cons x xs)
  then show ?case by (cases "rm (snd x)") auto
qed simp

text \<open>
  Eviction takes finished runs only, oldest first: when a step of the eviction loop
  removes a file, that file belongs to no active run and is non-empty, it is the only entry
  that leaves the ledger, and no other finished run whose removal would have succeeded is
  older (ties broken by path).
\<close>

theorem evict_oldest_is_oldest:
  assumes "evict_oldest rm None L {} = (True, L', att)" and "hm_ok (sl_entries L)"
  shows "\<exists>p e. hm_get (sl_entries L) p = Some e \<and> \<not> se_active e \<and> se_bytes e > 0
     \<and> L' = drop_entry p L
     \<and> (\<forall>q f. hm_get (sl_entries L) q = Some f \<and> \<not> se_active f \<and> se_bytes f > 0
            \<and> rm q \<noteq> RemoveFailed \<longrightarrow> (se_modified e, p) \<le> (se_modified f, q))"
proof -
  let ?elig = "filter (\<lambda>(p, e). \<not> se_active e \<and> se_bytes e > 0 \<and> p \<notin> {}
      \<and> (case None of None \<Rightarrow> True | Some d \<Rightarrow> path_parent p = Some d)) (sl_entries L)"
  let ?xs = "sort (map (\<lambda>(p, e). (se_modified e, p)) ?elig)"
  have "evict_first rm (map snd ?xs) L {} = (True, L', att)"
    using assms(1) by (simp add: evict_oldest_def eviction_candidates_def)
  from evict_first_find[OF this] obtain y
    where y: "find (\<lambda>x. rm (snd x) \<noteq> RemoveFailed) ?xs = Some y" "L' = drop_entry (snd y) L" by blast
  then have "y \<in> set ?xs" by (blast dest: find_SomeD)
  then obtain p e where pe: "y = (se_modified e, p)" "(p, e) \<in> set (sl_entries L)"
    "\<not> se_active e" "se_bytes e > 0" by auto
  have "(se_modified e, p) \<le> (se_modified f, q)"
    if q: "hm_get (sl_entries L) q = Some f" "\<not> se_active f" "se_bytes f > 0" "rm q \<noteq> RemoveFailed" for q f
  proof -
    have "(se_modified f, q) \<in> set ?xs" using hm_get_SomeD[OF q(1)] q(2,3) by force
    then obtain y' where "find (\<lambda>x. \<not> rm (snd x) = RemoveFailed) ?xs = Some y'" "y' \<le> (se_modified f, q)"
      using sort_filter_first[of ?xs "(se_modified f, q)" "\<lambda>x. rm (snd x) = RemoveFailed"] q(4) by auto
    with y pe show ?thesis by simp
  qed
  moreover have "hm_get (sl_entries L) p = Some e" using pe assms(2) by (simp add: hm_get_in)
  ultimately show ?thesis using pe y by auto
qed

theorem evict_oldest_is_oldest_witness:
  "\<exists>p e. hm_get (sl_entries demo_ledger) p = Some e \<and> \<not> se_active e \<and> se_bytes e > 0
     \<and> fst (snd (evict_oldest (\<lambda>_. Removed) None demo_ledger {})) = drop_entry p demo_ledger
     \<and> (\<forall>q f. hm_get (sl_entries demo_ledger) q = Some f \<and> \<not> se_active f \<and> se_bytes f > 0
            \<and> Removed \<noteq> RemoveFailed \<longrightarrow> (se_modified e, p) \<le> (se_modified f, q))"
proof -
  have "evict_oldest (\<lambda>_. Removed) None demo_ledger {} = (True, drop_entry [''a''] demo_ledger, {})"
    by (simp add: evict_oldest_def eviction_candidates_def demo_ledger_def)
  from evict_oldest_is_oldest[OF this] demo_ledger_ok(1) this show ?thesis
    by (simp add: ledger_ok_def)
qed

subsection \<open>What a spool file holds\<close>

text \<open>
  One write of a run as the writer sees it: the environment, the payload and the ledger at
  that moment, which other runs may have changed in between.
\<close>

fun write_seq :: "(spool_env \<times> spool_ledger \<times> bytes) list \<Rightarrow> spool_writer \<Rightarrow> spool_writer" where
  "write_seq [] w = w"
| "write_seq ((env, L, bs) # xs) w = write_seq xs (fst (snd (write_payload env bs w L)))"

definition env_writes_ok :: "spool_env \<Rightarrow> bool" where
  "env_writes_ok env \<longleftrightarrow> env_payload_write env = WriteOk \<and> env_marker_write env = WriteOk"

definition writer_holds :: "spool_writer \<Rightarrow> bytes \<Rightarrow> bool" where
  "writer_holds w s \<longleftrightarrow>
     length (sw_file w) = sw_bytes_written w \<and> length (sw_file w) \<le> sw_limit w
     \<and> length SPOOL_LIMIT_MARKER \<le> sw_limit w \<and> sw_limit w \<le> u64_max
     \<and> (if sw_limited w
        then \<exists>k \<le> length s. sw_file w = take k s \<or> sw_file w = take k s @ SPOOL_LIMIT_MARKER
        else sw_file w = s \<and> length s \<le> sw_limit w - length SPOOL_LIMIT_MARKER)"

subsection \<open>The contract between the writer and its byte ledger\<close>

text \<open>
  A writer relies on two things only: a claim grants at most what it asks, and keeps the
  ledger within its budget.
\<close>

locale byte_ledger =
  fixes claim :: "path \<Rightarrow> nat \<Rightarrow> 'l \<Rightarrow> nat \<times> 'l"
    and within :: "'l \<Rightarrow> bool"
  assumes grant_le: "fst (claim p d L) \<le> d"
    and within_claim: "within L \<Longrightarrow> within (snd (claim p d L))"
begin

lemma split_within_grant:
  assumes "plan_write limit bw n = (pp, pm, planned)" and "limit \<le> u64_max"
    and "split_grant pp pm planned (fst (claim p planned L)) = (keep, wm)"
  shows "keep \<le> pp"
    and "keep + (if wm then length SPOOL_LIMIT_MARKER else 0) \<le> fst (claim p planned L)"
    and "planned = pp + (if pm then length SPOOL_LIMIT_MARKER else 0)"
proof -
  have "pp + (if pm then length SPOOL_LIMIT_MARKER else 0) \<le> u64_max"
    using assms(1,2) by (auto simp: plan_write_def Let_def)
  then show pl: "planned = pp + (if pm then length SPOOL_LIMIT_MARKER else 0)"
    using assms(1) by (auto simp: plan_write_def Let_def sat_simps)
  show "keep \<le> pp" using assms(3) by (auto simp: split_grant_def Let_def split: if_splits)
  show "keep + (if wm then length SPOOL_LIMIT_MARKER else 0) \<le> fst (claim p planned L)"
    using assms(3) pl by (auto simp: split_grant_def Let_def split: if_splits)
qed

end

interpretation bl: byte_ledger "claim_bytes rm wall"
  "\<lambda>L. ledger_ok L \<and> sl_total_bytes L \<le> sl_max_bytes L \<and> sl_max_bytes L \<le> u64_max"
proof
  fix p d L
  show "fst (claim_bytes rm wall p d L) \<le> d" by (simp add: claim_bytes_def Let_def)
  assume "ledger_ok L \<and> sl_total_bytes L \<le> sl_max_bytes L \<and> sl_max_bytes L \<le> u64_max"
  then show "ledger_ok (snd (claim_bytes rm wall p d L))
      \<and> sl_total_bytes (snd (claim_bytes rm wall p d L)) \<le> sl_max_bytes (snd (claim_bytes rm wall p d L))
      \<and> sl_max_bytes (snd (claim_bytes rm wall p d L)) \<le> u64_max"
    using claim_bytes_facts[of L rm wall p d] by (metis prod.collapse)
qed

lemma plan_write_facts:
  assumes "plan_write limit bw n = (pp, pm, planned)" and "length SPOOL_LIMIT_MARKER \<le> limit"
  shows "pp \<le> n" and "bw \<le> limit - length SPOOL_LIMIT_MARKER \<Longrightarrow> bw + pp \<le> limit - length SPOOL_LIMIT_MARKER"
    and "\<not> pm \<Longrightarrow> pp = n"
  using assms by (auto simp: plan_write_def Let_def)

lemma split_grant_full: "split_grant pp False pp pp = (pp, False)"
  by (simp add: split_grant_def Let_def)

lemma write_payload_eq:
  assumes "\<not> sw_limited w" and "bs \<noteq> []" and "env_writes_ok env"
    and "plan_write (sw_limit w) (sw_bytes_written w) (length bs) = (pp, pm, planned)"
    and "claim_bytes (env_rm env) (env_wall env) (sw_path w) planned L = (g, L1)"
    and "split_grant pp pm planned g = (keep, wm)"
  shows "write_payload env bs w L =
     (True, w\<lparr>sw_file := sw_file w @ take keep bs @ (if wm then SPOOL_LIMIT_MARKER else []),
       sw_bytes_written := sat_add (sat_add (sw_bytes_written w) keep)
          (if wm then length SPOOL_LIMIT_MARKER else 0),
       sw_limited := (pm \<or> g < planned)\<rparr>, L1)"
  using assms by (auto simp: write_payload_def env_writes_ok_def write_all_def Let_def)

lemma writer_holds_step:
  assumes w: "writer_holds w s" and env: "env_writes_ok env"
  shows "writer_holds (fst (snd (write_payload env bs w L))) (s @ bs)"
proof (cases "sw_limited w \<or> bs = []")
  case True
  then have "write_payload env bs w L = (True, w, L)" by (simp add: write_payload_def)
  moreover have "\<exists>k \<le> length (s @ bs). sw_file w = take k (s @ bs) \<or> sw_file w = take k (s @ bs) @ SPOOL_LIMIT_MARKER"
    if "k \<le> length s" "sw_file w = take k s \<or> sw_file w = take k s @ SPOOL_LIMIT_MARKER" for k
    using that by (intro exI[of _ k]) auto
  ultimately show ?thesis using w True by (auto simp: writer_holds_def)
next
  case False
  let ?m = "length SPOOL_LIMIT_MARKER"
  obtain pp pm planned where pl: "plan_write (sw_limit w) (sw_bytes_written w) (length bs) = (pp, pm, planned)"
    by (cases "plan_write (sw_limit w) (sw_bytes_written w) (length bs)")
  obtain g L1 where cl: "claim_bytes (env_rm env) (env_wall env) (sw_path w) planned L = (g, L1)"
    by (cases "claim_bytes (env_rm env) (env_wall env) (sw_path w) planned L")
  obtain keep wm where sp: "split_grant pp pm planned g = (keep, wm)"
    by (cases "split_grant pp pm planned g")
  have st: "sw_file w = s" "sw_bytes_written w = length s" "length s \<le> sw_limit w - ?m"
    "?m \<le> sw_limit w" "sw_limit w \<le> u64_max"
    using w False by (auto simp: writer_holds_def)
  have "split_grant pp pm planned (fst (claim_bytes (env_rm env) (env_wall env) (sw_path w) planned L)) = (keep, wm)"
    using sp cl by simp
  note k = bl.split_within_grant[OF pl st(5) this]
  note p = plan_write_facts[OF pl st(4)]
  have fit: "length s + pp \<le> sw_limit w - ?m" using p(2) st by simp
  then have fit': "length s + keep + ?m \<le> sw_limit w" using k(1) st(4) by simp
  then have ex: "sat_add (sat_add (length s) keep) (if wm then ?m else 0)
      = length s + keep + (if wm then ?m else 0)"
    using st(5) by (simp add: sat_simps)
  have kb: "keep \<le> length bs" using k(1) p(1) by simp
  have full: "keep = length bs \<and> \<not> wm" if "\<not> (pm \<or> g < planned)"
  proof -
    have "g = planned" using that bl.grant_le[of "env_rm env" "env_wall env" "sw_path w" planned L] cl by simp
    then show ?thesis using that k(3) p(3) sp by (simp add: split_grant_full)
  qed
  have "\<exists>k \<le> length (s @ bs). s @ take keep bs @ (if wm then SPOOL_LIMIT_MARKER else []) = take k (s @ bs)
     \<or> s @ take keep bs @ (if wm then SPOOL_LIMIT_MARKER else []) = take k (s @ bs) @ SPOOL_LIMIT_MARKER"
    by (rule exI[of _ "length s + keep"]) (use kb in auto)
  moreover have "length s + length bs \<le> sw_limit w - ?m" if "\<not> (pm \<or> g < planned)"
    using full[OF that] fit k(1) by simp
  ultimately show ?thesis
    using write_payload_eq[OF _ _ env pl cl sp] False st fit' kb full ex
    by (auto simp: writer_holds_def)
qed

lemma writer_holds_seq:
  "writer_holds w s \<Longrightarrow> \<forall>(env, L, bs)\<in>set xs. env_writes_ok env \<Longrightarrow>
     writer_holds (write_seq xs w) (s @ concat (map (\<lambda>(env, L, bs). bs) xs))"
proof (induction xs arbitrary: w s)
  case (Cons x xs)
  obtain env L bs where x: "x = (env, L, bs)" by (cases x)
  from Cons.IH[OF writer_holds_step[OF Cons.prems(1)]] Cons.prems(2) x show ?case by simp
qed simp

lemma writer_holds_new: "writer_holds (new_accounted p) []"
  by (simp add: writer_holds_def new_accounted_def MAX_SPOOL_FILE_BYTES_def SPOOL_LIMIT_MARKER_def
      u64_max_def)

text \<open>
  The spool file of a run is a faithful prefix of the run's output: over any sequence of
  writes, whatever other runs do to the shared ledger in between, the file stays within the
  per-run limit, is exactly the output while the writer is not limited, and once limited is a
  prefix of the output, possibly followed by the limit marker, and nothing is appended to it
  any more.
\<close>

theorem spool_file_is_prefix:
  assumes "\<forall>(env, L, bs)\<in>set xs. env_writes_ok env"
  shows "let w = write_seq xs (new_accounted p); s = concat (map (\<lambda>(env, L, bs). bs) xs) in
     length (sw_file w) \<le> MAX_SPOOL_FILE_BYTES
     \<and> (if sw_limited w
        then \<exists>k \<le> length s. sw_file w = take k s \<or> sw_file w = take k s @ SPOOL_LIMIT_MARKER
        else sw_file w = s)
     \<and> (sw_limited w \<longrightarrow> write_payload env next_bs w L = (True, w, L))"
proof -
  have "sw_limit (fst (snd (write_payload env bs w L))) = sw_limit w" for env bs w L
    by (simp add: write_payload_def reconcile_accounting_def Let_def split: prod.splits)
  then have "sw_limit (write_seq xs w) = sw_limit w" for w
    by (induction xs w rule: write_seq.induct) auto
  then have "sw_limit (write_seq xs (new_accounted p)) = MAX_SPOOL_FILE_BYTES"
    by (simp add: new_accounted_def)
  moreover have "writer_holds (write_seq xs (new_accounted p)) (concat (map (\<lambda>(env, L, bs). bs) xs))"
    using writer_holds_seq[OF writer_holds_new assms, of p] by simp
  ultimately show ?thesis by (auto simp: writer_holds_def write_payload_def Let_def)
qed

definition demo_env :: spool_env where
  "demo_env = \<lparr>env_rm = (\<lambda>_. Removed), env_wall = 5, env_payload_write = WriteOk,
     env_marker_write = WriteOk, env_stat_ok = True\<rparr>"

theorem spool_file_is_prefix_witness:
  "length (sw_file (write_seq [(demo_env, demo_ledger, ''hello'')] (new_accounted [''r'', ''f'']))) \<le> MAX_SPOOL_FILE_BYTES"
  using spool_file_is_prefix[of "[(demo_env, demo_ledger, ''hello'')]" "[''r'', ''f'']"]
  by (simp add: env_writes_ok_def demo_env_def Let_def)

subsection \<open>Spool names\<close>

definition spool_safe :: "char \<Rightarrow> bool" where
  "spool_safe c \<longleftrightarrow> ascii_alnum c \<or> c \<in> set ''-_~''"

lemma spool_hex_safe: "n < 16 \<Longrightarrow> ascii_alnum (spool_hex n)"
proof -
  assume "n < 16"
  then have "spool_hex n \<in> set ''0123456789abcdef''"
    unfolding spool_hex_def by (intro nth_mem) simp
  then show ?thesis by (auto simp: ascii_alnum_def)
qed

lemma spool_hex_inj: "m < 16 \<Longrightarrow> n < 16 \<Longrightarrow> spool_hex m = spool_hex n \<Longrightarrow> m = n"
proof -
  have "distinct ''0123456789abcdef''" by simp
  then show "m < 16 \<Longrightarrow> n < 16 \<Longrightarrow> spool_hex m = spool_hex n \<Longrightarrow> m = n"
    unfolding spool_hex_def by (subst (asm) nth_eq_iff_index_eq) auto
qed

lemma encode_bytes_safe: "c \<in> set (encode_bytes v) \<Longrightarrow> spool_safe c"
proof (induction v)
  case (Cons b v)
  have "(of_char b :: nat) div 16 < 16"
    using of_char_less_256[of b] by (simp add: less_mult_imp_div_less)
  with Cons show ?case
    using spool_hex_safe by (auto simp: spool_safe_def split: if_splits)
qed simp

lemma hex16_props: "length (hex16 k n) = k" "c \<in> set (hex16 k n) \<Longrightarrow> ascii_alnum c"
  by (induction k arbitrary: n) (auto simp: spool_hex_safe)

lemma tilde_not_plain: "\<not> ascii_alnum (CHR ''~'')"
  by (simp add: ascii_alnum_def)

lemma of_char_split_inj:
  "(of_char a :: nat) div 16 = of_char b div 16 \<Longrightarrow> (of_char a :: nat) mod 16 = of_char b mod 16 \<Longrightarrow> a = b"
proof -
  assume "(of_char a :: nat) div 16 = of_char b div 16" "(of_char a :: nat) mod 16 = of_char b mod 16"
  then have "(of_char a :: nat) = of_char b" by (metis div_mult_mod_eq)
  then show "a = b" by simp
qed

lemma encode_bytes_inj: "encode_bytes a = encode_bytes b \<Longrightarrow> a = b"
proof (induction a arbitrary: b)
  case Nil
  then show ?case by (cases b) (auto split: if_splits)
next
  case (Cons x a)
  obtain y b' where b: "b = y # b'" using Cons.prems by (cases b) (auto split: if_splits)
  have lt: "(of_char c :: nat) div 16 < 16" "(of_char c :: nat) mod 16 < 16" for c :: char
    using of_char_less_256[of c] by (simp_all add: less_mult_imp_div_less)
  show ?case
    using Cons.prems Cons.IH[of b'] tilde_not_plain
    by (auto simp: b split: if_splits dest!: spool_hex_inj[OF lt(1) lt(1)] spool_hex_inj[OF lt(2) lt(2)]
        intro: of_char_split_inj)
qed

text \<open>
  A host or session name becomes one safe file-name component: the encoding is at most 96
  characters long and uses only ASCII letters, digits, \<open>-\<close>, \<open>_\<close> and \<open>~\<close>, so it cannot contain a
  path separator or a dot, whatever the name; and names whose encodings are not shortened are
  encoded injectively.
\<close>

theorem encode_spool_name_safe:
  "length (encode_spool_name hash v) \<le> MAX_ENCODED_SPOOL_NAME_BYTES
   \<and> (\<forall>c\<in>set (encode_spool_name hash v). spool_safe c \<and> c \<noteq> CHR ''/'' \<and> c \<noteq> CHR ''.'')
   \<and> (length (encode_bytes v) \<le> MAX_ENCODED_SPOOL_NAME_BYTES
       \<longrightarrow> length (encode_bytes v') \<le> MAX_ENCODED_SPOOL_NAME_BYTES
       \<longrightarrow> encode_spool_name hash v = encode_spool_name hash v' \<longrightarrow> v = v')"
proof -
  have safe: "spool_safe c" if "c \<in> set (encode_spool_name hash v)" for c
    using that hex16_props(2)[of c 16 "hash v"]
    by (auto simp: encode_spool_name_def Let_def spool_safe_def split: if_splits
        dest!: in_set_takeD dest: encode_bytes_safe[unfolded spool_safe_def])
  have "spool_safe c \<Longrightarrow> c \<noteq> CHR ''/'' \<and> c \<noteq> CHR ''.''" for c
    by (auto simp: spool_safe_def ascii_alnum_def)
  moreover have "length (encode_spool_name hash v) \<le> MAX_ENCODED_SPOOL_NAME_BYTES"
    by (simp add: encode_spool_name_def Let_def hex16_props MAX_ENCODED_SPOOL_NAME_BYTES_def)
  ultimately show ?thesis
    using safe encode_bytes_inj by (auto simp: encode_spool_name_def Let_def)
qed

theorem encode_spool_name_safe_witness:
  "encode_spool_name (\<lambda>_. 0) ''a/b'' \<noteq> encode_spool_name (\<lambda>_. 0) ''a_b''
   \<and> length (encode_spool_name (\<lambda>_. 0) ''a/b'') \<le> MAX_ENCODED_SPOOL_NAME_BYTES"
proof -
  have "length (encode_bytes ''a/b'') \<le> MAX_ENCODED_SPOOL_NAME_BYTES" by code_simp
  moreover have "length (encode_bytes ''a_b'') \<le> MAX_ENCODED_SPOOL_NAME_BYTES" by code_simp
  ultimately show ?thesis using encode_spool_name_safe[of "\<lambda>_. 0" "''a/b''" "''a_b''"] by auto
qed

text \<open>
  The directory name is not injective in the pair, though: \<open>--s-\<close> is not escaped inside a
  name, so two different sessions can share one spool directory. The create-new loop below
  keeps their files apart.
\<close>

lemma spool_dir_collision:
  "spool_dir_under hash root ''a--s-b'' ''c'' = spool_dir_under hash root ''a'' ''b--s-c''"
  by (simp add: spool_dir_under_def encode_spool_name_def MAX_ENCODED_SPOOL_NAME_BYTES_def
      ascii_alnum_def)

lemma create_attempts_new:
  "create_attempts opn random dir seq as = Inr p \<Longrightarrow> opn p = Opened \<and> path_parent p = Some dir"
  by (induction as) (auto simp: Let_def path_parent_def split: open_result.splits)

lemma create_attempts_exhausted:
  "create_attempts opn random dir seq as = Inl AlreadyExists \<longleftrightarrow>
     (\<forall>a\<in>set as. opn (dir @ [spool_filename random seq a]) = OpenExists)"
  by (induction as) (auto simp: Let_def split: open_result.splits)

text \<open>
  Opening the spool of a run never reuses a file: a writer is handed out only for a path
  that \<open>create_new\<close> has just created inside the session's spool directory and that is a regular
  file; its ledger entry starts at zero bytes.
\<close>

theorem open_spool_file_fresh:
  assumes "open_spool_file_under env root host name seq L = (Inr (p, w), L')"
  shows "oe_open env p = Opened \<and> oe_regular env p = Some True
     \<and> path_parent p = Some (spool_dir_under (oe_hash env) root host name)
     \<and> w = new_accounted p"
  using assms create_attempts_new
  by (auto simp: open_spool_file_under_def create_spool_file_def Let_def
      split: if_splits sum.splits option.splits bool.splits)

definition demo_open_env :: open_env where
  "demo_open_env = \<lparr>oe_hash = (\<lambda>_. 0), oe_private_dir = (\<lambda>_. True), oe_read_dir = (\<lambda>_. Some []),
     oe_now = 0, oe_wall = 0, oe_rm = (\<lambda>_. Removed), oe_open = (\<lambda>_. Opened), oe_random = id,
     oe_regular = (\<lambda>_. Some True), oe_chmod = (\<lambda>_. True)\<rparr>"

theorem open_spool_file_fresh_witness:
  "\<exists>p w L'. open_spool_file_under demo_open_env [''r''] ''h'' ''s'' 1 (ledger_new 100) = (Inr (p, w), L')
     \<and> oe_open demo_open_env p = Opened \<and> w = new_accounted p"
proof -
  have "create_spool_file (oe_open demo_open_env) (oe_random demo_open_env) d 1
      = Inr (d @ [spool_filename id 1 0])" for d
    by (simp add: create_spool_file_def demo_open_env_def upt_rec[of 0])
  then obtain p w L' where
    o: "open_spool_file_under demo_open_env [''r''] ''h'' ''s'' 1 (ledger_new 100) = (Inr (p, w), L')"
    by (simp add: open_spool_file_under_def Let_def) (simp add: demo_open_env_def)
  from open_spool_file_fresh[OF o] o show ?thesis by blast
qed

end
