(* ===== verification/Session.thy ===== *)
theory Session
  imports Shape Scrubber Spool "HOL-Library.Product_Lexorder"
begin

text \<open>
  PTY sessions (\<open>src/src/daemon/session.rs\<close>): the state behind one session's lock, the
  reader path (\<open>ingest\<close>, \<open>handle_marker\<close>, \<open>mark_dead\<close>), the client operations and the
  registry. The lock is released between the parts of \<open>run\<close> and \<open>interrupt\<close>; each part is a
  definition of its own, so that the steps of different tasks interleave as they do in the
  daemon. Randomness, clocks and the channel writes (russh) are arguments; the spool ledger is
  shared by all sessions and threaded through.
\<close>

definition IDLE_REAP_AFTER :: nat where "IDLE_REAP_AFTER = from_secs (8 * 60 * 60)"

datatype session_error =
    NotFound string string
  | Busy string string
  | Dead string string string
  | Ssh string
  | Io string
  | RemotePath string string string
  | Sftp string string
  | Transfer string string string string

record current_run =
  cr_sentinel :: bytes
  cr_resync :: "bytes option"

record run_outcome =
  ro_exit_code :: "int option"
  ro_interrupted :: bool
  ro_end_offset :: nat

record session_state =
  ss_ring :: ring
  ss_cursor :: nat
  ss_busy :: bool
  ss_dead :: "string option"
  ss_last_activity :: instant
  ss_run_seq :: nat
  ss_current_run :: "current_run option"
  ss_last_result :: "run_outcome option"
  ss_spool :: "spool_writer option"
  ss_scrubber :: scrubber
  ss_discard :: bool

definition session_new :: "nat \<Rightarrow> instant \<Rightarrow> session_state" where
  "session_new cap now = \<lparr>ss_ring = ring_new cap, ss_cursor = 0, ss_busy = False, ss_dead = None,
     ss_last_activity = now, ss_run_seq = 0, ss_current_run = None, ss_last_result = None,
     ss_spool = None, ss_scrubber = scrubber_default, ss_discard = True\<rparr>"

definition default_session_name :: "string option \<Rightarrow> string" where
  "default_session_name s = (case s of Some n \<Rightarrow> n | None \<Rightarrow> ''default'')"

definition state_label :: "session_state \<Rightarrow> string" where
  "state_label st =
     (if ss_dead st \<noteq> None then ''dead'' else if ss_busy st then ''busy'' else ''idle'')"

record session_summary =
  sm_name :: string
  sm_host :: string
  sm_state :: string
  sm_idle_secs :: nat
  sm_dead_reason :: "string option"

definition summarize :: "instant \<Rightarrow> string \<Rightarrow> string \<Rightarrow> session_state \<Rightarrow> session_summary" where
  "summarize now host name st = \<lparr>sm_name = name, sm_host = host, sm_state = state_label st,
     sm_idle_secs = as_secs (duration_since now (ss_last_activity st)),
     sm_dead_reason = ss_dead st\<rparr>"

subsection \<open>The reader\<close>

text \<open>Assigning the \<open>spool_file\<close> field drops the writer it held.\<close>

definition set_spool :: "spool_env \<Rightarrow> spool_writer option \<Rightarrow> session_state \<times> spool_ledger
    \<Rightarrow> session_state \<times> spool_ledger" where
  "set_spool env w s =
     (case s of (st, L) \<Rightarrow>
        (st\<lparr>ss_spool := w\<rparr>,
         (case ss_spool st of None \<Rightarrow> L | Some old \<Rightarrow> drop_writer env old L)))"

definition marker_outcome :: "session_state \<Rightarrow> current_run \<Rightarrow> bytes \<Rightarrow> int \<Rightarrow> run_outcome option" where
  "marker_outcome st current sentinel exit_code =
     (if sentinel = cr_sentinel current then
        Some \<lparr>ro_exit_code = Some exit_code, ro_interrupted = False,
              ro_end_offset = total_written (ss_ring st)\<rparr>
      else if cr_resync current = Some sentinel then
        Some \<lparr>ro_exit_code = None, ro_interrupted = True,
              ro_end_offset = total_written (ss_ring st)\<rparr>
      else None)"

definition handle_marker :: "spool_env \<Rightarrow> bytes \<Rightarrow> int \<Rightarrow> session_state \<times> spool_ledger
    \<Rightarrow> session_state \<times> spool_ledger" where
  "handle_marker env sentinel exit_code s =
     (case s of (st, L) \<Rightarrow>
        if ss_discard st then (st\<lparr>ss_discard := False\<rparr>, L)
        else (case ss_current_run st of
                None \<Rightarrow> (st, L)
              | Some current \<Rightarrow>
                  (case marker_outcome st current sentinel exit_code of
                     None \<Rightarrow> (st, L)
                   | Some outcome \<Rightarrow>
                       set_spool env None
                         (st\<lparr>ss_last_result := Some outcome, ss_busy := False,
                             ss_current_run := None\<rparr>, L))))"

definition commit_payload :: "spool_env \<Rightarrow> bytes \<Rightarrow> session_state \<times> spool_ledger
    \<Rightarrow> session_state \<times> spool_ledger" where
  "commit_payload env bs s =
     (case s of (st, L) \<Rightarrow>
        if ss_discard st then (st, L)
        else
          let st1 = st\<lparr>ss_ring := push_slice (ss_ring st) bs\<rparr> in
          (case ss_spool st1 of
             None \<Rightarrow> (st1, L)
           | Some w \<Rightarrow>
               (let (ok, w1, L1) = write_payload env bs w L;
                    st2 = st1\<lparr>ss_spool := Some w1\<rparr>
                in if ok then (st2, L1) else set_spool env None (st2, L1))))"

fun ingest_event :: "spool_env \<Rightarrow> scrub_event \<Rightarrow> session_state \<times> spool_ledger
    \<Rightarrow> session_state \<times> spool_ledger" where
  "ingest_event env (Payload bs) s = commit_payload env bs s"
| "ingest_event env (Marker sentinel exit_code) s = handle_marker env sentinel exit_code s"

text \<open>The file system may answer every write differently: one environment per event.\<close>

fun ingest_events :: "(nat \<Rightarrow> spool_env) \<Rightarrow> nat \<Rightarrow> scrub_event list \<Rightarrow> session_state \<times> spool_ledger
    \<Rightarrow> session_state \<times> spool_ledger" where
  "ingest_events envs i [] s = s"
| "ingest_events envs i (ev # evs) s = ingest_events envs (Suc i) evs (ingest_event (envs i) ev s)"

definition ingest :: "(nat \<Rightarrow> spool_env) \<Rightarrow> instant \<Rightarrow> bytes \<Rightarrow> session_state \<times> spool_ledger
    \<Rightarrow> session_state \<times> spool_ledger" where
  "ingest envs now data s =
     (case s of (st, L) \<Rightarrow>
        (let (scr, events) = feed (ss_scrubber st) data in
         ingest_events envs 0 events
           (st\<lparr>ss_last_activity := now, ss_scrubber := scr\<rparr>, L)))"

definition mark_dead :: "spool_env \<Rightarrow> string \<Rightarrow> session_state \<times> spool_ledger
    \<Rightarrow> session_state \<times> spool_ledger" where
  "mark_dead env reason s =
     (case s of (st, L) \<Rightarrow>
        set_spool env None
          (st\<lparr>ss_dead := (case ss_dead st of None \<Rightarrow> Some reason | Some r \<Rightarrow> Some r),
              ss_busy := False, ss_current_run := None\<rparr>, L))"

text \<open>What the reader task does with each message of the channel.\<close>

datatype channel_msg = Data bytes | ExtendedData bytes | Eof | Close | Lost | OtherMsg

definition reader_msg :: "(nat \<Rightarrow> spool_env) \<Rightarrow> instant \<Rightarrow> channel_msg \<Rightarrow> session_state \<times> spool_ledger
    \<Rightarrow> (session_state \<times> spool_ledger) \<times> bool" where
  "reader_msg envs now m s =
     (case m of
        Data d \<Rightarrow> (ingest envs now d s, True)
      | ExtendedData d \<Rightarrow> (ingest envs now d s, True)
      | Eof \<Rightarrow> (mark_dead (envs 0) ''remote closed the session channel'' s, False)
      | Close \<Rightarrow> (mark_dead (envs 0) ''remote closed the session channel'' s, False)
      | Lost \<Rightarrow> (mark_dead (envs 0) ''SSH connection was lost'' s, False)
      | OtherMsg \<Rightarrow> (s, True))"

subsection \<open>Running a command\<close>

record run_reply =
  rr_host :: string
  rr_session :: string
  rr_state :: string
  rr_exit_code :: "int option"
  rr_output :: utext
  rr_truncated :: bool
  rr_total_bytes :: nat
  rr_spool_path :: path
  rr_dead_reason :: "string option"

definition dead_reply_output :: "session_state \<Rightarrow> nat \<Rightarrow> bool \<Rightarrow> utext \<times> bool \<times> nat" where
  "dead_reply_output st offset raw = shape_output (fst (ring_since (ss_ring st) offset)) raw"

definition dead_run_reply :: "string \<Rightarrow> string \<Rightarrow> session_state \<Rightarrow> nat \<Rightarrow> string \<Rightarrow> bool
    \<Rightarrow> run_reply" where
  "dead_run_reply host name st offset reason raw =
     (let (output, truncated, total_bytes) = dead_reply_output st offset raw in
      \<lparr>rr_host = host, rr_session = name, rr_state = ''dead'', rr_exit_code = None,
       rr_output = output, rr_truncated = truncated, rr_total_bytes = total_bytes,
       rr_spool_path = [], rr_dead_reason = Some reason\<rparr>)"

text \<open>The first locked part: refuse, or register the run and note where its output starts.\<close>

datatype run_start = StartDead run_reply | StartErr session_error | Started nat path

definition run_begin :: "open_env \<Rightarrow> spool_env \<Rightarrow> path \<Rightarrow> string \<Rightarrow> string \<Rightarrow> bytes \<Rightarrow> bool
    \<Rightarrow> session_state \<times> spool_ledger \<Rightarrow> run_start \<times> (session_state \<times> spool_ledger)" where
  "run_begin oe env root host name sentinel raw s =
     (case s of (st, L) \<Rightarrow>
        (case ss_dead st of
           Some reason \<Rightarrow> (StartDead (dead_run_reply host name st 0 reason raw), s)
         | None \<Rightarrow>
             if ss_busy st then (StartErr (Busy host name), s)
             else
               let seq = ss_run_seq st + 1;
                   offset = total_written (ss_ring st);
                   ((p, w), L1) = open_spool_file_best_effort oe root host name seq L;
                   (st1, L2) = set_spool env w (st\<lparr>ss_run_seq := seq\<rparr>, L1)
               in (Started offset p,
                   (st1\<lparr>ss_busy := True,
                        ss_current_run := Some \<lparr>cr_sentinel = sentinel, cr_resync = None\<rparr>,
                        ss_last_result := None\<rparr>, L2))))"

text \<open>When the framed command cannot be written the session dies.\<close>

definition run_write_failed :: "spool_env \<Rightarrow> string \<Rightarrow> string \<Rightarrow> string \<Rightarrow> nat \<Rightarrow> bool
    \<Rightarrow> session_state \<times> spool_ledger \<Rightarrow> run_reply \<times> (session_state \<times> spool_ledger)" where
  "run_write_failed env host name e offset raw s =
     (let (st, L) = mark_dead env (''failed to write to session: '' @ e) s;
          reason = (case ss_dead st of Some r \<Rightarrow> r | None \<Rightarrow> [])
      in (dead_run_reply host name st offset reason raw, (st, L)))"

text \<open>The wait loop leaves at a poll that finds the session not busy, or at the deadline.\<close>

definition run_wait_over :: "session_state \<Rightarrow> bool \<Rightarrow> bool" where
  "run_wait_over st expired \<longleftrightarrow> \<not> ss_busy st \<or> expired"

text \<open>The last locked part. \<open>Panicked\<close> is the \<open>expect\<close> on a missing outcome.\<close>

datatype run_end = Replied run_reply | Panicked

definition done_reply :: "string \<Rightarrow> string \<Rightarrow> string \<Rightarrow> bytes \<Rightarrow> path \<Rightarrow> nat \<Rightarrow> bool \<Rightarrow> session_state
    \<Rightarrow> run_outcome \<Rightarrow> run_reply" where
  "done_reply host name command sentinel p offset raw st outcome =
     (let all_since_start = fst (ring_since (ss_ring st) offset);
          produced = (if ro_end_offset outcome < offset then 2 ^ 64 + ro_end_offset outcome - offset
                      else ro_end_offset outcome - offset);
          want_len = min produced (length all_since_start);
          command_output = strip_echoed_command (take want_len all_since_start)
                             [frame_command command sentinel, command];
          (output, truncated, total_bytes) = shape_output command_output raw
      in \<lparr>rr_host = host, rr_session = name,
          rr_state = (if ro_interrupted outcome then ''interrupted'' else ''done''),
          rr_exit_code = ro_exit_code outcome, rr_output = output, rr_truncated = truncated,
          rr_total_bytes = total_bytes, rr_spool_path = p, rr_dead_reason = None\<rparr>)"

definition running_reply :: "string \<Rightarrow> string \<Rightarrow> path \<Rightarrow> nat \<Rightarrow> bool \<Rightarrow> session_state \<Rightarrow> run_reply" where
  "running_reply host name p offset raw st =
     (let (output, truncated, total_bytes) = dead_reply_output st offset raw in
      \<lparr>rr_host = host, rr_session = name, rr_state = ''running'', rr_exit_code = None,
       rr_output = output, rr_truncated = truncated, rr_total_bytes = total_bytes,
       rr_spool_path = p, rr_dead_reason = None\<rparr>)"

definition run_finish :: "string \<Rightarrow> string \<Rightarrow> string \<Rightarrow> bytes \<Rightarrow> path \<Rightarrow> nat \<Rightarrow> bool \<Rightarrow> session_state
    \<Rightarrow> run_end \<times> session_state" where
  "run_finish host name command sentinel p offset raw st =
     (if ss_busy st then (Replied (running_reply host name p offset raw st), st)
      else (case ss_dead st of
              Some reason \<Rightarrow> (Replied (dead_run_reply host name st offset reason raw), st)
            | None \<Rightarrow>
                (case ss_last_result st of
                   None \<Rightarrow> (Panicked, st)
                 | Some outcome \<Rightarrow>
                     (Replied (done_reply host name command sentinel p offset raw st outcome),
                      st\<lparr>ss_last_result := None\<rparr>))))"

subsection \<open>Peek, send and interrupt\<close>

record peek_reply =
  pk_host :: string
  pk_session :: string
  pk_state :: string
  pk_output :: utext
  pk_truncated :: bool
  pk_total_bytes :: nat
  pk_dead_reason :: "string option"

text \<open>The bytes a peek shows, and the session with the shared cursor moved.\<close>

definition peek_bytes :: "nat option \<Rightarrow> session_state \<Rightarrow> bytes \<times> session_state" where
  "peek_bytes tail_n st =
     (case tail_n of
        Some n \<Rightarrow> (ring_tail (ss_ring st) n, st)
      | None \<Rightarrow> (fst (ring_since (ss_ring st) (ss_cursor st)),
                 st\<lparr>ss_cursor := total_written (ss_ring st)\<rparr>))"

definition peek :: "string \<Rightarrow> string \<Rightarrow> nat option \<Rightarrow> bool \<Rightarrow> session_state
    \<Rightarrow> peek_reply \<times> session_state" where
  "peek host name tail_n raw st =
     (let label = state_label st;
          (bs, st1) = peek_bytes tail_n st;
          (output, truncated, total_bytes) = shape_output bs raw
      in (\<lparr>pk_host = host, pk_session = name, pk_state = label, pk_output = output,
           pk_truncated = truncated, pk_total_bytes = total_bytes,
           pk_dead_reason = ss_dead st\<rparr>, st1))"

text \<open>The bytes written to the shell, or the refusal of a dead session.\<close>

definition send_keys :: "string \<Rightarrow> string \<Rightarrow> bytes \<Rightarrow> bool \<Rightarrow> session_state \<Rightarrow> session_error + bytes" where
  "send_keys host name keys newline st =
     (case ss_dead st of
        Some reason \<Rightarrow> Inl (Dead host name reason)
      | None \<Rightarrow> Inr (keys @ (if newline then [LF] else [])))"

definition interrupt_arm :: "string \<Rightarrow> string \<Rightarrow> bytes \<Rightarrow> session_state
    \<Rightarrow> (session_error + bytes option) \<times> session_state" where
  "interrupt_arm host name resync_sentinel st =
     (case ss_dead st of
        Some reason \<Rightarrow> (Inl (Dead host name reason), st)
      | None \<Rightarrow>
          if ss_busy st then
            (case ss_current_run st of
               Some current \<Rightarrow>
                 (Inr (Some (marker_printf resync_sentinel)),
                  st\<lparr>ss_current_run := Some (current\<lparr>cr_resync := Some resync_sentinel\<rparr>)\<rparr>)
             | None \<Rightarrow> (Inr None, st))
          else (Inr None, st))"

text \<open>What is then written, the second write only after the first succeeded.\<close>

definition interrupt_writes :: "bytes option \<Rightarrow> bytes list" where
  "interrupt_writes probe = [CHR 0x03] # (case probe of Some l \<Rightarrow> [l] | None \<Rightarrow> [])"

subsection \<open>Opening a session\<close>

definition INIT_COMMANDS :: string where
  "INIT_COMMANDS = ''stty -echo 2>/dev/null; set +o emacs 2>/dev/null; ''
     @ ''set +o vi 2>/dev/null; export NO_COLOR=1 TERM=dumb; unset HISTFILE; ''
     @ ''PS1='' @ [CHR 0x27, CHR 0x27] @ '' PROMPT_COMMAND='' @ [CHR 0x27, CHR 0x27]"

text \<open>
  The registry maps host and name to a session. \<open>Create\<close> stands for the caller going on to
  \<open>create_session\<close> with the registry lock released.
\<close>

type_synonym registry = "(string \<times> string, session_state) hmap"

definition get_existing_session :: "registry \<Rightarrow> string \<Rightarrow> string \<Rightarrow> session_error + session_state" where
  "get_existing_session reg host name =
     (case hm_get reg (host, name) of None \<Rightarrow> Inl (NotFound host name) | Some st \<Rightarrow> Inr st)"

datatype lookup = Existing session_state | LookupErr session_error | Create

definition lookup_session :: "registry \<Rightarrow> string \<Rightarrow> string \<Rightarrow> lookup" where
  "lookup_session reg host name =
     (case hm_get reg (host, name) of
        Some existing \<Rightarrow>
          (case ss_dead existing of
             Some reason \<Rightarrow> LookupErr (Dead host name reason)
           | None \<Rightarrow> Existing existing)
      | None \<Rightarrow> Create)"

definition init_line :: "bytes \<Rightarrow> bytes" where
  "init_line init_sentinel = frame_command INIT_COMMANDS init_sentinel"

definition init_write_failed :: "spool_env \<Rightarrow> string \<Rightarrow> string \<Rightarrow> string \<Rightarrow> session_state \<times> spool_ledger
    \<Rightarrow> session_error \<times> (session_state \<times> spool_ledger)" where
  "init_write_failed env host name e s =
     (let reason = ''failed to initialize session shell: '' @ e
      in (Dead host name reason, mark_dead env reason s))"

text \<open>One turn of the wait for the init marker, and the turn that gives up.\<close>

datatype ready = NotReady | IsReady | ReadyErr session_error

definition ready_poll :: "string \<Rightarrow> string \<Rightarrow> session_state \<Rightarrow> ready" where
  "ready_poll host name st =
     (case ss_dead st of
        Some reason \<Rightarrow> ReadyErr (Dead host name reason)
      | None \<Rightarrow> if ss_discard st then NotReady else IsReady)"

definition ready_timeout :: "session_state \<Rightarrow> session_state" where
  "ready_timeout st = st\<lparr>ss_discard := False\<rparr>"

text \<open>Publication: an established session wins over a concurrently created one.\<close>

definition publish :: "registry \<Rightarrow> string \<Rightarrow> string \<Rightarrow> session_state \<Rightarrow> registry \<times> session_state \<times> bool" where
  "publish reg host name st =
     (case hm_get reg (host, name) of
        Some existing \<Rightarrow> (reg, existing, False)
      | None \<Rightarrow> (hm_insert (host, name) st reg, st, True))"

definition kill_session :: "registry \<Rightarrow> string \<Rightarrow> string option \<Rightarrow> (session_error + session_state) \<times> registry" where
  "kill_session reg host session =
     (let name = default_session_name session in
      (case hm_get reg (host, name) of
         None \<Rightarrow> (Inl (NotFound host name), reg)
       | Some st \<Rightarrow> (Inr st, hm_remove (host, name) reg)))"

definition list_sessions :: "instant \<Rightarrow> string option \<Rightarrow> registry \<Rightarrow> session_summary list" where
  "list_sessions now host_filter reg =
     sort_key (\<lambda>s. (sm_host s, sm_name s))
       (map (\<lambda>((host, name), st). summarize now host name st)
         (filter (\<lambda>((host, name), st). case host_filter of None \<Rightarrow> True | Some h \<Rightarrow> h = host) reg))"

subsection \<open>Idle reaping\<close>

definition reapable :: "instant \<Rightarrow> session_state \<Rightarrow> bool" where
  "reapable now st \<longleftrightarrow>
     ss_dead st = None \<and> duration_since now (ss_last_activity st) \<ge> IDLE_REAP_AFTER"

definition reap_victims :: "instant \<Rightarrow> registry \<Rightarrow> (string \<times> string) list" where
  "reap_victims now reg = map fst (filter (\<lambda>(key, st). reapable now st) reg)"

definition reap_idle_sessions :: "instant \<Rightarrow> registry \<Rightarrow> registry" where
  "reap_idle_sessions now reg =
     foldl (\<lambda>reg (host, name). snd (kill_session reg host (Some name))) reg (reap_victims now reg)"

subsection \<open>What the session stands for\<close>

text \<open>
  The specification of a session's reader: an automaton over the items of the scrubbed stream,
  one byte or marker at a time. It knows neither chunks nor rings nor spool files.
\<close>

record session_abs =
  sa_stream :: bytes
  sa_run :: "current_run option"
  sa_result :: "run_outcome option"
  sa_discard :: bool

fun sa_item :: "item \<Rightarrow> session_abs \<Rightarrow> session_abs" where
  "sa_item (Byte c) a = (if sa_discard a then a else a\<lparr>sa_stream := sa_stream a @ [c]\<rparr>)"
| "sa_item (Mark s n) a =
     (if sa_discard a then a\<lparr>sa_discard := False\<rparr>
      else (case sa_run a of
              None \<Rightarrow> a
            | Some run \<Rightarrow>
                if s = cr_sentinel run then
                  a\<lparr>sa_run := None, sa_result := Some \<lparr>ro_exit_code = Some n, ro_interrupted = False,
                      ro_end_offset = length (sa_stream a)\<rparr>\<rparr>
                else if cr_resync run = Some s then
                  a\<lparr>sa_run := None, sa_result := Some \<lparr>ro_exit_code = None, ro_interrupted = True,
                      ro_end_offset = length (sa_stream a)\<rparr>\<rparr>
                else a))"

definition sa_items :: "item list \<Rightarrow> session_abs \<Rightarrow> session_abs" where
  "sa_items is a = fold sa_item is a"

definition refines_abs :: "session_state \<Rightarrow> session_abs \<Rightarrow> bool" where
  "refines_abs st a \<longleftrightarrow>
     ring_holds (ss_ring st) (sa_stream a) \<and> ss_current_run st = sa_run a
     \<and> ss_last_result st = sa_result a \<and> ss_discard st = sa_discard a
     \<and> ss_busy st = (sa_run a \<noteq> None)"

lemma sa_items_simps [simp]:
  "sa_items [] a = a" "sa_items (i # is) a = sa_items is (sa_item i a)"
  "sa_items (is @ js) a = sa_items js (sa_items is a)"
  by (simp_all add: sa_items_def)

lemma sa_bytes:
  "sa_items (map Byte bs) a = (if sa_discard a then a else a\<lparr>sa_stream := sa_stream a @ bs\<rparr>)"
  by (induction bs arbitrary: a) auto

lemma set_spool_fields [simp]:
  "fst (set_spool env w s) = (fst s)\<lparr>ss_spool := w\<rparr>"
  by (simp add: set_spool_def split: prod.splits)

text \<open>The parts of a session its spool file and clock do not touch.\<close>

lemma commit_payload_state:
  "fst (commit_payload env bs (st, L)) =
     (if ss_discard st then st
      else st\<lparr>ss_ring := push_slice (ss_ring st) bs,
              ss_spool := ss_spool (fst (commit_payload env bs (st, L)))\<rparr>)"
  by (auto simp: commit_payload_def Let_def split: option.splits prod.splits)

lemma commit_payload_refines:
  "refines_abs st a \<Longrightarrow> refines_abs (fst (commit_payload env bs (st, L))) (sa_items (map Byte bs) a)"
  by (subst commit_payload_state) (simp add: refines_abs_def sa_bytes ring_holds_push)

lemma handle_marker_refines:
  "refines_abs st a \<Longrightarrow> refines_abs (fst (handle_marker env s n (st, L))) (sa_item (Mark s n) a)"
  by (auto simp: refines_abs_def handle_marker_def marker_outcome_def ring_holds_def
      split: option.splits)

lemma ingest_event_refines:
  "refines_abs st a \<Longrightarrow> refines_abs (fst (ingest_event env ev (st, L))) (sa_items (items [ev]) a)"
  by (cases ev) (simp_all add: commit_payload_refines handle_marker_refines del: sa_item.simps)

lemma items_Cons: "items (ev # evs) = items [ev] @ items evs"
  by (cases ev) simp_all

lemma ingest_events_refines:
  "refines_abs (fst s) a \<Longrightarrow> refines_abs (fst (ingest_events envs i evs s)) (sa_items (items evs) a)"
proof (induction evs arbitrary: i s a)
  case (Cons ev evs)
  have "refines_abs (fst (ingest_event (envs i) ev s)) (sa_items (items [ev]) a)"
    using ingest_event_refines[of "fst s" a "envs i" ev "snd s"] Cons.prems by simp
  from Cons.IH[OF this] show ?case by (subst items_Cons) simp
qed simp

text \<open>The fields the reader leaves alone.\<close>

definition reader_frame :: "session_state \<Rightarrow> session_state \<Rightarrow> bool" where
  "reader_frame st st' \<longleftrightarrow>
     ss_dead st' = ss_dead st \<and> ss_cursor st' = ss_cursor st \<and> ss_run_seq st' = ss_run_seq st
     \<and> ring_cap (ss_ring st') = ring_cap (ss_ring st) \<and> ss_scrubber st' = ss_scrubber st
     \<and> (ss_spool st = None \<longrightarrow> ss_spool st' = None)
     \<and> (ss_spool st' \<noteq> None \<longrightarrow> ss_busy st' = ss_busy st)"

lemma reader_frame_trans: "reader_frame a b \<Longrightarrow> reader_frame b c \<Longrightarrow> reader_frame a c"
  by (auto simp: reader_frame_def)

lemma commit_payload_frame: "reader_frame st (fst (commit_payload env bs (st, L)))"
  by (auto simp: reader_frame_def commit_payload_def Let_def split: option.splits prod.splits)

lemma handle_marker_frame: "reader_frame st (fst (handle_marker env s n (st, L)))"
  by (auto simp: reader_frame_def handle_marker_def split: option.splits)

lemma ingest_events_frame: "reader_frame (fst s) (fst (ingest_events envs i evs s))"
proof (induction evs arbitrary: i s)
  case (Cons ev evs)
  have "reader_frame (fst s) (fst (ingest_event (envs i) ev s))"
    using commit_payload_frame[of "fst s" _ _ "snd s"] handle_marker_frame[of "fst s" _ _ _ "snd s"]
    by (cases ev) simp_all
  from reader_frame_trans[OF this Cons.IH] show ?case by simp
qed (simp add: reader_frame_def)

lemma ingest_frame:
  assumes "ingest envs now d (st, L) = (st', L')"
  shows "ss_dead st' = ss_dead st" "ss_cursor st' = ss_cursor st" "ss_run_seq st' = ss_run_seq st"
    "ring_cap (ss_ring st') = ring_cap (ss_ring st)" "ss_scrubber st' = fst (feed (ss_scrubber st) d)"
    "ss_spool st = None \<Longrightarrow> ss_spool st' = None" "ss_spool st' \<noteq> None \<Longrightarrow> ss_busy st' = ss_busy st"
  using ingest_events_frame[of "(st\<lparr>ss_last_activity := now, ss_scrubber := fst (feed (ss_scrubber st) d)\<rparr>, L)"
      envs 0 "snd (feed (ss_scrubber st) d)"] assms
  by (auto simp: reader_frame_def ingest_def split: prod.splits)

lemma ingest_refines:
  assumes "refines_abs st a"
  shows "refines_abs (fst (ingest envs now d (st, L))) (sa_items (items (snd (feed (ss_scrubber st) d))) a)"
proof -
  have "refines_abs (st\<lparr>ss_last_activity := now, ss_scrubber := scr\<rparr>) a" for scr
    using assms by (simp add: refines_abs_def)
  then show ?thesis by (simp add: ingest_def ingest_events_refines split: prod.splits)
qed

text \<open>
  A sequence of chunks as the reader receives them: the file system's answers, the time, the
  state in which other sessions left the shared ledger, and the bytes.
\<close>

type_synonym chunk = "(nat \<Rightarrow> spool_env) \<times> instant \<times> spool_ledger \<times> bytes"

definition chunk_data :: "chunk \<Rightarrow> bytes" where
  "chunk_data c = snd (snd (snd c))"

fun ingest_seq :: "chunk list \<Rightarrow> session_state \<Rightarrow> session_state" where
  "ingest_seq [] st = st"
| "ingest_seq ((envs, now, L, d) # cs) st = ingest_seq cs (fst (ingest envs now d (st, L)))"

definition stream_bytes :: "chunk list \<Rightarrow> bytes" where
  "stream_bytes cs = concat (map chunk_data cs)"

lemma ingest_seq_frame:
  "ss_dead (ingest_seq cs st) = ss_dead st" "ss_cursor (ingest_seq cs st) = ss_cursor st"
  "ring_cap (ss_ring (ingest_seq cs st)) = ring_cap (ss_ring st)"
  by (induction cs st rule: ingest_seq.induct; simp add: ingest_frame(1,2,4)[OF prod.collapse[symmetric]])+

lemma ingest_seq_refines:
  assumes "refines_abs st a"
  shows "refines_abs (ingest_seq cs st)
           (sa_items (items (snd (feed_chunks (ss_scrubber st) (map chunk_data cs)))) a)
     \<and> ss_scrubber (ingest_seq cs st) = fst (feed_chunks (ss_scrubber st) (map chunk_data cs))"
  using assms
proof (induction cs st arbitrary: a rule: ingest_seq.induct)
  case (2 envs now L d cs st)
  have scr: "ss_scrubber (fst (ingest envs now d (st, L))) = fst (feed (ss_scrubber st) d)"
    by (rule ingest_frame(5)[OF prod.collapse[symmetric]])
  from "2.IH"[OF ingest_refines[OF "2.prems", of envs now d L]] show ?case
    by (simp add: scr chunk_data_def Let_def case_prod_beta)
qed simp

text \<open>Over a chunked stream only the concatenation counts.\<close>

definition scrubbed :: "session_state \<Rightarrow> bytes \<Rightarrow> item list" where
  "scrubbed st bs = snd (scrub (eat_newline (ss_scrubber st)) (held (ss_scrubber st) @ bs))"

lemma ingest_seq_stream:
  assumes "refines_abs st a" and "scrubber_ok (ss_scrubber st)"
  shows "refines_abs (ingest_seq cs st) (sa_items (scrubbed st (stream_bytes cs)) a)"
    and "ss_scrubber (ingest_seq cs st)
      = fst (scrub (eat_newline (ss_scrubber st)) (held (ss_scrubber st) @ stream_bytes cs))"
    and "scrubber_ok (ss_scrubber (ingest_seq cs st))"
  using feed_chunks_scrub[OF assms(2), of "map chunk_data cs"] ingest_seq_refines[OF assms(1), of cs]
  by (simp_all add: scrubbed_def stream_bytes_def prod_eq_iff scrub_ok)

subsection \<open>Reachable sessions\<close>

text \<open>
  Ghost state: the stream committed to the ring so far, the items scrubbed and the probe
  sentinels armed since the ghost lists were last emptied.
\<close>

record ghost =
  gh_stream :: bytes
  gh_items :: "item list"
  gh_probes :: "bytes list"

definition abs_of :: "session_state \<Rightarrow> bytes \<Rightarrow> session_abs" where
  "abs_of st s = \<lparr>sa_stream = s, sa_run = ss_current_run st, sa_result = ss_last_result st,
     sa_discard = ss_discard st\<rparr>"

definition ghost_data :: "session_state \<Rightarrow> bytes \<Rightarrow> ghost \<Rightarrow> ghost" where
  "ghost_data st d g =
     (let is = items (snd (feed (ss_scrubber st) d)) in
      g\<lparr>gh_stream := sa_stream (sa_items is (abs_of st (gh_stream g))),
        gh_items := gh_items g @ is\<rparr>)"

text \<open>
  The steps other tasks may take while a run waits: the reader's, death, peeks and interrupts.
\<close>

inductive bg_step :: "session_state \<times> ghost \<Rightarrow> session_state \<times> ghost \<Rightarrow> bool" where
  data: "ingest envs now d (st, L) = (st', L') \<Longrightarrow> bg_step (st, g) (st', ghost_data st d g)"
| died: "mark_dead env reason (st, L) = (st', L') \<Longrightarrow> bg_step (st, g) (st', g)"
| peeked: "peek host name tail_n raw st = (reply, st') \<Longrightarrow> bg_step (st, g) (st', g)"
| armed: "interrupt_arm host name probe st = (r, st') \<Longrightarrow>
     bg_step (st, g) (st', g\<lparr>gh_probes := probe # gh_probes g\<rparr>)"

text \<open>
  A session from its opening on. Clients reach it only once it is published, when its shell is
  ready or the wait was given up: \<open>ss_discard\<close> is then off for good.
\<close>

inductive session_reach :: "nat \<Rightarrow> session_state \<Rightarrow> ghost \<Rightarrow> bool" for cap where
  opened: "session_reach cap (session_new cap now) \<lparr>gh_stream = [], gh_items = [], gh_probes = []\<rparr>"
| background: "session_reach cap st g \<Longrightarrow> bg_step (st, g) (st', g') \<Longrightarrow> session_reach cap st' g'"
| gave_up: "session_reach cap st g \<Longrightarrow> session_reach cap (ready_timeout st) g"
| began: "session_reach cap st g \<Longrightarrow> \<not> ss_discard st \<Longrightarrow>
     run_begin oe env root host name sentinel raw (st, L) = (r, (st', L')) \<Longrightarrow>
     session_reach cap st' (g\<lparr>gh_items := [], gh_probes := []\<rparr>)"
| finished: "session_reach cap st g \<Longrightarrow> \<not> ss_discard st \<Longrightarrow>
     run_finish host name command sentinel p offset raw st = (r, st') \<Longrightarrow> session_reach cap st' g"

definition session_ok :: "nat \<Rightarrow> session_state \<Rightarrow> bytes \<Rightarrow> bool" where
  "session_ok cap st s \<longleftrightarrow>
     ring_holds (ss_ring st) s \<and> ring_cap (ss_ring st) = cap \<and> ss_cursor st \<le> length s
     \<and> (ss_busy st \<longleftrightarrow> ss_current_run st \<noteq> None) \<and> (ss_spool st \<noteq> None \<longrightarrow> ss_busy st)
     \<and> (ss_dead st \<noteq> None \<longrightarrow> \<not> ss_busy st) \<and> (ss_discard st \<longrightarrow> s = [] \<and> \<not> ss_busy st)
     \<and> (\<forall>r. ss_last_result st = Some r \<longrightarrow> ro_end_offset r \<le> length s \<and> \<not> ss_busy st)
     \<and> scrubber_ok (ss_scrubber st)"

lemma session_ok_refines: "session_ok cap st s \<Longrightarrow> refines_abs st (abs_of st s)"
  by (simp add: session_ok_def refines_abs_def abs_of_def)

lemma refines_abs_of: "refines_abs st a \<Longrightarrow> abs_of st (sa_stream a) = a"
  by (simp add: refines_abs_def abs_of_def)

definition payload :: "item list \<Rightarrow> bytes" where
  "payload is = concat (map (\<lambda>i. case i of Byte c \<Rightarrow> [c] | Mark s n \<Rightarrow> []) is)"

text \<open>The abstract automaton keeps the abstract part of the invariant.\<close>

definition abs_ok :: "session_abs \<Rightarrow> bool" where
  "abs_ok a \<longleftrightarrow> (sa_discard a \<longrightarrow> sa_stream a = [] \<and> sa_run a = None)
     \<and> (\<forall>r. sa_result a = Some r \<longrightarrow> ro_end_offset r \<le> length (sa_stream a) \<and> sa_run a = None)"

lemma sa_item_ok: "abs_ok a \<Longrightarrow> abs_ok (sa_item i a)"
  by (cases i) (auto simp: abs_ok_def split: option.splits)

lemma sa_items_ok: "abs_ok a \<Longrightarrow> abs_ok (sa_items is a)"
  by (induction "is" arbitrary: a) (simp_all add: sa_item_ok)

lemma sa_item_grows: "\<exists>t. sa_stream (sa_item i a) = sa_stream a @ t"
  by (cases i) (auto split: option.splits)

lemma sa_items_grows: "\<exists>t. sa_stream (sa_items is a) = sa_stream a @ t"
proof (induction "is" arbitrary: a)
  case (Cons i "is")
  then show ?case using sa_item_grows[of i a] by (metis append.assoc sa_items_simps(2))
qed simp

lemma sa_items_stream:
  "\<not> sa_discard a \<Longrightarrow> sa_stream (sa_items is a) = sa_stream a @ payload is \<and> \<not> sa_discard (sa_items is a)"
proof (induction "is" arbitrary: a)
  case (Cons i "is")
  have "\<not> sa_discard (sa_item i a) \<and> sa_stream (sa_item i a) = sa_stream a @ payload [i]"
    using Cons.prems by (cases i) (auto simp: payload_def split: option.splits)
  with Cons.IH[of "sa_item i a"] show ?case by (simp add: payload_def)
qed (simp add: payload_def)

lemma session_ok_abs: "session_ok cap st s \<Longrightarrow> abs_ok (abs_of st s)"
  by (auto simp: session_ok_def abs_ok_def abs_of_def)

lemma session_ok_ingest:
  assumes ok: "session_ok cap st s" and ing: "ingest envs now d (st, L) = (st', L')"
  shows "session_ok cap st' (gh_stream (ghost_data st d (g\<lparr>gh_stream := s\<rparr>)))"
proof -
  let ?a = "sa_items (items (snd (feed (ss_scrubber st) d))) (abs_of st s)"
  note fr = ingest_frame[OF ing]
  have r: "refines_abs st' ?a"
    using ingest_refines[OF session_ok_refines[OF ok], of envs now d L] ing by simp
  have a: "abs_ok ?a" using sa_items_ok session_ok_abs[OF ok] by blast
  obtain t where t: "sa_stream ?a = s @ t"
    using sa_items_grows[of _ "abs_of st s"] by (auto simp: abs_of_def)
  have idle: "ss_busy st' \<Longrightarrow> ss_busy st"
  proof -
    have "sa_run b = None \<Longrightarrow> sa_run (sa_items is b) = None" for "is" b
    proof (induction "is" arbitrary: b)
      case (Cons i "is")
      then show ?case by (cases i) (auto split: option.splits)
    qed simp
    then show "ss_busy st' \<Longrightarrow> ss_busy st"
      using r ok by (metis refines_abs_def session_ok_def abs_of_def session_abs.select_convs(2))
  qed
  show ?thesis
    using ok fr r a t idle feed_ok[of "ss_scrubber st" d]
    by (auto simp: session_ok_def refines_abs_def abs_ok_def ghost_data_def Let_def)
qed

lemma mark_dead_state:
  "fst (mark_dead env reason (st, L)) = st\<lparr>ss_spool := None,
     ss_dead := Some (case ss_dead st of None \<Rightarrow> reason | Some r \<Rightarrow> r),
     ss_busy := False, ss_current_run := None\<rparr>"
  by (simp add: mark_dead_def split: option.splits)

lemma session_ok_dead:
  "session_ok cap st s \<Longrightarrow> session_ok cap (fst (mark_dead env reason (st, L))) s"
  by (auto simp: session_ok_def mark_dead_state)

lemma run_begin_cases:
  assumes "run_begin oe env root host name sentinel raw (st, L) = (r, (st', L'))"
  obtains (refused) "st' = st" "\<forall>off p. r \<noteq> Started off p" "ss_dead st \<noteq> None \<or> ss_busy st"
  | (started) w p where "r = Started (total_written (ss_ring st)) p" "ss_dead st = None" "\<not> ss_busy st"
      "st' = st\<lparr>ss_run_seq := ss_run_seq st + 1, ss_spool := w, ss_busy := True,
                ss_current_run := Some \<lparr>cr_sentinel = sentinel, cr_resync = None\<rparr>,
                ss_last_result := None\<rparr>"
  using assms
  by (auto simp: run_begin_def Let_def set_spool_def split: option.splits if_splits prod.splits)

lemma session_ok_begin:
  assumes "session_ok cap st s" and "\<not> ss_discard st"
    and "run_begin oe env root host name sentinel raw (st, L) = (r, (st', L'))"
  shows "session_ok cap st' s"
  using assms(3) by (cases rule: run_begin_cases) (use assms(1,2) in \<open>auto simp: session_ok_def\<close>)

lemma run_finish_state:
  "snd (run_finish host name command sentinel p off raw st) = st
   \<or> snd (run_finish host name command sentinel p off raw st) = st\<lparr>ss_last_result := None\<rparr>"
  by (auto simp: run_finish_def split: option.splits)

lemma peek_state:
  "snd (peek host name tail_n raw st) = st
   \<or> snd (peek host name tail_n raw st) = st\<lparr>ss_cursor := total_written (ss_ring st)\<rparr>"
  by (auto simp: peek_def peek_bytes_def Let_def split: option.splits prod.splits)

lemma interrupt_state:
  obtains (same) "snd (interrupt_arm host name probe st) = st"
  | (armed) run where "ss_current_run st = Some run" "ss_busy st"
      "snd (interrupt_arm host name probe st) = st\<lparr>ss_current_run := Some (run\<lparr>cr_resync := Some probe\<rparr>)\<rparr>"
  by (cases "ss_dead st"; cases "ss_busy st"; cases "ss_current_run st")
    (auto simp: interrupt_arm_def)

lemma session_ok_simple:
  assumes "session_ok cap st s"
  shows "session_ok cap (snd (run_finish host name command sentinel p off raw st)) s"
    and "session_ok cap (snd (peek host name tail_n raw st)) s"
    and "session_ok cap (ready_timeout st) s"
    and "session_ok cap (snd (interrupt_arm host name probe st)) s"
proof -
  show "session_ok cap (snd (run_finish host name command sentinel p off raw st)) s"
    using run_finish_state[of host name command sentinel p off raw st] assms
    by (auto simp: session_ok_def)
  show "session_ok cap (snd (peek host name tail_n raw st)) s"
    using peek_state[of host name tail_n raw st] assms by (auto simp: session_ok_def ring_holds_def)
  show "session_ok cap (ready_timeout st) s"
    using assms by (auto simp: session_ok_def ready_timeout_def)
  show "session_ok cap (snd (interrupt_arm host name probe st)) s"
    by (cases rule: interrupt_state[of host name probe st]) (use assms in \<open>auto simp: session_ok_def\<close>)
qed

lemma session_ok_bg:
  assumes "bg_step x y" and "session_ok cap (fst x) (gh_stream (snd x))"
  shows "session_ok cap (fst y) (gh_stream (snd y))"
  using assms
proof cases
  case (data envs now d st L st' L' g)
  have "g\<lparr>gh_stream := gh_stream g\<rparr> = g" by simp
  with session_ok_ingest[OF _ data(3), of cap "gh_stream g" g] data assms(2) show ?thesis by simp
next
  case (died env reason st L st' L' g)
  with session_ok_dead[of cap st "gh_stream g" env reason L] assms(2) show ?thesis by simp
next
  case (peeked host name tail_n raw st reply st' g)
  with session_ok_simple(2)[of cap st "gh_stream g" host name tail_n raw] assms(2) show ?thesis by simp
next
  case (armed host name probe st r st' g)
  with session_ok_simple(4)[of cap st "gh_stream g" host name probe] assms(2) show ?thesis by simp
qed

lemma reachable_session_ok: "session_reach cap st g \<Longrightarrow> session_ok cap st (gh_stream g)"
proof (induction rule: session_reach.induct)
  case (opened now)
  have "ring_cap (ring_new cap) = cap" by (simp add: ring_new_def)
  then show ?case by (simp add: session_ok_def session_new_def ring_holds_new)
next
  case (background st g st' g')
  from session_ok_bg[OF background(2)] background(3) show ?case by simp
next
  case (gave_up st g)
  from session_ok_simple(3)[OF gave_up(2)] show ?case .
next
  case (began st g oe env root host name sentinel raw L r st' L')
  from session_ok_begin[OF began(4,2,3)] show ?case by simp
next
  case (finished st g host name command sentinel p offset raw r st')
  from session_ok_simple(1)[OF finished(4), of host name command sentinel p offset raw] finished(3)
  show ?case by simp
qed

subsection \<open>Properties of sessions\<close>

text \<open>
  C24: the state invariant of a session, through every interleaving of output, runs, peeks,
  interrupts, death and a given-up start: the ring holds the committed stream, the peek cursor
  never passes it, the session is busy exactly while a run is registered, a spool file is open
  only while busy, a dead session is never busy, nothing is committed before the shell is
  ready, and a recorded outcome belongs to an idle session and ends inside the stream.
\<close>

theorem session_invariant:
  assumes "session_reach cap st g"
  shows "ring_holds (ss_ring st) (gh_stream g) \<and> ring_cap (ss_ring st) = cap
    \<and> ss_cursor st \<le> length (gh_stream g)
    \<and> ss_busy st = (ss_current_run st \<noteq> None)
    \<and> (ss_spool st = None \<or> ss_busy st) \<and> (ss_dead st = None \<or> \<not> ss_busy st)
    \<and> (ss_discard st \<longrightarrow> gh_stream g = [] \<and> \<not> ss_busy st)
    \<and> (\<forall>r. ss_last_result st = Some r \<longrightarrow>
          ro_end_offset r \<le> length (gh_stream g) \<and> \<not> ss_busy st)"
  using reachable_session_ok[OF assms] by (auto simp: session_ok_def)

theorem session_invariant_witness:
  "ring_cap (ss_ring (session_new 8 5)) = 8"
  using session_invariant[OF session_reach.opened[of 8 5]] by blast

text \<open>A ring is determined by its capacity and what it holds.\<close>

lemma ring_determined:
  "ring_holds r s \<Longrightarrow> ring_holds r' s \<Longrightarrow> ring_cap r = ring_cap r' \<Longrightarrow> r = r'"
  by (simp add: ring_holds_def)

text \<open>
  How the network cuts the shell's output into packets is invisible: from any reachable
  session, two arrivals of the same bytes in different chunks, at different times, with
  different answers of the file system, lead to the same ring, the same outcome of the run,
  the same busy, dead and ready flags and the same scrubber state.
\<close>

theorem session_chunk_invariant:
  assumes "session_reach cap st g" and "stream_bytes cs1 = stream_bytes cs2"
  shows "ss_ring (ingest_seq cs1 st) = ss_ring (ingest_seq cs2 st)
    \<and> ss_last_result (ingest_seq cs1 st) = ss_last_result (ingest_seq cs2 st)
    \<and> ss_current_run (ingest_seq cs1 st) = ss_current_run (ingest_seq cs2 st)
    \<and> state_label (ingest_seq cs1 st) = state_label (ingest_seq cs2 st)
    \<and> ss_discard (ingest_seq cs1 st) = ss_discard (ingest_seq cs2 st)
    \<and> ss_scrubber (ingest_seq cs1 st) = ss_scrubber (ingest_seq cs2 st)"
proof -
  have ok: "session_ok cap st (gh_stream g)" by (rule reachable_session_ok[OF assms(1)])
  note r = session_ok_refines[OF ok]
  have scr: "scrubber_ok (ss_scrubber st)" using ok by (simp add: session_ok_def)
  note s1 = ingest_seq_stream[OF r scr, of cs1] and s2 = ingest_seq_stream[OF r scr, of cs2]
  have "ss_ring (ingest_seq cs1 st) = ss_ring (ingest_seq cs2 st)"
    by (rule ring_determined[of _ "sa_stream (sa_items (scrubbed st (stream_bytes cs2)) (abs_of st (gh_stream g)))"])
      (use s1(1) s2(1) assms(2) in \<open>simp_all add: refines_abs_def ingest_seq_frame\<close>)
  then show ?thesis
    using s1 s2 assms(2) by (simp add: refines_abs_def state_label_def ingest_seq_frame)
qed

definition demo_fs :: "nat \<Rightarrow> spool_env" where "demo_fs i = demo_env"

theorem session_chunk_invariant_witness:
  "ss_ring (ingest_seq [(demo_fs, 1, demo_ledger, ''a''), (demo_fs, 2, demo_ledger, ''b'')] (session_new 8 0))
     = ss_ring (ingest_seq [(demo_fs, 3, demo_ledger, ''ab'')] (session_new 8 0))"
  using session_chunk_invariant[OF session_reach.opened, of
      "[(demo_fs, 1, demo_ledger, ''a''), (demo_fs, 2, demo_ledger, ''b'')]"
      "[(demo_fs, 3, demo_ledger, ''ab'')]" 8 0]
  by (simp add: stream_bytes_def chunk_data_def)




definition demo_no_spool :: open_env where
  "demo_no_spool = demo_open_env\<lparr>oe_private_dir := (\<lambda>_. False)\<rparr>"

text \<open>A session whose start was given up, and the run started on it.\<close>

definition demo_session :: session_state where
  "demo_session = ready_timeout (session_new 8 0)"

lemma demo_session_reach:
  "session_reach 8 demo_session \<lparr>gh_stream = [], gh_items = [], gh_probes = []\<rparr>"
  unfolding demo_session_def by (rule session_reach.gave_up[OF session_reach.opened])

definition demo_started :: "bytes \<Rightarrow> session_state" where
  "demo_started q = demo_session\<lparr>ss_run_seq := 1, ss_busy := True,
     ss_current_run := Some \<lparr>cr_sentinel = q, cr_resync = None\<rparr>\<rparr>"

lemma demo_begin:
  "run_begin demo_no_spool demo_env [] ''h'' ''s'' q raw (demo_session, demo_ledger)
     = (Started 0 [], (demo_started q, demo_ledger))"
  by (simp add: run_begin_def demo_session_def demo_started_def ready_timeout_def session_new_def
      open_spool_file_best_effort_def open_spool_file_under_def demo_no_spool_def set_spool_def
      ring_new_def Let_def)



subsection \<open>Who settles a run\<close>

text \<open>
  \<open>settled q is ps a\<close>: since the items \<open>is\<close> started, the run with sentinel \<open>q\<close> is either still
  registered and its marker has not come, or was settled by its own marker or an armed probe's.
\<close>

definition settled :: "bytes \<Rightarrow> item list \<Rightarrow> bytes list \<Rightarrow> session_abs \<Rightarrow> bool" where
  "settled q is ps a \<longleftrightarrow> \<not> sa_discard a \<and>
     (case sa_run a of
        Some run \<Rightarrow> cr_sentinel run = q \<and> (\<forall>n. Mark q n \<notin> set is)
          \<and> (\<forall>p. cr_resync run = Some p \<longrightarrow> p \<in> set ps)
      | None \<Rightarrow> (\<exists>r. sa_result a = Some r \<and>
          (if ro_interrupted r then ro_exit_code r = None \<and> (\<exists>p\<in>set ps. \<exists>n. Mark p n \<in> set is)
           else \<exists>n. ro_exit_code r = Some n \<and> Mark q n \<in> set is)))"

lemma settled_step: "settled q is ps a \<Longrightarrow> settled q (is @ [i]) ps (sa_item i a)"
proof (cases i)
  case (Byte c)
  assume "settled q is ps a"
  with Byte show ?thesis by (auto simp: settled_def split: option.splits if_splits)
next
  case (Mark m n)
  assume s: "settled q is ps a"
  show ?thesis
  proof (cases "sa_run a")
    case None
    with s Mark show ?thesis by (auto simp: settled_def split: if_splits)
  next
    case (Some run)
    with s have run: "\<not> sa_discard a" "cr_sentinel run = q" "\<forall>n. Mark q n \<notin> set is"
      "\<forall>p. cr_resync run = Some p \<longrightarrow> p \<in> set ps" by (auto simp: settled_def)
    show ?thesis
    proof (cases "m = q \<or> cr_resync run = Some m")
      case True
      with run Some Mark show ?thesis by (auto simp: settled_def)
    next
      case False
      with run Some Mark show ?thesis by (auto simp: settled_def)
    qed
  qed
qed

lemma settled_items: "settled q is ps a \<Longrightarrow> settled q (is @ js) ps (sa_items js a)"
proof (induction js arbitrary: "is" a)
  case (Cons j js)
  from Cons.IH[OF settled_step[OF Cons.prems]] show ?case by simp
qed simp

definition run_tracked :: "nat \<Rightarrow> bytes \<Rightarrow> session_state \<times> ghost \<Rightarrow> bool" where
  "run_tracked cap q x \<longleftrightarrow> session_ok cap (fst x) (gh_stream (snd x)) \<and>
     (ss_dead (fst x) \<noteq> None \<or>
      settled q (gh_items (snd x)) (gh_probes (snd x)) (abs_of (fst x) (gh_stream (snd x))))"

lemma run_tracked_step:
  assumes "bg_step x y" and "run_tracked cap q x"
  shows "run_tracked cap q y"
proof -
  have ok: "session_ok cap (fst x) (gh_stream (snd x))" using assms(2) by (simp add: run_tracked_def)
  have ok': "session_ok cap (fst y) (gh_stream (snd y))" by (rule session_ok_bg[OF assms(1) ok])
  from assms(1) show ?thesis
  proof cases
    case (data envs now d st L st' L' g)
    let ?is = "items (snd (feed (ss_scrubber st) d))"
    have "refines_abs st' (sa_items ?is (abs_of st (gh_stream g)))"
      using ingest_refines[OF session_ok_refines[OF ok], of envs now d L] data by simp
    then have "abs_of st' (gh_stream (ghost_data st d g)) = sa_items ?is (abs_of st (gh_stream g))"
      using refines_abs_of by (simp add: ghost_data_def Let_def)
    then show ?thesis
      using assms(2) ok' data ingest_frame(1)[OF data(3)]
        settled_items[of q "gh_items g" "gh_probes g" "abs_of st (gh_stream g)" ?is]
      by (auto simp: run_tracked_def ghost_data_def Let_def)
  next
    case (died env reason st L st' L' g)
    with ok' mark_dead_state[of env reason st L] show ?thesis by (simp add: run_tracked_def)
  next
    case (peeked host name tail_n raw st reply st' g)
    then have "abs_of st' (gh_stream g) = abs_of st (gh_stream g)" "ss_dead st' = ss_dead st"
      using peek_state[of host name tail_n raw st] by (auto simp: abs_of_def)
    with assms(2) ok' peeked show ?thesis by (simp add: run_tracked_def)
  next
    case (armed host name probe st r st' g)
    show ?thesis
      by (cases rule: interrupt_state[of host name probe st])
        (use assms(2) ok' armed in \<open>auto simp: run_tracked_def settled_def abs_of_def split: option.splits if_splits\<close>)
  qed
qed

lemma run_tracked_steps: "bg_step\<^sup>*\<^sup>* x y \<Longrightarrow> run_tracked cap q x \<Longrightarrow> run_tracked cap q y"
  by (induction rule: rtranclp_induct) (auto intro: run_tracked_step)

lemma run_tracked_start:
  assumes "session_ok cap st (gh_stream g)" and "\<not> ss_discard st"
    and "run_begin oe env root host name q raw (st, L) = (Started off p, (st1, L1))"
  shows "run_tracked cap q (st1, g\<lparr>gh_items := [], gh_probes := []\<rparr>)"
proof -
  have "ss_current_run st1 = Some \<lparr>cr_sentinel = q, cr_resync = None\<rparr> \<and> ss_discard st1 = ss_discard st"
    by (cases rule: run_begin_cases[OF assms(3)]) simp_all
  with session_ok_begin[OF assms] assms(2) show ?thesis
    by (simp add: run_tracked_def settled_def abs_of_def)
qed

lemma finish_reply_cases:
  "run_finish host name command q p off raw st =
     (if ss_busy st then (Replied (running_reply host name p off raw st), st)
      else case (ss_dead st, ss_last_result st) of
        (Some reason, _) \<Rightarrow> (Replied (dead_run_reply host name st off reason raw), st)
      | (None, None) \<Rightarrow> (Panicked, st)
      | (None, Some out) \<Rightarrow> (Replied (done_reply host name command q p off raw st out),
                             st\<lparr>ss_last_result := None\<rparr>))"
  by (auto simp: run_finish_def split: option.splits)

lemma reply_states [simp]:
  "rr_state (running_reply host name p off raw st) = ''running''"
  "rr_state (dead_run_reply host name st off reason raw) = ''dead''"
  "rr_state (done_reply host name command q p off raw st out)
     = (if ro_interrupted out then ''interrupted'' else ''done'')"
  "rr_exit_code (done_reply host name command q p off raw st out) = ro_exit_code out"
  by (simp_all add: running_reply_def dead_run_reply_def done_reply_def Let_def case_prod_beta)

text \<open>
  C12: a run is answered for the right reason. However output, peeks, interrupts and the
  session's death interleave between its start and its answer (no other run being started),
  the run never panics; it is answered \<open>done\<close> with code \<open>n\<close> only if a marker with the run's
  own sentinel and status \<open>n\<close> arrived since its start, \<open>interrupted\<close> only if the marker of a
  probe armed for it did, and \<open>running\<close> only if its marker has not arrived; stale or foreign
  markers in the output settle nothing.
\<close>

theorem run_answer_justified:
  assumes "session_reach cap st g" and "\<not> ss_discard st"
    and "run_begin oe env root host name q raw (st, L) = (Started off p, (st1, L1))"
    and "bg_step\<^sup>*\<^sup>* (st1, g\<lparr>gh_items := [], gh_probes := []\<rparr>) (st2, g2)"
  shows "\<exists>r. fst (run_finish host name command q p off raw st2) = Replied r
    \<and> (rr_state r = ''done'' \<longrightarrow> (\<exists>n. rr_exit_code r = Some n \<and> Mark q n \<in> set (gh_items g2)))
    \<and> (rr_state r = ''interrupted'' \<longrightarrow>
         rr_exit_code r = None \<and> (\<exists>pr\<in>set (gh_probes g2). \<exists>n. Mark pr n \<in> set (gh_items g2)))
    \<and> (rr_state r = ''running'' \<longrightarrow> (\<forall>n. Mark q n \<notin> set (gh_items g2)))
    \<and> (rr_state r = ''dead'' \<longrightarrow> ss_dead st2 \<noteq> None)"
proof -
  have t: "run_tracked cap q (st2, g2)"
    by (rule run_tracked_steps[OF assms(4) run_tracked_start[OF reachable_session_ok[OF assms(1)] assms(2,3)]])
  then have ok: "session_ok cap st2 (gh_stream g2)" by (simp add: run_tracked_def)
  show ?thesis
  proof (cases "ss_dead st2")
    case (Some reason)
    with ok have "\<not> ss_busy st2" by (auto simp: session_ok_def)
    with Some show ?thesis by (simp add: finish_reply_cases)
  next
    case None
    with t have s: "settled q (gh_items g2) (gh_probes g2) (abs_of st2 (gh_stream g2))"
      by (simp add: run_tracked_def)
    show ?thesis
    proof (cases "ss_current_run st2")
      case (Some run)
      with ok have "ss_busy st2" by (simp add: session_ok_def)
      with s Some show ?thesis by (simp add: finish_reply_cases settled_def abs_of_def)
    next
      case no_run: None
      with ok have "\<not> ss_busy st2" by (simp add: session_ok_def)
      with s no_run None show ?thesis
        by (auto simp: finish_reply_cases settled_def abs_of_def split: if_splits) blast
    qed
  qed
qed

theorem run_answer_justified_witness:
  "\<exists>r. fst (run_finish ''h'' ''s'' ''ls'' ''q'' [] 0 False
     (fst (mark_dead demo_env ''gone'' (demo_started ''q'', demo_ledger)))) = Replied r"
proof -
  have "\<not> ss_discard demo_session"
    by (simp add: demo_session_def ready_timeout_def session_new_def)
  moreover have "bg_step\<^sup>*\<^sup>* (demo_started ''q'', g)
     (fst (mark_dead demo_env ''gone'' (demo_started ''q'', demo_ledger)), g)" for g
    by (rule r_into_rtranclp, rule bg_step.died[OF prod.collapse[symmetric]])
  ultimately show ?thesis
    using run_answer_justified[OF demo_session_reach _ demo_begin] by blast
qed

subsection \<open>Peeks\<close>

text \<open>Rounds of output and one peek each: the bytes every peek shows.\<close>

fun peek_rounds :: "chunk list list \<Rightarrow> session_state \<Rightarrow> bytes list \<times> session_state" where
  "peek_rounds [] st = ([], st)"
| "peek_rounds (cs # rounds) st =
     (let (bs, st1) = peek_bytes None (ingest_seq cs st);
          (rest, st2) = peek_rounds rounds st1
      in (bs # rest, st2))"

lemma payload_length: "length (payload (snd (scrub eat buf))) \<le> length buf"
proof (induction eat buf rule: scrub.induct)
  case (2 eat b bs)
  show ?case
  proof (rule byte_cases[of eat b])
    assume "eat \<and> b = CR"
    with "2.IH"(1) show ?thesis by (simp add: scrub_steps(1))
  next
    assume lf: "eat \<and> b = LF" "\<not> (eat \<and> b = CR)"
    with "2.IH"(2)[OF lf(2,1)] show ?thesis by (simp add: scrub_steps(2))
  next
    assume sep: "\<not> (eat \<and> b = CR)" "\<not> (eat \<and> b = LF)" "b \<in> {CR, LF, CHR ''_''}"
    show ?thesis
      using "2.IH"(3,4)[OF sep]
      by (cases "scan_sep_marker (b # bs)") (simp_all add: scrub_steps(3)[OF sep] payload_def)
  next
    assume plain: "\<not> (eat \<and> b = CR)" "\<not> (eat \<and> b = LF)" "b \<notin> {CR, LF, CHR ''_''}"
    with "2.IH"(5)[OF plain] show ?thesis by (simp add: scrub_steps(4)[OF plain] payload_def)
  qed
qed (simp add: payload_def)

text \<open>Two arrivals in a row are one arrival of both.\<close>

lemma ingest_seq_append: "ingest_seq (cs @ ds) st = ingest_seq ds (ingest_seq cs st)"
  by (induction cs st rule: ingest_seq.induct) simp_all

lemma scrubbed_append:
  assumes "refines_abs st a" and "scrubber_ok (ss_scrubber st)"
  shows "scrubbed st (stream_bytes cs @ bs) = scrubbed st (stream_bytes cs) @ scrubbed (ingest_seq cs st) bs"
  using scrub_append[of "eat_newline (ss_scrubber st)" "held (ss_scrubber st) @ stream_bytes cs" bs]
    ingest_seq_stream(2)[OF assms, of cs]
  by (simp add: scrubbed_def Let_def case_prod_beta)

lemma session_ok_ingest_seq: "session_ok cap st s \<Longrightarrow> \<exists>s'. session_ok cap (ingest_seq cs st) s'"
proof (induction cs st arbitrary: s rule: ingest_seq.induct)
  case (2 envs now L d cs st)
  from "2.IH"[OF session_ok_ingest[OF "2.prems" prod.collapse[symmetric]]] show ?case by simp
qed auto

lemma peek_round:
  assumes ok: "session_ok cap st s" and ready: "\<not> ss_discard st" and read: "ss_cursor st = length s"
    and fits: "length (stream_bytes cs) + 90 \<le> cap"
    and pk: "peek_bytes None (ingest_seq cs st) = (bs, st1)"
  shows "bs = payload (scrubbed st (stream_bytes cs))"
    and "session_ok cap st1 (s @ bs) \<and> \<not> ss_discard st1 \<and> ss_cursor st1 = length (s @ bs)"
    and "ss_scrubber st1 = ss_scrubber (ingest_seq cs st)"
proof -
  let ?st = "ingest_seq cs st" and ?p = "payload (scrubbed st (stream_bytes cs))"
  have so: "scrubber_ok (ss_scrubber st)" using ok by (simp add: session_ok_def)
  note r = ingest_seq_stream[OF session_ok_refines[OF ok] so, of cs]
  have a: "abs_ok (sa_items (scrubbed st (stream_bytes cs)) (abs_of st s))"
    by (rule sa_items_ok[OF session_ok_abs[OF ok]])
  have st: "sa_stream (sa_items (scrubbed st (stream_bytes cs)) (abs_of st s)) = s @ ?p
      \<and> \<not> sa_discard (sa_items (scrubbed st (stream_bytes cs)) (abs_of st s))"
    using sa_items_stream[of "abs_of st s" "scrubbed st (stream_bytes cs)"] ready
    by (simp add: abs_of_def)
  have "length (held (ss_scrubber st)) < 91"
    using scrub_held_len[of "eat_newline (ss_scrubber st)" "held (ss_scrubber st)"] so
    by (simp add: scrubber_ok_def)
  then have "length ?p \<le> cap"
    using payload_length[of "eat_newline (ss_scrubber st)" "held (ss_scrubber st) @ stream_bytes cs"] fits
    by (simp add: scrubbed_def)
  moreover have h: "ring_holds (ss_ring ?st) (s @ ?p)" and c: "ring_cap (ss_ring ?st) = cap"
    using r(1) st ok by (auto simp: refines_abs_def session_ok_def ingest_seq_frame)
  ultimately have "fst (ring_since (ss_ring ?st) (length s)) = ?p"
    using rb.since_holds[OF h, of "length s"] by (simp add: max_def)
  moreover have "total_written (ss_ring ?st) = length (s @ ?p)" using h by (simp add: ring_holds_def)
  ultimately show bs: "bs = ?p" and "ss_scrubber st1 = ss_scrubber ?st"
    using pk read by (auto simp: peek_bytes_def ingest_seq_frame)
  show "session_ok cap st1 (s @ bs) \<and> \<not> ss_discard st1 \<and> ss_cursor st1 = length (s @ bs)"
  proof -
    obtain s' where "session_ok cap ?st s'" using session_ok_ingest_seq[OF ok] by blast
    then have "ss_spool ?st \<noteq> None \<longrightarrow> ss_busy ?st" "ss_dead ?st \<noteq> None \<longrightarrow> \<not> ss_busy ?st"
      unfolding session_ok_def by blast+
    moreover have "st1 = ?st\<lparr>ss_cursor := length (s @ ?p)\<rparr>"
      using pk h by (auto simp: peek_bytes_def ring_holds_def)
    ultimately show ?thesis
      using a r st h c by (auto simp: bs session_ok_def refines_abs_def abs_ok_def)
  qed
qed

lemma peek_rounds_payload:
  "session_ok cap st s \<Longrightarrow> \<not> ss_discard st \<Longrightarrow> ss_cursor st = length s \<Longrightarrow>
   \<forall>cs\<in>set rounds. length (stream_bytes cs) + 90 \<le> cap \<Longrightarrow>
   concat (fst (peek_rounds rounds st)) = payload (scrubbed st (concat (map stream_bytes rounds)))"
proof (induction rounds arbitrary: st s)
  case Nil
  then have "scrubber_ok (ss_scrubber st)" by (simp add: session_ok_def)
  then show ?case by (simp add: scrubbed_def scrubber_ok_def payload_def)
next
  case (Cons cs rounds)
  obtain bs st1 where pk: "peek_bytes None (ingest_seq cs st) = (bs, st1)"
    by (cases "peek_bytes None (ingest_seq cs st)")
  have "length (stream_bytes cs) + 90 \<le> cap" using Cons.prems(4) by simp
  note p = peek_round[OF Cons.prems(1-3) this pk]
  have rest: "concat (fst (peek_rounds rounds st1))
      = payload (scrubbed st1 (concat (map stream_bytes rounds)))"
    using Cons.IH[of st1 "s @ bs"] p(2) Cons.prems(4) by simp
  have "scrubbed st1 bs' = scrubbed (ingest_seq cs st) bs'" for bs'
    by (simp add: scrubbed_def p(3))
  moreover have "scrubber_ok (ss_scrubber st)" using Cons.prems(1) by (simp add: session_ok_def)
  note scrubbed_append[OF session_ok_refines[OF Cons.prems(1)] this, of cs]
  ultimately show ?case
    using rest pk p(1) by (simp add: case_prod_beta payload_def)
qed

text \<open>Rounds of output and one peek each, as it is answered.\<close>

fun peek_replies :: "string \<Rightarrow> string \<Rightarrow> bool \<Rightarrow> chunk list list \<Rightarrow> session_state \<Rightarrow> peek_reply list" where
  "peek_replies host name raw [] st = []"
| "peek_replies host name raw (cs # rounds) st =
     (let (reply, st1) = peek host name None raw (ingest_seq cs st) in reply # peek_replies host name raw rounds st1)"

text \<open>
  A reply shows a piece of output: all of its text, after the escape sequences unless they are asked
  for, or the last 30000 characters after a notice. What the notice leaves out is not shown again.
\<close>

definition shows_piece :: "bool \<Rightarrow> bytes \<Rightarrow> peek_reply \<Rightarrow> bool" where
  "shows_piece raw piece reply \<longleftrightarrow>
     (let bs = (if raw then piece else strip_ansi piece); txt = from_utf8_lossy bs; cut = length txt - 30000 in
      pk_total_bytes reply = length bs \<and> (pk_truncated reply \<longleftrightarrow> 30000 < length txt) \<and>
      pk_output reply = (if 30000 < length txt then truncation_marker cut (length bs) @ drop cut txt else txt))"

lemma shaped_shows:
  "shape_output bs raw = (pk_output reply, pk_truncated reply, pk_total_bytes reply) \<Longrightarrow> shows_piece raw bs reply"
  by (auto simp: shape_output_def shows_piece_def Let_def MAX_OUTPUT_CHARS_def split: if_splits)

lemma replies_show_pieces:
  "list_all2 (shows_piece raw) (fst (peek_rounds rounds st)) (peek_replies host name raw rounds st)"
proof (induction rounds arbitrary: st)
  case (Cons cs rounds)
  let ?st = "ingest_seq cs st"
  obtain bs st1 where pk: "peek_bytes None ?st = (bs, st1)" by force
  obtain shown truncated total_bytes where shaped: "shape_output bs raw = (shown, truncated, total_bytes)"
    by (cases "shape_output bs raw") auto
  have reply: "peek host name None raw ?st =
      (\<lparr>pk_host = host, pk_session = name, pk_state = state_label ?st, pk_output = shown, pk_truncated = truncated,
        pk_total_bytes = total_bytes, pk_dead_reason = ss_dead ?st\<rparr>, st1)"
    using pk shaped by (simp add: peek_def)
  have "shows_piece raw bs (fst (peek host name None raw ?st))"
    by (rule shaped_shows) (simp add: reply shaped)
  with Cons[of st1] pk reply show ?case by (simp add: case_prod_beta)
qed simp

text \<open>
  C39: repeated peeks go through the output exactly once. On an opened session whose output has all
  been peeked at, as long as no more than the ring holds arrives between two peeks (less the 90
  bytes the scrubber may have held back), the replies of successive peeks show pieces that joined
  are exactly the payload of the stream received meanwhile, nothing twice, nothing skipped, no
  framing. A reply shows the whole text of its piece, or, when it has more than 30000 characters,
  the last 30000 of them, saying so; the rest of that piece is not shown by any later peek.
\<close>

theorem peeks_deliver_exactly_once:
  assumes "session_reach cap st g" and "\<not> ss_discard st"
    and "ss_cursor st = length (gh_stream g)"
    and "\<forall>cs\<in>set rounds. length (stream_bytes cs) + 90 \<le> cap"
  shows "\<exists>pieces. concat pieces = payload (scrubbed st (concat (map stream_bytes rounds)))
     \<and> list_all2 (shows_piece raw) pieces (peek_replies host name raw rounds st)"
  using peek_rounds_payload[OF reachable_session_ok[OF assms(1)] assms(2-4)] replies_show_pieces by blast

theorem peeks_deliver_exactly_once_witness:
  "\<exists>pieces. concat pieces = ''abc'' \<and>
     list_all2 (shows_piece True) pieces (peek_replies ''box'' ''main'' True
       [[(demo_fs, 1, demo_ledger, ''ab'')], [(demo_fs, 2, demo_ledger, ''c'')]] (ready_timeout (session_new 100 0)))"
proof -
  have "scrub False ''abc'' = (scrubber_default, map Byte ''abc'')"
    by (simp add: scrub.simps(2) scrubber_default_def)
  then have "payload (scrubbed (ready_timeout (session_new 100 0)) (concat (map stream_bytes
      [[(demo_fs, 1, demo_ledger, ''ab'')], [(demo_fs, 2, demo_ledger, ''c'')]]))) = ''abc''"
    by (simp add: ready_timeout_def session_new_def scrubbed_def stream_bytes_def chunk_data_def
        scrubber_default_def payload_def)
  then show ?thesis
    using peeks_deliver_exactly_once[OF session_reach.gave_up[OF session_reach.opened], of 100 0
        "[[(demo_fs, 1, demo_ledger, ''ab'')], [(demo_fs, 2, demo_ledger, ''c'')]]" True "''box''" "''main''"]
    by (simp add: ready_timeout_def session_new_def stream_bytes_def chunk_data_def del: peek_replies.simps)
qed

subsection \<open>Where the code falls short\<close>

text \<open>
  Two runs may overlap between the marker of the first and its answer, since the lock is
  released in between. The first then takes the second run's outcome, and the second panics
  on the missing outcome.
\<close>

lemma own_marker_state:
  assumes "\<not> ss_discard st" and "ss_current_run st = Some \<lparr>cr_sentinel = q, cr_resync = pr\<rparr>"
  shows "fst (handle_marker env q n (st, L)) = st\<lparr>ss_spool := None,
     ss_last_result := Some \<lparr>ro_exit_code = Some n, ro_interrupted = False,
       ro_end_offset = total_written (ss_ring st)\<rparr>, ss_busy := False, ss_current_run := None\<rparr>"
  using assms by (simp add: handle_marker_def marker_outcome_def)

lemma overlapping_runs_steal_outcome:
  assumes "\<not> ss_discard st"
    and "run_begin oe env root host name q raw (st, L) = (Started off p, (st1, L1))"
    and "handle_marker env q x (st1, L1) = (st2, L2)"
    and "run_begin oe env root host name q' raw (st2, L2) = (Started off' p', (st3, L3))"
    and "handle_marker env q' y (st3, L3) = (st4, L4)"
    and "run_finish host name command q p off raw st4 = (e1, st5)"
  shows "(\<exists>r. e1 = Replied r \<and> rr_state r = ''done'' \<and> rr_exit_code r = Some y)
     \<and> fst (run_finish host name command' q' p' off' raw st5) = Panicked"
proof -
  have s1: "ss_dead st1 = None \<and> ss_discard st1 = False
      \<and> ss_current_run st1 = Some \<lparr>cr_sentinel = q, cr_resync = None\<rparr>"
    by (cases rule: run_begin_cases[OF assms(2)]) (use assms(1) in simp_all)
  then have s2: "ss_dead st2 = None \<and> ss_discard st2 = False"
    using own_marker_state[of st1 q None env x L1] assms(3) by simp
  have s3: "ss_dead st3 = None \<and> ss_discard st3 = False
      \<and> ss_current_run st3 = Some \<lparr>cr_sentinel = q', cr_resync = None\<rparr>"
    by (cases rule: run_begin_cases[OF assms(4)]) (use s2 in simp_all)
  then have "ss_dead st4 = None \<and> \<not> ss_busy st4 \<and> ss_last_result st4 = Some \<lparr>ro_exit_code = Some y,
      ro_interrupted = False, ro_end_offset = total_written (ss_ring st3)\<rparr>"
    using own_marker_state[of st3 q' None env y L3] assms(5) by simp
  then show ?thesis using assms(6) by (auto simp: finish_reply_cases)
qed

text \<open>
  When a run printed more than the ring holds and more bytes arrive before its answer, the
  window no longer starts at the run's first byte, and the answer ends with later bytes.
\<close>

lemma overrun_reply_has_later_bytes:
  assumes "ring_holds (ss_ring st) (s @ out @ late)" and "ring_cap (ss_ring st) \<le> length out"
    and "ro_end_offset outcome = length s + length out"
  shows "rr_output (done_reply host name command q p (length s) raw st outcome)
     = fst (shape_output (strip_echoed_command
         (drop (length out + length late - ring_cap (ss_ring st)) (out @ late))
         [frame_command command q, command]) raw)"
proof -
  have "length s + length out + length late - ring_cap (ss_ring st)
      = length s + (length out + length late - ring_cap (ss_ring st))" using assms(2) by simp
  then have "fst (ring_since (ss_ring st) (length s))
      = drop (length out + length late - ring_cap (ss_ring st)) (out @ late)"
    using rb.since_holds[OF assms(1), of "length s"] assms(2) by (simp add: max_def)
  then show ?thesis
    using assms(2,3) by (simp add: done_reply_def Let_def case_prod_beta min_def)
qed

text \<open>Starting a run does not count as activity: a session that just began one may be reaped.\<close>

lemma starting_a_run_is_no_activity:
  "run_begin oe env root host name q raw (st, L) = (Started off p, (st1, L1)) \<Longrightarrow>
     reapable now st1 = reapable now st"
  by (erule run_begin_cases) (simp_all add: reapable_def)

subsection \<open>The reaper\<close>

lemma kill_get:
  "hm_get (snd (kill_session reg h (Some n))) k = (if k = (h, n) then None else hm_get reg k)"
  by (auto simp: kill_session_def default_session_name_def split: option.splits)

lemma reap_fold:
  "hm_get (foldl (\<lambda>reg (host, name). snd (kill_session reg host (Some name))) reg ks) k
     = (if k \<in> set ks then None else hm_get reg k)"
proof (induction ks arbitrary: reg)
  case (Cons k' ks)
  obtain h n where k': "k' = (h, n)" by (cases k')
  show ?case
    using Cons.IH[of "snd (kill_session reg h (Some n))"] kill_get[of reg h n k]
    by (cases "k = (h, n)") (simp_all add: k')
qed simp

text \<open>The reaper removes exactly the living sessions without output for eight hours.\<close>

lemma reap_exact:
  assumes "hm_ok reg"
  shows "hm_get (reap_idle_sessions now reg) k =
     (case hm_get reg k of None \<Rightarrow> None | Some st \<Rightarrow> if reapable now st then None else Some st)"
proof -
  have "k \<in> set (reap_victims now reg) \<longleftrightarrow> (\<exists>st. (k, st) \<in> set reg \<and> reapable now st)"
    by (force simp: reap_victims_def)
  also have "\<dots> \<longleftrightarrow> (\<exists>st. hm_get reg k = Some st \<and> reapable now st)"
    using assms by (simp add: hm_ok_def map_of_eq_Some_iff)
  finally show ?thesis by (simp add: reap_idle_sessions_def reap_fold split: option.splits)
qed

end
