(* ===== verification/Config.thy ===== *)
theory Config
  imports Text
begin

text \<open>
  The OpenSSH client-config subset (\<open>src/src/daemon/ssh/config.rs\<close>): host patterns, the line
  parser with its diagnostics, bounded \<open>Include\<close> loading, first-value-wins resolution and the
  fail-closed gate in front of a connection.

  The process environment and the file system are the record \<open>config_env\<close>: the home
  directory, the current user, the expansion of a glob pattern, whether a path is a regular
  file, and the text read from it (\<open>None\<close> when it cannot be read as UTF-8). Warnings logged for
  harmless directives (\<open>warn_diagnostics_for\<close>) have no result and are left out.
\<close>

definition MAX_INCLUDE_DEPTH :: nat where "MAX_INCLUDE_DEPTH = 16"
definition MAX_INCLUDE_FILES :: nat where "MAX_INCLUDE_FILES = 128"
definition MAX_INCLUDE_BYTES :: nat where "MAX_INCLUDE_BYTES = 256 * 1024"

datatype identity_agent_value = AgentPath string | AgentDisabled

datatype diagnostic_kind = UnsupportedDirectiveKind string | InvalidPortKind | ReadFailureKind
  | IncludeFailureKind

record diagnostic =
  d_line :: nat
  d_kind :: diagnostic_kind

datatype config_error = InvalidPort nat | UnsupportedDirective nat string | ReadFailure
  | IncludeFailure nat

record host_block =
  hb_patterns :: "string list"
  hb_include_guards :: "string list list"
  hb_hostname :: "string option"
  hb_host_key_alias :: "string option"
  hb_port :: "nat option"
  hb_user :: "string option"
  hb_identity_files :: "string list"
  hb_proxy_jump :: "string option"
  hb_identity_agent :: "identity_agent_value option"
  hb_diagnostics :: "diagnostic list"

type_synonym ssh_config = "host_block list"

definition block_default :: "string list \<Rightarrow> host_block" where
  "block_default patterns = \<lparr>hb_patterns = patterns, hb_include_guards = [], hb_hostname = None,
     hb_host_key_alias = None, hb_port = None, hb_user = None, hb_identity_files = [],
     hb_proxy_jump = None, hb_identity_agent = None, hb_diagnostics = []\<rparr>"

record host_config =
  hc_alias :: string
  hc_hostname :: string
  hc_host_key_alias :: "string option"
  hc_port :: nat
  hc_user :: string
  hc_identity_files :: "string list"
  hc_proxy_jump :: "string option"
  hc_identity_agent :: "identity_agent_value option"

record config_env =
  ce_home :: string
  ce_current_user :: string
  ce_glob :: "string \<Rightarrow> string option list option"  \<comment> \<open>pattern error / per-path error\<close>
  ce_is_file :: "string \<Rightarrow> bool option"
  ce_read :: "string \<Rightarrow> string option"

subsection \<open>Patterns\<close>

fun glob_match :: "string \<Rightarrow> string \<Rightarrow> bool" where
  "glob_match [] text = (text = [])"
| "glob_match (c # ps) text =
     (if c = CHR ''*'' then
        glob_match ps text \<or> (case text of [] \<Rightarrow> False | _ # ts \<Rightarrow> glob_match (c # ps) ts)
      else if c = CHR ''?'' then (case text of [] \<Rightarrow> False | _ # ts \<Rightarrow> glob_match ps ts)
      else (case text of [] \<Rightarrow> False | t # ts \<Rightarrow> t = c \<and> glob_match ps ts))"

fun host_patterns_match_from :: "bool \<Rightarrow> string list \<Rightarrow> string \<Rightarrow> bool" where
  "host_patterns_match_from matched [] alias = matched"
| "host_patterns_match_from matched (p # ps) alias =
     (case strip_prefix ''!'' p of
        Some negated \<Rightarrow>
          if glob_match negated alias then False else host_patterns_match_from matched ps alias
      | None \<Rightarrow>
          if glob_match p alias then host_patterns_match_from True ps alias
          else host_patterns_match_from matched ps alias)"

definition host_patterns_match :: "string list \<Rightarrow> string \<Rightarrow> bool" where
  "host_patterns_match patterns alias = host_patterns_match_from False patterns alias"

definition block_matches :: "host_block \<Rightarrow> string \<Rightarrow> bool" where
  "block_matches b alias \<longleftrightarrow> host_patterns_match (hb_patterns b) alias
     \<and> (\<forall>g\<in>set (hb_include_guards b). host_patterns_match g alias)"

subsection \<open>Values\<close>

definition expand_tilde :: "config_env \<Rightarrow> string \<Rightarrow> string" where
  "expand_tilde E path =
     (case strip_prefix ''~/'' path of
        Some rest \<Rightarrow> path_join (ce_home E) rest
      | None \<Rightarrow> if path = ''~'' then ce_home E else path)"

definition unquote :: "string \<Rightarrow> string" where
  "unquote v =
     (let t = trim v in
      if 2 \<le> str_len t \<and> take 1 t = [CHR 0x22] \<and> last t = CHR 0x22 then butlast (tl t) else t)"

definition parse_identity_agent_value :: "config_env \<Rightarrow> string \<Rightarrow> identity_agent_value" where
  "parse_identity_agent_value E raw =
     (let u = unquote raw in
      if eq_ignore_ascii_case u ''none'' then AgentDisabled else AgentPath (expand_tilde E u))"

definition split_directive :: "string \<Rightarrow> (string \<times> string) option" where
  "split_directive l =
     (let line = trim l;
          stop = (\<lambda>c. is_ws c \<or> c = CHR ''='') in
      if \<exists>c\<in>set line. stop c then
        let rest = trim_start (dropWhile (\<lambda>c. \<not> stop c) line)
        in Some (takeWhile (\<lambda>c. \<not> stop c) line,
                 trim_start (case strip_prefix ''='' rest of Some r \<Rightarrow> r | None \<Rightarrow> rest))
      else if line = [] then None
      else Some (line, []))"

fun include_paths_from :: "string list \<Rightarrow> string \<Rightarrow> char option \<Rightarrow> bool \<Rightarrow> string \<Rightarrow> string list option" where
  "include_paths_from paths token quote escaped [] =
     (if quote \<noteq> None \<or> escaped then None
      else let paths' = (if token \<noteq> [] then paths @ [token] else paths)
           in if paths' = [] then None else Some paths')"
| "include_paths_from paths token quote escaped (ch # s) =
     (if escaped then include_paths_from paths (token @ [ch]) quote False s
      else if ch = CHR 0x5C then include_paths_from paths token quote True s
      else if quote = Some ch then include_paths_from paths token None False s
      else if quote \<noteq> None then include_paths_from paths (token @ [ch]) quote False s
      else if ch = CHR 0x27 \<or> ch = CHR 0x22 then include_paths_from paths token (Some ch) False s
      else if ch = CHR ''#'' \<and> token = [] then include_paths_from paths token quote False []
      else if is_ws ch then
        (if token \<noteq> [] then include_paths_from (paths @ [token]) [] quote False s
         else include_paths_from paths [] quote False s)
      else include_paths_from paths (token @ [ch]) quote False s)"

definition include_paths :: "string \<Rightarrow> string list option" where
  "include_paths raw = include_paths_from [] [] None False raw"

subsection \<open>Line parser\<close>

text \<open>
  The loader of included files is an argument of the line parser (\<open>None\<close> for in-memory
  parsing): it takes the number of files loaded so far and the directive's text, and returns
  the new number and the included blocks.
\<close>

type_synonym include_loader = "nat \<Rightarrow> string \<Rightarrow> nat \<times> host_block list option"

record parse_state =
  ps_blocks :: "host_block list"
  ps_current :: "host_block option"
  ps_in_match :: bool
  ps_files :: nat

definition add_diagnostic :: "nat \<Rightarrow> diagnostic_kind \<Rightarrow> host_block \<Rightarrow> host_block" where
  "add_diagnostic n k b = b\<lparr>hb_diagnostics := hb_diagnostics b @ [\<lparr>d_line = n, d_kind = k\<rparr>]\<rparr>"

fun map_hd :: "('a \<Rightarrow> 'a) \<Rightarrow> 'a list \<Rightarrow> 'a list" where
  "map_hd f [] = []"
| "map_hd f (x # xs) = f x # xs"

definition flush_current :: "parse_state \<Rightarrow> parse_state" where
  "flush_current st =
     (case ps_current st of
        Some b \<Rightarrow> st\<lparr>ps_blocks := ps_blocks st @ [b], ps_current := None\<rparr>
      | None \<Rightarrow> st)"

definition with_current_or_global :: "(host_block \<Rightarrow> host_block) \<Rightarrow> parse_state \<Rightarrow> parse_state" where
  "with_current_or_global update st =
     (case ps_current st of
        Some b \<Rightarrow> st\<lparr>ps_current := Some (update b)\<rparr>
      | None \<Rightarrow> st\<lparr>ps_blocks := map_hd update (ps_blocks st)\<rparr>)"

definition get_or_insert :: "'a option \<Rightarrow> 'a \<Rightarrow> 'a option" where
  "get_or_insert old new = (case old of Some v \<Rightarrow> Some v | None \<Rightarrow> Some new)"

definition directive_update :: "config_env \<Rightarrow> nat \<Rightarrow> string \<Rightarrow> string \<Rightarrow> host_block \<Rightarrow> host_block" where
  "directive_update E n directive rest b =
     (if directive = ''hostname'' then b\<lparr>hb_hostname := get_or_insert (hb_hostname b) rest\<rparr>
      else if directive = ''hostkeyalias'' then
        b\<lparr>hb_host_key_alias := get_or_insert (hb_host_key_alias b) (unquote rest)\<rparr>
      else if directive = ''port'' then
        (case parse_u16 rest of
           Some port \<Rightarrow> b\<lparr>hb_port := get_or_insert (hb_port b) port\<rparr>
         | None \<Rightarrow> add_diagnostic n InvalidPortKind b)
      else if directive = ''user'' then b\<lparr>hb_user := get_or_insert (hb_user b) rest\<rparr>
      else if directive = ''identityfile'' then
        b\<lparr>hb_identity_files := hb_identity_files b @ [expand_tilde E rest]\<rparr>
      else if directive = ''proxyjump'' then
        b\<lparr>hb_proxy_jump := get_or_insert (hb_proxy_jump b) rest\<rparr>
      else if directive = ''identityagent'' then
        b\<lparr>hb_identity_agent := get_or_insert (hb_identity_agent b) (parse_identity_agent_value E rest)\<rparr>
      else add_diagnostic n (UnsupportedDirectiveKind directive) b)"

definition include_step :: "include_loader \<Rightarrow> nat \<Rightarrow> string \<Rightarrow> parse_state \<Rightarrow> parse_state" where
  "include_step loader n rest st =
     (let parent = (case ps_current st of Some b \<Rightarrow> b | None \<Rightarrow> block_default [''*'']);
          patterns = hb_patterns parent;
          (files, result) = loader (ps_files st) rest;
          blocks = (case result of
             Some included \<Rightarrow>
               ps_blocks st @ [parent]
                 @ map (\<lambda>b. b\<lparr>hb_include_guards := hb_include_guards b @ [patterns]\<rparr>) included
           | None \<Rightarrow> ps_blocks st @ [add_diagnostic n IncludeFailureKind parent])
      in st\<lparr>ps_blocks := blocks, ps_current := Some (block_default patterns), ps_files := files\<rparr>)"

definition parse_line :: "config_env \<Rightarrow> include_loader option \<Rightarrow> nat \<times> string \<Rightarrow> parse_state \<Rightarrow> parse_state" where
  "parse_line E inc nl st =
     (let (n, raw_line) = nl; line = trim raw_line in
      if line = [] \<or> take 1 line = ''#'' then st
      else (case split_directive line of
        None \<Rightarrow> st
      | Some (directive, rest0) \<Rightarrow>
          let rest = trim rest0; normalized = to_ascii_lowercase directive in
          if normalized = ''match'' then
            (let st1 = flush_current st in
             st1\<lparr>ps_blocks := map_hd (add_diagnostic n (UnsupportedDirectiveKind normalized)) (ps_blocks st1),
                 ps_in_match := True\<rparr>)
          else if normalized = ''host'' then
            (flush_current st)\<lparr>ps_in_match := False,
               ps_current := Some (block_default (split_whitespace rest))\<rparr>
          else if ps_in_match st then st
          else (case inc of
            Some loader \<Rightarrow>
              if normalized = ''include'' then include_step loader n rest st
              else with_current_or_global (directive_update E n normalized rest) st
          | None \<Rightarrow> with_current_or_global (directive_update E n normalized rest) st)))"

definition numbered_lines :: "string \<Rightarrow> (nat \<times> string) list" where
  "numbered_lines contents = (let ls = str_lines contents in zip [1..<Suc (length ls)] ls)"

definition parse_start :: "nat \<Rightarrow> parse_state" where
  "parse_start files = \<lparr>ps_blocks = [block_default [''*'']], ps_current = None,
     ps_in_match = False, ps_files = files\<rparr>"

definition parse_with :: "config_env \<Rightarrow> include_loader option \<Rightarrow> nat \<Rightarrow> string \<Rightarrow> nat \<times> ssh_config" where
  "parse_with E inc files contents =
     (let st = flush_current (fold (parse_line E inc) (numbered_lines contents) (parse_start files))
      in (ps_files st, ps_blocks st))"

subsection \<open>Include loading\<close>

definition dynamic_include :: "string \<Rightarrow> bool" where
  "dynamic_include token \<longleftrightarrow>
     CHR ''%'' \<in> set token \<or> CHR ''$'' \<in> set token \<or> sublist ''**'' token
     \<or> (take 1 token = ''~'' \<and> token \<noteq> ''~'' \<and> take 2 token \<noteq> ''~/'')"

text \<open>
  \<open>sub\<close> parses the text of an included file one level deeper. The counter \<open>files\<close> is the
  code's \<open>&mut usize\<close>: it keeps its value when loading fails.
\<close>

fun load_files :: "config_env \<Rightarrow> (nat \<Rightarrow> string \<Rightarrow> nat \<times> ssh_config) \<Rightarrow> nat \<Rightarrow> string option list
    \<Rightarrow> host_block list \<Rightarrow> nat \<times> host_block list option" where
  "load_files E sub files [] blocks = (files, Some blocks)"
| "load_files E sub files (None # ps) blocks = (files, None)"
| "load_files E sub files (Some p # ps) blocks =
     (if files + 1 > MAX_INCLUDE_FILES then (files + 1, None)
      else if ce_is_file E p \<noteq> Some True then (files + 1, None)
      else (case ce_read E p of
              None \<Rightarrow> (files + 1, None)
            | Some contents \<Rightarrow>
                if str_len contents > MAX_INCLUDE_BYTES then (files + 1, None)
                else (let (files', sub_blocks) = sub (files + 1) contents
                      in load_files E sub files' ps (blocks @ sub_blocks))))"

fun load_tokens :: "config_env \<Rightarrow> string \<Rightarrow> (nat \<Rightarrow> string \<Rightarrow> nat \<times> ssh_config) \<Rightarrow> nat
    \<Rightarrow> string list \<Rightarrow> host_block list \<Rightarrow> nat \<times> host_block list option" where
  "load_tokens E base sub files [] blocks = (files, Some blocks)"
| "load_tokens E base sub files (t # ts) blocks =
     (if dynamic_include t then (files, None)
      else
        let p = expand_tilde E t;
            p' = (if take 1 p = ''/'' then p else path_join base p) in
        (case ce_glob E p' of
           None \<Rightarrow> (files, None)
         | Some paths \<Rightarrow>
             (case load_files E sub files paths blocks of
                (files', None) \<Rightarrow> (files', None)
              | (files', Some blocks') \<Rightarrow> load_tokens E base sub files' ts blocks')))"

text \<open>
  The first argument is what is left of the depth budget, \<open>MAX_INCLUDE_DEPTH - depth\<close>: at
  zero the code refuses with an error, so the recursion is structural.
\<close>

primrec load_includes :: "nat \<Rightarrow> config_env \<Rightarrow> string \<Rightarrow> include_loader" where
  "load_includes 0 = (\<lambda>E base files rest. (files, None))"
| "load_includes (Suc left) = (\<lambda>E base files rest.
     (case include_paths rest of
        None \<Rightarrow> (files, None)
      | Some tokens \<Rightarrow>
          load_tokens E base (\<lambda>f contents. parse_with E (Some (load_includes left E base)) f contents)
            files tokens []))"

definition parse_at :: "config_env \<Rightarrow> string \<Rightarrow> string \<Rightarrow> ssh_config" where
  "parse_at E base contents =
     snd (parse_with E (Some (load_includes MAX_INCLUDE_DEPTH E base)) 0 contents)"

definition parse :: "config_env \<Rightarrow> string \<Rightarrow> ssh_config" where
  "parse E contents = snd (parse_with E None 0 contents)"

datatype read_outcome = ReadText string | ReadNotFound | ReadError

definition load_path :: "config_env \<Rightarrow> string \<Rightarrow> read_outcome \<Rightarrow> ssh_config" where
  "load_path E base oc =
     (case oc of
        ReadText contents \<Rightarrow> parse_at E base contents
      | ReadNotFound \<Rightarrow> []
      | ReadError \<Rightarrow> [(block_default [''*''])\<lparr>hb_diagnostics := [\<lparr>d_line = 0, d_kind = ReadFailureKind\<rparr>]\<rparr>])"

subsection \<open>Queries and resolution\<close>

definition contains_alias :: "ssh_config \<Rightarrow> string \<Rightarrow> bool" where
  "contains_alias cfg alias =
     (let name = (case rsplit_once (CHR ''@'') alias of Some (_, host) \<Rightarrow> host | None \<Rightarrow> alias)
      in \<exists>b\<in>set cfg. name \<in> set (hb_patterns b) \<and> block_matches b name)"

text \<open>\<open>user@host\<close> is split only when both parts are non-empty.\<close>

definition split_user_host :: "string \<Rightarrow> string option \<times> string" where
  "split_user_host alias =
     (case rsplit_once (CHR ''@'') alias of
        Some (user, host) \<Rightarrow> if user \<noteq> [] \<and> host \<noteq> [] then (Some user, host) else (None, alias)
      | None \<Rightarrow> (None, alias))"

definition diagnostics_for :: "ssh_config \<Rightarrow> string \<Rightarrow> diagnostic list" where
  "diagnostics_for cfg alias =
     (let host_key = snd (split_user_host alias)
      in concat (map hb_diagnostics (filter (\<lambda>b. block_matches b host_key) cfg)))"

definition is_connection_critical_directive :: "string \<Rightarrow> bool" where
  "is_connection_critical_directive d \<longleftrightarrow>
     d \<in> {''match'', ''include'', ''proxycommand'', ''proxyusefdpass'', ''canonicalizehostname'',
          ''canonicaldomains''}"

definition connection_error :: "diagnostic \<Rightarrow> config_error option" where
  "connection_error d =
     (case d_kind d of
        InvalidPortKind \<Rightarrow> Some (InvalidPort (d_line d))
      | ReadFailureKind \<Rightarrow> Some ReadFailure
      | IncludeFailureKind \<Rightarrow> Some (IncludeFailure (d_line d))
      | UnsupportedDirectiveKind directive \<Rightarrow>
          if is_connection_critical_directive directive
          then Some (UnsupportedDirective (d_line d) directive) else None)"

fun find_map :: "('a \<Rightarrow> 'b option) \<Rightarrow> 'a list \<Rightarrow> 'b option" where
  "find_map f [] = None"
| "find_map f (x # xs) = (case f x of Some y \<Rightarrow> Some y | None \<Rightarrow> find_map f xs)"

record resolve_state =
  rs_config :: host_config
  rs_hostname_set :: bool
  rs_port_set :: bool
  rs_user_set :: bool
  rs_proxy_jump_set :: bool
  rs_identity_agent_set :: bool

definition resolve_block :: "string \<Rightarrow> host_block \<Rightarrow> resolve_state \<Rightarrow> resolve_state" where
  "resolve_block host_key b s =
     (if \<not> block_matches b host_key then s
      else
        let c = rs_config s;
            c = (if hc_host_key_alias c = None then c\<lparr>hc_host_key_alias := hb_host_key_alias b\<rparr> else c);
            (c, hs) = (case hb_hostname b of
               Some h \<Rightarrow> if \<not> rs_hostname_set s then (c\<lparr>hc_hostname := h\<rparr>, True) else (c, rs_hostname_set s)
             | None \<Rightarrow> (c, rs_hostname_set s));
            (c, pts) = (case hb_port b of
               Some p \<Rightarrow> if \<not> rs_port_set s then (c\<lparr>hc_port := p\<rparr>, True) else (c, rs_port_set s)
             | None \<Rightarrow> (c, rs_port_set s));
            (c, us) = (case hb_user b of
               Some u \<Rightarrow> if \<not> rs_user_set s then (c\<lparr>hc_user := u\<rparr>, True) else (c, rs_user_set s)
             | None \<Rightarrow> (c, rs_user_set s));
            (c, js) = (case hb_proxy_jump b of
               Some j \<Rightarrow> if \<not> rs_proxy_jump_set s
                 then ((if eq_ignore_ascii_case j ''none'' then c else c\<lparr>hc_proxy_jump := Some j\<rparr>), True)
                 else (c, rs_proxy_jump_set s)
             | None \<Rightarrow> (c, rs_proxy_jump_set s));
            (c, as) = (case hb_identity_agent b of
               Some a \<Rightarrow> if \<not> rs_identity_agent_set s then (c\<lparr>hc_identity_agent := Some a\<rparr>, True)
                 else (c, rs_identity_agent_set s)
             | None \<Rightarrow> (c, rs_identity_agent_set s))
        in \<lparr>rs_config = c\<lparr>hc_identity_files := hc_identity_files c @ hb_identity_files b\<rparr>,
            rs_hostname_set = hs, rs_port_set = pts, rs_user_set = us, rs_proxy_jump_set = js,
            rs_identity_agent_set = as\<rparr>)"

definition resolve :: "config_env \<Rightarrow> ssh_config \<Rightarrow> string \<Rightarrow> host_config" where
  "resolve E cfg alias =
     (let (user_override, host_key) = split_user_host alias;
          start = \<lparr>rs_config = \<lparr>hc_alias = alias, hc_hostname = host_key, hc_host_key_alias = None,
                     hc_port = 22,
                     hc_user = (case user_override of Some u \<Rightarrow> u | None \<Rightarrow> ce_current_user E),
                     hc_identity_files = [], hc_proxy_jump = None, hc_identity_agent = None\<rparr>,
                   rs_hostname_set = False, rs_port_set = False,
                   rs_user_set = (user_override \<noteq> None), rs_proxy_jump_set = False,
                   rs_identity_agent_set = False\<rparr>
      in rs_config (fold (resolve_block host_key) cfg start))"

definition resolve_for_connection :: "config_env \<Rightarrow> ssh_config \<Rightarrow> string \<Rightarrow> config_error + host_config" where
  "resolve_for_connection E cfg alias =
     (case find_map connection_error (diagnostics_for cfg alias) of
        Some e \<Rightarrow> Inl e
      | None \<Rightarrow> Inr (resolve E cfg alias))"

text \<open>
  The concrete aliases a configuration lists: strings are ordered by their characters, as
  Rust orders \<open>String\<close>s.
\<close>

definition is_concrete :: "string \<Rightarrow> bool" where
  "is_concrete name \<longleftrightarrow> (\<forall>c\<in>set name. c \<notin> set ''*?![]'')"

definition aliases :: "ssh_config \<Rightarrow> string list" where
  "aliases cfg =
     filter (contains_alias cfg)
       (remdups_adj (sort (filter is_concrete
          (concat (map (\<lambda>b. takeWhile (\<lambda>name. take 1 name \<noteq> ''#'') (hb_patterns b)) cfg)))))"

subsection \<open>Patterns: what they mean\<close>

fun glob_lang :: "string \<Rightarrow> string set" where
  "glob_lang [] = {[]}"
| "glob_lang (c # ps) =
     (if c = CHR ''*'' then {u @ v | u v. v \<in> glob_lang ps}
      else if c = CHR ''?'' then {x # v | x v. v \<in> glob_lang ps}
      else {c # v | v. v \<in> glob_lang ps})"

lemma glob_match_lang: "glob_match p t \<longleftrightarrow> t \<in> glob_lang p"
proof (induction p t rule: glob_match.induct)
  case (1 t)
  then show ?case by simp
next
  case (2 c ps tx)
  show ?case
  proof (cases "c = CHR ''*''")
    case True
    have "tx \<in> glob_lang (c # ps) \<longleftrightarrow> tx \<in> glob_lang ps
        \<or> (\<exists>t ts. tx = t # ts \<and> ts \<in> glob_lang (c # ps))"
    proof
      assume "tx \<in> glob_lang (c # ps)"
      then obtain u v where "tx = u @ v" "v \<in> glob_lang ps" using True by auto
      then show "tx \<in> glob_lang ps \<or> (\<exists>t ts. tx = t # ts \<and> ts \<in> glob_lang (c # ps))"
        using True by (cases u) auto
    next
      assume "tx \<in> glob_lang ps \<or> (\<exists>t ts. tx = t # ts \<and> ts \<in> glob_lang (c # ps))"
      then show "tx \<in> glob_lang (c # ps)"
        using True by (auto intro: exI[of _ "[]"]) (metis append_Cons)
    qed
    with True 2 show ?thesis by (cases tx) auto
  next
    case False
    with 2 show ?thesis by (cases tx) auto
  qed
qed

lemma host_patterns_match_from_iff:
  "host_patterns_match_from m ps a \<longleftrightarrow>
     (m \<or> (\<exists>p\<in>set ps. take 1 p \<noteq> ''!'' \<and> glob_match p a))
     \<and> (\<forall>p\<in>set ps. take 1 p = ''!'' \<longrightarrow> \<not> glob_match (drop 1 p) a)"
  by (induction m ps a rule: host_patterns_match_from.induct)
    (auto simp: strip_prefix_def split: option.splits if_splits)

text \<open>
  Host patterns have their OpenSSH meaning: a pattern list matches a name exactly when
  some positive pattern's glob language contains it and no negated one's does, where \<open>*\<close>
  stands for any string, \<open>?\<close> for any one character and every other character for itself;
  the order of the patterns is irrelevant.
\<close>

theorem host_patterns_match_meaning:
  "host_patterns_match ps a \<longleftrightarrow>
     (\<exists>p\<in>set ps. take 1 p \<noteq> ''!'' \<and> a \<in> glob_lang p)
     \<and> (\<forall>q. CHR ''!'' # q \<in> set ps \<longrightarrow> a \<notin> glob_lang q)"
proof -
  have "(\<forall>p\<in>set ps. take 1 p = ''!'' \<longrightarrow> \<not> glob_match (drop 1 p) a)
      \<longleftrightarrow> (\<forall>q. CHR ''!'' # q \<in> set ps \<longrightarrow> a \<notin> glob_lang q)"
  proof (intro iffI allI impI ballI)
    fix q assume "\<forall>p\<in>set ps. take 1 p = ''!'' \<longrightarrow> \<not> glob_match (drop 1 p) a" "CHR ''!'' # q \<in> set ps"
    then show "a \<notin> glob_lang q" using glob_match_lang by fastforce
  next
    fix p assume "\<forall>q. CHR ''!'' # q \<in> set ps \<longrightarrow> a \<notin> glob_lang q" "p \<in> set ps" "take 1 p = ''!''"
    then show "\<not> glob_match (drop 1 p) a" by (cases p) (auto simp: glob_match_lang)
  qed
  then show ?thesis
    by (simp add: host_patterns_match_def host_patterns_match_from_iff glob_match_lang)
qed

theorem host_patterns_match_meaning_witness:
  "host_patterns_match [''*.example.com'', ''!bad.*''] ''web.example.com''
   \<and> \<not> host_patterns_match [''*.example.com'', ''!bad.*''] ''bad.example.com''
   \<and> (host_patterns_match [''*''] ''x'' \<longleftrightarrow>
     (\<exists>p\<in>set [''*'']. take 1 p \<noteq> ''!'' \<and> ''x'' \<in> glob_lang p)
     \<and> (\<forall>q. CHR ''!'' # q \<in> set [''*''] \<longrightarrow> ''x'' \<notin> glob_lang q))"
proof (intro conjI)
  show "host_patterns_match [''*.example.com'', ''!bad.*''] ''web.example.com''" by code_simp
  show "\<not> host_patterns_match [''*.example.com'', ''!bad.*''] ''bad.example.com''" by code_simp
qed (rule host_patterns_match_meaning)

subsection \<open>First value wins\<close>

lemma find_map_append:
  "find_map f (xs @ ys) = (case find_map f xs of Some y \<Rightarrow> Some y | None \<Rightarrow> find_map f ys)"
  by (induction xs) (auto split: option.splits)

lemma find_map_None: "find_map f xs = None \<longleftrightarrow> (\<forall>x\<in>set xs. f x = None)"
  by (induction xs) (auto split: option.splits)

lemma find_map_SomeD: "find_map f xs = Some y \<Longrightarrow> \<exists>x\<in>set xs. f x = Some y"
  by (induction xs) (auto split: option.splits)

definition resolved :: "config_env \<Rightarrow> string \<Rightarrow> host_block list \<Rightarrow> host_config" where
  "resolved E alias ms =
     (let (uo, hk) = split_user_host alias in
      \<lparr>hc_alias = alias,
       hc_hostname = (case find_map hb_hostname ms of Some h \<Rightarrow> h | None \<Rightarrow> hk),
       hc_host_key_alias = find_map hb_host_key_alias ms,
       hc_port = (case find_map hb_port ms of Some p \<Rightarrow> p | None \<Rightarrow> 22),
       hc_user = (case uo of Some u \<Rightarrow> u
                  | None \<Rightarrow> (case find_map hb_user ms of Some u \<Rightarrow> u | None \<Rightarrow> ce_current_user E)),
       hc_identity_files = concat (map hb_identity_files ms),
       hc_proxy_jump = (case find_map hb_proxy_jump ms of
          Some j \<Rightarrow> if eq_ignore_ascii_case j ''none'' then None else Some j | None \<Rightarrow> None),
       hc_identity_agent = find_map hb_identity_agent ms\<rparr>)"

definition resolve_inv :: "config_env \<Rightarrow> string \<Rightarrow> host_block list \<Rightarrow> resolve_state \<Rightarrow> bool" where
  "resolve_inv E alias ms s \<longleftrightarrow>
     rs_config s = resolved E alias ms
     \<and> rs_hostname_set s = (find_map hb_hostname ms \<noteq> None)
     \<and> rs_port_set s = (find_map hb_port ms \<noteq> None)
     \<and> rs_user_set s = (fst (split_user_host alias) \<noteq> None \<or> find_map hb_user ms \<noteq> None)
     \<and> rs_proxy_jump_set s = (find_map hb_proxy_jump ms \<noteq> None)
     \<and> rs_identity_agent_set s = (find_map hb_identity_agent ms \<noteq> None)"

lemma resolve_block_fields:
  assumes "block_matches b hk"
  shows "hc_alias (rs_config (resolve_block hk b s)) = hc_alias (rs_config s)"
    and "hc_hostname (rs_config (resolve_block hk b s)) =
      (case hb_hostname b of Some h \<Rightarrow> if rs_hostname_set s then hc_hostname (rs_config s) else h
       | None \<Rightarrow> hc_hostname (rs_config s))"
    and "hc_host_key_alias (rs_config (resolve_block hk b s)) =
      (case hc_host_key_alias (rs_config s) of Some k \<Rightarrow> Some k | None \<Rightarrow> hb_host_key_alias b)"
    and "hc_port (rs_config (resolve_block hk b s)) =
      (case hb_port b of Some h \<Rightarrow> if rs_port_set s then hc_port (rs_config s) else h
       | None \<Rightarrow> hc_port (rs_config s))"
    and "hc_user (rs_config (resolve_block hk b s)) =
      (case hb_user b of Some h \<Rightarrow> if rs_user_set s then hc_user (rs_config s) else h
       | None \<Rightarrow> hc_user (rs_config s))"
    and "hc_identity_files (rs_config (resolve_block hk b s)) =
      hc_identity_files (rs_config s) @ hb_identity_files b"
    and "hc_proxy_jump (rs_config (resolve_block hk b s)) =
      (case hb_proxy_jump b of
         Some j \<Rightarrow> if rs_proxy_jump_set s \<or> eq_ignore_ascii_case j ''none''
                   then hc_proxy_jump (rs_config s) else Some j
       | None \<Rightarrow> hc_proxy_jump (rs_config s))"
    and "hc_identity_agent (rs_config (resolve_block hk b s)) =
      (case hb_identity_agent b of
         Some j \<Rightarrow> if rs_identity_agent_set s then hc_identity_agent (rs_config s) else Some j
       | None \<Rightarrow> hc_identity_agent (rs_config s))"
    and "rs_hostname_set (resolve_block hk b s) = (rs_hostname_set s \<or> hb_hostname b \<noteq> None)"
    and "rs_port_set (resolve_block hk b s) = (rs_port_set s \<or> hb_port b \<noteq> None)"
    and "rs_user_set (resolve_block hk b s) = (rs_user_set s \<or> hb_user b \<noteq> None)"
    and "rs_proxy_jump_set (resolve_block hk b s) = (rs_proxy_jump_set s \<or> hb_proxy_jump b \<noteq> None)"
    and "rs_identity_agent_set (resolve_block hk b s) =
      (rs_identity_agent_set s \<or> hb_identity_agent b \<noteq> None)"
  using assms
  by (simp_all add: resolve_block_def Let_def split_def split: option.split)

lemma resolved_fields:
  "hc_alias (resolved E alias ms) = alias"
  "hc_hostname (resolved E alias ms) = (case find_map hb_hostname ms of Some h \<Rightarrow> h
     | None \<Rightarrow> snd (split_user_host alias))"
  "hc_host_key_alias (resolved E alias ms) = find_map hb_host_key_alias ms"
  "hc_port (resolved E alias ms) = (case find_map hb_port ms of Some p \<Rightarrow> p | None \<Rightarrow> 22)"
  "hc_user (resolved E alias ms) = (case fst (split_user_host alias) of Some u \<Rightarrow> u
     | None \<Rightarrow> (case find_map hb_user ms of Some u \<Rightarrow> u | None \<Rightarrow> ce_current_user E))"
  "hc_identity_files (resolved E alias ms) = concat (map hb_identity_files ms)"
  "hc_proxy_jump (resolved E alias ms) = (case find_map hb_proxy_jump ms of
     Some j \<Rightarrow> if eq_ignore_ascii_case j ''none'' then None else Some j | None \<Rightarrow> None)"
  "hc_identity_agent (resolved E alias ms) = find_map hb_identity_agent ms"
  by (simp_all add: resolved_def split_def Let_def)

lemma resolve_inv_step:
  assumes "resolve_inv E alias ms s" and "block_matches b hk"
  shows "resolve_inv E alias (ms @ [b]) (resolve_block hk b s)"
proof -
  note a = assms(1)[unfolded resolve_inv_def]
  note f = resolve_block_fields[OF assms(2), of s]
  have "rs_config (resolve_block hk b s) = resolved E alias (ms @ [b])"
    by (rule host_config.equality)
      (use a in \<open>auto simp: f resolved_fields find_map_append split: option.splits\<close>)
  then show ?thesis
    using a by (auto simp: resolve_inv_def f find_map_append split: option.splits)
qed

lemma resolve_inv_fold:
  "resolve_inv E alias ms s \<Longrightarrow>
     resolve_inv E alias (ms @ filter (\<lambda>b. block_matches b hk) cfg) (fold (resolve_block hk) cfg s)"
proof (induction cfg arbitrary: ms s)
  case (Cons b cfg)
  show ?case
  proof (cases "block_matches b hk")
    case True
    from Cons.IH[OF resolve_inv_step[OF Cons.prems True]] True show ?thesis by simp
  next
    case False
    then have "resolve_block hk b s = s" by (simp add: resolve_block_def)
    with Cons False show ?thesis by simp
  qed
qed simp

lemma resolve_eq_resolved:
  "resolve E cfg alias
     = resolved E alias (filter (\<lambda>b. block_matches b (snd (split_user_host alias))) cfg)"
proof -
  obtain uo hk where u: "split_user_host alias = (uo, hk)" by (cases "split_user_host alias")
  let ?start = "\<lparr>rs_config = \<lparr>hc_alias = alias, hc_hostname = hk, hc_host_key_alias = None,
                     hc_port = 22,
                     hc_user = (case uo of Some u \<Rightarrow> u | None \<Rightarrow> ce_current_user E),
                     hc_identity_files = [], hc_proxy_jump = None, hc_identity_agent = None\<rparr>,
                   rs_hostname_set = False, rs_port_set = False,
                   rs_user_set = (uo \<noteq> None), rs_proxy_jump_set = False,
                   rs_identity_agent_set = False\<rparr>"
  have "resolve_inv E alias [] ?start" by (simp add: resolve_inv_def resolved_def u split: option.split)
  from resolve_inv_fold[OF this, of hk cfg] show ?thesis
    by (simp add: resolve_def u resolve_inv_def)
qed

lemma resolve_alias [simp]: "hc_alias (resolve E cfg alias) = alias"
  by (simp add: resolve_eq_resolved resolved_fields)

text \<open>
  Resolution is OpenSSH's first-value-wins over the matching blocks, in file order: host
  name, port, user, host-key alias, jump and agent are each the first value any matching block
  gives (the user of \<open>user@host\<close> before all, \<open>none\<close> cancelling a jump), identity files are
  collected from all of them, and the defaults are the alias itself, port 22 and the local user.
\<close>

theorem resolve_first_value_wins:
  "resolve E cfg alias
     = resolved E alias (filter (\<lambda>b. block_matches b (snd (split_user_host alias))) cfg)"
  by (rule resolve_eq_resolved)

subsection \<open>Fail-closed diagnostics\<close>

definition is_match_line :: "string \<Rightarrow> bool" where
  "is_match_line raw \<longleftrightarrow>
     trim raw \<noteq> [] \<and> take 1 (trim raw) \<noteq> ''#''
     \<and> (case split_directive (trim raw) of Some (d, _) \<Rightarrow> to_ascii_lowercase d = ''match'' | None \<Rightarrow> False)"

definition match_diag :: "host_block \<Rightarrow> bool" where
  "match_diag b \<longleftrightarrow> (\<exists>d\<in>set (hb_diagnostics b). d_kind d = UnsupportedDirectiveKind ''match'')"

text \<open>The first block of a parse stays the unguarded \<open>Host *\<close>; once barred it stays barred.\<close>

definition global_block :: "bool \<Rightarrow> parse_state \<Rightarrow> bool" where
  "global_block barred st \<longleftrightarrow>
     (\<exists>b bs. ps_blocks st = b # bs \<and> hb_patterns b = [''*''] \<and> hb_include_guards b = []
        \<and> (barred \<longrightarrow> match_diag b))"

lemma global_block_flush: "global_block m st \<Longrightarrow> global_block m (flush_current st)"
  by (auto simp: global_block_def flush_current_def split: option.splits)

lemma directive_update_keeps:
  "hb_patterns (directive_update E n d r b) = hb_patterns b
   \<and> hb_include_guards (directive_update E n d r b) = hb_include_guards b
   \<and> set (hb_diagnostics b) \<subseteq> set (hb_diagnostics (directive_update E n d r b))"
  by (auto simp: directive_update_def add_diagnostic_def split: option.splits)

lemma global_block_update:
  assumes "global_block m st"
  shows "global_block m (with_current_or_global (directive_update E n d r) st)"
proof (cases "ps_current st")
  case None
  obtain b bs where b: "ps_blocks st = b # bs" "hb_patterns b = [''*'']" "hb_include_guards b = []"
    "m \<longrightarrow> match_diag b"
    using assms by (auto simp: global_block_def)
  moreover have "match_diag b \<Longrightarrow> match_diag (directive_update E n d r b)"
    using directive_update_keeps[where E = E and n = n and d = d and r = r and b = b]
    by (auto simp: match_diag_def)
  ultimately show ?thesis
    using None directive_update_keeps by (auto simp: global_block_def with_current_or_global_def)
next
  case (Some c)
  with assms show ?thesis by (simp add: global_block_def with_current_or_global_def)
qed

lemma global_block_include: "global_block m st \<Longrightarrow> global_block m (include_step ld n r st)"
  by (auto simp: global_block_def include_step_def Let_def split: prod.splits option.splits)

lemma global_block_line:
  assumes "global_block m st"
  shows "global_block (m \<or> is_match_line raw) (parse_line E inc (n, raw) st)"
proof -
  let ?line = "trim raw"
  have keep: "global_block m st' \<Longrightarrow> \<not> is_match_line raw \<Longrightarrow> global_block (m \<or> is_match_line raw) st'" for st'
    by simp
  show ?thesis
  proof (cases "?line = [] \<or> take 1 ?line = ''#''")
    case True
    with assms keep show ?thesis by (auto simp: parse_line_def is_match_line_def Let_def)
  next
    case False
    show ?thesis
    proof (cases "split_directive ?line")
      case None
      with False assms keep show ?thesis by (auto simp: parse_line_def is_match_line_def Let_def)
    next
      case (Some dr)
      obtain d r where dr: "dr = (d, r)" by (cases dr)
      show ?thesis
      proof (cases "to_ascii_lowercase d = ''match''")
        case True
        have "global_block m (flush_current st)" using assms by (rule global_block_flush)
        then show ?thesis
          using False Some dr True
          by (auto simp: parse_line_def Let_def global_block_def add_diagnostic_def match_diag_def)
      next
        case nm: False
        then have no: "\<not> is_match_line raw" using Some dr by (auto simp: is_match_line_def)
        have "global_block m (parse_line E inc (n, raw) st)"
        proof (cases "to_ascii_lowercase d = ''host''")
          case True
          then show ?thesis using False Some dr nm global_block_flush[OF assms]
            by (auto simp: parse_line_def Let_def global_block_def)
        next
          case nh: False
          then show ?thesis
            using False Some dr nm assms global_block_update[OF assms] global_block_include[OF assms]
            by (auto simp: parse_line_def Let_def split: option.splits)
        qed
        with no show ?thesis by simp
      qed
    qed
  qed
qed

lemma global_block_fold:
  "global_block m st \<Longrightarrow>
     global_block (m \<or> (\<exists>(n, raw)\<in>set ls. is_match_line raw)) (fold (parse_line E inc) ls st)"
proof (induction ls arbitrary: m st)
  case (Cons l ls)
  obtain n raw where l: "l = (n, raw)" by (cases l)
  from Cons.IH[OF global_block_line[OF Cons.prems, of raw E inc n]] show ?case
    by (simp add: l disj_assoc)
qed simp

lemma star_matches: "host_patterns_match [''*''] a"
proof -
  have "a \<in> glob_lang ''*''" by simp
  then have "glob_match ''*'' a" by (simp only: glob_match_lang)
  then show ?thesis by (simp add: host_patterns_match_def host_patterns_match_from_iff)
qed

text \<open>
  A \<open>Match\<close> directive fails closed: if any line of a configuration file is a \<open>Match\<close>
  directive, in any letter case and position, resolving any alias from that file for a
  connection is refused with an error, whatever else the file or its includes say.
\<close>

theorem match_directive_fails_closed:
  assumes "raw \<in> set (str_lines contents)" and "is_match_line raw"
  shows "\<exists>e. resolve_for_connection E (parse_at E base contents) alias = Inl e"
proof -
  let ?st = "flush_current (fold (parse_line E (Some (load_includes MAX_INCLUDE_DEPTH E base)))
      (numbered_lines contents) (parse_start 0))"
  have "snd ` set (numbered_lines contents) = set (str_lines contents)"
    by (simp add: numbered_lines_def Let_def set_map[symmetric] del: set_map upt_Suc)
  with assms have "\<exists>(n, raw)\<in>set (numbered_lines contents). is_match_line raw" by force
  moreover have "global_block False (parse_start 0)"
    by (simp add: global_block_def parse_start_def block_default_def)
  ultimately have "global_block True ?st"
    using global_block_flush[OF global_block_fold, of False "parse_start 0"
      "numbered_lines contents" E "Some (load_includes MAX_INCLUDE_DEPTH E base)"] by simp
  then obtain b bs where b: "parse_at E base contents = b # bs" "hb_patterns b = [''*'']"
    "hb_include_guards b = []" "match_diag b"
    by (auto simp: global_block_def parse_at_def parse_with_def Let_def)
  have "block_matches b (snd (split_user_host alias))"
    by (simp add: block_matches_def b star_matches)
  then obtain d where "d \<in> set (diagnostics_for (parse_at E base contents) alias)"
    "d_kind d = UnsupportedDirectiveKind ''match''"
    using b by (auto simp: diagnostics_for_def match_diag_def)
  moreover from this(2) have "connection_error d \<noteq> None"
    by (simp add: connection_error_def is_connection_critical_directive_def)
  ultimately have "find_map connection_error (diagnostics_for (parse_at E base contents) alias) \<noteq> None"
    by (metis find_map_None)
  then show ?thesis by (auto simp: resolve_for_connection_def)
qed

definition demo_config_env :: config_env where
  "demo_config_env = \<lparr>ce_home = ''/home/u'', ce_current_user = ''u'', ce_glob = (\<lambda>_. Some []),
     ce_is_file = (\<lambda>_. None), ce_read = (\<lambda>_. None)\<rparr>"

theorem match_directive_fails_closed_witness:
  "\<exists>e. resolve_for_connection demo_config_env
     (parse_at demo_config_env ''/home/u/.ssh'' (''Host web'' @ [LF] @ '' Match all'' @ [LF])) ''web'' = Inl e"
proof (rule match_directive_fails_closed)
  show "'' Match all'' \<in> set (str_lines (''Host web'' @ [LF] @ '' Match all'' @ [LF]))" by code_simp
  show "is_match_line '' Match all''" by code_simp
qed

end
