(* ===== verification/Procs.thy ===== *)
theory Procs
  imports Text
begin

text \<open>
  Process ancestry (\<open>src/src/procs/mod.rs\<close>): the display name of a process and the walk from a
  process to its ancestors that lease anchoring rests on. The platform's lookups
  (\<open>ProcessInfo\<close>) are the record \<open>process_table\<close>, one consistent snapshot per walk.
\<close>

record process_table =
  pt_parent :: "nat \<Rightarrow> nat option"
  pt_start :: "nat \<Rightarrow> nat option"
  pt_comm :: "nat \<Rightarrow> string option"
  pt_exe_path :: "nat \<Rightarrow> string option"
  pt_argv0 :: "nat \<Rightarrow> string option"

record ancestor_info =
  ai_pid :: nat
  ai_start_time :: nat
  ai_exe_basename :: "string option"
  ai_exe_path_basename :: "string option"
  ai_argv0_basename :: "string option"

definition is_ascii_digit :: "char \<Rightarrow> bool" where
  "is_ascii_digit c \<longleftrightarrow> code CHR ''0'' \<le> code c \<and> code c \<le> code CHR ''9''"

definition looks_like_version_string :: "string \<Rightarrow> bool" where
  "looks_like_version_string s \<longleftrightarrow> s \<noteq> [] \<and> list_all (\<lambda>c. is_ascii_digit c \<or> c = CHR ''.'') s"

definition pick_display_name :: "string option \<Rightarrow> string option \<Rightarrow> string option \<Rightarrow> string option" where
  "pick_display_name comm exe_path argv0 =
     (let signals = List.map_filter id [comm, exe_path, argv0] in
      case find (\<lambda>s. \<not> looks_like_version_string s) signals of
        Some s \<Rightarrow> Some s
      | None \<Rightarrow> (case signals of [] \<Rightarrow> None | s # _ \<Rightarrow> Some s))"

definition ancestor_of :: "process_table \<Rightarrow> nat \<Rightarrow> nat \<Rightarrow> ancestor_info" where
  "ancestor_of P pid start =
     \<lparr>ai_pid = pid, ai_start_time = start, ai_exe_basename = pt_comm P pid,
      ai_exe_path_basename = pt_exe_path P pid, ai_argv0_basename = pt_argv0 P pid\<rparr>"

text \<open>The loop; \<open>None\<close> is not returning.\<close>

partial_function (option) walk_ancestors :: "process_table \<Rightarrow> nat \<Rightarrow> nat \<Rightarrow> ancestor_info list option" where
  [code]: "walk_ancestors P current_pid current_start =
     (case pt_parent P current_pid of
        None \<Rightarrow> Some []
      | Some parent_pid \<Rightarrow>
          if parent_pid = 0 \<or> parent_pid = current_pid then Some []
          else (case pt_start P parent_pid of
                  None \<Rightarrow> Some []
                | Some parent_start \<Rightarrow>
                    if parent_start > current_start then Some []
                    else Option.bind (walk_ancestors P parent_pid parent_start)
                           (\<lambda>rest. Some (ancestor_of P parent_pid parent_start # rest))))"

definition ancestry_chain :: "process_table \<Rightarrow> nat \<Rightarrow> ancestor_info list option" where
  "ancestry_chain P pid =
     (case pt_start P pid of
        None \<Rightarrow> Some []
      | Some start \<Rightarrow>
          (case walk_ancestors P pid start of
             None \<Rightarrow> None | Some rest \<Rightarrow> Some (ancestor_of P pid start # rest)))"

text \<open>
  \<open>system_time_from_ticks\<close>: nanoseconds since the epoch of a start time in clock ticks after
  boot; \<open>limit\<close> is the largest representable time.
\<close>

definition system_time_from_ticks :: "nat \<Rightarrow> nat \<Rightarrow> nat \<Rightarrow> nat \<Rightarrow> nat option" where
  "system_time_from_ticks limit boot ticks_since_boot ticks_per_sec =
     (if ticks_per_sec = 0 then None
      else
        let whole_secs = ticks_since_boot div ticks_per_sec;
            remaining_ticks = ticks_since_boot mod ticks_per_sec;
            nanos = (remaining_ticks * 1000000000 div ticks_per_sec) mod 2 ^ 64;
            t = boot + from_secs whole_secs
        in if t > limit then None else if t + nanos > limit then None else Some (t + nanos))"

subsection \<open>What a chain contains\<close>

text \<open>\<open>parent_link\<close>: \<open>b\<close> is the live parent of \<open>a\<close>, not younger than it.\<close>

definition parent_link :: "process_table \<Rightarrow> ancestor_info \<Rightarrow> ancestor_info \<Rightarrow> bool" where
  "parent_link P a b \<longleftrightarrow> pt_parent P (ai_pid a) = Some (ai_pid b) \<and> ai_start_time b \<le> ai_start_time a"

definition live :: "process_table \<Rightarrow> ancestor_info \<Rightarrow> bool" where
  "live P a \<longleftrightarrow> pt_start P (ai_pid a) = Some (ai_start_time a)"

lemma walk_ancestors_links:
  "walk_ancestors P pid start = Some rest \<Longrightarrow>
     successively (parent_link P) (ancestor_of P pid start # rest) \<and> (\<forall>a\<in>set rest. live P a)"
proof (induction rest arbitrary: pid start)
  case (Cons a rest)
  then obtain q qs where q: "pt_parent P pid = Some q" "pt_start P q = Some qs" "qs \<le> start"
    "walk_ancestors P q qs = Some rest" "a = ancestor_of P q qs"
    by (subst (asm) (2) walk_ancestors.simps)
      (auto split: option.splits if_splits bind_splits)
  from Cons.IH[OF q(4)] q show ?case by (auto simp: parent_link_def live_def ancestor_of_def)
qed simp

text \<open>
  An ancestry chain is genuine: it starts with the process asked for, every entry is a
  process alive in the snapshot with exactly the recorded start time, each is the parent of
  the one before it, and start times never increase, so a recycled PID that claims to be an
  ancestor but is younger than its child never enters a chain.
\<close>

theorem ancestry_chain_genuine:
  assumes "ancestry_chain P pid = Some chain" and "chain \<noteq> []"
  shows "ai_pid (hd chain) = pid \<and> (\<forall>a\<in>set chain. live P a) \<and> successively (parent_link P) chain
    \<and> sorted (rev (map ai_start_time chain))"
proof -
  obtain start rest where r: "pt_start P pid = Some start" "walk_ancestors P pid start = Some rest"
    "chain = ancestor_of P pid start # rest"
    using assms by (auto simp: ancestry_chain_def split: option.splits)
  have "successively (parent_link P) chain" using walk_ancestors_links[OF r(2)] r(3) by simp
  moreover from this have "sorted (rev (map ai_start_time chain))"
    by (induction chain rule: induct_list012) (auto simp: parent_link_def sorted_append)
  ultimately show ?thesis
    using walk_ancestors_links[OF r(2)] r by (auto simp: live_def ancestor_of_def)
qed

text \<open>
  The walk ends on every process table whose parent links cannot be followed forever: if
  a rank decreases from a process to its parent, every chain is computed, and it is no
  longer than the rank allows.
\<close>

theorem ancestry_walk_ends:
  assumes "\<And>p q. pt_parent P p = Some q \<Longrightarrow> q \<noteq> 0 \<Longrightarrow> q \<noteq> p \<Longrightarrow> rank q < (rank p :: nat)"
  shows "\<exists>chain. ancestry_chain P pid = Some chain \<and> length chain \<le> Suc (rank pid)"
proof -
  have "\<exists>rest. walk_ancestors P pid start = Some rest \<and> length rest \<le> rank pid" for start
  proof (induction "rank pid" arbitrary: pid start rule: less_induct)
    case less
    show ?case
    proof (cases "pt_parent P pid")
      case None
      then show ?thesis by (simp add: walk_ancestors.simps)
    next
      case (Some q)
      show ?thesis
      proof (cases "q = 0 \<or> q = pid")
        case True
        with Some show ?thesis by (auto simp: walk_ancestors.simps)
      next
        case False
        then have lt: "rank q < rank pid" using assms[OF Some] by simp
        have "\<exists>rest. walk_ancestors P q qs = Some rest \<and> length rest \<le> rank q" for qs
          by (rule less[OF lt])
        then obtain rest where "\<And>qs. walk_ancestors P q qs = Some (rest qs) \<and> length (rest qs) \<le> rank q"
          by metis
        then show ?thesis
          using Some False lt
          by (subst walk_ancestors.simps) (auto split: option.splits intro: order_trans[OF _ Suc_leI[OF lt]])
      qed
    qed
  qed
  then obtain rest where r: "\<And>start. walk_ancestors P pid start = Some (rest start)"
    "\<And>start. length (rest start) \<le> rank pid"
    by metis
  show ?thesis
    by (cases "pt_start P pid") (use r in \<open>simp_all add: ancestry_chain_def\<close>)
qed

definition demo_processes :: process_table where
  "demo_processes =
     \<lparr>pt_parent = (\<lambda>p. if p = 40 then Some 30 else if p = 30 then Some 20 else if p = 20 then Some 1 else None),
      pt_start = (\<lambda>p. if p = 40 then Some 400 else if p = 30 then Some 300 else if p = 20 then Some 350
                      else if p = 1 then Some 1 else None),
      pt_comm = (\<lambda>p. if p = 40 then Some ''sloosh'' else if p = 30 then Some ''claude'' else None),
      pt_exe_path = (\<lambda>_. None), pt_argv0 = (\<lambda>_. None)\<rparr>"

lemma demo_ancestry:
  "ancestry_chain demo_processes 40 = Some [ancestor_of demo_processes 40 400, ancestor_of demo_processes 30 300]"
  by code_simp

theorem ancestry_chain_genuine_witness:
  "ai_pid (hd [ancestor_of demo_processes 40 400, ancestor_of demo_processes 30 300]) = 40
   \<and> live demo_processes (ancestor_of demo_processes 30 300)"
  using ancestry_chain_genuine[OF demo_ancestry] by simp

theorem ancestry_walk_ends_witness:
  "\<exists>chain. ancestry_chain demo_processes 40 = Some chain \<and> length chain \<le> Suc 40"
  by (rule ancestry_walk_ends[where rank = "\<lambda>p. p"]) (auto simp: demo_processes_def split: if_splits)

end
