(* ===== verification/Routes.thy ===== *)
theory Routes
  imports Config Vault
begin

text \<open>
  Routes (\<open>src/src/daemon/ssh.rs\<close>): which endpoint and credentials an alias stands for, the
  expansion of \<open>ProxyJump\<close> chains, the lease scope and the host-key confirmation order built
  from it, and the order in which a connection dials its chain.

  An expansion runs over one snapshot of the configuration and the vault: its resolver is a
  function of the alias. The network and the SSH sessions are the record \<open>dial_env\<close>.
\<close>

definition MAX_PROXY_JUMP_HOPS :: nat where "MAX_PROXY_JUMP_HOPS = 8"

text \<open>\<open>AgentAuthFailure\<close>, and the advice of \<open>key_file_agent_error\<close>, one constructor per message.\<close>

datatype agent_failure =
    AgentOff | AgentUnavailable | AgentQueryFailed | NoMatchingIdentity | AgentRejected | SigningFailed

datatype agent_advice =
    PasteAgain
  | LoadInto string string
  | CheckSocket string
  | NoSocket
  | CheckAuthorized
  | CheckPrompt
  | EnableAgent

datatype ssh_error =
    SshVaultLocked | SshVault vault_error | SshConfig config_error
  | HostResolution string | ConnectRefused string nat | ConnectTimeout string nat | ConnectFailed string nat
  | Handshake string nat | ProxyTunnel string nat
  | UnknownHostKey string nat | HostKeyMismatch string nat nat | HostKeyStateChanged | HostKeyNotReplaceable
  | UnsafeKnownHosts string | KnownHostsTooLarge | KnownHostsUnreadable
  | EncryptedIdentity string | UnsafeRsaIdentity string | KeyFileLoad string | KeyFileTooLarge string
  | KeyFilePublicIdentityUnavailable string
  | KeyFileAgent string agent_failure agent_advice
  | AuthFailed string | SystemAgentAuthRequired string
  | ProxyJumpTooDeep nat | ProxyJumpCycle string | JumpHostLeaseRequired string string
  | Russh

subsection \<open>Resolving an alias\<close>

record resolved_host =
  rh_config :: host_config
  rh_auth :: "auth_method option"

abbreviation rh_alias :: "resolved_host \<Rightarrow> string" where "rh_alias h \<equiv> hc_alias (rh_config h)"

definition known_host_endpoint :: "host_config \<Rightarrow> string \<times> nat" where
  "known_host_endpoint c =
     (case hc_host_key_alias c of Some alias \<Rightarrow> (alias, 22) | None \<Rightarrow> (hc_hostname c, hc_port c))"

text \<open>What one resolution consults: the configuration, the vault and its unlock.\<close>

record route_env =
  re_config :: ssh_config
  re_config_env :: config_env
  re_vault_ext :: vault_ext
  re_vault_io :: vault_io
  re_idle :: nat
  re_start :: instant
  re_bypass :: bool
  re_keychain :: "string + bytes"

definition config_host :: "route_env \<Rightarrow> string \<Rightarrow> ssh_error + resolved_host" where
  "config_host E alias =
     (case resolve_for_connection (re_config_env E) (re_config E) alias of
        Inl e \<Rightarrow> Inl (SshConfig e)
      | Inr c \<Rightarrow> Inr \<lparr>rh_config = c, rh_auth = None\<rparr>)"

definition route_proxy_jump :: "host_route \<Rightarrow> string option" where
  "route_proxy_jump route =
     (case route of Direct \<Rightarrow> None | ManagedHost alias \<Rightarrow> Some alias | ProxyJump spec \<Rightarrow> Some spec)"

definition vault_host :: "route_env \<Rightarrow> string \<Rightarrow> host_entry \<Rightarrow> resolved_host" where
  "vault_host E alias entry =
     \<lparr>rh_config = \<lparr>hc_alias = alias, hc_hostname = he_hostname entry, hc_host_key_alias = None,
        hc_port = (case he_port entry of Some p \<Rightarrow> p | None \<Rightarrow> 22),
        hc_user = (case he_user entry of Some u \<Rightarrow> u | None \<Rightarrow> ce_current_user (re_config_env E)),
        hc_identity_files = [], hc_proxy_jump = route_proxy_jump (he_route entry),
        hc_identity_agent = None\<rparr>,
      rh_auth = Some (he_auth entry)\<rparr>"

definition resolve_host_config ::
  "route_env \<Rightarrow> string \<Rightarrow> vault_world \<Rightarrow> (ssh_error + resolved_host) \<times> vault_world" where
  "resolve_host_config E alias w =
     (if contains_alias (re_config E) alias then (config_host E alias, w)
      else (case ensure_bypass_unlocked (re_vault_ext E) (re_idle E) (re_vault_io E) (re_start E)
                   (re_bypass E) (re_keychain E) w of
              (Inl e, w) \<Rightarrow> (Inl (SshVault e), w)
            | (Inr _, w) \<Rightarrow>
                (case lookup_entry (re_idle E) (vi_now (re_vault_io E)) (vw_disk w \<noteq> None) alias (vw_cache w) of
                   (answer, guard) \<Rightarrow>
                     ((case answer of
                         Locked \<Rightarrow> Inl SshVaultLocked
                       | Absent \<Rightarrow> config_host E alias
                       | Entry entry \<Rightarrow> Inr (vault_host E alias entry)),
                      w\<lparr>vw_cache := guard\<rparr>))))"

type_synonym resolver = "string \<Rightarrow> ssh_error + resolved_host"

definition snapshot_resolver :: "route_env \<Rightarrow> vault_world \<Rightarrow> resolver" where
  "snapshot_resolver E w alias = fst (resolve_host_config E alias w)"

subsection \<open>Expanding a \<open>ProxyJump\<close> specification\<close>

definition parse_proxy_jump_alias :: "string \<Rightarrow> string" where
  "parse_proxy_jump_alias spec =
     (let after_user = (case rsplit_once (CHR ''@'') spec of Some (_, h) \<Rightarrow> h | None \<Rightarrow> spec)
      in case split_once (CHR '':'') after_user of Some (h, _) \<Rightarrow> h | None \<Rightarrow> after_user)"

definition apply_proxy_jump_overrides :: "string \<Rightarrow> resolved_host \<Rightarrow> resolved_host" where
  "apply_proxy_jump_overrides spec h =
     (let (user_part, host_part) = (case rsplit_once (CHR ''@'') spec of
             Some (u, r) \<Rightarrow> (Some u, r) | None \<Rightarrow> (None, spec));
          c = rh_config h;
          c = (case user_part of Some u \<Rightarrow> c\<lparr>hc_user := u\<rparr> | None \<Rightarrow> c);
          c = (case split_once (CHR '':'') host_part of
                 Some (_, port_str) \<Rightarrow> (case parse_u16 port_str of Some p \<Rightarrow> c\<lparr>hc_port := p\<rparr> | None \<Rightarrow> c)
               | None \<Rightarrow> c)
      in h\<lparr>rh_config := c\<rparr>)"

definition proxy_jump_entries :: "string \<Rightarrow> string list" where
  "proxy_jump_entries spec = filter (\<lambda>s. s \<noteq> []) (map trim (split_on (CHR '','') spec))"

text \<open>
  The chain so far in dial order, and the aliases encountered. The mutable arguments of the
  Rust function are the state it returns; callers drop them on an error.
\<close>

type_synonym expansion = "ssh_error + resolved_host list \<times> string set"

text \<open>
  \<open>nest\<close> is the recursive call on a hop's own specification. \<open>None\<close> is running out of
  fuel, which the aliases encountered rule out (\<open>expansion_returns\<close> below).
\<close>

fun expand_entries ::
  "resolver \<Rightarrow> (string \<Rightarrow> resolved_host list \<Rightarrow> string set \<Rightarrow> expansion option)
     \<Rightarrow> string list \<Rightarrow> resolved_host list \<Rightarrow> string set \<Rightarrow> expansion option" where
  "expand_entries res nest [] chain seen = Some (Inr (chain, seen))"
| "expand_entries res nest (entry # entries) chain seen =
     (let alias = parse_proxy_jump_alias entry in
      if card seen - 1 \<ge> MAX_PROXY_JUMP_HOPS then Some (Inl (ProxyJumpTooDeep MAX_PROXY_JUMP_HOPS))
      else if alias \<in> seen then Some (Inl (ProxyJumpCycle alias))
      else (case res alias of
              Inl e \<Rightarrow> Some (Inl e)
            | Inr found \<Rightarrow>
                let hop = apply_proxy_jump_overrides entry found;
                    nested_jump = hc_proxy_jump (rh_config hop);
                    hop = hop\<lparr>rh_config := (rh_config hop)\<lparr>hc_proxy_jump := None\<rparr>\<rparr>
                in case nested_jump of
                     None \<Rightarrow> expand_entries res nest entries (chain @ [hop]) (insert alias seen)
                   | Some nested_spec \<Rightarrow>
                       (case nest nested_spec chain (insert alias seen) of
                          None \<Rightarrow> None
                        | Some (Inl e) \<Rightarrow> Some (Inl e)
                        | Some (Inr (chain', seen')) \<Rightarrow> expand_entries res nest entries (chain' @ [hop]) seen')))"

primrec expand_proxy_jump_spec ::
  "nat \<Rightarrow> resolver \<Rightarrow> string \<Rightarrow> resolved_host list \<Rightarrow> string set \<Rightarrow> expansion option" where
  "expand_proxy_jump_spec 0 res spec chain seen = None"
| "expand_proxy_jump_spec (Suc fuel) res spec chain seen =
     expand_entries res (expand_proxy_jump_spec fuel res) (proxy_jump_entries spec) chain seen"

text \<open>The chain of the target named \<open>target\<close>, as every caller computes it.\<close>

definition expand_target :: "resolver \<Rightarrow> string \<Rightarrow> string \<Rightarrow> ssh_error + resolved_host list" where
  "expand_target res target spec =
     (case expand_proxy_jump_spec (Suc MAX_PROXY_JUMP_HOPS) res spec [] {target} of
        Some (Inr (chain, _)) \<Rightarrow> Inr chain
      | Some (Inl e) \<Rightarrow> Inl e
      | None \<Rightarrow> Inl (ProxyJumpTooDeep MAX_PROXY_JUMP_HOPS))"

definition jump_chain_aliases :: "resolver \<Rightarrow> string \<Rightarrow> ssh_error + string list" where
  "jump_chain_aliases res alias =
     (case res alias of
        Inl e \<Rightarrow> Inl e
      | Inr target \<Rightarrow>
          (case hc_proxy_jump (rh_config target) of
             None \<Rightarrow> Inr []
           | Some spec \<Rightarrow>
               (case expand_target res alias spec of Inl e \<Rightarrow> Inl e | Inr chain \<Rightarrow> Inr (map rh_alias chain))))"

subsection \<open>Lease scope\<close>

fun push_new :: "string list \<Rightarrow> string set \<Rightarrow> string list \<Rightarrow> string set \<times> string list" where
  "push_new [] seen out = (seen, out)"
| "push_new (a # as) seen out =
     (if a \<in> seen then push_new as seen out else push_new as (insert a seen) (out @ [a]))"

fun expand_chains ::
  "resolver \<Rightarrow> string list \<Rightarrow> string set \<Rightarrow> string list \<Rightarrow> ssh_error + string list" where
  "expand_chains res [] seen out = Inr out"
| "expand_chains res (host # hosts) seen out =
     (case jump_chain_aliases res host of
        Inl e \<Rightarrow> Inl e
      | Inr chain \<Rightarrow> (case push_new chain seen out of (seen, out) \<Rightarrow> expand_chains res hosts seen out))"

definition expand_lease_hosts :: "resolver \<Rightarrow> string list \<Rightarrow> ssh_error + string list" where
  "expand_lease_hosts res hosts =
     (case push_new hosts {} [] of (seen, expanded) \<Rightarrow> expand_chains res hosts seen expanded)"

definition expand_lease_hosts_for_request :: "resolver \<Rightarrow> string list \<Rightarrow> ssh_error + string list" where
  "expand_lease_hosts_for_request res hosts =
     (case expand_lease_hosts res hosts of
        Inr expanded \<Rightarrow> Inr expanded
      | Inl (SshConfig _) \<Rightarrow> Inr hosts
      | Inl SshVaultLocked \<Rightarrow> Inr hosts
      | Inl e \<Rightarrow> Inl e)"

definition config_uses_system_agent_only :: "host_config \<Rightarrow> bool" where
  "config_uses_system_agent_only c \<longleftrightarrow> hc_identity_agent c = None \<and> hc_identity_files c = []"

definition auth_matches_system_agent_policy :: "auth_method option \<Rightarrow> host_config option \<Rightarrow> bool" where
  "auth_matches_system_agent_policy vault_auth host_cfg \<longleftrightarrow>
     (case vault_auth of
        Some Agent \<Rightarrow> True
      | Some _ \<Rightarrow> False
      | None \<Rightarrow> (case host_cfg of Some c \<Rightarrow> config_uses_system_agent_only c | None \<Rightarrow> False))"

text \<open>\<open>entry_of\<close> is \<open>vault::get_entry\<close> while the scope is checked.\<close>

fun scope_loop ::
  "config_env \<Rightarrow> ssh_config \<Rightarrow> bool \<Rightarrow> (string \<Rightarrow> host_entry option) \<Rightarrow> string list \<Rightarrow> config_error + bool" where
  "scope_loop CE cfg vault_locked entry_of [] = Inr True"
| "scope_loop CE cfg vault_locked entry_of (host # hosts) =
     (if contains_alias cfg host then
        (case resolve_for_connection CE cfg host of
           Inl e \<Rightarrow> Inl e
         | Inr c \<Rightarrow> if config_uses_system_agent_only c
                    then scope_loop CE cfg vault_locked entry_of hosts else Inr False)
      else if vault_locked then Inr False
      else (case entry_of host of
              Some entry \<Rightarrow>
                if auth_matches_system_agent_policy (Some (he_auth entry)) None
                then scope_loop CE cfg vault_locked entry_of hosts else Inr False
            | None \<Rightarrow>
                (case resolve_for_connection CE cfg host of
                   Inl e \<Rightarrow> Inl e
                 | Inr c \<Rightarrow> if auth_matches_system_agent_policy None (Some c)
                            then scope_loop CE cfg vault_locked entry_of hosts else Inr False)))"

definition get_entry :: "nat \<Rightarrow> instant \<Rightarrow> vault_world \<Rightarrow> string \<Rightarrow> host_entry option" where
  "get_entry idle now w alias =
     (case fst (lookup_entry idle now (vw_disk w \<noteq> None) alias (vw_cache w)) of
        Entry entry \<Rightarrow> Some entry | _ \<Rightarrow> None)"

definition scope_uses_system_agent ::
  "config_env \<Rightarrow> ssh_config \<Rightarrow> nat \<Rightarrow> instant \<Rightarrow> vault_world \<Rightarrow> string list \<Rightarrow> config_error + bool" where
  "scope_uses_system_agent CE cfg idle now w hosts =
     (let vault_locked = vw_disk w \<noteq> None \<and> \<not> fst (is_cached idle now (vw_cache w)) in
      case scope_loop CE cfg vault_locked (get_entry idle now w) hosts of
        Inr True \<Rightarrow> Inr (hosts \<noteq> []) | r \<Rightarrow> r)"

subsection \<open>Host-key confirmation order\<close>

record probe_route =
  pr_hops :: "resolved_host list"
  pr_target :: resolved_host

record confirmation_target =
  ct_alias :: string
  ct_hostname :: string
  ct_port :: nat
  ct_route :: probe_route

definition resolve_host_key_probe_route :: "resolver \<Rightarrow> string \<Rightarrow> ssh_error + probe_route" where
  "resolve_host_key_probe_route res alias =
     (case res alias of
        Inl e \<Rightarrow> Inl e
      | Inr target \<Rightarrow>
          (case hc_proxy_jump (rh_config target) of
             None \<Rightarrow> Inr \<lparr>pr_hops = [], pr_target = target\<rparr>
           | Some spec \<Rightarrow>
               (case expand_target res (rh_alias target) spec of
                  Inl e \<Rightarrow> Inl e
                | Inr chain \<Rightarrow> Inr \<lparr>pr_hops = chain, pr_target = target\<rparr>)))"

fun dependency_first_from :: "(string \<times> string list) list \<Rightarrow> string set \<Rightarrow> string list \<Rightarrow> string list" where
  "dependency_first_from [] seen ordered = ordered"
| "dependency_first_from ((target, dependencies) # groups) seen ordered =
     (case push_new (dependencies @ [target]) seen ordered of
        (seen, ordered) \<Rightarrow> dependency_first_from groups seen ordered)"

definition dependency_first_aliases :: "(string \<times> string list) list \<Rightarrow> string list" where
  "dependency_first_aliases groups = dependency_first_from groups {} []"

type_synonym route_table = "(string \<times> probe_route) list"

definition push_route :: "string \<Rightarrow> probe_route \<Rightarrow> route_table \<Rightarrow> route_table" where
  "push_route alias route routes =
     (if list_ex (\<lambda>(a, _). a = alias) routes then routes else routes @ [(alias, route)])"

text \<open>The loop over \<open>route.hops.iter().enumerate()\<close>.\<close>

fun push_hops :: "resolved_host list \<Rightarrow> nat \<Rightarrow> resolved_host list \<Rightarrow> route_table \<Rightarrow> route_table" where
  "push_hops hops index [] routes = routes"
| "push_hops hops index (hop # rest) routes =
     push_hops hops (Suc index) rest
       (push_route (rh_alias hop) \<lparr>pr_hops = take index hops, pr_target = hop\<rparr> routes)"

definition push_hop_routes :: "probe_route \<Rightarrow> route_table \<Rightarrow> route_table" where
  "push_hop_routes route routes = push_hops (pr_hops route) 0 (pr_hops route) routes"

fun confirmation_groups ::
  "resolver \<Rightarrow> string list \<Rightarrow> route_table \<Rightarrow> (string \<times> string list) list
     \<Rightarrow> ssh_error + route_table \<times> (string \<times> string list) list" where
  "confirmation_groups res [] routes groups = Inr (routes, groups)"
| "confirmation_groups res (host # hosts) routes groups =
     (case resolve_host_key_probe_route res host of
        Inl e \<Rightarrow> Inl e
      | Inr route \<Rightarrow>
          confirmation_groups res hosts (push_route host route (push_hop_routes route routes))
            (groups @ [(host, map rh_alias (pr_hops route))]))"

text \<open>
  The Rust \<open>expect("every ordered alias has a planned probe route")\<close> is \<open>None\<close> here; that it
  is never reached is part of the property below.
\<close>

definition confirmation_target_of :: "route_table \<Rightarrow> string \<Rightarrow> confirmation_target option" where
  "confirmation_target_of routes alias =
     (case find (\<lambda>(a, _). a = alias) routes of
        None \<Rightarrow> None
      | Some (_, route) \<Rightarrow>
          Some \<lparr>ct_alias = alias, ct_hostname = hc_hostname (rh_config (pr_target route)),
                ct_port = hc_port (rh_config (pr_target route)), ct_route = route\<rparr>)"

definition host_key_confirmation_order ::
  "resolver \<Rightarrow> string list \<Rightarrow> ssh_error + confirmation_target option list" where
  "host_key_confirmation_order res hosts =
     (case confirmation_groups res hosts [] [] of
        Inl e \<Rightarrow> Inl e
      | Inr (routes, groups) \<Rightarrow>
          Inr (map (confirmation_target_of routes) (dependency_first_aliases groups)))"

subsection \<open>Dialling a route\<close>

datatype io_kind = IoRefused | IoTimedOut | IoOther

text \<open>
  The network during one connection attempt: the resolver's addresses, the outcome per
  address, whether a session forwards to an endpoint, the SSH handshake and authentication
  of a host, and the lease answer (\<open>lease::resolve_grant\<close>, \<open>Some requires_system_agent\<close>).
\<close>

record dial_env =
  de_lookup :: "string \<Rightarrow> nat \<Rightarrow> string list option"
  de_connect :: "string \<Rightarrow> io_kind option"
  de_tunnel :: "string \<Rightarrow> string \<Rightarrow> nat \<Rightarrow> bool"
  de_handshake :: "resolved_host \<Rightarrow> bool \<Rightarrow> ssh_error + unit"
  de_authenticate :: "resolved_host \<Rightarrow> bool \<Rightarrow> ssh_error + unit"
  de_grant :: "string \<Rightarrow> bool option"

record lease_context =
  lc_target_requires_system_agent :: bool
  lc_trust_new_host :: bool

definition classify_connect_error :: "string \<Rightarrow> nat \<Rightarrow> io_kind \<Rightarrow> ssh_error" where
  "classify_connect_error host port kind =
     (case kind of IoRefused \<Rightarrow> ConnectRefused host port | IoTimedOut \<Rightarrow> ConnectTimeout host port
      | IoOther \<Rightarrow> ConnectFailed host port)"

text \<open>Try the addresses in order; an error keeps the last failure.\<close>

fun try_addresses :: "dial_env \<Rightarrow> string list \<Rightarrow> io_kind \<Rightarrow> io_kind + unit" where
  "try_addresses D [] last_err = Inl last_err"
| "try_addresses D (addr # addrs) last_err =
     (case de_connect D addr of None \<Rightarrow> Inr () | Some e \<Rightarrow> try_addresses D addrs e)"

definition open_tcp :: "dial_env \<Rightarrow> string \<Rightarrow> nat \<Rightarrow> ssh_error + unit" where
  "open_tcp D host port =
     (case de_lookup D host port of
        None \<Rightarrow> Inl (HostResolution host)
      | Some [] \<Rightarrow> Inl (HostResolution host)
      | Some addrs \<Rightarrow> (case try_addresses D addrs IoOther of
            Inr _ \<Rightarrow> Inr () | Inl e \<Rightarrow> Inl (classify_connect_error host port e)))"

definition add_handshake_context :: "ssh_error \<Rightarrow> string \<Rightarrow> nat \<Rightarrow> ssh_error" where
  "add_handshake_context err host port = (if err = Russh then Handshake host port else err)"

definition connect_over_stream :: "dial_env \<Rightarrow> resolved_host \<Rightarrow> bool \<Rightarrow> bool \<Rightarrow> ssh_error + unit" where
  "connect_over_stream D h require_system_agent trust_new_host =
     (case de_handshake D h trust_new_host of
        Inl e \<Rightarrow> Inl (add_handshake_context e (hc_hostname (rh_config h)) (hc_port (rh_config h)))
      | Inr _ \<Rightarrow> de_authenticate D h require_system_agent)"

text \<open>What a connection attempt does to the outside, in order.\<close>

datatype dial_event =
    OpenTcp string nat
  | OpenTunnel string string nat
  | StartSession string bool bool bool

definition open_stream :: "dial_env \<Rightarrow> string option \<Rightarrow> resolved_host \<Rightarrow> dial_event \<times> (ssh_error + unit)" where
  "open_stream D via h =
     (let host = hc_hostname (rh_config h); port = hc_port (rh_config h) in
      case via of
        None \<Rightarrow> (OpenTcp host port, open_tcp D host port)
      | Some prev \<Rightarrow> (OpenTunnel prev host port,
                     if de_tunnel D prev host port then Inr () else Inl (ProxyTunnel host port)))"

definition dial_hop ::
  "dial_env \<Rightarrow> lease_context \<Rightarrow> string option \<Rightarrow> resolved_host \<Rightarrow> bool \<Rightarrow> bool
     \<Rightarrow> dial_event list \<times> (ssh_error + unit)" where
  "dial_hop D ctx via h require_system_agent routed =
     (case open_stream D via h of
        (ev, Inl e) \<Rightarrow> ([ev], Inl e)
      | (ev, Inr _) \<Rightarrow>
          ([ev, StartSession (rh_alias h) require_system_agent (lc_trust_new_host ctx) routed],
           connect_over_stream D h require_system_agent (lc_trust_new_host ctx)))"

definition ensure_hop_leased :: "dial_env \<Rightarrow> resolved_host \<Rightarrow> string \<Rightarrow> ssh_error + bool" where
  "ensure_hop_leased D hop target =
     (if rh_auth hop = None then Inr False
      else (case de_grant D (rh_alias hop) of
              Some requires_system_agent \<Rightarrow> Inr requires_system_agent
            | None \<Rightarrow> Inl (JumpHostLeaseRequired (rh_alias hop) target)))"

fun dial_chain ::
  "dial_env \<Rightarrow> lease_context \<Rightarrow> string \<Rightarrow> string option \<Rightarrow> resolved_host list
     \<Rightarrow> dial_event list \<times> (ssh_error + string option)" where
  "dial_chain D ctx target via [] = ([], Inr via)"
| "dial_chain D ctx target via (hop # hops) =
     (case (if lc_target_requires_system_agent ctx then Inr True else ensure_hop_leased D hop target) of
        Inl e \<Rightarrow> ([], Inl e)
      | Inr require_system_agent \<Rightarrow>
          (case dial_hop D ctx via hop require_system_agent False of
             (evs, Inl e) \<Rightarrow> (evs, Inl e)
           | (evs, Inr _) \<Rightarrow>
               (case dial_chain D ctx target (Some (rh_alias hop)) hops of (evs', r) \<Rightarrow> (evs @ evs', r))))"

definition connect_via_proxy_jump ::
  "dial_env \<Rightarrow> resolver \<Rightarrow> lease_context \<Rightarrow> string \<Rightarrow> resolved_host \<Rightarrow> bool
     \<Rightarrow> dial_event list \<times> (ssh_error + unit)" where
  "connect_via_proxy_jump D res ctx jump_spec target routed =
     (case expand_target res (rh_alias target) jump_spec of
        Inl e \<Rightarrow> ([], Inl e)
      | Inr [] \<Rightarrow> dial_hop D ctx None target (lc_target_requires_system_agent ctx) routed
      | Inr chain \<Rightarrow>
          (case dial_chain D ctx (rh_alias target) None chain of
             (evs, Inl e) \<Rightarrow> (evs, Inl e)
           | (evs, Inr via) \<Rightarrow>
               (case dial_hop D ctx via target (lc_target_requires_system_agent ctx) routed of
                  (evs', r) \<Rightarrow> (evs @ evs', r))))"

definition connect_resolved ::
  "dial_env \<Rightarrow> resolver \<Rightarrow> lease_context \<Rightarrow> resolved_host \<Rightarrow> bool \<Rightarrow> dial_event list \<times> (ssh_error + unit)" where
  "connect_resolved D res ctx target routed =
     (case hc_proxy_jump (rh_config target) of
        Some jump_spec \<Rightarrow> connect_via_proxy_jump D res ctx jump_spec target routed
      | None \<Rightarrow> dial_hop D ctx None target (lc_target_requires_system_agent ctx) routed)"

definition connect_with_route ::
  "dial_env \<Rightarrow> resolver \<Rightarrow> lease_context \<Rightarrow> string \<Rightarrow> bool \<Rightarrow> dial_event list \<times> (ssh_error + unit)" where
  "connect_with_route D res ctx alias routed =
     (case res alias of Inl e \<Rightarrow> ([], Inl e) | Inr target \<Rightarrow> connect_resolved D res ctx target routed)"

subsection \<open>What an expansion produces\<close>

abbreviation aliases_of :: "resolved_host list \<Rightarrow> string set" where
  "aliases_of hops \<equiv> rh_alias ` set hops"

text \<open>\<open>ready\<close>: every hop's own chain has already been pushed when the hop is.\<close>

definition ready :: "resolver \<Rightarrow> resolved_host list \<Rightarrow> bool" where
  "ready res hops \<longleftrightarrow>
     (\<forall>i<length hops. \<exists>own. jump_chain_aliases res (rh_alias (hops ! i)) = Inr own
        \<and> set own \<subseteq> aliases_of (take i hops))"

definition appended :: "resolver \<Rightarrow> string set \<Rightarrow> string set \<Rightarrow> resolved_host list \<Rightarrow> bool" where
  "appended res seen seen' new \<longleftrightarrow>
     distinct (map rh_alias new) \<and> aliases_of new \<inter> seen = {} \<and> seen' = seen \<union> aliases_of new
     \<and> (card seen \<le> Suc MAX_PROXY_JUMP_HOPS \<longrightarrow> card seen' \<le> Suc MAX_PROXY_JUMP_HOPS)
     \<and> (\<forall>h\<in>set new. hc_proxy_jump (rh_config h) = None) \<and> ready res new"

lemma ready_Nil [simp]: "ready res []"
  by (simp add: ready_def)

lemma ready_append:
  assumes "ready res xs" and "ready res ys"
  shows "ready res (xs @ ys)"
  unfolding ready_def
proof (intro allI impI)
  fix i assume i: "i < length (xs @ ys)"
  show "\<exists>own. jump_chain_aliases res (rh_alias ((xs @ ys) ! i)) = Inr own \<and> set own \<subseteq> aliases_of (take i (xs @ ys))"
  proof (cases "i < length xs")
    case True
    with assms(1) show ?thesis by (fastforce simp: ready_def nth_append)
  next
    case False
    then have "i - length xs < length ys" using i by simp
    with assms(2) obtain own where
      "jump_chain_aliases res (rh_alias (ys ! (i - length xs))) = Inr own"
      "set own \<subseteq> aliases_of (take (i - length xs) ys)"
      unfolding ready_def by blast
    then show ?thesis using False by (auto simp: nth_append)
  qed
qed

lemma ready_snoc:
  assumes "ready res xs" and "jump_chain_aliases res (rh_alias hop) = Inr own" and "set own \<subseteq> aliases_of xs"
  shows "ready res (xs @ [hop])"
  using assms by (auto simp: ready_def nth_append less_Suc_eq)

lemma appended_Nil [simp]: "appended res seen seen []"
  by (simp add: appended_def)

lemma appended_append:
  "appended res seen seen1 xs \<Longrightarrow> appended res seen1 seen2 ys \<Longrightarrow> appended res seen seen2 (xs @ ys)"
  by (auto simp: appended_def intro: ready_append)

lemma override_config [simp]:
  "hc_alias (rh_config (apply_proxy_jump_overrides entry h)) = hc_alias (rh_config h)"
  "hc_proxy_jump (rh_config (apply_proxy_jump_overrides entry h)) = hc_proxy_jump (rh_config h)"
  by (auto simp: apply_proxy_jump_overrides_def Let_def split: option.splits prod.splits)

lemma expansion_more_fuel:
  "expand_proxy_jump_spec n res spec chain seen = Some r \<Longrightarrow>
     expand_proxy_jump_spec (Suc n) res spec chain seen = Some r"
proof (induction n arbitrary: spec chain seen r)
  case (Suc n)
  have "expand_entries res (expand_proxy_jump_spec n res) es c s = Some q \<Longrightarrow>
      expand_entries res (expand_proxy_jump_spec (Suc n) res) es c s = Some q" for es c s q
  proof (induction es arbitrary: c s)
    case (Cons e es)
    then show ?case
      using Suc.IH
      by (auto simp: Let_def simp del: expand_proxy_jump_spec.simps
          split: if_splits sum.splits option.splits)
  qed simp
  with Suc.prems show ?case by simp
qed simp

lemma expansion_fuel_mono:
  "expand_proxy_jump_spec n res spec chain seen = Some r \<Longrightarrow> n \<le> m \<Longrightarrow>
     expand_proxy_jump_spec m res spec chain seen = Some r"
proof (induction m)
  case (Suc m)
  then show ?case by (cases "n = Suc m") (auto intro!: expansion_more_fuel simp del: expand_proxy_jump_spec.simps)
qed simp

text \<open>
  A sound expansion appends ready, fresh hops, and does the same from any chain and any
  smaller set of encountered aliases.
\<close>

definition sound_nest ::
  "resolver \<Rightarrow> (string \<Rightarrow> resolved_host list \<Rightarrow> string set \<Rightarrow> expansion option) \<Rightarrow> bool" where
  "sound_nest res nest \<longleftrightarrow>
     (\<forall>spec c s c' s'. finite s \<longrightarrow> nest spec c s = Some (Inr (c', s')) \<longrightarrow>
        (\<exists>new. c' = c @ new \<and> appended res s s' new
           \<and> (\<forall>c0 s0. s0 \<subseteq> s \<longrightarrow> nest spec c0 s0 = Some (Inr (c0 @ new, s0 \<union> aliases_of new)))))"

lemma sound_nestD:
  assumes "sound_nest res nest" and "finite s" and "nest spec c s = Some (Inr (c', s'))"
  obtains new where "c' = c @ new" "appended res s s' new"
    "\<And>c0 s0. s0 \<subseteq> s \<Longrightarrow> nest spec c0 s0 = Some (Inr (c0 @ new, s0 \<union> aliases_of new))"
  using assms unfolding sound_nest_def by metis

subsection \<open>Deduplicated lists and planned routes\<close>

lemma push_new_set:
  "push_new as seen out = (seen', out') \<Longrightarrow> seen = set out \<Longrightarrow> distinct out \<Longrightarrow>
     seen' = set out' \<and> distinct out' \<and> set out' = set out \<union> set as \<and> (\<exists>new. out' = out @ new)"
proof (induction as seen out rule: push_new.induct)
  case (2 a as seen out)
  show ?case
  proof (cases "a \<in> seen")
    case True
    with 2 show ?thesis by (simp add: insert_absorb)
  next
    case False
    with 2(2)[OF False] 2(3-) have "seen' = set out' \<and> distinct out' \<and> set out' = set (out @ [a]) \<union> set as
        \<and> (\<exists>new. out' = (out @ [a]) @ new)" by simp
    then show ?thesis by auto
  qed
qed simp

lemma push_new_append:
  "push_new (as @ bs) seen out = (case push_new as seen out of (seen, out) \<Rightarrow> push_new bs seen out)"
  by (induction as seen out rule: push_new.induct) auto

lemma push_new_fst: "fst (push_new as (set out) out) = set (snd (push_new as (set out) out))"
proof -
  have "seen = set out \<Longrightarrow> fst (push_new as seen out) = set (snd (push_new as seen out))" for seen
    by (induction as seen out rule: push_new.induct) auto
  then show ?thesis by simp
qed

lemma dependency_first_from_snoc:
  "dependency_first_from (groups @ [(target, ds)]) (set out) out =
     (let q = dependency_first_from groups (set out) out in snd (push_new (ds @ [target]) (set q) q))"
proof (induction groups arbitrary: out)
  case Nil
  then show ?case by (simp add: Let_def split: prod.splits)
next
  case (Cons g groups)
  obtain t d where g: "g = (t, d)" by (cases g)
  obtain o1 where p: "push_new (d @ [t]) (set out) out = (set o1, o1)"
    using push_new_fst[of "d @ [t]" out] by (cases "push_new (d @ [t]) (set out) out") simp
  from Cons.IH[of o1] show ?case by (simp add: g p)
qed

lemma dependency_first_snoc:
  "dependency_first_aliases (groups @ [(target, ds)]) =
     snd (push_new (ds @ [target]) (set (dependency_first_aliases groups)) (dependency_first_aliases groups))"
  using dependency_first_from_snoc[of groups target ds "[]"]
  by (simp add: dependency_first_aliases_def Let_def)

lemma find_by_key:
  "distinct (map fst xs) \<Longrightarrow> i < length xs \<Longrightarrow> find (\<lambda>(a, _). a = fst (xs ! i)) xs = Some (xs ! i)"
proof (induction xs arbitrary: i)
  case (Cons x xs)
  show ?case
  proof (cases i)
    case (Suc j)
    then have "fst (xs ! j) \<in> set (map fst xs)" "find (\<lambda>(a, _). a = fst (xs ! j)) xs = Some (xs ! j)"
      using Cons by (simp_all add: split_def)
    moreover from this(1) have "fst x \<noteq> fst (xs ! j)" using Cons.prems(1) by (metis distinct.simps(2) list.simps(9))
    ultimately show ?thesis using Suc by (simp add: split_def)
  qed (simp add: split_def)
qed simp

text \<open>Planned routes only go through hosts planned before, and end at their own host.\<close>

definition planned :: "route_table \<Rightarrow> bool" where
  "planned routes \<longleftrightarrow> distinct (map fst routes)
     \<and> (\<forall>i<length routes. aliases_of (pr_hops (snd (routes ! i))) \<subseteq> fst ` set (take i routes)
          \<and> rh_alias (pr_target (snd (routes ! i))) = fst (routes ! i))"

lemma planned_Nil [simp]: "planned []"
  by (simp add: planned_def)

lemma push_route_known: "list_ex (\<lambda>(a, _). a = alias) routes \<longleftrightarrow> alias \<in> fst ` set routes"
  by (force simp: list_ex_iff)

lemma push_route_fst:
  "map fst (push_route alias route routes) =
     snd (push_new [alias] (fst ` set routes) (map fst routes))"
  by (simp add: push_route_def push_route_known)

lemma push_route_fst_set: "fst ` set (push_route alias route routes) = insert alias (fst ` set routes)"
  by (auto simp: push_route_def push_route_known)

lemma push_route_planned:
  assumes "planned routes" and "aliases_of (pr_hops route) \<subseteq> fst ` set routes"
    and "rh_alias (pr_target route) = alias"
  shows "planned (push_route alias route routes)"
  using assms by (auto simp: push_route_def push_route_known planned_def nth_append less_Suc_eq)

lemma push_hops_planned:
  assumes "planned routes" and "aliases_of (take i hops) \<subseteq> fst ` set routes" and "hops = take i hops @ xs"
  shows "planned (push_hops hops i xs routes)
    \<and> aliases_of hops \<subseteq> fst ` set (push_hops hops i xs routes)
    \<and> fst ` set routes \<subseteq> fst ` set (push_hops hops i xs routes)
    \<and> map fst (push_hops hops i xs routes)
        = snd (push_new (map rh_alias xs) (fst ` set routes) (map fst routes))"
  using assms
proof (induction xs arbitrary: i routes)
  case Nil
  then show ?case by (simp add: take_all_iff)
next
  case (Cons x xs)
  let ?r = "push_route (rh_alias x) \<lparr>pr_hops = take i hops, pr_target = x\<rparr> routes"
  have drop: "drop i hops = x # xs" using Cons.prems(3) by (metis append_take_drop_id same_append_eq)
  then have i: "i < length hops" by (metis drop_all leI list.distinct(1))
  moreover have "hops ! i = x" using drop by (rule nth_via_drop)
  ultimately have suc: "take (Suc i) hops = take i hops @ [x]" by (simp add: take_Suc_conv_app_nth)
  have pl: "planned ?r" by (rule push_route_planned) (use Cons.prems in auto)
  have "aliases_of (take (Suc i) hops) \<subseteq> fst ` set ?r"
    using Cons.prems(2) by (auto simp: push_route_fst_set suc)
  moreover have "hops = take (Suc i) hops @ xs" using Cons.prems(3) suc by simp
  ultimately have ih: "planned (push_hops hops (Suc i) xs ?r)
    \<and> aliases_of hops \<subseteq> fst ` set (push_hops hops (Suc i) xs ?r)
    \<and> fst ` set ?r \<subseteq> fst ` set (push_hops hops (Suc i) xs ?r)
    \<and> map fst (push_hops hops (Suc i) xs ?r)
        = snd (push_new (map rh_alias xs) (fst ` set ?r) (map fst ?r))"
    by (rule Cons.IH[OF pl])
  have e: "snd (push_new (map rh_alias xs) (fst ` set ?r) (map fst ?r))
      = snd (push_new (map rh_alias (x # xs)) (fst ` set routes) (map fst routes))"
    by (simp add: push_route_fst push_route_fst_set insert_absorb)
  have sub: "fst ` set routes \<subseteq> fst ` set ?r" by (auto simp: push_route_fst_set)
  show ?case
    unfolding push_hops.simps
    using ih by (elim conjE) (intro conjI, assumption, assumption, erule order_trans[OF sub], erule trans[OF _ e])
qed

lemma push_hop_routes_planned:
  "planned routes \<Longrightarrow> planned (push_hop_routes route routes)
    \<and> aliases_of (pr_hops route) \<subseteq> fst ` set (push_hop_routes route routes)
    \<and> fst ` set routes \<subseteq> fst ` set (push_hop_routes route routes)
    \<and> map fst (push_hop_routes route routes)
        = snd (push_new (map rh_alias (pr_hops route)) (fst ` set routes) (map fst routes))"
  unfolding push_hop_routes_def by (rule push_hops_planned) simp_all

text \<open>
  The interface of a resolver: whatever it answers for an alias carries that alias.
\<close>

locale host_resolver =
  fixes res :: resolver
  assumes alias_kept: "res a = Inr h \<Longrightarrow> rh_alias h = a"
begin

text \<open>One hop pushed after its own chain \<open>n1\<close>.\<close>

lemma appended_hop:
  assumes "finite s" and "\<not> card s - 1 \<ge> MAX_PROXY_JUMP_HOPS" and "a \<notin> s" and "rh_alias hop = a"
    and "hc_proxy_jump (rh_config hop) = None" and "appended res (insert a s) s1 n1"
    and "jump_chain_aliases res a = Inr (map rh_alias n1)"
  shows "appended res s s1 (n1 @ [hop])"
proof -
  have "card (insert a s) \<le> Suc MAX_PROXY_JUMP_HOPS" using assms(1-3) by simp
  moreover have "ready res (n1 @ [hop])"
    using assms(4,6,7) by (auto simp: appended_def intro!: ready_snoc)
  ultimately show ?thesis using assms(3-6) by (auto simp: appended_def)
qed

lemma entries_sound:
  assumes nest: "sound_nest res nest"
    and le: "\<And>spec c s r. nest spec c s = Some r \<Longrightarrow>
               expand_proxy_jump_spec (Suc MAX_PROXY_JUMP_HOPS) res spec c s = Some r"
    and "finite s" and "expand_entries res nest es c s = Some (Inr (c', s'))"
  shows "\<exists>new. c' = c @ new \<and> appended res s s' new
     \<and> (\<forall>c0 s0. s0 \<subseteq> s \<longrightarrow> expand_entries res nest es c0 s0 = Some (Inr (c0 @ new, s0 \<union> aliases_of new)))"
  using assms(3,4)
proof (induction es arbitrary: c s)
  case (Cons e es)
  define a where "a = parse_proxy_jump_alias e"
  have guard: "\<not> card s - 1 \<ge> MAX_PROXY_JUMP_HOPS" "a \<notin> s"
    using Cons.prems(2) by (auto simp: a_def Let_def split: if_splits)
  then obtain found where found: "res a = Inr found"
    using Cons.prems(2) by (cases "res a") (auto simp: a_def Let_def)
  let ?h = "apply_proxy_jump_overrides e found"
  define hop where "hop = ?h\<lparr>rh_config := (rh_config ?h)\<lparr>hc_proxy_jump := None\<rparr>\<rparr>"
  have hop: "rh_alias hop = a" "hc_proxy_jump (rh_config hop) = None"
    using alias_kept[OF found] by (simp_all add: hop_def)
  have less: "\<not> card s0 - 1 \<ge> MAX_PROXY_JUMP_HOPS \<and> a \<notin> s0" if "s0 \<subseteq> s" for s0
    using that guard card_mono[OF Cons.prems(1) that] by auto
  show ?case
  proof (cases "hc_proxy_jump (rh_config found)")
    case None
    have step: "expand_entries res nest (e # es) c0 s0 = expand_entries res nest es (c0 @ [hop]) (insert a s0)"
      if "s0 \<subseteq> s" for c0 s0
      using less[OF that] found None by (simp add: a_def Let_def hop_def)
    have "jump_chain_aliases res a = Inr []" using found None by (simp add: jump_chain_aliases_def)
    then have one: "appended res s (insert a s) [hop]"
      using appended_hop[OF Cons.prems(1) guard hop, of "insert a s" "[]"] by simp
    have "finite (insert a s)" using Cons.prems(1) by simp
    from Cons.IH[OF this, of "c @ [hop]"] Cons.prems(2) step[of s c] obtain new where
      new: "c' = (c @ [hop]) @ new" "appended res (insert a s) s' new"
      "\<And>c0 s0. s0 \<subseteq> insert a s \<Longrightarrow>
         expand_entries res nest es c0 s0 = Some (Inr (c0 @ new, s0 \<union> aliases_of new))"
      by auto
    have "expand_entries res nest (e # es) c0 s0 = Some (Inr (c0 @ (hop # new), s0 \<union> aliases_of (hop # new)))"
      if "s0 \<subseteq> s" for c0 s0
      using step[OF that] new(3)[of "insert a s0" "c0 @ [hop]"] that hop(1) by auto
    then show ?thesis
      using new(1) appended_append[OF one new(2)] by (intro exI[of _ "hop # new"]) simp
  next
    case (Some spec)
    have step: "expand_entries res nest (e # es) c0 s0 =
        (case nest spec c0 (insert a s0) of None \<Rightarrow> None | Some (Inl er) \<Rightarrow> Some (Inl er)
         | Some (Inr (ch, se)) \<Rightarrow> expand_entries res nest es (ch @ [hop]) se)"
      if "s0 \<subseteq> s" for c0 s0
      unfolding hop_def using less[OF that] found Some by (simp add: a_def Let_def)
    obtain c1 s1 where n: "nest spec c (insert a s) = Some (Inr (c1, s1))"
      "expand_entries res nest es (c1 @ [hop]) s1 = Some (Inr (c', s'))"
      using Cons.prems(2) step[of s c] by (auto split: option.splits sum.splits)
    have fin: "finite (insert a s)" using Cons.prems(1) by simp
    obtain n1 where n1: "c1 = c @ n1" "appended res (insert a s) s1 n1"
      "\<And>c0 s0. s0 \<subseteq> insert a s \<Longrightarrow> nest spec c0 s0 = Some (Inr (c0 @ n1, s0 \<union> aliases_of n1))"
      using sound_nestD[OF nest fin n(1)] by blast
    have "jump_chain_aliases res a = Inr (map rh_alias n1)"
      using le[OF n1(3)[of "{a}" "[]"]] found Some
      by (simp add: jump_chain_aliases_def expand_target_def del: expand_proxy_jump_spec.simps)
    then have one: "appended res s s1 (n1 @ [hop])"
      by (rule appended_hop[OF Cons.prems(1) guard hop n1(2)])
    have "finite s1" using n1(2) fin by (simp add: appended_def)
    from Cons.IH[OF this n(2)] obtain new where
      new: "c' = (c1 @ [hop]) @ new" "appended res s1 s' new"
      "\<And>c0 s0. s0 \<subseteq> s1 \<Longrightarrow>
         expand_entries res nest es c0 s0 = Some (Inr (c0 @ new, s0 \<union> aliases_of new))"
      by auto
    have s1: "s1 = insert a s \<union> aliases_of n1" using n1(2) by (simp add: appended_def)
    have "expand_entries res nest (e # es) c0 s0
        = Some (Inr (c0 @ (n1 @ [hop] @ new), s0 \<union> aliases_of (n1 @ [hop] @ new)))"
      if "s0 \<subseteq> s" for c0 s0
    proof -
      have "insert a s0 \<union> aliases_of n1 \<subseteq> s1" using that s1 by auto
      note rest = new(3)[OF this, of "(c0 @ n1) @ [hop]"]
      have nn: "nest spec c0 (insert a s0) = Some (Inr (c0 @ n1, insert a s0 \<union> aliases_of n1))"
        by (rule n1(3)) (use that in auto)
      have "insert a s0 \<union> aliases_of n1 \<union> aliases_of new = s0 \<union> aliases_of (n1 @ [hop] @ new)"
        using hop(1) by auto
      with rest show ?thesis unfolding step[OF that] nn by simp
    qed
    then show ?thesis
      using new(1) n1(1) appended_append[OF one new(2)] by (intro exI[of _ "n1 @ [hop] @ new"]) simp
  qed
qed simp

lemma expansion_sound: "n \<le> Suc MAX_PROXY_JUMP_HOPS \<Longrightarrow> sound_nest res (expand_proxy_jump_spec n res)"
proof (induction n)
  case (Suc n)
  then have "sound_nest res (expand_proxy_jump_spec n res)" by simp
  note e = entries_sound[OF this expansion_fuel_mono]
  from Suc.prems show ?case
    unfolding sound_nest_def using e by (auto simp del: expand_entries.simps)
qed (simp add: sound_nest_def)

text \<open>Enough fuel: every nested expansion encounters one more alias.\<close>

definition fuelled :: "nat \<Rightarrow> string set \<Rightarrow> bool" where
  "fuelled n s \<longleftrightarrow> finite s \<and> s \<noteq> {} \<and> card s \<le> Suc MAX_PROXY_JUMP_HOPS
     \<and> Suc (Suc MAX_PROXY_JUMP_HOPS) \<le> n + card s"

lemma fuelled_nested:
  "fuelled (Suc n) s \<Longrightarrow> \<not> card s - 1 \<ge> MAX_PROXY_JUMP_HOPS \<Longrightarrow> a \<notin> s \<Longrightarrow> fuelled n (insert a s)"
  by (auto simp: fuelled_def)

lemma fuelled_insert:
  "fuelled n s \<Longrightarrow> \<not> card s - 1 \<ge> MAX_PROXY_JUMP_HOPS \<Longrightarrow> a \<notin> s \<Longrightarrow> fuelled n (insert a s)"
  by (auto simp: fuelled_def)

lemma fuelled_appended: "fuelled n s \<Longrightarrow> appended res s s' new \<Longrightarrow> fuelled n s'"
proof -
  assume a: "fuelled n s" "appended res s s' new"
  then have "s \<subseteq> s'" "finite s'" by (auto simp: appended_def fuelled_def)
  then have "card s \<le> card s'" by (simp add: card_mono)
  with a \<open>finite s'\<close> \<open>s \<subseteq> s'\<close> show ?thesis by (auto simp: appended_def fuelled_def)
qed

lemma entries_return:
  assumes "sound_nest res nest" and "\<And>spec c s. fuelled n s \<Longrightarrow> nest spec c s \<noteq> None"
  shows "fuelled (Suc n) s \<Longrightarrow> expand_entries res nest es c s \<noteq> None"
proof (induction es arbitrary: c s)
  case (Cons e es)
  let ?a = "parse_proxy_jump_alias e"
  show ?case
  proof (cases "card s - 1 \<ge> MAX_PROXY_JUMP_HOPS \<or> ?a \<in> s")
    case True
    then show ?thesis by (auto simp: Let_def)
  next
    case False
    then have f: "fuelled (Suc n) (insert ?a s)" "fuelled n (insert ?a s)"
      using Cons.prems fuelled_insert fuelled_nested by auto
    from f(1) Cons.IH have rest: "expand_entries res nest es c0 (insert ?a s) \<noteq> None" for c0 by blast
    have nested: "expand_entries res nest es c2 s1 \<noteq> None"
      if "nest spec c (insert ?a s) = Some (Inr (c1, s1))" for spec c1 s1 c2
    proof -
      from f(1) have "finite (insert ?a s)" by (simp add: fuelled_def)
      from sound_nestD[OF assms(1) this that] fuelled_appended[OF f(1)] have "fuelled (Suc n) s1" by blast
      then show ?thesis by (rule Cons.IH)
    qed
    have called: "nest spec c (insert ?a s) \<noteq> None" for spec using assms(2)[OF f(2)] by blast
    show ?thesis
      using False rest nested
      by (auto simp: Let_def called[simplified] split: sum.splits option.splits dest: called[THEN notE])
  qed
qed simp

lemma expansion_returns:
  "n \<le> Suc MAX_PROXY_JUMP_HOPS \<Longrightarrow> fuelled n s \<Longrightarrow> expand_proxy_jump_spec n res spec c s \<noteq> None"
proof (induction n arbitrary: spec c s)
  case (Suc n)
  then show ?case using entries_return[OF expansion_sound, of n n s] by simp
qed (auto simp: fuelled_def)

lemma fuelled_target: "fuelled (Suc MAX_PROXY_JUMP_HOPS) {a}"
  by (simp add: fuelled_def)

lemma expand_target_sound:
  assumes "expand_target res a spec = Inr chain"
  shows "\<exists>seen. appended res {a} seen chain"
proof -
  from assms obtain seen where
    "expand_proxy_jump_spec (Suc MAX_PROXY_JUMP_HOPS) res spec [] {a} = Some (Inr (chain, seen))"
    by (auto simp: expand_target_def simp del: expand_proxy_jump_spec.simps split: option.splits sum.splits)
  from sound_nestD[OF expansion_sound[OF order_refl] _ this] show ?thesis by auto
qed

lemma jump_chain_appended:
  assumes "jump_chain_aliases res a = Inr chain"
  shows "\<exists>hops seen. chain = map rh_alias hops \<and> appended res {a} seen hops"
proof -
  obtain target where t: "res a = Inr target"
    using assms by (auto simp: jump_chain_aliases_def split: sum.splits)
  show ?thesis
  proof (cases "hc_proxy_jump (rh_config target)")
    case None
    with assms t show ?thesis
      by (intro exI[of _ "[]"] exI[of _ "{a}"]) (simp add: jump_chain_aliases_def)
  next
    case (Some spec)
    with assms t obtain hops where "expand_target res a spec = Inr hops" "chain = map rh_alias hops"
      by (auto simp: jump_chain_aliases_def split: sum.splits)
    with expand_target_sound show ?thesis by blast
  qed
qed

lemma jump_chain_bounded:
  assumes "jump_chain_aliases res a = Inr chain"
  shows "distinct chain \<and> a \<notin> set chain \<and> length chain \<le> MAX_PROXY_JUMP_HOPS"
proof -
  obtain hops seen where h: "chain = map rh_alias hops" "appended res {a} seen hops"
    using jump_chain_appended[OF assms] by blast
  then have d: "distinct chain" "a \<notin> set chain" "card (insert a (set chain)) \<le> Suc MAX_PROXY_JUMP_HOPS"
    by (auto simp: appended_def)
  then have "card (set chain) \<le> MAX_PROXY_JUMP_HOPS" by simp
  with d show ?thesis by (simp add: distinct_card)
qed

lemma jump_chain_ready:
  assumes "jump_chain_aliases res a = Inr chain" and "i < length chain"
  shows "\<exists>own. jump_chain_aliases res (chain ! i) = Inr own \<and> set own \<subseteq> set (take i chain)"
proof -
  obtain hops seen where h: "chain = map rh_alias hops" "appended res {a} seen hops"
    using jump_chain_appended[OF assms(1)] by blast
  then have "ready res hops" by (simp add: appended_def)
  with assms(2) h(1) show ?thesis by (auto simp: ready_def take_map)
qed

lemma expand_target_fuel: "expand_proxy_jump_spec (Suc MAX_PROXY_JUMP_HOPS) res spec [] {a} \<noteq> None"
  by (rule expansion_returns[OF order_refl fuelled_target])

lemma expand_chains_covers:
  assumes "expand_chains res hosts (set out) out = Inr ex" and "distinct out"
  shows "distinct ex \<and> (\<exists>new. ex = out @ new)
    \<and> (\<forall>h\<in>set hosts. \<exists>own. jump_chain_aliases res h = Inr own \<and> set own \<subseteq> set ex)
    \<and> (\<forall>h\<in>set ex. h \<in> set out \<or> (\<exists>t\<in>set hosts. \<exists>own. jump_chain_aliases res t = Inr own \<and> h \<in> set own))"
  using assms
proof (induction hosts arbitrary: out)
  case (Cons h hosts)
  then obtain own where own: "jump_chain_aliases res h = Inr own" by (auto split: sum.splits)
  obtain seen1 out1 where p: "push_new own (set out) out = (seen1, out1)" by (cases "push_new own (set out) out")
  from push_new_set[OF p refl Cons.prems(2)] have o: "seen1 = set out1" "distinct out1"
    "set out1 = set out \<union> set own" "\<exists>new. out1 = out @ new" by auto
  from Cons.prems(1) own p o(1) have "expand_chains res hosts (set out1) out1 = Inr ex" by simp
  from Cons.IH[OF this o(2)] obtain new where ih: "distinct ex" "ex = out1 @ new"
    "\<forall>h\<in>set hosts. \<exists>own. jump_chain_aliases res h = Inr own \<and> set own \<subseteq> set ex"
    "\<forall>h\<in>set ex. h \<in> set out1 \<or> (\<exists>t\<in>set hosts. \<exists>own. jump_chain_aliases res t = Inr own \<and> h \<in> set own)"
    by blast
  have "\<exists>own. jump_chain_aliases res h = Inr own \<and> set own \<subseteq> set ex" using own o(3) ih(2) by auto
  moreover have "\<forall>k\<in>set ex. k \<in> set out
      \<or> (\<exists>t\<in>set (h # hosts). \<exists>own. jump_chain_aliases res t = Inr own \<and> k \<in> set own)"
  proof
    fix k assume "k \<in> set ex"
    then show "k \<in> set out \<or> (\<exists>t\<in>set (h # hosts). \<exists>own. jump_chain_aliases res t = Inr own \<and> k \<in> set own)"
      using ih(4) o(3) own by auto
  qed
  ultimately show ?case using ih o(4) by auto
qed simp

lemma lease_scope_closed:
  assumes "expand_lease_hosts res hosts = Inr scope"
  shows "distinct scope \<and> set hosts \<subseteq> set scope
    \<and> (\<forall>h\<in>set scope. \<exists>own. jump_chain_aliases res h = Inr own \<and> set own \<subseteq> set scope)
    \<and> (\<forall>h\<in>set scope. h \<in> set hosts
         \<or> (\<exists>t\<in>set hosts. \<exists>own. jump_chain_aliases res t = Inr own \<and> h \<in> set own))"
proof -
  obtain seen out where p: "push_new hosts {} [] = (seen, out)" by (cases "push_new hosts {} []")
  from push_new_set[OF p] have o: "seen = set out" "distinct out" "set out = set hosts" by auto
  with assms p have "expand_chains res hosts (set out) out = Inr scope" by (simp add: expand_lease_hosts_def)
  from expand_chains_covers[OF this o(2)] o(3)
  have c: "distinct scope" "set hosts \<subseteq> set scope"
    "\<forall>h\<in>set hosts. \<exists>own. jump_chain_aliases res h = Inr own \<and> set own \<subseteq> set scope"
    "\<forall>h\<in>set scope. h \<in> set hosts \<or> (\<exists>t\<in>set hosts. \<exists>own. jump_chain_aliases res t = Inr own \<and> h \<in> set own)"
    by auto
  have "\<exists>own. jump_chain_aliases res h = Inr own \<and> set own \<subseteq> set scope" if h: "h \<in> set scope" for h
  proof (cases "h \<in> set hosts")
    case False
    then obtain t own where t: "t \<in> set hosts" "jump_chain_aliases res t = Inr own" "h \<in> set own"
      using c(4) h by blast
    then have "set own \<subseteq> set scope" using c(3) by fastforce
    moreover obtain i where "i < length own" "own ! i = h" using t(3) by (auto simp: in_set_conv_nth)
    ultimately show ?thesis using jump_chain_ready[OF t(2)] set_take_subset[of i own] by blast
  qed (use c(3) in blast)
  with c show ?thesis by blast
qed

lemma confirmation_groups_inv:
  assumes "confirmation_groups res hosts routes groups = Inr (routes', groups')"
    and "planned routes" and "map fst routes = dependency_first_aliases groups"
  shows "planned routes' \<and> map fst routes' = dependency_first_aliases groups'
    \<and> set hosts \<subseteq> fst ` set routes' \<and> fst ` set routes \<subseteq> fst ` set routes'"
  using assms
proof (induction hosts arbitrary: routes groups)
  case (Cons host hosts)
  then obtain route where r: "resolve_host_key_probe_route res host = Inr route"
    by (auto split: sum.splits)
  have target: "rh_alias (pr_target route) = host"
    using r alias_kept by (auto simp: resolve_host_key_probe_route_def split: sum.splits option.splits)
  let ?r1 = "push_hop_routes route routes" and ?d = "map rh_alias (pr_hops route)"
  let ?r2 = "push_route host route ?r1"
  from push_hop_routes_planned[OF Cons.prems(2), of route]
  have p1: "planned ?r1" "aliases_of (pr_hops route) \<subseteq> fst ` set ?r1" "fst ` set routes \<subseteq> fst ` set ?r1"
    "map fst ?r1 = snd (push_new ?d (fst ` set routes) (map fst routes))" by auto
  have p2: "planned ?r2" by (rule push_route_planned[OF p1(1,2) target])
  obtain o1 where o1: "push_new ?d (set (map fst routes)) (map fst routes) = (set o1, o1)"
    using push_new_fst[of ?d "map fst routes"]
    by (cases "push_new ?d (set (map fst routes)) (map fst routes)") simp
  then have m: "map fst ?r1 = o1" using p1(4) by simp
  have "fst ` set ?r1 = set o1" by (simp add: m[symmetric])
  with m have "map fst ?r2 = snd (push_new [host] (set o1) o1)" by (simp only: push_route_fst)
  then have "map fst ?r2 = snd (push_new (?d @ [host]) (set (map fst routes)) (map fst routes))"
    by (simp only: push_new_append o1 prod.case)
  then have o2: "map fst ?r2 = dependency_first_aliases (groups @ [(host, ?d)])"
    by (simp only: dependency_first_snoc flip: Cons.prems(3))
  from Cons.prems(1) r have "confirmation_groups res hosts ?r2 (groups @ [(host, ?d)]) = Inr (routes', groups')"
    by simp
  from Cons.IH[OF this p2 o2] have ih: "planned routes' \<and> map fst routes' = dependency_first_aliases groups'
    \<and> set hosts \<subseteq> fst ` set routes' \<and> fst ` set ?r2 \<subseteq> fst ` set routes'" .
  moreover have "insert host (fst ` set routes) \<subseteq> fst ` set ?r2" using p1(3) by (auto simp: push_route_fst_set)
  ultimately have "insert host (fst ` set routes) \<subseteq> fst ` set routes'" by blast
  with ih show ?case by auto
qed simp

lemma confirmation_order_planned:
  assumes "host_key_confirmation_order res hosts = Inr targets"
  shows "\<exists>ts. targets = map Some ts \<and> distinct (map ct_alias ts) \<and> set hosts \<subseteq> set (map ct_alias ts)
    \<and> (\<forall>i<length ts. aliases_of (pr_hops (ct_route (ts ! i))) \<subseteq> set (map ct_alias (take i ts))
         \<and> rh_alias (pr_target (ct_route (ts ! i))) = ct_alias (ts ! i))"
proof -
  obtain routes groups where g: "confirmation_groups res hosts [] [] = Inr (routes, groups)"
    "targets = map (confirmation_target_of routes) (dependency_first_aliases groups)"
    using assms by (auto simp: host_key_confirmation_order_def split: sum.splits)
  from confirmation_groups_inv[OF g(1)]
  have p: "planned routes" "map fst routes = dependency_first_aliases groups" "set hosts \<subseteq> fst ` set routes"
    by (simp_all add: dependency_first_aliases_def)
  let ?t = "\<lambda>(a, r). \<lparr>ct_alias = a, ct_hostname = hc_hostname (rh_config (pr_target r)),
                ct_port = hc_port (rh_config (pr_target r)), ct_route = r\<rparr>"
  have "confirmation_target_of routes (fst (routes ! i)) = Some (?t (routes ! i))" if "i < length routes" for i
    using p(1) that find_by_key[of routes i]
    by (simp add: confirmation_target_of_def planned_def split: prod.splits)
  then have "targets = map Some (map ?t routes)"
    unfolding g(2) p(2)[symmetric] by (auto simp: list_eq_iff_nth_eq)
  moreover have a: "map ct_alias (map ?t routes) = map fst routes" by (simp add: split_def)
  moreover have "\<forall>i<length (map ?t routes). aliases_of (pr_hops (ct_route (map ?t routes ! i)))
        \<subseteq> set (map ct_alias (take i (map ?t routes)))
      \<and> rh_alias (pr_target (ct_route (map ?t routes ! i))) = ct_alias (map ?t routes ! i)"
    using p(1) unfolding planned_def by (simp add: split_def take_map image_image)
  ultimately show ?thesis
    using p(1,3) unfolding planned_def
    by (intro exI[of _ "map ?t routes"]) (simp only: a, simp)
qed

end

lemma resolve_for_connection_alias: "resolve_for_connection CE cfg a = Inr c \<Longrightarrow> hc_alias c = a"
  by (auto simp: resolve_for_connection_def split: option.splits)

interpretation sr: host_resolver "snapshot_resolver E w" for E w
proof unfold_locales
  fix a h
  assume "snapshot_resolver E w a = Inr h"
  then show "rh_alias h = a"
    by (auto simp: snapshot_resolver_def resolve_host_config_def config_host_def vault_host_def
        dest: resolve_for_connection_alias
        split: if_splits sum.splits prod.splits entry_lookup.splits)
qed

subsection \<open>Properties of routes\<close>

definition demo_route_env :: route_env where
  "demo_route_env =
     \<lparr>re_config = [(block_default [''web''])\<lparr>hb_proxy_jump := Some ''bastion''\<rparr>,
                   (block_default [''bastion''])\<lparr>hb_proxy_jump := Some ''edge''\<rparr>],
      re_config_env = demo_config_env,
      re_vault_ext = \<lparr>vx_params_ok = (\<lambda>_. True), vx_argon2 = (\<lambda>_ _ _. None), vx_encrypt = (\<lambda>_ _ p. p),
        vx_decrypt = (\<lambda>_ _ _. None), vx_data_to_json = (\<lambda>_. []), vx_data_from_json = (\<lambda>_. None),
        vx_file_to_json = (\<lambda>_. []), vx_file_from_json = (\<lambda>_. None),
        vx_decode_secret_key = (\<lambda>_. KeyDecoded), vx_from_openssh = (\<lambda>_. False)\<rparr>,
      re_vault_io = demo_vault_io, re_idle = 5, re_start = 0, re_bypass = False,
      re_keychain = Inl []\<rparr>"

text \<open>
  C21: the expansion of a \<open>ProxyJump\<close> route always ends, and a chain it accepts is finite and
  simple: at most eight hops, none visited twice, the target not among them, and every hop
  comes after the whole chain it needs itself.
\<close>

theorem proxy_jump_chain_sound:
  "expand_proxy_jump_spec (Suc MAX_PROXY_JUMP_HOPS) (snapshot_resolver E w) spec [] {alias} \<noteq> None
   \<and> (\<forall>chain. jump_chain_aliases (snapshot_resolver E w) alias = Inr chain \<longrightarrow>
        distinct chain \<and> alias \<notin> set chain \<and> length chain \<le> MAX_PROXY_JUMP_HOPS
        \<and> (\<forall>i<length chain. \<exists>own. jump_chain_aliases (snapshot_resolver E w) (chain ! i) = Inr own
             \<and> set own \<subseteq> set (take i chain)))"
  using sr.expand_target_fuel sr.jump_chain_bounded sr.jump_chain_ready by blast

theorem proxy_jump_chain_sound_witness:
  "jump_chain_aliases (snapshot_resolver demo_route_env demo_world) ''web'' = Inr [''edge'', ''bastion'']
   \<and> distinct [''edge'', ''bastion''] \<and> ''web'' \<notin> set [''edge'', ''bastion'']"
proof -
  have c: "jump_chain_aliases (snapshot_resolver demo_route_env demo_world) ''web'' = Inr [''edge'', ''bastion'']"
    by code_simp
  with proxy_jump_chain_sound[of demo_route_env demo_world] show ?thesis by blast
qed

text \<open>
  C9: the lease scope shown to the human is the whole path: it keeps every requested host,
  lists nobody twice, contains the jump chain of every host in it, requested or pulled in,
  and nothing that is not requested or on the way to a requested host.
\<close>

theorem lease_scope_covers_routes:
  assumes "expand_lease_hosts (snapshot_resolver E w) hosts = Inr scope"
  shows "distinct scope \<and> set hosts \<subseteq> set scope
    \<and> (\<forall>h\<in>set scope. \<exists>own. jump_chain_aliases (snapshot_resolver E w) h = Inr own \<and> set own \<subseteq> set scope)
    \<and> (\<forall>h\<in>set scope. h \<in> set hosts
         \<or> (\<exists>t\<in>set hosts. \<exists>own. jump_chain_aliases (snapshot_resolver E w) t = Inr own \<and> h \<in> set own))"
  using assms by (rule sr.lease_scope_closed)

theorem lease_scope_covers_routes_witness:
  "expand_lease_hosts (snapshot_resolver demo_route_env demo_world) [''web''] = Inr [''web'', ''edge'', ''bastion'']
   \<and> distinct [''web'', ''edge'', ''bastion'']"
proof -
  have c: "expand_lease_hosts (snapshot_resolver demo_route_env demo_world) [''web'']
      = Inr [''web'', ''edge'', ''bastion'']"
    by code_simp
  with lease_scope_covers_routes[OF c] show ?thesis by blast
qed

text \<open>
  Host keys are confirmed in an order that lets each probe be verified: every target of
  the confirmation list has a planned route, is listed once, and every hop of its route is
  listed before it.
\<close>

theorem host_key_confirmation_dependencies_first:
  assumes "host_key_confirmation_order (snapshot_resolver E w) hosts = Inr targets"
  shows "\<exists>ts. targets = map Some ts \<and> distinct (map ct_alias ts) \<and> set hosts \<subseteq> set (map ct_alias ts)
    \<and> (\<forall>i<length ts. aliases_of (pr_hops (ct_route (ts ! i))) \<subseteq> set (map ct_alias (take i ts))
         \<and> rh_alias (pr_target (ct_route (ts ! i))) = ct_alias (ts ! i))"
  using assms by (rule sr.confirmation_order_planned)

theorem host_key_confirmation_dependencies_first_witness:
  "\<exists>targets ts. host_key_confirmation_order (snapshot_resolver demo_route_env demo_world) [''web'', ''bastion'']
       = Inr targets
     \<and> targets = map Some ts \<and> distinct (map ct_alias ts)"
proof -
  have "case host_key_confirmation_order (snapshot_resolver demo_route_env demo_world) [''web'', ''bastion''] of
      Inl _ \<Rightarrow> False | Inr _ \<Rightarrow> True"
    by code_simp
  then obtain targets where
    "host_key_confirmation_order (snapshot_resolver demo_route_env demo_world) [''web'', ''bastion''] = Inr targets"
    by (auto split: sum.splits)
  with host_key_confirmation_dependencies_first[OF this] show ?thesis by blast
qed

subsection \<open>What a connection dials\<close>

text \<open>
  The full trace of a route: TCP to the first host, a tunnel through the session just opened
  for each later one, and the forwarded-tcpip route only on the last host.
\<close>

definition hop_agent :: "dial_env \<Rightarrow> lease_context \<Rightarrow> resolved_host \<Rightarrow> bool" where
  "hop_agent D ctx hop \<longleftrightarrow> lc_target_requires_system_agent ctx
     \<or> rh_auth hop \<noteq> None \<and> de_grant D (rh_alias hop) = Some True"

definition stream_event :: "string option \<Rightarrow> resolved_host \<Rightarrow> dial_event" where
  "stream_event via h =
     (case via of None \<Rightarrow> OpenTcp (hc_hostname (rh_config h)) (hc_port (rh_config h))
      | Some prev \<Rightarrow> OpenTunnel prev (hc_hostname (rh_config h)) (hc_port (rh_config h)))"

fun chain_trace :: "dial_env \<Rightarrow> lease_context \<Rightarrow> string option \<Rightarrow> resolved_host list \<Rightarrow> dial_event list" where
  "chain_trace D ctx via [] = []"
| "chain_trace D ctx via (h # hs) =
     [stream_event via h, StartSession (rh_alias h) (hop_agent D ctx h) (lc_trust_new_host ctx) False]
     @ chain_trace D ctx (Some (rh_alias h)) hs"

definition last_via :: "string option \<Rightarrow> resolved_host list \<Rightarrow> string option" where
  "last_via via hs = (if hs = [] then via else Some (rh_alias (last hs)))"

definition route_trace ::
  "dial_env \<Rightarrow> lease_context \<Rightarrow> resolved_host list \<Rightarrow> resolved_host \<Rightarrow> bool \<Rightarrow> dial_event list" where
  "route_trace D ctx chain target routed =
     chain_trace D ctx None chain
     @ [stream_event (last_via None chain) target,
        StartSession (rh_alias target) (lc_target_requires_system_agent ctx) (lc_trust_new_host ctx) routed]"

definition leased_hop :: "dial_env \<Rightarrow> lease_context \<Rightarrow> resolved_host \<Rightarrow> bool" where
  "leased_hop D ctx h \<longleftrightarrow>
     lc_target_requires_system_agent ctx \<or> rh_auth h = None \<or> de_grant D (rh_alias h) \<noteq> None"

lemma dial_hop_trace:
  assumes "dial_hop D ctx via h agent routed = (evs, r)"
  shows "prefix evs [stream_event via h, StartSession (rh_alias h) agent (lc_trust_new_host ctx) routed]
    \<and> evs \<noteq> [] \<and> (r = Inr () \<longrightarrow>
        evs = [stream_event via h, StartSession (rh_alias h) agent (lc_trust_new_host ctx) routed])"
  using assms
  by (auto simp: dial_hop_def open_stream_def stream_event_def Let_def split: option.splits sum.splits if_splits)

lemma chain_trace_length: "length (chain_trace D ctx via hs) = 2 * length hs"
  by (induction hs arbitrary: via) auto

lemma hop_clearance:
  assumes "(if lc_target_requires_system_agent ctx then Inr True else ensure_hop_leased D hop target) = Inr agent"
  shows "agent = hop_agent D ctx hop \<and> leased_hop D ctx hop"
  using assms by (auto simp: ensure_hop_leased_def hop_agent_def leased_hop_def split: if_splits option.splits)

text \<open>Every hop dialled was cleared first: \<open>n\<close> events touch at most the first \<open>(n + 1) div 2\<close> hops.\<close>

lemma dial_chain_trace:
  assumes "dial_chain D ctx target via hops = (evs, r)"
  shows "prefix evs (chain_trace D ctx via hops)
    \<and> (\<forall>h\<in>set (take ((length evs + 1) div 2) hops). leased_hop D ctx h)
    \<and> (\<forall>v. r = Inr v \<longrightarrow> evs = chain_trace D ctx via hops \<and> v = last_via via hops)"
  using assms
proof (induction hops arbitrary: via evs r)
  case Nil
  then show ?case by (auto simp: last_via_def)
next
  case (Cons hop hops)
  show ?case
  proof (cases "if lc_target_requires_system_agent ctx then Inr True else ensure_hop_leased D hop target")
    case (Inl e)
    then show ?thesis using Cons.prems by auto
  next
    case (Inr agent)
    obtain evs1 r1 where d: "dial_hop D ctx via hop agent False = (evs1, r1)"
      by (cases "dial_hop D ctx via hop agent False")
    note agent = hop_clearance[OF Inr] and t = dial_hop_trace[OF d]
    show ?thesis
    proof (cases r1)
      case (Inl e)
      have "length evs1 \<le> 2" using t by (auto dest: prefix_length_le)
      then have "take ((length evs1 + 1) div 2) (hop # hops) \<in> {[], [hop]}"
        by (cases "(length evs1 + 1) div 2") auto
      then have "\<forall>h\<in>set (take ((length evs1 + 1) div 2) (hop # hops)). leased_hop D ctx h"
        using agent by auto
      moreover have "prefix evs1 (chain_trace D ctx via (hop # hops))"
        unfolding chain_trace.simps using t agent by (simp only: prefix_prefix)
      moreover have "evs = evs1" "r = Inl e" using Cons.prems \<open>_ = Inr agent\<close> d Inl by simp_all
      ultimately show ?thesis by simp
    next
      case r1: (Inr u)
      obtain evs2 r2 where c: "dial_chain D ctx target (Some (rh_alias hop)) hops = (evs2, r2)"
        by (cases "dial_chain D ctx target (Some (rh_alias hop)) hops")
      have e: "evs = evs1 @ evs2" "r = r2" using Cons.prems Inr d r1 c by simp_all
      have l: "length evs1 = 2"
        and e1: "evs1 = [stream_event via hop, StartSession (rh_alias hop) agent (lc_trust_new_host ctx) False]"
        using t r1 by auto
      from Cons.IH[OF c] show ?thesis
        using agent l by (auto simp: e e1 last_via_def)
    qed
  qed
qed

text \<open>Under a target grant confined to the system agent, every session of the route is.\<close>

lemma route_trace_agents:
  assumes "prefix evs (route_trace D ctx chain target routed)" "lc_target_requires_system_agent ctx"
    and "StartSession alias agent tofu fwd \<in> set evs"
  shows agent
proof -
  have "StartSession alias agent tofu fwd \<in> set (chain_trace D ctx via hs) \<Longrightarrow> agent" for via hs
    by (induction hs arbitrary: via) (use assms(2) in \<open>auto simp: hop_agent_def stream_event_def split: option.splits\<close>)
  moreover have "StartSession alias agent tofu fwd \<in> set (route_trace D ctx chain target routed)"
    using assms(1,3) set_mono_prefix by blast
  ultimately show ?thesis using assms(2) by (auto simp: route_trace_def stream_event_def split: option.splits)
qed

lemma planned_route_dialled:
  assumes "connect_with_route D (snapshot_resolver E w) ctx alias routed = (evs, r)" and "evs \<noteq> []"
  shows "\<exists>target chain. snapshot_resolver E w alias = Inr target
    \<and> jump_chain_aliases (snapshot_resolver E w) alias = Inr (map rh_alias chain)
    \<and> prefix evs (route_trace D ctx chain target routed)
    \<and> (r = Inr () \<longrightarrow> evs = route_trace D ctx chain target routed)
    \<and> (\<forall>h\<in>set (take ((length evs + 1) div 2) chain). leased_hop D ctx h)"
proof -
  let ?res = "snapshot_resolver E w"
  obtain target where t: "?res alias = Inr target" "connect_resolved D ?res ctx target routed = (evs, r)"
    using assms by (auto simp: connect_with_route_def split: sum.splits)
  have a: "rh_alias target = alias" using t(1) by (rule sr.alias_kept)
  have direct: ?thesis
    if "dial_hop D ctx None target (lc_target_requires_system_agent ctx) routed = (evs, r)"
      and "jump_chain_aliases ?res alias = Inr []"
    using dial_hop_trace[OF that(1)] that(2) t(1)
    by (intro exI[of _ target] exI[of _ "[]"]) (auto simp: route_trace_def last_via_def)
  show ?thesis
  proof (cases "hc_proxy_jump (rh_config target)")
    case None
    then show ?thesis using direct t by (simp add: connect_resolved_def jump_chain_aliases_def)
  next
    case (Some spec)
    with t(2) have v: "connect_via_proxy_jump D ?res ctx spec target routed = (evs, r)"
      by (simp add: connect_resolved_def)
    then obtain chain where c: "expand_target ?res alias spec = Inr chain"
      using assms(2) a by (auto simp: connect_via_proxy_jump_def split: sum.splits)
    have j: "jump_chain_aliases ?res alias = Inr (map rh_alias chain)"
      using t(1) Some c by (simp add: jump_chain_aliases_def)
    show ?thesis
    proof (cases "chain = []")
      case True
      then show ?thesis using direct v c j a by (simp add: connect_via_proxy_jump_def)
    next
      case False
      obtain evs1 r1 where d: "dial_chain D ctx alias None chain = (evs1, r1)"
        by (cases "dial_chain D ctx alias None chain")
      note ch = dial_chain_trace[OF d]
      show ?thesis
      proof (cases r1)
        case (Inl e)
        then have "evs = evs1" "r = Inl e"
          using v c d a False by (auto simp: connect_via_proxy_jump_def split: list.splits)
        with ch t(1) j show ?thesis
          by (intro exI[of _ target] exI[of _ chain]) (auto simp: route_trace_def)
      next
        case (Inr via)
        obtain evs2 r2 where h: "dial_hop D ctx via target (lc_target_requires_system_agent ctx) routed = (evs2, r2)"
          by (cases "dial_hop D ctx via target (lc_target_requires_system_agent ctx) routed")
        have e: "evs = evs1 @ evs2" "r = r2"
          using v c d a False Inr h by (auto simp: connect_via_proxy_jump_def split: list.splits)
        have e1: "evs1 = chain_trace D ctx None chain" "via = last_via None chain" using ch Inr by auto
        have "\<forall>h\<in>set chain. leased_hop D ctx h"
          using ch by (simp add: e1(1) chain_trace_length)
        then have "\<forall>h\<in>set (take ((length evs + 1) div 2) chain). leased_hop D ctx h"
          by (meson in_set_takeD)
        with dial_hop_trace[OF h] t(1) j show ?thesis
          by (intro exI[of _ target] exI[of _ chain]) (auto simp: route_trace_def e e1)
      qed
    qed
  qed
qed

text \<open>
  C31: A connection dials exactly its planned route: what an attempt does to the network is a prefix of
  the route's trace (TCP to the first host, then tunnels through the session just opened, chain hops in
  dial order, the target last and the only one a remote forward is attached to), and the whole trace
  if it succeeds. Each vault-backed hop it touches was covered by a grant of the caller for that hop, or
  the target's grant is confined to the system agent; in this second case no grant for the hop is asked
  for, and every session of the route, the hops' included, may use the system agent only.
\<close>

theorem connect_dials_planned_route:
  assumes "connect_with_route D (snapshot_resolver E w) ctx alias routed = (evs, r)" and "evs \<noteq> []"
  shows "\<exists>target chain. snapshot_resolver E w alias = Inr target
    \<and> jump_chain_aliases (snapshot_resolver E w) alias = Inr (map rh_alias chain)
    \<and> prefix evs (route_trace D ctx chain target routed)
    \<and> (r = Inr () \<longrightarrow> evs = route_trace D ctx chain target routed)
    \<and> (\<forall>h\<in>set (take ((length evs + 1) div 2) chain).
         rh_auth h = None \<or> de_grant D (rh_alias h) \<noteq> None \<or> lc_target_requires_system_agent ctx)
    \<and> (lc_target_requires_system_agent ctx \<longrightarrow>
         (\<forall>a agent tofu fwd. StartSession a agent tofu fwd \<in> set evs \<longrightarrow> agent))"
proof -
  from planned_route_dialled[OF assms] obtain target chain where
    t: "snapshot_resolver E w alias = Inr target"
      "jump_chain_aliases (snapshot_resolver E w) alias = Inr (map rh_alias chain)"
    and trace: "prefix evs (route_trace D ctx chain target routed)"
      "r = Inr () \<longrightarrow> evs = route_trace D ctx chain target routed"
    and hops: "\<forall>h\<in>set (take ((length evs + 1) div 2) chain). leased_hop D ctx h" by blast
  have "\<forall>h\<in>set (take ((length evs + 1) div 2) chain).
      rh_auth h = None \<or> de_grant D (rh_alias h) \<noteq> None \<or> lc_target_requires_system_agent ctx"
    using hops by (auto simp: leased_hop_def)
  with t trace route_trace_agents[OF trace(1)] show ?thesis by blast
qed

text \<open>The outermost hop comes from the vault and the caller has a grant for it.\<close>

definition demo_dial_env :: dial_env where
  "demo_dial_env = \<lparr>de_lookup = (\<lambda>h _. Some [h]), de_connect = (\<lambda>_. None), de_tunnel = (\<lambda>_ _ _. True),
     de_handshake = (\<lambda>_ _. Inr ()), de_authenticate = (\<lambda>_ _. Inr ()),
     de_grant = (\<lambda>a. if a = ''edge'' then Some False else None)\<rparr>"

definition demo_edge_world :: vault_world where
  "demo_edge_world = demo_world\<lparr>vw_disk := Some [], vw_cache := Some \<lparr>uv_data = hm_insert ''edge'' demo_entry [],
     uv_kdf = \<lparr>kp_m_cost = 8, kp_t_cost = 1, kp_p_cost = 1, kp_salt = []\<rparr>, uv_key = [], uv_owner = LeaseOwner\<rparr>\<rparr>"

definition demo_route_events :: "dial_event list" where
  "demo_route_events = [OpenTcp (he_hostname demo_entry) 22, StartSession ''edge'' False False False,
     OpenTunnel ''edge'' ''bastion'' 22, StartSession ''bastion'' False False False,
     OpenTunnel ''bastion'' ''web'' 22, StartSession ''web'' False False True]"

theorem connect_dials_planned_route_witness:
  "connect_with_route demo_dial_env (snapshot_resolver demo_route_env demo_edge_world)
       \<lparr>lc_target_requires_system_agent = False, lc_trust_new_host = False\<rparr> ''web'' True = (demo_route_events, Inr ())
   \<and> (\<exists>chain target. demo_route_events =
        route_trace demo_dial_env \<lparr>lc_target_requires_system_agent = False, lc_trust_new_host = False\<rparr> chain target True)"
proof -
  have c: "connect_with_route demo_dial_env (snapshot_resolver demo_route_env demo_edge_world)
       \<lparr>lc_target_requires_system_agent = False, lc_trust_new_host = False\<rparr> ''web'' True = (demo_route_events, Inr ())"
    by code_simp
  have "demo_route_events \<noteq> []" by (simp add: demo_route_events_def)
  with connect_dials_planned_route[OF c] c show ?thesis by blast
qed

end
