(* ===== verification/Lease.thy ===== *)
theory Lease
  imports Procs Routes
begin

text \<open>
  Authorization leases (\<open>src/src/daemon/lease.rs\<close>): anchors, pending requests, their approval
  by a human or by system-agent policy, the grants operations run under, and expiry.

  Each function below runs as the Rust one does while it holds the lease state's lock. Where
  the Rust releases the lock in between, the argument \<open>others\<close> is what other tasks do to the
  state meanwhile. What a call reads from outside (configuration files, clock, settings, the
  startup bypass flag) is the record \<open>lease_env\<close>. Audit records and log lines are left out.
\<close>

definition PENDING_EXPIRY :: nat where "PENDING_EXPIRY = from_secs (15 * 60)"
definition DEFAULT_IDLE_TIMEOUT :: nat where "DEFAULT_IDLE_TIMEOUT = from_secs (15 * 60)"
definition REQUEST_ID_LEN :: nat where "REQUEST_ID_LEN = 8"
definition MAX_APPROVE_ATTEMPTS :: nat where "MAX_APPROVE_ATTEMPTS = 5"
definition SHELL_BASENAMES :: "string list" where
  "SHELL_BASENAMES = [''sh'', ''bash'', ''zsh'', ''fish'', ''dash'', ''ksh'']"
definition SLOOSH_BASENAME :: string where "SLOOSH_BASENAME = ''sloosh''"

text \<open>Host lists in a mismatch are kept as lists; the Rust variant carries their text.\<close>

datatype lease_error =
    NoSuchRequest string
  | NoHostsRequested
  | NoAnchor
  | VaultRequired
  | SelfApproval string nat
  | WrongMasterPassword nat
  | TooManyFailedAttempts nat
  | ApprovedHostsMismatch string "string list" "string list"
  | RouteError ssh_error
  | VaultError vault_error

subsection \<open>Anchors\<close>

record anchor =
  an_pid :: nat
  an_start_time :: nat
  an_name :: "string option"

definition from_ancestor :: "ancestor_info \<Rightarrow> anchor" where
  "from_ancestor a =
     \<lparr>an_pid = ai_pid a, an_start_time = ai_start_time a,
      an_name = pick_display_name (ai_exe_basename a) (ai_exe_path_basename a) (ai_argv0_basename a)\<rparr>"

definition anchor_matches :: "anchor \<Rightarrow> ancestor_info \<Rightarrow> bool" where
  "anchor_matches n a \<longleftrightarrow> an_pid n = ai_pid a \<and> an_start_time n = ai_start_time a"

definition is_skippable :: "string option \<Rightarrow> bool" where
  "is_skippable name =
     (case name of Some n \<Rightarrow> n = SLOOSH_BASENAME \<or> n \<in> set SHELL_BASENAMES | None \<Rightarrow> False)"

definition select_anchor :: "ancestor_info list \<Rightarrow> anchor option" where
  "select_anchor chain =
     (case chain of
        [] \<Rightarrow> None
      | first # rest \<Rightarrow>
          if ai_pid first \<le> 1 then None
          else if (case ai_exe_path_basename first of Some n \<Rightarrow> Some n | None \<Rightarrow> ai_exe_basename first)
                  \<noteq> Some SLOOSH_BASENAME
          then Some (from_ancestor first)
          else map_option from_ancestor
                 (find (\<lambda>a. ai_pid a > 1 \<and> \<not> is_skippable (ai_exe_basename a)) rest))"

definition chain_contains_anchor :: "anchor \<Rightarrow> ancestor_info list \<Rightarrow> bool" where
  "chain_contains_anchor n chain \<longleftrightarrow> list_ex (anchor_matches n) chain"

definition CROCKFORD_ALPHABET :: string where
  "CROCKFORD_ALPHABET = ''0123456789ABCDEFGHJKMNPQRSTVWXYZ''"

definition request_id_of :: "bytes \<Rightarrow> string" where
  "request_id_of raw = map (\<lambda>b. CROCKFORD_ALPHABET ! (code b mod length CROCKFORD_ALPHABET)) raw"

subsection \<open>State\<close>

record pending_request =
  pq_hosts :: "string list"
  pq_anchor :: anchor
  pq_created_at :: instant
  pq_failed_attempts :: nat

datatype authorization = Human | SystemAgent | DangerousBypass

record active_lease =
  al_anchor :: anchor
  al_hosts :: "string set"
  al_created_at :: instant
  al_last_used :: instant
  al_token :: string
  al_authorization :: authorization

record lease_grant =
  lg_token :: string
  lg_host :: string
  lg_authorization :: authorization

definition requires_system_agent :: "lease_grant \<Rightarrow> bool" where
  "requires_system_agent g \<longleftrightarrow> lg_authorization g = SystemAgent"

definition bypass_grant :: "string \<Rightarrow> lease_grant" where
  "bypass_grant host = \<lparr>lg_token = [], lg_host = host, lg_authorization = DangerousBypass\<rparr>"

text \<open>The lease state together with the vault it clears and consults.\<close>

record lease_world =
  lw_pending :: "(string, pending_request) hmap"
  lw_active :: "active_lease list"
  lw_vault :: vault_world

record lease_env =
  le_now :: instant
  le_idle :: nat
  le_bypass :: bool
  le_route :: route_env

definition lease_live :: "nat \<Rightarrow> instant \<Rightarrow> active_lease \<Rightarrow> bool" where
  "lease_live idle now l \<longleftrightarrow>
     duration_since now (al_last_used l) < idle \<and> duration_since now (al_created_at l) < MAX_LIFETIME"

definition prune_expired :: "lease_env \<Rightarrow> lease_world \<Rightarrow> lease_world" where
  "prune_expired E w =
     (let now = le_now E; idle = le_idle E;
          had_active = lw_active w \<noteq> [];
          kept = filter (lease_live idle now) (lw_active w);
          v = lw_vault w;
          guard = (if had_active \<and> kept = [] then clear_lease_cache (vw_cache v) else vw_cache v)
      in w\<lparr>lw_pending := filter (\<lambda>(_, p). duration_since now (pq_created_at p) < PENDING_EXPIRY) (lw_pending w),
           lw_active := kept,
           lw_vault := v\<lparr>vw_cache := expire_bypass_at idle now guard\<rparr>\<rparr>)"

subsection \<open>Requests\<close>

record request_summary =
  rs_id :: string
  rs_hosts :: "string list"
  rs_anchor_name :: "string option"
  rs_anchor_pid :: nat
  rs_age_secs :: nat
  rs_vault_exists :: bool

datatype request_outcome = AlreadyAuthorized | Pending request_summary

definition lease_vault_exists :: "lease_world \<Rightarrow> bool" where
  "lease_vault_exists w \<longleftrightarrow> vw_disk (lw_vault w) \<noteq> None"

definition touch_anchored :: "instant \<Rightarrow> ancestor_info list \<Rightarrow> active_lease list \<Rightarrow> active_lease list" where
  "touch_anchored now chain active =
     map (\<lambda>l. if chain_contains_anchor (al_anchor l) chain then l\<lparr>al_last_used := now\<rparr> else l) active"

text \<open>
  \<open>draws\<close> are the random request ids drawn until one is not pending yet; the loop has not
  returned when they are used up (\<open>None\<close>).
\<close>

definition request_lease_for_chain ::
  "lease_env \<Rightarrow> bytes list \<Rightarrow> ancestor_info list \<Rightarrow> string list \<Rightarrow> lease_world
     \<Rightarrow> ((lease_error + request_outcome) \<times> lease_world) option" where
  "request_lease_for_chain E draws chain hosts w =
     (if hosts = [] then Some (Inl NoHostsRequested, w)
      else if le_bypass E then Some (Inr AlreadyAuthorized, w)
      else
        let w = prune_expired E w;
            covered = \<Union> (set (map al_hosts (filter (\<lambda>l. chain_contains_anchor (al_anchor l) chain) (lw_active w))))
        in if list_all (\<lambda>h. h \<in> covered) hosts
           then Some (Inr AlreadyAuthorized, w\<lparr>lw_active := touch_anchored (le_now E) chain (lw_active w)\<rparr>)
           else (case select_anchor chain of
                   None \<Rightarrow> Some (Inl NoAnchor, w)
                 | Some n \<Rightarrow>
                     (case find (\<lambda>c. \<not> hm_contains (lw_pending w) c) (map request_id_of draws) of
                        None \<Rightarrow> None
                      | Some i \<Rightarrow>
                          Some (Inr (Pending \<lparr>rs_id = i, rs_hosts = hosts, rs_anchor_name = an_name n,
                                       rs_anchor_pid = an_pid n, rs_age_secs = 0,
                                       rs_vault_exists = lease_vault_exists w\<rparr>),
                                w\<lparr>lw_pending := hm_insert i \<lparr>pq_hosts = hosts, pq_anchor = n,
                                      pq_created_at = le_now E, pq_failed_attempts = 0\<rparr> (lw_pending w)\<rparr>))))"

definition describe_pending :: "lease_env \<Rightarrow> string \<Rightarrow> lease_world \<Rightarrow> (lease_error + request_summary) \<times> lease_world" where
  "describe_pending E i w =
     (let w = prune_expired E w in
      ((case hm_get (lw_pending w) i of
          None \<Rightarrow> Inl (NoSuchRequest i)
        | Some p \<Rightarrow> Inr \<lparr>rs_id = i, rs_hosts = pq_hosts p, rs_anchor_name = an_name (pq_anchor p),
                       rs_anchor_pid = an_pid (pq_anchor p),
                       rs_age_secs = as_secs (duration_since (le_now E) (pq_created_at p)),
                       rs_vault_exists = lease_vault_exists w\<rparr>), w))"

subsection \<open>Approval\<close>

definition lease_resolver :: "lease_env \<Rightarrow> lease_world \<Rightarrow> resolver" where
  "lease_resolver E w = snapshot_resolver (le_route E) (lw_vault w)"

definition expand_approval_hosts :: "lease_env \<Rightarrow> lease_world \<Rightarrow> string list \<Rightarrow> ssh_error + string list" where
  "expand_approval_hosts E w hosts = expand_lease_hosts (lease_resolver E w) hosts"

definition lease_scope_agent_only :: "lease_env \<Rightarrow> lease_world \<Rightarrow> string list \<Rightarrow> config_error + bool" where
  "lease_scope_agent_only E w hosts =
     scope_uses_system_agent (re_config_env (le_route E)) (re_config (le_route E)) (le_idle E) (le_now E)
       (lw_vault w) hosts"

definition clear_vault_cache :: "lease_world \<Rightarrow> lease_world" where
  "clear_vault_cache w = w\<lparr>lw_vault := (lw_vault w)\<lparr>vw_cache := None\<rparr>\<rparr>"

record activated_info =
  ac_hosts :: "string list"
  ac_anchor_name :: "string option"
  ac_anchor_pid :: nat
  ac_token :: string

definition activate_pending ::
  "lease_env \<Rightarrow> string \<Rightarrow> string \<Rightarrow> pending_request \<Rightarrow> string list \<Rightarrow> authorization \<Rightarrow> lease_world
     \<Rightarrow> activated_info \<times> lease_world" where
  "activate_pending E token i p resolved_hosts auth w =
     (\<lparr>ac_hosts = resolved_hosts, ac_anchor_name = an_name (pq_anchor p), ac_anchor_pid = an_pid (pq_anchor p),
       ac_token = token\<rparr>,
      w\<lparr>lw_pending := hm_remove i (lw_pending w),
        lw_active := lw_active w @ [\<lparr>al_anchor = pq_anchor p, al_hosts = set resolved_hosts,
           al_created_at = le_now E, al_last_used = le_now E, al_token = token, al_authorization = auth\<rparr>]\<rparr>)"

text \<open>A wrong master password counts against the request and drops it at the limit.\<close>

definition count_failure :: "string \<Rightarrow> pending_request \<Rightarrow> lease_world \<Rightarrow> lease_error \<times> lease_world" where
  "count_failure i p w =
     (let attempts = pq_failed_attempts p + 1 in
      if attempts \<ge> MAX_APPROVE_ATTEMPTS
      then (TooManyFailedAttempts MAX_APPROVE_ATTEMPTS, w\<lparr>lw_pending := hm_remove i (lw_pending w)\<rparr>)
      else (WrongMasterPassword (MAX_APPROVE_ATTEMPTS - attempts),
            w\<lparr>lw_pending := hm_insert i (p\<lparr>pq_failed_attempts := attempts\<rparr>) (lw_pending w)\<rparr>))"

definition approve_lease_for_chain_checked ::
  "lease_env \<Rightarrow> string \<Rightarrow> ancestor_info list \<Rightarrow> string \<Rightarrow> bytes \<Rightarrow> string list option \<Rightarrow> bool \<Rightarrow> bool \<Rightarrow> lease_world
     \<Rightarrow> (lease_error + activated_info) \<times> lease_world" where
  "approve_lease_for_chain_checked E token approver_chain i password approved_hosts
       enforce_self_approval cleanup_failed_preview w =
     (let w = prune_expired E w in
      case hm_get (lw_pending w) i of
        None \<Rightarrow> (Inl (NoSuchRequest i), w)
      | Some p \<Rightarrow>
          if enforce_self_approval \<and> chain_contains_anchor (pq_anchor p) approver_chain
          then (Inl (SelfApproval i (an_pid (pq_anchor p))), w)
          else if \<not> lease_vault_exists w then (Inl VaultRequired, w)
          else (case unlock_for_lease_at (re_vault_ext (le_route E)) (re_vault_io (le_route E)) password (lw_vault w) of
              (Inl WrongPassword, _) \<Rightarrow> (case count_failure i p w of (e, w) \<Rightarrow> (Inl e, w))
            | (Inl e, _) \<Rightarrow> (Inl (VaultError e), w)
            | (Inr _, v) \<Rightarrow>
                let p = p\<lparr>pq_failed_attempts := 0\<rparr>;
                    w = w\<lparr>lw_vault := v, lw_pending := hm_insert i p (lw_pending w)\<rparr>;
                    cleaned = (if cleanup_failed_preview \<and> lw_active w = [] then clear_vault_cache w else w)
                in (case expand_approval_hosts E w (pq_hosts p) of
                      Inl e \<Rightarrow> (Inl (RouteError e), cleaned)
                    | Inr resolved_hosts \<Rightarrow>
                        if approved_hosts \<noteq> None \<and> approved_hosts \<noteq> Some resolved_hosts
                        then (Inl (ApprovedHostsMismatch i (the approved_hosts) resolved_hosts), cleaned)
                        else (case activate_pending E token i p resolved_hosts Human w of
                                (info, w) \<Rightarrow> (Inr info, w)))))"

definition approve_lease ::
  "lease_env \<Rightarrow> string \<Rightarrow> ancestor_info list \<Rightarrow> string \<Rightarrow> bytes \<Rightarrow> string list \<Rightarrow> lease_world
     \<Rightarrow> (lease_error + activated_info) \<times> lease_world" where
  "approve_lease E token approver_chain i password approved_hosts w =
     approve_lease_for_chain_checked E token approver_chain i password (Some approved_hosts) True True w"

definition approve_lease_native ::
  "lease_env \<Rightarrow> string \<Rightarrow> string \<Rightarrow> bytes \<Rightarrow> string list \<Rightarrow> lease_world
     \<Rightarrow> (lease_error + activated_info) \<times> lease_world" where
  "approve_lease_native E token i password approved_hosts w =
     approve_lease_for_chain_checked E token [] i password (Some approved_hosts) False False w"

definition preview_native_approval ::
  "lease_env \<Rightarrow> (lease_world \<Rightarrow> lease_world) \<Rightarrow> lease_env \<Rightarrow> string \<Rightarrow> bytes \<Rightarrow> lease_world
     \<Rightarrow> (lease_error + string list) \<times> lease_world" where
  "preview_native_approval E others E' i password w =
     (let w = prune_expired E w in
      case hm_get (lw_pending w) i of
        None \<Rightarrow> (Inl (NoSuchRequest i), w)
      | Some p \<Rightarrow>
          if \<not> lease_vault_exists w then (Inl VaultRequired, w)
          else (case unlock_for_lease_at (re_vault_ext (le_route E)) (re_vault_io (le_route E)) password (lw_vault w) of
              (Inl WrongPassword, _) \<Rightarrow>
                (let w = prune_expired E' (others w) in
                 case hm_get (lw_pending w) i of
                   None \<Rightarrow> (Inl (NoSuchRequest i), w)
                 | Some p \<Rightarrow> (case count_failure i p w of (e, w) \<Rightarrow> (Inl e, w)))
            | (Inl e, _) \<Rightarrow> (Inl (VaultError e), w)
            | (Inr _, v) \<Rightarrow>
                let w = others (w\<lparr>lw_vault := v\<rparr>) in
                ((case expand_approval_hosts E' w (pq_hosts p) of
                    Inl e \<Rightarrow> Inl (RouteError e) | Inr hosts \<Rightarrow> Inr hosts), w)))"

definition discard_native_preview :: "lease_world \<Rightarrow> lease_world" where
  "discard_native_preview w = (if lw_active w = [] then clear_vault_cache w else w)"

datatype system_agent_outcome = NotEligible | Activated activated_info

text \<open>The second half of the automatic approval, under the re-acquired lock.\<close>

definition finish_system_agent ::
  "lease_env \<Rightarrow> string \<Rightarrow> string \<Rightarrow> string list \<Rightarrow> string list \<Rightarrow> lease_world
     \<Rightarrow> (lease_error + system_agent_outcome) \<times> lease_world" where
  "finish_system_agent E token i requested_hosts resolved_hosts w =
     (let w = prune_expired E w in
      case hm_get (lw_pending w) i of
        None \<Rightarrow> (Inl (NoSuchRequest i), w)
      | Some p \<Rightarrow>
          if pq_hosts p \<noteq> requested_hosts
          then (Inl (ApprovedHostsMismatch i requested_hosts (pq_hosts p)), w)
          else (case expand_approval_hosts E w (pq_hosts p) of
                  Inl e \<Rightarrow> (Inl (RouteError e), w)
                | Inr final \<Rightarrow>
                    if final \<noteq> resolved_hosts
                    then (Inl (ApprovedHostsMismatch i resolved_hosts final), w)
                    else (case lease_scope_agent_only E w final of
                            Inl e \<Rightarrow> (Inl (RouteError (SshConfig e)), w)
                          | Inr False \<Rightarrow> (Inr NotEligible, w)
                          | Inr True \<Rightarrow>
                              (case activate_pending E token i p final SystemAgent w of
                                 (info, w) \<Rightarrow> (Inr (Activated info), w)))))"

definition approve_lease_system_agent ::
  "lease_env \<Rightarrow> (lease_world \<Rightarrow> lease_world) \<Rightarrow> lease_env \<Rightarrow> string \<Rightarrow> string \<Rightarrow> string list option \<Rightarrow> lease_world
     \<Rightarrow> (lease_error + system_agent_outcome) \<times> lease_world" where
  "approve_lease_system_agent E others E' token i expected_hosts w =
     (let w = prune_expired E w in
      case hm_get (lw_pending w) i of
        None \<Rightarrow> (Inl (NoSuchRequest i), w)
      | Some p \<Rightarrow>
          let requested_hosts = pq_hosts p in
          if lease_vault_exists w \<and> \<not> fst (is_cached (le_idle E) (le_now E) (vw_cache (lw_vault w)))
             \<and> \<not> list_all (contains_alias (re_config (le_route E))) requested_hosts
          then (Inr NotEligible, w)
          else (case expand_approval_hosts E w requested_hosts of
                  Inl e \<Rightarrow> (Inl (RouteError e), w)
                | Inr resolved_hosts \<Rightarrow>
                    if expected_hosts \<noteq> None \<and> expected_hosts \<noteq> Some resolved_hosts
                    then (Inl (ApprovedHostsMismatch i (the expected_hosts) resolved_hosts), w)
                    else (case lease_scope_agent_only E w resolved_hosts of
                            Inl e \<Rightarrow> (Inl (RouteError (SshConfig e)), w)
                          | Inr False \<Rightarrow> (Inr NotEligible, w)
                          | Inr True \<Rightarrow>
                              finish_system_agent E' token i requested_hosts resolved_hosts (others w))))"

subsection \<open>Grants\<close>

definition host_scope_still_uses_system_agent :: "lease_env \<Rightarrow> lease_world \<Rightarrow> string \<Rightarrow> bool" where
  "host_scope_still_uses_system_agent E w host =
     (case expand_approval_hosts E w [host] of
        Inl _ \<Rightarrow> False
      | Inr expanded \<Rightarrow> (case lease_scope_agent_only E w expanded of Inl _ \<Rightarrow> False | Inr b \<Rightarrow> b))"

definition lease_matches :: "ancestor_info list \<Rightarrow> string \<Rightarrow> string option \<Rightarrow> active_lease \<Rightarrow> bool" where
  "lease_matches chain host lease_token l \<longleftrightarrow>
     host \<in> al_hosts l
     \<and> (lease_token = Some (al_token l) \<or> chain_contains_anchor (al_anchor l) chain)"

text \<open>
  The first match \<open>min_by_key\<close> prefers: a human-approved lease if there is one.
\<close>

definition pick_lease :: "(active_lease \<Rightarrow> bool) \<Rightarrow> active_lease list \<Rightarrow> nat option" where
  "pick_lease P active =
     (let candidates = filter (\<lambda>k. P (active ! k)) [0..<length active] in
      case find (\<lambda>k. al_authorization (active ! k) = Human) candidates of
        Some k \<Rightarrow> Some k
      | None \<Rightarrow> (case candidates of [] \<Rightarrow> None | k # _ \<Rightarrow> Some k))"

definition touch_at :: "bool \<Rightarrow> instant \<Rightarrow> nat \<Rightarrow> lease_world \<Rightarrow> lease_world" where
  "touch_at touch now k w =
     (if touch then w\<lparr>lw_active := (lw_active w)[k := (lw_active w ! k)\<lparr>al_last_used := now\<rparr>]\<rparr> else w)"

definition find_index :: "(active_lease \<Rightarrow> bool) \<Rightarrow> active_lease list \<Rightarrow> nat option" where
  "find_index P active = find (\<lambda>k. P (active ! k)) [0..<length active]"

definition recheck_system_agent ::
  "lease_env \<Rightarrow> string \<Rightarrow> string \<Rightarrow> bool \<Rightarrow> lease_world \<Rightarrow> bool \<times> lease_world" where
  "recheck_system_agent E token host touch w =
     (let w = prune_expired E w in
      case find_index (\<lambda>l. al_token l = token \<and> host \<in> al_hosts l \<and> al_authorization l = SystemAgent)
             (lw_active w) of
        None \<Rightarrow> (False, w)
      | Some k \<Rightarrow> (True, touch_at touch (le_now E) k w))"

definition resolve_grant_for_chain ::
  "lease_env \<Rightarrow> (lease_world \<Rightarrow> lease_world) \<Rightarrow> lease_env \<Rightarrow> ancestor_info list \<Rightarrow> string \<Rightarrow> string option
     \<Rightarrow> bool \<Rightarrow> lease_world \<Rightarrow> lease_grant option \<times> lease_world" where
  "resolve_grant_for_chain E others E' chain host lease_token touch w =
     (if le_bypass E then (Some (bypass_grant host), w)
      else
        let w = prune_expired E w in
        case pick_lease (lease_matches chain host lease_token) (lw_active w) of
          None \<Rightarrow> (None, w)
        | Some k \<Rightarrow>
            let l = lw_active w ! k;
                grant = \<lparr>lg_token = al_token l, lg_host = host, lg_authorization = al_authorization l\<rparr>
            in if al_authorization l \<noteq> SystemAgent then (Some grant, touch_at touch (le_now E) k w)
               else if \<not> host_scope_still_uses_system_agent E w host then (None, w)
               else (case recheck_system_agent E' (al_token l) host touch (others w) of
                       (ok, w) \<Rightarrow> ((if ok then Some grant else None), w)))"

definition grant_is_active ::
  "lease_env \<Rightarrow> (lease_world \<Rightarrow> lease_world) \<Rightarrow> lease_env \<Rightarrow> lease_grant \<Rightarrow> bool \<Rightarrow> lease_world
     \<Rightarrow> bool \<times> lease_world" where
  "grant_is_active E others E' grant touch w =
     (if lg_authorization grant = DangerousBypass then (le_bypass E, w)
      else
        let w = prune_expired E w in
        case find_index (\<lambda>l. al_token l = lg_token grant \<and> lg_host grant \<in> al_hosts l) (lw_active w) of
          None \<Rightarrow> (False, w)
        | Some k \<Rightarrow>
            if al_authorization (lw_active w ! k) \<noteq> SystemAgent then (True, touch_at touch (le_now E) k w)
            else if \<not> host_scope_still_uses_system_agent E w (lg_host grant) then (False, w)
            else recheck_system_agent E' (lg_token grant) (lg_host grant) touch (others w))"

record lease_summary =
  ls_hosts :: "string list"
  ls_anchor_name :: "string option"
  ls_anchor_pid :: nat
  ls_idle_remaining_secs :: nat

definition list_summaries :: "lease_env \<Rightarrow> lease_world \<Rightarrow> lease_summary list \<times> lease_world" where
  "list_summaries E w =
     (let w = prune_expired E w;
          out = map (\<lambda>l.
             let idle = duration_since (le_now E) (al_last_used l);
                 age = duration_since (le_now E) (al_created_at l)
             in \<lparr>ls_hosts = sorted_list_of_set (al_hosts l), ls_anchor_name = an_name (al_anchor l),
                 ls_anchor_pid = an_pid (al_anchor l),
                 ls_idle_remaining_secs = as_secs (min (le_idle E - idle) (MAX_LIFETIME - age))\<rparr>) (lw_active w)
      in (sort_key ls_anchor_pid out, w))"

subsection \<open>Two clocks\<close>

text \<open>
  What leases and the automatic vault unlock share: something created once and used from time
  to time is live while it is both younger than the absolute limit and used recently enough.
\<close>

locale two_clocks =
  fixes live :: "nat \<Rightarrow> instant \<Rightarrow> 'a \<Rightarrow> bool"
    and born :: "'a \<Rightarrow> instant"
    and used :: "'a \<Rightarrow> instant"
  assumes live_iff: "live idle now x \<longleftrightarrow>
    duration_since now (used x) < idle \<and> duration_since now (born x) < MAX_LIFETIME"
begin

lemma dead_stays_dead: "live idle now' x \<Longrightarrow> now \<le> now' \<Longrightarrow> live idle now x"
  using duration_since_mono[of now now'] unfolding live_iff by (meson le_less_trans)

lemma live_bounds: "live idle now x \<Longrightarrow> now < born x + MAX_LIFETIME \<and> now < used x + idle"
  unfolding live_iff by (auto simp: duration_since_def)

lemma prune_twice: "now \<le> now' \<Longrightarrow> filter (live idle now') (filter (live idle now) xs) = filter (live idle now') xs"
  using dead_stays_dead by (auto intro!: filter_cong simp: filter_filter)

end

interpretation lease_clock: two_clocks lease_live al_created_at al_last_used
  by unfold_locales (simp add: lease_live_def)

text \<open>The automatic vault unlock expires by the same two clocks.\<close>

definition bypass_live :: "nat \<Rightarrow> instant \<Rightarrow> instant \<times> instant \<Rightarrow> bool" where
  "bypass_live idle now o2 \<longleftrightarrow> \<not> bypass_expired idle now (BypassUnlock (fst o2) (snd o2))"

interpretation bypass_clock: two_clocks bypass_live fst snd
  by unfold_locales (auto simp: bypass_live_def bypass_expired_def)

subsection \<open>Pruning and lookups\<close>

lemma prune_active [simp]: "lw_active (prune_expired E w) = filter (lease_live (le_idle E) (le_now E)) (lw_active w)"
  by (simp add: prune_expired_def Let_def)

lemma prune_pending [simp]:
  "lw_pending (prune_expired E w) =
     filter (\<lambda>(_, p). duration_since (le_now E) (pq_created_at p) < PENDING_EXPIRY) (lw_pending w)"
  by (simp add: prune_expired_def Let_def)

lemma prune_disk [simp]: "vw_disk (lw_vault (prune_expired E w)) = vw_disk (lw_vault w)"
  by (simp add: prune_expired_def Let_def)

lemma find_index_SomeD:
  "find_index P active = Some k \<Longrightarrow> k < length active \<and> P (active ! k)"
  by (auto simp: find_index_def dest!: find_SomeD)

lemma pick_lease_SomeD:
  assumes "pick_lease P active = Some k"
  shows "k < length active \<and> P (active ! k)"
proof -
  let ?c = "filter (\<lambda>k. P (active ! k)) [0..<length active]"
  have "k \<in> set ?c"
  proof (cases "find (\<lambda>k. al_authorization (active ! k) = Human) ?c")
    case None
    with assms have "case ?c of [] \<Rightarrow> False | j # _ \<Rightarrow> k = j"
      by (simp add: pick_lease_def split: list.splits)
    then show ?thesis by (cases ?c) (auto simp del: filter.simps)
  next
    case (Some j)
    with assms have "j = k" by (simp add: pick_lease_def)
    with find_SomeD[OF Some] show ?thesis by simp
  qed
  then show ?thesis by auto
qed

text \<open>Two records of one lease differ at most in their last use.\<close>

definition same_lease :: "active_lease \<Rightarrow> active_lease \<Rightarrow> bool" where
  "same_lease a l \<longleftrightarrow> a\<lparr>al_last_used := 0\<rparr> = l\<lparr>al_last_used := 0\<rparr>"

lemma same_lease_fields:
  "same_lease a l \<Longrightarrow> al_anchor a = al_anchor l \<and> al_hosts a = al_hosts l \<and> al_created_at a = al_created_at l
     \<and> al_token a = al_token l \<and> al_authorization a = al_authorization l"
  by (cases a; cases l) (simp add: same_lease_def)

lemma same_lease_refl [simp]: "same_lease l l"
  by (simp add: same_lease_def)

lemma same_lease_touch [simp]: "same_lease a (l\<lparr>al_last_used := t\<rparr>) \<longleftrightarrow> same_lease a l"
  by (simp add: same_lease_def)

text \<open>Operations that grant nothing only keep leases, possibly touched.\<close>

definition kept :: "active_lease list \<Rightarrow> active_lease list \<Rightarrow> bool" where
  "kept old new \<longleftrightarrow> (\<forall>l\<in>set new. \<exists>a\<in>set old. same_lease a l)"

lemma kept_refl [simp]: "kept xs xs"
  using same_lease_refl by (fastforce simp: kept_def simp del: same_lease_refl)

lemma kept_trans: "kept xs ys \<Longrightarrow> kept ys zs \<Longrightarrow> kept xs zs"
  unfolding kept_def same_lease_def by metis

lemma kept_filter [simp]: "kept xs (filter P xs)"
  using same_lease_refl by (fastforce simp: kept_def simp del: same_lease_refl)

lemma kept_touch_at: "k < length (lw_active w) \<Longrightarrow> kept (lw_active w) (lw_active (touch_at touch now k w))"
proof -
  assume k: "k < length (lw_active w)"
  have "\<exists>a\<in>set (lw_active w). same_lease a l"
    if "l \<in> insert ((lw_active w ! k)\<lparr>al_last_used := now\<rparr>) (set (lw_active w))" for l
    using that k by (metis insertE nth_mem same_lease_refl same_lease_touch)
  then show ?thesis
    using set_update_subset_insert[of "lw_active w" k] by (fastforce simp: kept_def touch_at_def)
qed

lemma kept_touch_anchored: "kept xs (touch_anchored now chain xs)"
  by (force simp: kept_def touch_anchored_def)

lemma kept_prune: "kept (lw_active w) (lw_active (prune_expired E w))"
  by simp

lemma kept_recheck: "recheck_system_agent E token host touch w = (ok, w') \<Longrightarrow> kept (lw_active w) (lw_active w')"
  by (auto simp: recheck_system_agent_def Let_def split: option.splits dest!: find_index_SomeD
      intro: kept_trans[OF kept_prune kept_touch_at])

lemma kept_request:
  "request_lease_for_chain E draws chain hosts w = Some (r, w') \<Longrightarrow> kept (lw_active w) (lw_active w')"
  by (auto simp: request_lease_for_chain_def Let_def split: if_splits option.splits
      intro: kept_trans[OF kept_filter kept_touch_anchored])

subsection \<open>Approvals and runs\<close>

datatype approval_proof = HumanProof bytes "ancestor_info list" bool | AgentProof

text \<open>What an approval was decided on: recorded for every lease a run activates.\<close>

record approval =
  ap_lease :: active_lease
  ap_requested :: "string list"
  ap_env :: lease_env
  ap_world :: lease_world
  ap_proof :: approval_proof

text \<open>
  A genuine approval covers exactly the expansion of what was requested, computed when it was
  decided. A human's was made with a password that decrypts the vault and, where the guard
  applies, from outside the requester's process tree; an automatic one only covers hosts
  that authenticate through the default system agent.
\<close>

definition genuine :: "approval \<Rightarrow> bool" where
  "genuine ap \<longleftrightarrow>
     (let E = ap_env ap; w = ap_world ap; l = ap_lease ap in
      al_created_at l = le_now E
      \<and> (\<exists>hosts. expand_approval_hosts E w (ap_requested ap) = Inr hosts \<and> al_hosts l = set hosts
           \<and> (case ap_proof ap of
                HumanProof password chain enforced \<Rightarrow>
                  al_authorization l = Human
                  \<and> (\<exists>contents. unlock_at (re_vault_ext (le_route E)) (re_vault_io (le_route E)) password
                        (vw_disk (lw_vault w)) = Inr contents)
                  \<and> (enforced \<longrightarrow> \<not> chain_contains_anchor (al_anchor l) chain)
              | AgentProof \<Rightarrow>
                  al_authorization l = SystemAgent \<and> lease_scope_agent_only E w hosts = Inr True)))"

definition human_record ::
  "lease_env \<Rightarrow> ancestor_info list \<Rightarrow> string \<Rightarrow> bytes \<Rightarrow> bool \<Rightarrow> lease_world \<Rightarrow> lease_world \<Rightarrow> approval" where
  "human_record E chain i password enforced w w' =
     (let w1 = prune_expired E w;
          p = (the (hm_get (lw_pending w1) i))\<lparr>pq_failed_attempts := 0\<rparr>;
          v = snd (unlock_for_lease_at (re_vault_ext (le_route E)) (re_vault_io (le_route E)) password (lw_vault w1))
      in \<lparr>ap_lease = last (lw_active w'), ap_requested = pq_hosts p, ap_env = E,
          ap_world = w1\<lparr>lw_vault := v, lw_pending := hm_insert i p (lw_pending w1)\<rparr>,
          ap_proof = HumanProof password chain enforced\<rparr>)"

definition agent_record :: "lease_env \<Rightarrow> string \<Rightarrow> lease_world \<Rightarrow> lease_world \<Rightarrow> approval" where
  "agent_record E i w w' =
     (let w1 = prune_expired E w in
      \<lparr>ap_lease = last (lw_active w'), ap_requested = pq_hosts (the (hm_get (lw_pending w1) i)), ap_env = E,
       ap_world = w1, ap_proof = AgentProof\<rparr>)"

lemma populate_disk: "populate_cache_at X io password ow v = (r, v') \<Longrightarrow> vw_disk v' = vw_disk v"
  by (auto simp: populate_cache_at_def split: sum.splits)

lemma populate_unlocks:
  "populate_cache_at X io password ow v = (Inr u, v') \<Longrightarrow> \<exists>hosts. unlock_at X io password (vw_disk v) = Inr hosts"
  by (auto simp: populate_cache_at_def unlock_at_def split: sum.splits)

text \<open>What a successful approval did.\<close>

lemma approve_success:
  assumes "approve_lease_for_chain_checked E token chain i password approved enforced cleanup w = (Inr info, w')"
  obtains p u v hosts where
    "hm_get (lw_pending (prune_expired E w)) i = Some p"
    "\<not> (enforced \<and> chain_contains_anchor (pq_anchor p) chain)"
    "lease_vault_exists w"
    "unlock_for_lease_at (re_vault_ext (le_route E)) (re_vault_io (le_route E)) password
       (lw_vault (prune_expired E w)) = (Inr u, v)"
    "expand_approval_hosts E ((prune_expired E w)\<lparr>lw_vault := v,
        lw_pending := hm_insert i (p\<lparr>pq_failed_attempts := 0\<rparr>) (lw_pending (prune_expired E w))\<rparr>) (pq_hosts p) = Inr hosts"
    "approved = None \<or> approved = Some hosts"
    "lw_active w' = lw_active (prune_expired E w) @
       [\<lparr>al_anchor = pq_anchor p, al_hosts = set hosts, al_created_at = le_now E, al_last_used = le_now E,
         al_token = token, al_authorization = Human\<rparr>]"
    "lw_pending w' = hm_remove i (hm_insert i (p\<lparr>pq_failed_attempts := 0\<rparr>) (lw_pending (prune_expired E w)))"
    "ac_hosts info = hosts" "ac_token info = token"
proof -
  obtain p where p: "hm_get (lw_pending (prune_expired E w)) i = Some p"
    "\<not> (enforced \<and> chain_contains_anchor (pq_anchor p) chain)" "lease_vault_exists (prune_expired E w)"
    using assms unfolding approve_lease_for_chain_checked_def Let_def
    by (auto simp del: prune_pending split: option.splits if_splits)
  obtain q v where u: "unlock_for_lease_at (re_vault_ext (le_route E)) (re_vault_io (le_route E)) password
       (lw_vault (prune_expired E w)) = (q, v)"
    by fastforce
  note body = assms[unfolded approve_lease_for_chain_checked_def Let_def, simplified p(1) u option.case prod.case]
  have "\<exists>x. q = Inr x"
    using body p(2,3) by (auto simp: count_failure_def Let_def split: sum.splits vault_error.splits if_splits)
  then obtain x where x: "q = Inr x" by blast
  let ?p = "p\<lparr>pq_failed_attempts := 0\<rparr>"
  let ?w = "(prune_expired E w)\<lparr>lw_vault := v, lw_pending := hm_insert i ?p (lw_pending (prune_expired E w))\<rparr>"
  obtain hosts where h: "expand_approval_hosts E ?w (pq_hosts p) = Inr hosts"
    using body p(2,3) x by (auto split: sum.splits if_splits)
  have "approved = None \<or> approved = Some hosts"
    using body p(2,3) x h by (auto split: if_splits)
  moreover have "lw_active w' = lw_active ?w @
       [\<lparr>al_anchor = pq_anchor p, al_hosts = set hosts, al_created_at = le_now E, al_last_used = le_now E,
         al_token = token, al_authorization = Human\<rparr>] \<and> lw_pending w' = hm_remove i (lw_pending ?w)
       \<and> ac_hosts info = hosts \<and> ac_token info = token"
    using body p(2,3) x h by (auto simp: activate_pending_def split: if_splits)
  ultimately show ?thesis
    using that[OF p(1,2) _ u[unfolded x] h] p(3) by (simp add: lease_vault_exists_def)
qed

lemma approve_failure:
  assumes "approve_lease_for_chain_checked E token chain i password approved enforced cleanup w = (Inl e, w')"
  shows "lw_active w' = lw_active (prune_expired E w)"
  using assms unfolding approve_lease_for_chain_checked_def Let_def
  by (auto simp: count_failure_def clear_vault_cache_def Let_def activate_pending_def
      simp del: prune_pending split: option.splits if_splits sum.splits vault_error.splits prod.splits)

lemma human_record_genuine:
  assumes "approve_lease_for_chain_checked E token chain i password approved enforced cleanup w = (Inr info, w')"
  shows "genuine (human_record E chain i password enforced w w')"
  using assms
proof (rule approve_success)
  fix p u v hosts
  assume a: "hm_get (lw_pending (prune_expired E w)) i = Some p"
    "\<not> (enforced \<and> chain_contains_anchor (pq_anchor p) chain)"
    "unlock_for_lease_at (re_vault_ext (le_route E)) (re_vault_io (le_route E)) password
       (lw_vault (prune_expired E w)) = (Inr u, v)"
    "expand_approval_hosts E ((prune_expired E w)\<lparr>lw_vault := v,
        lw_pending := hm_insert i (p\<lparr>pq_failed_attempts := 0\<rparr>) (lw_pending (prune_expired E w))\<rparr>) (pq_hosts p) = Inr hosts"
    "lw_active w' = lw_active (prune_expired E w) @
       [\<lparr>al_anchor = pq_anchor p, al_hosts = set hosts, al_created_at = le_now E, al_last_used = le_now E,
         al_token = token, al_authorization = Human\<rparr>]"
  have d: "vw_disk v = vw_disk (lw_vault w)"
    using populate_disk[OF a(3)[unfolded unlock_for_lease_at_def]] by simp
  have "\<exists>contents. unlock_at (re_vault_ext (le_route E)) (re_vault_io (le_route E)) password (vw_disk v) = Inr contents"
    using populate_unlocks[OF a(3)[unfolded unlock_for_lease_at_def]] by (simp add: d)
  then show ?thesis
    using a by (simp add: human_record_def genuine_def Let_def del: prune_pending prune_active)
qed

lemma finish_success:
  assumes "finish_system_agent E token i requested resolved_hosts w = (Inr (Activated info), w')"
  obtains p hosts where
    "hm_get (lw_pending (prune_expired E w)) i = Some p"
    "expand_approval_hosts E (prune_expired E w) (pq_hosts p) = Inr hosts"
    "lease_scope_agent_only E (prune_expired E w) hosts = Inr True"
    "lw_active w' = lw_active (prune_expired E w) @
       [\<lparr>al_anchor = pq_anchor p, al_hosts = set hosts, al_created_at = le_now E, al_last_used = le_now E,
         al_token = token, al_authorization = SystemAgent\<rparr>]"
    "lw_pending w' = hm_remove i (lw_pending (prune_expired E w))"
  using assms that unfolding finish_system_agent_def Let_def
  by (auto simp: activate_pending_def simp del: prune_pending prune_active
      split: option.splits if_splits sum.splits bool.splits prod.splits)

lemma finish_other:
  assumes "finish_system_agent E token i requested resolved_hosts w = (r, w')" and "\<And>info. r \<noteq> Inr (Activated info)"
  shows "w' = prune_expired E w"
  using assms unfolding finish_system_agent_def Let_def
  by (auto simp: activate_pending_def simp del: prune_pending prune_active
      split: option.splits if_splits sum.splits bool.splits prod.splits)

lemma agent_record_genuine:
  assumes "finish_system_agent E token i requested resolved_hosts w = (Inr (Activated info), w')"
  shows "genuine (agent_record E i w w')"
  using assms
  by (rule finish_success) (simp add: agent_record_def genuine_def Let_def del: prune_pending prune_active)

text \<open>
  The automatic approval is its first half (which only prunes), what others do, and the
  second half; or it ends in the first half.
\<close>

lemma system_agent_cases:
  assumes "approve_lease_system_agent E others E' token i expected w = (r, w')"
  obtains (refused) "w' = prune_expired E w" "\<And>info. r \<noteq> Inr (Activated info)"
  | (finished) requested resolved_hosts where
      "finish_system_agent E' token i requested resolved_hosts (others (prune_expired E w)) = (r, w')"
  using assms that unfolding approve_lease_system_agent_def Let_def
  by (auto simp del: prune_pending prune_active split: option.splits if_splits sum.splits bool.splits)

lemma kept_grant:
  assumes "resolve_grant_for_chain E others E' chain host lease_token touch w = (r, w')"
  shows "kept (lw_active w) (lw_active w') \<or> kept (lw_active (others (prune_expired E w))) (lw_active w')"
proof (cases "le_bypass E")
  case True
  with assms show ?thesis by (auto simp: resolve_grant_for_chain_def)
next
  case False
  let ?w = "prune_expired E w"
  show ?thesis
  proof (cases "pick_lease (lease_matches chain host lease_token) (lw_active ?w)")
    case None
    with assms False show ?thesis
      by (auto simp: resolve_grant_for_chain_def Let_def simp del: prune_active intro!: disjI1 kept_prune)
  next
    case (Some k)
    have k: "k < length (lw_active ?w)" using pick_lease_SomeD[OF Some] by simp
    show ?thesis
    proof (cases "al_authorization (lw_active ?w ! k) \<noteq> SystemAgent \<or> \<not> host_scope_still_uses_system_agent E ?w host")
      case True
      then have "w' = ?w \<or> w' = touch_at touch (le_now E) k ?w"
        using assms False Some
        by (auto simp: resolve_grant_for_chain_def Let_def simp del: prune_active split: if_splits)
      then show ?thesis using kept_trans[OF kept_prune kept_touch_at[OF k]] kept_prune by blast
    next
      case sa: False
      obtain ok w2 where re: "recheck_system_agent E' (al_token (lw_active ?w ! k)) host touch (others ?w) = (ok, w2)"
        by fastforce
      then have "w' = w2"
        using assms False Some sa
        by (auto simp: resolve_grant_for_chain_def Let_def simp del: prune_active)
      with kept_recheck[OF re] show ?thesis by simp
    qed
  qed
qed

lemma kept_check:
  assumes "grant_is_active E others E' grant touch w = (r, w')"
  shows "kept (lw_active w) (lw_active w') \<or> kept (lw_active (others (prune_expired E w))) (lw_active w')"
proof (cases "lg_authorization grant = DangerousBypass")
  case True
  with assms show ?thesis by (auto simp: grant_is_active_def)
next
  case False
  let ?w = "prune_expired E w"
  show ?thesis
  proof (cases "find_index (\<lambda>l. al_token l = lg_token grant \<and> lg_host grant \<in> al_hosts l) (lw_active ?w)")
    case None
    with assms False show ?thesis
      by (auto simp: grant_is_active_def Let_def simp del: prune_active intro!: disjI1 kept_prune)
  next
    case (Some k)
    have k: "k < length (lw_active ?w)" using find_index_SomeD[OF Some] by simp
    show ?thesis
    proof (cases "al_authorization (lw_active ?w ! k) \<noteq> SystemAgent
        \<or> \<not> host_scope_still_uses_system_agent E ?w (lg_host grant)")
      case True
      then have "w' = ?w \<or> w' = touch_at touch (le_now E) k ?w"
        using assms False Some
        by (auto simp: grant_is_active_def Let_def simp del: prune_active split: if_splits)
      then show ?thesis using kept_trans[OF kept_prune kept_touch_at[OF k]] kept_prune by blast
    next
      case sa: False
      have re: "recheck_system_agent E' (lg_token grant) (lg_host grant) touch (others ?w) = (r, w')"
        using assms False Some sa
        by (auto simp: grant_is_active_def Let_def simp del: prune_active)
      from kept_recheck[OF re] show ?thesis by simp
    qed
  qed
qed

inductive lease_reachable :: "lease_world \<Rightarrow> approval list \<Rightarrow> bool" where
  start: "lw_pending w = [] \<Longrightarrow> lw_active w = [] \<Longrightarrow> lease_reachable w []"
| sweep: "lease_reachable w H \<Longrightarrow> lease_reachable (prune_expired E w) H"
| vault: "lease_reachable w H \<Longrightarrow> lease_reachable (w\<lparr>lw_vault := v\<rparr>) H"
| request: "\<lbrakk> lease_reachable w H; request_lease_for_chain E draws chain hosts w = Some (r, w') \<rbrakk>
     \<Longrightarrow> lease_reachable w' H"
| approve_failed:
    "\<lbrakk> lease_reachable w H;
       approve_lease_for_chain_checked E token chain i password approved enforced cleanup w = (Inl e, w') \<rbrakk>
     \<Longrightarrow> lease_reachable w' H"
| approved:
    "\<lbrakk> lease_reachable w H;
       approve_lease_for_chain_checked E token chain i password approved enforced cleanup w = (Inr info, w') \<rbrakk>
     \<Longrightarrow> lease_reachable w' (human_record E chain i password enforced w w' # H)"
| preview:
    "\<lbrakk> lease_reachable w H; preview_native_approval E others E' i password w = (r, w');
       \<And>v. lease_reachable (others ((prune_expired E w)\<lparr>lw_vault := v\<rparr>)) H'; set H \<subseteq> set H' \<rbrakk>
     \<Longrightarrow> lease_reachable w' H'"
| discard: "lease_reachable w H \<Longrightarrow> lease_reachable (discard_native_preview w) H"
| agent_refused:
    "\<lbrakk> lease_reachable w H; lease_reachable (others (prune_expired E w)) H'; set H \<subseteq> set H';
       approve_lease_system_agent E others E' token i expected w = (r, w'); \<And>info. r \<noteq> Inr (Activated info) \<rbrakk>
     \<Longrightarrow> lease_reachable w' H'"
| agent_approved:
    "\<lbrakk> lease_reachable w H; lease_reachable (others (prune_expired E w)) H'; set H \<subseteq> set H';
       approve_lease_system_agent E others E' token i expected w = (Inr (Activated info), w') \<rbrakk>
     \<Longrightarrow> lease_reachable w' (agent_record E' i (others (prune_expired E w)) w' # H')"
| grant:
    "\<lbrakk> lease_reachable w H; lease_reachable (others (prune_expired E w)) H'; set H \<subseteq> set H';
       resolve_grant_for_chain E others E' chain host lease_token touch w = (r, w') \<rbrakk>
     \<Longrightarrow> lease_reachable w' H'"
| check_grant:
    "\<lbrakk> lease_reachable w H; lease_reachable (others (prune_expired E w)) H'; set H \<subseteq> set H';
       grant_is_active E others E' g touch w = (ok, w') \<rbrakk>
     \<Longrightarrow> lease_reachable w' H'"

definition backed :: "lease_world \<Rightarrow> approval list \<Rightarrow> bool" where
  "backed w H \<longleftrightarrow> (\<forall>ap\<in>set H. genuine ap) \<and> kept (map ap_lease H) (lw_active w)"

lemma kept_mono: "kept xs zs \<Longrightarrow> set xs \<subseteq> set ys \<Longrightarrow> kept ys zs"
  unfolding kept_def by blast

lemma backed_kept: "backed w H \<Longrightarrow> kept (lw_active w) (lw_active w') \<Longrightarrow> backed w' H"
  unfolding backed_def by (metis kept_trans)

lemma backed_more: "backed w H \<Longrightarrow> backed w1 H' \<Longrightarrow> set H \<subseteq> set H' \<Longrightarrow> kept (lw_active w) (lw_active w') \<Longrightarrow> backed w' H'"
  unfolding backed_def by (metis kept_trans kept_mono image_mono list.set_map)

lemma backed_new:
  assumes "backed w H" and "lw_active w' = kept_leases @ [l]" and "kept (lw_active w) kept_leases"
    and "genuine ap" and "ap_lease ap = last (lw_active w')"
  shows "backed w' (ap # H)"
proof -
  have "kept (map ap_lease H) kept_leases" using assms(1,3) unfolding backed_def by (metis kept_trans)
  then have "kept (map ap_lease (ap # H)) (kept_leases @ [l])"
    using assms(2,5) by (auto simp: kept_def)
  then show ?thesis using assms(1,2,4) by (simp add: backed_def)
qed

lemma preview_cases:
  assumes "preview_native_approval E others E' i password w = (r, w')"
  shows "lw_active w' = lw_active (prune_expired E w)
    \<or> (\<exists>v. kept (lw_active (others ((prune_expired E w)\<lparr>lw_vault := v\<rparr>))) (lw_active w'))"
proof -
  have self: "(prune_expired E w)\<lparr>lw_vault := lw_vault (prune_expired E w)\<rparr> = prune_expired E w" by simp
  have c: "kept (lw_active (others (prune_expired E w))) (lw_active w') \<Longrightarrow> ?thesis" using self by metis
  show ?thesis
    using assms c unfolding preview_native_approval_def Let_def
    by (auto simp: count_failure_def Let_def simp del: prune_pending
        split: option.splits if_splits sum.splits vault_error.splits prod.splits intro: kept_refl)
qed

lemma discard_active [simp]: "lw_active (discard_native_preview w) = lw_active w"
  by (simp add: discard_native_preview_def clear_vault_cache_def)

lemma reachable_backed: "lease_reachable w H \<Longrightarrow> backed w H"
proof (induction rule: lease_reachable.induct)
  case (start w)
  then show ?case by (simp add: backed_def kept_def)
next
  case (sweep w H E)
  then show ?case by (auto intro: backed_kept simp del: prune_active simp: kept_prune)
next
  case (vault w H v)
  then show ?case by (auto elim: backed_kept)
next
  case (request w H E draws chain hosts r w')
  then show ?case using backed_kept kept_request by blast
next
  case (approve_failed w H E token chain i password approved enforced cleanup e w')
  then show ?case using backed_kept[of w H w'] by (simp add: approve_failure)
next
  case (approved w H E token chain i password approved enforced cleanup info w')
  have g: "genuine (human_record E chain i password enforced w w')"
    using approved(2) by (rule human_record_genuine)
  obtain l where l: "lw_active w' = lw_active (prune_expired E w) @ [l]"
    using approved(2) by (rule approve_success) blast
  show ?case by (rule backed_new[OF approved.IH l kept_prune g]) (simp add: human_record_def Let_def)
next
  case (preview w H E others E' i password r w' H')
  from preview_cases[OF preview(2)] show ?case
  proof
    assume "lw_active w' = lw_active (prune_expired E w)"
    then have "kept (lw_active w) (lw_active w')" by (simp only: kept_prune)
    then show ?thesis using backed_more preview by blast
  next
    assume "\<exists>v. kept (lw_active (others ((prune_expired E w)\<lparr>lw_vault := v\<rparr>))) (lw_active w')"
    then show ?thesis using backed_kept preview by blast
  qed
next
  case (discard w H)
  then show ?case by (auto elim: backed_kept)
next
  case (agent_refused w H others E H' E' token i expected r w')
  from agent_refused(4) show ?case
  proof (cases rule: system_agent_cases)
    case refused
    then show ?thesis
      using backed_more[OF agent_refused.IH] agent_refused(3) by (simp del: prune_active add: kept_prune)
  next
    case (finished requested resolved_hosts)
    from finish_other[OF this agent_refused(5)] show ?thesis
      using backed_kept[OF agent_refused.IH(2)] by (simp del: prune_active add: kept_prune)
  qed
next
  case (agent_approved w H others E H' E' token i expected info w')
  from agent_approved(4) show ?case
  proof (cases rule: system_agent_cases)
    case (finished requested resolved_hosts)
    have g: "genuine (agent_record E' i (others (prune_expired E w)) w')"
      using finished by (rule agent_record_genuine)
    obtain l where l: "lw_active w' = lw_active (prune_expired E' (others (prune_expired E w))) @ [l]"
      using finished by (rule finish_success) blast
    show ?thesis
      by (rule backed_new[OF agent_approved.IH(2) l kept_prune g]) (simp add: agent_record_def Let_def)
  qed blast
next
  case (grant w H others E H' E' chain host lease_token touch r w')
  from kept_grant[OF grant(4)] show ?case using backed_more backed_kept grant by metis
next
  case (check_grant w H others E H' E' g touch ok w')
  from kept_check[OF check_grant(4)] show ?case using backed_more backed_kept check_grant by metis
qed

subsection \<open>Properties of leases\<close>

text \<open>The approval behind a grant.\<close>

lemma grant_approved:
  assumes "lease_reachable w H" and "\<not> le_bypass E"
    and "resolve_grant_for_chain E others E' chain host lease_token touch w = (Some g, w')"
  shows "\<exists>ap\<in>set H. genuine ap \<and> host \<in> al_hosts (ap_lease ap)
    \<and> le_now E < al_created_at (ap_lease ap) + MAX_LIFETIME
    \<and> lg_host g = host \<and> lg_token g = al_token (ap_lease ap)
    \<and> lg_authorization g = al_authorization (ap_lease ap)
    \<and> (lease_token = Some (al_token (ap_lease ap)) \<or> chain_contains_anchor (al_anchor (ap_lease ap)) chain)
    \<and> (lg_authorization g = SystemAgent \<longrightarrow> host_scope_still_uses_system_agent E (prune_expired E w) host)"
proof -
  let ?w = "prune_expired E w"
  obtain k where k: "pick_lease (lease_matches chain host lease_token) (lw_active ?w) = Some k"
    using assms(2,3) by (auto simp: resolve_grant_for_chain_def Let_def simp del: prune_active split: option.splits)
  let ?l = "lw_active ?w ! k"
  have l: "k < length (lw_active ?w)" "lease_matches chain host lease_token ?l"
    using pick_lease_SomeD[OF k] by auto
  have g: "g = \<lparr>lg_token = al_token ?l, lg_host = host, lg_authorization = al_authorization ?l\<rparr>"
    "al_authorization ?l = SystemAgent \<longrightarrow> host_scope_still_uses_system_agent E ?w host"
    using assms(2,3) k
    by (auto simp: resolve_grant_for_chain_def Let_def simp del: prune_active
        split: if_splits option.splits prod.splits)
  have mem: "?l \<in> set (lw_active w)" and live: "lease_live (le_idle E) (le_now E) ?l"
    using nth_mem[OF l(1)] by simp_all
  obtain ap where ap: "ap \<in> set H" "genuine ap" "same_lease (ap_lease ap) ?l"
    using reachable_backed[OF assms(1)] mem unfolding backed_def kept_def by auto
  note same = same_lease_fields[OF ap(3)]
  show ?thesis
    using ap l(2) g same lease_clock.live_bounds[OF live]
    by (intro bexI[OF _ ap(1)]) (auto simp: lease_matches_def)
qed

text \<open>
  C1: authority comes only from a recent, genuine approval. In every reachable state, if an
  operation for a host is granted outside bypass mode, some approval in the daemon's history
  covers exactly the expanded scope of its request, that host included; it was made by a
  human with a password that decrypts the vault, from outside the requester's process tree
  where the guard applies, or by policy for hosts confined to the system agent, in which case
  the host was found to be confined again now; it is less than eight hours old; and the caller
  presents the lease's token or descends from the anchored process instance, PID and start
  time both.
\<close>

theorem grant_needs_recent_approval:
  assumes "lease_reachable w H" and "\<not> le_bypass E"
    and "resolve_grant_for_chain E others E' chain host lease_token touch w = (Some g, w')"
  shows "\<exists>ap\<in>set H. genuine ap \<and> host \<in> al_hosts (ap_lease ap)
    \<and> le_now E < al_created_at (ap_lease ap) + MAX_LIFETIME
    \<and> lg_host g = host \<and> lg_token g = al_token (ap_lease ap)
    \<and> lg_authorization g = al_authorization (ap_lease ap)
    \<and> (lease_token = Some (al_token (ap_lease ap)) \<or> chain_contains_anchor (al_anchor (ap_lease ap)) chain)
    \<and> (lg_authorization g = SystemAgent \<longrightarrow> host_scope_still_uses_system_agent E (prune_expired E w) host)"
  using assms by (rule grant_approved)


inductive wrong_run :: "string \<Rightarrow> lease_world \<Rightarrow> nat \<Rightarrow> lease_world \<Rightarrow> bool" for i where
  none: "wrong_run i w 0 w"
| more: "\<lbrakk> wrong_run i w n w';
    approve_lease_for_chain_checked E token chain i password approved enforced cleanup w'
      = (Inl (WrongMasterPassword remaining), w'') \<rbrakk> \<Longrightarrow> wrong_run i w (Suc n) w''"

lemma wrong_password_counted:
  assumes "approve_lease_for_chain_checked E token chain i password approved enforced cleanup w
      = (Inl (WrongMasterPassword remaining), w')"
    and "hm_get (lw_pending w) i = Some p" and "hm_ok (lw_pending w)"
  shows "\<exists>p'. hm_get (lw_pending w') i = Some p' \<and> pq_failed_attempts p' = Suc (pq_failed_attempts p)
    \<and> Suc (pq_failed_attempts p) + remaining = MAX_APPROVE_ATTEMPTS \<and> 0 < remaining \<and> hm_ok (lw_pending w')"
proof -
  obtain q where q: "hm_get (lw_pending (prune_expired E w)) i = Some q"
    using assms(1) unfolding approve_lease_for_chain_checked_def Let_def
    by (auto simp del: prune_pending split: option.splits)
  then have "q = p"
    using assms(2,3) hm_get_filter[OF assms(3), of "\<lambda>_ p. duration_since (le_now E) (pq_created_at p) < PENDING_EXPIRY" i]
    by (simp split: if_splits)
  have "hm_ok (lw_pending (prune_expired E w))" using assms(3) by (simp add: split_def)
  with assms(1) q \<open>q = p\<close> show ?thesis unfolding approve_lease_for_chain_checked_def Let_def
    by (auto simp: count_failure_def Let_def simp del: prune_pending
        split: if_splits sum.splits vault_error.splits prod.splits)
qed

text \<open>
  C33: a pending request tolerates at most four wrong master passwords in a row: however
  many approvals are answered with a wrong password, their number and the failures counted
  before stay below five together, and the request carries the exact count.
\<close>

theorem password_guess_budget:
  assumes "hm_get (lw_pending w) i = Some p" and "hm_ok (lw_pending w)"
    and "pq_failed_attempts p < MAX_APPROVE_ATTEMPTS" and "wrong_run i w n w'"
  shows "n + pq_failed_attempts p < MAX_APPROVE_ATTEMPTS
    \<and> (\<exists>p'. hm_get (lw_pending w') i = Some p' \<and> pq_failed_attempts p' = pq_failed_attempts p + n)"
proof -
  have "n + pq_failed_attempts p < MAX_APPROVE_ATTEMPTS \<and> hm_ok (lw_pending w')
    \<and> (\<exists>p'. hm_get (lw_pending w') i = Some p' \<and> pq_failed_attempts p' = pq_failed_attempts p + n)"
    using assms(4,1-3)
  proof (induction rule: wrong_run.induct)
    case (more w n w' E token chain password approved enforced cleanup remaining w'')
    then obtain p' where p': "hm_ok (lw_pending w')" "hm_get (lw_pending w') i = Some p'"
      "pq_failed_attempts p' = pq_failed_attempts p + n" by blast
    from wrong_password_counted[OF more.hyps(2) p'(2,1)] p'(3) show ?case by auto
  qed simp
  then show ?thesis by blast
qed

text \<open>
  C40: looking is not using. However often a grant is peeked at, by the periodic sweeps of
  long-lived work say, its lease still expires: once every lease that could back it is idle
  for the timeout, the grant is refused.
\<close>

theorem peeking_never_extends:
  assumes "\<forall>l\<in>set (lw_active w). al_token l = lg_token g \<longrightarrow> al_last_used l + idle \<le> t"
    and "t \<le> le_now E" and "le_idle E \<le> idle" and "lg_authorization g \<noteq> DangerousBypass"
  shows "\<not> fst (grant_is_active E id E' g touch
           (fold (\<lambda>(P, h) v. snd (grant_is_active P id P h False v)) peeks w))"
proof -
  have peek: "set (lw_active (snd (grant_is_active P id P h False v))) \<subseteq> set (lw_active v)" for P h v
    by (auto simp: grant_is_active_def recheck_system_agent_def touch_at_def Let_def
        split: option.splits if_splits)
  have sub: "set (lw_active (fold (\<lambda>(P, h) v. snd (grant_is_active P id P h False v)) peeks w))
      \<subseteq> set (lw_active w)"
  proof (induction peeks arbitrary: w)
    case (Cons Ph peeks)
    obtain P h where Ph: "Ph = (P, h)" by (cases Ph)
    from Cons.IH[of "snd (grant_is_active P id P h False w)"] peek[of P h w] show ?case
      unfolding Ph fold.simps comp_apply prod.case by (rule subset_trans)
  qed simp
  let ?v = "fold (\<lambda>(P, h) v. snd (grant_is_active P id P h False v)) peeks w"
  have "al_token l \<noteq> lg_token g" if "l \<in> set (lw_active (prune_expired E ?v))" for l
  proof
    assume tok: "al_token l = lg_token g"
    from that have l: "l \<in> set (lw_active w)" "lease_live (le_idle E) (le_now E) l" using sub by auto
    have "al_last_used l + idle \<le> t" using assms(1) tok l(1) by blast
    with assms(2,3) lease_clock.live_bounds[OF l(2)] show False by linarith
  qed
  then have "find_index (\<lambda>l. al_token l = lg_token g \<and> lg_host g \<in> al_hosts l) (lw_active (prune_expired E ?v)) = None"
    using find_index_SomeD nth_mem by (cases "find_index (\<lambda>l. al_token l = lg_token g \<and> lg_host g \<in> al_hosts l)
      (lw_active (prune_expired E ?v))") (blast, blast)
  then show ?thesis using assms(4) by (simp add: grant_is_active_def Let_def del: prune_active)
qed


subsection \<open>A concrete run\<close>

definition demo_lease_env :: lease_env where
  "demo_lease_env = \<lparr>le_now = 0, le_idle = 5, le_bypass = False, le_route = demo_route_env\<rparr>"

definition demo_chain :: "ancestor_info list" where
  "demo_chain = [\<lparr>ai_pid = 30, ai_start_time = 300, ai_exe_basename = Some ''claude'',
     ai_exe_path_basename = None, ai_argv0_basename = None\<rparr>]"

definition demo_anchor :: anchor where
  "demo_anchor = \<lparr>an_pid = 30, an_start_time = 300, an_name = Some ''claude''\<rparr>"

definition demo_pending :: pending_request where
  "demo_pending = \<lparr>pq_hosts = [''web''], pq_anchor = demo_anchor, pq_created_at = 0, pq_failed_attempts = 0\<rparr>"

definition demo_active :: active_lease where
  "demo_active = \<lparr>al_anchor = demo_anchor, al_hosts = {''web'', ''edge'', ''bastion''}, al_created_at = 0,
     al_last_used = 0, al_token = ''token'', al_authorization = SystemAgent\<rparr>"

definition demo_idle_world :: lease_world where
  "demo_idle_world = \<lparr>lw_pending = [], lw_active = [], lw_vault = demo_world\<rparr>"

definition demo_pending_world :: lease_world where
  "demo_pending_world = demo_idle_world\<lparr>lw_pending := [(''11111111'', demo_pending)]\<rparr>"

definition demo_leased_world :: lease_world where
  "demo_leased_world = demo_idle_world\<lparr>lw_active := [demo_active]\<rparr>"

lemma demo_prune:
  "prune_expired demo_lease_env demo_idle_world = demo_idle_world"
  "prune_expired demo_lease_env demo_pending_world = demo_pending_world"
  "prune_expired demo_lease_env demo_leased_world = demo_leased_world"
  by (simp_all add: prune_expired_def Let_def demo_lease_env_def demo_idle_world_def demo_pending_world_def
      demo_leased_world_def demo_pending_def demo_active_def demo_world_def expire_bypass_at_def
      lease_live_def duration_since_def PENDING_EXPIRY_def MAX_LIFETIME_def from_secs_def)

lemma demo_expansion:
  "expand_lease_hosts (snapshot_resolver demo_route_env demo_world) [''web''] = Inr [''web'', ''edge'', ''bastion'']"
  "scope_uses_system_agent (re_config_env demo_route_env) (re_config demo_route_env) 5 0 demo_world
     [''web'', ''edge'', ''bastion''] = Inr True"
  by code_simp+

lemma demo_request:
  "request_lease_for_chain demo_lease_env [''AAAAAAAA''] demo_chain [''web''] demo_idle_world
     = Some (Inr (Pending \<lparr>rs_id = ''11111111'', rs_hosts = [''web''], rs_anchor_name = Some ''claude'',
                  rs_anchor_pid = 30, rs_age_secs = 0, rs_vault_exists = False\<rparr>), demo_pending_world)"
proof -
  have "select_anchor demo_chain = Some demo_anchor" by code_simp
  moreover have "map request_id_of [''AAAAAAAA''] = [''11111111'']" by code_simp
  ultimately show ?thesis
    by (simp add: request_lease_for_chain_def demo_prune Let_def)
      (simp add: demo_idle_world_def demo_pending_world_def demo_pending_def demo_anchor_def demo_lease_env_def
        lease_vault_exists_def demo_world_def)
qed

lemma demo_worlds:
  "lw_vault demo_pending_world = demo_world" "lw_vault demo_leased_world = demo_world"
  "lw_pending demo_pending_world = [(''11111111'', demo_pending)]" "lw_active demo_leased_world = [demo_active]"
  "lw_active demo_pending_world = []" "pq_hosts demo_pending = [''web'']"
  "le_route demo_lease_env = demo_route_env" "le_now demo_lease_env = 0" "le_idle demo_lease_env = 5"
  "\<not> le_bypass demo_lease_env" "vw_disk demo_world = None"
  by (simp_all add: demo_pending_world_def demo_leased_world_def demo_idle_world_def demo_pending_def
      demo_lease_env_def demo_world_def)

lemma demo_scope:
  "expand_approval_hosts demo_lease_env demo_pending_world [''web''] = Inr [''web'', ''edge'', ''bastion'']"
  "expand_approval_hosts demo_lease_env demo_leased_world [''web''] = Inr [''web'', ''edge'', ''bastion'']"
  "lease_scope_agent_only demo_lease_env demo_pending_world [''web'', ''edge'', ''bastion''] = Inr True"
  "lease_scope_agent_only demo_lease_env demo_leased_world [''web'', ''edge'', ''bastion''] = Inr True"
  using demo_expansion
  by (simp_all add: expand_approval_hosts_def lease_resolver_def lease_scope_agent_only_def demo_worlds)

lemma demo_approve:
  "approve_lease_system_agent demo_lease_env id demo_lease_env ''token'' ''11111111'' None demo_pending_world
     = (Inr (Activated \<lparr>ac_hosts = [''web'', ''edge'', ''bastion''], ac_anchor_name = Some ''claude'',
              ac_anchor_pid = 30, ac_token = ''token''\<rparr>), demo_leased_world)"
  by (simp add: approve_lease_system_agent_def finish_system_agent_def Let_def demo_prune demo_scope demo_worlds
      lease_vault_exists_def activate_pending_def del: prune_pending prune_active)
    (simp add: demo_leased_world_def demo_pending_world_def demo_idle_world_def demo_active_def demo_pending_def
      demo_anchor_def demo_lease_env_def)

lemma demo_lease_reachable:
  "\<exists>H. lease_reachable demo_leased_world H"
proof -
  have "lease_reachable demo_idle_world []"
    by (rule lease_reachable.start) (simp_all add: demo_idle_world_def)
  from lease_reachable.request[OF this demo_request] have p: "lease_reachable demo_pending_world []" .
  then have "lease_reachable (id (prune_expired demo_lease_env demo_pending_world)) []" by (simp add: demo_prune)
  from lease_reachable.agent_approved[OF p this subset_refl demo_approve] show ?thesis by blast
qed

lemma demo_grant:
  "resolve_grant_for_chain demo_lease_env id demo_lease_env demo_chain ''web'' None False demo_leased_world
     = (Some \<lparr>lg_token = ''token'', lg_host = ''web'', lg_authorization = SystemAgent\<rparr>, demo_leased_world)"
proof -
  have "pick_lease (lease_matches demo_chain ''web'' None) [demo_active] = Some 0"
    by (simp add: pick_lease_def lease_matches_def demo_active_def demo_chain_def demo_anchor_def
        chain_contains_anchor_def anchor_matches_def)
  moreover have "find_index (\<lambda>l. al_token l = ''token'' \<and> ''web'' \<in> al_hosts l \<and> al_authorization l = SystemAgent)
      [demo_active] = Some 0"
    by (simp add: find_index_def demo_active_def)
  moreover have "al_token demo_active = ''token''" "al_authorization demo_active = SystemAgent"
    by (simp_all add: demo_active_def)
  ultimately show ?thesis
    by (simp add: resolve_grant_for_chain_def recheck_system_agent_def Let_def demo_prune demo_worlds
        host_scope_still_uses_system_agent_def demo_scope touch_at_def del: prune_active)
qed

theorem grant_needs_recent_approval_witness:
  "\<exists>H. lease_reachable demo_leased_world H
     \<and> (\<exists>ap\<in>set H. genuine ap \<and> ''web'' \<in> al_hosts (ap_lease ap)
          \<and> 0 < al_created_at (ap_lease ap) + MAX_LIFETIME \<and> ''token'' = al_token (ap_lease ap))"
proof -
  obtain H where H: "lease_reachable demo_leased_world H" using demo_lease_reachable by blast
  from grant_needs_recent_approval[OF H demo_worlds(10) demo_grant] show ?thesis
    using H by (fastforce simp: demo_worlds)
qed



text \<open>A vault that no password opens.\<close>

definition demo_locked_ext :: vault_ext where
  "demo_locked_ext = (re_vault_ext demo_route_env)
     \<lparr>vx_argon2 := (\<lambda>_ _ _. Some []),
      vx_file_from_json := (\<lambda>_. Some \<lparr>vf_version = 3,
        vf_kdf = \<lparr>kp_m_cost = 1, kp_t_cost = 1, kp_p_cost = 1, kp_salt = []\<rparr>,
        vf_nonce = ''000000000000000000000000'', vf_ciphertext = []\<rparr>)\<rparr>"

definition demo_locked_env :: lease_env where
  "demo_locked_env = demo_lease_env\<lparr>le_route := demo_route_env\<lparr>re_vault_ext := demo_locked_ext\<rparr>\<rparr>"

definition demo_locked_world :: lease_world where
  "demo_locked_world = demo_pending_world\<lparr>lw_vault := demo_world\<lparr>vw_disk := Some []\<rparr>\<rparr>"

lemma demo_wrong_password:
  "unlock_for_lease_at demo_locked_ext (re_vault_io demo_route_env) ''guess'' (demo_world\<lparr>vw_disk := Some []\<rparr>)
     = (Inl WrongPassword, demo_world\<lparr>vw_disk := Some []\<rparr>)"
proof -
  have "unlock_material_at demo_locked_ext (re_vault_io demo_route_env) ''guess'' (Some []) = Inl WrongPassword"
    by code_simp
  then show ?thesis by (simp add: unlock_for_lease_at_def populate_cache_at_def)
qed

lemma demo_locked_attempt:
  "\<exists>w'. approve_lease_for_chain_checked demo_locked_env ''token'' [] ''11111111'' ''guess'' None False False
      demo_locked_world = (Inl (WrongMasterPassword 4), w')"
proof -
  have p: "prune_expired demo_locked_env demo_locked_world = demo_locked_world"
    by (simp add: prune_expired_def Let_def demo_lease_env_def demo_locked_env_def demo_locked_world_def
      demo_idle_world_def demo_pending_world_def demo_pending_def demo_world_def expire_bypass_at_def
      duration_since_def PENDING_EXPIRY_def from_secs_def)
  show ?thesis
    using demo_wrong_password
    by (simp add: approve_lease_for_chain_checked_def Let_def p del: prune_pending prune_active)
      (simp add: demo_locked_world_def demo_locked_env_def demo_worlds lease_vault_exists_def count_failure_def
        Let_def demo_pending_def MAX_APPROVE_ATTEMPTS_def)
qed

theorem password_guess_budget_witness:
  "\<exists>w'. wrong_run ''11111111'' demo_locked_world 1 w'
     \<and> (1 :: nat) + pq_failed_attempts demo_pending < MAX_APPROVE_ATTEMPTS"
proof -
  obtain w' where "approve_lease_for_chain_checked demo_locked_env ''token'' [] ''11111111'' ''guess'' None False False
      demo_locked_world = (Inl (WrongMasterPassword 4), w')"
    using demo_locked_attempt by blast
  from wrong_run.more[OF wrong_run.none this] have r: "wrong_run ''11111111'' demo_locked_world 1 w'" by simp
  have "hm_get (lw_pending demo_locked_world) ''11111111'' = Some demo_pending" "hm_ok (lw_pending demo_locked_world)"
    "pq_failed_attempts demo_pending < MAX_APPROVE_ATTEMPTS"
    by (simp_all add: demo_locked_world_def demo_worlds hm_ok_def demo_pending_def MAX_APPROVE_ATTEMPTS_def)
  from password_guess_budget[OF this r] r show ?thesis by blast
qed

theorem peeking_never_extends_witness:
  "\<not> fst (grant_is_active (demo_lease_env\<lparr>le_now := 5\<rparr>) id demo_lease_env
      \<lparr>lg_token = ''token'', lg_host = ''web'', lg_authorization = SystemAgent\<rparr> False
      (fold (\<lambda>(P, h) v. snd (grant_is_active P id P h False v))
         [(demo_lease_env, \<lparr>lg_token = ''token'', lg_host = ''web'', lg_authorization = SystemAgent\<rparr>)]
         demo_leased_world))"
  by (rule peeking_never_extends[where idle = 5 and t = 5])
    (simp_all add: demo_worlds demo_active_def)

end
