(* ===== verification/State_File.thy ===== *)
theory State_File
  imports Text
begin

text \<open>
  Small private state files, as \<open>local_approval.rs\<close>, \<open>vault_settings.rs\<close> and
  \<open>known_hosts.rs\<close> read and replace them: owner-only, bounded, never through a symbolic link,
  replaced by renaming a freshly written file over them. What \<open>serde_json\<close> makes of the bytes
  is not modelled: a file's content is what they decode to, \<open>None\<close> when they do not.
\<close>

datatype node_kind = Regular | Symlink | OtherKind

record 'c node =
  nd_kind :: node_kind
  nd_open :: bool  \<comment> \<open>opening and reading it succeed\<close>
  nd_own :: bool  \<comment> \<open>owned by the effective user\<close>
  nd_private :: bool  \<comment> \<open>no permission for group or others\<close>
  nd_len :: nat
  nd_content :: "'c option"

datatype 'c entry = Absent | StatError | Present "'c node"

datatype file_error = UnsafeFile | Corrupt | IoError

text \<open>\<open>refuse_symlink\<close> and \<open>refuse_unsafe_target\<close>.\<close>

definition refuse_target :: "'c entry \<Rightarrow> file_error option" where
  "refuse_target e =
     (case e of
        Absent \<Rightarrow> None
      | StatError \<Rightarrow> Some IoError
      | Present n \<Rightarrow> if nd_kind n = Regular then None else Some UnsafeFile)"

definition read_state :: "nat \<Rightarrow> ('c \<Rightarrow> bool) \<Rightarrow> 'c entry \<Rightarrow> file_error + 'c option" where
  "read_state max_bytes valid e =
     (case refuse_target e of
        Some err \<Rightarrow> Inl err
      | None \<Rightarrow>
          (case e of
             Present n \<Rightarrow>
               if \<not> nd_open n then Inl IoError
               else if nd_len n > max_bytes \<or> \<not> nd_own n \<or> \<not> nd_private n then Inl UnsafeFile
               else (case nd_content n of
                       None \<Rightarrow> Inl Corrupt
                     | Some c \<Rightarrow> if valid c then Inr (Some c) else Inl Corrupt)
           | _ \<Rightarrow> Inr None))"

text \<open>
  The file system's answer to a replacement: it fails before the rename, or the rename takes
  effect and the final \<open>set_permissions\<close> succeeds or not.
\<close>

datatype write_answer = WriteFails | Renamed bool

definition fresh_node :: "nat \<Rightarrow> 'c \<Rightarrow> 'c node" where
  "fresh_node len c = \<lparr>nd_kind = Regular, nd_open = True, nd_own = True, nd_private = True,
     nd_len = len, nd_content = Some c\<rparr>"

definition write_state :: "('c \<Rightarrow> nat) \<Rightarrow> write_answer \<Rightarrow> 'c \<Rightarrow> 'c entry
    \<Rightarrow> file_error option \<times> 'c entry" where
  "write_state len_of answer c e =
     (case refuse_target e of
        Some err \<Rightarrow> (Some err, e)
      | None \<Rightarrow>
          (case answer of
             WriteFails \<Rightarrow> (Some IoError, e)
           | Renamed ok \<Rightarrow> (if ok then None else Some IoError, Present (fresh_node (len_of c) c))))"

subsection \<open>The contract of a state store\<close>

text \<open>
  Clients rely on this only: a successful save is what the next load returns, and a save that
  does not go through leaves either the old state or the new one.
\<close>

locale state_store =
  fixes load :: "'f \<Rightarrow> 'e + 'a option"
    and save :: "'io \<Rightarrow> 'a \<Rightarrow> 'f \<Rightarrow> 'e option \<times> 'f"
    and storable :: "'a \<Rightarrow> bool"
  assumes load_saved: "storable a \<Longrightarrow> save io a f = (None, f') \<Longrightarrow> load f' = Inr (Some a)"
    and save_failed: "storable a \<Longrightarrow> save io a f = (Some e, f') \<Longrightarrow> f' = f \<or> load f' = Inr (Some a)"
begin

text \<open>A read-modify-write of the stored state.\<close>

definition update :: "'a \<Rightarrow> 'io \<Rightarrow> ('a \<Rightarrow> 'a) \<Rightarrow> 'f \<Rightarrow> 'e option \<times> 'f" where
  "update default_value io g f =
     (case load f of
        Inl e \<Rightarrow> (Some e, f)
      | Inr None \<Rightarrow> save io (g default_value) f
      | Inr (Some a) \<Rightarrow> save io (g a) f)"

lemma update_stored:
  "load f = Inr (Some a) \<Longrightarrow> storable (g a) \<Longrightarrow> update d io g f = (None, f') \<Longrightarrow>
     load f' = Inr (Some (g a))"
  by (auto simp: update_def intro: load_saved)

lemma update_refused:
  "load f = Inl e \<Longrightarrow> update d io g f = (Some e, f)"
  by (simp add: update_def)

lemma update_safe:
  assumes "load f = Inr (Some a)" and "storable (g a)" and "update d io g f = (r, f')"
  shows "load f' = Inr (Some a) \<or> load f' = Inr (Some (g a))"
  using assms load_saved[of "g a" io f f'] save_failed[of "g a" io f _ f']
  by (cases r) (auto simp: update_def)

end

lemma write_state_cases:
  assumes "write_state len_of io c e = (r, e')"
  shows "r \<noteq> None \<and> e' = e \<or> e' = Present (fresh_node (len_of c) c)"
proof (cases "refuse_target e")
  case None
  with assms show ?thesis by (cases io) (auto simp: write_state_def)
next
  case (Some a)
  with assms have "r = Some a" "e' = e" by (simp_all add: write_state_def)
  then show ?thesis by simp
qed

lemma read_fresh:
  "len_of c \<le> max_bytes \<Longrightarrow> valid c \<Longrightarrow>
     read_state max_bytes valid (Present (fresh_node (len_of c) c)) = Inr (Some c)"
  by (simp add: read_state_def refuse_target_def fresh_node_def)

lemma read_written:
  assumes "len_of c \<le> max_bytes \<and> valid c" and "write_state len_of io c e = (None, e')"
  shows "read_state max_bytes valid e' = Inr (Some c)"
proof -
  have "e' = Present (fresh_node (len_of c) c)" using write_state_cases[OF assms(2)] by simp
  with assms(1) show ?thesis by (simp add: read_fresh)
qed

lemma write_failed:
  assumes "len_of c \<le> max_bytes \<and> valid c" and "write_state len_of io c e = (Some err, e')"
  shows "e' = e \<or> read_state max_bytes valid e' = Inr (Some c)"
proof (cases "e' = e")
  case False
  then have "e' = Present (fresh_node (len_of c) c)" using write_state_cases[OF assms(2)] by simp
  with assms(1) show ?thesis by (simp add: read_fresh)
qed simp

interpretation sf: state_store "read_state max_bytes valid" "write_state len_of"
  "\<lambda>c. len_of c \<le> max_bytes \<and> valid c"
  by unfold_locales (rule read_written, assumption+, rule write_failed, assumption+)

text \<open>Whatever is loaded came from a regular, owned, private, bounded and valid file.\<close>

lemma read_state_SomeD:
  assumes "read_state max_bytes valid e = Inr (Some c)"
  obtains n where "e = Present n" "nd_kind n = Regular" "nd_own n" "nd_private n"
    "nd_len n \<le> max_bytes" "nd_content n = Some c" "valid c"
proof (cases e)
  case (Present n)
  with assms that show thesis
    by (cases "nd_kind n = Regular"; cases "nd_open n"; cases "nd_content n")
      (auto simp: read_state_def refuse_target_def split: if_splits)
qed (use assms in \<open>simp_all add: read_state_def refuse_target_def\<close>)

end
