(* ===== verification/Pin.thy ===== *)
theory Pin
  imports State_File
begin

text \<open>
  The approval PIN (\<open>src/src/local_approval.rs\<close>): six digits, verified against an Argon2 hash
  kept in a private state file with its failure count, its lock-out time and the disabled flag.
  The key derivation is an argument; wall-clock times are Unix seconds.
\<close>

definition PIN_VERSION :: nat where "PIN_VERSION = 1"
definition PIN_LENGTH :: nat where "PIN_LENGTH = 6"
definition PIN_SALT_LENGTH :: nat where "PIN_SALT_LENGTH = 16"
definition PIN_HASH_LENGTH :: nat where "PIN_HASH_LENGTH = 32"
definition PIN_M_COST :: nat where "PIN_M_COST = 64 * 1024"
definition PIN_T_COST :: nat where "PIN_T_COST = 3"
definition PIN_P_COST :: nat where "PIN_P_COST = 1"
definition MAX_PIN_FAILURES :: nat where "MAX_PIN_FAILURES = 15"
definition MAX_PIN_FILE_BYTES :: nat where "MAX_PIN_FILE_BYTES = 64 * 1024"
definition u32_max :: nat where "u32_max = 2 ^ 32 - 1"

datatype pin_status = NotConfigured | Ready | StatusLocked nat | StatusDisabled
datatype pin_verify = Approved | Rejected nat | Locked nat | Disabled

datatype pin_error = InvalidFormat | PinNotConfigured | PinFile file_error | Kdf

record pin_kdf =
  pk_m_cost :: nat
  pk_t_cost :: nat
  pk_p_cost :: nat

record pin_file =
  pf_version :: nat
  pf_kdf :: pin_kdf
  pf_salt :: string
  pf_hash :: string
  pf_failed_attempts :: nat
  pf_locked_until :: nat
  pf_disabled :: bool

type_synonym pin_entry = "pin_file entry"

definition default_kdf :: pin_kdf where
  "default_kdf = \<lparr>pk_m_cost = PIN_M_COST, pk_t_cost = PIN_T_COST, pk_p_cost = PIN_P_COST\<rparr>"

subsection \<open>Hexadecimal fields\<close>

definition hex_nibble :: "char \<Rightarrow> nat option" where
  "hex_nibble c =
     (if 48 \<le> code c \<and> code c \<le> 57 then Some (code c - 48)
      else if 97 \<le> code c \<and> code c \<le> 102 then Some (code c - 97 + 10)
      else if 65 \<le> code c \<and> code c \<le> 70 then Some (code c - 65 + 10)
      else None)"

fun hex_chunks :: "string \<Rightarrow> bytes option" where
  "hex_chunks (a # b # cs) =
     (case (hex_nibble a, hex_nibble b, hex_chunks cs) of
        (Some hi, Some lo, Some rest) \<Rightarrow> Some (char_of (16 * hi + lo) # rest)
      | _ \<Rightarrow> None)"
| "hex_chunks _ = Some []"

definition pin_hex_decode :: "nat \<Rightarrow> string \<Rightarrow> bytes option" where
  "pin_hex_decode n v = (if str_len v \<noteq> n * 2 then None else hex_chunks v)"

definition pin_digit :: "nat \<Rightarrow> char" where
  "pin_digit n = ''0123456789abcdef'' ! n"

definition pin_hex_encode :: "bytes \<Rightarrow> string" where
  "pin_hex_encode bs = concat (map (\<lambda>b. [pin_digit (code b div 16), pin_digit (code b mod 16)]) bs)"

subsection \<open>Operations\<close>

definition validate_pin :: "string \<Rightarrow> bool" where
  "validate_pin pin \<longleftrightarrow> length pin = PIN_LENGTH \<and> (\<forall>c\<in>set pin. 48 \<le> code c \<and> code c \<le> 57)"

definition validate_file :: "pin_file \<Rightarrow> bool" where
  "validate_file f \<longleftrightarrow>
     pf_version f = PIN_VERSION \<and> pf_failed_attempts f \<le> MAX_PIN_FAILURES
     \<and> 8 \<le> pk_m_cost (pf_kdf f) \<and> pk_m_cost (pf_kdf f) \<le> 256 * 1024
     \<and> pk_t_cost (pf_kdf f) \<noteq> 0 \<and> pk_t_cost (pf_kdf f) \<le> 10
     \<and> pk_p_cost (pf_kdf f) \<noteq> 0 \<and> pk_p_cost (pf_kdf f) \<le> 8
     \<and> pin_hex_decode PIN_SALT_LENGTH (pf_salt f) \<noteq> None
     \<and> pin_hex_decode PIN_HASH_LENGTH (pf_hash f) \<noteq> None"

definition pin_read :: "pin_entry \<Rightarrow> pin_error + pin_file option" where
  "pin_read e =
     (case read_state MAX_PIN_FILE_BYTES validate_file e of Inl err \<Rightarrow> Inl (PinFile err) | Inr f \<Rightarrow> Inr f)"

definition pin_status_at :: "nat \<Rightarrow> pin_entry \<Rightarrow> pin_error + pin_status" where
  "pin_status_at now e =
     (case pin_read e of
        Inl err \<Rightarrow> Inl err
      | Inr None \<Rightarrow> Inr NotConfigured
      | Inr (Some f) \<Rightarrow>
          Inr (if pf_disabled f then StatusDisabled
               else if pf_locked_until f > now then StatusLocked (pf_locked_until f - now)
               else Ready))"

text \<open>\<open>derive pin salt kdf\<close> stands for Argon2; \<open>None\<close> is a rejected parameter set.\<close>

type_synonym derive = "string \<Rightarrow> bytes \<Rightarrow> pin_kdf \<Rightarrow> bytes option"

definition enroll :: "derive \<Rightarrow> (pin_file \<Rightarrow> nat) \<Rightarrow> write_answer \<Rightarrow> bytes \<Rightarrow> pin_kdf \<Rightarrow> string \<Rightarrow> pin_entry
    \<Rightarrow> pin_error option \<times> pin_entry" where
  "enroll derive len_of io salt kdf pin e =
     (if \<not> validate_pin pin then (Some InvalidFormat, e)
      else (case refuse_target e of
        Some err \<Rightarrow> (Some (PinFile err), e)
      | None \<Rightarrow>
          (case derive pin salt kdf of
             None \<Rightarrow> (Some Kdf, e)
           | Some h \<Rightarrow>
               (let f = \<lparr>pf_version = PIN_VERSION, pf_kdf = kdf, pf_salt = pin_hex_encode salt,
                         pf_hash = pin_hex_encode h, pf_failed_attempts = 0, pf_locked_until = 0,
                         pf_disabled = False\<rparr>;
                    (r, e') = write_state len_of io f e
                in (map_option PinFile r, e')))))"

definition remove_pin :: "bool \<Rightarrow> pin_entry \<Rightarrow> pin_error option \<times> pin_entry" where
  "remove_pin ok e =
     (case refuse_target e of
        Some err \<Rightarrow> (Some (PinFile err), e)
      | None \<Rightarrow> if e = Absent then (None, e)
                else if ok then (None, Absent) else (Some (PinFile IoError), e))"

definition failure_delay :: "nat \<Rightarrow> nat" where
  "failure_delay n = (if n = 5 then 30 else if n = 10 then 2 * 60 else if n = 14 then 10 * 60 else 0)"

text \<open>The answer to a wrong PIN and the state it leaves.\<close>

definition pin_failure :: "nat \<Rightarrow> pin_file \<Rightarrow> pin_verify \<times> pin_file" where
  "pin_failure now f =
     (let n = min (pf_failed_attempts f + 1) u32_max; f1 = f\<lparr>pf_failed_attempts := n\<rparr> in
      if n \<ge> MAX_PIN_FAILURES
      then (Disabled, f1\<lparr>pf_disabled := True, pf_locked_until := 0\<rparr>)
      else
        let delay = failure_delay n in
        if delay > 0 then (Locked delay, f1\<lparr>pf_locked_until := sat_add now delay\<rparr>)
        else (Rejected (MAX_PIN_FAILURES - n), f1))"

text \<open>
  What \<open>verify_at\<close> makes of the stored state: \<open>None\<close> in the second component when it is left
  alone and nothing was compared.
\<close>

definition verify_core :: "derive \<Rightarrow> string \<Rightarrow> nat \<Rightarrow> pin_file \<Rightarrow> pin_error + pin_verify \<times> pin_file option" where
  "verify_core derive pin now f =
     (if pf_disabled f then Inr (Disabled, None)
      else if pf_locked_until f > now then Inr (Locked (pf_locked_until f - now), None)
      else (case pin_hex_decode PIN_SALT_LENGTH (pf_salt f) of None \<Rightarrow> Inl (PinFile Corrupt)
      | Some salt \<Rightarrow> (case pin_hex_decode PIN_HASH_LENGTH (pf_hash f) of None \<Rightarrow> Inl (PinFile Corrupt)
      | Some expected \<Rightarrow> (case derive pin salt (pf_kdf f) of None \<Rightarrow> Inl Kdf
      | Some actual \<Rightarrow>
          if actual = expected
          then Inr (Approved, Some (f\<lparr>pf_failed_attempts := 0, pf_locked_until := 0\<rparr>))
          else (let (r, f') = pin_failure now f in Inr (r, Some f'))))))"

definition verify_at :: "derive \<Rightarrow> (pin_file \<Rightarrow> nat) \<Rightarrow> write_answer \<Rightarrow> string \<Rightarrow> nat \<Rightarrow> pin_entry
    \<Rightarrow> (pin_error + pin_verify) \<times> pin_entry" where
  "verify_at derive len_of io pin now e =
     (if \<not> validate_pin pin then (Inl InvalidFormat, e)
      else (case pin_read e of
        Inl err \<Rightarrow> (Inl err, e)
      | Inr None \<Rightarrow> (Inl PinNotConfigured, e)
      | Inr (Some f) \<Rightarrow>
          (case verify_core derive pin now f of
             Inl err \<Rightarrow> (Inl err, e)
           | Inr (r, None) \<Rightarrow> (Inr r, e)
           | Inr (r, Some f') \<Rightarrow>
               (case write_state len_of io f' e of
                  (None, e') \<Rightarrow> (Inr r, e')
                | (Some err, e') \<Rightarrow> (Inl (PinFile err), e')))))"

subsection \<open>Guessing\<close>

lemma pin_read_written:
  assumes "validate_file f" and "len_of f \<le> MAX_PIN_FILE_BYTES" and "write_state len_of io f e = (r, e')"
  shows "pin_read e' = Inr (Some f) \<or> r \<noteq> None \<and> e' = e"
proof -
  have "r \<noteq> None \<and> e' = e \<or> e' = Present (fresh_node (len_of f) f)"
    by (rule write_state_cases[OF assms(3)])
  then show ?thesis
    using read_fresh[of len_of f MAX_PIN_FILE_BYTES validate_file] assms(1,2) by (auto simp: pin_read_def)
qed

lemma pin_read_valid: "pin_read e = Inr (Some f) \<Longrightarrow> validate_file f"
  by (cases "read_state MAX_PIN_FILE_BYTES validate_file e") 
    (auto simp: pin_read_def elim: read_state_SomeD)

text \<open>An attempt is answered when the PIN was compared and the caller is told the outcome.\<close>

definition answered :: "derive \<Rightarrow> (pin_file \<Rightarrow> nat) \<Rightarrow> write_answer \<Rightarrow> string \<Rightarrow> nat \<Rightarrow> pin_entry \<Rightarrow> bool" where
  "answered derive len_of io pin now e \<longleftrightarrow>
     (case pin_read e of
        Inr (Some f) \<Rightarrow> validate_pin pin \<and> \<not> pf_disabled f \<and> pf_locked_until f \<le> now
          \<and> (case fst (verify_at derive len_of io pin now e) of Inl _ \<Rightarrow> False | Inr _ \<Rightarrow> True)
      | _ \<Rightarrow> False)"

fun guesses :: "derive \<Rightarrow> (pin_file \<Rightarrow> nat) \<Rightarrow> (write_answer \<times> string \<times> nat) list \<Rightarrow> pin_entry
    \<Rightarrow> nat \<times> pin_entry" where
  "guesses derive len_of [] e = (0, e)"
| "guesses derive len_of ((io, pin, now) # as) e =
     (let (n, e') = guesses derive len_of as (snd (verify_at derive len_of io pin now e)) in
      ((if answered derive len_of io pin now e then n + 1 else n), e'))"

text \<open>The lock-out time that must have passed before the guess after \<open>k\<close> failures.\<close>

definition waited :: "nat \<Rightarrow> nat" where
  "waited k = (if 5 \<le> k then 30 else 0) + (if 10 \<le> k then 120 else 0) + (if 14 \<le> k then 600 else 0)"

lemma waited_mono: "j \<le> k \<Longrightarrow> waited j \<le> waited k"
  by (simp add: waited_def)

lemma waited_Suc: "k < 14 \<Longrightarrow> waited (Suc k) = waited k + failure_delay (Suc k)"
  by (auto simp: waited_def failure_delay_def)

text \<open>
  \<open>pin_track f0 t0 k now f\<close>: the stored state after \<open>k\<close> counted failures since \<open>t0\<close>.
\<close>

definition pin_track :: "pin_file \<Rightarrow> nat \<Rightarrow> nat \<Rightarrow> pin_file \<Rightarrow> bool" where
  "pin_track f0 t0 now f \<longleftrightarrow>
     (let k = pf_failed_attempts f in
      pf_salt f = pf_salt f0 \<and> pf_hash f = pf_hash f0 \<and> pf_kdf f = pf_kdf f0 \<and> k \<le> 15
      \<and> (k = 15 \<longrightarrow> pf_disabled f) \<and> t0 + waited (k - 1) \<le> now
      \<and> (pf_disabled f \<or> t0 + waited k \<le> max now (pf_locked_until f)))"

definition wrong_pin :: "derive \<Rightarrow> pin_file \<Rightarrow> string \<Rightarrow> bool" where
  "wrong_pin derive f pin \<longleftrightarrow>
     (case (pin_hex_decode PIN_SALT_LENGTH (pf_salt f), pin_hex_decode PIN_HASH_LENGTH (pf_hash f)) of
        (Some salt, Some expected) \<Rightarrow> derive pin salt (pf_kdf f) \<noteq> Some expected
      | _ \<Rightarrow> True)"

lemma verify_core_wrong:
  assumes "wrong_pin derive f pin" and "verify_core derive pin now f = Inr (r, Some f')"
  shows "\<not> pf_disabled f \<and> pf_locked_until f \<le> now \<and> pin_failure now f = (r, f')"
proof -
  have np: "\<not> pf_disabled f" "\<not> now < pf_locked_until f"
    using assms(2) by (auto simp: verify_core_def split: if_splits)
  obtain salt expected actual where d: "pin_hex_decode PIN_SALT_LENGTH (pf_salt f) = Some salt"
    "pin_hex_decode PIN_HASH_LENGTH (pf_hash f) = Some expected" "derive pin salt (pf_kdf f) = Some actual"
    using assms(2) np by (auto simp: verify_core_def split: option.splits)
  then have "actual \<noteq> expected" using assms(1) by (simp add: wrong_pin_def)
  with d np assms(2) show ?thesis by (simp add: verify_core_def case_prod_beta prod_eq_iff)
qed

lemma pin_failure_facts:
  assumes "pin_failure now f = (r, f')" and "pf_failed_attempts f < 15"
  shows "pf_failed_attempts f' = Suc (pf_failed_attempts f)"
    and "pf_salt f' = pf_salt f" "pf_hash f' = pf_hash f" "pf_kdf f' = pf_kdf f" "pf_version f' = pf_version f"
    and "pf_failed_attempts f = 14 \<Longrightarrow> pf_disabled f'"
    and "pf_failed_attempts f \<noteq> 14 \<Longrightarrow> pf_disabled f' = pf_disabled f
      \<and> (if failure_delay (Suc (pf_failed_attempts f)) = 0 then pf_locked_until f' = pf_locked_until f
         else pf_locked_until f' = sat_add now (failure_delay (Suc (pf_failed_attempts f))))"
  using assms by (auto simp: pin_failure_def u32_max_def MAX_PIN_FAILURES_def Let_def split: if_splits)

lemma pin_failure_track:
  assumes tr: "pin_track f0 t0 now f" and fl: "pin_failure now' f = (r, f')"
    and t: "now \<le> now'" "now' + 600 \<le> u64_max" and np: "\<not> pf_disabled f" "pf_locked_until f \<le> now'"
  shows "pin_track f0 t0 now' f'"
proof -
  define k where "k = pf_failed_attempts f"
  have k: "k < 15" using tr np by (auto simp: pin_track_def Let_def k_def le_less)
  note ff = pin_failure_facts[OF fl, folded k_def, OF k]
  have w: "t0 + waited k \<le> now'" using tr t np by (auto simp: pin_track_def Let_def k_def)
  have "failure_delay (Suc k) \<le> 600" by (simp add: failure_delay_def)
  then have exact: "sat_add now' (failure_delay (Suc k)) = now' + failure_delay (Suc k)"
    using t(2) by (simp add: sat_simps)
  have "pf_disabled f' \<or> t0 + waited (Suc k) \<le> max now' (pf_locked_until f')"
  proof (cases "k = 14")
    case True
    with ff(6) show ?thesis by simp
  next
    case False
    with k have "waited (Suc k) = waited k + failure_delay (Suc k)" by (simp add: waited_Suc)
    with ff(7)[OF False] w exact show ?thesis by (auto split: if_splits)
  qed
  moreover have "Suc k = 15 \<longrightarrow> pf_disabled f'" using ff(6) by simp
  moreover have "pf_salt f = pf_salt f0 \<and> pf_hash f = pf_hash f0 \<and> pf_kdf f = pf_kdf f0"
    using tr by (simp add: pin_track_def Let_def)
  ultimately show ?thesis using w k by (simp add: pin_track_def Let_def ff(1-4))
qed

lemma pin_track_later:
  "pin_track f0 t0 now f \<Longrightarrow> now \<le> now' \<Longrightarrow> pin_track f0 t0 now' f"
  by (auto simp: pin_track_def Let_def)

lemma pin_failure_valid:
  "validate_file f \<Longrightarrow> pf_failed_attempts f < 15 \<Longrightarrow> pin_failure now f = (r, f') \<Longrightarrow> validate_file f'"
  using pin_failure_facts[of now f r f'] by (simp add: validate_file_def MAX_PIN_FAILURES_def)

text \<open>One wrong attempt keeps the tracked state, and an answered one has counted.\<close>

lemma wrong_attempt:
  assumes rd: "pin_read e = Inr (Some f)" and tr: "pin_track f0 t0 now f"
    and t: "now \<le> now'" "now' + 600 \<le> u64_max" and wrong: "wrong_pin derive f pin"
    and small: "\<forall>f. len_of f \<le> MAX_PIN_FILE_BYTES"
    and v: "verify_at derive len_of io pin now' e = (r, e')"
  shows "\<exists>f'. pin_read e' = Inr (Some f') \<and> pin_track f0 t0 now' f'
    \<and> pf_failed_attempts f' \<ge> pf_failed_attempts f + (if answered derive len_of io pin now' e then 1 else 0)
    \<and> wrong_pin derive f' = wrong_pin derive f"
proof (cases "\<exists>a f'. validate_pin pin \<and> verify_core derive pin now' f = Inr (a, Some f')")
  case True
  then obtain a f' where va: "validate_pin pin" and core: "verify_core derive pin now' f = Inr (a, Some f')"
    by blast
  note c = verify_core_wrong[OF wrong core]
  have lt: "pf_failed_attempts f < 15" using tr c by (auto simp: pin_track_def Let_def le_less)
  have val: "validate_file f'" using pin_failure_valid[OF pin_read_valid[OF rd] lt, of now' a f'] c by blast
  have tr': "pin_track f0 t0 now' f'" by (rule pin_failure_track[OF tr _ t]) (use c in auto)
  note ff = pin_failure_facts[OF conjunct2[OF conjunct2[OF c]] lt]
  note fa = ff(1)
  have same: "wrong_pin derive f' = wrong_pin derive f"
    by (rule ext, unfold wrong_pin_def ff(2-4), rule refl)
  obtain w e2 where ws: "write_state len_of io f' e = (w, e2)" by (cases "write_state len_of io f' e")
  have ve: "verify_at derive len_of io pin now' e
      = (case w of None \<Rightarrow> (Inr a, e2) | Some err \<Rightarrow> (Inl (PinFile err), e2))"
    using va rd core ws by (simp add: verify_at_def split: option.splits)
  then have e2: "e' = e2" using v by (auto split: option.splits)
  from pin_read_written[OF val small[rule_format] ws] consider "pin_read e2 = Inr (Some f')" | "w \<noteq> None" "e2 = e"
    by blast
  then show ?thesis
  proof cases
    case 1
    with tr' fa same e2 show ?thesis by auto
  next
    case 2
    then have "\<not> answered derive len_of io pin now' e"
      using ve by (auto simp: answered_def rd split: option.splits)
    with 2 rd pin_track_later[OF tr t(1)] e2 show ?thesis by auto
  qed
next
  case False
  have "e' = e \<and> \<not> answered derive len_of io pin now' e"
  proof (cases "validate_pin pin")
    case valid: True
    then have no: "verify_core derive pin now' f \<noteq> Inr (a, Some f')" for a f' using False by blast
    show ?thesis
    proof (cases "verify_core derive pin now' f")
      case (Inl err)
      with valid rd v show ?thesis by (auto simp: verify_at_def answered_def)
    next
      case (Inr x)
      then obtain a where x: "verify_core derive pin now' f = Inr (a, None)"
        using no by (metis option.exhaust prod.exhaust)
      then have "pf_disabled f \<or> now' < pf_locked_until f"
        by (auto simp: verify_core_def case_prod_beta split: if_splits option.splits)
      with valid rd v x show ?thesis by (auto simp: verify_at_def answered_def)
    qed
  qed (use v rd in \<open>auto simp: verify_at_def answered_def\<close>)
  with rd pin_track_later[OF tr t(1)] show ?thesis by auto
qed

fun ascending :: "nat \<Rightarrow> (write_answer \<times> string \<times> nat) list \<Rightarrow> bool" where
  "ascending t [] = True"
| "ascending t ((io, pin, now) # as) = (t \<le> now \<and> now + 600 \<le> u64_max \<and> ascending now as)"

definition end_time :: "nat \<Rightarrow> (write_answer \<times> string \<times> nat) list \<Rightarrow> nat" where
  "end_time t as = (case as of [] \<Rightarrow> t | _ \<Rightarrow> snd (snd (last as)))"

lemma end_time_Cons: "end_time t ((io, pin, now) # as) = end_time now as"
  by (cases as) (simp_all add: end_time_def)

lemma guesses_tracked:
  assumes "pin_read e = Inr (Some f)" and "pin_track f0 t0 now f" and "ascending now as"
    and "\<forall>(io, pin, t)\<in>set as. wrong_pin derive f pin" and "\<forall>f. len_of f \<le> MAX_PIN_FILE_BYTES"
  shows "\<exists>f'. pin_read (snd (guesses derive len_of as e)) = Inr (Some f')
    \<and> pin_track f0 t0 (end_time now as) f'
    \<and> pf_failed_attempts f + fst (guesses derive len_of as e) \<le> pf_failed_attempts f'"
  using assms(1-4)
proof (induction as arbitrary: e f now)
  case Nil
  then show ?case by (auto simp: end_time_def)
next
  case (Cons a as)
  obtain io pin t where a: "a = (io, pin, t)" by (cases a)
  obtain r e' where v: "verify_at derive len_of io pin t e = (r, e')"
    by (cases "verify_at derive len_of io pin t e")
  have "now \<le> t" "t + 600 \<le> u64_max" "ascending t as" "wrong_pin derive f pin"
    using Cons.prems a by auto
  from wrong_attempt[OF Cons.prems(1,2) this(1,2,4) assms(5) v] obtain f1 where f1:
    "pin_read e' = Inr (Some f1)" "pin_track f0 t0 t f1" "wrong_pin derive f1 = wrong_pin derive f"
    "pf_failed_attempts f + (if answered derive len_of io pin t e then 1 else 0) \<le> pf_failed_attempts f1"
    by auto
  have "\<forall>(io, pin, t)\<in>set as. wrong_pin derive f1 pin" using Cons.prems(4) f1(3) a by auto
  from Cons.IH[OF f1(1,2) \<open>ascending t as\<close> this] f1(4) show ?case
    by (auto simp: a v end_time_Cons case_prod_beta)
qed

text \<open>
  C26: One caller cannot guess the approval PIN at will. From a freshly enrolled (or just verified) PIN,
  of a sequence of wrong guesses made one after another (each verification over before the next starts)
  at non-decreasing times, at most 15 are answered, however the state file's replacements go: the sixth
  at the earliest 30 seconds, the eleventh two and a half minutes and the fifteenth twelve and a half
  minutes after the start; after the fifteenth every further attempt, right or wrong, is refused as
  disabled. Verifications that overlap are not bounded so: \<open>concurrent_guesses_count_once\<close>.
\<close>

theorem pin_guess_bound:
  assumes "pin_read e = Inr (Some f)" and "pf_failed_attempts f = 0"
    and "ascending t0 as" and "\<forall>(io, pin, t)\<in>set as. wrong_pin derive f pin"
    and "\<forall>f. len_of f \<le> MAX_PIN_FILE_BYTES"
  shows "let (n, e') = guesses derive len_of as e; t = end_time t0 as in
     n \<le> 15 \<and> (5 < n \<longrightarrow> t0 + 30 \<le> t) \<and> (10 < n \<longrightarrow> t0 + 150 \<le> t) \<and> (14 < n \<longrightarrow> t0 + 750 \<le> t)
     \<and> (n = 15 \<longrightarrow> validate_pin pin \<longrightarrow> verify_at derive len_of io pin now e' = (Inr Disabled, e'))"
proof -
  obtain n e' where g: "guesses derive len_of as e = (n, e')" by (cases "guesses derive len_of as e")
  have "pin_track f t0 t0 f" using assms(2) by (simp add: pin_track_def waited_def)
  from guesses_tracked[OF assms(1) this assms(3,4,5)] obtain f' where f':
    "pin_read e' = Inr (Some f')" "pin_track f t0 (end_time t0 as) f'" "n \<le> pf_failed_attempts f'"
    using assms(2) g by auto
  define k where "k = pf_failed_attempts f'"
  have k: "t0 + waited (k - 1) \<le> end_time t0 as" "n \<le> k" "k \<le> 15" "k = 15 \<longrightarrow> pf_disabled f'"
    using f' by (auto simp: pin_track_def Let_def k_def)
  have "waited (n - 1) \<le> waited (k - 1)" using k(2) by (intro waited_mono) simp
  then have w: "t0 + waited (n - 1) \<le> end_time t0 as" using k(1) by simp
  have "5 < n \<Longrightarrow> 30 \<le> waited (n - 1)" "10 < n \<Longrightarrow> 150 \<le> waited (n - 1)"
    "14 < n \<Longrightarrow> 750 \<le> waited (n - 1)" by (auto simp: waited_def)
  moreover have "verify_at derive len_of io pin now e' = (Inr Disabled, e')"
    if "n = 15" "validate_pin pin"
    using that k f'(1) by (simp add: verify_at_def verify_core_def)
  ultimately show ?thesis using w k by (fastforce simp: g)
qed

definition demo_pin_file :: pin_file where
  "demo_pin_file = \<lparr>pf_version = 1, pf_kdf = default_kdf, pf_salt = replicate 32 (CHR ''0''),
     pf_hash = replicate 64 (CHR ''0''), pf_failed_attempts = 0, pf_locked_until = 0, pf_disabled = False\<rparr>"

definition demo_pin_entry :: pin_entry where
  "demo_pin_entry = Present (fresh_node 500 demo_pin_file)"

lemma hex_zeros: "hex_chunks (replicate (2 * n) (CHR ''0'')) = Some (replicate n (char_of (0 :: nat)))"
  by (induction n) (simp_all add: hex_nibble_def)

lemma demo_pin_read: "pin_read demo_pin_entry = Inr (Some demo_pin_file)"
proof -
  have "str_len (replicate n (CHR ''0'')) = n" for n
    by (induction n) (simp_all add: str_len_def)
  then have "validate_file demo_pin_file"
    using hex_zeros[of 16] hex_zeros[of 32]
    by (simp add: validate_file_def demo_pin_file_def default_kdf_def PIN_VERSION_def PIN_M_COST_def
        PIN_T_COST_def PIN_P_COST_def pin_hex_decode_def PIN_SALT_LENGTH_def PIN_HASH_LENGTH_def
        del: replicate.simps)
  then show ?thesis
    by (simp add: pin_read_def demo_pin_entry_def read_fresh[of "\<lambda>_. 500"] MAX_PIN_FILE_BYTES_def)
qed

theorem pin_guess_bound_witness:
  "fst (guesses (\<lambda>_ _ _. Some ''x'') (\<lambda>_. 500)
     [(Renamed True, ''123456'', 7), (WriteFails, ''000000'', 8)] demo_pin_entry) \<le> 15"
proof -
  have "wrong_pin (\<lambda>_ _ _. Some ''x'') demo_pin_file pin" for pin
  proof -
    have "hex_chunks (replicate 64 (CHR ''0'')) \<noteq> Some ''x''"
      using hex_zeros[of 32] by (auto dest: arg_cong[of _ _ length])
    then show ?thesis
      by (auto simp: wrong_pin_def demo_pin_file_def pin_hex_decode_def split: option.splits)
  qed
  then show ?thesis
    using pin_guess_bound[OF demo_pin_read, of 7 "[(Renamed True, ''123456'', 7), (WriteFails, ''000000'', 8)]"
        "\<lambda>_ _ _. Some ''x''" "\<lambda>_. 500"]
    by (simp add: demo_pin_file_def u64_max_def MAX_PIN_FILE_BYTES_def case_prod_beta Let_def)
qed

subsection \<open>Round trip of an enrolled PIN\<close>

lemma hex_nibble_digit: "n < 16 \<Longrightarrow> hex_nibble (pin_digit n) = Some n"
proof -
  assume "n < 16"
  moreover have "list_all (\<lambda>k. hex_nibble (pin_digit k) = Some k) [0..<16]" by code_simp
  ultimately show ?thesis by (simp add: list_all_iff)
qed

lemma hex_chunks_encode: "hex_chunks (pin_hex_encode bs) = Some bs"
  by (induction bs)
    (simp_all add: pin_hex_encode_def hex_nibble_digit of_char_less_256 less_mult_imp_div_less mult.commute)

lemma pin_digit_ascii: "n < 16 \<Longrightarrow> (of_char (pin_digit n) :: nat) < 128"
proof -
  assume "n < 16"
  moreover have "list_all (\<lambda>k. (of_char (pin_digit k) :: nat) < 128) [0..<16]" by code_simp
  ultimately show ?thesis by (simp add: list_all_iff)
qed

lemma pin_hex_roundtrip: "length bs = n \<Longrightarrow> pin_hex_decode n (pin_hex_encode bs) = Some bs"
proof -
  have "str_len (pin_hex_encode bs) = 2 * length bs"
    by (induction bs) (simp_all add: pin_hex_encode_def str_len_def pin_digit_ascii of_char_less_256
        less_mult_imp_div_less)
  then show "length bs = n \<Longrightarrow> ?thesis" by (simp add: pin_hex_decode_def hex_chunks_encode)
qed

text \<open>
  Two attempts that read the same state count as one failure: the read, the comparison and the
  replacement of the state file are not one locked step.
\<close>

lemma concurrent_guesses_count_once:
  assumes "verify_core derive p1 now f = Inr (r1, Some f1)" and "verify_core derive p2 now f = Inr (r2, Some f2)"
    and "wrong_pin derive f p1" and "wrong_pin derive f p2" and "pf_failed_attempts f < 15"
  shows "f1 = f2 \<and> pf_failed_attempts f2 = Suc (pf_failed_attempts f)"
proof -
  have "pin_failure now f = (r1, f1)" "pin_failure now f = (r2, f2)"
    using verify_core_wrong[OF assms(3,1)] verify_core_wrong[OF assms(4,2)] by auto
  then show ?thesis using pin_failure_facts(1)[of now f r2 f2] assms(5) by auto
qed

end
