(* ===== verification/Settings.thy ===== *)
theory Settings
  imports State_File
begin

text \<open>
  The vault settings file (\<open>src/src/vault_settings.rs\<close>): the shared idle timeout, one of four
  values, and the dangerous bypass flag, kept in one private state file.
\<close>

definition SETTINGS_VERSION :: nat where "SETTINGS_VERSION = 1"
definition MAX_SETTINGS_BYTES :: nat where "MAX_SETTINGS_BYTES = 4 * 1024"
definition SUPPORTED_TIMEOUT_MINUTES :: "nat list" where "SUPPORTED_TIMEOUT_MINUTES = [1, 5, 15, 30]"

datatype settings_error = UnsupportedTimeout nat | SettingsFile file_error

record settings_file =
  st_version :: nat
  st_idle_timeout_minutes :: nat
  st_dangerous_bypass_mode :: bool

type_synonym settings_entry = "settings_file entry"

definition try_timeout :: "nat \<Rightarrow> settings_error + nat" where
  "try_timeout minutes =
     (if minutes \<in> set SUPPORTED_TIMEOUT_MINUTES then Inr minutes else Inl (UnsupportedTimeout minutes))"

definition timeout_minimum :: nat where "timeout_minimum = hd SUPPORTED_TIMEOUT_MINUTES"
definition timeout_default :: nat where "timeout_default = 15"

definition timeout_duration :: "nat \<Rightarrow> nat" where
  "timeout_duration minutes = from_secs (minutes * 60)"

definition default_settings :: settings_file where
  "default_settings = \<lparr>st_version = SETTINGS_VERSION, st_idle_timeout_minutes = timeout_default,
     st_dangerous_bypass_mode = False\<rparr>"

definition settings_ok :: "settings_file \<Rightarrow> bool" where
  "settings_ok s \<longleftrightarrow> st_version s = SETTINGS_VERSION
     \<and> st_idle_timeout_minutes s \<in> set SUPPORTED_TIMEOUT_MINUTES"

definition load_settings :: "settings_entry \<Rightarrow> file_error + settings_file" where
  "load_settings e =
     (case read_state MAX_SETTINGS_BYTES settings_ok e of
        Inl err \<Rightarrow> Inl err
      | Inr None \<Rightarrow> Inr default_settings
      | Inr (Some s) \<Rightarrow> Inr s)"

definition load_timeout :: "settings_entry \<Rightarrow> file_error + nat" where
  "load_timeout e =
     (case load_settings e of
        Inl err \<Rightarrow> Inl err
      | Inr s \<Rightarrow> (case try_timeout (st_idle_timeout_minutes s) of Inl _ \<Rightarrow> Inl Corrupt | Inr m \<Rightarrow> Inr m))"

definition dangerous_bypass_mode :: "settings_entry \<Rightarrow> file_error + bool" where
  "dangerous_bypass_mode e =
     (case load_settings e of Inl err \<Rightarrow> Inl err | Inr s \<Rightarrow> Inr (st_dangerous_bypass_mode s))"

definition save_with :: "(settings_file \<Rightarrow> settings_file) \<Rightarrow> (settings_file \<Rightarrow> nat) \<Rightarrow> write_answer
    \<Rightarrow> settings_entry \<Rightarrow> file_error option \<times> settings_entry" where
  "save_with g len_of io e =
     (case load_settings e of
        Inl err \<Rightarrow> (Some err, e)
      | Inr s \<Rightarrow> write_state len_of io (g s) e)"

definition save_timeout :: "nat \<Rightarrow> (settings_file \<Rightarrow> nat) \<Rightarrow> write_answer \<Rightarrow> settings_entry
    \<Rightarrow> file_error option \<times> settings_entry" where
  "save_timeout minutes = save_with (\<lambda>s. s\<lparr>st_idle_timeout_minutes := minutes\<rparr>)"

definition save_dangerous_bypass_mode :: "bool \<Rightarrow> (settings_file \<Rightarrow> nat) \<Rightarrow> write_answer
    \<Rightarrow> settings_entry \<Rightarrow> file_error option \<times> settings_entry" where
  "save_dangerous_bypass_mode enabled = save_with (\<lambda>s. s\<lparr>st_dangerous_bypass_mode := enabled\<rparr>)"

subsection \<open>Lemmas\<close>

lemma default_settings_ok: "settings_ok default_settings"
  by (simp add: settings_ok_def default_settings_def timeout_default_def SUPPORTED_TIMEOUT_MINUTES_def)

lemma load_settings_ok: "load_settings e = Inr s \<Longrightarrow> settings_ok s"
  by (auto simp: load_settings_def default_settings_ok split: sum.splits option.splits
      elim: read_state_SomeD)

text \<open>Saving is an update of the state store.\<close>

lemma save_with_update: "save_with g len_of io e
    = sf.update MAX_SETTINGS_BYTES settings_ok len_of default_settings io g e"
  by (simp add: save_with_def sf.update_def load_settings_def split: sum.splits option.splits)

text \<open>Each save changes its own field only; what is loaded later is always supported.\<close>

lemma saved_settings:
  assumes "load_settings e = Inr s" and "settings_ok (g s)" and "\<forall>s. len_of s \<le> MAX_SETTINGS_BYTES"
    and "save_with g len_of io e = (None, e')"
  shows "load_settings e' = Inr (g s)"
proof -
  have "write_state len_of io (g s) e = (None, e')" using assms(1,4) by (simp add: save_with_def)
  from sf.load_saved[OF _ this, of MAX_SETTINGS_BYTES settings_ok] assms(2,3) show ?thesis
    by (simp add: load_settings_def)
qed

lemma save_timeout_keeps_bypass:
  assumes "load_settings e = Inr s" and "m \<in> set SUPPORTED_TIMEOUT_MINUTES"
    and "\<forall>s. len_of s \<le> MAX_SETTINGS_BYTES" and "save_timeout m len_of io e = (None, e')"
  shows "load_timeout e' = Inr m \<and> dangerous_bypass_mode e' = dangerous_bypass_mode e"
proof -
  have "load_settings e' = Inr (s\<lparr>st_idle_timeout_minutes := m\<rparr>)"
    using saved_settings[OF assms(1) _ assms(3) assms(4)[unfolded save_timeout_def]]
      load_settings_ok[OF assms(1)] assms(2) by (simp add: settings_ok_def)
  with assms(1,2) show ?thesis by (simp add: load_timeout_def dangerous_bypass_mode_def try_timeout_def)
qed

lemma save_bypass_keeps_timeout:
  assumes "load_settings e = Inr s" and "\<forall>s. len_of s \<le> MAX_SETTINGS_BYTES"
    and "save_dangerous_bypass_mode b len_of io e = (None, e')"
  shows "dangerous_bypass_mode e' = Inr b \<and> load_timeout e' = load_timeout e"
proof -
  have "load_settings e' = Inr (s\<lparr>st_dangerous_bypass_mode := b\<rparr>)"
    using saved_settings[OF assms(1) _ assms(2) assms(3)[unfolded save_dangerous_bypass_mode_def]]
      load_settings_ok[OF assms(1)] by (simp add: settings_ok_def)
  with assms(1) show ?thesis by (simp add: load_timeout_def dangerous_bypass_mode_def)
qed

text \<open>An unsafe or corrupt file is refused and never replaced.\<close>

lemma unsafe_settings_untouched: "load_settings e = Inl err \<Longrightarrow> save_with g len_of io e = (Some err, e)"
  by (simp add: save_with_def)

end
