(* ===== verification/Known_Hosts.thy ===== *)
theory Known_Hosts
  imports State_File
begin

text \<open>
  Host-key trust (\<open>src/src/daemon/ssh/known_hosts.rs\<close> and the verification policy of
  \<open>src/src/daemon/ssh.rs\<close>): inspection of the OpenSSH and the Sloosh stores, and the two
  mutations of Sloosh's own file. Key parsing, printing and fingerprints (russh), the OpenSSH
  store's reader (russh), Base64 and HMAC are fields of \<open>kh_lib\<close>. The text of the file is read
  as in the theory of texts; a file that is not UTF-8 has no content.
\<close>

definition MAX_KNOWN_HOSTS_BYTES :: nat where "MAX_KNOWN_HOSTS_BYTES = 1024 * 1024"

datatype known_host_source = OpenSsh | Sloosh

datatype host_key_trust_state =
    Trusted
  | Unknown
  | Changed known_host_source string bool  \<comment> \<open>store, stored fingerprint, replaceable\<close>

datatype known_host_mutation = Add | Replace string

datatype path_trust_state = PathTrusted | PathMissing | PathChanged string bool

datatype kh_error =
    KeyError  \<comment> \<open>\<open>SshError::KnownHosts\<close>\<close>
  | UnsafeKnownHosts
  | KnownHostsTooLarge
  | HostKeyStateChanged
  | HostKeyNotReplaceable
  | HostKeyMismatch string nat nat
  | UnknownHostKey string nat

record 'k kh_lib =
  kl_parse :: "string \<Rightarrow> 'k option"  \<comment> \<open>\<open>parse_public_key_base64\<close>\<close>
  kl_openssh :: "'k \<Rightarrow> string option"  \<comment> \<open>\<open>to_openssh\<close>\<close>
  kl_fingerprint :: "'k \<Rightarrow> string"
  kl_base64 :: "string \<Rightarrow> bytes option"
  kl_hmac :: "bytes \<Rightarrow> string \<Rightarrow> bytes \<Rightarrow> bool"  \<comment> \<open>salt, text, digest\<close>

subsection \<open>Lines\<close>

definition target_field :: "string \<Rightarrow> nat \<Rightarrow> string" where
  "target_field hostname port =
     (if port = 22 then hostname else ''['' @ hostname @ '']:'' @ show_nat port)"

definition pattern_matches :: "'k kh_lib \<Rightarrow> string \<Rightarrow> string \<Rightarrow> bool" where
  "pattern_matches lib target pattern =
     (case strip_prefix ''|1|'' pattern of
        Some encoded \<Rightarrow>
          (case split_on (CHR ''|'') encoded of
             p1 # p2 # _ \<Rightarrow>
               (case (kl_base64 lib p1, kl_base64 lib p2) of
                  (Some salt, Some hash) \<Rightarrow> kl_hmac lib salt target hash
                | _ \<Rightarrow> False)
           | _ \<Rightarrow> False)
      | None \<Rightarrow> pattern = target)"

definition matches_host :: "'k kh_lib \<Rightarrow> string \<Rightarrow> string \<Rightarrow> bool" where
  "matches_host lib target patterns = list_ex (pattern_matches lib target) (split_on (CHR '','') patterns)"

text \<open>The encoded key of a line that names the target.\<close>

definition line_key :: "'k kh_lib \<Rightarrow> string \<Rightarrow> string \<Rightarrow> string option" where
  "line_key lib target line =
     (let trimmed = trim_start line in
      if trimmed = [] \<or> hd trimmed = CHR ''#'' then None
      else (case split_whitespace trimmed of
              hosts # _ # encoded # _ \<Rightarrow> if matches_host lib target hosts then Some encoded else None
            | _ \<Rightarrow> None))"

fun keys_from :: "'k kh_lib \<Rightarrow> string \<Rightarrow> nat \<Rightarrow> string list \<Rightarrow> kh_error + (nat \<times> 'k) list" where
  "keys_from lib target i [] = Inr []"
| "keys_from lib target i (l # ls) =
     (case line_key lib target l of
        None \<Rightarrow> keys_from lib target (Suc i) ls
      | Some encoded \<Rightarrow>
          (case kl_parse lib encoded of
             None \<Rightarrow> Inl KeyError
           | Some k \<Rightarrow>
               (case keys_from lib target (Suc i) ls of
                  Inl e \<Rightarrow> Inl e
                | Inr ms \<Rightarrow> Inr ((Suc i, k) # ms))))"

definition known_host_keys :: "'k kh_lib \<Rightarrow> string \<Rightarrow> nat \<Rightarrow> string \<Rightarrow> kh_error + (nat \<times> 'k) list" where
  "known_host_keys lib hostname port contents =
     keys_from lib (target_field hostname port) 0 (str_lines contents)"

definition plain_target_line :: "string \<Rightarrow> string \<Rightarrow> nat \<Rightarrow> nat \<Rightarrow> bool" where
  "plain_target_line contents hostname port line_number =
     (let ls = str_lines contents; i = line_number - 1 in
      i < length ls \<and>
      (case split_whitespace (ls ! i) of
         field # _ \<Rightarrow> field = target_field hostname port
       | [] \<Rightarrow> False))"

subsection \<open>Inspection\<close>

definition classify_known_keys :: "'k kh_lib \<Rightarrow> 'k \<Rightarrow> (nat \<times> 'k) list \<Rightarrow> (string \<times> string \<times> nat) option
    \<Rightarrow> path_trust_state" where
  "classify_known_keys lib observed keys sloosh_line =
     (if list_ex (\<lambda>(_, stored). stored = observed) keys then PathTrusted
      else (case keys of
              [] \<Rightarrow> PathMissing
            | (line, stored) # _ \<Rightarrow>
                PathChanged (kl_fingerprint lib stored)
                  (length keys = 1 \<and>
                   (case sloosh_line of
                      None \<Rightarrow> False
                    | Some (contents, hostname, port) \<Rightarrow> plain_target_line contents hostname port line))))"

text \<open>The file behind Sloosh's path; \<open>O_NOFOLLOW\<close> makes opening a symbolic link fail.\<close>

type_synonym kh_entry = "string entry"

definition read_bounded :: "kh_entry \<Rightarrow> kh_error + string" where
  "read_bounded e =
     (case e of
        Absent \<Rightarrow> Inr []
      | StatError \<Rightarrow> Inl KeyError
      | Present n \<Rightarrow>
          if nd_kind n = Symlink \<or> \<not> nd_open n then Inl KeyError
          else if nd_kind n \<noteq> Regular \<or> \<not> nd_own n \<or> \<not> nd_private n then Inl UnsafeKnownHosts
          else if nd_len n > MAX_KNOWN_HOSTS_BYTES then Inl KnownHostsTooLarge
          else (case nd_content n of None \<Rightarrow> Inl UnsafeKnownHosts | Some t \<Rightarrow> Inr t))"

definition inspect_sloosh_path :: "'k kh_lib \<Rightarrow> string \<Rightarrow> nat \<Rightarrow> 'k \<Rightarrow> kh_entry
    \<Rightarrow> kh_error + path_trust_state" where
  "inspect_sloosh_path lib hostname port observed e =
     (case read_bounded e of
        Inl err \<Rightarrow> Inl err
      | Inr contents \<Rightarrow>
          (case known_host_keys lib hostname port contents of
             Inl err \<Rightarrow> Inl err
           | Inr keys \<Rightarrow> Inr (classify_known_keys lib observed keys (Some (contents, hostname, port)))))"

text \<open>\<open>openssh_keys\<close> is russh's \<open>known_host_keys_path\<close> on the OpenSSH file.\<close>

definition inspect_path :: "'k kh_lib \<Rightarrow> 'k \<Rightarrow> kh_error + (nat \<times> 'k) list \<Rightarrow> kh_error + path_trust_state" where
  "inspect_path lib observed openssh_keys =
     (case openssh_keys of
        Inl err \<Rightarrow> Inl err
      | Inr keys \<Rightarrow> Inr (classify_known_keys lib observed keys None))"

definition inspect_at_paths :: "'k kh_lib \<Rightarrow> string \<Rightarrow> nat \<Rightarrow> 'k \<Rightarrow> kh_error + (nat \<times> 'k) list
    \<Rightarrow> kh_entry \<Rightarrow> kh_error + host_key_trust_state" where
  "inspect_at_paths lib hostname port observed openssh_keys sloosh =
     (case inspect_path lib observed openssh_keys of
        Inl err \<Rightarrow> Inl err
      | Inr PathTrusted \<Rightarrow> Inr Trusted
      | Inr (PathChanged fp _) \<Rightarrow> Inr (Changed OpenSsh fp False)
      | Inr PathMissing \<Rightarrow>
          (case inspect_sloosh_path lib hostname port observed sloosh of
             Inl err \<Rightarrow> Inl err
           | Inr PathTrusted \<Rightarrow> Inr Trusted
           | Inr (PathChanged fp rep) \<Rightarrow> Inr (Changed Sloosh fp rep)
           | Inr PathMissing \<Rightarrow> Inr Unknown))"

subsection \<open>Mutation\<close>

definition mutated_lines :: "'k kh_lib \<Rightarrow> string \<Rightarrow> nat \<Rightarrow> string \<Rightarrow> (nat \<times> 'k) list \<Rightarrow> known_host_mutation
    \<Rightarrow> string list \<Rightarrow> kh_error + string list" where
  "mutated_lines lib hostname port contents existing mutation ls =
     (case mutation of
        Add \<Rightarrow> if existing \<noteq> [] then Inl HostKeyStateChanged else Inr ls
      | Replace stored_fingerprint \<Rightarrow>
          (case existing of
             [(line, stored)] \<Rightarrow>
               if \<not> plain_target_line contents hostname port line then Inl HostKeyNotReplaceable
               else if kl_fingerprint lib stored \<noteq> stored_fingerprint then Inl HostKeyStateChanged
               else Inr (take (line - 1) ls @ drop (Suc (line - 1)) ls)
           | [] \<Rightarrow> Inl HostKeyStateChanged
           | _ \<Rightarrow> Inl HostKeyNotReplaceable))"

definition with_line :: "string list \<Rightarrow> string \<Rightarrow> string" where
  "with_line ls replacement =
     (let updated = concat ls in
      (if updated \<noteq> [] \<and> last updated \<noteq> LF then updated @ [LF] else updated) @ replacement)"

definition updated_contents :: "'k kh_lib \<Rightarrow> string \<Rightarrow> nat \<Rightarrow> 'k \<Rightarrow> known_host_mutation \<Rightarrow> string
    \<Rightarrow> kh_error + string" where
  "updated_contents lib hostname port observed mutation contents =
     (case kl_openssh lib observed of
        None \<Rightarrow> Inl KeyError
      | Some encoded \<Rightarrow>
          (case known_host_keys lib hostname port contents of
             Inl err \<Rightarrow> Inl err
           | Inr existing \<Rightarrow>
               (case mutated_lines lib hostname port contents existing mutation (split_inclusive [] contents) of
                  Inl err \<Rightarrow> Inl err
                | Inr ls \<Rightarrow> Inr (with_line ls (target_field hostname port @ '' '' @ encoded @ [LF])))))"

text \<open>
  \<open>prepared\<close>: the parent directory exists and the lock file was locked; \<open>written\<close>: the
  temporary file was written and renamed over the store.
\<close>

definition commit_at_path :: "'k kh_lib \<Rightarrow> bool \<Rightarrow> bool \<Rightarrow> string \<Rightarrow> nat \<Rightarrow> 'k \<Rightarrow> known_host_mutation
    \<Rightarrow> kh_entry \<Rightarrow> kh_error option \<times> kh_entry" where
  "commit_at_path lib prepared written hostname port observed mutation e =
     (if \<not> prepared then (Some KeyError, e)
      else (case read_bounded e of
        Inl err \<Rightarrow> (Some err, e)
      | Inr contents \<Rightarrow>
          (case updated_contents lib hostname port observed mutation contents of
             Inl err \<Rightarrow> (Some err, e)
           | Inr updated \<Rightarrow>
               if \<not> written then (Some KeyError, e)
               else (None, Present (fresh_node (str_len updated) updated)))))"

subsection \<open>Verification of a presented key\<close>

text \<open>russh's \<open>check_known_hosts_path\<close> on a store: found, not found, changed at a line, or an error.\<close>

datatype check_result = CheckOk bool | KeyChanged nat | CheckError

definition verify_server_key :: "string \<Rightarrow> nat \<Rightarrow> check_result \<Rightarrow> check_result \<Rightarrow> kh_error + bool" where
  "verify_server_key host port openssh_check sloosh_check =
     (case openssh_check of
        CheckOk True \<Rightarrow> Inr True
      | KeyChanged line \<Rightarrow> Inl (HostKeyMismatch host port line)
      | CheckError \<Rightarrow> Inl KeyError
      | CheckOk False \<Rightarrow>
          (case sloosh_check of
             CheckOk True \<Rightarrow> Inr True
           | CheckOk False \<Rightarrow> Inl (UnknownHostKey host port)
           | KeyChanged line \<Rightarrow> Inl (HostKeyMismatch host port line)
           | CheckError \<Rightarrow> Inl KeyError))"

definition verify_server_key_with_policy :: "'k kh_lib \<Rightarrow> bool \<Rightarrow> bool \<Rightarrow> string \<Rightarrow> nat \<Rightarrow> 'k
    \<Rightarrow> check_result \<Rightarrow> check_result \<Rightarrow> kh_error + (nat \<times> 'k) list \<Rightarrow> bool \<Rightarrow> kh_entry
    \<Rightarrow> (kh_error + bool) \<times> kh_entry" where
  "verify_server_key_with_policy lib prepared written host port key openssh_check sloosh_check
       openssh_keys trust_new_host e =
     (case verify_server_key host port openssh_check sloosh_check of
        Inl (UnknownHostKey h p) \<Rightarrow>
          if trust_new_host then
            (case inspect_at_paths lib host port key openssh_keys e of
               Inl err \<Rightarrow> (Inl err, e)
             | Inr Unknown \<Rightarrow>
                 (case commit_at_path lib prepared written host port key Add e of
                    (Some err, e') \<Rightarrow> (Inl err, e')
                  | (None, e') \<Rightarrow> (Inr True, e'))
             | Inr _ \<Rightarrow> (Inl HostKeyStateChanged, e))
          else (Inl (UnknownHostKey h p), e)
      | result \<Rightarrow> (result, e))"

text \<open>\<open>host_has_known_key\<close>: whether any key is recorded, errors counting as none.\<close>

definition host_has_known_key :: "kh_error + (nat \<times> 'k) list \<Rightarrow> kh_error + (nat \<times> 'k) list \<Rightarrow> bool" where
  "host_has_known_key openssh_keys sloosh_keys =
     (let some = (\<lambda>r. case r of Inl _ \<Rightarrow> False | Inr ks \<Rightarrow> ks \<noteq> []) in some openssh_keys \<or> some sloosh_keys)"

subsection \<open>Text of lines\<close>

lemma trim_start_end: "is_ws c \<Longrightarrow>
  trim_start (x @ [c]) = (if trim_start x = [] then [] else trim_start x @ [c])"
  by (induction x) (auto simp: trim_start_def)

lemma split_ws_from_end: "is_ws c \<Longrightarrow> split_ws_from tok (s @ [c]) = split_ws_from tok s"
  by (induction tok s rule: split_ws_from.induct) auto

lemma split_ws_trim: "split_ws_from [] (trim_start s) = split_ws_from [] s"
  by (induction s) (auto simp: trim_start_def)

lemma split_ws_token:
  "\<forall>c\<in>set t. \<not> is_ws c \<Longrightarrow> split_ws_from tok (t @ CHR '' '' # s)
     = (if tok @ t = [] then split_ws_from [] s else (tok @ t) # split_ws_from [] s)"
  by (induction t arbitrary: tok) (auto simp: is_ws_def)

lemma line_key_end: "is_ws c \<Longrightarrow> line_key lib t (l @ [c]) = line_key lib t l"
  by (auto simp: line_key_def Let_def trim_start_end split_whitespace_def split_ws_from_end hd_append
      split: if_splits)

lemma ws_line_ends: "is_ws LF" "is_ws CR"
  by (simp_all add: is_ws_def)

lemma line_key_strip: "line_key lib t (strip_newline l) = line_key lib t l"
proof (cases "l \<noteq> [] \<and> last l = LF")
  case True
  then obtain b where l: "l = b @ [LF]" by (metis append_butlast_last_id)
  show ?thesis
  proof (cases "b \<noteq> [] \<and> last b = CR")
    case True
    then obtain d where "b = d @ [CR]" by (metis append_butlast_last_id)
    then show ?thesis by (simp add: l strip_newline_def line_key_end ws_line_ends del: append_assoc)
  next
    case False
    then show ?thesis by (auto simp: l strip_newline_def line_key_end ws_line_ends Let_def)
  qed
qed (auto simp: strip_newline_def)

text \<open>The keys of a list of lines, without their numbers.\<close>

fun line_keys :: "'k kh_lib \<Rightarrow> string \<Rightarrow> string list \<Rightarrow> 'k list option" where
  "line_keys lib t [] = Some []"
| "line_keys lib t (l # ls) =
     (case line_key lib t l of
        None \<Rightarrow> line_keys lib t ls
      | Some encoded \<Rightarrow>
          (case (kl_parse lib encoded, line_keys lib t ls) of
             (Some k, Some ks) \<Rightarrow> Some (k # ks)
           | _ \<Rightarrow> None))"

lemma line_keys_append:
  "line_keys lib t (xs @ ys) =
     (case (line_keys lib t xs, line_keys lib t ys) of (Some a, Some b) \<Rightarrow> Some (a @ b) | _ \<Rightarrow> None)"
  by (induction xs) (auto split: option.splits)

lemma line_keys_strip: "line_keys lib t (map strip_newline ls) = line_keys lib t ls"
  by (induction ls) (simp_all add: line_key_strip cong: option.case_cong)

lemma keys_from_line_keys:
  "keys_from lib t i ls = Inr ms \<Longrightarrow> line_keys lib t ls = Some (map snd ms)"
  "keys_from lib t i ls = Inl e \<Longrightarrow> line_keys lib t ls = None \<and> e = KeyError"
  by (induction ls arbitrary: i ms) (auto split: option.splits sum.splits)

lemma keys_from_None: "line_keys lib t ls = None \<Longrightarrow> keys_from lib t i ls = Inl KeyError"
  using keys_from_line_keys[of lib t i ls] by (cases "keys_from lib t i ls") auto

lemma keys_from_Some:
  "line_keys lib t ls = Some ks \<Longrightarrow> \<exists>ms. keys_from lib t i ls = Inr ms \<and> map snd ms = ks"
  using keys_from_line_keys[of lib t i ls] by (cases "keys_from lib t i ls") auto

lemma keys_from_index:
  "keys_from lib t i ls = Inr ms \<Longrightarrow> (n, k) \<in> set ms \<Longrightarrow>
     i < n \<and> n - Suc i < length ls \<and> line_key lib t (ls ! (n - Suc i)) \<noteq> None"
proof (induction ls arbitrary: i ms)
  case (Cons l ls)
  have step: "i < n \<and> n - Suc i < length (l # ls) \<and> line_key lib t ((l # ls) ! (n - Suc i)) \<noteq> None"
    if "keys_from lib t (Suc i) ls = Inr ms'" "(n, k) \<in> set ms'" for ms'
    using Cons.IH[OF that] by (auto simp: nth_Cons' Suc_diff_Suc)
  show ?case
  proof (cases "line_key lib t l")
    case None
    with Cons.prems step show ?thesis by simp
  next
    case (Some enc)
    with Cons.prems(1) obtain k' ms' where "ms = (Suc i, k') # ms'" "keys_from lib t (Suc i) ls = Inr ms'"
      by (auto split: option.splits sum.splits)
    with Cons.prems(2) step[of ms'] Some show ?thesis by auto
  qed
qed simp

lemma keys_from_parsed:
  "keys_from lib t i ls = Inr ms \<Longrightarrow> (n, k) \<in> set ms \<Longrightarrow>
     \<exists>encoded. line_key lib t (ls ! (n - Suc i)) = Some encoded \<and> kl_parse lib encoded = Some k"
proof (induction ls arbitrary: i ms)
  case (Cons l ls)
  have step: "\<exists>encoded. line_key lib t ((l # ls) ! (n - Suc i)) = Some encoded \<and> kl_parse lib encoded = Some k"
    if "keys_from lib t (Suc i) ls = Inr ms'" "(n, k) \<in> set ms'" for ms'
    using Cons.IH[OF that] keys_from_index[OF that] by (auto simp: nth_Cons' Suc_diff_Suc)
  show ?case
  proof (cases "line_key lib t l")
    case None
    with Cons.prems step show ?thesis by simp
  next
    case (Some enc)
    with Cons.prems(1) obtain k' ms' where "ms = (Suc i, k') # ms'" "keys_from lib t (Suc i) ls = Inr ms'" "kl_parse lib enc = Some k'"
      by (auto split: option.splits sum.splits)
    with Cons.prems(2) step[of ms'] Some show ?thesis by auto
  qed
qed simp

lemma known_host_keys_line_keys:
  "known_host_keys lib h p c = Inr ms \<Longrightarrow>
     line_keys lib (target_field h p) (split_inclusive [] c) = Some (map snd ms)"
  using keys_from_line_keys(1)[of lib "target_field h p" 0 "map strip_newline (split_inclusive [] c)" ms]
  by (simp add: known_host_keys_def str_lines_def line_keys_strip)

subsection \<open>Pieces of a file\<close>

text \<open>A list of pieces as \<open>split_inclusive\<close> gives them: lines with their line feeds.\<close>

fun pieces :: "string list \<Rightarrow> bool" where
  "pieces [] = True"
| "pieces [p] = (p \<noteq> [] \<and> LF \<notin> set (butlast p))"
| "pieces (p # q # ps) = (p \<noteq> [] \<and> LF \<notin> set (butlast p) \<and> last p = LF \<and> pieces (q # ps))"

lemma split_inclusive_line:
  "LF \<notin> set l \<Longrightarrow> split_inclusive acc (l @ LF # s) = (acc @ l @ [LF]) # split_inclusive [] s"
  by (induction l arbitrary: acc) auto

lemma split_inclusive_rest:
  "LF \<notin> set l \<Longrightarrow> split_inclusive acc l = (if acc @ l = [] then [] else [acc @ l])"
  by (induction l arbitrary: acc) auto

lemma split_pieces: "pieces ps \<Longrightarrow> split_inclusive [] (concat ps) = ps"
proof (induction ps rule: pieces.induct)
  case (2 p)
  then obtain b c where p: "p = b @ [c]" "LF \<notin> set b" by (metis append_butlast_last_id pieces.simps(2))
  then show ?case
    using split_inclusive_line[OF p(2), of "[]" "[]"] split_inclusive_rest[of p "[]"]
    by (cases "c = LF") auto
next
  case (3 p q ps)
  then obtain b where p: "p = b @ [LF]" "LF \<notin> set b"
    by (metis append_butlast_last_id pieces.simps(3))
  with 3 split_inclusive_line[OF p(2), of "[]" "concat (q # ps)"] show ?case by simp
qed simp

lemma pieces_Cons: "pieces (p # ps) \<longleftrightarrow>
    p \<noteq> [] \<and> LF \<notin> set (butlast p) \<and> (ps \<noteq> [] \<longrightarrow> last p = LF) \<and> pieces ps"
  by (cases ps) auto

lemma pieces_split: "LF \<notin> set acc \<Longrightarrow> pieces (split_inclusive acc s)"
  by (induction acc s rule: split_inclusive.induct)
    (auto simp: pieces_Cons dest: in_set_butlastD)

lemma pieces_remove: "pieces ps \<Longrightarrow> pieces (take i ps @ drop (Suc i) ps)"
proof (induction ps arbitrary: i)
  case (Cons p ps)
  then show ?case by (cases i) (auto simp: pieces_Cons)
qed simp

text \<open>Appending a line to pieces, completing the last one first.\<close>

definition completed :: "string list \<Rightarrow> string list" where
  "completed ps = (if ps \<noteq> [] \<and> last (last ps) \<noteq> LF then butlast ps @ [last ps @ [LF]] else ps)"

lemma completed_props:
  assumes "pieces ps" and "LF \<notin> set r"
  shows "pieces (completed ps @ [r @ [LF]])" and "with_line ps (r @ [LF]) = concat (completed ps @ [r @ [LF]])"
proof -
  have ne: "concat ps \<noteq> [] \<longleftrightarrow> ps \<noteq> []" "ps \<noteq> [] \<Longrightarrow> last (concat ps) = last (last ps)"
    using assms(1) by (induction ps rule: pieces.induct) auto
  show "with_line ps (r @ [LF]) = concat (completed ps @ [r @ [LF]])"
  proof (cases "ps \<noteq> [] \<and> last (last ps) \<noteq> LF")
    case True
    then have "concat (butlast ps) @ last ps = concat ps"
      by (metis append_butlast_last_id concat.simps concat_append append_Nil2)
    with True ne show ?thesis by (simp add: with_line_def completed_def Let_def)
  next
    case False
    with ne show ?thesis by (auto simp: with_line_def completed_def Let_def)
  qed
  have last: "pieces (qs @ [q]) \<Longrightarrow> pieces (qs @ [if last q = LF then q else q @ [LF], r @ [LF]])" for qs q
    using assms(2)
  proof (induction qs)
    case Nil
    then show ?case by (cases q rule: rev_cases) (auto simp: butlast_append)
  next
    case (Cons q' qs)
    then show ?case by (auto simp: pieces_Cons)
  qed
  show "pieces (completed ps @ [r @ [LF]])"
  proof (cases ps rule: rev_cases)
    case Nil
    with assms(2) show ?thesis by (simp add: completed_def)
  next
    case (snoc qs q)
    with assms(1) last[of qs q] show ?thesis by (auto simp: completed_def split: if_splits)
  qed
qed

lemma line_keys_completed: "line_keys lib t (completed ps) = line_keys lib t ps"
proof (cases "ps \<noteq> [] \<and> last (last ps) \<noteq> LF")
  case True
  have "line_keys lib t (butlast ps @ [last ps @ [LF]]) = line_keys lib t (butlast ps @ [last ps])"
    by (simp add: line_keys_append line_key_end ws_line_ends)
  with True show ?thesis by (simp add: completed_def)
qed (auto simp: completed_def)

lemma line_keys_with_line:
  assumes "pieces ps" and "LF \<notin> set r"
  shows "line_keys lib t (str_lines (with_line ps (r @ [LF]))) = line_keys lib t (ps @ [r])"
proof -
  have "str_lines (with_line ps (r @ [LF])) = map strip_newline (completed ps @ [r @ [LF]])"
    by (simp only: str_lines_def completed_props(2)[OF assms] split_pieces[OF completed_props(1)[OF assms]])
  then have "line_keys lib t (str_lines (with_line ps (r @ [LF]))) = line_keys lib t (completed ps @ [r @ [LF]])"
    by (simp only: line_keys_strip)
  then show ?thesis by (simp add: line_keys_append line_keys_completed line_key_end ws_line_ends)
qed

subsection \<open>Targets\<close>

text \<open>A target field as known_hosts lines can carry it in plain form.\<close>

definition clean_target :: "string \<Rightarrow> bool" where
  "clean_target t \<longleftrightarrow> t \<noteq> [] \<and> (\<forall>c\<in>set t. \<not> is_ws c) \<and> CHR '','' \<notin> set t
     \<and> hd t \<noteq> CHR ''#'' \<and> strip_prefix ''|1|'' t = None"

lemma split_on_absent: "d \<notin> set s \<Longrightarrow> split_on d s = [s]"
  by (induction s) auto

lemma matches_clean: "clean_target t \<Longrightarrow> matches_host lib t' t \<longleftrightarrow> t' = t"
  by (auto simp: clean_target_def matches_host_def split_on_absent pattern_matches_def)

lemma split_whitespace_target:
  "clean_target t \<Longrightarrow> split_whitespace (t @ CHR '' '' # s) = t # split_whitespace s"
  by (simp add: clean_target_def split_whitespace_def split_ws_token)

lemma trim_start_clean: "clean_target t \<Longrightarrow> trim_start (t @ s) = t @ s"
  by (cases t) (simp_all add: clean_target_def trim_start_def)

text \<open>A line of a clean target is invisible to the others.\<close>

lemma line_key_other:
  assumes "split_whitespace l = t # fs" and "clean_target t" and "t' \<noteq> t"
  shows "line_key lib t' l = None"
proof -
  have "split_whitespace (trim_start l) = t # fs" using assms(1) by (simp add: split_whitespace_def split_ws_trim)
  then show ?thesis
    using matches_clean[OF assms(2), of lib t'] assms(3)
    by (auto simp: line_key_def Let_def split: list.splits)
qed

lemma line_key_own:
  assumes "clean_target t" and "split_whitespace encoded = algo # b64 # rest"
  shows "line_key lib t (t @ CHR '' '' # encoded) = Some b64"
  using assms split_whitespace_target[OF assms(1), of encoded] matches_clean[OF assms(1), of lib t]
    trim_start_clean[OF assms(1), of "CHR '' '' # encoded"]
  by (auto simp: line_key_def Let_def clean_target_def)

subsection \<open>Properties\<close>

lemma line_keys_remove:
  assumes "i < length ps" and "line_key lib t (ps ! i) = None"
  shows "line_keys lib t (take i ps @ drop (Suc i) ps) = line_keys lib t ps"
proof -
  have "ps = take i ps @ ps ! i # drop (Suc i) ps" using assms(1) by (simp add: id_take_nth_drop)
  then have "line_keys lib t ps = line_keys lib t (take i ps @ ps ! i # drop (Suc i) ps)" by simp
  also have "\<dots> = line_keys lib t (take i ps @ drop (Suc i) ps)"
    using assms(2) by (simp add: line_keys_append)
  finally show ?thesis by simp
qed

lemma line_keys_remove_own:
  assumes "i < length ps" and "line_key lib t (ps ! i) \<noteq> None" and "line_keys lib t ps = Some [k]"
  shows "line_keys lib t (take i ps @ drop (Suc i) ps) = Some []"
proof -
  have ps: "ps = take i ps @ ps ! i # drop (Suc i) ps" using assms(1) by (simp add: id_take_nth_drop)
  have "line_keys lib t (take i ps @ ps ! i # drop (Suc i) ps) = Some [k]" using assms(3) ps by simp
  with assms(2) obtain a b k' where ab: "line_keys lib t (take i ps) = Some a"
    "line_keys lib t (drop (Suc i) ps) = Some b" "a @ k' # b = [k]"
    by (auto simp: line_keys_append split: option.splits)
  then have "a = [] \<and> b = []" by (cases a) auto
  with ab show ?thesis by (simp add: line_keys_append)
qed

text \<open>What a mutation leaves of the lines, seen by any target.\<close>

lemma mutated_line_keys:
  assumes ex: "known_host_keys lib host port contents = Inr existing"
    and mu: "mutated_lines lib host port contents existing mutation (split_inclusive [] contents) = Inr ls"
    and clean: "clean_target (target_field host port)"
  shows "pieces ls" and "line_keys lib (target_field host port) ls = Some []"
    and "t' \<noteq> target_field host port \<Longrightarrow>
      line_keys lib t' ls = line_keys lib t' (split_inclusive [] contents)"
proof -
  let ?ps = "split_inclusive [] contents" and ?t = "target_field host port"
  have own: "line_keys lib ?t ?ps = Some (map snd existing)" by (rule known_host_keys_line_keys[OF ex])
  have all: "pieces ls \<and> line_keys lib ?t ls = Some []
      \<and> (t' \<noteq> ?t \<longrightarrow> line_keys lib t' ls = line_keys lib t' ?ps)" for t'
  proof (cases mutation)
    case Add
    with mu own show ?thesis by (auto simp: mutated_lines_def pieces_split split: if_splits)
  next
    case (Replace fp)
    with mu obtain line stored where e: "existing = [(line, stored)]"
      and plain: "plain_target_line contents host port line"
      and ls: "ls = take (line - 1) ?ps @ drop (Suc (line - 1)) ?ps"
      by (auto simp: mutated_lines_def split: list.splits prod.splits if_splits)
    have sl: "str_lines contents = map strip_newline ?ps" by (simp add: str_lines_def)
    from keys_from_index[of lib ?t 0 "str_lines contents" existing line stored] ex e
    have idx: "line - 1 < length ?ps" "line_key lib ?t (?ps ! (line - 1)) \<noteq> None"
      by (auto simp: known_host_keys_def sl line_key_strip)
    obtain fs where f: "split_whitespace (strip_newline (?ps ! (line - 1))) = ?t # fs"
      using plain idx(1) by (auto simp: plain_target_line_def Let_def sl split: list.splits)
    have "t' \<noteq> ?t \<Longrightarrow> line_key lib t' (?ps ! (line - 1)) = None"
      using line_key_other[OF f clean] by (simp add: line_key_strip)
    then show ?thesis
      using line_keys_remove[OF idx(1), of lib t'] line_keys_remove_own[OF idx, of stored] own e ls
      by (simp add: pieces_remove pieces_split)
  qed
  show "pieces ls" "line_keys lib ?t ls = Some []" using all[of ?t] by auto
  show "t' \<noteq> ?t \<Longrightarrow> line_keys lib t' ls = line_keys lib t' ?ps" using all[of t'] by blast
qed

lemma updated_line_keys:
  assumes up: "updated_contents lib host port key mutation contents = Inr updated"
    and clean: "clean_target (target_field host port)"
    and enc: "kl_openssh lib key = Some encoded" "split_whitespace encoded = algo # b64 # rest"
      "LF \<notin> set encoded" "kl_parse lib b64 = Some key"
  shows "line_keys lib (target_field host port) (str_lines updated) = Some [key]"
    and "t' \<noteq> target_field host port \<Longrightarrow>
      line_keys lib t' (str_lines updated) = line_keys lib t' (str_lines contents)"
proof -
  let ?t = "target_field host port"
  obtain existing ls where ex: "known_host_keys lib host port contents = Inr existing"
    and mu: "mutated_lines lib host port contents existing mutation (split_inclusive [] contents) = Inr ls"
    and upd: "updated = with_line ls ((?t @ CHR '' '' # encoded) @ [LF])"
    using up enc(1) by (auto simp: updated_contents_def split: sum.splits)
  note m = mutated_line_keys[OF ex mu clean]
  have nolf: "LF \<notin> set (?t @ CHR '' '' # encoded)"
    using clean enc(3) ws_line_ends(1) by (auto simp: clean_target_def)
  note w = line_keys_with_line[OF m(1) nolf, of lib, folded upd]
  show "line_keys lib ?t (str_lines updated) = Some [key]"
    using m(2) enc(4) line_key_own[OF clean enc(2), of lib] by (simp add: w line_keys_append)
  have "split_whitespace (?t @ CHR '' '' # encoded) = ?t # split_whitespace encoded"
    by (rule split_whitespace_target[OF clean])
  note other = line_key_other[OF this clean]
  assume ne: "t' \<noteq> ?t"
  have "line_keys lib t' (str_lines contents) = line_keys lib t' (split_inclusive [] contents)"
    by (simp add: str_lines_def line_keys_strip)
  then show "line_keys lib t' (str_lines updated) = line_keys lib t' (str_lines contents)"
    using other[OF ne, of lib] m(3)[OF ne] unfolding w
    by (simp add: line_keys_append split: option.splits)
qed

lemma same_keys:
  assumes "line_keys lib (target_field h p) (str_lines updated) = line_keys lib (target_field h p) (str_lines contents)"
  shows "map_sum id (map snd) (known_host_keys lib h p updated) = map_sum id (map snd) (known_host_keys lib h p contents)"
proof (cases "line_keys lib (target_field h p) (str_lines contents)")
  case None
  with assms show ?thesis by (simp add: known_host_keys_def keys_from_None)
next
  case (Some ks)
  with assms have "line_keys lib (target_field h p) (str_lines updated) = Some ks" by simp
  from keys_from_Some[OF Some, of 0] keys_from_Some[OF this, of 0] show ?thesis
    by (auto simp: known_host_keys_def)
qed

text \<open>
  \<open>kept_lines\<close>: what a mutation leaves of the store's lines: all of them, or all but one whose first field is
  the target and whose key has the confirmed fingerprint.
\<close>

definition kept_lines :: "'k kh_lib \<Rightarrow> string \<Rightarrow> known_host_mutation \<Rightarrow> string list \<Rightarrow> string list \<Rightarrow> bool" where
  "kept_lines lib target mutation ls kept \<longleftrightarrow> (case mutation of
     Add \<Rightarrow> kept = ls
   | Replace fingerprint \<Rightarrow> (\<exists>before line after fields encoded stored.
       ls = before @ line # after \<and> kept = before @ after \<and> split_whitespace (strip_newline line) = target # fields
       \<and> line_key lib target line = Some encoded \<and> kl_parse lib encoded = Some stored
       \<and> kl_fingerprint lib stored = fingerprint))"

lemma mutated_kept:
  assumes ex: "known_host_keys lib host port contents = Inr existing"
    and mu: "mutated_lines lib host port contents existing mutation (split_inclusive [] contents) = Inr ls"
  shows "kept_lines lib (target_field host port) mutation (split_inclusive [] contents) ls"
proof (cases mutation)
  case Add
  with mu show ?thesis by (simp add: mutated_lines_def kept_lines_def split: if_splits)
next
  case (Replace fp)
  let ?ps = "split_inclusive [] contents" and ?t = "target_field host port"
  from Replace mu obtain line stored where e: "existing = [(line, stored)]"
    and plain: "plain_target_line contents host port line" and fp: "kl_fingerprint lib stored = fp"
    and ls: "ls = take (line - 1) ?ps @ drop (Suc (line - 1)) ?ps"
    by (auto simp: mutated_lines_def split: list.splits prod.splits if_splits)
  have sl: "str_lines contents = map strip_newline ?ps" by (simp add: str_lines_def)
  have in_range: "line - 1 < length ?ps"
    using keys_from_index[of lib ?t 0 "str_lines contents" existing line stored] ex e by (auto simp: known_host_keys_def sl)
  then obtain encoded where key: "line_key lib ?t (?ps ! (line - 1)) = Some encoded" "kl_parse lib encoded = Some stored"
    using keys_from_parsed[of lib ?t 0 "str_lines contents" existing line stored] ex e
    by (auto simp: known_host_keys_def sl line_key_strip)
  obtain fs where "split_whitespace (strip_newline (?ps ! (line - 1))) = ?t # fs"
    using plain in_range by (auto simp: plain_target_line_def Let_def sl split: list.splits)
  with key fp ls id_take_nth_drop[OF in_range] show ?thesis
    unfolding kept_lines_def Replace known_host_mutation.case by (intro exI conjI) assumption+
qed

text \<open>
  C27: What a committed host key changes. A commit that fails leaves the file untouched. One that succeeds
  leaves every line of the store as it was, comments and lines it cannot read included, but for the one
  that a replacement removes, whose first field is the target and whose key has the confirmed
  fingerprint, and appends one line with the target and the observed key. If the target is a plain
  field (not empty, no comma or white space in it, not starting with \<open>#\<close> or \<open>|1|\<close>, none of which the code
  checks), then the store answers exactly this key for this host and port, whatever was there
  before, and for every other target the keys it answered before. The printed key must parse back.
\<close>

theorem commit_sets_only_key:
  assumes "commit_at_path lib prepared written host port key mutation e = (r, e')"
    and "kl_openssh lib key = Some encoded" "split_whitespace encoded = algo # b64 # rest"
    and "LF \<notin> set encoded" "kl_parse lib b64 = Some key"
  shows "(r \<noteq> None \<and> e' = e) \<or>
    (\<exists>contents kept updated. r = None \<and> read_bounded e = Inr contents
      \<and> e' = Present (fresh_node (str_len updated) updated)
      \<and> kept_lines lib (target_field host port) mutation (split_inclusive [] contents) kept
      \<and> updated = with_line kept (target_field host port @ '' '' @ encoded @ [LF])
      \<and> (clean_target (target_field host port) \<longrightarrow>
           (\<exists>i. known_host_keys lib host port updated = Inr [(i, key)])
           \<and> (\<forall>h p. target_field h p \<noteq> target_field host port \<longrightarrow>
                map_sum id (map snd) (known_host_keys lib h p updated)
                  = map_sum id (map snd) (known_host_keys lib h p contents))))"
proof (cases r)
  case (Some err)
  with assms(1) show ?thesis
    by (auto simp: commit_at_path_def split: sum.splits if_splits)
next
  case None
  with assms(1) obtain contents updated where rd: "read_bounded e = Inr contents"
    and up: "updated_contents lib host port key mutation contents = Inr updated"
    and e': "e' = Present (fresh_node (str_len updated) updated)"
    by (auto simp: commit_at_path_def split: sum.splits if_splits)
  obtain existing kept where ex: "known_host_keys lib host port contents = Inr existing"
    and mu: "mutated_lines lib host port contents existing mutation (split_inclusive [] contents) = Inr kept"
    and upd: "updated = with_line kept (target_field host port @ '' '' @ encoded @ [LF])"
    using up assms(2) by (auto simp: updated_contents_def split: sum.splits)
  have "(\<exists>i. known_host_keys lib host port updated = Inr [(i, key)])
      \<and> (\<forall>h p. target_field h p \<noteq> target_field host port \<longrightarrow>
           map_sum id (map snd) (known_host_keys lib h p updated) = map_sum id (map snd) (known_host_keys lib h p contents))"
    if clean: "clean_target (target_field host port)"
  proof -
    note u = updated_line_keys[OF up clean assms(2-5)]
    obtain ms where "known_host_keys lib host port updated = Inr ms" "map snd ms = [key]"
      using keys_from_Some[OF u(1), of 0] by (auto simp: known_host_keys_def)
    then have "\<exists>i. known_host_keys lib host port updated = Inr [(i, key)]" by (cases ms) auto
    moreover have "target_field h p \<noteq> target_field host port \<Longrightarrow>
        map_sum id (map snd) (known_host_keys lib h p updated) = map_sum id (map snd) (known_host_keys lib h p contents)" for h p
      by (rule same_keys) (rule u(2))
    ultimately show ?thesis by blast
  qed
  with None rd e' mutated_kept[OF ex mu] upd show ?thesis by blast
qed

definition demo_lib :: "string kh_lib" where
  "demo_lib = \<lparr>kl_parse = Some, kl_openssh = (\<lambda>k. Some (''ssh-ed25519 '' @ k)), kl_fingerprint = id,
     kl_base64 = (\<lambda>_. None), kl_hmac = (\<lambda>_ _ _. False)\<rparr>"

definition demo_store :: kh_entry where
  "demo_store = Present (fresh_node 40 (''# mine'' @ [LF] @ ''h2 ssh-ed25519 OLD'' @ [LF]))"

theorem commit_sets_only_key_witness:
  "fst (commit_at_path demo_lib True True ''h2'' 22 ''NEW'' (Replace ''OLD'') demo_store) = None
   \<and> (\<exists>updated i. snd (commit_at_path demo_lib True True ''h2'' 22 ''NEW'' (Replace ''OLD'') demo_store)
        = Present (fresh_node (str_len updated) updated)
      \<and> known_host_keys demo_lib ''h2'' 22 updated = Inr [(i, ''NEW'')])"
proof -
  let ?c = "commit_at_path demo_lib True True ''h2'' 22 ''NEW'' (Replace ''OLD'') demo_store"
  have enc: "split_whitespace (''ssh-ed25519 '' @ ''NEW'') = ''ssh-ed25519'' # ''NEW'' # []" by code_simp
  let ?old = "''# mine'' @ [LF] @ ''h2 ssh-ed25519 OLD'' @ [LF]"
  have "read_bounded demo_store = Inr ?old"
    by (simp add: read_bounded_def demo_store_def fresh_node_def MAX_KNOWN_HOSTS_BYTES_def)
  moreover have "case updated_contents demo_lib ''h2'' 22 ''NEW'' (Replace ''OLD'') ?old of Inl _ \<Rightarrow> False | Inr _ \<Rightarrow> True"
    by code_simp
  ultimately have added: "fst ?c = None"
    by (simp add: commit_at_path_def split: sum.splits)
  have clean: "clean_target (target_field ''h2'' 22)" by code_simp
  have lib: "kl_openssh demo_lib ''NEW'' = Some (''ssh-ed25519 '' @ ''NEW'')"
    "kl_parse demo_lib ''NEW'' = Some ''NEW''" by (simp_all add: demo_lib_def)
  have nolf: "LF \<notin> set (''ssh-ed25519 '' @ ''NEW'')" by simp
  from commit_sets_only_key[OF prod.collapse[symmetric, of ?c] lib(1) enc nolf lib(2)] added clean
  have "\<exists>updated i. snd ?c = Present (fresh_node (str_len updated) updated)
      \<and> known_host_keys demo_lib ''h2'' 22 updated = Inr [(i, ''NEW'')]"
    by (elim disjE exE conjE) (simp, blast)
  with added show ?thesis by simp
qed

text \<open>
  Nothing keeps a comma out of a target (\<open>HostKeyAlias a,b\<close>): the line then speaks for other hosts, and not
  for the one whose key was confirmed.
\<close>

lemma comma_in_target:
  "case updated_contents demo_lib ''a,b'' 22 ''NEW'' Add [] of
     Inl _ \<Rightarrow> False
   | Inr updated \<Rightarrow> known_host_keys demo_lib ''a,b'' 22 updated = Inr [] \<and> known_host_keys demo_lib ''a'' 22 updated = Inr [(1, ''NEW'')]"
  by code_simp

text \<open>
  C8: trust on first use never overrides a recorded key. A presented key is accepted only if
  one of the stores already vouches for it without the other holding a different key (and then
  nothing is written), or if first-use trust was asked for, both verifications found the host
  unknown and at the moment of recording neither store held any key for it; a refusal leaves
  the store as it was.
\<close>

theorem first_use_never_overrides:
  assumes "verify_server_key_with_policy lib prepared written host port key openssh_check sloosh_check
      openssh_keys trust_new_host e = (r, e')"
  shows "(r = Inr True \<and> e' = e
        \<and> (openssh_check = CheckOk True \<or> openssh_check = CheckOk False \<and> sloosh_check = CheckOk True))
    \<or> (r = Inr True \<and> trust_new_host
        \<and> openssh_check = CheckOk False \<and> sloosh_check = CheckOk False \<and> openssh_keys = Inr []
        \<and> (\<exists>contents. read_bounded e = Inr contents \<and> known_host_keys lib host port contents = Inr [])
        \<and> commit_at_path lib prepared written host port key Add e = (None, e'))
    \<or> ((\<exists>err. r = Inl err) \<and> e' = e)"
proof (cases "verify_server_key host port openssh_check sloosh_check")
  case (Inr b)
  then have "b = True \<and> (openssh_check = CheckOk True
      \<or> openssh_check = CheckOk False \<and> sloosh_check = CheckOk True)"
    by (auto simp: verify_server_key_def split: check_result.splits bool.splits)
  with Inr assms show ?thesis by (auto simp: verify_server_key_with_policy_def)
next
  case (Inl err)
  show ?thesis
  proof (cases "trust_new_host \<and> (\<exists>h p. err = UnknownHostKey h p)")
    case False
    with Inl assms have "(r, e') = (Inl err, e)"
      by (auto simp: verify_server_key_with_policy_def split: kh_error.splits)
    then show ?thesis by simp
  next
    case True
    then have unk: "openssh_check = CheckOk False \<and> sloosh_check = CheckOk False"
      using Inl by (auto simp: verify_server_key_def split: check_result.splits bool.splits)
    show ?thesis
    proof (cases "inspect_at_paths lib host port key openssh_keys e = Inr Unknown")
      case False
      with Inl True assms have "(\<exists>err. r = Inl err) \<and> e' = e"
        by (auto simp: verify_server_key_with_policy_def split: sum.splits host_key_trust_state.splits)
      then show ?thesis by simp
    next
      case inspected: True
      then have keys: "openssh_keys = Inr []"
        "\<exists>contents. read_bounded e = Inr contents \<and> known_host_keys lib host port contents = Inr []"
        by (auto simp: inspect_at_paths_def inspect_path_def inspect_sloosh_path_def classify_known_keys_def
            split: sum.splits path_trust_state.splits if_splits list.splits prod.splits)
      obtain w e2 where cm: "commit_at_path lib prepared written host port key Add e = (w, e2)"
        by (cases "commit_at_path lib prepared written host port key Add e")
      have "w \<noteq> None \<Longrightarrow> e2 = e"
        using cm by (auto simp: commit_at_path_def split: sum.splits if_splits)
      with cm inspected Inl True unk keys assms show ?thesis
        by (cases w) (auto simp: verify_server_key_with_policy_def)
    qed
  qed
qed

theorem first_use_never_overrides_witness:
  "\<exists>err. fst (verify_server_key_with_policy demo_lib True True ''h2'' 22 ''NEW'' (CheckOk False)
      (KeyChanged 1) (Inr []) True demo_store) = Inl err"
  using first_use_never_overrides[OF prod.collapse[symmetric], of demo_lib True True "''h2''" 22 "''NEW''"
      "CheckOk False" "KeyChanged 1" "Inr []" True demo_store]
  by auto

text \<open>
  Committing does not check the size limit of reading: a store just below it can grow past it
  by one line, and is refused from then on.
\<close>

lemma committed_store_may_be_refused:
  assumes "commit_at_path lib prepared written host port key mutation e
      = (None, Present (fresh_node (str_len updated) updated))"
    and "MAX_KNOWN_HOSTS_BYTES < str_len updated"
  shows "read_bounded (Present (fresh_node (str_len updated) updated)) = Inl KnownHostsTooLarge"
  using assms(2) by (simp add: read_bounded_def fresh_node_def)

end
