(* ===== verification/Forward.thy ===== *)
theory Forward
  imports Lease "HOL-Library.Product_Lexorder"
begin

text \<open>
  Port forwards (\<open>src/src/daemon/forward.rs\<close>, the route lifecycle of
  \<open>src/src/daemon/ssh/route.rs\<close> and the forwarded-channel handler of
  \<open>src/src/daemon/ssh.rs\<close>): the spec parsers, the registry, and the steps of the tasks that
  share it, cut at their awaits. Grants are checked against the lease model. Sockets, SSH
  channels and the tunnels' byte pumps are the answers the steps take as arguments.
\<close>

definition ID_RAW_LEN :: nat where "ID_RAW_LEN = 8"

definition forward_id_of :: "nat list \<Rightarrow> string" where
  "forward_id_of raw = ''fwd-'' @ map (\<lambda>b. CROCKFORD_ALPHABET ! (b mod length CROCKFORD_ALPHABET)) raw"

datatype forward_error =
    BadLocalSpec string nat
  | BadRemoteSpec string nat
  | BadPort string string
  | EmptyHost string
  | ZeroTargetPort string
  | BadBindAddr string string
  | NonLoopbackBind string string
  | LeaseEnded string
  | Bind string nat
  | RemoteForwardRefused string nat
  | InvalidAllocatedRemotePort string nat
  | ForwardNotFound string
  | ForwardSsh

subsection \<open>Specifications\<close>

record local_spec =
  lo_bind_addr :: string
  lo_local_port :: nat
  lo_remote_host :: string
  lo_remote_port :: nat

record remote_spec =
  re_bind_addr :: string
  re_remote_port :: nat
  re_local_host :: string
  re_local_port :: nat

definition split_spec :: "string \<Rightarrow> nat + (string option \<times> string \<times> string \<times> string)" where
  "split_spec spec =
     (case split_on (CHR '':'') spec of
        [p1, h, p2] \<Rightarrow> Inr (None, p1, h, p2)
      | [b, p1, h, p2] \<Rightarrow> Inr (Some b, p1, h, p2)
      | other \<Rightarrow> Inl (length other))"

definition parse_port :: "string \<Rightarrow> string \<Rightarrow> forward_error + nat" where
  "parse_port spec v = (case parse_u16 v of None \<Rightarrow> Inl (BadPort spec v) | Some n \<Rightarrow> Inr n)"

text \<open>
  \<open>IpAddr::from_str\<close> on a text without colons, so on an IPv4 literal: four decimal numbers of
  at most three digits, without a leading zero, at most 255.
\<close>

definition parse_octet :: "string \<Rightarrow> nat option" where
  "parse_octet s =
     (if s = [] \<or> 3 < length s \<or> (hd s = CHR ''0'' \<and> 1 < length s) then None
      else (case parse_dec 0 s of None \<Rightarrow> None | Some n \<Rightarrow> if n \<le> 255 then Some n else None))"

definition parse_ipv4 :: "string \<Rightarrow> (nat \<times> nat \<times> nat \<times> nat) option" where
  "parse_ipv4 s =
     (case map parse_octet (split_on (CHR ''.'') s) of
        [Some a, Some b, Some c, Some d] \<Rightarrow> Some (a, b, c, d)
      | _ \<Rightarrow> None)"

definition is_loopback :: "nat \<times> nat \<times> nat \<times> nat \<Rightarrow> bool" where
  "is_loopback ip \<longleftrightarrow> fst ip = 127"

definition default_bind :: string where "default_bind = ''127.0.0.1''"

definition parse_local_spec :: "string \<Rightarrow> forward_error + local_spec" where
  "parse_local_spec spec =
     (case split_spec spec of
        Inl parts \<Rightarrow> Inl (BadLocalSpec spec parts)
      | Inr (bind, p1, host, p2) \<Rightarrow>
     (case parse_port spec p1 of Inl e \<Rightarrow> Inl e | Inr local_port \<Rightarrow>
     (case parse_port spec p2 of Inl e \<Rightarrow> Inl e | Inr remote_port \<Rightarrow>
        if host = [] then Inl (EmptyHost spec)
        else if remote_port = 0 then Inl (ZeroTargetPort spec)
        else
          let bind_addr = (case bind of None \<Rightarrow> default_bind | Some b \<Rightarrow> b) in
          (case parse_ipv4 bind_addr of
             None \<Rightarrow> Inl (BadBindAddr spec bind_addr)
           | Some ip \<Rightarrow>
               if \<not> is_loopback ip then Inl (NonLoopbackBind spec bind_addr)
               else Inr \<lparr>lo_bind_addr = bind_addr, lo_local_port = local_port,
                         lo_remote_host = host, lo_remote_port = remote_port\<rparr>))))"

definition parse_remote_spec :: "string \<Rightarrow> forward_error + remote_spec" where
  "parse_remote_spec spec =
     (case split_spec spec of
        Inl parts \<Rightarrow> Inl (BadRemoteSpec spec parts)
      | Inr (bind, p1, host, p2) \<Rightarrow>
     (case parse_port spec p1 of Inl e \<Rightarrow> Inl e | Inr remote_port \<Rightarrow>
     (case parse_port spec p2 of Inl e \<Rightarrow> Inl e | Inr local_port \<Rightarrow>
        if host = [] then Inl (EmptyHost spec)
        else if local_port = 0 then Inl (ZeroTargetPort spec)
        else Inr \<lparr>re_bind_addr = (case bind of None \<Rightarrow> default_bind | Some b \<Rightarrow> b),
                  re_remote_port = remote_port, re_local_host = host, re_local_port = local_port\<rparr>)))"

definition effective_remote_port :: "string \<Rightarrow> nat \<Rightarrow> nat \<Rightarrow> forward_error + nat" where
  "effective_remote_port host requested_port allocated_port =
     (if requested_port \<noteq> 0 then Inr requested_port
      else if allocated_port \<le> 65535 \<and> allocated_port \<noteq> 0 then Inr allocated_port
      else Inl (InvalidAllocatedRemotePort host allocated_port))"

lemma parse_port_bound: "parse_port spec v = Inr n \<Longrightarrow> n \<le> 65535"
  by (auto simp: parse_port_def split: option.splits dest: parse_u16_bound)

lemma local_spec_sound:
  assumes "parse_local_spec spec = Inr s"
  shows "lo_local_port s \<le> 65535 \<and> 0 < lo_remote_port s \<and> lo_remote_port s \<le> 65535 \<and> lo_remote_host s \<noteq> []
    \<and> (\<exists>ip. parse_ipv4 (lo_bind_addr s) = Some ip \<and> is_loopback ip)"
  using assms
  by (auto simp: parse_local_spec_def Let_def split: sum.splits prod.splits if_splits option.splits dest: parse_port_bound)

lemma remote_spec_sound:
  assumes "parse_remote_spec spec = Inr s"
  shows "re_remote_port s \<le> 65535 \<and> 0 < re_local_port s \<and> re_local_port s \<le> 65535 \<and> re_local_host s \<noteq> []"
  using assms
  by (auto simp: parse_remote_spec_def Let_def split: sum.splits prod.splits if_splits option.splits dest: parse_port_bound)

subsection \<open>Registry and lifecycles\<close>

datatype route_state = Pending | Active | Closed
datatype direction = LocalDir | RemoteDir
datatype stop_reason = Requested | LeaseExpired | ConnectionLost

text \<open>The one-shot stop channel of a forward: its sender is dropped with the registry entry.\<close>

datatype stop_channel = StopOpen | StopSent stop_reason | StopDropped

definition activate_route :: "route_state \<Rightarrow> route_state \<times> bool" where
  "activate_route s = (if s = Pending then (Active, True) else (s, False))"

definition close_route :: "route_state \<Rightarrow> route_state \<times> bool" where
  "close_route s = (if s = Closed then (s, False) else (Closed, True))"

record forward_entry =
  fe_host :: string
  fe_direction :: direction
  fe_spec :: string
  fe_created_at :: instant
  fe_tunnel_count :: nat
  fe_grant :: lease_grant
  fe_route_lifecycle :: "nat option"
  fe_stop_tx :: nat

record forward_route =
  fr_local_host :: string
  fr_local_port :: nat
  fr_grant :: lease_grant
  fr_tunnel_count :: nat
  fr_lifecycle :: nat

text \<open>
  The daemon as far as forwards go: the leases, the registry, and the objects the tasks share.
  Forward number \<open>n\<close> owns lifecycle, tunnel counter, closed flag and stop channel \<open>n\<close>.
\<close>

record forward_world =
  fw_lease :: lease_world
  fw_registry :: "(string, forward_entry) hmap"
  fw_routes :: "nat \<Rightarrow> route_state"
  fw_tunnels :: "nat \<Rightarrow> nat"
  fw_closed :: "nat \<Rightarrow> bool"
  fw_stops :: "nat \<Rightarrow> stop_channel option"
  fw_next :: nat

definition alloc_forward :: "forward_world \<Rightarrow> nat \<times> forward_world" where
  "alloc_forward w =
     (let n = fw_next w in
      (n, w\<lparr>fw_routes := (fw_routes w)(n := Pending), fw_tunnels := (fw_tunnels w)(n := 0),
            fw_closed := (fw_closed w)(n := False), fw_stops := (fw_stops w)(n := None),
            fw_next := Suc n\<rparr>))"

definition close_lifecycle :: "nat \<Rightarrow> forward_world \<Rightarrow> forward_world" where
  "close_lifecycle k w = w\<lparr>fw_routes := (fw_routes w)(k := fst (close_route (fw_routes w k)))\<rparr>"

definition close_entry :: "forward_entry \<Rightarrow> forward_world \<Rightarrow> forward_world" where
  "close_entry e w = (case fe_route_lifecycle e of Some k \<Rightarrow> close_lifecycle k w | None \<Rightarrow> w)"

definition drop_sender :: "nat \<Rightarrow> forward_world \<Rightarrow> forward_world" where
  "drop_sender n w =
     (if fw_stops w n = Some StopOpen then w\<lparr>fw_stops := (fw_stops w)(n := Some StopDropped)\<rparr> else w)"

definition send_stop :: "forward_entry \<Rightarrow> stop_reason \<Rightarrow> forward_world \<Rightarrow> forward_world" where
  "send_stop e reason w = w\<lparr>fw_stops := (fw_stops w)(fe_stop_tx e := Some (StopSent reason))\<rparr>"

definition take_entry :: "string \<Rightarrow> forward_world \<Rightarrow> forward_entry option \<times> forward_world" where
  "take_entry i w = (hm_get (fw_registry w) i, w\<lparr>fw_registry := hm_remove i (fw_registry w)\<rparr>)"

definition discard_entry :: "string \<Rightarrow> forward_world \<Rightarrow> forward_world" where
  "discard_entry i w =
     (case take_entry i w of (None, w) \<Rightarrow> w | (Some e, w) \<Rightarrow> drop_sender (fe_stop_tx e) w)"

definition insert_entry :: "string \<Rightarrow> forward_entry \<Rightarrow> forward_world \<Rightarrow> forward_world" where
  "insert_entry i e w =
     (let w = discard_entry i w in
      w\<lparr>fw_registry := hm_insert i e (fw_registry w),
        fw_stops := (fw_stops w)(fe_stop_tx e := Some StopOpen)\<rparr>)"

definition stop_message :: "stop_channel option \<Rightarrow> stop_reason option" where
  "stop_message c =
     (case c of Some (StopSent r) \<Rightarrow> Some r | Some StopDropped \<Rightarrow> Some ConnectionLost | _ \<Rightarrow> None)"

text \<open>A grant check against the leases: \<open>check_grant\<close> touches, \<open>peek_grant\<close> does not.\<close>

definition check_grant :: "lease_env \<Rightarrow> (lease_world \<Rightarrow> lease_world) \<Rightarrow> lease_env \<Rightarrow> lease_grant \<Rightarrow> bool
    \<Rightarrow> forward_world \<Rightarrow> bool \<times> forward_world" where
  "check_grant E others E' grant touch w =
     (let (ok, l) = grant_is_active E others E' grant touch (fw_lease w) in (ok, w\<lparr>fw_lease := l\<rparr>))"

record forward_summary =
  fs_id :: string
  fs_host :: string
  fs_direction :: string
  fs_spec :: string
  fs_tunnel_count :: nat
  fs_age_secs :: nat

definition direction_str :: "direction \<Rightarrow> string" where
  "direction_str d = (case d of LocalDir \<Rightarrow> ''L'' | RemoteDir \<Rightarrow> ''R'')"

definition list_forwards :: "instant \<Rightarrow> forward_world \<Rightarrow> forward_summary list" where
  "list_forwards now w =
     sort_key fs_id (map (\<lambda>(i, e). \<lparr>fs_id = i, fs_host = fe_host e,
         fs_direction = direction_str (fe_direction e), fs_spec = fe_spec e,
         fs_tunnel_count = fw_tunnels w (fe_tunnel_count e),
         fs_age_secs = as_secs (duration_since now (fe_created_at e))\<rparr>)
       (fw_registry w))"

definition reset_forwards :: "forward_world \<Rightarrow> forward_world" where
  "reset_forwards w =
     (fold (\<lambda>e. drop_sender (fe_stop_tx e)) (map snd (fw_registry w))
        (fold close_entry (map snd (fw_registry w)) w))\<lparr>fw_registry := []\<rparr>"

subsection \<open>Tasks and what they do\<close>

record opened =
  op_id :: string
  op_host :: string
  op_direction :: string
  op_spec :: string
  op_listen_addr :: string

text \<open>What a forward's creator knows once the grant is resolved.\<close>

record forward_job =
  fj_host :: string
  fj_spec :: string
  fj_bind_addr :: string
  fj_port :: nat
  fj_target_host :: string
  fj_target_port :: nat
  fj_grant :: lease_grant
  fj_number :: nat

datatype forward_event =
    Answered "forward_error + opened"
  | Handed forward_route
  | Passed lease_env lease_world lease_grant
  | SawActive nat
  | RouteActive nat
  | RouteClosed nat
  | Accepted forward_route
  | Refused
  | TunnelFor nat
  | Cancelled string nat
  | Stopped string stop_reason

datatype forward_task =
    Done
  | LocalResolving string string local_spec nat
  | LocalConnecting string string local_spec nat lease_grant
  | LocalRegistering forward_job
  | LocalOwner string forward_job
  | LocalChecking string forward_job
  | LocalRemoving string forward_job stop_reason
  | LocalStopping string forward_job stop_reason
  | RemoteResolving string string remote_spec
  | RemoteConnecting forward_job
  | RemoteChecking forward_job
  | RemoteRequesting forward_job
  | RemoteRechecking forward_job nat
  | RemoteRegistering forward_job nat
  | RemoteActivating string forward_job nat
  | RemoteUnregistering string forward_job nat
  | RemoteOwner string forward_job nat
  | RemoteRemoving string forward_job nat
  | RemoteStopping string forward_job nat stop_reason
  | ChannelChecking forward_route
  | ChannelChecked forward_route
  | ChannelConnecting forward_route
  | ChannelConnected forward_route
  | ChannelRechecking forward_route
  | ChannelRechecked forward_route
  | ChannelAccepting forward_route
  | TunnelOpening nat
  | TunnelStarting nat
  | TunnelPumping nat
  | StopRemoving string
  | StopSending forward_entry
  | Sweeping "(string \<times> lease_grant \<times> nat option) list"
  | SweepRemoving string "(string \<times> lease_grant \<times> nat option) list"
  | SweepSending forward_entry "(string \<times> lease_grant \<times> nat option) list"

text \<open>
  A task's run up to its next await, or up to a point where another thread can come in
  between two accesses to shared state: the events, its next stage, the tasks it spawns and
  the world. \<open>Passed\<close> events are ghosts: they keep the lease state a check was made in.
\<close>

type_synonym task_run = "forward_event list \<times> forward_task \<times> forward_task list \<times> forward_world"

definition opened_of :: "string \<Rightarrow> forward_job \<Rightarrow> direction \<Rightarrow> nat \<Rightarrow> opened" where
  "opened_of i j d port = \<lparr>op_id = i, op_host = fj_host j, op_direction = direction_str d, op_spec = fj_spec j,
     op_listen_addr = fj_bind_addr j @ '':'' @ show_nat port\<rparr>"

definition entry_of :: "forward_job \<Rightarrow> direction \<Rightarrow> instant \<Rightarrow> forward_entry" where
  "entry_of j d now = \<lparr>fe_host = fj_host j, fe_direction = d, fe_spec = fj_spec j, fe_created_at = now,
     fe_tunnel_count = fj_number j, fe_grant = fj_grant j,
     fe_route_lifecycle = (case d of LocalDir \<Rightarrow> None | RemoteDir \<Rightarrow> Some (fj_number j)),
     fe_stop_tx = fj_number j\<rparr>"

definition fail_with :: "forward_error \<Rightarrow> forward_world \<Rightarrow> task_run" where
  "fail_with e w = ([Answered (Inl e)], Done, [], w)"

definition passed_if :: "bool \<Rightarrow> lease_env \<Rightarrow> forward_world \<Rightarrow> lease_grant \<Rightarrow> forward_event list" where
  "passed_if ok E w g = (if ok then [Passed E (fw_lease w) g] else [])"

subsubsection \<open>Creating a local forward\<close>

definition local_bound :: "string \<Rightarrow> string \<Rightarrow> nat option \<Rightarrow> forward_world \<Rightarrow> task_run" where
  "local_bound host spec_text bound w =
     (case parse_local_spec spec_text of
        Inl e \<Rightarrow> fail_with e w
      | Inr spec \<Rightarrow>
          (case bound of
             None \<Rightarrow> fail_with (Bind (lo_bind_addr spec) (lo_local_port spec)) w
           | Some port \<Rightarrow> ([], LocalResolving host spec_text spec port, [], w)))"

definition local_resolved :: "lease_env \<Rightarrow> (lease_world \<Rightarrow> lease_world) \<Rightarrow> lease_env \<Rightarrow> ancestor_info list
    \<Rightarrow> string option \<Rightarrow> string \<Rightarrow> string \<Rightarrow> local_spec \<Rightarrow> nat \<Rightarrow> forward_world \<Rightarrow> task_run" where
  "local_resolved E others E' chain token host spec_text spec port w =
     (case resolve_grant_for_chain E others E' chain host token True (fw_lease w) of
        (None, l) \<Rightarrow> fail_with (LeaseEnded host) (w\<lparr>fw_lease := l\<rparr>)
      | (Some g, l) \<Rightarrow> ([], LocalConnecting host spec_text spec port g, [], w\<lparr>fw_lease := l\<rparr>))"

definition local_connected :: "bool \<Rightarrow> string \<Rightarrow> string \<Rightarrow> local_spec \<Rightarrow> nat \<Rightarrow> lease_grant
    \<Rightarrow> forward_world \<Rightarrow> task_run" where
  "local_connected ok host spec_text spec port g w =
     (if \<not> ok then fail_with ForwardSsh w
      else case alloc_forward w of (n, w) \<Rightarrow>
        ([], LocalRegistering \<lparr>fj_host = host, fj_spec = spec_text, fj_bind_addr = lo_bind_addr spec,
               fj_port = port, fj_target_host = lo_remote_host spec, fj_target_port = lo_remote_port spec,
               fj_grant = g, fj_number = n\<rparr>, [], w))"

definition local_registered :: "nat list \<Rightarrow> instant \<Rightarrow> forward_job \<Rightarrow> forward_world \<Rightarrow> task_run" where
  "local_registered raw now j w =
     (let i = forward_id_of raw in
      ([Answered (Inr (opened_of i j LocalDir (fj_port j)))], LocalOwner i j, [],
       insert_entry i (entry_of j LocalDir now) w))"

subsubsection \<open>The owner of a local forward\<close>

text \<open>
  One turn of the biased select: the stop message, else the health tick if it is due (and
  whether the connection is closed), else a connection (whether \<open>accept\<close> succeeded).
\<close>

definition local_select :: "bool option \<Rightarrow> bool option \<Rightarrow> string \<Rightarrow> forward_job \<Rightarrow> forward_world \<Rightarrow> task_run" where
  "local_select health accepted i j w =
     (case stop_message (fw_stops w (fj_number j)) of
        Some r \<Rightarrow> ([], LocalStopping i j r, [], w)
      | None \<Rightarrow>
     (case health of
        Some True \<Rightarrow> ([], LocalRemoving i j ConnectionLost, [], w)
      | Some False \<Rightarrow> ([], LocalOwner i j, [], w)
      | None \<Rightarrow>
          (if accepted = Some True then ([], LocalChecking i j, [], w) else ([], LocalOwner i j, [], w))))"

definition local_checked :: "lease_env \<Rightarrow> (lease_world \<Rightarrow> lease_world) \<Rightarrow> lease_env \<Rightarrow> string \<Rightarrow> forward_job
    \<Rightarrow> forward_world \<Rightarrow> task_run" where
  "local_checked E others E' i j w =
     (case check_grant E others E' (fj_grant j) True w of
        (True, w') \<Rightarrow> (passed_if True E w (fj_grant j) @ [TunnelFor (fj_number j)],
                      LocalOwner i j, [TunnelOpening (fj_number j)], w')
      | (False, w') \<Rightarrow> ([], LocalRemoving i j LeaseExpired, [], w'))"

definition local_removed :: "string \<Rightarrow> forward_job \<Rightarrow> stop_reason \<Rightarrow> forward_world \<Rightarrow> task_run" where
  "local_removed i j r w = ([], LocalStopping i j r, [], discard_entry i w)"

definition local_stopped :: "string \<Rightarrow> forward_job \<Rightarrow> stop_reason \<Rightarrow> forward_world \<Rightarrow> task_run" where
  "local_stopped i j r w = ([Stopped i r], Done, [], w\<lparr>fw_closed := (fw_closed w)(fj_number j := True)\<rparr>)"

definition tunnel_opened :: "bool \<Rightarrow> nat \<Rightarrow> forward_world \<Rightarrow> task_run" where
  "tunnel_opened ok n w =
     (if ok then ([], TunnelPumping n, [], w\<lparr>fw_tunnels := (fw_tunnels w)(n := fw_tunnels w n + 1)\<rparr>)
      else ([], Done, [], w))"

definition tunnel_over :: "nat \<Rightarrow> forward_world \<Rightarrow> task_run" where
  "tunnel_over n w = ([], Done, [], w\<lparr>fw_tunnels := (fw_tunnels w)(n := fw_tunnels w n - 1)\<rparr>)"

subsubsection \<open>Creating a remote forward\<close>

definition route_of :: "forward_job \<Rightarrow> forward_route" where
  "route_of j = \<lparr>fr_local_host = fj_target_host j, fr_local_port = fj_target_port j, fr_grant = fj_grant j,
     fr_tunnel_count = fj_number j, fr_lifecycle = fj_number j\<rparr>"

definition remote_parsed :: "string \<Rightarrow> string \<Rightarrow> forward_world \<Rightarrow> task_run" where
  "remote_parsed host spec_text w =
     (case parse_remote_spec spec_text of
        Inl e \<Rightarrow> fail_with e w
      | Inr spec \<Rightarrow> ([], RemoteResolving host spec_text spec, [], w))"

definition remote_resolved :: "lease_env \<Rightarrow> (lease_world \<Rightarrow> lease_world) \<Rightarrow> lease_env \<Rightarrow> ancestor_info list
    \<Rightarrow> string option \<Rightarrow> string \<Rightarrow> string \<Rightarrow> remote_spec \<Rightarrow> forward_world \<Rightarrow> task_run" where
  "remote_resolved E others E' chain token host spec_text spec w =
     (case resolve_grant_for_chain E others E' chain host token True (fw_lease w) of
        (None, l) \<Rightarrow> fail_with (LeaseEnded host) (w\<lparr>fw_lease := l\<rparr>)
      | (Some g, l) \<Rightarrow>
          (case alloc_forward (w\<lparr>fw_lease := l\<rparr>) of (n, w) \<Rightarrow>
             let j = \<lparr>fj_host = host, fj_spec = spec_text, fj_bind_addr = re_bind_addr spec,
                      fj_port = re_remote_port spec, fj_target_host = re_local_host spec,
                      fj_target_port = re_local_port spec, fj_grant = g, fj_number = n\<rparr>
             in ([Handed (route_of j)], RemoteConnecting j, [], w)))"

definition remote_connected :: "bool \<Rightarrow> forward_job \<Rightarrow> forward_world \<Rightarrow> task_run" where
  "remote_connected ok j w = (if ok then ([], RemoteChecking j, [], w) else fail_with ForwardSsh w)"

text \<open>Giving up: the route is closed first.\<close>

definition close_and_fail :: "forward_error \<Rightarrow> forward_job \<Rightarrow> forward_event list \<Rightarrow> forward_world \<Rightarrow> task_run" where
  "close_and_fail e j cancel w =
     (RouteClosed (fj_number j) # cancel @ [Answered (Inl e)], Done, [], close_lifecycle (fj_number j) w)"

definition remote_checked :: "lease_env \<Rightarrow> (lease_world \<Rightarrow> lease_world) \<Rightarrow> lease_env \<Rightarrow> forward_job
    \<Rightarrow> forward_world \<Rightarrow> task_run" where
  "remote_checked E others E' j w =
     (case check_grant E others E' (fj_grant j) True w of
        (True, w') \<Rightarrow> (passed_if True E w (fj_grant j), RemoteRequesting j, [], w')
      | (False, w') \<Rightarrow> close_and_fail (LeaseEnded (fj_host j)) j [] w')"

definition remote_requested :: "nat option \<Rightarrow> forward_job \<Rightarrow> forward_world \<Rightarrow> task_run" where
  "remote_requested answer j w =
     (case answer of
        None \<Rightarrow> close_and_fail (RemoteForwardRefused (fj_host j) (fj_port j)) j [] w
      | Some bound_port \<Rightarrow>
          (case effective_remote_port (fj_host j) (fj_port j) bound_port of
             Inl e \<Rightarrow> close_and_fail e j [] w
           | Inr actual_port \<Rightarrow> ([], RemoteRechecking j actual_port, [], w)))"

definition remote_rechecked :: "lease_env \<Rightarrow> (lease_world \<Rightarrow> lease_world) \<Rightarrow> lease_env \<Rightarrow> forward_job \<Rightarrow> nat
    \<Rightarrow> forward_world \<Rightarrow> task_run" where
  "remote_rechecked E others E' j port w =
     (case check_grant E others E' (fj_grant j) True w of
        (True, w') \<Rightarrow> (passed_if True E w (fj_grant j), RemoteRegistering j port, [], w')
      | (False, w') \<Rightarrow>
          close_and_fail (LeaseEnded (fj_host j)) j [Cancelled (fj_bind_addr j) port] w')"

definition remote_registered :: "nat list \<Rightarrow> instant \<Rightarrow> forward_job \<Rightarrow> nat \<Rightarrow> forward_world \<Rightarrow> task_run" where
  "remote_registered raw now j port w =
     (let i = forward_id_of raw in
      ([], RemoteActivating i j port, [], insert_entry i (entry_of j RemoteDir now) w))"

definition remote_activated :: "string \<Rightarrow> forward_job \<Rightarrow> nat \<Rightarrow> forward_world \<Rightarrow> task_run" where
  "remote_activated i j port w =
     (case activate_route (fw_routes w (fj_number j)) of
        (s, True) \<Rightarrow>
          ([RouteActive (fj_number j), Answered (Inr (opened_of i j RemoteDir port))], RemoteOwner i j port, [],
           w\<lparr>fw_routes := (fw_routes w)(fj_number j := s)\<rparr>)
      | (s, False) \<Rightarrow> ([], RemoteUnregistering i j port, [], w))"

definition remote_unregistered :: "string \<Rightarrow> forward_job \<Rightarrow> nat \<Rightarrow> forward_world \<Rightarrow> task_run" where
  "remote_unregistered i j port w =
     ([Cancelled (fj_bind_addr j) port, Answered (Inl (LeaseEnded (fj_host j)))], Done, [], discard_entry i w)"

subsubsection \<open>The owner of a remote forward\<close>

definition remote_select :: "bool option \<Rightarrow> string \<Rightarrow> forward_job \<Rightarrow> nat \<Rightarrow> forward_world \<Rightarrow> task_run" where
  "remote_select health i j port w =
     (case stop_message (fw_stops w (fj_number j)) of
        Some r \<Rightarrow> ([], RemoteStopping i j port r, [], w)
      | None \<Rightarrow>
          (if health = Some True
           then ([RouteClosed (fj_number j)], RemoteRemoving i j port, [], close_lifecycle (fj_number j) w)
           else ([], RemoteOwner i j port, [], w)))"

definition remote_removed :: "string \<Rightarrow> forward_job \<Rightarrow> nat \<Rightarrow> forward_world \<Rightarrow> task_run" where
  "remote_removed i j port w = ([], RemoteStopping i j port ConnectionLost, [], discard_entry i w)"

definition remote_stopped :: "string \<Rightarrow> forward_job \<Rightarrow> nat \<Rightarrow> stop_reason \<Rightarrow> forward_world \<Rightarrow> task_run" where
  "remote_stopped i j port r w =
     ([RouteClosed (fj_number j), Cancelled (fj_bind_addr j) port, Stopped i r], Done, [],
      close_lifecycle (fj_number j) w)"

subsubsection \<open>Forwarded channels\<close>

definition is_active :: "forward_route \<Rightarrow> forward_world \<Rightarrow> bool" where
  "is_active r w \<longleftrightarrow> fw_routes w (fr_lifecycle r) = Active"

definition channel_opened :: "forward_route option \<Rightarrow> forward_world \<Rightarrow> task_run" where
  "channel_opened route w =
     (case route of
        None \<Rightarrow> ([Refused], Done, [], w)
      | Some r \<Rightarrow> if \<not> is_active r w then ([Refused], Done, [], w) else ([], ChannelChecking r, [], w))"

definition channel_checked :: "lease_env \<Rightarrow> (lease_world \<Rightarrow> lease_world) \<Rightarrow> lease_env \<Rightarrow> forward_route
    \<Rightarrow> forward_world \<Rightarrow> task_run" where
  "channel_checked E others E' r w =
     (case check_grant E others E' (fr_grant r) True w of
        (True, w') \<Rightarrow> (passed_if True E w (fr_grant r), ChannelChecked r, [], w')
      | (False, w') \<Rightarrow> ([Refused], Done, [], w'))"

definition saw_active :: "forward_route \<Rightarrow> forward_task \<Rightarrow> forward_world \<Rightarrow> task_run" where
  "saw_active r k w = (if is_active r w then ([SawActive (fr_lifecycle r)], k, [], w) else ([Refused], Done, [], w))"

datatype target_error = TargetClosed | TargetTimedOut | TargetIo

definition race_forward_target_connect :: "route_state \<Rightarrow> target_error option \<Rightarrow> target_error option" where
  "race_forward_target_connect s connect = (if s = Closed then Some TargetClosed else connect)"

definition channel_connected :: "target_error option \<Rightarrow> forward_route \<Rightarrow> forward_world \<Rightarrow> task_run" where
  "channel_connected connect r w =
     (case race_forward_target_connect (fw_routes w (fr_lifecycle r)) connect of
        None \<Rightarrow> ([], ChannelConnected r, [], w)
      | Some _ \<Rightarrow> ([Refused], Done, [], w))"

definition channel_rechecked :: "lease_env \<Rightarrow> (lease_world \<Rightarrow> lease_world) \<Rightarrow> lease_env \<Rightarrow> forward_route
    \<Rightarrow> forward_world \<Rightarrow> task_run" where
  "channel_rechecked E others E' r w =
     (case check_grant E others E' (fr_grant r) True w of
        (True, w') \<Rightarrow> (passed_if True E w (fr_grant r), ChannelRechecked r, [], w')
      | (False, w') \<Rightarrow> ([Refused], Done, [], w'))"

text \<open>One poll of the race between the closing of the route and the accepted channel.\<close>

definition channel_accepted :: "forward_route \<Rightarrow> forward_world \<Rightarrow> task_run" where
  "channel_accepted r w =
     (if fw_routes w (fr_lifecycle r) = Closed then ([Refused], Done, [], w)
      else ([Accepted r], Done, [TunnelStarting (fr_tunnel_count r)], w))"

subsubsection \<open>Stop and the lease sweep\<close>

definition stop_removed :: "string \<Rightarrow> forward_world \<Rightarrow> task_run" where
  "stop_removed i w =
     (case take_entry i w of
        (None, w) \<Rightarrow> fail_with (ForwardNotFound i) w
      | (Some e, w) \<Rightarrow> ([], StopSending e, [], w))"

definition closed_events :: "forward_entry \<Rightarrow> forward_event list" where
  "closed_events e = (case fe_route_lifecycle e of Some k \<Rightarrow> [RouteClosed k] | None \<Rightarrow> [])"

definition stop_sent :: "forward_entry \<Rightarrow> forward_world \<Rightarrow> task_run" where
  "stop_sent e w = (closed_events e, Done, [], send_stop e Requested (close_entry e w))"

definition stop_forward :: "string \<Rightarrow> forward_world \<Rightarrow> forward_error option \<times> forward_world" where
  "stop_forward i w =
     (case take_entry i w of
        (None, w) \<Rightarrow> (Some (ForwardNotFound i), w)
      | (Some e, w) \<Rightarrow> (None, send_stop e Requested (close_entry e w)))"

definition reap_candidates :: "forward_world \<Rightarrow> (string \<times> lease_grant \<times> nat option) list" where
  "reap_candidates w = map (\<lambda>(i, e). (i, fe_grant e, fe_route_lifecycle e)) (fw_registry w)"

definition sweep_checked :: "lease_env \<Rightarrow> (lease_world \<Rightarrow> lease_world) \<Rightarrow> lease_env
    \<Rightarrow> string \<times> lease_grant \<times> nat option \<Rightarrow> (string \<times> lease_grant \<times> nat option) list
    \<Rightarrow> forward_world \<Rightarrow> task_run" where
  "sweep_checked E others E' c cs w =
     (case c of (i, grant, lifecycle) \<Rightarrow>
        (case check_grant E others E' grant False w of
           (True, w) \<Rightarrow> ([], Sweeping cs, [], w)
         | (False, w) \<Rightarrow>
             (case lifecycle of
                None \<Rightarrow> ([], SweepRemoving i cs, [], w)
              | Some k \<Rightarrow> ([RouteClosed k], SweepRemoving i cs, [], close_lifecycle k w))))"

definition sweep_removed :: "string \<Rightarrow> (string \<times> lease_grant \<times> nat option) list \<Rightarrow> forward_world \<Rightarrow> task_run" where
  "sweep_removed i cs w =
     (case take_entry i w of
        (None, w) \<Rightarrow> ([], Sweeping cs, [], w)
      | (Some e, w) \<Rightarrow> ([], SweepSending e cs, [], w))"

definition sweep_sent :: "forward_entry \<Rightarrow> (string \<times> lease_grant \<times> nat option) list \<Rightarrow> forward_world \<Rightarrow> task_run" where
  "sweep_sent e cs w = ([], Sweeping cs, [], send_stop e LeaseExpired w)"

text \<open>A sweep nobody interrupts, candidate by candidate.\<close>

definition reap_one :: "lease_env \<Rightarrow> (lease_world \<Rightarrow> lease_world) \<Rightarrow> lease_env
    \<Rightarrow> string \<times> lease_grant \<times> nat option \<Rightarrow> forward_world \<Rightarrow> forward_world" where
  "reap_one E others E' c w =
     (case sweep_checked E others E' c [] w of
        (_, SweepRemoving i _, _, w) \<Rightarrow>
          (case sweep_removed i [] w of
             (_, SweepSending e _, _, w) \<Rightarrow> send_stop e LeaseExpired w
           | (_, _, _, w) \<Rightarrow> w)
      | (_, _, _, w) \<Rightarrow> w)"

fun reap_all :: "(nat \<Rightarrow> lease_env \<times> (lease_world \<Rightarrow> lease_world) \<times> lease_env) \<Rightarrow> nat
    \<Rightarrow> (string \<times> lease_grant \<times> nat option) list \<Rightarrow> forward_world \<Rightarrow> forward_world" where
  "reap_all envs n [] w = w"
| "reap_all envs n (c # cs) w =
     (case envs n of (E, others, E') \<Rightarrow> reap_all envs (Suc n) cs (reap_one E others E' c w))"

definition reap_expired_leases :: "(nat \<Rightarrow> lease_env \<times> (lease_world \<Rightarrow> lease_world) \<times> lease_env)
    \<Rightarrow> forward_world \<Rightarrow> forward_world" where
  "reap_expired_leases envs w = reap_all envs 0 (reap_candidates w) w"

end
