(* ===== verification/Forward_Steps.thy ===== *)
theory Forward_Steps
  imports Forward
begin

text \<open>
  The forwards' tasks running together (\<open>src/src/daemon/forward.rs\<close>,
  \<open>src/src/daemon/ssh.rs\<close>): an interleaving of their stages over the shared state, in which
  leases may also be granted, used, revoked and expire at any moment. On it: forwarded channels
  rest on fresh grant checks, no forward escapes \<open>stop\<close> and the lease sweep, the tunnel
  counters are exact, and a sweep ends exactly the forwards whose grants are dead.
\<close>

subsection \<open>The interleaving\<close>

inductive task_step :: "forward_task \<Rightarrow> forward_world \<Rightarrow> task_run \<Rightarrow> bool" where
  local_resolved: "task_step (LocalResolving host spec s port) w (local_resolved E others E' chain token host spec s port w)"
| local_connected: "task_step (LocalConnecting host spec s port g) w (local_connected ok host spec s port g w)"
| local_registered: "task_step (LocalRegistering j) w (local_registered raw now j w)"
| local_select: "task_step (LocalOwner i j) w (local_select health accepted i j w)"
| local_checked: "task_step (LocalChecking i j) w (local_checked E others E' i j w)"
| local_removed: "task_step (LocalRemoving i j r) w (local_removed i j r w)"
| local_stopped: "task_step (LocalStopping i j r) w (local_stopped i j r w)"
| remote_resolved: "task_step (RemoteResolving host spec s) w (remote_resolved E others E' chain token host spec s w)"
| remote_connected: "task_step (RemoteConnecting j) w (remote_connected ok j w)"
| remote_checked: "task_step (RemoteChecking j) w (remote_checked E others E' j w)"
| remote_requested: "task_step (RemoteRequesting j) w (remote_requested answer j w)"
| remote_rechecked: "task_step (RemoteRechecking j port) w (remote_rechecked E others E' j port w)"
| remote_registered: "task_step (RemoteRegistering j port) w (remote_registered raw now j port w)"
| remote_activated: "task_step (RemoteActivating i j port) w (remote_activated i j port w)"
| remote_unregistered: "task_step (RemoteUnregistering i j port) w (remote_unregistered i j port w)"
| remote_select: "task_step (RemoteOwner i j port) w (remote_select health i j port w)"
| remote_removed: "task_step (RemoteRemoving i j port) w (remote_removed i j port w)"
| remote_stopped: "task_step (RemoteStopping i j port r) w (remote_stopped i j port r w)"
| channel_checked: "task_step (ChannelChecking r) w (channel_checked E others E' r w)"
| channel_seen: "task_step (ChannelChecked r) w (saw_active r (ChannelConnecting r) w)"
| channel_connected: "task_step (ChannelConnecting r) w (channel_connected connect r w)"
| channel_still: "task_step (ChannelConnected r) w (saw_active r (ChannelRechecking r) w)"
| channel_rechecked: "task_step (ChannelRechecking r) w (channel_rechecked E others E' r w)"
| channel_seen_again: "task_step (ChannelRechecked r) w (saw_active r (ChannelAccepting r) w)"
| channel_accepted: "task_step (ChannelAccepting r) w (channel_accepted r w)"
| tunnel_opened: "task_step (TunnelOpening n) w (tunnel_opened ok n w)"
| tunnel_started: "task_step (TunnelStarting n) w (tunnel_opened True n w)"
| tunnel_over: "task_step (TunnelPumping n) w (tunnel_over n w)"
| stop_removed: "task_step (StopRemoving i) w (stop_removed i w)"
| stop_sent: "task_step (StopSending e) w (stop_sent e w)"
| sweep_over: "task_step (Sweeping []) w ([], Done, [], w)"
| sweep_checked: "task_step (Sweeping (c # cs)) w (sweep_checked E others E' c cs w)"
| sweep_removed: "task_step (SweepRemoving i cs) w (sweep_removed i cs w)"
| sweep_sent: "task_step (SweepSending e cs) w (sweep_sent e cs w)"

text \<open>How tasks come into being: requests, arriving channels, and the sweep's timer.\<close>

inductive task_start :: "(nat \<times> forward_event) list \<Rightarrow> forward_world \<Rightarrow> task_run \<Rightarrow> bool" where
  local_request: "task_start L w (local_bound host spec bound w)"
| remote_request: "task_start L w (remote_parsed host spec w)"
| channel: "(\<And>r. route = Some r \<Longrightarrow> Handed r \<in> snd ` set L) \<Longrightarrow> task_start L w (channel_opened route w)"
| stop: "task_start L w ([], StopRemoving i, [], w)"
| sweep: "task_start L w ([], Sweeping (reap_candidates w), [], w)"

record forward_sys =
  sy_world :: forward_world
  sy_tasks :: "forward_task list"
  sy_log :: "(nat \<times> forward_event) list"  \<comment> \<open>newest first, each event with its task's number\<close>

definition advance :: "nat \<Rightarrow> forward_event list \<Rightarrow> forward_task list \<Rightarrow> forward_world \<Rightarrow> forward_sys \<Rightarrow> forward_sys" where
  "advance i es ts w S = \<lparr>sy_world = w, sy_tasks = ts, sy_log = rev (map (Pair i) es) @ sy_log S\<rparr>"

inductive forward_reachable :: "forward_sys \<Rightarrow> bool" where
  start: "\<lbrakk> fw_registry w = []; fw_next w = 0; \<And>n. fw_routes w n = Pending; \<And>n. fw_tunnels w n = 0;
            \<And>n. fw_stops w n = None \<rbrakk>
     \<Longrightarrow> forward_reachable \<lparr>sy_world = w, sy_tasks = [], sy_log = []\<rparr>"
| leases: "forward_reachable S \<Longrightarrow> forward_reachable (S\<lparr>sy_world := (sy_world S)\<lparr>fw_lease := l\<rparr>\<rparr>)"
| begins: "\<lbrakk> forward_reachable S; task_start (sy_log S) (sy_world S) (es, t, ts, w) \<rbrakk>
     \<Longrightarrow> forward_reachable (advance (length (sy_tasks S)) es (sy_tasks S @ t # ts) w S)"
| runs: "\<lbrakk> forward_reachable S; i < length (sy_tasks S); task_step (sy_tasks S ! i) (sy_world S) (es, t, ts, w) \<rbrakk>
     \<Longrightarrow> forward_reachable (advance i es ((sy_tasks S)[i := t] @ ts) w S)"

subsection \<open>What a grant check shows\<close>

definition grant_covered :: "lease_env \<Rightarrow> lease_world \<Rightarrow> lease_grant \<Rightarrow> bool" where
  "grant_covered E lw g \<longleftrightarrow>
     (if lg_authorization g = DangerousBypass then le_bypass E
      else \<exists>l\<in>set (lw_active lw). al_token l = lg_token g \<and> lg_host g \<in> al_hosts l \<and> lease_live (le_idle E) (le_now E) l)"

lemma grant_active_covered:
  assumes "grant_is_active E others E' g touch lw = (True, lw')"
  shows "grant_covered E lw g"
proof (cases "lg_authorization g = DangerousBypass")
  case True
  then show ?thesis using assms by (simp add: grant_is_active_def grant_covered_def)
next
  case False
  let ?w = "prune_expired E lw"
  obtain k where k: "find_index (\<lambda>l. al_token l = lg_token g \<and> lg_host g \<in> al_hosts l) (lw_active ?w) = Some k"
    using assms False by (auto simp: grant_is_active_def Let_def simp del: prune_active split: option.splits)
  have "k < length (lw_active ?w)" and l: "al_token (lw_active ?w ! k) = lg_token g" "lg_host g \<in> al_hosts (lw_active ?w ! k)"
    using find_index_SomeD[OF k] by auto
  have "lw_active ?w ! k \<in> set (lw_active ?w)" by (rule nth_mem) fact
  then have "lw_active ?w ! k \<in> {l \<in> set (lw_active lw). lease_live (le_idle E) (le_now E) l}"
    by (simp only: prune_active set_filter)
  then show ?thesis using False l unfolding grant_covered_def by (auto simp del: prune_active)
qed

lemma check_covered: "check_grant E others E' g touch w = (True, w') \<Longrightarrow> grant_covered E (fw_lease w) g"
  by (auto simp: check_grant_def Let_def split: prod.splits intro: grant_active_covered)

lemma check_grant_frame:
  assumes "check_grant E others E' g touch w = (ok, w')"
  shows "\<exists>l. w' = w\<lparr>fw_lease := l\<rparr>"
  using assms by (auto simp: check_grant_def Let_def split: prod.splits)

subsection \<open>What the shared operations change\<close>

named_theorems fw_ops "what each operation on the shared state does to its parts"

lemma discard_parts [fw_ops]:
  "fw_registry (discard_entry i w) = hm_remove i (fw_registry w)"
  "fw_next (discard_entry i w) = fw_next w"
  "fw_routes (discard_entry i w) = fw_routes w"
  "fw_tunnels (discard_entry i w) = fw_tunnels w"
  "fw_stops (discard_entry i w) n =
     (if fw_stops w n = Some StopOpen \<and> (\<exists>e. hm_get (fw_registry w) i = Some e \<and> fe_stop_tx e = n)
      then Some StopDropped else fw_stops w n)"
  by (auto simp: discard_entry_def take_entry_def drop_sender_def hm_remove_absent split: option.splits)

lemma insert_parts [fw_ops]:
  "fw_registry (insert_entry i e w) = hm_insert i e (hm_remove i (fw_registry w))"
  "fw_next (insert_entry i e w) = fw_next w"
  "fw_routes (insert_entry i e w) = fw_routes w"
  "fw_tunnels (insert_entry i e w) = fw_tunnels w"
  "fw_stops (insert_entry i e w) n =
     (if n = fe_stop_tx e then Some StopOpen else fw_stops (discard_entry i w) n)"
  by (simp_all add: insert_entry_def Let_def fw_ops)

lemma close_parts [fw_ops]:
  "fw_registry (close_lifecycle k w) = fw_registry w"
  "fw_next (close_lifecycle k w) = fw_next w"
  "fw_routes (close_lifecycle k w) n = (if n = k then Closed else fw_routes w n)"
  "fw_tunnels (close_lifecycle k w) = fw_tunnels w"
  "fw_stops (close_lifecycle k w) = fw_stops w"
  by (simp_all add: close_lifecycle_def close_route_def)

lemma close_entry_parts [fw_ops]:
  "fw_registry (close_entry e w) = fw_registry w"
  "fw_next (close_entry e w) = fw_next w"
  "fw_routes (close_entry e w) n = (if fe_route_lifecycle e = Some n then Closed else fw_routes w n)"
  "fw_tunnels (close_entry e w) = fw_tunnels w"
  "fw_stops (close_entry e w) = fw_stops w"
  by (auto simp: close_entry_def fw_ops split: option.splits)

lemma send_parts [fw_ops]:
  "fw_registry (send_stop e r w) = fw_registry w"
  "fw_next (send_stop e r w) = fw_next w"
  "fw_routes (send_stop e r w) = fw_routes w"
  "fw_tunnels (send_stop e r w) = fw_tunnels w"
  "fw_stops (send_stop e r w) n = (if n = fe_stop_tx e then Some (StopSent r) else fw_stops w n)"
  by (simp_all add: send_stop_def)

lemma check_parts:
  assumes "check_grant E others E' g touch w = (ok, w')"
  shows "fw_registry w' = fw_registry w" "fw_next w' = fw_next w" "fw_routes w' = fw_routes w"
    "fw_tunnels w' = fw_tunnels w" "fw_stops w' = fw_stops w"
  using check_grant_frame[OF assms] by auto

lemmas local_stage_defs = local_bound_def local_resolved_def local_connected_def local_registered_def
  local_select_def local_checked_def local_removed_def local_stopped_def tunnel_opened_def tunnel_over_def

lemmas remote_stage_defs = remote_parsed_def remote_resolved_def remote_connected_def remote_checked_def
  remote_requested_def remote_rechecked_def remote_registered_def remote_activated_def
  remote_unregistered_def remote_select_def remote_removed_def remote_stopped_def

lemmas channel_stage_defs = channel_opened_def channel_checked_def saw_active_def channel_connected_def
  channel_rechecked_def channel_accepted_def stop_removed_def stop_sent_def sweep_checked_def
  sweep_removed_def sweep_sent_def

lemmas stage_defs = local_stage_defs remote_stage_defs channel_stage_defs
  fail_with_def close_and_fail_def passed_if_def alloc_forward_def take_entry_def

lemmas stage_splits = prod.splits option.splits sum.splits bool.splits if_splits

inductive_cases task_stepE: "task_step t w (es, t', ts, w')"
inductive_cases task_startE: "task_start L w (es, t, ts, w')"

subsection \<open>Every number in use has been allocated\<close>

definition entry_numbers :: "forward_entry \<Rightarrow> nat set" where
  "entry_numbers e = insert (fe_stop_tx e) (insert (fe_tunnel_count e) (set_option (fe_route_lifecycle e)))"

definition registry_numbers :: "forward_world \<Rightarrow> nat set" where
  "registry_numbers w = (\<Union>(i, e)\<in>set (fw_registry w). entry_numbers e)"

definition route_numbers :: "forward_route \<Rightarrow> nat set" where
  "route_numbers r = {fr_tunnel_count r, fr_lifecycle r}"

definition candidate_numbers :: "(string \<times> lease_grant \<times> nat option) list \<Rightarrow> nat set" where
  "candidate_numbers cs = (\<Union>(i, g, k)\<in>set cs. set_option k)"

fun task_numbers :: "forward_task \<Rightarrow> nat set" where
  "task_numbers (LocalRegistering j) = {fj_number j}"
| "task_numbers (LocalOwner i j) = {fj_number j}"
| "task_numbers (LocalChecking i j) = {fj_number j}"
| "task_numbers (LocalRemoving i j r) = {fj_number j}"
| "task_numbers (LocalStopping i j r) = {fj_number j}"
| "task_numbers (RemoteConnecting j) = {fj_number j}"
| "task_numbers (RemoteChecking j) = {fj_number j}"
| "task_numbers (RemoteRequesting j) = {fj_number j}"
| "task_numbers (RemoteRechecking j port) = {fj_number j}"
| "task_numbers (RemoteRegistering j port) = {fj_number j}"
| "task_numbers (RemoteActivating i j port) = {fj_number j}"
| "task_numbers (RemoteUnregistering i j port) = {fj_number j}"
| "task_numbers (RemoteOwner i j port) = {fj_number j}"
| "task_numbers (RemoteRemoving i j port) = {fj_number j}"
| "task_numbers (RemoteStopping i j port r) = {fj_number j}"
| "task_numbers (ChannelChecking r) = route_numbers r"
| "task_numbers (ChannelChecked r) = route_numbers r"
| "task_numbers (ChannelConnecting r) = route_numbers r"
| "task_numbers (ChannelConnected r) = route_numbers r"
| "task_numbers (ChannelRechecking r) = route_numbers r"
| "task_numbers (ChannelRechecked r) = route_numbers r"
| "task_numbers (ChannelAccepting r) = route_numbers r"
| "task_numbers (TunnelOpening n) = {n}"
| "task_numbers (TunnelStarting n) = {n}"
| "task_numbers (TunnelPumping n) = {n}"
| "task_numbers (StopSending e) = entry_numbers e"
| "task_numbers (Sweeping cs) = candidate_numbers cs"
| "task_numbers (SweepRemoving i cs) = candidate_numbers cs"
| "task_numbers (SweepSending e cs) = entry_numbers e \<union> candidate_numbers cs"
| "task_numbers _ = {}"

fun event_numbers :: "forward_event \<Rightarrow> nat set" where
  "event_numbers (Handed r) = route_numbers r"
| "event_numbers (SawActive k) = {k}"
| "event_numbers (RouteActive k) = {k}"
| "event_numbers (RouteClosed k) = {k}"
| "event_numbers (Accepted r) = route_numbers r"
| "event_numbers (TunnelFor k) = {k}"
| "event_numbers _ = {}"

definition run_numbers :: "task_run \<Rightarrow> nat set" where
  "run_numbers run =
     (case run of (es, t, ts, w) \<Rightarrow>
        \<Union>(event_numbers ` set es) \<union> task_numbers t \<union> \<Union>(task_numbers ` set ts) \<union> registry_numbers w)"

lemma registry_numbers_parts [fw_ops]:
  "registry_numbers (discard_entry i w) \<subseteq> registry_numbers w"
  "registry_numbers (insert_entry i e w) \<subseteq> entry_numbers e \<union> registry_numbers w"
  using set_hm_remove set_hm_insert by (fastforce simp: registry_numbers_def fw_ops)+

lemma entry_registered: "hm_get (fw_registry w) i = Some e \<Longrightarrow> entry_numbers e \<subseteq> registry_numbers w"
  by (auto simp: registry_numbers_def dest!: hm_get_SomeD)

lemma registry_numbers_remove: "fw_registry w' = hm_remove i (fw_registry w) \<Longrightarrow> registry_numbers w' \<subseteq> registry_numbers w"
  using set_hm_remove[of i "fw_registry w"] by (fastforce simp: registry_numbers_def)

lemma candidates_registered: "candidate_numbers (reap_candidates w) \<subseteq> registry_numbers w"
  by (force simp: candidate_numbers_def reap_candidates_def registry_numbers_def entry_numbers_def)

lemma candidate_numbers_Cons [simp]:
  "candidate_numbers ((i, g, k) # cs) = set_option k \<union> candidate_numbers cs"
  by (simp add: candidate_numbers_def)

lemma numbers_of_made [simp]:
  "entry_numbers (entry_of j d now) = {fj_number j}"
  "route_numbers (route_of j) = {fj_number j}"
  by (auto simp: entry_numbers_def entry_of_def route_numbers_def route_of_def split: direction.splits)

lemma registry_numbers_upd [simp]:
  "registry_numbers (w\<lparr>fw_lease := l\<rparr>) = registry_numbers w"
  "registry_numbers (w\<lparr>fw_routes := rr\<rparr>) = registry_numbers w"
  "registry_numbers (w\<lparr>fw_tunnels := tt\<rparr>) = registry_numbers w"
  "registry_numbers (w\<lparr>fw_closed := cc\<rparr>) = registry_numbers w"
  "registry_numbers (w\<lparr>fw_stops := ss\<rparr>) = registry_numbers w"
  "registry_numbers (w\<lparr>fw_next := n\<rparr>) = registry_numbers w"
  "registry_numbers (close_lifecycle k w) = registry_numbers w"
  "registry_numbers (close_entry e w) = registry_numbers w"
  "registry_numbers (send_stop e r w) = registry_numbers w"
  by (simp_all add: registry_numbers_def fw_ops)
lemma registry_numbers_rm:
  "registry_numbers (w\<lparr>fw_registry := hm_remove i (fw_registry w)\<rparr>) \<subseteq> registry_numbers w"
  by (rule registry_numbers_remove) simp
lemma in_numbers [simp]:
  "fr_lifecycle r \<in> route_numbers r" "fr_tunnel_count r \<in> route_numbers r" "fe_stop_tx e \<in> entry_numbers e"
  by (simp_all add: route_numbers_def entry_numbers_def)
lemma closed_event_numbers [simp]: "ev \<in> set (closed_events e) \<Longrightarrow> x \<in> event_numbers ev \<Longrightarrow> x \<in> entry_numbers e"
  by (auto simp: closed_events_def entry_numbers_def split: option.splits)
lemmas rn_sub = registry_numbers_rm[THEN subsetD] entry_registered[THEN subsetD] registry_numbers_parts[THEN subsetD]
lemma step_numbers:
  assumes "task_step t w (es, t', ts, w')"
  shows "run_numbers (es, t', ts, w') \<subseteq> task_numbers t \<union> registry_numbers w \<union> {fw_next w ..< fw_next w'}
    \<and> fw_next w \<le> fw_next w'"
  by (insert assms, erule task_stepE)
    (auto simp: stage_defs run_numbers_def fw_ops Let_def split: stage_splits dest!: check_grant_frame dest: rn_sub)

definition log_numbers :: "(nat \<times> forward_event) list \<Rightarrow> nat set" where
  "log_numbers L = \<Union>(event_numbers ` snd ` set L)"

definition sys_numbers :: "forward_sys \<Rightarrow> nat set" where
  "sys_numbers S = log_numbers (sy_log S) \<union> \<Union>(task_numbers ` set (sy_tasks S)) \<union> registry_numbers (sy_world S)"

lemma handed_numbers: "(i, Handed r) \<in> set L \<Longrightarrow> n \<in> route_numbers r \<Longrightarrow> n \<in> log_numbers L"
  unfolding log_numbers_def by force

lemma start_numbers:
  assumes "task_start L w (es, t, ts, w')"
  shows "run_numbers (es, t, ts, w') \<subseteq> log_numbers L \<union> registry_numbers w \<and> fw_next w' = fw_next w"
  by (insert assms, erule task_startE)
    (auto simp: stage_defs run_numbers_def Let_def split: stage_splits
        dest: candidates_registered[THEN subsetD] handed_numbers)

lemma advance_numbers:
  "sys_numbers (advance i es ts w S) = \<Union>(event_numbers ` set es) \<union> log_numbers (sy_log S)
     \<union> \<Union>(task_numbers ` set ts) \<union> registry_numbers w"
  by (auto simp: sys_numbers_def advance_def log_numbers_def)

lemma reachable_numbers: "forward_reachable S \<Longrightarrow> sys_numbers S \<subseteq> {..<fw_next (sy_world S)}"
proof (induction rule: forward_reachable.induct)
  case (start w)
  then show ?case by (simp add: sys_numbers_def log_numbers_def registry_numbers_def)
next
  case (leases S l)
  then show ?case by (simp add: sys_numbers_def)
next
  case (begins S es t ts w)
  from start_numbers[OF begins(2)] begins.IH show ?case
    unfolding advance_numbers by (auto simp: run_numbers_def sys_numbers_def advance_def)
next
  case (runs S i es t ts w)
  have old: "task_numbers (sy_tasks S ! i) \<subseteq> sys_numbers S" using runs(2) by (auto simp: sys_numbers_def)
  have upd: "\<Union>(task_numbers ` set ((sy_tasks S)[i := t])) \<subseteq> task_numbers t \<union> \<Union>(task_numbers ` set (sy_tasks S))"
    using set_update_subset_insert[of "sy_tasks S" i t] by blast
  have "task_numbers (sy_tasks S ! i) \<union> registry_numbers (sy_world S) \<subseteq> {..<fw_next (sy_world S)}"
    using subset_trans[OF old runs.IH] runs.IH by (simp add: sys_numbers_def)
  then have sub: "run_numbers (es, t, ts, w) \<subseteq> {..<fw_next w}" "fw_next (sy_world S) \<le> fw_next w"
    using step_numbers[OF runs(3)] by force+
  have all: "sys_numbers S \<subseteq> {..<fw_next w}" using runs.IH sub(2) by auto
  have "task_numbers t \<union> \<Union>(task_numbers ` set (sy_tasks S)) \<subseteq> {..<fw_next w}"
    using all sub(1) by (simp add: sys_numbers_def run_numbers_def)
  from subset_trans[OF upd this] all sub(1) show ?case
    unfolding advance_numbers by (simp add: run_numbers_def sys_numbers_def advance_def)
qed

subsection \<open>A lifecycle is what the events made it\<close>

definition route_from :: "(nat \<times> forward_event) list \<Rightarrow> nat \<Rightarrow> route_state" where
  "route_from L k = (if RouteClosed k \<in> snd ` set L then Closed
     else if RouteActive k \<in> snd ` set L then Active else Pending)"

definition route_step :: "forward_event list \<Rightarrow> nat \<Rightarrow> route_state \<Rightarrow> route_state \<Rightarrow> bool" where
  "route_step es k s s' \<longleftrightarrow>
     (if RouteClosed k \<in> set es then s' = Closed
      else if RouteActive k \<in> set es then s = Pending \<and> s' = Active else s' = s)"

lemma route_from_step:
  assumes "route_step es k (route_from L k) s'"
  shows "s' = route_from (rev (map (Pair i) es) @ L) k"
proof -
  have "snd ` set (rev (map (Pair i) es) @ L) = set es \<union> snd ` set L" by (simp add: image_Un image_image)
  then show ?thesis using assms by (auto simp only: route_step_def route_from_def split: if_splits)
qed

lemma step_routes:
  assumes "task_step t w (es, t', ts, w')" and "fw_routes w (fw_next w) = Pending"
  shows "route_step es k (fw_routes w k) (fw_routes w' k)"
  by (insert assms, erule task_stepE)
    (auto simp: stage_defs route_step_def activate_route_def closed_events_def fw_ops Let_def split: stage_splits dest!: check_grant_frame)

lemma start_routes:
  assumes "task_start L w (es, t, ts, w')"
  shows "route_step es k (fw_routes w k) (fw_routes w' k)"
  by (insert assms, erule task_startE)
    (auto simp: stage_defs route_step_def Let_def split: stage_splits)

lemma reachable_routes: "forward_reachable S \<Longrightarrow> fw_routes (sy_world S) k = route_from (sy_log S) k"
proof (induction arbitrary: k rule: forward_reachable.induct)
  case (start w)
  then show ?case by (simp add: route_from_def)
next
  case (leases S l)
  then show ?case by simp
next
  case (begins S es t ts w)
  from start_routes[OF begins(2)] begins.IH show ?case by (simp add: advance_def route_from_step)
next
  case (runs S i es t ts w)
  have fresh: "fw_next (sy_world S) \<notin> event_numbers ev" if "ev \<in> snd ` set (sy_log S)" for ev
    using reachable_numbers[OF runs(1)] that by (auto simp: sys_numbers_def log_numbers_def)
  have "fw_routes (sy_world S) (fw_next (sy_world S)) = Pending"
    using runs.IH fresh[of "RouteClosed (fw_next (sy_world S))"] fresh[of "RouteActive (fw_next (sy_world S))"]
    by (auto simp: route_from_def)
  from step_routes[OF runs(3) this] runs.IH show ?case by (simp add: advance_def route_from_step)
qed

subsection \<open>What must have happened\<close>

text \<open>An event of task \<open>i\<close> satisfying \<open>Q\<close> is in the log, and \<open>P\<close> held of the log before it.\<close>

definition after :: "nat \<Rightarrow> (forward_event \<Rightarrow> bool) \<Rightarrow> ((nat \<times> forward_event) list \<Rightarrow> bool)
    \<Rightarrow> (nat \<times> forward_event) list \<Rightarrow> bool" where
  "after i Q P L \<longleftrightarrow> (\<exists>a ev b. L = a @ (i, ev) # b \<and> Q ev \<and> P b)"

lemma after_append: "after i Q P L \<Longrightarrow> after i Q P (a @ L)"
  unfolding after_def by (metis append.assoc)

lemma after_Cons: "after i Q P L \<Longrightarrow> after i Q P (x # L)"
  using after_append[of i Q P L "[x]"] by simp

lemma after_now: "Q ev \<Longrightarrow> P L \<Longrightarrow> after i Q P ((i, ev) # L)"
  unfolding after_def by blast

definition passed_for :: "lease_grant \<Rightarrow> forward_event \<Rightarrow> bool" where
  "passed_for g ev \<longleftrightarrow> (\<exists>E lw. ev = Passed E lw g \<and> grant_covered E lw g)"

definition was_active :: "nat \<Rightarrow> (nat \<times> forward_event) list \<Rightarrow> bool" where
  "was_active k L \<longleftrightarrow> RouteActive k \<in> snd ` set L \<and> RouteClosed k \<notin> snd ` set L"

text \<open>The stages of a forwarded channel, and those of the remote forward's creation.\<close>

definition checked_once :: "nat \<Rightarrow> lease_grant \<Rightarrow> (nat \<times> forward_event) list \<Rightarrow> bool" where
  "checked_once i g = after i (passed_for g) (\<lambda>_. True)"

definition seen_once :: "nat \<Rightarrow> forward_route \<Rightarrow> (nat \<times> forward_event) list \<Rightarrow> bool" where
  "seen_once i r = after i ((=) (SawActive (fr_lifecycle r)))
     (\<lambda>b. was_active (fr_lifecycle r) b \<and> checked_once i (fr_grant r) b)"

definition checked_twice :: "nat \<Rightarrow> forward_route \<Rightarrow> (nat \<times> forward_event) list \<Rightarrow> bool" where
  "checked_twice i r = after i (passed_for (fr_grant r)) (seen_once i r)"

definition admitted :: "nat \<Rightarrow> forward_route \<Rightarrow> (nat \<times> forward_event) list \<Rightarrow> bool" where
  "admitted i r = after i ((=) (SawActive (fr_lifecycle r)))
     (\<lambda>b. was_active (fr_lifecycle r) b \<and> checked_twice i r b)"

definition handed :: "nat \<Rightarrow> forward_route \<Rightarrow> (nat \<times> forward_event) list \<Rightarrow> bool" where
  "handed i r = after i ((=) (Handed r)) (\<lambda>_. True)"

definition vetted_once :: "nat \<Rightarrow> forward_route \<Rightarrow> (nat \<times> forward_event) list \<Rightarrow> bool" where
  "vetted_once i r = after i (passed_for (fr_grant r)) (handed i r)"

definition vetted :: "nat \<Rightarrow> forward_route \<Rightarrow> (nat \<times> forward_event) list \<Rightarrow> bool" where
  "vetted i r = after i (passed_for (fr_grant r)) (vetted_once i r)"

lemmas progress_defs = checked_once_def seen_once_def checked_twice_def admitted_def handed_def vetted_once_def vetted_def

lemma progress_append:
  "checked_once i g L \<Longrightarrow> checked_once i g (a @ L)" "seen_once i r L \<Longrightarrow> seen_once i r (a @ L)"
  "checked_twice i r L \<Longrightarrow> checked_twice i r (a @ L)" "admitted i r L \<Longrightarrow> admitted i r (a @ L)"
  "handed i r L \<Longrightarrow> handed i r (a @ L)" "vetted_once i r L \<Longrightarrow> vetted_once i r (a @ L)"
  "vetted i r L \<Longrightarrow> vetted i r (a @ L)"
  by (simp_all add: progress_defs after_append)

lemmas progress_Cons = progress_append[where a = "[x]" for x, simplified]

lemma progress_now:
  "grant_covered E lw g \<Longrightarrow> checked_once i g ((i, Passed E lw g) # L)"
  "was_active (fr_lifecycle r) L \<Longrightarrow> checked_once i (fr_grant r) L \<Longrightarrow> seen_once i r ((i, SawActive (fr_lifecycle r)) # L)"
  "grant_covered E lw (fr_grant r) \<Longrightarrow> seen_once i r L \<Longrightarrow> checked_twice i r ((i, Passed E lw (fr_grant r)) # L)"
  "was_active (fr_lifecycle r) L \<Longrightarrow> checked_twice i r L \<Longrightarrow> admitted i r ((i, SawActive (fr_lifecycle r)) # L)"
  "handed i r ((i, Handed r) # L)"
  "grant_covered E lw (fr_grant r) \<Longrightarrow> handed i r L \<Longrightarrow> vetted_once i r ((i, Passed E lw (fr_grant r)) # L)"
  "grant_covered E lw (fr_grant r) \<Longrightarrow> vetted_once i r L \<Longrightarrow> vetted i r ((i, Passed E lw (fr_grant r)) # L)"
  by (auto simp: progress_defs passed_for_def intro!: after_now)

fun stage_ok :: "nat \<Rightarrow> (nat \<times> forward_event) list \<Rightarrow> forward_task \<Rightarrow> bool" where
  "stage_ok i L (ChannelChecked r) = checked_once i (fr_grant r) L"
| "stage_ok i L (ChannelConnecting r) = seen_once i r L"
| "stage_ok i L (ChannelConnected r) = seen_once i r L"
| "stage_ok i L (ChannelRechecking r) = seen_once i r L"
| "stage_ok i L (ChannelRechecked r) = checked_twice i r L"
| "stage_ok i L (ChannelAccepting r) = admitted i r L"
| "stage_ok i L (RemoteConnecting j) = handed i (route_of j) L"
| "stage_ok i L (RemoteChecking j) = handed i (route_of j) L"
| "stage_ok i L (RemoteRequesting j) = vetted_once i (route_of j) L"
| "stage_ok i L (RemoteRechecking j port) = vetted_once i (route_of j) L"
| "stage_ok i L (RemoteRegistering j port) = vetted i (route_of j) L"
| "stage_ok i L (RemoteActivating m j port) = vetted i (route_of j) L"
| "stage_ok i L _ = True"

lemma stage_ok_append: "stage_ok i L t \<Longrightarrow> stage_ok i (a @ L) t"
  by (cases t) (simp_all add: progress_append)

text \<open>What an event says about the log it was added to.\<close>

fun event_ok :: "nat \<Rightarrow> (nat \<times> forward_event) list \<Rightarrow> forward_event \<Rightarrow> bool" where
  "event_ok i L (Accepted r) = admitted i r L"
| "event_ok i L (RouteActive k) = (\<exists>r. fr_lifecycle r = k \<and> vetted i r L)"
| "event_ok i L (Passed E lw g) = grant_covered E lw g"
| "event_ok i L (TunnelFor n) = (\<exists>g. checked_once i g L)"
| "event_ok i L _ = True"

definition events_ok :: "nat \<Rightarrow> (nat \<times> forward_event) list \<Rightarrow> forward_event list \<Rightarrow> bool" where
  "events_ok i L es \<longleftrightarrow> (\<forall>a ev b. es = a @ ev # b \<longrightarrow> event_ok i (rev (map (Pair i) a) @ L) ev)"

definition log_ok :: "(nat \<times> forward_event) list \<Rightarrow> bool" where
  "log_ok L \<longleftrightarrow> (\<forall>a i ev b. L = a @ (i, ev) # b \<longrightarrow> event_ok i b ev)"

lemma events_ok_Nil [simp]: "events_ok i L []"
  by (simp add: events_ok_def)

lemma events_ok_Cons [simp]:
  "events_ok i L (ev # es) \<longleftrightarrow> event_ok i L ev \<and> events_ok i ((i, ev) # L) es"
proof
  assume ok: "events_ok i L (ev # es)"
  have "event_ok i L ev" using ok[unfolded events_ok_def, rule_format, of "[]"] by simp
  moreover have "events_ok i ((i, ev) # L) es"
    unfolding events_ok_def using ok[unfolded events_ok_def, rule_format, of "ev # _"] by simp
  ultimately show "event_ok i L ev \<and> events_ok i ((i, ev) # L) es" ..
next
  assume ok: "event_ok i L ev \<and> events_ok i ((i, ev) # L) es"
  show "events_ok i L (ev # es)"
    unfolding events_ok_def
  proof (intro allI impI)
    fix a ev' b
    assume "ev # es = a @ ev' # b"
    then show "event_ok i (rev (map (Pair i) a) @ L) ev'"
      using ok by (cases a) (auto simp: events_ok_def)
  qed
qed

lemma log_ok_Cons: "log_ok ((i, ev) # L) \<longleftrightarrow> event_ok i L ev \<and> log_ok L"
  unfolding log_ok_def by (auto simp: Cons_eq_append_conv)

lemma log_ok_events: "log_ok L \<Longrightarrow> events_ok i L es \<Longrightarrow> log_ok (rev (map (Pair i) es) @ L)"
  by (induction es arbitrary: L) (auto simp: log_ok_Cons)

lemma closed_events_ok [simp]: "events_ok i L (closed_events e)"
  by (simp add: closed_events_def split: option.splits)

lemma was_active_route: "route_from L k = Active \<longleftrightarrow> was_active k L"
  by (simp add: route_from_def was_active_def)

lemma route_of_parts [simp]: "fr_grant (route_of j) = fj_grant j" "fr_lifecycle (route_of j) = fj_number j"
  by (simp_all add: route_of_def)

lemma vetted_activates: "vetted i (route_of j) L \<Longrightarrow> \<exists>r. fr_lifecycle r = fj_number j \<and> vetted i r L"
  by (rule exI[of _ "route_of j"]) simp

lemma vetted_now:
  "grant_covered E lw (fj_grant j) \<Longrightarrow> handed i (route_of j) L \<Longrightarrow> vetted_once i (route_of j) ((i, Passed E lw (fj_grant j)) # L)"
  "grant_covered E lw (fj_grant j) \<Longrightarrow> vetted_once i (route_of j) L \<Longrightarrow> vetted i (route_of j) ((i, Passed E lw (fj_grant j)) # L)"
  using progress_now(6,7)[where r = "route_of j"] by simp_all

lemma step_stages:
  assumes "task_step t w (es, t', ts, w')" and "stage_ok i L t" and "\<And>k. fw_routes w k = route_from L k"
  shows "events_ok i L es \<and> stage_ok i (rev (map (Pair i) es) @ L) t' \<and> (\<forall>x\<in>set ts. \<forall>m L'. stage_ok m L' x)"
  by (insert assms, erule task_stepE)
    (auto simp: stage_defs is_active_def activate_route_def Let_def was_active_route
       split: stage_splits dest: check_covered vetted_activates
       intro: progress_now vetted_now progress_Cons)

definition sys_stages :: "forward_sys \<Rightarrow> bool" where
  "sys_stages S \<longleftrightarrow> log_ok (sy_log S) \<and> (\<forall>i<length (sy_tasks S). stage_ok i (sy_log S) (sy_tasks S ! i))"

lemma sys_stages_advance:
  assumes "sys_stages S" and "events_ok i (sy_log S) es"
    and "\<And>k. k < length ts \<Longrightarrow>
      k < length (sy_tasks S) \<and> k \<noteq> i \<and> ts ! k = sy_tasks S ! k
      \<or> stage_ok k (rev (map (Pair i) es) @ sy_log S) (ts ! k)"
  shows "sys_stages (advance i es ts w S)"
  using assms log_ok_events stage_ok_append unfolding sys_stages_def advance_def by auto metis

lemma start_stages:
  assumes "task_start L w (es, t, ts, w')"
  shows "events_ok i L es \<and> (\<forall>m L'. stage_ok m L' t) \<and> ts = []"
  by (insert assms, erule task_startE) (auto simp: stage_defs Let_def split: stage_splits)

lemma reachable_stages: "forward_reachable S \<Longrightarrow> sys_stages S"
proof (induction rule: forward_reachable.induct)
  case (start w)
  then show ?case by (simp add: sys_stages_def log_ok_def)
next
  case (leases S l)
  then show ?case by (simp add: sys_stages_def)
next
  case (begins S es t ts w)
  note st = start_stages[OF begins(2), of "length (sy_tasks S)"]
  show ?case
    by (rule sys_stages_advance[OF begins.IH]) (use st in \<open>auto simp: nth_append less_Suc_eq\<close>)
next
  case (runs S i es t ts w)
  have "stage_ok i (sy_log S) (sy_tasks S ! i)" using runs.IH runs(2) by (simp add: sys_stages_def)
  note st = step_stages[OF runs(3) this reachable_routes[OF runs(1)]]
  show ?case
    by (rule sys_stages_advance[OF runs.IH]) (use st runs(2) in \<open>auto simp: nth_append nth_list_update\<close>)
qed

lemma was_active_vetted:
  assumes "log_ok L" and "was_active k L"
  shows "\<exists>c r. fr_lifecycle r = k \<and> vetted c r L"
proof -
  obtain c where "(c, RouteActive k) \<in> set L" using assms(2) by (auto simp: was_active_def)
  then obtain a b where L: "L = a @ (c, RouteActive k) # b" by (auto dest: split_list)
  then have "event_ok c b (RouteActive k)" using assms(1) unfolding log_ok_def by blast
  then obtain r where "fr_lifecycle r = k" "vetted c r b" by auto
  then show ?thesis using L progress_append(7)[of c r b "a @ [(c, RouteActive k)]"] by auto
qed

end
