(* ===== verification/Forward_Safety.thy ===== *)
theory Forward_Safety
  imports Forward_Steps
begin

text \<open>
  What the interleaving of the forwards' tasks guarantees (\<open>src/src/daemon/forward.rs\<close>,
  \<open>src/src/daemon/ssh.rs\<close>): every forwarded channel rests on fresh grant checks of the very
  route it uses, no forward escapes \<open>stop\<close> and the lease sweep, the tunnel counters are exact,
  and a sweep ends exactly the forwards whose grants are dead.
\<close>

subsection \<open>Routes and their channels\<close>

lemma step_handed:
  assumes "task_step t w (es, t', ts, w')" and "Handed r \<in> set es"
  shows "fr_lifecycle r = fw_next w \<and> (\<forall>r'. Handed r' \<in> set es \<longrightarrow> r' = r)"
  by (insert assms, erule task_stepE)
    (auto simp: stage_defs closed_events_def Let_def split: stage_splits)

lemma start_handed: "task_start L w (es, t, ts, w') \<Longrightarrow> Handed r \<notin> set es"
  by (erule task_startE) (auto simp: stage_defs Let_def split: stage_splits)

fun channel_route :: "forward_task \<Rightarrow> forward_route option" where
  "channel_route (ChannelChecking r) = Some r"
| "channel_route (ChannelChecked r) = Some r"
| "channel_route (ChannelConnecting r) = Some r"
| "channel_route (ChannelConnected r) = Some r"
| "channel_route (ChannelRechecking r) = Some r"
| "channel_route (ChannelRechecked r) = Some r"
| "channel_route (ChannelAccepting r) = Some r"
| "channel_route _ = None"

lemma step_channel_route:
  assumes "task_step t w (es, t', ts, w')"
  shows "(channel_route t' = None \<or> channel_route t' = channel_route t) \<and> (\<forall>x\<in>set ts. channel_route x = None)
    \<and> (\<forall>r. Accepted r \<in> set es \<longrightarrow> channel_route t = Some r)"
  by (insert assms, erule task_stepE)
    (auto simp: stage_defs closed_events_def Let_def split: stage_splits)

definition logged :: "forward_event \<Rightarrow> (nat \<times> forward_event) list \<Rightarrow> bool" where
  "logged ev L \<longleftrightarrow> ev \<in> snd ` set L"

lemma logged_simps [simp]:
  "\<not> logged ev []"
  "logged ev (rev (map (Pair i) es) @ L) \<longleftrightarrow> ev \<in> set es \<or> logged ev L"
  "logged ev (a @ x # L) \<longleftrightarrow> logged ev a \<or> ev = snd x \<or> logged ev L"
  by (auto simp: logged_def image_Un image_image)

lemma start_channel_route:
  assumes "task_start L w (es, t, ts, w')" and "channel_route t = Some r"
  shows "logged (Handed r) L"
  by (insert assms, erule task_startE) (auto simp: stage_defs logged_def Let_def split: stage_splits)

definition sys_routes :: "forward_sys \<Rightarrow> bool" where
  "sys_routes S \<longleftrightarrow>
     (\<forall>r r'. logged (Handed r) (sy_log S) \<longrightarrow> logged (Handed r') (sy_log S) \<longrightarrow>
        fr_lifecycle r = fr_lifecycle r' \<longrightarrow> r = r')
     \<and> (\<forall>t\<in>set (sy_tasks S). \<forall>r. channel_route t = Some r \<longrightarrow> logged (Handed r) (sy_log S))
     \<and> (\<forall>r. logged (Accepted r) (sy_log S) \<longrightarrow> logged (Handed r) (sy_log S))"

lemma reachable_handed: "forward_reachable S \<Longrightarrow> sys_routes S"
proof (induction rule: forward_reachable.induct)
  case (start w)
  then show ?case by (simp add: sys_routes_def)
next
  case (leases S l)
  then show ?case by (simp add: sys_routes_def)
next
  case (begins S es t ts w)
  have "ts = []" using start_stages[OF begins(2)] by simp
  moreover have "Accepted r \<notin> set es" for r
    using begins(2) by (rule task_startE) (auto simp: stage_defs Let_def split: stage_splits)
  ultimately show ?case
    using begins.IH start_handed[OF begins(2)] start_channel_route[OF begins(2)]
    unfolding sys_routes_def advance_def by auto
next
  case (runs S i es t ts w)
  let ?L = "sy_log S"
  have old: "fr_lifecycle r < fw_next (sy_world S)" if "logged (Handed r) ?L" for r
    using reachable_numbers[OF runs(1)] that handed_numbers[of _ r ?L "fr_lifecycle r"]
    by (auto simp: sys_numbers_def logged_def subset_iff)
  note st = step_channel_route[OF runs(3)]
  have ti: "sy_tasks S ! i \<in> set (sy_tasks S)" using runs(2) by simp
  have unique: "r = r'"
    if "Handed r \<in> set es \<or> logged (Handed r) ?L" "Handed r' \<in> set es \<or> logged (Handed r') ?L" "fr_lifecycle r = fr_lifecycle r'" for r r'
    using that step_handed[OF runs(3)] old runs.IH unfolding sys_routes_def by (metis less_irrefl)
  have chan: "logged (Handed r) ?L" if "x \<in> set ((sy_tasks S)[i := t] @ ts)" "channel_route x = Some r" for x r
  proof -
    have "x \<in> set (sy_tasks S) \<or> x = t \<or> x \<in> set ts"
      using that(1) set_update_subset_insert[of "sy_tasks S" i t] by auto
    then show ?thesis using that(2) st ti runs.IH unfolding sys_routes_def by (metis option.distinct(1))
  qed
  have acc: "logged (Handed r) ?L" if "Accepted r \<in> set es \<or> logged (Accepted r) ?L" for r
    using that st ti runs.IH unfolding sys_routes_def by blast
  show ?case using unique chan acc unfolding sys_routes_def advance_def by simp
qed

lemma vetted_handed: "vetted c r L \<Longrightarrow> logged (Handed r) L"
  by (auto simp: progress_defs after_def)

lemma log_ok_suffix: "log_ok (a @ L) \<Longrightarrow> log_ok L"
  by (induction a) (auto simp: log_ok_Cons)

subsection \<open>Who can stop whom\<close>

fun owner_of :: "forward_task \<Rightarrow> (string \<times> forward_job \<times> direction) option" where
  "owner_of (LocalOwner i j) = Some (i, j, LocalDir)"
| "owner_of (LocalChecking i j) = Some (i, j, LocalDir)"
| "owner_of (RemoteActivating i j port) = Some (i, j, RemoteDir)"
| "owner_of (RemoteOwner i j port) = Some (i, j, RemoteDir)"
| "owner_of _ = None"

fun unregistered :: "forward_task \<Rightarrow> nat option" where
  "unregistered (LocalRegistering j) = Some (fj_number j)"
| "unregistered (RemoteConnecting j) = Some (fj_number j)"
| "unregistered (RemoteChecking j) = Some (fj_number j)"
| "unregistered (RemoteRequesting j) = Some (fj_number j)"
| "unregistered (RemoteRechecking j port) = Some (fj_number j)"
| "unregistered (RemoteRegistering j port) = Some (fj_number j)"
| "unregistered _ = None"

fun senders :: "forward_task \<Rightarrow> nat option" where
  "senders (StopSending e) = Some (fe_stop_tx e)"
| "senders (SweepSending e cs) = Some (fe_stop_tx e)"
| "senders _ = None"

definition job_number :: "forward_task \<Rightarrow> nat option" where
  "job_number t = (case unregistered t of Some n \<Rightarrow> Some n | None \<Rightarrow> map_option (\<lambda>(i, j, d). fj_number j) (owner_of t))"

text \<open>What a stage may do to the stop channels and the registry.\<close>

inductive stop_move :: "forward_task \<Rightarrow> forward_world \<Rightarrow> forward_task \<Rightarrow> forward_world \<Rightarrow> bool" where
  plain: "\<lbrakk> fw_stops w' = fw_stops w; fw_registry w' = fw_registry w; senders t' = senders t;
     owner_of t' = owner_of t \<or> owner_of t' = None; unregistered t' = unregistered t \<or> unregistered t' = None \<rbrakk>
     \<Longrightarrow> stop_move t w t' w'"
| alloc: "\<lbrakk> fw_stops w' = (fw_stops w)(fw_next w := None); fw_registry w' = fw_registry w; senders t' = None;
     senders t = None; owner_of t' = None; unregistered t' = Some (fw_next w); job_number t = None \<rbrakk>
     \<Longrightarrow> stop_move t w t' w'"
| register: "\<lbrakk> w' = insert_entry i (entry_of j d now) w; senders t = None; senders t' = None;
     unregistered t = Some (fj_number j); owner_of t' = Some (i, j, d); unregistered t' = None \<rbrakk>
     \<Longrightarrow> stop_move t w t' w'"
| discard: "\<lbrakk> w' = discard_entry i w; senders t = None; senders t' = None; owner_of t' = None; unregistered t' = None \<rbrakk>
     \<Longrightarrow> stop_move t w t' w'"
| taking: "\<lbrakk> fw_stops w' = fw_stops w; fw_registry w' = hm_remove i (fw_registry w); senders t = None;
     senders t' = map_option fe_stop_tx (hm_get (fw_registry w) i); owner_of t' = None; unregistered t' = None \<rbrakk>
     \<Longrightarrow> stop_move t w t' w'"
| sending: "\<lbrakk> senders t = Some n; fw_stops w' = (fw_stops w)(n := Some (StopSent r)); fw_registry w' = fw_registry w;
     senders t' = None; owner_of t' = None; unregistered t' = None \<rbrakk>
     \<Longrightarrow> stop_move t w t' w'"

lemma send_stops: "fw_stops (send_stop e r w) = (fw_stops w)(fe_stop_tx e := Some (StopSent r))"
  by (simp add: send_stop_def)

lemma step_stop_move:
  assumes "task_step t w (es, t', ts, w')"
  shows "stop_move t w t' w' \<and> (\<forall>x\<in>set ts. owner_of x = None \<and> unregistered x = None \<and> senders x = None)"
  by (insert assms, erule task_stepE)
    (auto simp: stage_defs Let_def fw_ops send_stops job_number_def split: stage_splits dest!: check_grant_frame
       intro: plain alloc register discard taking sending)

definition stoppable :: "forward_world \<Rightarrow> nat set \<Rightarrow> string \<Rightarrow> forward_job \<Rightarrow> direction \<Rightarrow> bool" where
  "stoppable w held i j d \<longleftrightarrow>
     (case fw_stops w (fj_number j) of
        None \<Rightarrow> False
      | Some StopOpen \<Rightarrow> (\<exists>now. hm_get (fw_registry w) i = Some (entry_of j d now)) \<or> fj_number j \<in> held
      | Some _ \<Rightarrow> True)"

lemma entry_of_parts [simp]:
  "fe_stop_tx (entry_of j d now) = fj_number j" "fe_grant (entry_of j d now) = fj_grant j"
  "fe_route_lifecycle (entry_of j RemoteDir now) = Some (fj_number j)"
  by (simp_all add: entry_of_def)

lemma stoppable_cong:
  "fw_stops w = fw_stops w' \<Longrightarrow> fw_registry w = fw_registry w' \<Longrightarrow> stoppable w = stoppable w'"
  by (intro ext) (auto simp: stoppable_def split: option.split stop_channel.split)

lemma stoppable_lease [simp]: "stoppable (w\<lparr>fw_lease := l\<rparr>) H i j d = stoppable w H i j d"
  by (simp add: stoppable_def split: option.split stop_channel.split)

lemma stoppable_move:
  assumes "stop_move t w t' w'" and "stoppable w (Ho \<union> set_option (senders t)) i j d"
    and "fj_number j < fw_next w" and "unregistered t \<noteq> Some (fj_number j)"
  shows "stoppable w' (Ho \<union> set_option (senders t')) i j d"
  using assms
proof (cases rule: stop_move.cases)
  case (taking i')
  then show ?thesis
    using assms(2) by (cases "i' = i") (auto simp: stoppable_def split: option.splits stop_channel.splits)
next
  case (register i' j' d' now)
  then show ?thesis
    using assms(2,4) by (auto simp: stoppable_def fw_ops split: option.splits stop_channel.splits if_splits)
next
  case (discard i')
  then show ?thesis
    using assms(2) by (auto simp: stoppable_def fw_ops split: option.splits stop_channel.splits if_splits)
qed (auto simp: stoppable_def split: option.splits stop_channel.splits)

lemma move_keeps_channels:
  assumes "stop_move t w t' w'" and "n < fw_next w" and "fw_stops w n \<noteq> None"
  shows "fw_stops w' n \<noteq> None"
  using assms by (cases rule: stop_move.cases) (auto simp: fw_ops)

lemma move_keeps_unmade:
  assumes "stop_move t w t' w'" and "fw_stops w n = None" and "unregistered t \<noteq> Some n"
    and "\<And>m. senders t = Some m \<Longrightarrow> fw_stops w m \<noteq> None"
  shows "fw_stops w' n = None"
  using assms(1)
proof (cases rule: stop_move.cases)
  case (sending m r)
  then show ?thesis using assms(2,4) by auto
qed (use assms in \<open>auto simp: fw_ops\<close>)

lemma move_registry:
  assumes "stop_move t w t' w'" and "hm_get (fw_registry w') i = Some e"
  shows "hm_get (fw_registry w) i = Some e \<or> fw_stops w' (fe_stop_tx e) \<noteq> None"
  using assms by (cases rule: stop_move.cases) (auto simp: fw_ops split: if_splits)

lemma move_senders:
  assumes "stop_move t w t' w'" and "senders t' = Some n"
  shows "senders t = Some n \<or> (\<exists>i e. hm_get (fw_registry w) i = Some e \<and> fe_stop_tx e = n)"
  using assms by (cases rule: stop_move.cases) auto

lemma move_unmade:
  assumes "stop_move t w t' w'" and "unregistered t' = Some n"
  shows "unregistered t = Some n \<and> fw_stops w' = fw_stops w \<or> fw_stops w' n = None"
  using assms by (cases rule: stop_move.cases) auto

lemma move_owner:
  assumes "stop_move t w t' w'" and "owner_of t' = Some (i, j, d)"
  shows "owner_of t = Some (i, j, d) \<or> stoppable w' H i j d"
  using assms by (cases rule: stop_move.cases) (auto simp: stoppable_def fw_ops)

lemma unregistered_owner: "unregistered t = Some n \<Longrightarrow> owner_of t = None"
  by (cases t) auto

lemma move_job:
  assumes "stop_move t w t' w'" and "job_number t' = Some n"
  shows "job_number t = Some n \<or> n = fw_next w"
  using assms by (cases rule: stop_move.cases) (auto simp: job_number_def unregistered_owner split: option.splits)

lemma job_numbers: "job_number t = Some n \<Longrightarrow> n \<in> task_numbers t"
  by (cases t) (auto simp: job_number_def)

lemma sender_numbers: "senders t = Some n \<Longrightarrow> n \<in> task_numbers t"
  by (cases t) auto

definition rest_of :: "nat \<Rightarrow> 'a list \<Rightarrow> 'a set" where
  "rest_of p xs = {xs ! k | k. k < length xs \<and> k \<noteq> p}"

lemma set_rest_of: "p < length xs \<Longrightarrow> set xs = insert (xs ! p) (rest_of p xs)"
  by (auto simp: rest_of_def in_set_conv_nth)

lemma set_update_rest_of: "p < length xs \<Longrightarrow> set (xs[p := x]) = insert x (rest_of p xs)"
  by (auto simp: rest_of_def set_conv_nth nth_list_update)

definition held :: "forward_task list \<Rightarrow> nat set" where
  "held T = (\<Union>t\<in>set T. set_option (senders t))"

definition distinct_jobs :: "forward_task list \<Rightarrow> bool" where
  "distinct_jobs T \<longleftrightarrow>
     (\<forall>a b n. a < length T \<longrightarrow> b < length T \<longrightarrow> job_number (T ! a) = Some n \<longrightarrow> job_number (T ! b) = Some n \<longrightarrow> a = b)"

definition owners_ok :: "forward_sys \<Rightarrow> bool" where
  "owners_ok S \<longleftrightarrow> distinct_jobs (sy_tasks S)
     \<and> (\<forall>t\<in>set (sy_tasks S). \<forall>n. unregistered t = Some n \<longrightarrow> fw_stops (sy_world S) n = None)
     \<and> (\<forall>i e. hm_get (fw_registry (sy_world S)) i = Some e \<longrightarrow> fw_stops (sy_world S) (fe_stop_tx e) \<noteq> None)
     \<and> (\<forall>n\<in>held (sy_tasks S). fw_stops (sy_world S) n \<noteq> None)
     \<and> (\<forall>t\<in>set (sy_tasks S). \<forall>i j d. owner_of t = Some (i, j, d) \<longrightarrow>
          stoppable (sy_world S) (held (sy_tasks S)) i j d)"

lemma idle_tasks:
  assumes "\<forall>x\<in>set ts. owner_of x = None \<and> unregistered x = None \<and> senders x = None"
  shows "held (T @ ts) = held T" "distinct_jobs (T @ ts) = distinct_jobs T"
proof -
  show "held (T @ ts) = held T" using assms by (simp add: held_def)
  have "job_number (ts ! k) = None" if "k < length ts" for k
    using assms nth_mem[OF that] by (simp add: job_number_def)
  then show "distinct_jobs (T @ ts) = distinct_jobs T"
    unfolding distinct_jobs_def
    by (auto simp: nth_append)
qed

lemma start_idle:
  assumes "task_start L w (es, t, ts, w')"
  shows "owner_of t = None \<and> unregistered t = None \<and> senders t = None
    \<and> fw_stops w' = fw_stops w \<and> fw_registry w' = fw_registry w"
  by (insert assms, erule task_startE) (auto simp: stage_defs Let_def split: stage_splits)


lemma owners_ok_step:
  assumes ok: "owners_ok S" and p: "p < length (sy_tasks S)" and mv: "stop_move (sy_tasks S ! p) (sy_world S) t' w'"
    and idle: "\<forall>x\<in>set ts. owner_of x = None \<and> unregistered x = None \<and> senders x = None"
    and below: "sys_numbers S \<subseteq> {..<fw_next (sy_world S)}"
  shows "owners_ok (advance p es ((sy_tasks S)[p := t'] @ ts) w' S)"
proof -
  let ?T = "sy_tasks S" and ?w = "sy_world S"
  let ?t = "?T ! p" and ?O = "rest_of p ?T"
  define Ho where "Ho = (\<Union>t\<in>?O. set_option (senders t))"
  have T: "set ?T = insert ?t ?O" "set (?T[p := t']) = insert t' ?O" using p by (simp_all only: set_rest_of set_update_rest_of)
  have held: "held ?T = Ho \<union> set_option (senders ?t)" "held (?T[p := t']) = Ho \<union> set_option (senders t')"
    unfolding held_def T Ho_def by auto
  have dj: "distinct_jobs ?T"
    and unmade: "\<And>t n. t \<in> set ?T \<Longrightarrow> unregistered t = Some n \<Longrightarrow> fw_stops ?w n = None"
    and regs: "\<And>i e. hm_get (fw_registry ?w) i = Some e \<Longrightarrow> fw_stops ?w (fe_stop_tx e) \<noteq> None"
    and sends: "\<And>n. n \<in> held ?T \<Longrightarrow> fw_stops ?w n \<noteq> None"
    and own: "\<And>t i j d. t \<in> set ?T \<Longrightarrow> owner_of t = Some (i, j, d) \<Longrightarrow> stoppable ?w (held ?T) i j d"
    using ok unfolding owners_ok_def by auto
  have num: "n < fw_next ?w" if "t \<in> set ?T" "n \<in> task_numbers t" for t n
    using below that by (auto simp: sys_numbers_def)
  have rnum: "fe_stop_tx e < fw_next ?w" if "hm_get (fw_registry ?w) i = Some e" for i e
    using below entry_registered[OF that] by (auto simp: sys_numbers_def subset_iff)
  have other_job: "job_number t \<noteq> Some n" if "job_number ?t = Some n" "t \<in> ?O" for t n
    using dj that p unfolding distinct_jobs_def rest_of_def by blast
  have keep: "fw_stops w' n \<noteq> None" if "n < fw_next ?w" "fw_stops ?w n \<noteq> None" for n
    using move_keeps_channels[OF mv that] .
  have dj': "distinct_jobs (?T[p := t'])"
  proof -
    have "job_number t' = Some n \<Longrightarrow> x \<in> ?O \<Longrightarrow> job_number x \<noteq> Some n" for n x
      using move_job[OF mv] other_job num[of x n] job_numbers[of x n] T(1) by auto
    then show ?thesis
      using dj p unfolding distinct_jobs_def rest_of_def by (auto simp: nth_list_update split: if_splits)
  qed
  have unmade': "fw_stops w' n = None" if "x \<in> insert t' ?O" "unregistered x = Some n" for x n
  proof -
    have s: "senders ?t = Some m \<Longrightarrow> fw_stops ?w m \<noteq> None" for m using sends held by auto
    have "fw_stops w' n = None" if "x \<in> ?O"
    proof -
      have "unregistered ?t \<noteq> Some n"
        using other_job[OF _ that, of n] \<open>unregistered x = Some n\<close> by (auto simp: job_number_def)
      moreover have "fw_stops ?w n = None" using unmade[of x n] that \<open>unregistered x = Some n\<close> T by auto
      ultimately show ?thesis using move_keeps_unmade[OF mv] s by blast
    qed
    then show ?thesis using that move_unmade[OF mv, of n] unmade[of ?t n] T by auto
  qed
  have regs': "fw_stops w' (fe_stop_tx e) \<noteq> None" if "hm_get (fw_registry w') i = Some e" for i e
    using move_registry[OF mv that] regs[of i e] rnum[of i e] keep by auto
  have sends': "fw_stops w' n \<noteq> None" if "n \<in> held (?T[p := t'])" for n
  proof (cases "n \<in> held ?T")
    case True
    then have "n < fw_next ?w" using num sender_numbers unfolding held_def by fastforce
    then show ?thesis using keep sends True by blast
  next
    case False
    then have "senders t' = Some n" "senders ?t \<noteq> Some n" using that held by auto
    then obtain i e where "hm_get (fw_registry ?w) i = Some e" "fe_stop_tx e = n"
      using move_senders[OF mv] by blast
    then show ?thesis using keep regs rnum by blast
  qed
  have stays: "stoppable w' (held (?T[p := t'])) i j d"
    if "x \<in> insert ?t ?O" "x = ?t \<or> x \<in> ?O" "owner_of x = Some (i, j, d)" for x i j d
  proof -
    have n: "job_number x = Some (fj_number j)"
      using that(3) unregistered_owner[of x] by (auto simp: job_number_def split: option.splits)
    have "fj_number j < fw_next ?w" using n num job_numbers that(1) T(1) by metis
    moreover have "unregistered ?t \<noteq> Some (fj_number j)"
      using other_job[of "fj_number j" x] n that(2,3) unregistered_owner[of ?t] by (auto simp: job_number_def)
    moreover have "stoppable ?w (Ho \<union> set_option (senders ?t)) i j d"
      using own[of x i j d] that(1,3) T(1) held(1) by simp
    ultimately show ?thesis using stoppable_move[OF mv] held(2) by simp
  qed
  have own': "stoppable w' (held (?T[p := t'])) i j d" if "x \<in> insert t' ?O" "owner_of x = Some (i, j, d)" for x i j d
    using that stays[of x i j d] stays[of ?t i j d] move_owner[OF mv, of i j d] by auto
  have mem: "x \<in> insert t' ?O \<or> x \<in> set ts" if "x \<in> set (?T[p := t'] @ ts)" for x
    using that T(2) by auto
  show ?thesis
    unfolding owners_ok_def advance_def forward_sys.simps idle_tasks[OF idle]
    using dj' unmade' regs' sends' own' mem idle by (metis option.distinct(1))
qed

lemma reachable_owners: "forward_reachable S \<Longrightarrow> owners_ok S"
proof (induction rule: forward_reachable.induct)
  case (start w)
  then show ?case by (simp add: owners_ok_def distinct_jobs_def held_def)
next
  case (leases S l)
  then show ?case by (simp add: owners_ok_def)
next
  case (begins S es t ts w)
  note st = start_idle[OF begins(2)] start_stages[OF begins(2)]
  have "\<forall>x\<in>set [t]. owner_of x = None \<and> unregistered x = None \<and> senders x = None" using st by simp
  moreover have "stoppable w = stoppable (sy_world S)" using st by (intro stoppable_cong) auto
  ultimately show ?case
    using begins.IH st idle_tasks[of "[t]"] by (simp add: owners_ok_def advance_def)
next
  case (runs S i es t ts w)
  note st = step_stop_move[OF runs(3)]
  show ?case
    by (rule owners_ok_step[OF runs.IH runs(2) _ _ reachable_numbers[OF runs(1)]]) (use st in simp_all)
qed

subsection \<open>Active routes and tunnels\<close>

fun drives :: "nat \<Rightarrow> forward_task \<Rightarrow> bool" where
  "drives n (RemoteOwner i j port) = (fj_number j = n)"
| "drives n (RemoteStopping i j port r) = (fj_number j = n)"
| "drives n _ = False"

lemma step_drives:
  assumes "task_step t w (es, t', ts, w')" and "fw_routes w' n = Active"
  shows "fw_routes w n = Active \<and> (drives n t \<longrightarrow> drives n t') \<or> drives n t'"
  by (insert assms, erule task_stepE)
    (auto simp: stage_defs fw_ops activate_route_def Let_def split: stage_splits dest!: check_grant_frame)

lemma start_drives: "task_start L w (es, t, ts, w') \<Longrightarrow> fw_routes w' = fw_routes w \<and> fw_tunnels w' = fw_tunnels w"
  by (erule task_startE) (auto simp: stage_defs Let_def split: stage_splits)

lemma reachable_drives:
  "forward_reachable S \<Longrightarrow> fw_routes (sy_world S) n = Active \<Longrightarrow> \<exists>t\<in>set (sy_tasks S). drives n t"
proof (induction rule: forward_reachable.induct)
  case (start w)
  then show ?case by simp
next
  case (leases S l)
  then show ?case by simp
next
  case (begins S es t ts w)
  then show ?case using start_drives[OF begins(2)] by (auto simp: advance_def)
next
  case (runs S i es t ts w)
  have T: "set (sy_tasks S) = insert (sy_tasks S ! i) (rest_of i (sy_tasks S))"
    "set ((sy_tasks S)[i := t]) = insert t (rest_of i (sy_tasks S))"
    using runs(2) by (simp_all only: set_rest_of set_update_rest_of)
  have "fw_routes w n = Active" using runs.prems by (simp add: advance_def)
  from step_drives[OF runs(3) this] show ?case
    using runs.IH T by (auto simp: advance_def)
qed

definition pumping :: "nat \<Rightarrow> forward_task list \<Rightarrow> nat" where
  "pumping n T = length (filter ((=) (TunnelPumping n)) T)"

lemma pumping_update:
  "p < length T \<Longrightarrow> pumping n (T[p := t]) + (if T ! p = TunnelPumping n then 1 else 0)
     = pumping n T + (if t = TunnelPumping n then 1 else 0)"
proof (induction T arbitrary: p)
  case (Cons x T)
  show ?case
    using Cons.prems Cons.IH[of "p - 1"] by (cases p) (auto simp: pumping_def)
qed simp

lemma step_pumping:
  assumes "task_step t w (es, t', ts, w')" and "fw_tunnels w (fw_next w) = 0"
  shows "fw_tunnels w' n = fw_tunnels w n + (if t' = TunnelPumping n then 1 else 0) - (if t = TunnelPumping n then 1 else 0)
    \<and> (\<forall>x\<in>set ts. x \<noteq> TunnelPumping n)"
  by (insert assms, erule task_stepE)
    (auto simp: stage_defs fw_ops Let_def split: stage_splits dest!: check_grant_frame)

lemma reachable_pumping: "forward_reachable S \<Longrightarrow> fw_tunnels (sy_world S) n = pumping n (sy_tasks S)"
proof (induction arbitrary: n rule: forward_reachable.induct)
  case (start w)
  then show ?case by (simp add: pumping_def)
next
  case (leases S l)
  then show ?case by simp
next
  case (begins S es t ts w)
  have "t \<noteq> TunnelPumping n" using begins(2) by (rule task_startE) (auto simp: stage_defs Let_def split: stage_splits)
  then show ?case
    using begins.IH start_drives[OF begins(2)] start_stages[OF begins(2)] by (simp add: advance_def pumping_def)
next
  case (runs S i es t ts w)
  let ?next = "fw_next (sy_world S)"
  have "TunnelPumping ?next \<notin> set (sy_tasks S)"
    using reachable_numbers[OF runs(1)] by (force simp: sys_numbers_def)
  then have "fw_tunnels (sy_world S) ?next = 0" using runs.IH by (auto simp: pumping_def filter_empty_conv)
  from step_pumping[OF runs(3) this, of n] have
    st: "fw_tunnels w n = fw_tunnels (sy_world S) n + (if t = TunnelPumping n then 1 else 0)
       - (if sy_tasks S ! i = TunnelPumping n then 1 else 0)" and "\<forall>x\<in>set ts. x \<noteq> TunnelPumping n" by auto
  then have "pumping n ((sy_tasks S)[i := t] @ ts) = pumping n ((sy_tasks S)[i := t])"
    by (auto simp: pumping_def filter_empty_conv)
  then show ?case
    using st runs.IH[of n] pumping_update[OF runs(2), of n t] by (simp add: advance_def)
qed

subsection \<open>The sweep\<close>

fun peek_results :: "(nat \<Rightarrow> lease_env \<times> (lease_world \<Rightarrow> lease_world) \<times> lease_env) \<Rightarrow> nat
    \<Rightarrow> (string \<times> forward_entry) list \<Rightarrow> lease_world \<Rightarrow> bool list" where
  "peek_results envs n [] lw = []"
| "peek_results envs n ((i, e) # es) lw =
     (case envs n of (E, others, E') \<Rightarrow>
        (case grant_is_active E others E' (fe_grant e) False lw of
           (ok, lw') \<Rightarrow> ok # peek_results envs (Suc n) es lw'))"

definition dead_entries :: "(string \<times> forward_entry) list \<Rightarrow> bool list \<Rightarrow> forward_entry list" where
  "dead_entries es oks = map (snd \<circ> fst) (filter (\<lambda>x. \<not> snd x) (zip es oks))"

lemma reap_one_alive:
  assumes "grant_is_active E others E' g False (fw_lease w) = (True, lw)"
  shows "reap_one E others E' (i, g, k) w = w\<lparr>fw_lease := lw\<rparr>"
  using assms by (simp add: reap_one_def sweep_checked_def check_grant_def)

lemma reap_one_dead:
  assumes "grant_is_active E others E' (fe_grant e) False (fw_lease w) = (False, lw)" and "hm_get (fw_registry w) i = Some e"
  shows "reap_one E others E' (i, fe_grant e, fe_route_lifecycle e) w =
     send_stop e LeaseExpired (snd (take_entry i (close_entry e (w\<lparr>fw_lease := lw\<rparr>))))"
  using assms
  by (auto simp: reap_one_def sweep_checked_def sweep_removed_def check_grant_def take_entry_def close_entry_def fw_ops
      split: option.splits)

lemma reap_all_sweeps:
  assumes "fw_registry w = pre @ es" and "hm_ok (pre @ es)"
    and "oks = peek_results envs n es (fw_lease w)"
    and "w' = reap_all envs n (map (\<lambda>(i, e). (i, fe_grant e, fe_route_lifecycle e)) es) w"
  shows "fw_registry w' = pre @ map fst (filter snd (zip es oks))
    \<and> fw_stops w' = (\<lambda>m. if m \<in> fe_stop_tx ` set (dead_entries es oks) then Some (StopSent LeaseExpired) else fw_stops w m)
    \<and> fw_routes w' = (\<lambda>k. if Some k \<in> fe_route_lifecycle ` set (dead_entries es oks) then Closed else fw_routes w k)"
  using assms
proof (induction es arbitrary: n w pre w' oks)
  case Nil
  then show ?case by (simp add: dead_entries_def)
next
  case (Cons x es)
  obtain i e where x: "x = (i, e)" by (cases x)
  obtain E others E' where env: "envs n = (E, others, E')" by (cases "envs n")
  obtain ok lw where chk: "grant_is_active E others E' (fe_grant e) False (fw_lease w) = (ok, lw)" by fastforce
  note prems = Cons.prems(1,2)
  show ?case
  proof (cases ok)
    case True
    then have t: "grant_is_active E others E' (fe_grant e) False (fw_lease w) = (True, lw)" using chk by simp
    note r1 = reap_one_alive[OF t, of i "fe_route_lifecycle e"]
    show ?thesis
      using Cons.IH[of "w\<lparr>fw_lease := lw\<rparr>" "pre @ [x]" _ "Suc n", OF _ _ refl refl] prems
      unfolding Cons.prems(3,4) by (simp add: x env t r1 dead_entries_def cong: if_cong)
  next
    case False
    have get: "hm_get (fw_registry w) i = Some e"
      using prems by (intro hm_get_in) (simp_all add: x)
    have rm: "hm_remove i (fw_registry w) = pre @ es"
    proof -
      have "i \<notin> fst ` set pre" "i \<notin> fst ` set es" using prems(2) by (auto simp: x hm_ok_def)
      then have "filter (\<lambda>(k, _). k \<noteq> i) pre = pre" "filter (\<lambda>(k, _). k \<noteq> i) es = es"
        by (force simp: filter_id_conv)+
      then show ?thesis by (simp add: hm_remove_eq_filter prems(1) x)
    qed
    let ?w1 = "send_stop e LeaseExpired (snd (take_entry i (close_entry e (w\<lparr>fw_lease := lw\<rparr>))))"
    have f: "grant_is_active E others E' (fe_grant e) False (fw_lease w) = (False, lw)" using chk False by simp
    note r1 = reap_one_dead[OF f get]
    have w1: "fw_registry ?w1 = pre @ es" "fw_lease ?w1 = lw"
      "fw_stops ?w1 = (fw_stops w)(fe_stop_tx e := Some (StopSent LeaseExpired))"
      "\<And>k. fw_routes ?w1 k = (if fe_route_lifecycle e = Some k then Closed else fw_routes w k)"
      using rm by (auto simp: take_entry_def fw_ops send_stop_def close_entry_def close_lifecycle_def close_route_def split: option.splits)
    have "hm_ok (pre @ es)" using prems by (auto simp: hm_ok_def)
    from Cons.IH[OF w1(1) this refl refl, of "Suc n"] show ?thesis
      unfolding Cons.prems(3,4) by (auto simp: x env f r1 w1 dead_entries_def fun_eq_iff cong: if_cong)
  qed
qed

subsection \<open>Properties of forwards\<close>

text \<open>
  C5: a forwarded channel needs live authority, twice over. Whenever the daemon accepts a
  channel the remote side opened on a forward, its handler has, in this order: had the
  route's grant pass a check, seen the route active, had the grant pass a second check after
  the local target was connected, and seen the route active again, with no closing of the
  route before that; each passed check rests on a lease live at that moment that carries the
  grant's token and covers its host (or on bypass mode being on). The route itself went
  active only after its creator had resolved the grant, had it checked before asking for the
  remote listener, and checked again once it was open. All of this under every interleaving
  with other forwards, stops, sweeps, lost connections and any change of the leases.
\<close>

theorem forwarded_channel_needs_live_grant:
  assumes "forward_reachable S" and "sy_log S = a @ (i, Accepted r) # b"
  shows "admitted i r b \<and> (\<exists>c. vetted c r b)"
proof -
  have "log_ok (a @ (i, Accepted r) # b)" using reachable_stages[OF assms(1)] assms(2) by (simp add: sys_stages_def)
  then have "event_ok i b (Accepted r)" and b: "log_ok b"
    unfolding log_ok_def by (blast, metis append_Cons append_assoc)
  then have adm: "admitted i r b" by simp
  then obtain b1 b2 where b12: "b = b1 @ b2" and act: "was_active (fr_lifecycle r) b2"
    unfolding admitted_def after_def by (metis append_Cons append_assoc append_Nil)
  then have "log_ok b2" using b log_ok_suffix by blast
  then obtain c r' where c: "fr_lifecycle r' = fr_lifecycle r" "vetted c r' b"
    using was_active_vetted[OF _ act] progress_append(7) b12 by metis
  then have "logged (Handed r') (sy_log S)" "logged (Accepted r) (sy_log S)"
    using vetted_handed[OF c(2)] assms(2) by simp_all
  then have "r' = r" using c(1) reachable_handed[OF assms(1)] unfolding sys_routes_def by metis
  then show ?thesis using adm c(2) by blast
qed

text \<open>
  C20: no forward escapes. In every reachable state each forward that still listens or carries
  traffic can be stopped: its stop message is under way, or it is registered under its own id
  with its own grant and lifecycle, where \<open>stop\<close> and the sweep find it, or one of these has
  just taken its entry and is about to tell it, even when two forwards draw the same id. A
  route is active only while its owner task is there to close it, and the tunnel count
  \<open>forward ls\<close> shows is the number of tunnels being pumped.
\<close>

theorem no_forward_escapes:
  assumes "forward_reachable S"
  shows "(\<forall>t\<in>set (sy_tasks S). \<forall>i j d. owner_of t = Some (i, j, d) \<longrightarrow>
            stoppable (sy_world S) (held (sy_tasks S)) i j d)
    \<and> (\<forall>n. fw_routes (sy_world S) n = Active \<longrightarrow> (\<exists>t\<in>set (sy_tasks S). drives n t))
    \<and> (\<forall>n. fw_tunnels (sy_world S) n = pumping n (sy_tasks S))"
  using reachable_owners[OF assms] reachable_drives[OF assms] reachable_pumping[OF assms]
  unfolding owners_ok_def by blast

text \<open>
  A sweep ends the forwards whose grants are dead, all of them and no others: the registry
  keeps exactly the entries whose grant passed its peek, in place, every other forward is told
  that its lease expired and has its route closed, and nothing else is told or closed.
\<close>

theorem sweep_ends_dead_forwards:
  assumes "hm_ok (fw_registry w)" and "w' = reap_expired_leases envs w"
    and "oks = peek_results envs 0 (fw_registry w) (fw_lease w)"
  shows "fw_registry w' = map fst (filter snd (zip (fw_registry w) oks))
    \<and> (\<forall>n. fw_stops w' n = (if n \<in> fe_stop_tx ` set (dead_entries (fw_registry w) oks)
              then Some (StopSent LeaseExpired) else fw_stops w n))
    \<and> (\<forall>k. fw_routes w' k = (if Some k \<in> fe_route_lifecycle ` set (dead_entries (fw_registry w) oks)
              then Closed else fw_routes w k))"
  using reap_all_sweeps[of w "[]" "fw_registry w" oks envs 0 w'] assms
  by (simp add: reap_expired_leases_def reap_candidates_def)

subsection \<open>A concrete run\<close>

definition demo_token :: lease_grant where
  "demo_token = \<lparr>lg_token = ''token'', lg_host = ''web'', lg_authorization = SystemAgent\<rparr>"

definition demo_spec :: remote_spec where
  "demo_spec = \<lparr>re_bind_addr = ''127.0.0.1'', re_remote_port = 8080, re_local_host = ''localhost'', re_local_port = 80\<rparr>"

definition demo_job :: forward_job where
  "demo_job = \<lparr>fj_host = ''web'', fj_spec = ''8080:localhost:80'', fj_bind_addr = ''127.0.0.1'', fj_port = 8080,
     fj_target_host = ''localhost'', fj_target_port = 80, fj_grant = demo_token, fj_number = 0\<rparr>"

definition demo_fresh :: forward_world where
  "demo_fresh = \<lparr>fw_lease = demo_leased_world, fw_registry = [], fw_routes = \<lambda>_. Pending, fw_tunnels = \<lambda>_. 0,
     fw_closed = \<lambda>_. False, fw_stops = \<lambda>_. None, fw_next = 0\<rparr>"

definition demo_made :: forward_world where "demo_made = snd (alloc_forward demo_fresh)"

definition demo_id :: string where "demo_id = forward_id_of [0, 1, 2, 3, 4, 5, 6, 7]"

definition demo_listed :: forward_world where
  "demo_listed = insert_entry demo_id (entry_of demo_job RemoteDir 0) demo_made"

definition demo_live :: forward_world where
  "demo_live = demo_listed\<lparr>fw_routes := (fw_routes demo_listed)(0 := Active)\<rparr>"

lemma demo_spec_parsed: "parse_remote_spec ''8080:localhost:80'' = Inr demo_spec"
  by (simp add: parse_remote_spec_def split_spec_def parse_port_def parse_u16_def parse_bounded_def digit_of_def
      demo_spec_def default_bind_def)

lemma demo_active_touched: "demo_leased_world\<lparr>lw_active := [demo_active\<lparr>al_last_used := 0\<rparr>]\<rparr> = demo_leased_world"
  by (simp add: demo_leased_world_def demo_active_def)

lemma demo_recheck:
  "recheck_system_agent demo_lease_env ''token'' ''web'' touch demo_leased_world = (True, demo_leased_world)"
proof -
  have "find_index (\<lambda>l. al_token l = ''token'' \<and> ''web'' \<in> al_hosts l \<and> al_authorization l = SystemAgent)
      [demo_active] = Some 0"
    by (simp add: find_index_def demo_active_def)
  then show ?thesis
    by (simp add: recheck_system_agent_def Let_def demo_prune demo_worlds touch_at_def demo_active_touched
        del: prune_active)
qed

lemma demo_grant_active:
  "grant_is_active demo_lease_env id demo_lease_env demo_token touch demo_leased_world = (True, demo_leased_world)"
proof -
  have "find_index (\<lambda>l. al_token l = ''token'' \<and> ''web'' \<in> al_hosts l) [demo_active] = Some 0"
    by (simp add: find_index_def demo_active_def)
  moreover have "al_authorization demo_active = SystemAgent" by (simp add: demo_active_def)
  ultimately show ?thesis
    by (simp add: grant_is_active_def demo_token_def Let_def demo_prune demo_worlds demo_recheck
        host_scope_still_uses_system_agent_def demo_scope del: prune_active)
qed

lemma demo_check_passes:
  "fw_lease w = demo_leased_world \<Longrightarrow> check_grant demo_lease_env id demo_lease_env demo_token touch w = (True, w)"
  by (simp add: check_grant_def demo_grant_active)

lemma demo_resolves:
  "resolve_grant_for_chain demo_lease_env id demo_lease_env demo_chain ''web'' None True demo_leased_world
     = (Some demo_token, demo_leased_world)"
proof -
  have "pick_lease (lease_matches demo_chain ''web'' None) [demo_active] = Some 0"
    by (simp add: pick_lease_def lease_matches_def demo_active_def demo_chain_def demo_anchor_def
        chain_contains_anchor_def anchor_matches_def)
  moreover have "al_token demo_active = ''token''" "al_authorization demo_active = SystemAgent"
    by (simp_all add: demo_active_def)
  ultimately show ?thesis
    by (simp add: resolve_grant_for_chain_def Let_def demo_prune demo_worlds demo_recheck demo_token_def
        host_scope_still_uses_system_agent_def demo_scope del: prune_active)
qed

lemma demo_leases [simp]:
  "fw_lease demo_fresh = demo_leased_world" "fw_lease demo_made = demo_leased_world"
  "fw_lease demo_listed = demo_leased_world" "fw_lease demo_live = demo_leased_world"
  "fj_grant demo_job = demo_token" "fj_number demo_job = 0"
  "fw_routes demo_listed 0 = Pending" "fw_routes demo_live 0 = Active"
  by (simp_all add: demo_fresh_def demo_made_def demo_listed_def demo_live_def alloc_forward_def demo_job_def
      insert_entry_def discard_entry_def take_entry_def Let_def)

lemma demo_step:
  assumes "forward_reachable \<lparr>sy_world = w, sy_tasks = T, sy_log = L\<rparr>" and "i < length T"
    and "task_step (T ! i) w (es, t, ts, w')"
  shows "forward_reachable \<lparr>sy_world = w', sy_tasks = T[i := t] @ ts, sy_log = rev (map (Pair i) es) @ L\<rparr>"
  using forward_reachable.runs[OF assms(1), of i es t ts w'] assms(2,3) by (simp add: advance_def)

definition demo_log :: "(nat \<times> forward_event) list" where
  "demo_log = [(0, Answered (Inr (opened_of demo_id demo_job RemoteDir 8080))), (0, RouteActive 0),
     (0, Passed demo_lease_env demo_leased_world demo_token), (0, Passed demo_lease_env demo_leased_world demo_token),
     (0, Handed (route_of demo_job))]"

lemma demo_forward_opens:
  "forward_reachable \<lparr>sy_world = demo_live, sy_tasks = [RemoteOwner demo_id demo_job 8080], sy_log = demo_log\<rparr>"
proof -
  let ?P = "Passed demo_lease_env demo_leased_world demo_token" and ?H = "Handed (route_of demo_job)"
  have port: "fj_port demo_job = 8080" by (simp add: demo_job_def)
  have "forward_reachable \<lparr>sy_world = demo_fresh, sy_tasks = [], sy_log = []\<rparr>"
    by (rule forward_reachable.start) (simp_all add: demo_fresh_def)
  from forward_reachable.begins[OF this, of "[]" "RemoteResolving ''web'' ''8080:localhost:80'' demo_spec" "[]" demo_fresh]
  have r0: "forward_reachable \<lparr>sy_world = demo_fresh,
      sy_tasks = [RemoteResolving ''web'' ''8080:localhost:80'' demo_spec], sy_log = []\<rparr>"
    using task_start.remote_request[of "[]" demo_fresh "''web''" "''8080:localhost:80''"]
    by (simp add: remote_parsed_def demo_spec_parsed advance_def)
  have "remote_resolved demo_lease_env id demo_lease_env demo_chain None ''web'' ''8080:localhost:80'' demo_spec demo_fresh
      = ([?H], RemoteConnecting demo_job, [], demo_made)"
    by (simp add: remote_resolved_def demo_resolves alloc_forward_def demo_made_def Let_def)
      (simp add: demo_job_def demo_spec_def demo_fresh_def route_of_def)
  then have r1: "forward_reachable \<lparr>sy_world = demo_made, sy_tasks = [RemoteConnecting demo_job], sy_log = [(0, ?H)]\<rparr>"
    using demo_step[OF r0, of 0 "[?H]" "RemoteConnecting demo_job" "[]" demo_made]
      task_step.remote_resolved[where host = "''web''" and spec = "''8080:localhost:80''" and s = demo_spec and w = demo_fresh
        and E = demo_lease_env and others = id and E' = demo_lease_env and chain = demo_chain and token = None]
    by simp
  have r2: "forward_reachable \<lparr>sy_world = demo_made, sy_tasks = [RemoteChecking demo_job], sy_log = [(0, ?H)]\<rparr>"
    using demo_step[OF r1, of 0 "[]" "RemoteChecking demo_job" "[]" demo_made] task_step.remote_connected[of demo_job demo_made True]
    by (simp add: remote_connected_def)
  have r3: "forward_reachable \<lparr>sy_world = demo_made, sy_tasks = [RemoteRequesting demo_job], sy_log = [(0, ?P), (0, ?H)]\<rparr>"
    using demo_step[OF r2, of 0 "[?P]" "RemoteRequesting demo_job" "[]" demo_made] task_step.remote_checked[of demo_job demo_made demo_lease_env id demo_lease_env]
    by (simp add: remote_checked_def demo_check_passes passed_if_def)
  have r4: "forward_reachable \<lparr>sy_world = demo_made, sy_tasks = [RemoteRechecking demo_job 8080], sy_log = [(0, ?P), (0, ?H)]\<rparr>"
    using demo_step[OF r3, of 0 "[]" "RemoteRechecking demo_job 8080" "[]" demo_made] task_step.remote_requested[of demo_job demo_made "Some 8080"]
    by (simp add: remote_requested_def effective_remote_port_def port)
  have r5: "forward_reachable \<lparr>sy_world = demo_made, sy_tasks = [RemoteRegistering demo_job 8080], sy_log = [(0, ?P), (0, ?P), (0, ?H)]\<rparr>"
    using demo_step[OF r4, of 0 "[?P]" "RemoteRegistering demo_job 8080" "[]" demo_made] task_step.remote_rechecked[of demo_job 8080 demo_made demo_lease_env id demo_lease_env]
    by (simp add: remote_rechecked_def demo_check_passes passed_if_def)
  have r6: "forward_reachable \<lparr>sy_world = demo_listed, sy_tasks = [RemoteActivating demo_id demo_job 8080], sy_log = [(0, ?P), (0, ?P), (0, ?H)]\<rparr>"
    using demo_step[OF r5, of 0 "[]" "RemoteActivating demo_id demo_job 8080" "[]" demo_listed] task_step.remote_registered[of demo_job 8080 demo_made "[0, 1, 2, 3, 4, 5, 6, 7]" 0]
    by (simp add: remote_registered_def demo_listed_def demo_id_def Let_def)
  show ?thesis
    using demo_step[OF r6, of 0 "[RouteActive 0, Answered (Inr (opened_of demo_id demo_job RemoteDir 8080))]"
        "RemoteOwner demo_id demo_job 8080" "[]" demo_live] task_step.remote_activated[of demo_id demo_job 8080 demo_listed]
    by (simp add: remote_activated_def activate_route_def demo_live_def demo_log_def)
qed

lemma demo_channel_accepted:
  "\<exists>a b S. forward_reachable S \<and> sy_log S = a @ (1, Accepted (route_of demo_job)) # b"
proof -
  let ?P = "(1, Passed demo_lease_env demo_leased_world demo_token)" and ?A = "(1, SawActive 0)"
  let ?R = "route_of demo_job" and ?O = "RemoteOwner demo_id demo_job 8080"
  have act: "is_active ?R demo_live" by (simp add: is_active_def)
  have "task_start demo_log demo_live ([], ChannelChecking ?R, [], demo_live)"
    using task_start.channel[of "Some ?R" demo_log demo_live] by (simp add: channel_opened_def act demo_log_def)
  from forward_reachable.begins[OF demo_forward_opens, simplified, OF this]
  have r0: "forward_reachable \<lparr>sy_world = demo_live, sy_tasks = [?O, ChannelChecking ?R], sy_log = demo_log\<rparr>"
    by (simp add: advance_def)
  have r1: "forward_reachable \<lparr>sy_world = demo_live, sy_tasks = [?O, ChannelChecked ?R], sy_log = ?P # demo_log\<rparr>"
    using demo_step[OF r0, of 1 "[snd ?P]" "ChannelChecked ?R" "[]" demo_live] task_step.channel_checked[of ?R demo_live demo_lease_env id demo_lease_env]
    by (simp add: channel_checked_def demo_check_passes passed_if_def)
  have r2: "forward_reachable \<lparr>sy_world = demo_live, sy_tasks = [?O, ChannelConnecting ?R], sy_log = ?A # ?P # demo_log\<rparr>"
    using demo_step[OF r1, of 1 "[snd ?A]" "ChannelConnecting ?R" "[]" demo_live] task_step.channel_seen[of ?R demo_live]
    by (simp add: saw_active_def act)
  have r3: "forward_reachable \<lparr>sy_world = demo_live, sy_tasks = [?O, ChannelConnected ?R], sy_log = ?A # ?P # demo_log\<rparr>"
    using demo_step[OF r2, of 1 "[]" "ChannelConnected ?R" "[]" demo_live] task_step.channel_connected[of ?R demo_live None]
    by (simp add: channel_connected_def race_forward_target_connect_def)
  have r4: "forward_reachable \<lparr>sy_world = demo_live, sy_tasks = [?O, ChannelRechecking ?R], sy_log = ?A # ?A # ?P # demo_log\<rparr>"
    using demo_step[OF r3, of 1 "[snd ?A]" "ChannelRechecking ?R" "[]" demo_live] task_step.channel_still[of ?R demo_live]
    by (simp add: saw_active_def act)
  have r5: "forward_reachable \<lparr>sy_world = demo_live, sy_tasks = [?O, ChannelRechecked ?R], sy_log = ?P # ?A # ?A # ?P # demo_log\<rparr>"
    using demo_step[OF r4, of 1 "[snd ?P]" "ChannelRechecked ?R" "[]" demo_live] task_step.channel_rechecked[of ?R demo_live demo_lease_env id demo_lease_env]
    by (simp add: channel_rechecked_def demo_check_passes passed_if_def)
  have r6: "forward_reachable \<lparr>sy_world = demo_live, sy_tasks = [?O, ChannelAccepting ?R], sy_log = ?A # ?P # ?A # ?A # ?P # demo_log\<rparr>"
    using demo_step[OF r5, of 1 "[snd ?A]" "ChannelAccepting ?R" "[]" demo_live] task_step.channel_seen_again[of ?R demo_live]
    by (simp add: saw_active_def act)
  have r7: "forward_reachable \<lparr>sy_world = demo_live, sy_tasks = [?O, Done, TunnelStarting (fr_tunnel_count ?R)], sy_log = (1, Accepted ?R) # ?A # ?P # ?A # ?A # ?P # demo_log\<rparr>"
    using demo_step[OF r6, of 1 "[Accepted ?R]" "Done" "[TunnelStarting (fr_tunnel_count ?R)]" demo_live] task_step.channel_accepted[of ?R demo_live]
    by (simp add: channel_accepted_def)
  show ?thesis
    by (rule exI[of _ "[]"], rule exI, rule exI, rule conjI, rule r7) simp
qed

theorem forwarded_channel_needs_live_grant_witness:
  "\<exists>a b S. forward_reachable S \<and> sy_log S = a @ (1, Accepted (route_of demo_job)) # b
     \<and> admitted 1 (route_of demo_job) b \<and> (\<exists>c. vetted c (route_of demo_job) b)"
  using demo_channel_accepted forwarded_channel_needs_live_grant by blast

theorem no_forward_escapes_witness:
  "stoppable demo_live {} demo_id demo_job RemoteDir \<and> (\<exists>t\<in>{RemoteOwner demo_id demo_job 8080}. drives 0 t)
     \<and> fw_tunnels demo_live 0 = 0"
  using no_forward_escapes[OF demo_forward_opens] by (simp add: held_def pumping_def)

definition demo_dead_entry :: forward_entry where
  "demo_dead_entry = entry_of (demo_job\<lparr>fj_grant := demo_token\<lparr>lg_token := ''revoked''\<rparr>, fj_number := 1\<rparr>) RemoteDir 0"

definition demo_two :: forward_world where
  "demo_two = demo_live\<lparr>fw_registry := [(''fwd-1'', demo_dead_entry), (demo_id, entry_of demo_job RemoteDir 0)]\<rparr>"

theorem sweep_ends_dead_forwards_witness:
  "fw_registry (reap_expired_leases (\<lambda>_. (demo_lease_env, id, demo_lease_env)) demo_two)
     = [(demo_id, entry_of demo_job RemoteDir 0)]"
proof -
  let ?envs = "\<lambda>_::nat. (demo_lease_env, id :: lease_world \<Rightarrow> lease_world, demo_lease_env)"
  have ok: "hm_ok (fw_registry demo_two)" by (simp add: hm_ok_def demo_two_def demo_id_def forward_id_of_def)
  have dead: "grant_is_active demo_lease_env id demo_lease_env (fe_grant demo_dead_entry) False demo_leased_world
      = (False, demo_leased_world)"
    by (simp add: grant_is_active_def Let_def demo_prune demo_worlds demo_dead_entry_def demo_token_def find_index_def
        demo_active_def del: prune_active)
  have "peek_results ?envs 0 (fw_registry demo_two) (fw_lease demo_two) = [False, True]"
    by (simp add: demo_two_def dead demo_grant_active)
  then show ?thesis
    using sweep_ends_dead_forwards[OF ok refl refl, of ?envs] by (simp add: demo_two_def)
qed

end
