(* ===== verification/Daemon_Script.thy ===== *)
theory Daemon_Script
  imports Session Lease Pin Forward
begin

text \<open>
  The language of the daemon's request handlers (\<open>src/src/daemon/mod.rs\<close>,
  \<open>src/src/native_approval.rs\<close>): the wire messages (\<open>src/src/proto.rs\<close>), the operations of
  other modules a handler awaits, and a tree type \<open>script\<close> with one node per await. A handler
  is a function from its arguments to such a tree; what the await returns selects the branch, so
  that the interleaving of connections can be stated over the trees.
\<close>

subsection \<open>Wire messages\<close>

definition WIRE_PROTOCOL_VERSION :: nat where "WIRE_PROTOCOL_VERSION = 5"

datatype forward_direction = LocalSpec string | RemoteSpec string

datatype host_auth = AuthAgent | AuthPassword string | AuthKeyFile string | AuthPrivateKey string

datatype request =
    Status
  | Hello nat
  | Shutdown
  | Run string string "string option" nat bool "string option"
  | Peek string "string option" "nat option" bool "string option"
  | Send string string "string option" bool "string option"
  | Interrupt string "string option" "string option"
  | Open string string "string option"
  | Ls "string option"
  | Kill string "string option" "string option"
  | RequestLease "string list"
  | RequestLeaseTrustNew "string list"
  | TestConnection string "string option"
  | DescribeLeaseRequest string
  | ApproveLease string bytes "string list"
  | VaultExists
  | InitVaultReq bytes
  | AddCred string string "nat option" "string option" host_auth bytes bool host_route
  | EnrollHost string string "nat option" "string option" host_auth_kind "string option" host_route
  | ListHostsReq bytes
  | UpdateHostReq string string "nat option" "string option" host_route "host_auth option" bytes
  | RmCred string bytes
  | Put string string string "string option" "string option"
  | Get string string string "string option" "string option"
  | ForwardReq string forward_direction "string option"
  | ForwardLs
  | ForwardStop string

fun request_kind :: "request \<Rightarrow> string" where
  "request_kind Status = ''Status''"
| "request_kind (Hello _) = ''Hello''"
| "request_kind Shutdown = ''Shutdown''"
| "request_kind (Run _ _ _ _ _ _) = ''Run''"
| "request_kind (Peek _ _ _ _ _) = ''Peek''"
| "request_kind (Send _ _ _ _ _) = ''Send''"
| "request_kind (Interrupt _ _ _) = ''Interrupt''"
| "request_kind (Open _ _ _) = ''Open''"
| "request_kind (Ls _) = ''Ls''"
| "request_kind (Kill _ _ _) = ''Kill''"
| "request_kind (RequestLease _) = ''RequestLease''"
| "request_kind (RequestLeaseTrustNew _) = ''RequestLeaseTrustNew''"
| "request_kind (TestConnection _ _) = ''TestConnection''"
| "request_kind (DescribeLeaseRequest _) = ''DescribeLeaseRequest''"
| "request_kind (ApproveLease _ _ _) = ''ApproveLease''"
| "request_kind VaultExists = ''VaultExists''"
| "request_kind (InitVaultReq _) = ''InitVault''"
| "request_kind (AddCred _ _ _ _ _ _ _ _) = ''AddCred''"
| "request_kind (EnrollHost _ _ _ _ _ _ _) = ''EnrollHost''"
| "request_kind (ListHostsReq _) = ''ListHosts''"
| "request_kind (UpdateHostReq _ _ _ _ _ _ _) = ''UpdateHost''"
| "request_kind (RmCred _ _) = ''RmCred''"
| "request_kind (Put _ _ _ _ _) = ''Put''"
| "request_kind (Get _ _ _ _ _) = ''Get''"
| "request_kind (ForwardReq _ _ _) = ''Forward''"
| "request_kind ForwardLs = ''ForwardLs''"
| "request_kind (ForwardStop _) = ''ForwardStop''"

subsection \<open>Errors\<close>

datatype native_error =
    Unavailable
  | NotEnrolled
  | Cancelled
  | HostKeyConfirmationRequired
  | Helper string
  | NativeIo
  | NativeTimedOut
  | InvalidData
  | NativeVault vault_error
  | NativeLease lease_error
  | NativePin pin_error
  | NativeSsh ssh_error
  | WrongPin nat
  | PinLocked nat
  | PinDisabled

text \<open>An error message is represented by what it is formatted from.\<close>

datatype daemon_message =
    PeerUnknown string
  | NoActiveLease string
  | IncompatibleProtocol nat
  | HandshakeRequired string
  | RequesterUnknown
  | ApproverUnknown
  | TestTimedOut string
  | ConnectTimedOut string
  | VaultNotInitialized
  | AgentTakesNoKeyFile
  | ChooseKeyFile
  | PasswordTakesNoKeyFile
  | PasteKeysInEditor
  | FromService string
  | FromLease lease_error
  | FromSsh ssh_error
  | FromVault vault_error
  | FromNative native_error

subsection \<open>Replies\<close>

record transfer_reply =
  tr_host :: string
  tr_session :: string
  tr_local_path :: string
  tr_remote_path :: string
  tr_bytes_transferred :: nat

record forward_opened =
  fo_id :: string
  fo_host :: string
  fo_direction :: string
  fo_spec :: string
  fo_listen_addr :: string

record unverified_host_key =
  uh_host :: string
  uh_hostname :: string
  uh_port :: nat

record status_reply =
  sr_pid :: nat
  sr_version :: string
  sr_wire_protocol :: nat
  sr_uptime_secs :: nat
  sr_sessions :: "session_summary list"
  sr_leases :: "lease_summary list"

datatype response =
    StatusR status_reply
  | ProtocolReady nat
  | RunR run_reply
  | PeekR peek_reply
  | LsR "session_summary list"
  | SessionR session_summary
  | OkR
  | ErrorR daemon_message
  | LeaseRequestPending request_summary
  | VaultExistsR bool
  | HostsR "host_metadata_row list"
  | LeaseActivated activated_info "unverified_host_key list"
  | TransferR transfer_reply
  | TransferReady
  | ForwardR forward_opened
  | ForwardLsR "forward_summary list"

subsection \<open>Operations on hosts\<close>

text \<open>\<open>ssh::LeaseContext\<close>, the part the dialler reads extended with the caller's identity.\<close>

record call_context = lease_context +
  lc_caller_pid :: nat
  lc_lease_token :: "string option"

text \<open>
  What a handler asks of the session, transfer, forward and connection modules for a host. The
  context goes along wherever the operation may open a connection.
\<close>

datatype host_op =
    RunOp string string "string option" nat bool call_context
  | PeekOp string "string option" "nat option" bool
  | SendOp string string "string option" bool
  | InterruptOp string "string option"
  | OpenOp string string call_context
  | KillOp string "string option"
  | BeginPut string "string option" string string call_context
  | BeginGet string "string option" string string call_context
  | ForwardOp string forward_direction call_context
  | TestOp string call_context
  | ConnectOp string call_context

fun op_host :: "host_op \<Rightarrow> string" where
  "op_host (RunOp h _ _ _ _ _) = h"
| "op_host (PeekOp h _ _ _) = h"
| "op_host (SendOp h _ _ _) = h"
| "op_host (InterruptOp h _) = h"
| "op_host (OpenOp h _ _) = h"
| "op_host (KillOp h _) = h"
| "op_host (BeginPut h _ _ _ _) = h"
| "op_host (BeginGet h _ _ _ _) = h"
| "op_host (ForwardOp h _ _) = h"
| "op_host (TestOp h _) = h"
| "op_host (ConnectOp h _) = h"

fun op_context :: "host_op \<Rightarrow> call_context option" where
  "op_context (RunOp _ _ _ _ _ c) = Some c"
| "op_context (OpenOp _ _ c) = Some c"
| "op_context (BeginPut _ _ _ _ c) = Some c"
| "op_context (BeginGet _ _ _ _ c) = Some c"
| "op_context (ForwardOp _ _ c) = Some c"
| "op_context (TestOp _ c) = Some c"
| "op_context (ConnectOp _ c) = Some c"
| "op_context _ = None"

text \<open>The result of an operation under \<open>tokio::time::timeout\<close>.\<close>

datatype 'r timed = InTime "string + 'r" | Elapsed

subsection \<open>Audit events and the approval helper\<close>

datatype audit_event =
    RunStarted string string string
  | RunSettled string string string string "int option"
  | RunFailed string string string string
  | SendRecorded string string
  | InterruptRecorded string string
  | SessionKilled string string
  | LeaseRequested "string list" nat
  | LeaseApprovedSystemAgent "string list" "string option" nat
  | LeaseApprovedNative "string list" "string option" nat
  | LeaseApproved "string list" "string option" nat
  | LeaseDeniedSelfApproval string lease_error

datatype helper_request =
    HStatus
  | HUnlockWithTouchId
  | HUnlockFromKeychain
  | HBeginPinUnlock
  | HCompletePinUnlock bool
  | HEnroll bytes
  | HBegin string "string list" "string option" nat
  | HConfirm "string list" bool
  | HCompleteSystemAgent
  | HPromptMasterPassword string bool
  | HPromptSshPassword string
  | HStorePinCredential bytes
  | HPromptPin
  | HRemovePinCredential

datatype helper_response =
    HEnrolled
  | HUnlocked bytes
  | HApproved
  | HSystemAgentReady
  | HMasterPasswordEntered bytes
  | HSshPasswordEntered string
  | HPinEntered string
  | HPinRejected
  | HPinCredentialStored
  | HPinCredentialRemoved
  | HApprovalStatus bool bool
  | HError string string

subsection \<open>Operations and what they return\<close>

text \<open>
  One operation per await; \<open>Respond\<close> and \<open>Record\<close> are the writes to the client and to the audit
  log. \<open>Gate\<close> is \<open>lease::resolve_grant\<close>, \<open>Expand\<close> the two request-time expansions (the flag
  chooses the strict one), \<open>Endpoint\<close> and \<open>KeyEndpoint\<close> are \<open>resolve_endpoint\<close> and
  \<open>resolve_host_key_endpoint\<close>; \<open>Upload\<close> and \<open>Download\<close> the streaming half of a transfer, up to its
  \<open>finish\<close>.
\<close>

datatype daemon_op =
    Respond response
  | Record audit_event
  | Gate nat string "string option"
  | Run_Op host_op
  | Peek_Op host_op
  | Unit_Op host_op
  | Open_Op host_op
  | Forward_Op host_op
  | Timed_Op host_op
  | Upload
  | Download
  | Sessions "string option"
  | Forwards
  | StopForward string
  | Leases
  | Ask nat "string list"
  | Describe string
  | ApproveAgent string "string list option"
  | ApproveHuman nat string bytes "string list"
  | ApproveNative string bytes "string list"
  | PreviewNative string bytes
  | DiscardPreview
  | Expand bool "string list"
  | Endpoint string
  | KeyEndpoint string
  | KnownKey string nat
  | AgentScope "string list"
  | VaultPresent
  | VaultOp vault_request
  | VaultList bytes
  | HelperSpawn
  | HelperExchange helper_request
  | HelperFinish
  | PinStatusOp
  | PinVerifyOp string

datatype (discs_sels) answer =
    ADone
  | AGrant "lease_grant option"
  | ARun "string + run_reply"
  | APeek "string + peek_reply"
  | AUnit "string + unit"
  | ASession "string + session_summary"
  | AForward "string + forward_opened"
  | ATimed "unit timed"
  | ATransfer "string + transfer_reply"
  | ASessions "session_summary list"
  | AForwards "forward_summary list"
  | ALeases "lease_summary list"
  | AAsked "lease_error + request_outcome"
  | ASummary "lease_error + request_summary"
  | AAgent "lease_error + system_agent_outcome"
  | AActivated "lease_error + activated_info"
  | APreview "lease_error + string list"
  | AExpanded "ssh_error + string list"
  | AEndpoint "ssh_error + string \<times> nat"
  | AFlag bool
  | AScope "ssh_error + bool"
  | AVault "vault_error + unit"
  | ARows "vault_error + host_metadata_row list"
  | AHelperDone "native_error + unit"
  | AHelper "native_error + helper_response"
  | APinStatus "pin_error + pin_status"
  | APinVerify "pin_error + pin_verify"

text \<open>The answer types of the awaited functions.\<close>

primrec fits :: "daemon_op \<Rightarrow> answer \<Rightarrow> bool" where
  "fits (Respond _) = (\<lambda>a. a = ADone)"
| "fits (Record _) = (\<lambda>a. a = ADone)"
| "fits (Gate _ _ _) = is_AGrant"
| "fits (Run_Op _) = is_ARun"
| "fits (Peek_Op _) = is_APeek"
| "fits (Unit_Op _) = is_AUnit"
| "fits (Open_Op _) = is_ASession"
| "fits (Forward_Op _) = is_AForward"
| "fits (Timed_Op _) = is_ATimed"
| "fits Upload = is_ATransfer"
| "fits Download = is_ATransfer"
| "fits (Sessions _) = is_ASessions"
| "fits Forwards = is_AForwards"
| "fits (StopForward _) = is_AUnit"
| "fits Leases = is_ALeases"
| "fits (Ask _ _) = is_AAsked"
| "fits (Describe _) = is_ASummary"
| "fits (ApproveAgent _ _) = is_AAgent"
| "fits (ApproveHuman _ _ _ _) = is_AActivated"
| "fits (ApproveNative _ _ _) = is_AActivated"
| "fits (PreviewNative _ _) = is_APreview"
| "fits DiscardPreview = (\<lambda>a. a = ADone)"
| "fits (Expand _ _) = is_AExpanded"
| "fits (Endpoint _) = is_AEndpoint"
| "fits (KeyEndpoint _) = is_AEndpoint"
| "fits (KnownKey _ _) = is_AFlag"
| "fits (AgentScope _) = is_AScope"
| "fits VaultPresent = is_AFlag"
| "fits (VaultOp _) = is_AVault"
| "fits (VaultList _) = is_ARows"
| "fits HelperSpawn = is_AHelperDone"
| "fits (HelperExchange _) = is_AHelper"
| "fits HelperFinish = is_AHelperDone"
| "fits PinStatusOp = is_APinStatus"
| "fits (PinVerifyOp _) = is_APinVerify"

subsection \<open>Scripts\<close>

text \<open>
  \<open>Stuck\<close> is what a continuation does with an answer of another type, which never arrives.
\<close>

datatype 'a script = Return 'a | Await daemon_op "answer \<Rightarrow> 'a script" | Stuck

primrec bind_script :: "'a script \<Rightarrow> ('a \<Rightarrow> 'b script) \<Rightarrow> 'b script" where
  "bind_script (Return x) f = f x"
| "bind_script (Await c k) f = Await c (\<lambda>a. bind_script (k a) f)"
| "bind_script Stuck f = Stuck"

text \<open>A continuation for each type of answer.\<close>

definition thens :: "'a script \<Rightarrow> answer \<Rightarrow> 'a script" where
  "thens m a = (if a = ADone then m else Stuck)"

definition respond :: "response \<Rightarrow> 'a script \<Rightarrow> 'a script" where "respond r m = Await (Respond r) (thens m)"
definition record_event :: "audit_event \<Rightarrow> 'a script \<Rightarrow> 'a script" where
  "record_event e m = Await (Record e) (thens m)"
definition gate :: "nat \<Rightarrow> string \<Rightarrow> string option \<Rightarrow> (lease_grant option \<Rightarrow> 'a script) \<Rightarrow> 'a script" where
  "gate pid host token k = Await (Gate pid host token) (\<lambda>a. case a of AGrant x \<Rightarrow> k x | _ \<Rightarrow> Stuck)"
definition unit_op :: "host_op \<Rightarrow> (string + unit \<Rightarrow> 'a script) \<Rightarrow> 'a script" where
  "unit_op c k = Await (Unit_Op c) (\<lambda>a. case a of AUnit x \<Rightarrow> k x | _ \<Rightarrow> Stuck)"
definition timed_op :: "host_op \<Rightarrow> (unit timed \<Rightarrow> 'a script) \<Rightarrow> 'a script" where
  "timed_op c k = Await (Timed_Op c) (\<lambda>a. case a of ATimed x \<Rightarrow> k x | _ \<Rightarrow> Stuck)"
definition approve_agent ::
  "string \<Rightarrow> string list option \<Rightarrow> (lease_error + system_agent_outcome \<Rightarrow> 'a script) \<Rightarrow> 'a script" where
  "approve_agent i hosts k = Await (ApproveAgent i hosts) (\<lambda>a. case a of AAgent x \<Rightarrow> k x | _ \<Rightarrow> Stuck)"
definition expand :: "bool \<Rightarrow> string list \<Rightarrow> (ssh_error + string list \<Rightarrow> 'a script) \<Rightarrow> 'a script" where
  "expand strict hosts k = Await (Expand strict hosts) (\<lambda>a. case a of AExpanded x \<Rightarrow> k x | _ \<Rightarrow> Stuck)"
definition endpoint :: "daemon_op \<Rightarrow> (ssh_error + string \<times> nat \<Rightarrow> 'a script) \<Rightarrow> 'a script" where
  "endpoint c k = Await c (\<lambda>a. case a of AEndpoint x \<Rightarrow> k x | _ \<Rightarrow> Stuck)"
definition flag :: "daemon_op \<Rightarrow> (bool \<Rightarrow> 'a script) \<Rightarrow> 'a script" where
  "flag c k = Await c (\<lambda>a. case a of AFlag x \<Rightarrow> k x | _ \<Rightarrow> Stuck)"
definition vault_op :: "vault_request \<Rightarrow> (vault_error + unit \<Rightarrow> 'a script) \<Rightarrow> 'a script" where
  "vault_op c k = Await (VaultOp c) (\<lambda>a. case a of AVault x \<Rightarrow> k x | _ \<Rightarrow> Stuck)"
definition helper_done :: "daemon_op \<Rightarrow> (native_error + unit \<Rightarrow> 'a script) \<Rightarrow> 'a script" where
  "helper_done c k = Await c (\<lambda>a. case a of AHelperDone x \<Rightarrow> k x | _ \<Rightarrow> Stuck)"
definition exchange :: "helper_request \<Rightarrow> (native_error + helper_response \<Rightarrow> 'a script) \<Rightarrow> 'a script" where
  "exchange c k = Await (HelperExchange c) (\<lambda>a. case a of AHelper x \<Rightarrow> k x | _ \<Rightarrow> Stuck)"
definition activation :: "daemon_op \<Rightarrow> (lease_error + activated_info \<Rightarrow> 'a script) \<Rightarrow> 'a script" where
  "activation c k = Await c (\<lambda>a. case a of AActivated x \<Rightarrow> k x | _ \<Rightarrow> Stuck)"

text \<open>The question mark operator: an error returns, converted; a value goes on.\<close>

definition attempt :: "('e \<Rightarrow> 'f) \<Rightarrow> ('x \<Rightarrow> ('f + 'r) script) \<Rightarrow> 'e + 'x \<Rightarrow> ('f + 'r) script" where
  "attempt conv k r = (case r of Inl e \<Rightarrow> Return (Inl (conv e)) | Inr x \<Rightarrow> k x)"

lemmas script_ops = respond_def record_event_def gate_def unit_op_def timed_op_def approve_agent_def
  expand_def endpoint_def flag_def vault_op_def helper_done_def exchange_def activation_def

end
