(* ===== verification/Native_Approval.thy ===== *)
theory Native_Approval
  imports Daemon_Script
begin

text \<open>
  Native approval (\<open>src/src/native_approval.rs\<close>): the conversations with the bundled approval
  helper (Touch ID, Keychain, PIN and password prompts) and the flow that turns a pending
  request into a lease. The helper, the Keychain and the PIN file answer the awaits; what the
  daemon does with each answer is the code's.
\<close>

subsection \<open>Conversations with the helper\<close>

definition map_helper_error :: "string \<Rightarrow> string \<Rightarrow> native_error" where
  "map_helper_error kind message =
     (if kind = ''not_enrolled'' then NotEnrolled
      else if kind = ''cancelled'' then Cancelled
      else if kind = ''timeout'' then NativeTimedOut
      else Helper message)"

text \<open>An answer the caller did not ask for: the helper's own error, or invalid data.\<close>

definition unexpected :: "helper_response \<Rightarrow> native_error" where
  "unexpected r = (case r of HError kind message \<Rightarrow> map_helper_error kind message | _ \<Rightarrow> InvalidData)"

text \<open>Start the helper, ask once, take the expected answer and wait for a clean exit.\<close>

definition converse :: "helper_request \<Rightarrow> (helper_response \<Rightarrow> 'r option) \<Rightarrow> (native_error + 'r) script" where
  "converse q expected =
     helper_done HelperSpawn (attempt id (\<lambda>_.
       exchange q (attempt id (\<lambda>r. case expected r of
           Some x \<Rightarrow> helper_done HelperFinish (attempt id (\<lambda>_. Return (Inr x)))
         | None \<Rightarrow> Return (Inl (unexpected r))))))"

definition unlocked :: "helper_response \<Rightarrow> bytes option" where
  "unlocked r = (case r of HUnlocked p \<Rightarrow> Some p | _ \<Rightarrow> None)"

definition unlock_from_keychain :: "(native_error + bytes) script" where
  "unlock_from_keychain = converse HUnlockFromKeychain unlocked"

definition unlock_with_touch_id :: "(native_error + bytes) script" where
  "unlock_with_touch_id = converse HUnlockWithTouchId unlocked"

definition approval_status :: "(native_error + bool \<times> bool) script" where
  "approval_status = converse HStatus (\<lambda>r. case r of HApprovalStatus t p \<Rightarrow> Some (t, p) | _ \<Rightarrow> None)"

definition prompt_master_password :: "string \<Rightarrow> bool \<Rightarrow> (native_error + bytes) script" where
  "prompt_master_password purpose confirm =
     converse (HPromptMasterPassword purpose confirm)
       (\<lambda>r. case r of HMasterPasswordEntered p \<Rightarrow> Some p | _ \<Rightarrow> None)"

definition prompt_ssh_password :: "string \<Rightarrow> (native_error + string) script" where
  "prompt_ssh_password label =
     converse (HPromptSshPassword label) (\<lambda>r. case r of HSshPasswordEntered p \<Rightarrow> Some p | _ \<Rightarrow> None)"

definition prompt_pin :: "(native_error + string) script" where
  "prompt_pin = converse HPromptPin (\<lambda>r. case r of HPinEntered p \<Rightarrow> Some p | _ \<Rightarrow> None)"

definition store_pin_credential :: "bytes \<Rightarrow> (native_error + unit) script" where
  "store_pin_credential password =
     converse (HStorePinCredential password) (\<lambda>r. case r of HPinCredentialStored \<Rightarrow> Some () | _ \<Rightarrow> None)"

definition remove_pin_credential :: "(native_error + unit) script" where
  "remove_pin_credential =
     converse HRemovePinCredential (\<lambda>r. case r of HPinCredentialRemoved \<Rightarrow> Some () | _ \<Rightarrow> None)"

subsection \<open>The PIN\<close>

definition pin_outcome :: "pin_verify \<Rightarrow> native_error + unit" where
  "pin_outcome v = (case v of
     Approved \<Rightarrow> Inr () | Rejected n \<Rightarrow> Inl (WrongPin n) | Pin.Locked secs \<Rightarrow> Inl (PinLocked secs)
   | Disabled \<Rightarrow> Inl PinDisabled)"

definition verify_pin :: "string \<Rightarrow> (native_error + unit) script" where
  "verify_pin pin =
     Await (PinVerifyOp pin) (\<lambda>a. case a of
       APinVerify r \<Rightarrow> attempt NativePin (\<lambda>v. Return (pin_outcome v)) r | _ \<Rightarrow> Stuck)"

text \<open>A rejected PIN is reported to the helper, whose own errors no longer matter.\<close>

definition unlock_with_pin :: "(native_error + bytes) script" where
  "unlock_with_pin =
     helper_done HelperSpawn (attempt id (\<lambda>_.
       exchange HBeginPinUnlock (attempt id (\<lambda>r. case r of
           HPinEntered pin \<Rightarrow> bind_script (verify_pin pin) (\<lambda>v. case v of
               Inl e \<Rightarrow> exchange (HCompletePinUnlock False) (\<lambda>_. helper_done HelperFinish (\<lambda>_. Return (Inl e)))
             | Inr _ \<Rightarrow> exchange (HCompletePinUnlock True) (attempt id (\<lambda>r. case unlocked r of
                   Some p \<Rightarrow> helper_done HelperFinish (attempt id (\<lambda>_. Return (Inr p)))
                 | None \<Rightarrow> Return (Inl (unexpected r)))))
         | _ \<Rightarrow> Return (Inl (unexpected r))))))"

subsection \<open>Approving a request\<close>

datatype native_outcome = HumanOutcome activated_info | SystemAgentOutcome activated_info

text \<open>Every host of the scope needs a known key, unless unknown ones are to be trusted.\<close>

fun check_host_keys :: "bool \<Rightarrow> string list \<Rightarrow> (native_error + 'r) script \<Rightarrow> (native_error + 'r) script" where
  "check_host_keys trust_new_host [] m = m"
| "check_host_keys trust_new_host (host # hosts) m =
     endpoint (KeyEndpoint host) (attempt NativeSsh (\<lambda>(hostname, port).
       if trust_new_host then check_host_keys trust_new_host hosts m
       else flag (KnownKey hostname port) (\<lambda>known.
         if known then check_host_keys trust_new_host hosts m
         else Return (Inl HostKeyConfirmationRequired))))"

definition complete_system_agent :: "string \<Rightarrow> string list \<Rightarrow> (native_error + native_outcome) script" where
  "complete_system_agent i approved_hosts =
     exchange HCompleteSystemAgent (attempt id (\<lambda>r. case r of
         HSystemAgentReady \<Rightarrow> helper_done HelperFinish (attempt id (\<lambda>_.
           approve_agent i (Some approved_hosts) (attempt NativeLease (\<lambda>outcome. case outcome of
               Activated info \<Rightarrow> Return (Inr (SystemAgentOutcome info))
             | NotEligible \<Rightarrow> Return (Inl InvalidData)))))
       | _ \<Rightarrow> Return (Inl (unexpected r))))"

definition activate_native :: "string \<Rightarrow> bytes \<Rightarrow> string list \<Rightarrow> (native_error + native_outcome) script" where
  "activate_native i password approved_hosts =
     activation (ApproveNative i password approved_hosts)
       (attempt NativeLease (\<lambda>info. Return (Inr (HumanOutcome info))))"

text \<open>
  What the human answered: consent, the PIN, or the master password. A PIN is checked after the
  helper has exited; a password replaces the Keychain's and is checked by the activation.
\<close>

definition confirmed ::
  "string \<Rightarrow> bytes \<Rightarrow> string list \<Rightarrow> helper_response \<Rightarrow> (native_error + native_outcome) script" where
  "confirmed i password approved_hosts r =
     (case r of
        HApproved \<Rightarrow> helper_done HelperFinish (attempt id (\<lambda>_. activate_native i password approved_hosts))
      | HPinEntered pin \<Rightarrow> helper_done HelperFinish (attempt id (\<lambda>_.
          bind_script (verify_pin pin) (attempt id (\<lambda>_. activate_native i password approved_hosts))))
      | HMasterPasswordEntered entered \<Rightarrow>
          helper_done HelperFinish (attempt id (\<lambda>_. activate_native i entered approved_hosts))
      | _ \<Rightarrow> Return (Inl (unexpected r)))"

definition confirm_human :: "string \<Rightarrow> bytes \<Rightarrow> string list \<Rightarrow> (native_error + native_outcome) script" where
  "confirm_human i password approved_hosts =
     Await PinStatusOp (\<lambda>a. case a of
       APinStatus r \<Rightarrow> attempt NativePin (\<lambda>status.
         exchange (HConfirm approved_hosts (status = Ready)) (attempt id (confirmed i password approved_hosts))) r
     | _ \<Rightarrow> Stuck)"

definition finish_native_approval ::
  "request_summary \<Rightarrow> bytes \<Rightarrow> bool \<Rightarrow> (native_error + native_outcome) script" where
  "finish_native_approval info password trust_new_host =
     Await (PreviewNative (rs_id info) password) (\<lambda>a. case a of
       APreview r \<Rightarrow> attempt NativeLease (\<lambda>approved_hosts.
         check_host_keys trust_new_host approved_hosts
           (Await (AgentScope approved_hosts) (\<lambda>a. case a of
              AScope r \<Rightarrow> attempt NativeSsh (\<lambda>agent_only.
                if agent_only then complete_system_agent (rs_id info) approved_hosts
                else confirm_human (rs_id info) password approved_hosts) r
            | _ \<Rightarrow> Stuck))) r
     | _ \<Rightarrow> Stuck)"

text \<open>The preview's vault cache is discarded on the one error exit, and kept by a new lease.\<close>

definition try_approve :: "request_summary \<Rightarrow> bool \<Rightarrow> (native_error + native_outcome) script" where
  "try_approve info trust_new_host =
     helper_done HelperSpawn (attempt id (\<lambda>_.
       exchange (HBegin (rs_id info) (rs_hosts info) (rs_anchor_name info) (rs_anchor_pid info))
         (attempt id (\<lambda>r. case unlocked r of
            None \<Rightarrow> Return (Inl (unexpected r))
          | Some password \<Rightarrow>
              bind_script (finish_native_approval info password trust_new_host) (\<lambda>result. case result of
                  Inr outcome \<Rightarrow> Return (Inr outcome)
                | Inl e \<Rightarrow> Await DiscardPreview (thens (Return (Inl e))))))))"

end
