(* ===== verification/Dispatch.thy ===== *)
theory Dispatch
  imports Native_Approval
begin

text \<open>
  The daemon's request dispatcher (\<open>handle_connection\<close> and \<open>require_lease\<close> in
  \<open>src/src/daemon/mod.rs\<close>): one script per request, the connection loop's state, and what every
  await does to the leases and the vault.
\<close>

subsection \<open>Authorization\<close>

text \<open>What the process is started with, and the standard library's formatting of a prompt.\<close>

record daemon_config =
  dm_bypass :: bool
  dm_pid :: nat
  dm_version :: string
  dm_purpose :: "string \<Rightarrow> string \<Rightarrow> nat option \<Rightarrow> string option \<Rightarrow> host_auth_kind \<Rightarrow> host_route \<Rightarrow> string"

datatype flow = KeepGoing bool | Hangup

definition reply :: "response \<Rightarrow> flow script" where
  "reply r = respond r (Return (KeepGoing True))"

definition require_lease :: "nat option \<Rightarrow> string \<Rightarrow> string option \<Rightarrow> (response + bool \<Rightarrow> 'a script) \<Rightarrow> 'a script" where
  "require_lease peer host token k =
     (case peer of
        None \<Rightarrow> k (Inl (ErrorR (PeerUnknown host)))
      | Some pid \<Rightarrow> gate pid host token (\<lambda>g. case g of
            Some g \<Rightarrow> k (Inr (requires_system_agent g))
          | None \<Rightarrow> k (Inl (ErrorR (NoActiveLease host)))))"

definition gated :: "nat option \<Rightarrow> string \<Rightarrow> string option \<Rightarrow> (bool \<Rightarrow> flow script) \<Rightarrow> flow script" where
  "gated peer host token k =
     require_lease peer host token (\<lambda>r. case r of Inl denied \<Rightarrow> reply denied | Inr restricted \<Rightarrow> k restricted)"

definition context_of :: "nat option \<Rightarrow> string option \<Rightarrow> bool \<Rightarrow> bool \<Rightarrow> call_context" where
  "context_of peer token restricted trust =
     \<lparr>lc_target_requires_system_agent = restricted, lc_trust_new_host = trust,
      lc_caller_pid = the peer, lc_lease_token = token\<rparr>"

definition session_hint :: "string option \<Rightarrow> string" where
  "session_hint session = (case session of Some s \<Rightarrow> s | None \<Rightarrow> ''default'')"

definition reply_unit :: "audit_event option \<Rightarrow> string + unit \<Rightarrow> flow script" where
  "reply_unit event r = (case r of
     Inr _ \<Rightarrow> (case event of Some e \<Rightarrow> record_event e (reply OkR) | None \<Rightarrow> reply OkR)
   | Inl e \<Rightarrow> reply (ErrorR (FromService e)))"

definition reply_transfer :: "answer \<Rightarrow> flow script" where
  "reply_transfer a = (case a of
     ATransfer (Inr t) \<Rightarrow> reply (TransferR t)
   | ATransfer (Inl e) \<Rightarrow> reply (ErrorR (FromService e))
   | _ \<Rightarrow> Stuck)"

subsection \<open>Session, transfer and forward requests\<close>

definition handle_run ::
  "nat option \<Rightarrow> string \<Rightarrow> string \<Rightarrow> string option \<Rightarrow> nat \<Rightarrow> bool \<Rightarrow> string option \<Rightarrow> flow script" where
  "handle_run peer host command session timeout raw token =
     gated peer host token (\<lambda>restricted.
       record_event (RunStarted host (session_hint session) command)
         (Await (Run_Op (RunOp host command session timeout raw (context_of peer token restricted False)))
           (\<lambda>a. case a of
              ARun (Inr rep) \<Rightarrow>
                record_event (RunSettled host (rr_session rep) command (rr_state rep) (rr_exit_code rep))
                  (reply (RunR rep))
            | ARun (Inl e) \<Rightarrow>
                record_event (RunFailed host (session_hint session) command e) (reply (ErrorR (FromService e)))
            | _ \<Rightarrow> Stuck)))"

definition handle_peek :: "nat option \<Rightarrow> string \<Rightarrow> string option \<Rightarrow> nat option \<Rightarrow> bool \<Rightarrow> string option \<Rightarrow> flow script" where
  "handle_peek peer host session tail_n raw token =
     gated peer host token (\<lambda>_. Await (Peek_Op (PeekOp host session tail_n raw)) (\<lambda>a. case a of
         APeek (Inr rep) \<Rightarrow> reply (PeekR rep)
       | APeek (Inl e) \<Rightarrow> reply (ErrorR (FromService e))
       | _ \<Rightarrow> Stuck))"

definition handle_send :: "nat option \<Rightarrow> string \<Rightarrow> string \<Rightarrow> string option \<Rightarrow> bool \<Rightarrow> string option \<Rightarrow> flow script" where
  "handle_send peer host keys session newline token =
     gated peer host token (\<lambda>_. unit_op (SendOp host keys session newline)
       (reply_unit (Some (SendRecorded host (session_hint session)))))"

definition handle_interrupt :: "nat option \<Rightarrow> string \<Rightarrow> string option \<Rightarrow> string option \<Rightarrow> flow script" where
  "handle_interrupt peer host session token =
     gated peer host token (\<lambda>_. unit_op (InterruptOp host session)
       (reply_unit (Some (InterruptRecorded host (session_hint session)))))"

definition handle_open :: "nat option \<Rightarrow> string \<Rightarrow> string \<Rightarrow> string option \<Rightarrow> flow script" where
  "handle_open peer host name token =
     gated peer host token (\<lambda>restricted.
       Await (Open_Op (OpenOp host name (context_of peer token restricted False))) (\<lambda>a. case a of
         ASession (Inr summary) \<Rightarrow> reply (SessionR summary)
       | ASession (Inl e) \<Rightarrow> reply (ErrorR (FromService e))
       | _ \<Rightarrow> Stuck))"

definition handle_kill :: "nat option \<Rightarrow> string \<Rightarrow> string option \<Rightarrow> string option \<Rightarrow> flow script" where
  "handle_kill peer host session token =
     gated peer host token (\<lambda>_. unit_op (KillOp host session)
       (reply_unit (Some (SessionKilled host (session_hint session)))))"

definition handle_put :: "nat option \<Rightarrow> string \<Rightarrow> string \<Rightarrow> string \<Rightarrow> string option \<Rightarrow> string option \<Rightarrow> flow script" where
  "handle_put peer host local_path remote_path session token =
     gated peer host token (\<lambda>restricted.
       unit_op (BeginPut host session local_path remote_path (context_of peer token restricted False))
         (\<lambda>r. case r of
            Inl e \<Rightarrow> reply (ErrorR (FromService e))
          | Inr _ \<Rightarrow> respond TransferReady (Await Upload reply_transfer)))"

definition handle_get :: "nat option \<Rightarrow> string \<Rightarrow> string \<Rightarrow> string \<Rightarrow> string option \<Rightarrow> string option \<Rightarrow> flow script" where
  "handle_get peer host remote_path local_path session token =
     gated peer host token (\<lambda>restricted.
       unit_op (BeginGet host session remote_path local_path (context_of peer token restricted False))
         (\<lambda>r. case r of
            Inl e \<Rightarrow> reply (ErrorR (FromService e))
          | Inr _ \<Rightarrow> respond TransferReady (Await Download reply_transfer)))"

definition handle_forward :: "nat option \<Rightarrow> string \<Rightarrow> forward_direction \<Rightarrow> string option \<Rightarrow> flow script" where
  "handle_forward peer host direction token =
     gated peer host token (\<lambda>restricted.
       Await (Forward_Op (ForwardOp host direction (context_of peer token restricted False))) (\<lambda>a. case a of
         AForward (Inr opened) \<Rightarrow> reply (ForwardR opened)
       | AForward (Inl e) \<Rightarrow> reply (ErrorR (FromService e))
       | _ \<Rightarrow> Stuck))"

definition handle_test_connection :: "nat option \<Rightarrow> string \<Rightarrow> string option \<Rightarrow> flow script" where
  "handle_test_connection peer host token =
     gated peer host token (\<lambda>restricted.
       timed_op (TestOp host (context_of peer token restricted False)) (\<lambda>t. case t of
         InTime (Inr _) \<Rightarrow> reply OkR
       | InTime (Inl e) \<Rightarrow> reply (ErrorR (FromService e))
       | Elapsed \<Rightarrow> reply (ErrorR (TestTimedOut host))))"

subsection \<open>Lease requests\<close>

text \<open>
  \<open>--trust-new-host\<close>: after the authorization, each requested host is authorized again on its
  own and connected to once; the first failure is the answer.
\<close>

primrec trust_hosts :: "nat \<Rightarrow> string list \<Rightarrow> flow script" where
  "trust_hosts pid [] = reply OkR"
| "trust_hosts pid (host # hosts) =
     require_lease (Some pid) host None (\<lambda>r. case r of
         Inl denied \<Rightarrow> reply denied
       | Inr restricted \<Rightarrow>
           timed_op (ConnectOp host (context_of (Some pid) None restricted True)) (\<lambda>t. case t of
               InTime (Inr _) \<Rightarrow> trust_hosts pid hosts
             | InTime (Inl e) \<Rightarrow> reply (ErrorR (FromService e))
             | Elapsed \<Rightarrow> reply (ErrorR (ConnectTimedOut host))))"

definition finish_request :: "nat \<Rightarrow> bool \<Rightarrow> string list \<Rightarrow> response \<Rightarrow> flow script" where
  "finish_request pid trust_new_host hosts resp =
     (if trust_new_host \<and> resp = OkR then trust_hosts pid hosts else reply resp)"

definition native_or_pending :: "nat \<Rightarrow> bool \<Rightarrow> string list \<Rightarrow> request_summary \<Rightarrow> flow script" where
  "native_or_pending pid trust_new_host hosts info =
     bind_script (try_approve info trust_new_host) (\<lambda>r. case r of
         Inr (HumanOutcome act) \<Rightarrow>
           record_event (LeaseApprovedNative (ac_hosts act) (ac_anchor_name act) (ac_anchor_pid act))
             (finish_request pid trust_new_host hosts OkR)
       | Inr (SystemAgentOutcome act) \<Rightarrow>
           record_event (LeaseApprovedSystemAgent (ac_hosts act) (ac_anchor_name act) (ac_anchor_pid act))
             (finish_request pid trust_new_host hosts OkR)
       | Inl _ \<Rightarrow> finish_request pid trust_new_host hosts (LeaseRequestPending info))"

definition decide_request :: "nat \<Rightarrow> bool \<Rightarrow> string list \<Rightarrow> request_outcome \<Rightarrow> flow script" where
  "decide_request pid trust_new_host hosts outcome = (case outcome of
     AlreadyAuthorized \<Rightarrow> finish_request pid trust_new_host hosts OkR
   | Lease.Pending info \<Rightarrow>
       approve_agent (rs_id info) None (\<lambda>r. case r of
           Inr (Activated act) \<Rightarrow>
             record_event (LeaseApprovedSystemAgent (ac_hosts act) (ac_anchor_name act) (ac_anchor_pid act))
               (finish_request pid trust_new_host hosts OkR)
         | Inr NotEligible \<Rightarrow>
             if rs_vault_exists info then native_or_pending pid trust_new_host hosts info
             else finish_request pid trust_new_host hosts (LeaseRequestPending info)
         | Inl e \<Rightarrow> finish_request pid trust_new_host hosts (ErrorR (FromLease e))))"

definition handle_lease_request :: "daemon_config \<Rightarrow> nat option \<Rightarrow> string list \<Rightarrow> bool \<Rightarrow> flow script" where
  "handle_lease_request cfg peer hosts trust_new_host = (case peer of
     None \<Rightarrow> reply (ErrorR RequesterUnknown)
   | Some pid \<Rightarrow>
       expand (dm_bypass cfg) hosts (\<lambda>r. case r of
           Inl e \<Rightarrow> reply (ErrorR (FromSsh e))
         | Inr expanded \<Rightarrow>
             Await (Ask pid expanded) (\<lambda>a. case a of
                 AAsked (Inr outcome) \<Rightarrow>
                   record_event (LeaseRequested expanded pid) (decide_request pid trust_new_host hosts outcome)
               | AAsked (Inl e) \<Rightarrow> finish_request pid trust_new_host hosts (ErrorR (FromLease e))
               | _ \<Rightarrow> Stuck)))"

text \<open>The granted hosts without a known key; a host that does not resolve is passed over.\<close>

fun unverified :: "string list \<Rightarrow> unverified_host_key list \<Rightarrow> (unverified_host_key list \<Rightarrow> 'a script) \<Rightarrow> 'a script" where
  "unverified [] found k = k found"
| "unverified (host # hosts) found k =
     endpoint (Endpoint host) (\<lambda>r. case r of
         Inl _ \<Rightarrow> unverified hosts found k
       | Inr (hostname, port) \<Rightarrow>
           flag (KnownKey hostname port) (\<lambda>known.
             unverified hosts
               (if known then found
                else found @ [\<lparr>uh_host = host, uh_hostname = hostname, uh_port = port\<rparr>]) k))"

definition handle_approve :: "nat option \<Rightarrow> string \<Rightarrow> bytes \<Rightarrow> string list \<Rightarrow> flow script" where
  "handle_approve peer i password approved_hosts = (case peer of
     None \<Rightarrow> reply (ErrorR ApproverUnknown)
   | Some pid \<Rightarrow>
       activation (ApproveHuman pid i password approved_hosts) (\<lambda>r. case r of
           Inr info \<Rightarrow>
             record_event (LeaseApproved (ac_hosts info) (ac_anchor_name info) (ac_anchor_pid info))
               (unverified (ac_hosts info) [] (\<lambda>found. reply (LeaseActivated info found)))
         | Inl (SelfApproval j p) \<Rightarrow>
             record_event (LeaseDeniedSelfApproval i (SelfApproval j p)) (reply (ErrorR (FromLease (SelfApproval j p))))
         | Inl e \<Rightarrow> reply (ErrorR (FromLease e))))"

definition handle_describe :: "string \<Rightarrow> flow script" where
  "handle_describe i = Await (Describe i) (\<lambda>a. case a of
     ASummary (Inr info) \<Rightarrow> reply (LeaseRequestPending info)
   | ASummary (Inl e) \<Rightarrow> reply (ErrorR (FromLease e))
   | _ \<Rightarrow> Stuck)"

subsection \<open>Vault requests\<close>

fun auth_of :: "host_auth \<Rightarrow> auth_method" where
  "auth_of AuthAgent = Agent"
| "auth_of (AuthPassword p) = Password p"
| "auth_of (AuthKeyFile p) = KeyFile p"
| "auth_of (AuthPrivateKey k) = PrivateKey k"

definition change_vault :: "vault_request \<Rightarrow> flow script" where
  "change_vault c = vault_op c (\<lambda>r. case r of Inr _ \<Rightarrow> reply OkR | Inl e \<Rightarrow> reply (ErrorR (FromVault e)))"

definition handle_list_hosts :: "bytes \<Rightarrow> flow script" where
  "handle_list_hosts password = Await (VaultList password) (\<lambda>a. case a of
     ARows (Inr rows) \<Rightarrow> reply (HostsR rows)
   | ARows (Inl e) \<Rightarrow> reply (ErrorR (FromVault e))
   | _ \<Rightarrow> Stuck)"

text \<open>
  Enrollment by an agent: the secrets come from the native helper, the entry is only added.
\<close>

definition enroll_auth :: "string \<Rightarrow> host_auth_kind \<Rightarrow> string option \<Rightarrow> (daemon_message + auth_method) script" where
  "enroll_auth host kind key_file = (case kind of
     AgentKind \<Rightarrow> Return (if key_file = None then Inr Agent else Inl AgentTakesNoKeyFile)
   | KeyFileKind \<Rightarrow> Return (case key_file of Some path \<Rightarrow> Inr (KeyFile path) | None \<Rightarrow> Inl ChooseKeyFile)
   | PasswordKind \<Rightarrow>
       if key_file \<noteq> None then Return (Inl PasswordTakesNoKeyFile)
       else bind_script (prompt_ssh_password host) (attempt FromNative (\<lambda>p. Return (Inr (Password p))))
   | PrivateKeyKind \<Rightarrow> Return (Inl PasteKeysInEditor))"

definition enroll_password :: "daemon_config \<Rightarrow> string \<Rightarrow> (native_error + bytes) script" where
  "enroll_password cfg purpose =
     (if dm_bypass cfg then unlock_from_keychain else prompt_master_password purpose False)"

definition handle_enroll ::
  "daemon_config \<Rightarrow> string \<Rightarrow> string \<Rightarrow> nat option \<Rightarrow> string option \<Rightarrow> host_auth_kind \<Rightarrow> string option \<Rightarrow> host_route
     \<Rightarrow> flow script" where
  "handle_enroll cfg host hostname port user kind key_file route =
     flag VaultPresent (\<lambda>present.
       if \<not> present then reply (ErrorR VaultNotInitialized)
       else bind_script (enroll_auth host kind key_file) (\<lambda>auth. case auth of
           Inl e \<Rightarrow> reply (ErrorR e)
         | Inr auth \<Rightarrow>
             bind_script (enroll_password cfg (dm_purpose cfg host hostname port user (auth_kind auth) route))
               (\<lambda>password. case password of
                  Inl e \<Rightarrow> reply (ErrorR (FromNative e))
                | Inr password \<Rightarrow>
                    change_vault (AddHost host \<lparr>he_hostname = hostname, he_port = port, he_user = user,
                        he_auth = auth, he_route = route\<rparr> password False))))"

subsection \<open>The dispatcher\<close>

fun handle_negotiated :: "daemon_config \<Rightarrow> nat option \<Rightarrow> request \<Rightarrow> flow script" where
  "handle_negotiated cfg peer (Run host command session timeout raw token) =
     handle_run peer host command session timeout raw token"
| "handle_negotiated cfg peer (Peek host session tail_n raw token) = handle_peek peer host session tail_n raw token"
| "handle_negotiated cfg peer (Send host keys session newline token) = handle_send peer host keys session newline token"
| "handle_negotiated cfg peer (Interrupt host session token) = handle_interrupt peer host session token"
| "handle_negotiated cfg peer (Open host name token) = handle_open peer host name token"
| "handle_negotiated cfg peer (Ls host) =
     Await (Sessions host) (\<lambda>a. case a of ASessions ss \<Rightarrow> reply (LsR ss) | _ \<Rightarrow> Stuck)"
| "handle_negotiated cfg peer (Kill host session token) = handle_kill peer host session token"
| "handle_negotiated cfg peer (RequestLease hosts) = handle_lease_request cfg peer hosts False"
| "handle_negotiated cfg peer (RequestLeaseTrustNew hosts) = handle_lease_request cfg peer hosts True"
| "handle_negotiated cfg peer (TestConnection host token) = handle_test_connection peer host token"
| "handle_negotiated cfg peer (DescribeLeaseRequest i) = handle_describe i"
| "handle_negotiated cfg peer (ApproveLease i password hosts) = handle_approve peer i password hosts"
| "handle_negotiated cfg peer VaultExists = flag VaultPresent (\<lambda>present. reply (VaultExistsR present))"
| "handle_negotiated cfg peer (InitVaultReq password) = change_vault (InitVault password)"
| "handle_negotiated cfg peer (AddCred host hostname port user auth password replace route) =
     change_vault (AddHost host \<lparr>he_hostname = hostname, he_port = port, he_user = user,
       he_auth = auth_of auth, he_route = route\<rparr> password replace)"
| "handle_negotiated cfg peer (EnrollHost host hostname port user kind key_file route) =
     handle_enroll cfg host hostname port user kind key_file route"
| "handle_negotiated cfg peer (ListHostsReq password) = handle_list_hosts password"
| "handle_negotiated cfg peer (UpdateHostReq host hostname port user route auth password) =
     change_vault (UpdateHost \<lparr>hu_alias = host, hu_hostname = hostname, hu_port = port, hu_user = user,
       hu_route = route\<rparr> (map_option auth_of auth) password)"
| "handle_negotiated cfg peer (RmCred host password) = change_vault (RemoveHost host password)"
| "handle_negotiated cfg peer (Put host local_path remote_path session token) =
     handle_put peer host local_path remote_path session token"
| "handle_negotiated cfg peer (Get host remote_path local_path session token) =
     handle_get peer host remote_path local_path session token"
| "handle_negotiated cfg peer (ForwardReq host direction token) = handle_forward peer host direction token"
| "handle_negotiated cfg peer ForwardLs =
     Await Forwards (\<lambda>a. case a of AForwards fs \<Rightarrow> reply (ForwardLsR fs) | _ \<Rightarrow> Stuck)"
| "handle_negotiated cfg peer (ForwardStop i) =
     Await (StopForward i) (\<lambda>a. case a of AUnit r \<Rightarrow> reply_unit None r | _ \<Rightarrow> Stuck)"
| "handle_negotiated cfg peer _ = Stuck"

definition handle_status :: "daemon_config \<Rightarrow> nat \<Rightarrow> bool \<Rightarrow> flow script" where
  "handle_status cfg uptime_secs negotiated =
     Await (Sessions None) (\<lambda>a. case a of
         ASessions ss \<Rightarrow> Await Leases (\<lambda>a. case a of
             ALeases ls \<Rightarrow> respond (StatusR \<lparr>sr_pid = dm_pid cfg, sr_version = dm_version cfg,
                 sr_wire_protocol = WIRE_PROTOCOL_VERSION, sr_uptime_secs = uptime_secs,
                 sr_sessions = ss, sr_leases = ls\<rparr>) (Return (KeepGoing negotiated))
           | _ \<Rightarrow> Stuck)
       | _ \<Rightarrow> Stuck)"

definition handle_hello :: "nat \<Rightarrow> flow script" where
  "handle_hello version =
     (if version = WIRE_PROTOCOL_VERSION
      then respond (ProtocolReady WIRE_PROTOCOL_VERSION) (Return (KeepGoing True))
      else respond (ErrorR (IncompatibleProtocol version)) (Return (KeepGoing False)))"

definition handle_request :: "daemon_config \<Rightarrow> nat \<Rightarrow> nat option \<Rightarrow> bool \<Rightarrow> request \<Rightarrow> flow script" where
  "handle_request cfg uptime_secs peer negotiated req = (case req of
     Status \<Rightarrow> handle_status cfg uptime_secs negotiated
   | Hello version \<Rightarrow> handle_hello version
   | Shutdown \<Rightarrow> respond OkR (Return Hangup)
   | _ \<Rightarrow>
       if \<not> negotiated then respond (ErrorR (HandshakeRequired (request_kind req))) (Return (KeepGoing False))
       else handle_negotiated cfg peer req)"

end
