(* ===== verification/Dispatch_Steps.thy ===== *)
theory Dispatch_Steps
  imports Dispatch
begin

text \<open>
  The daemon serving its connections (\<open>src/src/daemon/mod.rs\<close>): an interleaving of the scripts of
  \<open>Dispatch\<close>, one per connection, over the shared leases and vault. Every await is one step; what
  it returns is computed by the lease and vault operations, or arbitrary where it comes from
  outside the model (a session, a transfer, the helper, the file system). A policy that every
  handler keeps is one the daemon keeps.
\<close>

subsection \<open>The effect of an await\<close>

text \<open>The leases and the vault, with the approvals made so far.\<close>

type_synonym shared = "lease_world \<times> approval list"

definition later_history :: "approval list \<Rightarrow> shared \<Rightarrow> bool" where
  "later_history H s \<longleftrightarrow> lease_reachable (fst s) (snd s) \<and> set H \<subseteq> set (snd s)"

definition caller_chain :: "nat \<Rightarrow> ancestor_info list \<Rightarrow> bool" where
  "caller_chain pid chain \<longleftrightarrow> (\<exists>T. ancestry_chain T pid = Some chain)"

primrec endpoint_of :: "(host_config \<Rightarrow> string \<times> nat) \<Rightarrow> ssh_error + resolved_host \<Rightarrow> ssh_error + string \<times> nat" where
  "endpoint_of f (Inl e) = Inl e"
| "endpoint_of f (Inr h) = Inr (f (rh_config h))"

text \<open>The operations that neither read nor change leases and vault.\<close>

primrec external :: "daemon_op \<Rightarrow> bool" where
  "external (Respond _) = True"
| "external (Record _) = True"
| "external (Gate _ _ _) = False"
| "external (Run_Op _) = True"
| "external (Peek_Op _) = True"
| "external (Unit_Op _) = True"
| "external (Open_Op _) = True"
| "external (Forward_Op _) = True"
| "external (Timed_Op _) = True"
| "external Upload = True"
| "external Download = True"
| "external (Sessions _) = True"
| "external Forwards = True"
| "external (StopForward _) = True"
| "external Leases = False"
| "external (Ask _ _) = False"
| "external (Describe _) = False"
| "external (ApproveAgent _ _) = False"
| "external (ApproveHuman _ _ _ _) = False"
| "external (ApproveNative _ _ _) = False"
| "external (PreviewNative _ _) = False"
| "external DiscardPreview = False"
| "external (Expand _ _) = False"
| "external (Endpoint _) = False"
| "external (KeyEndpoint _) = False"
| "external (KnownKey _ _) = True"
| "external (AgentScope _) = False"
| "external VaultPresent = False"
| "external (VaultOp _) = False"
| "external (VaultList _) = False"
| "external HelperSpawn = True"
| "external (HelperExchange _) = True"
| "external HelperFinish = True"
| "external PinStatusOp = True"
| "external (PinVerifyOp _) = True"

text \<open>
  \<open>others\<close> is what the rest of the daemon does while the operation has released the lease lock;
  the vault's random and clock inputs are those of the operation.
\<close>

inductive performs :: "lease_env \<Rightarrow> ancestor_info list \<Rightarrow> daemon_op \<Rightarrow> answer \<Rightarrow> shared \<Rightarrow> shared \<Rightarrow> bool" where
  gate:
    "\<lbrakk> caller_chain pid chain; le_bypass E' = le_bypass E;
       later_history H (others (prune_expired E w), H');
       resolve_grant_for_chain E others E' chain host token True w = (g, w') \<rbrakk>
     \<Longrightarrow> performs E chain (Gate pid host token) (AGrant g) (w, H) (w', H')"
| leases: "list_summaries E w = (ls, w') \<Longrightarrow> performs E chain Leases (ALeases ls) (w, H) (w', H)"
| ask:
    "\<lbrakk> caller_chain pid chain; request_lease_for_chain E draws (if le_bypass E then [] else chain) hosts w = Some (r, w') \<rbrakk>
     \<Longrightarrow> performs E chain (Ask pid hosts) (AAsked r) (w, H) (w', H)"
| describe: "describe_pending E i w = (r, w') \<Longrightarrow> performs E chain (Describe i) (ASummary r) (w, H) (w', H)"
| agent_refused:
    "\<lbrakk> later_history H (others (prune_expired E w), H');
       approve_lease_system_agent E others E' token i expected w = (r, w'); \<And>info. r \<noteq> Inr (Activated info) \<rbrakk>
     \<Longrightarrow> performs E chain (ApproveAgent i expected) (AAgent r) (w, H) (w', H')"
| agent_approved:
    "\<lbrakk> later_history H (others (prune_expired E w), H');
       approve_lease_system_agent E others E' token i expected w = (Inr (Activated info), w') \<rbrakk>
     \<Longrightarrow> performs E chain (ApproveAgent i expected) (AAgent (Inr (Activated info))) (w, H)
           (w', agent_record E' i (others (prune_expired E w)) w' # H')"
| human_refused:
    "\<lbrakk> caller_chain pid chain; approve_lease E token chain i password hosts w = (Inl e, w') \<rbrakk>
     \<Longrightarrow> performs E chain (ApproveHuman pid i password hosts) (AActivated (Inl e)) (w, H) (w', H)"
| human_approved:
    "\<lbrakk> caller_chain pid chain; approve_lease E token chain i password hosts w = (Inr info, w') \<rbrakk>
     \<Longrightarrow> performs E chain (ApproveHuman pid i password hosts) (AActivated (Inr info)) (w, H)
           (w', human_record E chain i password True w w' # H)"
| native_refused:
    "approve_lease_native E token i password hosts w = (Inl e, w')
     \<Longrightarrow> performs E chain (ApproveNative i password hosts) (AActivated (Inl e)) (w, H) (w', H)"
| native_approved:
    "approve_lease_native E token i password hosts w = (Inr info, w')
     \<Longrightarrow> performs E chain (ApproveNative i password hosts) (AActivated (Inr info)) (w, H)
           (w', human_record E [] i password False w w' # H)"
| preview:
    "\<lbrakk> \<And>v. later_history H (others ((prune_expired E w)\<lparr>lw_vault := v\<rparr>), H');
       preview_native_approval E others E' i password w = (r, w') \<rbrakk>
     \<Longrightarrow> performs E chain (PreviewNative i password) (APreview r) (w, H) (w', H')"
| discard: "performs E chain DiscardPreview ADone (w, H) (discard_native_preview w, H)"
| expand_strict: "performs E chain (Expand True hosts) (AExpanded (expand_lease_hosts (lease_resolver E w) hosts)) (w, H) (w, H)"
| expand_request:
    "performs E chain (Expand False hosts) (AExpanded (expand_lease_hosts_for_request (lease_resolver E w) hosts)) (w, H) (w, H)"
| endpoint:
    "performs E chain (Endpoint host)
       (AEndpoint (endpoint_of (\<lambda>c. (hc_hostname c, hc_port c)) (lease_resolver E w host))) (w, H) (w, H)"
| key_endpoint:
    "performs E chain (KeyEndpoint host) (AEndpoint (endpoint_of known_host_endpoint (lease_resolver E w host))) (w, H) (w, H)"
| agent_scope:
    "performs E chain (AgentScope hosts)
       (AScope (case lease_scope_agent_only E w hosts of Inl e \<Rightarrow> Inl (SshConfig e) | Inr b \<Rightarrow> Inr b)) (w, H) (w, H)"
| vault_present: "performs E chain VaultPresent (AFlag (lease_vault_exists w)) (w, H) (w, H)"
| vault_op:
    "run_request (re_vault_ext (le_route E)) (le_idle E) (re_vault_io (le_route E)) (le_bypass E) c (lw_vault w) = (r, v)
     \<Longrightarrow> performs E chain (VaultOp c) (AVault r) (w, H) (w\<lparr>lw_vault := v\<rparr>, H)"
| vault_list:
    "list_verified (re_vault_ext (le_route E)) (le_idle E) (re_vault_io (le_route E)) (le_bypass E) password (lw_vault w) = (r, v)
     \<Longrightarrow> performs E chain (VaultList password) (ARows r) (w, H) (w\<lparr>lw_vault := v\<rparr>, H)"
| outside: "\<lbrakk> external c; fits c a \<rbrakk> \<Longrightarrow> performs E chain c a (w, H) (w, H)"

lemma performs_fits: "performs E chain c a s s' \<Longrightarrow> fits c a"
  by (induction rule: performs.induct) simp_all

lemma performs_reachable:
  assumes "performs E chain c a s s'" and "lease_reachable (fst s) (snd s)"
  shows "later_history (snd s) s'"
  using assms
proof (induction rule: performs.induct)
  case (gate pid chain E' E H others w H' host token g w')
  then show ?case
    using lease_reachable.grant[where w=w and H=H and others=others and E=E and H'=H' and E'=E' and chain=chain
        and host=host and lease_token=token and touch=True and r=g and w'=w'] by (simp add: later_history_def)
next
  case (leases E w ls w' chain H)
  then have "w' = prune_expired E w" by (auto simp: list_summaries_def Let_def)
  with leases show ?case using lease_reachable.sweep by (auto simp: later_history_def)
next
  case (ask pid chain E draws hosts w r w' H)
  then show ?case
    using lease_reachable.request[where w=w and H=H and E=E and draws=draws
        and chain="if le_bypass E then [] else chain" and hosts=hosts and r=r and w'=w']
    by (simp add: later_history_def)
next
  case (describe E i w r w' chain H)
  then have "w' = prune_expired E w" by (auto simp: describe_pending_def Let_def)
  with describe show ?case using lease_reachable.sweep by (auto simp: later_history_def)
next
  case (agent_refused H others E w H' E' token i expected r w' chain)
  then show ?case
    using lease_reachable.agent_refused[where w=w and H=H and others=others and E=E and H'=H' and E'=E'
        and token=token and i=i and expected=expected and r=r and w'=w']
    by (simp add: later_history_def)
next
  case (agent_approved H others E w H' E' token i expected info w' chain)
  then show ?case
    using lease_reachable.agent_approved[where w=w and H=H and others=others and E=E and H'=H' and E'=E'
        and token=token and i=i and expected=expected and info=info and w'=w']
    by (auto simp: later_history_def)
next
  case (human_refused pid chain E token i password hosts w e w' H)
  then show ?case
    using lease_reachable.approve_failed[where w=w and H=H and E=E and token=token and chain=chain and i=i
        and password=password and approved="Some hosts" and enforced=True and cleanup=True and e=e and w'=w']
    by (simp add: later_history_def approve_lease_def)
next
  case (human_approved pid chain E token i password hosts w info w' H)
  then show ?case
    using lease_reachable.approved[where w=w and H=H and E=E and token=token and chain=chain and i=i
        and password=password and approved="Some hosts" and enforced=True and cleanup=True and info=info and w'=w']
    by (auto simp: later_history_def approve_lease_def)
next
  case (native_refused E token i password hosts w e w' chain H)
  then show ?case
    using lease_reachable.approve_failed[where w=w and H=H and E=E and token=token and chain="[]" and i=i
        and password=password and approved="Some hosts" and enforced=False and cleanup=False and e=e and w'=w']
    by (simp add: later_history_def approve_lease_native_def)
next
  case (native_approved E token i password hosts w info w' chain H)
  then show ?case
    using lease_reachable.approved[where w=w and H=H and E=E and token=token and chain="[]" and i=i
        and password=password and approved="Some hosts" and enforced=False and cleanup=False and info=info and w'=w']
    by (auto simp: later_history_def approve_lease_native_def)
next
  case (preview H others E w H' E' i password r w' chain)
  then show ?case using lease_reachable.preview[of w H E others E' i password r w' H']
    by (simp add: later_history_def)
next
  case (discard E chain w H)
  then show ?case using lease_reachable.discard by (simp add: later_history_def)
qed (auto simp: later_history_def intro: lease_reachable.vault)

subsection \<open>The connections\<close>

record connection =
  cn_peer :: "nat option"
  cn_negotiated :: bool
  cn_job :: "flow script option"

datatype moment =
    Received "nat option" bool request
  | Performed lease_env "ancestor_info list" daemon_op answer
  | Finished flow

text \<open>The daemon, with a log of what its connections did, newest first.\<close>

record daemon =
  dn_shared :: shared
  dn_conns :: "nat \<Rightarrow> connection option"
  dn_log :: "(nat \<times> moment) list"

definition set_conn :: "nat \<Rightarrow> connection option \<Rightarrow> daemon \<Rightarrow> daemon" where
  "set_conn c x d = d\<lparr>dn_conns := (dn_conns d)(c := x)\<rparr>"

definition log_moment :: "nat \<Rightarrow> moment \<Rightarrow> daemon \<Rightarrow> daemon" where
  "log_moment c m d = d\<lparr>dn_log := (c, m) # dn_log d\<rparr>"

text \<open>
  A connection's peer is looked up once; its requests are served one after the other, and the
  connection may break off at any moment. \<open>elsewhere\<close> is the rest of the daemon: reapers,
  sessions and forwards checking their grants.
\<close>

inductive daemon_step :: "daemon_config \<Rightarrow> daemon \<Rightarrow> daemon \<Rightarrow> bool" for cfg where
  accept:
    "\<lbrakk> dn_conns d c = None; c \<notin> fst ` set (dn_log d) \<rbrakk>
     \<Longrightarrow> daemon_step cfg d (set_conn c (Some \<lparr>cn_peer = peer, cn_negotiated = False, cn_job = None\<rparr>) d)"
| receive:
    "\<lbrakk> dn_conns d c = Some cn; cn_job cn = None \<rbrakk>
     \<Longrightarrow> daemon_step cfg d (log_moment c (Received (cn_peer cn) (cn_negotiated cn) req)
           (set_conn c (Some (cn\<lparr>cn_job := Some (handle_request cfg uptime (cn_peer cn) (cn_negotiated cn) req)\<rparr>)) d))"
| perform:
    "\<lbrakk> dn_conns d c = Some cn; cn_job cn = Some (Await q k); le_bypass E = dm_bypass cfg;
       performs E chain q a (dn_shared d) s \<rbrakk>
     \<Longrightarrow> daemon_step cfg d (log_moment c (Performed E chain q a)
           (set_conn c (Some (cn\<lparr>cn_job := Some (k a)\<rparr>)) (d\<lparr>dn_shared := s\<rparr>)))"
| finish:
    "\<lbrakk> dn_conns d c = Some cn; cn_job cn = Some (Return flow) \<rbrakk>
     \<Longrightarrow> daemon_step cfg d (log_moment c (Finished flow)
           (set_conn c (case flow of KeepGoing n \<Rightarrow> Some (cn\<lparr>cn_negotiated := n, cn_job := None\<rparr>) | Hangup \<Rightarrow> None) d))"
| break_off: "daemon_step cfg d (set_conn c None d)"
| elsewhere: "later_history (snd (dn_shared d)) s \<Longrightarrow> daemon_step cfg d (d\<lparr>dn_shared := s\<rparr>)"

definition daemon_start :: "daemon \<Rightarrow> bool" where
  "daemon_start d \<longleftrightarrow> lw_pending (fst (dn_shared d)) = [] \<and> lw_active (fst (dn_shared d)) = []
     \<and> snd (dn_shared d) = [] \<and> (\<forall>c. dn_conns d c = None) \<and> dn_log d = []"

inductive daemon_reachable :: "daemon_config \<Rightarrow> daemon \<Rightarrow> bool" for cfg where
  start: "daemon_start d \<Longrightarrow> daemon_reachable cfg d"
| step: "daemon_reachable cfg d \<Longrightarrow> daemon_step cfg d d' \<Longrightarrow> daemon_reachable cfg d'"

inductive_cases daemon_stepE: "daemon_step cfg d d'"

lemma daemon_parts [simp]:
  "dn_log (set_conn c x d) = dn_log d" "dn_shared (set_conn c x d) = dn_shared d"
  "dn_conns (set_conn c x d) = (dn_conns d)(c := x)"
  "dn_log (log_moment c m d) = (c, m) # dn_log d" "dn_shared (log_moment c m d) = dn_shared d"
  "dn_conns (log_moment c m d) = dn_conns d"
  by (simp_all add: set_conn_def log_moment_def)

lemma reachable_leases:
  "daemon_reachable cfg d \<Longrightarrow> lease_reachable (fst (dn_shared d)) (snd (dn_shared d))"
proof (induction rule: daemon_reachable.induct)
  case (start d)
  then show ?case using lease_reachable.start[of "fst (dn_shared d)"] by (simp add: daemon_start_def)
next
  case (step d d')
  from step(2) show ?case
    by (cases rule: daemon_stepE) (use step(3) performs_reachable in \<open>fastforce simp: later_history_def\<close>)+
qed

subsection \<open>Policies on scripts\<close>

type_synonym script_trace = "(daemon_op \<times> answer) list"

text \<open>
  Whatever the awaits return, every operation of the script is \<open>P\<close>-allowed after those before it
  (newest first), and it ends, not stuck, in a \<open>Q\<close>-result.
\<close>

primrec safe :: "(script_trace \<Rightarrow> daemon_op \<Rightarrow> bool) \<Rightarrow> (script_trace \<Rightarrow> 'a \<Rightarrow> bool) \<Rightarrow> 'a script \<Rightarrow> script_trace \<Rightarrow> bool" where
  "safe P Q (Return x) = (\<lambda>t. Q t x)"
| "safe P Q (Await c k) = (\<lambda>t. P t c \<and> (\<forall>a. fits c a \<longrightarrow> safe P Q (k a) ((c, a) # t)))"
| "safe P Q Stuck = (\<lambda>t. False)"

lemma safe_bind: "safe P Q (bind_script m f) t \<longleftrightarrow> safe P (\<lambda>t x. safe P Q (f x) t) m t"
  by (induction m arbitrary: t) auto

lemma safe_mono:
  "safe P Q m t \<Longrightarrow> (\<And>t x. Q t x \<Longrightarrow> Q' t x) \<Longrightarrow> safe P Q' m t"
  by (induction m arbitrary: t) auto

named_theorems runs

lemma all_sum: "(\<forall>x. R x) \<longleftrightarrow> (\<forall>e. R (Inl e)) \<and> (\<forall>y. R (Inr y))"
  by (metis sum.exhaust)

lemma all_answers [runs]: "(\<forall>a. (\<exists>x. a = f x) \<longrightarrow> R a) \<longleftrightarrow> (\<forall>x. R (f x))"
  by blast

lemma safe_thens [simp]: "safe P Q (thens m ADone) = safe P Q m"
  by (simp add: thens_def)

lemma safe_respond [runs]:
  "safe P Q (respond r m) t \<longleftrightarrow> P t (Respond r) \<and> safe P Q m ((Respond r, ADone) # t)"
  by (simp add: respond_def)

lemma safe_record [runs]:
  "safe P Q (record_event e m) t \<longleftrightarrow> P t (Record e) \<and> safe P Q m ((Record e, ADone) # t)"
  by (simp add: record_event_def)

lemma safe_gate [runs]:
  "safe P Q (gate pid host token k) t \<longleftrightarrow>
     P t (Gate pid host token) \<and> (\<forall>x. safe P Q (k x) ((Gate pid host token, AGrant x) # t))"
  by (auto simp: gate_def answer.is_AGrant_def)

lemma safe_unit [runs]:
  "safe P Q (unit_op c k) t \<longleftrightarrow> P t (Unit_Op c) \<and> (\<forall>x. safe P Q (k x) ((Unit_Op c, AUnit x) # t))"
  by (auto simp: unit_op_def answer.is_AUnit_def)

lemma safe_timed [runs]:
  "safe P Q (timed_op c k) t \<longleftrightarrow> P t (Timed_Op c) \<and> (\<forall>x. safe P Q (k x) ((Timed_Op c, ATimed x) # t))"
  by (auto simp: timed_op_def answer.is_ATimed_def)

lemma safe_agent [runs]:
  "safe P Q (approve_agent i hs k) t \<longleftrightarrow>
     P t (ApproveAgent i hs) \<and> (\<forall>x. safe P Q (k x) ((ApproveAgent i hs, AAgent x) # t))"
  by (auto simp: approve_agent_def answer.is_AAgent_def)

lemma safe_expand [runs]:
  "safe P Q (expand strict hs k) t \<longleftrightarrow>
     P t (Expand strict hs) \<and> (\<forall>x. safe P Q (k x) ((Expand strict hs, AExpanded x) # t))"
  by (auto simp: expand_def answer.is_AExpanded_def)

lemma safe_vault_op [runs]:
  "safe P Q (vault_op c k) t \<longleftrightarrow> P t (VaultOp c) \<and> (\<forall>x. safe P Q (k x) ((VaultOp c, AVault x) # t))"
  by (auto simp: vault_op_def answer.is_AVault_def)

lemma safe_exchange [runs]:
  "safe P Q (exchange c k) t \<longleftrightarrow> P t (HelperExchange c) \<and> (\<forall>x. safe P Q (k x) ((HelperExchange c, AHelper x) # t))"
  by (auto simp: exchange_def answer.is_AHelper_def)

lemma safe_endpoint [runs]:
  "safe P Q (endpoint (Endpoint h) k) t \<longleftrightarrow> P t (Endpoint h) \<and> (\<forall>x. safe P Q (k x) ((Endpoint h, AEndpoint x) # t))"
  "safe P Q (endpoint (KeyEndpoint h) k) t \<longleftrightarrow>
     P t (KeyEndpoint h) \<and> (\<forall>x. safe P Q (k x) ((KeyEndpoint h, AEndpoint x) # t))"
  by (auto simp: endpoint_def answer.is_AEndpoint_def)

lemma safe_flag [runs]:
  "safe P Q (flag (KnownKey h p) k) t \<longleftrightarrow> P t (KnownKey h p) \<and> (\<forall>x. safe P Q (k x) ((KnownKey h p, AFlag x) # t))"
  "safe P Q (flag VaultPresent k) t \<longleftrightarrow> P t VaultPresent \<and> (\<forall>x. safe P Q (k x) ((VaultPresent, AFlag x) # t))"
  by (auto simp: flag_def answer.is_AFlag_def)

lemma safe_helper [runs]:
  "safe P Q (helper_done HelperSpawn k) t \<longleftrightarrow>
     P t HelperSpawn \<and> (\<forall>x. safe P Q (k x) ((HelperSpawn, AHelperDone x) # t))"
  "safe P Q (helper_done HelperFinish k) t \<longleftrightarrow>
     P t HelperFinish \<and> (\<forall>x. safe P Q (k x) ((HelperFinish, AHelperDone x) # t))"
  by (auto simp: helper_done_def answer.is_AHelperDone_def)

lemma safe_activation [runs]:
  "safe P Q (activation (ApproveHuman p i pw hs) k) t \<longleftrightarrow>
     P t (ApproveHuman p i pw hs) \<and> (\<forall>x. safe P Q (k x) ((ApproveHuman p i pw hs, AActivated x) # t))"
  "safe P Q (activation (ApproveNative i pw hs) k) t \<longleftrightarrow>
     P t (ApproveNative i pw hs) \<and> (\<forall>x. safe P Q (k x) ((ApproveNative i pw hs, AActivated x) # t))"
  by (auto simp: activation_def answer.is_AActivated_def)

lemma safe_attempt [runs]:
  "safe P Q (attempt conv k r) t \<longleftrightarrow>
     (\<forall>e. r = Inl e \<longrightarrow> Q t (Inl (conv e))) \<and> (\<forall>x. r = Inr x \<longrightarrow> safe P Q (k x) t)"
  by (cases r) (simp_all add: attempt_def)

subsection \<open>From scripts to the daemon\<close>

text \<open>The request a connection is serving, and what has been awaited for it so far.\<close>

fun serving :: "nat \<Rightarrow> (nat \<times> moment) list \<Rightarrow> (nat option \<times> bool \<times> request) option" where
  "serving c [] = None"
| "serving c ((c', m) # l) =
     (if c' = c then (case m of Received peer negotiated req \<Rightarrow> Some (peer, negotiated, req) | _ \<Rightarrow> serving c l)
      else serving c l)"

fun so_far :: "nat \<Rightarrow> (nat \<times> moment) list \<Rightarrow> script_trace" where
  "so_far c [] = []"
| "so_far c ((c', m) # l) =
     (if c' = c then (case m of Received _ _ _ \<Rightarrow> [] | Performed _ _ q a \<Rightarrow> (q, a) # so_far c l | Finished _ \<Rightarrow> so_far c l)
      else so_far c l)"

text \<open>
  A policy is what the handlers keep whatever their awaits return; the daemon then keeps it too,
  with any number of connections interleaved.
\<close>

locale handler_policy =
  fixes allowed :: "daemon_config \<Rightarrow> nat option \<Rightarrow> bool \<Rightarrow> request \<Rightarrow> script_trace \<Rightarrow> daemon_op \<Rightarrow> bool"
    and final :: "daemon_config \<Rightarrow> nat option \<Rightarrow> bool \<Rightarrow> request \<Rightarrow> script_trace \<Rightarrow> flow \<Rightarrow> bool"
  assumes handlers: "safe (allowed cfg peer negotiated req) (final cfg peer negotiated req)
    (handle_request cfg uptime peer negotiated req) []"
begin

definition job_kept :: "daemon_config \<Rightarrow> daemon \<Rightarrow> bool" where
  "job_kept cfg d \<longleftrightarrow> (\<forall>c cn s. dn_conns d c = Some cn \<longrightarrow> cn_job cn = Some s \<longrightarrow>
     (\<exists>req. serving c (dn_log d) = Some (cn_peer cn, cn_negotiated cn, req)
        \<and> safe (allowed cfg (cn_peer cn) (cn_negotiated cn) req) (final cfg (cn_peer cn) (cn_negotiated cn) req)
            s (so_far c (dn_log d))))"

definition moment_kept :: "daemon_config \<Rightarrow> nat \<Rightarrow> moment \<Rightarrow> (nat \<times> moment) list \<Rightarrow> bool" where
  "moment_kept cfg c m l = (case m of
     Received _ _ _ \<Rightarrow> True
   | Performed E _ q _ \<Rightarrow> le_bypass E = dm_bypass cfg
       \<and> (\<exists>peer negotiated req. serving c l = Some (peer, negotiated, req) \<and> allowed cfg peer negotiated req (so_far c l) q)
   | Finished flow \<Rightarrow> (\<exists>peer negotiated req.
       serving c l = Some (peer, negotiated, req) \<and> final cfg peer negotiated req (so_far c l) flow))"

lemma job_kept_other:
  "\<lbrakk> job_kept cfg d; dn_log d' = dn_log d; \<And>c' cn. dn_conns d' c' = Some cn \<Longrightarrow> dn_conns d c' = Some cn \<or> cn_job cn = None \<rbrakk>
   \<Longrightarrow> job_kept cfg d'"
  unfolding job_kept_def by (metis option.distinct(1))

lemma reachable_kept:
  "daemon_reachable cfg d \<Longrightarrow>
     job_kept cfg d \<and> (\<forall>newer c m older. dn_log d = newer @ (c, m) # older \<longrightarrow> moment_kept cfg c m older)"
proof (induction rule: daemon_reachable.induct)
  case (start d)
  then show ?case by (simp add: daemon_start_def job_kept_def)
next
  case (step d d')
  note jobs = step(3)[THEN conjunct1] and log = step(3)[THEN conjunct2]
  have cons: "\<forall>newer c' m' older. (c, m) # dn_log d = newer @ (c', m') # older \<longrightarrow> moment_kept cfg c' m' older"
    if "moment_kept cfg c m (dn_log d)" for c m
    using log that by (auto simp: Cons_eq_append_conv)
  from step(2) show ?case
  proof (cases rule: daemon_step.cases)
    case (accept c peer)
    have "job_kept cfg d'" by (rule job_kept_other[OF jobs]) (auto simp: accept(1) split: if_splits)
    then show ?thesis using log accept(1) by simp
  next
    case (receive c cn req uptime)
    have "job_kept cfg d'"
      using jobs handlers receive(2) unfolding job_kept_def receive(1) by (auto split: if_splits)
    moreover have "moment_kept cfg c (Received (cn_peer cn) (cn_negotiated cn) req) (dn_log d)"
      by (simp add: moment_kept_def)
    ultimately show ?thesis using cons receive(1) by simp
  next
    case (perform c cn q k E chain a s)
    obtain req where req: "serving c (dn_log d) = Some (cn_peer cn, cn_negotiated cn, req)"
      "safe (allowed cfg (cn_peer cn) (cn_negotiated cn) req) (final cfg (cn_peer cn) (cn_negotiated cn) req)
         (Await q k) (so_far c (dn_log d))"
      using jobs perform(2,3) unfolding job_kept_def by blast
    have "job_kept cfg d'"
      using jobs req performs_fits[OF perform(5)] unfolding job_kept_def perform(1) by (auto split: if_splits)
    moreover have "moment_kept cfg c (Performed E chain q a) (dn_log d)"
      using req perform(4) by (simp add: moment_kept_def)
    ultimately show ?thesis using cons perform(1) by simp
  next
    case (finish c cn flow)
    obtain req where req: "serving c (dn_log d) = Some (cn_peer cn, cn_negotiated cn, req)"
      "final cfg (cn_peer cn) (cn_negotiated cn) req (so_far c (dn_log d)) flow"
      using jobs finish(2,3) unfolding job_kept_def by fastforce
    have "job_kept cfg d'"
      using jobs unfolding job_kept_def finish(1) by (auto split: if_splits flow.splits)
    moreover have "moment_kept cfg c (Finished flow) (dn_log d)"
      using req by (simp add: moment_kept_def)
    ultimately show ?thesis using cons finish(1) by simp
  next
    case (break_off c)
    have "job_kept cfg d'" by (rule job_kept_other[OF jobs]) (auto simp: break_off(1) split: if_splits)
    then show ?thesis using log break_off(1) by simp
  next
    case (elsewhere s)
    have "job_kept cfg d'" by (rule job_kept_other[OF jobs]) (auto simp: elsewhere(1))
    then show ?thesis using log elsewhere(1) by simp
  qed
qed

lemma performed_allowed:
  assumes "daemon_reachable cfg d" and "dn_log d = newer @ (c, Performed E chain q a) # older"
  obtains peer negotiated req where "serving c older = Some (peer, negotiated, req)"
    "allowed cfg peer negotiated req (so_far c older) q" "le_bypass E = dm_bypass cfg"
proof -
  have "moment_kept cfg c (Performed E chain q a) older" using reachable_kept[OF assms(1)] assms(2) by blast
  then show ?thesis using that by (auto simp: moment_kept_def)
qed

lemma finished_final:
  assumes "daemon_reachable cfg d" and "dn_log d = newer @ (c, Finished flow) # older"
  obtains peer negotiated req where "serving c older = Some (peer, negotiated, req)"
    "final cfg peer negotiated req (so_far c older) flow"
proof -
  have "moment_kept cfg c (Finished flow) older" using reachable_kept[OF assms(1)] assms(2) by blast
  then show ?thesis using that by (auto simp: moment_kept_def)
qed

end

subsection \<open>Scripts of a sublanguage\<close>

text \<open>A script that only awaits \<open>N\<close>-operations is safe wherever those may come in any number.\<close>

definition made_of :: "(daemon_op \<Rightarrow> bool) \<Rightarrow> 'a script \<Rightarrow> bool" where
  "made_of N m \<longleftrightarrow> (\<forall>t. safe (\<lambda>_ q. N q) (\<lambda>_ _. True) m t)"

abbreviation all_ops :: "(daemon_op \<Rightarrow> bool) \<Rightarrow> script_trace \<Rightarrow> bool" where
  "all_ops N t \<equiv> list_all (\<lambda>x. N (fst x)) t"

lemma safe_made_of:
  assumes "made_of N m"
    and "\<And>new q. all_ops N new \<Longrightarrow> N q \<Longrightarrow> P (new @ t) q"
    and "\<And>new x. all_ops N new \<Longrightarrow> Q (new @ t) x"
  shows "safe P Q m t"
proof -
  have "safe (\<lambda>_ q. N q) (\<lambda>_ _. True) m t \<Longrightarrow>
      (\<And>new q. all_ops N new \<Longrightarrow> N q \<Longrightarrow> P (new @ t) q) \<Longrightarrow>
      (\<And>new x. all_ops N new \<Longrightarrow> Q (new @ t) x) \<Longrightarrow> safe P Q m t"
  proof (induction m arbitrary: t)
    case (Return x)
    then show ?case using Return(3)[of "[]"] by simp
  next
    case (Await q k)
    have q: "P t q" using Await.prems(1) Await.prems(2)[of "[]" q] by simp
    have "safe P Q (k a) ((q, a) # t)" if a: "fits q a" for a
    proof (rule Await.IH)
      show "safe (\<lambda>_. N) (\<lambda>_ _. True) (k a) ((q, a) # t)" using Await.prems(1) a by simp
      fix new assume new: "all_ops N new"
      have N: "N q" using Await.prems(1) by simp
      show "P (new @ (q, a) # t) q'" if "N q'" for q'
        using Await.prems(2)[of "new @ [(q, a)]" q'] new N that by simp
      show "Q (new @ (q, a) # t) x" for x
        using Await.prems(3)[of "new @ [(q, a)]" x] new N by simp
    qed simp
    with q show ?case by simp
  qed simp
  then show ?thesis using assms unfolding made_of_def by blast
qed

text \<open>The operations of native approval and enrollment.\<close>

primrec prompting :: "daemon_op \<Rightarrow> bool" where
  "prompting (Respond _) = False"
| "prompting (Record _) = False"
| "prompting (Gate _ _ _) = False"
| "prompting (Run_Op _) = False"
| "prompting (Peek_Op _) = False"
| "prompting (Unit_Op _) = False"
| "prompting (Open_Op _) = False"
| "prompting (Forward_Op _) = False"
| "prompting (Timed_Op _) = False"
| "prompting Upload = False"
| "prompting Download = False"
| "prompting (Sessions _) = False"
| "prompting Forwards = False"
| "prompting (StopForward _) = False"
| "prompting Leases = False"
| "prompting (Ask _ _) = False"
| "prompting (Describe _) = False"
| "prompting (ApproveAgent _ _) = True"
| "prompting (ApproveHuman _ _ _ _) = False"
| "prompting (ApproveNative _ _ _) = True"
| "prompting (PreviewNative _ _) = True"
| "prompting DiscardPreview = True"
| "prompting (Expand _ _) = False"
| "prompting (Endpoint _) = True"
| "prompting (KeyEndpoint _) = True"
| "prompting (KnownKey _ _) = True"
| "prompting (AgentScope _) = True"
| "prompting VaultPresent = False"
| "prompting (VaultOp _) = False"
| "prompting (VaultList _) = False"
| "prompting HelperSpawn = True"
| "prompting (HelperExchange _) = True"
| "prompting HelperFinish = True"
| "prompting PinStatusOp = True"
| "prompting (PinVerifyOp _) = True"

lemma safe_converse [runs]:
  "safe P Q (converse c expected) t \<longleftrightarrow>
     P t HelperSpawn
     \<and> (\<forall>e. Q ((HelperSpawn, AHelperDone (Inl e)) # t) (Inl e))
     \<and> (let t1 = (HelperSpawn, AHelperDone (Inr ())) # t in
        P t1 (HelperExchange c)
        \<and> (\<forall>e. Q ((HelperExchange c, AHelper (Inl e)) # t1) (Inl e))
        \<and> (\<forall>r. let t2 = (HelperExchange c, AHelper (Inr r)) # t1 in
             (expected r = None \<longrightarrow> Q t2 (Inl (unexpected r)))
             \<and> (\<forall>x. expected r = Some x \<longrightarrow> P t2 HelperFinish
                  \<and> (\<forall>e. Q ((HelperFinish, AHelperDone (Inl e)) # t2) (Inl e))
                  \<and> Q ((HelperFinish, AHelperDone (Inr ())) # t2) (Inr x))))"
  by (auto simp: converse_def runs Let_def split: option.splits)

lemma made_of_prompts:
  "made_of prompting (prompt_ssh_password label)"
  "made_of prompting (prompt_master_password purpose confirm)"
  "made_of prompting unlock_from_keychain"
  by (simp_all add: made_of_def runs prompt_ssh_password_def prompt_master_password_def unlock_from_keychain_def Let_def)

lemma safe_prompting_keys:
  "(\<And>t. safe (\<lambda>_. prompting) (\<lambda>_ _. True) m t) \<Longrightarrow> safe (\<lambda>_. prompting) (\<lambda>_ _. True) (check_host_keys trust hosts m) t"
  by (induction hosts arbitrary: t) (auto simp: runs)

lemma safe_verify_pin [runs]:
  "safe P Q (verify_pin pin) t \<longleftrightarrow>
     P t (PinVerifyOp pin)
     \<and> (\<forall>e. Q ((PinVerifyOp pin, APinVerify (Inl e)) # t) (Inl (NativePin e)))
     \<and> (\<forall>v. Q ((PinVerifyOp pin, APinVerify (Inr v)) # t) (pin_outcome v))"
  by (simp add: verify_pin_def answer.is_APinVerify_def runs all_sum)

lemma made_of_try_approve: "made_of prompting (try_approve info trust)"
proof -
  have confirm: "safe (\<lambda>_. prompting) (\<lambda>_ _. True) (confirm_human i pw hs) t" for i pw hs t
    by (auto simp: confirm_human_def confirmed_def activate_native_def runs safe_bind answer.is_APinStatus_def
        split: helper_response.splits)
  have agent: "safe (\<lambda>_. prompting) (\<lambda>_ _. True) (complete_system_agent i hs) t" for i hs t
    by (auto simp: complete_system_agent_def runs split: helper_response.splits system_agent_outcome.splits)
  have "safe (\<lambda>_. prompting) (\<lambda>_ _. True) (finish_native_approval info pw trust) t" for pw t
    by (auto simp: finish_native_approval_def runs answer.is_APreview_def answer.is_AScope_def confirm agent
        intro!: safe_prompting_keys)
  then show ?thesis
    by (auto simp: made_of_def try_approve_def runs safe_bind split: option.splits sum.splits)
qed

subsection \<open>A concrete daemon\<close>

text \<open>A daemon with one connection, for concrete runs.\<close>

definition demo_config :: daemon_config where
  "demo_config = \<lparr>dm_bypass = False, dm_pid = 1, dm_version = ''0'', dm_purpose = (\<lambda>_ _ _ _ _ _. [])\<rparr>"

definition demo_daemon :: "shared \<Rightarrow> flow script option \<Rightarrow> bool \<Rightarrow> (nat \<times> moment) list \<Rightarrow> daemon" where
  "demo_daemon s job negotiated l =
     \<lparr>dn_shared = s,
      dn_conns = (\<lambda>_. None)(0 := Some \<lparr>cn_peer = Some 30, cn_negotiated = negotiated, cn_job = job\<rparr>), dn_log = l\<rparr>"

lemma demo_caller: "caller_chain 30 demo_chain"
proof -
  have "ancestry_chain demo_processes 30 = Some demo_chain" by code_simp
  then show ?thesis by (auto simp: caller_chain_def)
qed

lemma demo_accepted:
  assumes "lease_reachable w H"
  shows "daemon_reachable demo_config (demo_daemon (w, H) None False [])"
proof -
  let ?d = "\<lparr>dn_shared = (demo_idle_world, []), dn_conns = (\<lambda>_. None), dn_log = []\<rparr> :: daemon"
  have "daemon_reachable demo_config ?d"
    by (rule daemon_reachable.start) (simp add: daemon_start_def demo_idle_world_def)
  then have "daemon_reachable demo_config (?d\<lparr>dn_shared := (w, H)\<rparr>)"
    by (rule daemon_reachable.step) (rule daemon_step.elsewhere, simp add: later_history_def assms)
  then have "daemon_reachable demo_config (set_conn 0 (Some \<lparr>cn_peer = Some 30, cn_negotiated = False, cn_job = None\<rparr>)
      (?d\<lparr>dn_shared := (w, H)\<rparr>))"
    by (rule daemon_reachable.step) (rule daemon_step.accept, simp_all)
  then show ?thesis by (simp add: set_conn_def demo_daemon_def)
qed

lemma demo_received:
  assumes "daemon_reachable demo_config (demo_daemon s None n l)"
  shows "daemon_reachable demo_config
    (demo_daemon s (Some (handle_request demo_config 0 (Some 30) n req)) n ((0, Received (Some 30) n req) # l))"
  using daemon_reachable.step[OF assms daemon_step.receive[where c = 0 and uptime = 0 and req = req]]
  by (simp add: demo_daemon_def set_conn_def log_moment_def)

lemma demo_performed:
  assumes "daemon_reachable demo_config (demo_daemon s (Some (Await q k)) n l)"
    and "performs E chain q a s s'" and "\<not> le_bypass E"
  shows "daemon_reachable demo_config (demo_daemon s' (Some (k a)) n ((0, Performed E chain q a) # l))"
proof -
  let ?cn = "\<lparr>cn_peer = Some 30, cn_negotiated = n, cn_job = Some (Await q k)\<rparr>"
  have bypass: "le_bypass E = dm_bypass demo_config" using assms(3) by (simp add: demo_config_def)
  have "daemon_step demo_config (demo_daemon s (Some (Await q k)) n l)
      (log_moment 0 (Performed E chain q a)
        (set_conn 0 (Some (?cn\<lparr>cn_job := Some (k a)\<rparr>)) (demo_daemon s (Some (Await q k)) n l\<lparr>dn_shared := s'\<rparr>)))"
    by (rule daemon_step.perform[OF _ _ bypass]) (use assms(2) in \<open>simp_all add: demo_daemon_def\<close>)
  from daemon_reachable.step[OF assms(1) this] show ?thesis
    by (simp add: demo_daemon_def set_conn_def log_moment_def)
qed

lemma demo_outside:
  assumes "daemon_reachable demo_config (demo_daemon s (Some (Await q k)) n l)" and "external q" and "fits q a"
  shows "daemon_reachable demo_config
    (demo_daemon s (Some (k a)) n ((0, Performed demo_lease_env demo_chain q a) # l))"
  using demo_performed[OF assms(1) performs.outside[OF assms(2,3), of demo_lease_env demo_chain "fst s" "snd s", simplified]]
  by (simp add: demo_worlds)

lemma demo_finished:
  assumes "daemon_reachable demo_config (demo_daemon s (Some (Return (KeepGoing m))) n l)"
  shows "daemon_reachable demo_config (demo_daemon s None m ((0, Finished (KeepGoing m)) # l))"
  using daemon_reachable.step[OF assms daemon_step.finish[where c = 0 and flow = "KeepGoing m"]]
  by (simp add: demo_daemon_def set_conn_def log_moment_def)

text \<open>The handshake.\<close>

definition demo_hello :: "(nat \<times> moment) list" where
  "demo_hello =
     [(0, Finished (KeepGoing True)),
      (0, Performed demo_lease_env demo_chain (Respond (ProtocolReady 5)) ADone),
      (0, Received (Some 30) False (Hello 5))]"

lemma demo_negotiated:
  assumes "lease_reachable w H"
  shows "daemon_reachable demo_config (demo_daemon (w, H) None True demo_hello)"
proof -
  from demo_received[OF demo_accepted[OF assms], of "Hello 5"]
  have "daemon_reachable demo_config (demo_daemon (w, H)
      (Some (Await (Respond (ProtocolReady 5)) (thens (Return (KeepGoing True))))) False [(0, Received (Some 30) False (Hello 5))])"
    by (simp add: handle_request_def handle_hello_def WIRE_PROTOCOL_VERSION_def respond_def)
  from demo_outside[OF this, of ADone]
  have "daemon_reachable demo_config (demo_daemon (w, H) (Some (Return (KeepGoing True))) False (tl demo_hello))"
    by (simp add: thens_def demo_hello_def)
  from demo_finished[OF this] show ?thesis by (simp add: demo_hello_def)
qed

end
