(* ===== verification/Dispatch_Safety.thy ===== *)
theory Dispatch_Safety
  imports Dispatch_Steps
begin

text \<open>
  The daemon's authorization, end to end (\<open>src/src/daemon/mod.rs\<close>): whatever the interleaving, a
  host is only touched under a grant resolved for that host and caller in the same request,
  after a handshake.
\<close>

subsection \<open>Hosts are touched under a grant\<close>

fun touched :: "daemon_op \<Rightarrow> host_op option" where
  "touched (Run_Op h) = Some h"
| "touched (Peek_Op h) = Some h"
| "touched (Unit_Op h) = Some h"
| "touched (Open_Op h) = Some h"
| "touched (Forward_Op h) = Some h"
| "touched (Timed_Op h) = Some h"
| "touched _ = None"

fun request_hosts :: "request \<Rightarrow> string list" where
  "request_hosts (Run host _ _ _ _ _) = [host]"
| "request_hosts (Peek host _ _ _ _) = [host]"
| "request_hosts (Send host _ _ _ _) = [host]"
| "request_hosts (Interrupt host _ _) = [host]"
| "request_hosts (Open host _ _) = [host]"
| "request_hosts (Kill host _ _) = [host]"
| "request_hosts (TestConnection host _) = [host]"
| "request_hosts (Put host _ _ _ _) = [host]"
| "request_hosts (Get host _ _ _ _) = [host]"
| "request_hosts (ForwardReq host _ _) = [host]"
| "request_hosts (RequestLeaseTrustNew hosts) = hosts"
| "request_hosts _ = []"

fun request_token :: "request \<Rightarrow> string option" where
  "request_token (Run _ _ _ _ _ token) = token"
| "request_token (Peek _ _ _ _ token) = token"
| "request_token (Send _ _ _ _ token) = token"
| "request_token (Interrupt _ _ token) = token"
| "request_token (Open _ _ token) = token"
| "request_token (Kill _ _ token) = token"
| "request_token (TestConnection _ token) = token"
| "request_token (Put _ _ _ _ token) = token"
| "request_token (Get _ _ _ _ token) = token"
| "request_token (ForwardReq _ _ token) = token"
| "request_token _ = None"

fun trusts_new_hosts :: "request \<Rightarrow> bool" where
  "trusts_new_hosts (RequestLeaseTrustNew _) = True"
| "trusts_new_hosts _ = False"

definition under_grant ::
  "daemon_config \<Rightarrow> nat option \<Rightarrow> bool \<Rightarrow> request \<Rightarrow> script_trace \<Rightarrow> daemon_op \<Rightarrow> bool" where
  "under_grant cfg peer negotiated req t q \<longleftrightarrow>
     (\<forall>h. touched q = Some h \<longrightarrow> negotiated \<and> op_host h \<in> set (request_hosts req)
        \<and> (\<exists>pid g. peer = Some pid \<and> (Gate pid (op_host h) (request_token req), AGrant (Some g)) \<in> set t
             \<and> (\<forall>ctx. op_context h = Some ctx \<longrightarrow>
                  ctx = context_of peer (request_token req) (requires_system_agent g) (trusts_new_hosts req))))"

lemma untouched: "touched q = None \<Longrightarrow> under_grant cfg peer negotiated req t q"
  by (simp add: under_grant_def)

lemma prompting_untouched: "prompting q \<Longrightarrow> touched q = None"
  by (cases q) simp_all

lemma made_of_granted:
  "made_of prompting m \<Longrightarrow> (\<And>t x. Q t x) \<Longrightarrow> safe (under_grant cfg peer negotiated req) Q m t"
  by (rule safe_made_of[where N = prompting]) (auto intro: untouched prompting_untouched)

lemma granted_trust_hosts:
  "set hosts \<subseteq> set all \<Longrightarrow>
     safe (under_grant cfg (Some pid) True (RequestLeaseTrustNew all)) (\<lambda>_ f. f = KeepGoing True) (trust_hosts pid hosts) t"
proof (induction hosts arbitrary: t)
  case (Cons host hosts)
  then show ?case
    by (auto simp: require_lease_def reply_def runs untouched under_grant_def
        split: option.splits timed.splits sum.splits)
qed (simp add: reply_def runs untouched)

definition lease_request :: "bool \<Rightarrow> string list \<Rightarrow> request" where
  "lease_request trust hosts = (if trust then RequestLeaseTrustNew hosts else RequestLease hosts)"

lemma granted_finish:
  "safe (under_grant cfg (Some pid) True (lease_request trust hosts)) (\<lambda>_ f. f = KeepGoing True)
     (finish_request pid trust hosts resp) t"
  by (simp add: finish_request_def lease_request_def reply_def runs untouched granted_trust_hosts)

lemma granted_native:
  "safe (under_grant cfg (Some pid) True (lease_request trust hosts)) (\<lambda>_ f. f = KeepGoing True)
     (native_or_pending pid trust hosts info) t"
  unfolding native_or_pending_def safe_bind
  by (rule made_of_granted[OF made_of_try_approve])
    (auto simp: runs untouched intro: granted_finish split: sum.splits native_outcome.splits)

lemma granted_decide:
  "safe (under_grant cfg (Some pid) True (lease_request trust hosts)) (\<lambda>_ f. f = KeepGoing True)
     (decide_request pid trust hosts outcome) t"
  by (auto simp: decide_request_def runs untouched
      split: request_outcome.splits sum.splits system_agent_outcome.splits intro: granted_finish granted_native)

lemma granted_lease_request:
  "safe (under_grant cfg peer True (lease_request trust hosts)) (\<lambda>_ f. f = KeepGoing True)
     (handle_lease_request cfg peer hosts trust) t"
  by (auto simp: handle_lease_request_def reply_def runs untouched answer.is_AAsked_def
      split: option.splits sum.splits intro: granted_finish granted_decide)

lemma granted_unverified:
  "(\<And>found t. safe (under_grant cfg peer negotiated req) Q (k found) t) \<Longrightarrow>
     safe (under_grant cfg peer negotiated req) Q (unverified hosts found k) t"
  by (induction hosts found k arbitrary: t rule: unverified.induct) (auto simp: runs untouched split: sum.splits)

lemma granted_enroll:
  "safe (under_grant cfg peer negotiated req) (\<lambda>_ f. f = KeepGoing True)
     (handle_enroll cfg' host hostname port user kind key_file route) t"
proof -
  have vault: "safe (under_grant cfg peer negotiated req) (\<lambda>_ f. f = KeepGoing True) (change_vault c) t" for c t
    by (auto simp: change_vault_def reply_def runs untouched split: sum.splits)
  have password: "safe (under_grant cfg peer negotiated req) (\<lambda>_ f. f = KeepGoing True)
      (bind_script (enroll_password cfg' purpose) f) t" if "\<And>t x. safe (under_grant cfg peer negotiated req) (\<lambda>_ f. f = KeepGoing True) (f x) t"
    for purpose f t
    unfolding safe_bind enroll_password_def using that by (simp add: made_of_granted made_of_prompts)
  have auth: "safe (under_grant cfg peer negotiated req) (\<lambda>_ f. f = KeepGoing True)
      (bind_script (enroll_auth host kind key_file) f) t" if "\<And>t x. safe (under_grant cfg peer negotiated req) (\<lambda>_ f. f = KeepGoing True) (f x) t"
    for f t
    using that
    by (auto simp: enroll_auth_def safe_bind runs split: host_auth_kind.splits intro!: made_of_granted made_of_prompts)
  show ?thesis
    unfolding handle_enroll_def
    by (auto simp: runs untouched reply_def split: sum.splits intro!: auth password vault)
qed

text \<open>The handshake flag after a request: what the last \<open>Hello\<close> said.\<close>

definition flag_after :: "request \<Rightarrow> bool \<Rightarrow> bool" where
  "flag_after req negotiated = (case req of Hello v \<Rightarrow> v = WIRE_PROTOCOL_VERSION | _ \<Rightarrow> negotiated)"

definition flag_kept :: "daemon_config \<Rightarrow> nat option \<Rightarrow> bool \<Rightarrow> request \<Rightarrow> script_trace \<Rightarrow> flow \<Rightarrow> bool" where
  "flag_kept cfg peer negotiated req t f \<longleftrightarrow>
     f = Hangup \<or> f = KeepGoing (flag_after req negotiated)"

lemma granted_handlers:
  "safe (under_grant cfg peer negotiated req) (flag_kept cfg peer negotiated req)
     (handle_request cfg uptime peer negotiated req) []"
proof (cases "req = Status \<or> (\<exists>v. req = Hello v) \<or> req = Shutdown \<or> \<not> negotiated")
  case True
  then show ?thesis
    by (cases req) (auto simp: handle_request_def handle_status_def handle_hello_def runs untouched flag_kept_def flag_after_def
        answer.is_ASessions_def answer.is_ALeases_def)
next
  case False
  then have neg: "handle_request cfg uptime peer negotiated req = handle_negotiated cfg peer req"
    and "negotiated" and flag: "flag_kept cfg peer negotiated req = (\<lambda>t f. f = Hangup \<or> f = KeepGoing True)"
    by (auto simp: handle_request_def flag_kept_def flag_after_def fun_eq_iff split: request.splits)
  note defs = gated_def require_lease_def reply_def reply_unit_def reply_transfer_def runs untouched under_grant_def
    handle_run_def handle_peek_def handle_send_def handle_interrupt_def handle_open_def handle_kill_def handle_put_def
    handle_get_def handle_forward_def handle_test_connection_def handle_describe_def handle_approve_def
    handle_list_hosts_def change_vault_def
    answer.is_ARun_def answer.is_APeek_def answer.is_ASession_def answer.is_AForward_def answer.is_ATransfer_def
    answer.is_ASessions_def answer.is_AForwards_def answer.is_ASummary_def answer.is_ARows_def answer.is_AUnit_def
  note cases = option.splits sum.splits timed.splits
  have "safe (under_grant cfg peer negotiated req) (\<lambda>_ f. f = KeepGoing True) (handle_negotiated cfg peer req) []"
  proof (cases req)
    case (RequestLease hosts)
    then show ?thesis using False granted_lease_request[of cfg peer False hosts] by (simp add: lease_request_def)
  next
    case (RequestLeaseTrustNew hosts)
    then show ?thesis using False granted_lease_request[of cfg peer True hosts] by (simp add: lease_request_def)
  next
    case (EnrollHost host hostname port user kind key_file route)
    then show ?thesis using neg by (simp add: granted_enroll)
  next
    case (ApproveLease i password hosts)
    have "safe (under_grant cfg peer negotiated req) (\<lambda>_ f. f = KeepGoing True) (handle_approve peer i password hosts) []"
      by (auto simp: handle_approve_def reply_def runs untouched split: option.splits sum.splits lease_error.splits
          intro!: granted_unverified)
    then show ?thesis using ApproveLease neg by simp
  qed (use False neg in \<open>auto simp: defs split: cases\<close>)
  then show ?thesis unfolding neg flag by (rule safe_mono) simp
qed

interpretation authority: handler_policy under_grant flag_kept
  by unfold_locales (rule granted_handlers)

subsection \<open>Reading the log\<close>

text \<open>What the connection's last \<open>Hello\<close> said.\<close>

fun agreed :: "nat \<Rightarrow> (nat \<times> moment) list \<Rightarrow> bool" where
  "agreed c [] = False"
| "agreed c ((c', m) # l) =
     (if c' = c then (case m of
          Received _ _ req \<Rightarrow> flag_after req (agreed c l)
        | _ \<Rightarrow> agreed c l)
      else agreed c l)"

definition unbroken :: "nat \<Rightarrow> (nat \<times> moment) list \<Rightarrow> bool" where
  "unbroken c l \<longleftrightarrow> (\<forall>peer negotiated req. (c, Received peer negotiated req) \<notin> set l)"

lemma serving_split:
  "serving c l = Some (peer, negotiated, req) \<Longrightarrow>
     \<exists>gap before. l = gap @ (c, Received peer negotiated req) # before \<and> unbroken c gap"
proof (induction c l rule: serving.induct)
  case (2 c c' m l)
  show ?case
  proof (cases "c' = c \<and> (\<exists>p n r. m = Received p n r)")
    case True
    then show ?thesis using "2.prems" by - (rule exI[of _ "[]"], auto simp: unbroken_def)
  next
    case False
    then obtain gap before where "l = gap @ (c, Received peer negotiated req) # before" "unbroken c gap"
      using 2 by (auto split: if_splits moment.splits)
    then show ?thesis using False
      by - (rule exI[of _ "(c', m) # gap"], auto simp: unbroken_def)
  qed
qed simp

lemma so_far_split:
  "(q, a) \<in> set (so_far c l) \<Longrightarrow>
     \<exists>gap E chain before. l = gap @ (c, Performed E chain q a) # before \<and> unbroken c gap"
proof (induction c l rule: so_far.induct)
  case (2 c c' m l)
  show ?case
  proof (cases "c' = c \<and> (\<exists>E chain. m = Performed E chain q a)")
    case True
    then show ?thesis by - (rule exI[of _ "[]"], auto simp: unbroken_def)
  next
    case False
    then obtain gap E chain before where "l = gap @ (c, Performed E chain q a) # before" "unbroken c gap"
      using 2 by (auto split: if_splits moment.splits)
    moreover have "\<not> (c' = c \<and> (\<exists>p n r. m = Received p n r))" using "2.prems" by auto
    ultimately show ?thesis
      by - (rule exI[of _ "(c', m) # gap"], auto simp: unbroken_def)
  qed
qed simp

lemma agreed_unbroken: "unbroken c gap \<Longrightarrow> agreed c (gap @ l) = agreed c l"
proof (induction gap)
  case (Cons x gap)
  obtain c' m where x: "x = (c', m)" by force
  have "unbroken c gap" using Cons.prems by (auto simp: unbroken_def)
  then show ?case using Cons.IH Cons.prems x by (cases m) (auto simp: unbroken_def)
qed simp

subsection \<open>The handshake\<close>

definition flag_ok :: "(nat \<times> moment) list \<Rightarrow> nat \<Rightarrow> connection \<Rightarrow> bool" where
  "flag_ok l c cn = (case cn_job cn of
     None \<Rightarrow> cn_negotiated cn = agreed c l
   | Some _ \<Rightarrow> (case serving c l of
         None \<Rightarrow> True
       | Some (_, _, req) \<Rightarrow> agreed c l = flag_after req (cn_negotiated cn)))"

definition flags_ok :: "daemon \<Rightarrow> bool" where
  "flags_ok d \<longleftrightarrow> (\<forall>c cn. dn_conns d c = Some cn \<longrightarrow> flag_ok (dn_log d) c cn)"

lemma flag_ok_other [simp]: "c' \<noteq> c \<Longrightarrow> flag_ok ((c', m) # l) c cn = flag_ok l c cn"
  by (simp add: flag_ok_def split: option.split)

lemma flags_update:
  assumes "flags_ok d" and "dn_conns d' = (dn_conns d)(c := x)"
    and "dn_log d' = dn_log d \<or> (\<exists>m. dn_log d' = (c, m) # dn_log d)"
    and "\<And>cn. x = Some cn \<Longrightarrow> flag_ok (dn_log d') c cn"
  shows "flags_ok d'"
  unfolding flags_ok_def
proof (intro allI impI)
  fix c' cn assume cn: "dn_conns d' c' = Some cn"
  show "flag_ok (dn_log d') c' cn"
  proof (cases "c' = c")
    case False
    then have "flag_ok (dn_log d) c' cn" using cn assms(1,2) by (simp add: flags_ok_def)
    then show ?thesis using False assms(3) by auto
  qed (use cn assms(2,4) in simp)
qed

lemma agreed_fresh: "c \<notin> fst ` set l \<Longrightarrow> \<not> agreed c l"
  by (induction c l rule: agreed.induct) auto

lemma reachable_flags: "daemon_reachable cfg d \<Longrightarrow> flags_ok d"
proof (induction rule: daemon_reachable.induct)
  case (start d)
  then show ?case by (simp add: daemon_start_def flags_ok_def)
next
  case (step d d')
  note update = flags_update[OF step(3)]
  have old: "flag_ok (dn_log d) c cn" if "dn_conns d c = Some cn" for c cn
    using step(3) that by (simp add: flags_ok_def)
  from step(2) show ?case
  proof (cases rule: daemon_step.cases)
    case (accept c peer)
    then show ?thesis by (intro update[of d' c]) (auto simp: flag_ok_def agreed_fresh)
  next
    case (receive c cn req uptime)
    then show ?thesis using old[OF receive(2)]
      by (intro update[of d' c]) (auto simp: flag_ok_def)
  next
    case (perform c cn q k E chain a s)
    then show ?thesis using old[OF perform(2)] by (intro update[of d' c]) (auto simp: flag_ok_def split: option.splits)
  next
    case (finish c cn flow)
    obtain req where req: "serving c (dn_log d) = Some (cn_peer cn, cn_negotiated cn, req)"
      "flag_kept cfg (cn_peer cn) (cn_negotiated cn) req (so_far c (dn_log d)) flow"
      using authority.reachable_kept[OF step(1)] finish(2,3) unfolding authority.job_kept_def by fastforce
    have "agreed c (dn_log d) = flag_after req (cn_negotiated cn)"
      using old[OF finish(2)] finish(3) req(1) by (simp add: flag_ok_def)
    then have "\<And>n. flow = KeepGoing n \<Longrightarrow> n = agreed c (dn_log d)"
      using req(2) by (simp add: flag_kept_def)
    then show ?thesis using finish(1) by (intro update[of d' c]) (auto simp: flag_ok_def split: flow.splits)
  next
    case (break_off c)
    then show ?thesis by (intro update[of d' c]) auto
  next
    case (elsewhere s)
    then show ?thesis using step(3) by (simp add: flags_ok_def)
  qed
qed

lemma reachable_received:
  "daemon_reachable cfg d \<Longrightarrow> dn_log d = newer @ (c, Received peer negotiated req) # older \<Longrightarrow>
     negotiated = agreed c older"
proof (induction arbitrary: newer rule: daemon_reachable.induct)
  case (start d)
  then show ?case by (simp add: daemon_start_def)
next
  case (step d d')
  have tl: "negotiated = agreed c older" if "newer = x # newer'" "dn_log d' = x # dn_log d" for x newer'
    using step.IH step.prems that by simp
  from step(2) show ?case
  proof (cases rule: daemon_step.cases)
    case (receive c' cn req' uptime)
    show ?thesis
    proof (cases newer)
      case Nil
      then have "cn_negotiated cn = negotiated" "older = dn_log d" "c' = c" using step.prems receive(1) by simp_all
      moreover have "flag_ok (dn_log d) c' cn" using reachable_flags[OF step(1)] receive(2) by (simp add: flags_ok_def)
      ultimately show ?thesis using receive(3) by (simp add: flag_ok_def)
    qed (use tl receive(1) step.prems in simp)
  next
    case (perform c' cn q k E chain a s)
    then show ?thesis using step.prems tl by (cases newer) simp_all
  next
    case (finish c' cn flow)
    then show ?thesis using step.prems tl by (cases newer) simp_all
  qed (use step.IH step.prems in simp_all)
qed

subsection \<open>Who was let in, and by whom\<close>

text \<open>
  The approval behind a grant to a process: genuine, covering the host, younger than the
  absolute limit, and the process presented its token or descends from its anchor.
\<close>

definition approved_caller ::
  "approval list \<Rightarrow> lease_env \<Rightarrow> ancestor_info list \<Rightarrow> nat \<Rightarrow> string \<Rightarrow> string option \<Rightarrow> lease_grant \<Rightarrow> bool" where
  "approved_caller H E chain pid host token g \<longleftrightarrow>
     caller_chain pid chain
     \<and> (\<exists>ap\<in>set H. genuine ap \<and> host \<in> al_hosts (ap_lease ap)
          \<and> le_now E < al_created_at (ap_lease ap) + MAX_LIFETIME
          \<and> lg_authorization g = al_authorization (ap_lease ap)
          \<and> (token = Some (al_token (ap_lease ap)) \<or> chain_contains_anchor (al_anchor (ap_lease ap)) chain))"

lemma approved_caller_mono: "approved_caller H E chain pid host token g \<Longrightarrow> set H \<subseteq> set H' \<Longrightarrow>
  approved_caller H' E chain pid host token g"
  unfolding approved_caller_def by blast

inductive_cases performs_gateE: "performs E chain (Gate pid host token) a s s'"

lemma gate_approved:
  assumes "performs E chain (Gate pid host token) (AGrant (Some g)) s s'" and "lease_reachable (fst s) (snd s)"
    and "\<not> le_bypass E"
  shows "approved_caller (snd s') E chain pid host token g"
proof -
  from assms(1) obtain E' H' others w' where r: "caller_chain pid chain" "later_history (snd s) (others (prune_expired E (fst s)), H')"
    "resolve_grant_for_chain E others E' chain host token True (fst s) = (Some g, w')" "s' = (w', H')"
    by (rule performs_gateE) auto
  from grant_approved[OF assms(2,3) r(3)] show ?thesis
    using r(1,2,4) by (auto simp: approved_caller_def later_history_def)
qed

lemma performs_grows:
  "performs E chain q a s s' \<Longrightarrow> lease_reachable (fst s) (snd s) \<Longrightarrow> set (snd s) \<subseteq> set (snd s')"
  using performs_reachable unfolding later_history_def by blast

lemma history_grows:
  assumes "daemon_step cfg d d'" and "lease_reachable (fst (dn_shared d)) (snd (dn_shared d))"
  shows "set (snd (dn_shared d)) \<subseteq> set (snd (dn_shared d'))"
  using assms(1)
proof (cases rule: daemon_step.cases)
  case (perform c cn q k E chain a s)
  then show ?thesis using performs_grows[OF _ assms(2)] by simp
qed (simp_all add: later_history_def)

lemma reachable_approved:
  "daemon_reachable cfg d \<Longrightarrow>
     (c, Performed E chain (Gate pid host token) (AGrant (Some g))) \<in> set (dn_log d) \<Longrightarrow> \<not> le_bypass E \<Longrightarrow>
     approved_caller (snd (dn_shared d)) E chain pid host token g"
proof (induction rule: daemon_reachable.induct)
  case (start d)
  then show ?case by (simp add: daemon_start_def)
next
  case (step d d')
  note leases = reachable_leases[OF step(1)]
  have old: ?case if "(c, Performed E chain (Gate pid host token) (AGrant (Some g))) \<in> set (dn_log d)"
    using approved_caller_mono[OF step.IH[OF that step.prems(2)] history_grows[OF step(2) leases]] .
  from step(2) show ?case
  proof (cases rule: daemon_step.cases)
    case (perform c' cn q k E' chain' a s)
    show ?thesis
    proof (cases "(c, Performed E chain (Gate pid host token) (AGrant (Some g))) \<in> set (dn_log d)")
      case False
      then have "E' = E" "chain' = chain" "q = Gate pid host token" "a = AGrant (Some g)"
        using step.prems(1) perform(1) by simp_all
      then show ?thesis using gate_approved[OF _ leases step.prems(2)] perform(1,5) by simp
    qed (rule old)
  qed (use step.prems old in \<open>auto split: flow.splits\<close>)
qed

text \<open>
  C2: nothing touches a host without an authorization for it. Whenever a connection's handler
  runs, feeds, reads, opens, kills, transfers, forwards or connects on a host, whatever other
  connections and tasks interleave: the last \<open>Hello\<close> the connection sent named this daemon's
  protocol version; the connection's peer is known, and the request being served named that
  host; a grant for exactly that peer and host was resolved for this very request; outside
  bypass mode it rests on a genuine, recent approval covering the host, held by the peer's
  process tree or token; and the context handed on carries that peer, that token, the grant's
  restriction to the system agent, and leave to trust a new host key only if the request asked.
\<close>

theorem host_touched_under_grant:
  assumes "daemon_reachable cfg d" and "dn_log d = newer @ (c, Performed E chain q a) # older"
    and "touched q = Some h"
  shows "\<exists>pid req g E0 chain0 gap before.
      serving c older = Some (Some pid, True, req) \<and> op_host h \<in> set (request_hosts req) \<and> agreed c older
      \<and> older = gap @ (c, Performed E0 chain0 (Gate pid (op_host h) (request_token req)) (AGrant (Some g))) # before
      \<and> unbroken c gap
      \<and> (dm_bypass cfg \<or> approved_caller (snd (dn_shared d)) E0 chain0 pid (op_host h) (request_token req) g)
      \<and> (\<forall>ctx. op_context h = Some ctx \<longrightarrow> ctx =
           \<lparr>lc_target_requires_system_agent = requires_system_agent g, lc_trust_new_host = trusts_new_hosts req,
            lc_caller_pid = pid, lc_lease_token = request_token req\<rparr>)"
proof -
  obtain peer negotiated req where s: "serving c older = Some (peer, negotiated, req)"
    and "under_grant cfg peer negotiated req (so_far c older) q"
    by (rule authority.performed_allowed[OF assms(1,2)])
  then obtain pid g where g: "negotiated" "peer = Some pid" "op_host h \<in> set (request_hosts req)"
    "(Gate pid (op_host h) (request_token req), AGrant (Some g)) \<in> set (so_far c older)"
    "\<forall>ctx. op_context h = Some ctx \<longrightarrow>
       ctx = context_of peer (request_token req) (requires_system_agent g) (trusts_new_hosts req)"
    using assms(3) by (auto simp: under_grant_def)
  from so_far_split[OF g(4)] obtain gap E0 chain0 before where older:
    "older = gap @ (c, Performed E0 chain0 (Gate pid (op_host h) (request_token req)) (AGrant (Some g))) # before"
    "unbroken c gap" by blast
  have log: "dn_log d = (newer @ (c, Performed E chain q a) # gap) @
      (c, Performed E0 chain0 (Gate pid (op_host h) (request_token req)) (AGrant (Some g))) # before"
    using assms(2) older(1) by simp
  have bypass: "le_bypass E0 = dm_bypass cfg" by (rule authority.performed_allowed[OF assms(1) log])
  have "agreed c older"
  proof -
    from serving_split[OF s] obtain gap' before' where sp: "older = gap' @ (c, Received peer negotiated req) # before'"
      "unbroken c gap'" by blast
    have "agreed c before'"
      using reachable_received[OF assms(1), of "newer @ (c, Performed E chain q a) # gap'" c peer negotiated req before']
        assms(2) sp(1) g(1) by simp
    moreover have "flag_after req True" using g(3) by (cases req) (simp_all add: flag_after_def)
    ultimately show ?thesis by (simp add: sp(1) agreed_unbroken[OF sp(2)])
  qed
  moreover have "dm_bypass cfg \<or> approved_caller (snd (dn_shared d)) E0 chain0 pid (op_host h) (request_token req) g"
    using reachable_approved[OF assms(1), of c E0 chain0] log bypass by auto
  ultimately show ?thesis
    using s g older
    by (intro exI[of _ pid] exI[of _ req] exI[of _ g] exI[of _ E0] exI[of _ chain0] exI[of _ gap] exI[of _ before])
      (simp add: context_of_def)
qed

subsection \<open>A concrete run\<close>

definition demo_request :: request where
  "demo_request = Run ''web'' ''uptime'' None 60 False None"

definition demo_run :: "lease_grant \<Rightarrow> host_op" where
  "demo_run g = RunOp ''web'' ''uptime'' None 60 False
     \<lparr>lc_target_requires_system_agent = requires_system_agent g, lc_trust_new_host = False,
      lc_caller_pid = 30, lc_lease_token = None\<rparr>"

definition demo_grant_given :: lease_grant where
  "demo_grant_given = \<lparr>lg_token = ''token'', lg_host = ''web'', lg_authorization = SystemAgent\<rparr>"

text \<open>One connection: the handshake, then a command under the demo lease.\<close>

definition demo_log :: "(nat \<times> moment) list" where
  "demo_log =
     [(0, Performed demo_lease_env demo_chain (Run_Op (demo_run demo_grant_given)) (ARun (Inl ''gone''))),
      (0, Performed demo_lease_env demo_chain (Record (RunStarted ''web'' ''default'' ''uptime'')) ADone),
      (0, Performed demo_lease_env demo_chain (Gate 30 ''web'' None) (AGrant (Some demo_grant_given))),
      (0, Received (Some 30) True demo_request)] @ demo_hello"

lemma demo_gate:
  "resolve_grant_for_chain demo_lease_env id demo_lease_env demo_chain ''web'' None True demo_leased_world
     = (Some demo_grant_given, demo_leased_world)"
proof -
  have "pick_lease (lease_matches demo_chain ''web'' None) [demo_active] = Some 0"
    by (simp add: pick_lease_def lease_matches_def demo_active_def demo_chain_def demo_anchor_def
        chain_contains_anchor_def anchor_matches_def)
  moreover have "find_index (\<lambda>l. al_token l = ''token'' \<and> ''web'' \<in> al_hosts l \<and> al_authorization l = SystemAgent)
      [demo_active] = Some 0"
    by (simp add: find_index_def demo_active_def)
  moreover have "al_token demo_active = ''token''" "al_authorization demo_active = SystemAgent"
    "demo_active\<lparr>al_last_used := 0\<rparr> = demo_active"
    by (simp_all add: demo_active_def)
  moreover have "demo_leased_world\<lparr>lw_active := [demo_active]\<rparr> = demo_leased_world"
    by (simp add: demo_leased_world_def)
  ultimately show ?thesis
    by (simp add: resolve_grant_for_chain_def recheck_system_agent_def Let_def demo_prune demo_worlds
        host_scope_still_uses_system_agent_def demo_scope touch_at_def demo_grant_given_def del: prune_active)
qed

lemma demo_runs:
  "\<exists>H job. daemon_reachable demo_config (demo_daemon (demo_leased_world, H) job True demo_log)"
proof -
  obtain H where H: "lease_reachable demo_leased_world H" using demo_lease_reachable by blast
  from demo_received[OF demo_negotiated[OF H], of demo_request]
  have "daemon_reachable demo_config (demo_daemon (demo_leased_world, H)
      (Some (handle_run (Some 30) ''web'' ''uptime'' None 60 False None)) True (drop 3 demo_log))"
    by (simp add: handle_request_def demo_request_def demo_log_def)
  note run = this[unfolded handle_run_def gated_def require_lease_def option.case gate_def]
  have "performs demo_lease_env demo_chain (Gate 30 ''web'' None) (AGrant (Some demo_grant_given))
      (demo_leased_world, H) (demo_leased_world, H)"
    by (rule performs.gate[OF demo_caller _ _ demo_gate])
      (use H in \<open>simp_all add: later_history_def demo_prune del: prune_active\<close>)
  from demo_performed[OF run this demo_worlds(10)]
  have "\<exists>k. daemon_reachable demo_config (demo_daemon (demo_leased_world, H)
      (Some (record_event (RunStarted ''web'' ''default'' ''uptime'') (Await (Run_Op (demo_run demo_grant_given)) k)))
      True (drop 2 demo_log))"
    by (auto simp: demo_log_def demo_run_def context_of_def session_hint_def)
  then obtain k where "daemon_reachable demo_config (demo_daemon (demo_leased_world, H)
      (Some (record_event (RunStarted ''web'' ''default'' ''uptime'') (Await (Run_Op (demo_run demo_grant_given)) k)))
      True (drop 2 demo_log))" by blast
  note started = this[unfolded record_event_def]
  from demo_outside[OF started, of ADone] have "daemon_reachable demo_config (demo_daemon (demo_leased_world, H)
      (Some (Await (Run_Op (demo_run demo_grant_given)) k)) True (drop 1 demo_log))"
    by (simp add: thens_def demo_log_def)
  from demo_outside[OF this, of "ARun (Inl ''gone'')"] show ?thesis by (auto simp: demo_log_def)
qed

theorem host_touched_under_grant_witness:
  "\<exists>H job. daemon_reachable demo_config (demo_daemon (demo_leased_world, H) job True demo_log)
     \<and> agreed 0 (tl demo_log)
     \<and> (\<exists>g E0 chain0. approved_caller H E0 chain0 30 ''web'' None g)"
proof -
  obtain H job where d: "daemon_reachable demo_config (demo_daemon (demo_leased_world, H) job True demo_log)"
    using demo_runs by blast
  have log: "dn_log (demo_daemon (demo_leased_world, H) job True demo_log) =
      [] @ (0, Performed demo_lease_env demo_chain (Run_Op (demo_run demo_grant_given)) (ARun (Inl ''gone''))) # tl demo_log"
    by (simp add: demo_daemon_def demo_log_def)
  have s: "serving 0 (tl demo_log) = Some (Some 30, True, demo_request)" by (simp add: demo_log_def)
  show ?thesis
    using host_touched_under_grant[OF d log, of "demo_run demo_grant_given"] d s
    by (fastforce simp: demo_run_def demo_request_def demo_config_def demo_daemon_def)
qed

end
