(* ===== verification/Dispatch_Replies.thy ===== *)
theory Dispatch_Replies
  imports Dispatch_Steps
begin

text \<open>
  Two more policies of the request handlers (\<open>src/src/daemon/mod.rs\<close>,
  \<open>src/src/native_approval.rs\<close>): every request is answered once and with the kind of reply it
  asks for, and native approval activates only what the human was shown and agreed to, dropping
  the unlocked vault otherwise.
\<close>

subsection \<open>Answers\<close>

fun responses :: "script_trace \<Rightarrow> response list" where
  "responses [] = []"
| "responses ((q, a) # t) = (case q of Respond r \<Rightarrow> r # responses t | _ \<Rightarrow> responses t)"

definition own_reply :: "request \<Rightarrow> response \<Rightarrow> bool" where
  "own_reply req r = (case req of
     Status \<Rightarrow> r \<in> range StatusR
   | Hello _ \<Rightarrow> r = ProtocolReady WIRE_PROTOCOL_VERSION
   | Run _ _ _ _ _ _ \<Rightarrow> r \<in> range RunR
   | Peek _ _ _ _ _ \<Rightarrow> r \<in> range PeekR
   | Open _ _ _ \<Rightarrow> r \<in> range SessionR
   | Ls _ \<Rightarrow> r \<in> range LsR
   | RequestLease _ \<Rightarrow> r = OkR \<or> r \<in> range LeaseRequestPending
   | RequestLeaseTrustNew _ \<Rightarrow> r = OkR \<or> r \<in> range LeaseRequestPending
   | DescribeLeaseRequest _ \<Rightarrow> r \<in> range LeaseRequestPending
   | ApproveLease _ _ _ \<Rightarrow> (\<exists>i u. r = LeaseActivated i u)
   | VaultExists \<Rightarrow> r \<in> range VaultExistsR
   | ListHostsReq _ \<Rightarrow> r \<in> range HostsR
   | Put _ _ _ _ _ \<Rightarrow> r \<in> range TransferR
   | Get _ _ _ _ _ \<Rightarrow> r \<in> range TransferR
   | ForwardReq _ _ _ \<Rightarrow> r \<in> range ForwardR
   | ForwardLs \<Rightarrow> r \<in> range ForwardLsR
   | _ \<Rightarrow> r = OkR)"

definition is_transfer :: "request \<Rightarrow> bool" where
  "is_transfer req = (case req of Put _ _ _ _ _ \<Rightarrow> True | Get _ _ _ _ _ \<Rightarrow> True | _ \<Rightarrow> False)"

declare is_transfer_def [simp]

text \<open>The responses to a request, the last first: a transfer begins with \<open>TransferReady\<close> or not at all.\<close>

definition conforms :: "request \<Rightarrow> response list \<Rightarrow> bool" where
  "conforms req rs \<longleftrightarrow>
     (\<exists>e. rs = [ErrorR e]) \<or>
     (if is_transfer req then \<exists>r. (own_reply req r \<or> r \<in> range ErrorR) \<and> rs = [r, TransferReady]
      else \<exists>r. own_reply req r \<and> rs = [r])"

text \<open>Bytes of a transfer flow only between \<open>TransferReady\<close> and the reply.\<close>

definition streams_in_turn ::
  "daemon_config \<Rightarrow> nat option \<Rightarrow> bool \<Rightarrow> request \<Rightarrow> script_trace \<Rightarrow> daemon_op \<Rightarrow> bool" where
  "streams_in_turn cfg peer negotiated req t q \<longleftrightarrow>
     (q = Upload \<or> q = Download \<longrightarrow> is_transfer req \<and> responses t = [TransferReady])"

definition needs_handshake :: "request \<Rightarrow> bool" where
  "needs_handshake req = (case req of Status \<Rightarrow> False | Hello _ \<Rightarrow> False | Shutdown \<Rightarrow> False | _ \<Rightarrow> True)"

definition answered :: "daemon_config \<Rightarrow> nat option \<Rightarrow> bool \<Rightarrow> request \<Rightarrow> script_trace \<Rightarrow> flow \<Rightarrow> bool" where
  "answered cfg peer negotiated req t f \<longleftrightarrow>
     conforms req (responses t)
     \<and> (needs_handshake req \<and> \<not> negotiated \<longrightarrow> responses t = [ErrorR (HandshakeRequired (request_kind req))])
     \<and> (f = Hangup \<longleftrightarrow> req = Shutdown)"

lemma prompting_no_response: "prompting q \<Longrightarrow> q \<noteq> Respond r \<and> q \<noteq> Upload \<and> q \<noteq> Download"
  by (cases q) simp_all

lemma responses_prompting: "all_ops prompting new \<Longrightarrow> responses (new @ t) = responses t"
  by (induction new) (auto split: daemon_op.split)

definition replied :: "request \<Rightarrow> script_trace \<Rightarrow> flow \<Rightarrow> bool" where
  "replied req t f \<longleftrightarrow> conforms req (responses t) \<and> f = KeepGoing True"

abbreviation replies_ok :: "daemon_config \<Rightarrow> nat option \<Rightarrow> request \<Rightarrow> flow script \<Rightarrow> script_trace \<Rightarrow> bool" where
  "replies_ok cfg peer req m t \<equiv> safe (streams_in_turn cfg peer True req) (replied req) m t"

lemma no_stream: "q \<noteq> Upload \<Longrightarrow> q \<noteq> Download \<Longrightarrow> streams_in_turn cfg peer negotiated req t q"
  by (simp add: streams_in_turn_def)

lemma conforms_single: "own_reply req r \<Longrightarrow> \<not> is_transfer req \<Longrightarrow> conforms req [r]" "conforms req [ErrorR e]"
  by (auto simp: conforms_def)

lemma made_of_replies:
  assumes "made_of prompting m" and "\<And>t' x. responses t' = responses t \<Longrightarrow> replies_ok cfg peer req (f x) t'"
  shows "replies_ok cfg peer req (bind_script m f) t"
  unfolding safe_bind
proof (rule safe_made_of[OF assms(1)])
  fix new and q :: daemon_op assume "prompting q"
  then show "streams_in_turn cfg peer True req (new @ t) q"
    by (cases q) (simp_all add: streams_in_turn_def)
next
  fix new x assume "all_ops prompting new"
  then show "replies_ok cfg peer req (f x) (new @ t)" using assms(2) responses_prompting by blast
qed

lemma replies_trust_hosts:
  "responses t = [] \<Longrightarrow> replies_ok cfg (Some pid) (RequestLeaseTrustNew all) (trust_hosts pid hosts) t"
proof (induction hosts arbitrary: t)
  case (Cons host hosts)
  then show ?case
    by (auto simp: require_lease_def reply_def runs no_stream replied_def conforms_single
        split: option.splits timed.splits sum.splits)
qed (simp add: reply_def runs no_stream replied_def conforms_single own_reply_def)

definition lease_reply :: "response \<Rightarrow> bool" where
  "lease_reply r \<longleftrightarrow> r = OkR \<or> r \<in> range LeaseRequestPending \<or> r \<in> range ErrorR"

definition asking :: "bool \<Rightarrow> string list \<Rightarrow> request" where
  "asking trust hosts = (if trust then RequestLeaseTrustNew hosts else RequestLease hosts)"

lemma replies_finish:
  "responses t = [] \<Longrightarrow> lease_reply r \<Longrightarrow> replies_ok cfg (Some pid) (asking trust hosts) (finish_request pid trust hosts r) t"
  by (auto simp: finish_request_def asking_def reply_def runs no_stream replied_def replies_trust_hosts
      lease_reply_def conforms_def own_reply_def)

lemma lease_replies [simp]: "lease_reply OkR" "lease_reply (LeaseRequestPending i)" "lease_reply (ErrorR e)"
  by (simp_all add: lease_reply_def)

lemma replies_native:
  "responses t = [] \<Longrightarrow> replies_ok cfg (Some pid) (asking trust hosts) (native_or_pending pid trust hosts info) t"
  unfolding native_or_pending_def
  by (rule made_of_replies[OF made_of_try_approve])
    (auto simp: runs no_stream intro!: replies_finish split: sum.splits native_outcome.splits)

lemma replies_lease_request:
  "replies_ok cfg peer (asking trust hosts) (handle_lease_request cfg peer hosts trust) []"
  by (auto simp: handle_lease_request_def decide_request_def reply_def runs no_stream answer.is_AAsked_def replied_def
      conforms_single split: option.splits sum.splits request_outcome.splits system_agent_outcome.splits
      intro!: replies_finish replies_native)

lemma replies_unverified:
  "responses t = rs \<Longrightarrow> (\<And>found t. responses t = rs \<Longrightarrow> replies_ok cfg peer req (k found) t) \<Longrightarrow>
     replies_ok cfg peer req (unverified hosts found k) t"
  by (induction hosts found k arbitrary: t rule: unverified.induct) (auto simp: runs no_stream split: sum.splits)

lemma replies_enroll:
  assumes "req = EnrollHost host hostname port user kind key_file route"
  shows "replies_ok cfg peer req (handle_enroll cfg host hostname port user kind key_file route) []"
proof -
  have own: "own_reply req OkR" "\<not> is_transfer req" using assms by (simp_all add: own_reply_def)
  have vault: "replies_ok cfg peer req (change_vault c) t" if "responses t = []" for c t
    using that own by (auto simp: change_vault_def reply_def runs no_stream replied_def conforms_single split: sum.splits)
  have password: "replies_ok cfg peer req (bind_script (enroll_password cfg purpose) f) t"
    if "responses t = []" "\<And>t' x. responses t' = [] \<Longrightarrow> replies_ok cfg peer req (f x) t'" for purpose f t
    using that by (auto simp: enroll_password_def intro!: made_of_replies made_of_prompts)
  have auth: "replies_ok cfg peer req (bind_script (enroll_auth host kind key_file) f) t"
    if "responses t = []" "\<And>t' x. responses t' = [] \<Longrightarrow> replies_ok cfg peer req (f x) t'" for f t
  proof -
    have "replies_ok cfg peer req
        (bind_script (prompt_ssh_password host) (\<lambda>x. bind_script (attempt FromNative (\<lambda>p. Return (Inr (Password p))) x) f)) t"
      using that by (intro made_of_replies[OF made_of_prompts(1)]) (auto simp: safe_bind runs)
    then show ?thesis using that by (auto simp: enroll_auth_def safe_bind split: host_auth_kind.splits option.splits)
  qed
  show ?thesis
    unfolding handle_enroll_def
    by (auto simp: runs no_stream reply_def replied_def conforms_single split: sum.splits intro!: auth password vault)
qed

lemma replies_negotiated:
  assumes "needs_handshake req"
  shows "replies_ok cfg peer req (handle_negotiated cfg peer req) []"
proof -
  note defs = gated_def require_lease_def reply_def reply_unit_def reply_transfer_def runs streams_in_turn_def
    replied_def conforms_def own_reply_def is_transfer_def
    handle_run_def handle_peek_def handle_send_def handle_interrupt_def handle_open_def handle_kill_def handle_put_def
    handle_get_def handle_forward_def handle_test_connection_def handle_describe_def
    handle_list_hosts_def change_vault_def
    answer.is_ARun_def answer.is_APeek_def answer.is_ASession_def answer.is_AForward_def answer.is_ATransfer_def
    answer.is_ASessions_def answer.is_AForwards_def answer.is_ASummary_def answer.is_ARows_def answer.is_AUnit_def
  note cases = option.splits sum.splits timed.splits
  show ?thesis
  proof (cases req)
    case (RequestLease hosts)
    then show ?thesis using replies_lease_request[of cfg peer False hosts] by (simp add: asking_def)
  next
    case (RequestLeaseTrustNew hosts)
    then show ?thesis using replies_lease_request[of cfg peer True hosts] by (simp add: asking_def)
  next
    case (EnrollHost host hostname port user kind key_file route)
    then show ?thesis using replies_enroll[OF EnrollHost] by simp
  next
    case (ApproveLease i password hosts)
    have "replies_ok cfg peer req (handle_approve peer i password hosts) []"
      by (auto simp: handle_approve_def reply_def runs no_stream replied_def conforms_single ApproveLease own_reply_def
          conforms_def split: option.splits sum.splits lease_error.splits intro!: replies_unverified[OF refl])
    then show ?thesis using ApproveLease by simp
  qed (use assms in \<open>auto simp: defs needs_handshake_def split: cases\<close>)
qed

lemma answered_handlers:
  "safe (streams_in_turn cfg peer negotiated req) (answered cfg peer negotiated req)
     (handle_request cfg uptime peer negotiated req) []"
proof (cases "needs_handshake req")
  case False
  then show ?thesis
    by (cases req) (auto simp: needs_handshake_def handle_request_def handle_status_def handle_hello_def runs no_stream
        answered_def conforms_def own_reply_def answer.is_ASessions_def answer.is_ALeases_def)
next
  case needs: True
  show ?thesis
  proof (cases negotiated)
    case True
    have "handle_request cfg uptime peer True req = handle_negotiated cfg peer req"
      using needs by (simp add: handle_request_def needs_handshake_def split: request.splits)
    moreover have "safe (streams_in_turn cfg peer True req) (answered cfg peer True req) (handle_negotiated cfg peer req) []"
      by (rule safe_mono[OF replies_negotiated[OF needs]])
        (use needs in \<open>auto simp: replied_def answered_def needs_handshake_def\<close>)
    ultimately show ?thesis using True by simp
  next
    case False
    have "handle_request cfg uptime peer False req
        = respond (ErrorR (HandshakeRequired (request_kind req))) (Return (KeepGoing False))"
      using needs by (simp add: handle_request_def needs_handshake_def split: request.splits)
    then show ?thesis using False needs
      by (auto simp: runs no_stream answered_def conforms_single needs_handshake_def)
  qed
qed

interpretation conformance: handler_policy streams_in_turn answered
  by unfold_locales (rule answered_handlers)

text \<open>
  C30: a handler that finishes has answered its request once, and in kind. When a connection's
  handler is done with a request, it has sent exactly one error, or exactly one reply of the kind
  the request asks for; a file transfer's reply, or an error that ends it, comes after exactly one
  \<open>TransferReady\<close>; without a handshake it has sent nothing but the error asking for one; the
  connection goes on unless the request was \<open>Shutdown\<close>. And whatever the operations it waits for
  answer, a handler that is not done has a next step, so only a lost connection, a task that never
  answers or the end of the process keeps one from finishing.
\<close>

theorem requests_answered_once_in_kind:
  assumes "daemon_reachable cfg d"
  shows "(\<forall>newer c flow older. dn_log d = newer @ (c, Finished flow) # older \<longrightarrow>
      (\<exists>peer negotiated req. serving c older = Some (peer, negotiated, req)
         \<and> conforms req (responses (so_far c older))
         \<and> (needs_handshake req \<and> \<not> negotiated \<longrightarrow>
              responses (so_far c older) = [ErrorR (HandshakeRequired (request_kind req))])
         \<and> (flow = Hangup \<longleftrightarrow> req = Shutdown)))
    \<and> (\<forall>c cn. dn_conns d c = Some cn \<longrightarrow> cn_job cn \<noteq> Some Stuck)"
proof -
  have "cn_job cn \<noteq> Some Stuck" if "dn_conns d c = Some cn" for c cn
    using conformance.reachable_kept[OF assms] that unfolding conformance.job_kept_def by fastforce
  moreover have "\<exists>peer negotiated req. serving c older = Some (peer, negotiated, req)
      \<and> answered cfg peer negotiated req (so_far c older) flow"
    if "dn_log d = newer @ (c, Finished flow) # older" for newer c flow older
    using conformance.finished_final[OF assms that] by blast
  ultimately show ?thesis unfolding answered_def by fast
qed

subsection \<open>Consent\<close>

text \<open>
  What a native activation rests on, all of it from the same request: the helper unlocked the
  Keychain for the request just made, the vault it opened gave this host list, each host's key
  is known unless the request trusts new ones, and the human was shown this very list.
\<close>

definition key_known :: "script_trace \<Rightarrow> string \<Rightarrow> bool" where
  "key_known t host \<longleftrightarrow> (\<exists>name port. (KeyEndpoint host, AEndpoint (Inr (name, port))) \<in> set t
     \<and> (KnownKey name port, AFlag True) \<in> set t)"

definition shown :: "script_trace \<Rightarrow> nat option \<Rightarrow> request \<Rightarrow> string \<Rightarrow> bytes \<Rightarrow> string list \<Rightarrow> bool" where
  "shown t peer req i preview hosts \<longleftrightarrow>
     (\<exists>pid expanded info. peer = Some pid \<and> i = rs_id info
        \<and> (Ask pid expanded, AAsked (Inr (Lease.Pending info))) \<in> set t
        \<and> (HelperExchange (HBegin i (rs_hosts info) (rs_anchor_name info) (rs_anchor_pid info)),
             AHelper (Inr (HUnlocked preview))) \<in> set t
        \<and> (PreviewNative i preview, APreview (Inr hosts)) \<in> set t)
     \<and> (req \<in> range RequestLeaseTrustNew \<or> (\<forall>h\<in>set hosts. key_known t h))"

definition agreed_to :: "script_trace \<Rightarrow> string list \<Rightarrow> bytes \<Rightarrow> bytes \<Rightarrow> bool" where
  "agreed_to t hosts preview password \<longleftrightarrow>
     (\<exists>allow_pin r. (HelperExchange (HConfirm hosts allow_pin), AHelper (Inr r)) \<in> set t
        \<and> (case r of
             HApproved \<Rightarrow> password = preview
           | HPinEntered pin \<Rightarrow> password = preview \<and> (PinVerifyOp pin, APinVerify (Inr Approved)) \<in> set t
           | HMasterPasswordEntered p \<Rightarrow> password = p
           | _ \<Rightarrow> False))"

definition consented ::
  "daemon_config \<Rightarrow> nat option \<Rightarrow> bool \<Rightarrow> request \<Rightarrow> script_trace \<Rightarrow> daemon_op \<Rightarrow> bool" where
  "consented cfg peer negotiated req t q = (case q of
     ApproveNative i password hosts \<Rightarrow>
       (\<exists>preview. shown t peer req i preview hosts \<and> agreed_to t hosts preview password)
   | ApproveAgent i (Some hosts) \<Rightarrow>
       (\<exists>preview. shown t peer req i preview hosts) \<and> (AgentScope hosts, AScope (Inr True)) \<in> set t
       \<and> (HelperExchange HCompleteSystemAgent, AHelper (Inr HSystemAgentReady)) \<in> set t
   | ApproveAgent i None \<Rightarrow>
       (\<exists>pid expanded info. peer = Some pid \<and> i = rs_id info
          \<and> (Ask pid expanded, AAsked (Inr (Lease.Pending info))) \<in> set t)
   | _ \<Rightarrow> True)"

text \<open>A request that previewed ends with a lease or with the preview's vault cache discarded.\<close>

definition previewed :: "script_trace \<Rightarrow> bool" where
  "previewed t \<longleftrightarrow> (\<exists>i p r. (PreviewNative i p, r) \<in> set t)"

definition settling :: "daemon_op \<times> answer \<Rightarrow> bool" where
  "settling x = (case x of
     (DiscardPreview, _) \<Rightarrow> True
   | (ApproveNative _ _ _, AActivated (Inr _)) \<Rightarrow> True
   | (ApproveAgent _ _, AAgent (Inr (Activated _))) \<Rightarrow> True
   | _ \<Rightarrow> False)"

definition settled :: "script_trace \<Rightarrow> bool" where
  "settled t \<longleftrightarrow> list_ex settling t"

definition cleaned_up :: "daemon_config \<Rightarrow> nat option \<Rightarrow> bool \<Rightarrow> request \<Rightarrow> script_trace \<Rightarrow> flow \<Rightarrow> bool" where
  "cleaned_up cfg peer negotiated req t f \<longleftrightarrow> (previewed t \<longrightarrow> settled t)"

text \<open>The operations these are indifferent to.\<close>

primrec plain :: "daemon_op \<Rightarrow> bool" where
  "plain (Respond _) = True"
| "plain (Record _) = True"
| "plain (Gate _ _ _) = True"
| "plain (Run_Op _) = True"
| "plain (Peek_Op _) = True"
| "plain (Unit_Op _) = True"
| "plain (Open_Op _) = True"
| "plain (Forward_Op _) = True"
| "plain (Timed_Op _) = True"
| "plain Upload = True"
| "plain Download = True"
| "plain (Sessions _) = True"
| "plain Forwards = True"
| "plain (StopForward _) = True"
| "plain Leases = True"
| "plain (Ask _ _) = True"
| "plain (Describe _) = True"
| "plain (ApproveAgent _ _) = False"
| "plain (ApproveHuman _ _ _ _) = True"
| "plain (ApproveNative _ _ _) = False"
| "plain (PreviewNative _ _) = False"
| "plain DiscardPreview = False"
| "plain (Expand _ _) = True"
| "plain (Endpoint _) = True"
| "plain (KeyEndpoint _) = True"
| "plain (KnownKey _ _) = True"
| "plain (AgentScope _) = True"
| "plain VaultPresent = True"
| "plain (VaultOp _) = True"
| "plain (VaultList _) = True"
| "plain HelperSpawn = True"
| "plain (HelperExchange _) = True"
| "plain HelperFinish = True"
| "plain PinStatusOp = True"
| "plain (PinVerifyOp _) = True"

lemma plain_consented: "plain q \<Longrightarrow> consented cfg peer negotiated req t q"
  by (cases q) (simp_all add: consented_def)

lemma plain_previewed: "all_ops plain new \<Longrightarrow> previewed (new @ t) = previewed t"
  by (auto simp: previewed_def list_all_iff)

lemma settled_now [simp]:
  "settled ((DiscardPreview, ADone) # t)"
  "settled ((ApproveNative i p hosts, AActivated (Inr info)) # t)"
  "settled ((ApproveAgent i expected, AAgent (Inr (Activated info))) # t)"
  by (simp_all add: settled_def settling_def)

lemma settled_more: "settled t \<Longrightarrow> settled (new @ t)"
  by (auto simp: settled_def)

lemma made_of_plain:
  assumes "made_of plain m" and "cleaned_up cfg peer negotiated req t f"
  shows "safe (consented cfg peer negotiated req) (cleaned_up cfg peer negotiated req) m t"
  by (rule safe_made_of[OF assms(1)])
    (use assms(2) in \<open>auto simp: plain_consented cleaned_up_def plain_previewed settled_more\<close>)

subsection \<open>The flow keeps to consent\<close>

lemma safe_check_keys:
  assumes "\<And>new. safe P Q m (new @ t) \<or> \<not> (trust \<or> (\<forall>h\<in>set hosts. key_known (new @ t) h)) \<or> \<not> all_ops plain new"
    and "\<And>t h. P t (KeyEndpoint h)" and "\<And>t name port. P t (KnownKey name port)"
    and "\<And>new e. all_ops plain new \<Longrightarrow> Q (new @ t) (Inl e)"
  shows "safe P Q (check_host_keys trust hosts m) t"
  using assms
proof (induction hosts arbitrary: t)
  case Nil
  from Nil(1)[of "[]"] show ?case by simp
next
  case (Cons host hosts)
  note error = Cons.prems(4)
  have errors: "Q ((KeyEndpoint host, a) # t) (Inl e)" "Q ((KnownKey name port, b) # (KeyEndpoint host, a) # t) (Inl e)"
    for a b name port e
    using error[of "[(KeyEndpoint host, a)]" e] error[of "[(KnownKey name port, b), (KeyEndpoint host, a)]" e] by simp_all
  have more: "safe P Q (check_host_keys trust hosts m) (fresh @ t)"
    if fresh: "all_ops plain fresh" "trust \<or> key_known (fresh @ t) host" for fresh
  proof (rule Cons.IH)
    fix new
    have kept: "key_known (new @ fresh @ t) host" if "key_known (fresh @ t) host"
      using that unfolding key_known_def by (metis Un_iff set_append)
    show "safe P Q m (new @ fresh @ t)
        \<or> \<not> (trust \<or> (\<forall>h\<in>set hosts. key_known (new @ fresh @ t) h)) \<or> \<not> all_ops plain new"
      using Cons.prems(1)[of "new @ fresh"] fresh kept by auto
  next
    fix new e assume "all_ops plain new"
    then show "Q (new @ fresh @ t) (Inl e)" using error[of "new @ fresh"] fresh(1) by simp
  qed (use Cons.prems in auto)
  have known: "key_known ((KnownKey name port, AFlag True) # (KeyEndpoint host, AEndpoint (Inr (name, port))) # t) host"
    for name port by (auto simp: key_known_def)
  have go: "safe P Q (check_host_keys trust hosts m) ((KeyEndpoint host, AEndpoint (Inr x)) # t)" if trust for x
    using more[of "[(KeyEndpoint host, AEndpoint (Inr x))]"] that by simp
  have go': "safe P Q (check_host_keys trust hosts m)
      ((KnownKey name port, AFlag True) # (KeyEndpoint host, AEndpoint (Inr (name, port))) # t)" for name port
    using more[of "[(KnownKey name port, AFlag True), (KeyEndpoint host, AEndpoint (Inr (name, port)))]"] known by simp
  show ?case
    using go go' errors Cons.prems(2,3) by (auto simp: runs)
qed

definition closed :: "script_trace \<Rightarrow> 'x \<Rightarrow> bool" where
  "closed t x \<longleftrightarrow> (previewed t \<longrightarrow> settled t)"

text \<open>After the preview: an outcome means a lease, and every activation had consent.\<close>

definition outcome_settled :: "script_trace \<Rightarrow> native_error + native_outcome \<Rightarrow> bool" where
  "outcome_settled t r \<longleftrightarrow> (r \<in> range Inr \<longrightarrow> settled t)"

lemma outcome_simps [simp]: "outcome_settled t (Inl e)" "outcome_settled t (Inr x) \<longleftrightarrow> settled t"
  by (auto simp: outcome_settled_def)

lemma consent_human:
  assumes "shown t peer req i preview hosts"
  shows "safe (consented cfg peer negotiated req) outcome_settled (confirm_human i preview hosts) t"
  using assms
  by (auto simp: confirm_human_def confirmed_def activate_native_def runs safe_bind answer.is_APinStatus_def
      consented_def shown_def agreed_to_def key_known_def pin_outcome_def
      split: helper_response.splits pin_verify.splits)

lemma consent_agent:
  assumes "shown t peer req i preview hosts" and "(AgentScope hosts, AScope (Inr True)) \<in> set t"
  shows "safe (consented cfg peer negotiated req) outcome_settled (complete_system_agent i hosts) t"
  using assms
  by (auto simp: complete_system_agent_def runs consented_def shown_def key_known_def
      split: helper_response.splits system_agent_outcome.splits)

lemma shown_more: "shown t peer req i preview hosts \<Longrightarrow> shown (new @ t) peer req i preview hosts"
  unfolding shown_def key_known_def by (simp, metis)

lemma consent_finish:
  assumes "peer = Some pid" and "(Ask pid expanded, AAsked (Inr (Lease.Pending info))) \<in> set t"
    and "(HelperExchange (HBegin (rs_id info) (rs_hosts info) (rs_anchor_name info) (rs_anchor_pid info)),
           AHelper (Inr (HUnlocked preview))) \<in> set t"
    and "trust \<Longrightarrow> req \<in> range RequestLeaseTrustNew"
  shows "safe (consented cfg peer negotiated req) outcome_settled (finish_native_approval info preview trust) t"
proof -
  let ?P = "consented cfg peer negotiated req"
  have scope: "safe ?P outcome_settled
      (Await (AgentScope hosts) (\<lambda>a. case a of
              AScope r \<Rightarrow> attempt NativeSsh (\<lambda>agent_only.
                if agent_only then complete_system_agent (rs_id info) hosts
                else confirm_human (rs_id info) preview hosts) r
            | _ \<Rightarrow> Stuck)) t'"
    if sh: "shown t' peer req (rs_id info) preview hosts" for hosts t'
  proof -
    have more: "shown ((AgentScope hosts, AScope (Inr b)) # t') peer req (rs_id info) preview hosts" for b
      using shown_more[OF sh, of "[(AgentScope hosts, AScope (Inr b))]"] by simp
    show ?thesis
      using consent_agent[OF more[of True]] consent_human[OF more[of False]]
      by (auto simp: runs answer.is_AScope_def plain_consented)
  qed
  have "safe ?P outcome_settled (check_host_keys trust hosts
      (Await (AgentScope hosts) (\<lambda>a. case a of
              AScope r \<Rightarrow> attempt NativeSsh (\<lambda>agent_only.
                if agent_only then complete_system_agent (rs_id info) hosts
                else confirm_human (rs_id info) preview hosts) r
            | _ \<Rightarrow> Stuck))) ((PreviewNative (rs_id info) preview, APreview (Inr hosts)) # t)" (is "safe _ _ _ ?t") for hosts
  proof (rule safe_check_keys)
    fix new
    have "shown (new @ ?t) peer req (rs_id info) preview hosts"
      if "trust \<or> (\<forall>h\<in>set hosts. key_known (new @ ?t) h)"
      using that assms unfolding shown_def by (intro conjI exI[of _ pid] exI[of _ expanded] exI[of _ info]) auto
    then show "safe ?P outcome_settled
        (Await (AgentScope hosts) (\<lambda>a. case a of
              AScope r \<Rightarrow> attempt NativeSsh (\<lambda>agent_only.
                if agent_only then complete_system_agent (rs_id info) hosts
                else confirm_human (rs_id info) preview hosts) r
            | _ \<Rightarrow> Stuck)) (new @ ?t)
        \<or> \<not> (trust \<or> (\<forall>h\<in>set hosts. key_known (new @ ?t) h)) \<or> \<not> all_ops plain new"
      using scope by blast
  qed (simp_all add: plain_consented)
  then show ?thesis
    by (auto simp: finish_native_approval_def runs answer.is_APreview_def consented_def)
qed

lemma consent_try_approve:
  assumes "peer = Some pid" and "(Ask pid expanded, AAsked (Inr (Lease.Pending info))) \<in> set t"
    and "\<not> previewed t" and "trust \<Longrightarrow> req \<in> range RequestLeaseTrustNew"
  shows "safe (consented cfg peer negotiated req) closed (try_approve info trust) t"
proof -
  have finish: "safe (consented cfg peer negotiated req) (\<lambda>t x. safe (consented cfg peer negotiated req) closed
        (case x of Inr outcome \<Rightarrow> Return (Inr outcome) | Inl e \<Rightarrow> Await DiscardPreview (thens (Return (Inl e)))) t)
      (finish_native_approval info preview trust)
      ((HelperExchange (HBegin (rs_id info) (rs_hosts info) (rs_anchor_name info) (rs_anchor_pid info)),
         AHelper (Inr (HUnlocked preview))) # (HelperSpawn, AHelperDone (Inr ())) # t)" for preview
    by (rule safe_mono[OF consent_finish[OF assms(1) _ _ assms(4)]])
      (use assms(2) in \<open>auto simp: closed_def consented_def split: sum.splits\<close>)
  have "\<not> previewed ((HelperExchange q, a) # (HelperSpawn, b) # t)" "\<not> previewed ((HelperSpawn, b) # t)" for q a b
    using assms(3) by (auto simp: previewed_def)
  then show ?thesis
    using finish
    by (auto simp: try_approve_def runs safe_bind plain_consented closed_def unlocked_def
        split: option.splits helper_response.splits)
qed

abbreviation consent_kept :: "daemon_config \<Rightarrow> nat option \<Rightarrow> request \<Rightarrow> flow script \<Rightarrow> script_trace \<Rightarrow> bool" where
  "consent_kept cfg peer req m t \<equiv> safe (consented cfg peer True req) (cleaned_up cfg peer True req) m t"

lemma cleaned_closed: "closed t x \<Longrightarrow> cleaned_up cfg peer negotiated req t f"
  by (simp add: closed_def cleaned_up_def)

lemma plain_made [simp]:
  "made_of plain (reply r)" "made_of plain (Return f)"
  "made_of plain m \<Longrightarrow> made_of plain (record_event e m)"
  by (simp_all add: made_of_def reply_def runs)

lemma plain_trust_hosts: "made_of plain (trust_hosts pid hosts)"
  unfolding made_of_def
  by (induction hosts) (auto simp: require_lease_def reply_def runs split: option.splits timed.splits sum.splits)

lemma plain_finish: "made_of plain (finish_request pid trust hosts r)"
  by (simp add: finish_request_def plain_trust_hosts)

lemma consent_native:
  assumes "(Ask pid expanded, AAsked (Inr (Lease.Pending info))) \<in> set t" and "\<not> previewed t"
  shows "consent_kept cfg (Some pid) (asking trust hosts) (native_or_pending pid trust hosts info) t"
  unfolding native_or_pending_def safe_bind
proof (rule safe_mono)
  show "safe (consented cfg (Some pid) True (asking trust hosts)) closed (try_approve info trust) t"
    using assms by (intro consent_try_approve) (auto simp: asking_def)
next
  fix t' and r :: "native_error + native_outcome" assume "closed t' r"
  then show "consent_kept cfg (Some pid) (asking trust hosts)
      (case r of
         Inr (HumanOutcome act) \<Rightarrow>
           record_event (LeaseApprovedNative (ac_hosts act) (ac_anchor_name act) (ac_anchor_pid act))
             (finish_request pid trust hosts OkR)
       | Inr (SystemAgentOutcome act) \<Rightarrow>
           record_event (LeaseApprovedSystemAgent (ac_hosts act) (ac_anchor_name act) (ac_anchor_pid act))
             (finish_request pid trust hosts OkR)
       | Inl _ \<Rightarrow> finish_request pid trust hosts (LeaseRequestPending info)) t'"
    by (intro made_of_plain[OF _ cleaned_closed]) (auto simp: plain_finish split: sum.splits native_outcome.splits)
qed

lemma previewed_Cons: "previewed ((q, a) # t) \<longleftrightarrow> previewed t \<or> (\<exists>i p. q = PreviewNative i p)"
  by (auto simp: previewed_def)

lemma consent_plain_now:
  "made_of plain m \<Longrightarrow> \<not> previewed t \<Longrightarrow> consent_kept cfg peer req m t"
  by (rule made_of_plain) (simp_all add: cleaned_up_def)

lemma consent_lease_request:
  "consent_kept cfg peer (asking trust hosts) (handle_lease_request cfg peer hosts trust) []"
proof -
  have decide: "consent_kept cfg (Some pid) (asking trust hosts) (decide_request pid trust hosts outcome)
      ((Record e, ADone) # (Ask pid expanded, AAsked (Inr outcome)) # t)" if "\<not> previewed t"
    for pid outcome e expanded t
  proof -
    show ?thesis
      by (auto simp: decide_request_def runs previewed_Cons plain_consented consented_def plain_finish consent_plain_now that
          split: request_outcome.splits sum.splits system_agent_outcome.splits
          intro!: consent_native)
  qed
  show ?thesis
    by (cases peer) (auto simp: handle_lease_request_def runs plain_consented answer.is_AAsked_def previewed_def
        plain_finish split: sum.splits intro!: decide consent_plain_now)
qed

lemma plain_negotiated:
  assumes "needs_handshake req" and "\<And>trust hosts. req \<noteq> asking trust hosts"
  shows "made_of plain (handle_negotiated cfg peer req)"
proof -
  note defs = made_of_def gated_def require_lease_def reply_def reply_unit_def reply_transfer_def runs
    handle_run_def handle_peek_def handle_send_def handle_interrupt_def handle_open_def handle_kill_def handle_put_def
    handle_get_def handle_forward_def handle_test_connection_def handle_describe_def
    handle_list_hosts_def change_vault_def
    answer.is_ARun_def answer.is_APeek_def answer.is_ASession_def answer.is_AForward_def answer.is_ATransfer_def
    answer.is_ASessions_def answer.is_AForwards_def answer.is_ASummary_def answer.is_ARows_def answer.is_AUnit_def
  note cases = option.splits sum.splits timed.splits
  show ?thesis
  proof (cases req)
    case (RequestLease hosts)
    then show ?thesis using assms(2)[of False hosts] by (simp add: asking_def)
  next
    case (RequestLeaseTrustNew hosts)
    then show ?thesis using assms(2)[of True hosts] by (simp add: asking_def)
  next
    case (EnrollHost host hostname port user kind key_file route)
    have "safe (\<lambda>_. plain) (\<lambda>_ _. True) (handle_enroll cfg host hostname port user kind key_file route) t" for t
      by (auto simp: handle_enroll_def enroll_auth_def enroll_password_def change_vault_def reply_def runs safe_bind
          prompt_ssh_password_def prompt_master_password_def unlock_from_keychain_def Let_def
          split: host_auth_kind.splits sum.splits option.splits)
    then show ?thesis using EnrollHost by (simp add: made_of_def)
  next
    case (ApproveLease i password hosts)
    have "safe (\<lambda>_. plain) (\<lambda>_ _. True) (unverified gs found k) t"
      if "\<And>found t. safe (\<lambda>_. plain) (\<lambda>_ _. True) (k found) t" for gs found t and k :: "unverified_host_key list \<Rightarrow> flow script"
      using that by (induction gs found k arbitrary: t rule: unverified.induct) (auto simp: runs split: sum.splits)
    then have "safe (\<lambda>_. plain) (\<lambda>_ _. True) (handle_approve peer i password hosts) t" for t
      by (auto simp: handle_approve_def reply_def runs split: option.splits sum.splits lease_error.splits)
    then show ?thesis using ApproveLease by (simp add: made_of_def)
  qed (use assms(1) in \<open>auto simp: defs needs_handshake_def split: cases\<close>)
qed

lemma consent_handlers:
  "safe (consented cfg peer negotiated req) (cleaned_up cfg peer negotiated req)
     (handle_request cfg uptime peer negotiated req) []"
proof (cases "needs_handshake req \<and> negotiated")
  case False
  have "made_of plain (handle_request cfg uptime peer negotiated req)"
    using False
    by (cases req) (auto simp: made_of_def needs_handshake_def handle_request_def handle_status_def handle_hello_def runs
        answer.is_ASessions_def answer.is_ALeases_def)
  then show ?thesis by (rule made_of_plain) (simp add: cleaned_up_def previewed_def)
next
  case True
  then have neg: "handle_request cfg uptime peer negotiated req = handle_negotiated cfg peer req" "negotiated"
    by (simp_all add: handle_request_def needs_handshake_def split: request.splits)
  show ?thesis
  proof (cases "\<exists>trust hosts. req = asking trust hosts")
    case asks: True
    then obtain trust hosts where req: "req = asking trust hosts" by blast
    have "handle_negotiated cfg peer req = handle_lease_request cfg peer hosts trust"
      by (simp add: req asking_def)
    then show ?thesis using consent_lease_request[of cfg peer trust hosts] neg req by simp
  next
    case False
    then show ?thesis
      using neg plain_negotiated[of req cfg peer] True by (auto intro!: consent_plain_now simp: previewed_def)
  qed
qed

interpretation consent: handler_policy consented cleaned_up
  by unfold_locales (rule consent_handlers)








text \<open>
  A finished request that had opened the vault for a preview ended with a lease or discarded the
  preview's cache.
\<close>

lemma preview_always_settled:
  assumes "daemon_reachable cfg d" and "dn_log d = newer @ (c, Finished flow) # older"
    and "previewed (so_far c older)"
  shows "settled (so_far c older)"
  by (rule consent.finished_final[OF assms(1,2)]) (use assms(3) in \<open>auto simp: cleaned_up_def\<close>)

theorem requests_answered_once_in_kind_witness:
  "\<exists>H. daemon_reachable demo_config (demo_daemon (demo_leased_world, H) None True demo_hello)
     \<and> conforms (Hello 5) (responses (so_far 0 (tl demo_hello)))"
proof -
  obtain H where "lease_reachable demo_leased_world H" using demo_lease_reachable by blast
  note d = demo_negotiated[OF this]
  have log: "dn_log (demo_daemon (demo_leased_world, H) None True demo_hello) = [] @ (0, Finished (KeepGoing True)) # tl demo_hello"
    by (simp add: demo_daemon_def demo_hello_def)
  have s: "serving 0 (tl demo_hello) = Some (Some 30, False, Hello 5)" by (simp add: demo_hello_def)
  from requests_answered_once_in_kind[OF d] log s d show ?thesis by fastforce
qed

subsection \<open>A concrete native approval\<close>









definition demo_box_request :: pending_request where
  "demo_box_request = \<lparr>pq_hosts = [''box''], pq_anchor = demo_anchor, pq_created_at = 0, pq_failed_attempts = 0\<rparr>"

definition open_world :: "bool \<Rightarrow> vault_world \<Rightarrow> lease_world" where
  "open_world asked v =
     \<lparr>lw_pending = (if asked then [(''11111111'', demo_box_request)] else []), lw_active = [], lw_vault = v\<rparr>"





lemma open_fields [simp]:
  "lw_vault (open_world asked v) = v" "lw_active (open_world asked v) = []"
  "lw_pending (open_world True v) = [(''11111111'', demo_box_request)]" "lw_pending (open_world False v) = []"
  "pq_hosts demo_box_request = [''box'']" "pq_anchor demo_box_request = demo_anchor"
  by (simp_all add: open_world_def demo_box_request_def)











end
