(* ===== verification/Config_Agreement.thy ===== *)
theory Config_Agreement
  imports Config
begin

text \<open>
  When two parses of an OpenSSH configuration agree for a host name: the parser as steps over
  directives, the blocks that can affect a name, and the relation between parse states under
  which the rest of the file resolves that name alike.
\<close>

subsection \<open>The parser as directive steps\<close>

text \<open>The directive of a line, in lower case, and its trimmed arguments.\<close>

definition directive_of :: "string \<Rightarrow> (string \<times> string) option" where
  "directive_of raw =
     (let line = trim raw in
      if line = [] \<or> take 1 line = ''#'' then None
      else map_option (\<lambda>(d, r). (to_ascii_lowercase d, trim r)) (split_directive line))"

definition act :: "config_env \<Rightarrow> include_loader \<Rightarrow> nat \<Rightarrow> string \<times> string \<Rightarrow> parse_state \<Rightarrow> parse_state" where
  "act E loader n dr st =
     (case dr of (d, r) \<Rightarrow>
        if d = ''match'' then
          (let st1 = flush_current st in
           st1\<lparr>ps_blocks := map_hd (add_diagnostic n (UnsupportedDirectiveKind d)) (ps_blocks st1), ps_in_match := True\<rparr>)
        else if d = ''host'' then
          (flush_current st)\<lparr>ps_in_match := False, ps_current := Some (block_default (split_whitespace r))\<rparr>
        else if ps_in_match st then st
        else if d = ''include'' then include_step loader n r st
        else with_current_or_global (directive_update E n d r) st)"

lemma parse_line_act:
  "parse_line E (Some loader) (n, raw) st = (case directive_of raw of None \<Rightarrow> st | Some dr \<Rightarrow> act E loader n dr st)"
  by (auto simp: parse_line_def directive_of_def act_def Let_def split: option.splits prod.splits)

text \<open>Lines with numbers from \<open>n\<close> on.\<close>

fun parse_from :: "config_env \<Rightarrow> include_loader \<Rightarrow> nat \<Rightarrow> string list \<Rightarrow> parse_state \<Rightarrow> parse_state" where
  "parse_from E loader n [] st = st"
| "parse_from E loader n (raw # ls) st = parse_from E loader (Suc n) ls (parse_line E (Some loader) (n, raw) st)"

lemma parse_from_append:
  "parse_from E loader n (xs @ ys) st = parse_from E loader (n + length xs) ys (parse_from E loader n xs st)"
  by (induction xs arbitrary: n st) auto

lemma fold_parse_from:
  "fold (parse_line E (Some loader)) (zip [n..<n + length ls] ls) st = parse_from E loader n ls st"
proof (induction ls arbitrary: n st)
  case (Cons raw ls)
  have "[n..<n + length (raw # ls)] = n # [Suc n..<Suc n + length ls]" by (simp add: upt_conv_Cons del: upt_Suc)
  with Cons[of "Suc n"] show ?case by (simp del: upt_Suc)
qed simp

lemma parse_at_from:
  "parse_at E base contents =
     ps_blocks (flush_current (parse_from E (load_includes MAX_INCLUDE_DEPTH E base) 1 (str_lines contents) (parse_start 0)))"
  using fold_parse_from[of E "load_includes MAX_INCLUDE_DEPTH E base" 1 "str_lines contents" "parse_start 0"]
  by (simp add: parse_at_def parse_with_def numbered_lines_def Let_def del: upt_Suc)

subsection \<open>The blocks that matter for a name\<close>

definition erase :: "host_block \<Rightarrow> host_block" where "erase b = b\<lparr>hb_diagnostics := []\<rparr>"

definition bare :: "host_block \<Rightarrow> bool" where
  "bare b \<longleftrightarrow> hb_hostname b = None \<and> hb_host_key_alias b = None \<and> hb_port b = None \<and> hb_user b = None
     \<and> hb_identity_files b = [] \<and> hb_proxy_jump b = None \<and> hb_identity_agent b = None"

definition effective :: "string \<Rightarrow> host_block list \<Rightarrow> host_block list" where
  "effective k bs = map erase (filter (\<lambda>b. block_matches b k \<and> \<not> bare b) bs)"

lemma effective_append [simp]: "effective k (xs @ ys) = effective k xs @ effective k ys"
  by (simp add: effective_def)

lemma effective_Nil [simp]: "effective k [] = []"
  by (simp add: effective_def)

lemma effective_Cons: "effective k (b # bs) = effective k [b] @ effective k bs"
  by (simp add: effective_def)

lemma effective_other [simp]: "\<not> block_matches b k \<Longrightarrow> effective k [b] = []"
  by (simp add: effective_def)

lemma find_map_effective:
  assumes "\<And>b. bare b \<Longrightarrow> f b = None" and "\<And>b. f (erase b) = f b"
  shows "find_map f (filter (\<lambda>b. block_matches b k) bs) = find_map f (effective k bs)"
  using assms by (induction bs) (auto simp: effective_def split: option.splits)

lemma concat_effective:
  "concat (map hb_identity_files (filter (\<lambda>b. block_matches b k) bs)) = concat (map hb_identity_files (effective k bs))"
  by (induction bs) (auto simp: effective_def bare_def erase_def)

lemma resolve_effective:
  "resolve E cfg other = resolved E other (effective (snd (split_user_host other)) cfg)"
proof -
  let ?m = "filter (\<lambda>b. block_matches b (snd (split_user_host other))) cfg"
  let ?e = "effective (snd (split_user_host other)) cfg"
  have "find_map hb_hostname ?m = find_map hb_hostname ?e" "find_map hb_host_key_alias ?m = find_map hb_host_key_alias ?e"
    "find_map hb_port ?m = find_map hb_port ?e" "find_map hb_user ?m = find_map hb_user ?e"
    "find_map hb_proxy_jump ?m = find_map hb_proxy_jump ?e" "find_map hb_identity_agent ?m = find_map hb_identity_agent ?e"
    by (rule find_map_effective, simp_all add: bare_def erase_def)+
  then show ?thesis
    by (intro host_config.equality) (simp_all add: resolve_eq_resolved resolved_fields concat_effective cong: option.case_cong)
qed

lemma erase_matches: "erase b = erase b' \<Longrightarrow> block_matches b k = block_matches b' k"
  by (cases b; cases b') (auto simp: erase_def block_matches_def)

lemma erase_effective: "erase b = erase b' \<Longrightarrow> effective k [b] = effective k [b']"
  by (cases b; cases b') (auto simp: erase_def block_matches_def effective_def bare_def)

lemma erase_update: "erase b = erase b' \<Longrightarrow> erase (directive_update E n d r b) = erase (directive_update E n' d r b')"
  by (cases b; cases b') (auto simp: erase_def directive_update_def add_diagnostic_def get_or_insert_def split: option.splits)

lemma erase_add_diagnostic [simp]: "erase (add_diagnostic n x b) = erase b"
  by (simp add: erase_def add_diagnostic_def)

lemma update_matches [simp]: "block_matches (directive_update E n d r b) k = block_matches b k"
  by (simp add: block_matches_def directive_update_keeps)

lemma add_diagnostic_matches [simp]: "block_matches (add_diagnostic n x b) k = block_matches b k"
  by (simp add: block_matches_def add_diagnostic_def)

lemma effective_add_diagnostic [simp]: "effective k (add_diagnostic n x b # bs) = effective k (b # bs)"
  using erase_effective[of "add_diagnostic n x b" b k] effective_append[of k "[b]" bs]
    effective_append[of k "[add_diagnostic n x b]" bs] by simp

lemma effective_map_hd [simp]: "effective k (map_hd (add_diagnostic n x) bs) = effective k bs"
  by (cases bs) auto

subsection \<open>Agreement of parse states\<close>

text \<open>All blocks read so far, the one being read included.\<close>

definition all_blocks :: "parse_state \<Rightarrow> host_block list" where
  "all_blocks st = ps_blocks st @ (case ps_current st of Some b \<Rightarrow> [b] | None \<Rightarrow> [])"

lemma flush_blocks: "ps_blocks (flush_current st) = all_blocks st"
  and flush_current_None: "ps_current (flush_current st) = None"
  and flush_files: "ps_files (flush_current st) = ps_files st"
  by (auto simp: flush_current_def all_blocks_def split: option.splits)

lemmas flushes = flush_blocks flush_current_None flush_files

definition flushed_agree :: "string \<Rightarrow> parse_state \<Rightarrow> parse_state \<Rightarrow> bool" where
  "flushed_agree k st st' \<longleftrightarrow> ps_files st = ps_files st' \<and> effective k (all_blocks st) = effective k (all_blocks st')"

text \<open>Two current blocks that will stay alike: equal settings, or neither concerns the name.\<close>

definition same_block :: "string \<Rightarrow> host_block \<Rightarrow> host_block \<Rightarrow> bool" where
  "same_block k b b' \<longleftrightarrow> hb_include_guards b = [] \<and> hb_include_guards b' = []
     \<and> (erase b = erase b' \<or> \<not> block_matches b k \<and> \<not> block_matches b' k)"

definition agree :: "string \<Rightarrow> parse_state \<Rightarrow> parse_state \<Rightarrow> bool" where
  "agree k st st' \<longleftrightarrow> ps_files st = ps_files st' \<and> ps_in_match st = ps_in_match st'
     \<and> effective k (ps_blocks st) = effective k (ps_blocks st')
     \<and> (case (ps_current st, ps_current st') of
          (None, None) \<Rightarrow> ps_in_match st
        | (Some b, Some b') \<Rightarrow> same_block k b b'
        | _ \<Rightarrow> False)"

lemma flushed_agree_refl [simp]: "flushed_agree k st st"
  by (simp add: flushed_agree_def)

lemma flushed_agree_trans: "flushed_agree k a b \<Longrightarrow> flushed_agree k b c \<Longrightarrow> flushed_agree k a c"
  by (simp add: flushed_agree_def)

lemma flushed_agree_sym: "flushed_agree k a b \<Longrightarrow> flushed_agree k b a"
  by (simp add: flushed_agree_def)

lemma agree_flushed: "agree k st st' \<Longrightarrow> flushed_agree k st st'"
  by (auto simp: agree_def flushed_agree_def all_blocks_def same_block_def dest: erase_effective[where k = k]
      split: option.splits)

lemma flushed_agree_resolve:
  assumes "flushed_agree (snd (split_user_host other)) st st'"
  shows "resolve E (ps_blocks (flush_current st)) other = resolve E (ps_blocks (flush_current st')) other"
  using assms by (simp add: resolve_effective flushes flushed_agree_def)

lemma boundary_agree:
  assumes "flushed_agree k st st'" and "d = ''host'' \<or> d = ''match''"
  shows "agree k (act E loader n (d, r) st) (act E loader n' (d, r) st')"
  using assms by (auto simp: act_def agree_def flushed_agree_def flushes same_block_def block_default_def Let_def)

lemma include_same:
  assumes "ps_files st = ps_files st'" and "ps_in_match st = ps_in_match st'"
    and "effective k (ps_blocks st) = effective k (ps_blocks st')"
    and "ps_current st = Some b" and "ps_current st' = Some b'" and "same_block k b b'"
  shows "agree k (include_step loader n r st) (include_step loader n' r st')"
proof -
  have e: "effective k [b] = effective k [b']"
    using assms(6) erase_effective[of b b' k] by (auto simp: same_block_def)
  have g: "effective k (map (\<lambda>c. c\<lparr>hb_include_guards := hb_include_guards c @ [hb_patterns b]\<rparr>) cs)
      = effective k (map (\<lambda>c. c\<lparr>hb_include_guards := hb_include_guards c @ [hb_patterns b']\<rparr>) cs)" for cs
  proof -
    consider "hb_patterns b = hb_patterns b'" | "\<not> host_patterns_match (hb_patterns b) k" "\<not> host_patterns_match (hb_patterns b') k"
      using assms(6) by (cases b; cases b') (auto simp: same_block_def erase_def block_matches_def)
    then show ?thesis
    proof cases
      case 2
      then have "effective k (map (\<lambda>c. c\<lparr>hb_include_guards := hb_include_guards c @ [hb_patterns x]\<rparr>) cs) = []"
        if "x = b \<or> x = b'" for x using that by (auto simp: effective_def filter_empty_conv block_matches_def)
      then show ?thesis by simp
    qed simp
  qed
  have s: "same_block k (block_default (hb_patterns b)) (block_default (hb_patterns b'))"
    using assms(6) by (cases b; cases b') (auto simp: same_block_def erase_def block_matches_def block_default_def)
  have eg: "effective k (b # map (\<lambda>c. c\<lparr>hb_include_guards := hb_include_guards c @ [hb_patterns b]\<rparr>) cs)
      = effective k (b' # map (\<lambda>c. c\<lparr>hb_include_guards := hb_include_guards c @ [hb_patterns b']\<rparr>) cs)" for cs
    by (simp only: effective_Cons[of k b "map f cs" for f cs] effective_Cons[of k b' "map f cs" for f cs] e g)
  obtain files result where l: "loader (ps_files st) r = (files, result)" by fastforce
  with assms(1) have l': "loader (ps_files st') r = (files, result)" by simp
  show ?thesis
  proof (cases result)
    case None
    then show ?thesis using assms(2,3) e s by (simp add: include_step_def agree_def Let_def l l' assms(4,5))
  next
    case (Some included)
    then show ?thesis using assms(2,3) eg s by (simp add: include_step_def agree_def Let_def l l' assms(4,5))
  qed
qed

lemma act_agree:
  assumes "agree k st st'" shows "agree k (act E loader n dr st) (act E loader n' dr st')"
proof -
  obtain d r where dr: "dr = (d, r)" by (cases dr)
  have q: "agree k (with_current_or_global (directive_update E n d r) st) (with_current_or_global (directive_update E n' d r) st')"
    if "\<not> ps_in_match st"
    using assms that
    by (auto simp: agree_def with_current_or_global_def same_block_def directive_update_keeps
        dest: erase_update[where E = E and n = n and d = d and r = r and n' = n'] split: option.splits)
  have i: "agree k (include_step loader n r st) (include_step loader n' r st')" if n: "\<not> ps_in_match st"
  proof -
    obtain b b' where "ps_current st = Some b" "ps_current st' = Some b'" "same_block k b b'"
      using assms n by (cases "ps_current st"; cases "ps_current st'") (auto simp: agree_def)
    with assms show ?thesis by (intro include_same) (simp_all add: agree_def)
  qed
  show ?thesis
  proof (cases "d = ''match'' \<or> d = ''host''")
    case True
    then show ?thesis using boundary_agree[OF agree_flushed[OF assms]] dr by blast
  next
    case False
    moreover have "ps_in_match st = ps_in_match st'" using assms by (simp add: agree_def)
    ultimately show ?thesis using assms q i by (simp add: act_def dr)
  qed
qed

lemma parse_line_agree:
  "agree k st st' \<Longrightarrow> agree k (parse_line E (Some loader) (n, raw) st) (parse_line E (Some loader) (n', raw) st')"
  by (simp add: parse_line_act act_agree split: option.split)

lemma parse_from_agree: "agree k st st' \<Longrightarrow> agree k (parse_from E loader n ls st) (parse_from E loader n' ls st')"
proof (induction ls arbitrary: n n' st st')
  case (Cons raw ls)
  from Cons.IH[OF parse_line_agree[OF Cons.prems]] show ?case by simp
qed simp

text \<open>A tail of lines that begins with a boundary, or is empty.\<close>

definition boundary_line :: "string \<Rightarrow> bool" where
  "boundary_line raw \<longleftrightarrow> (\<exists>r. directive_of raw = Some (''host'', r) \<or> directive_of raw = Some (''match'', r))"

lemma parse_rest_agree:
  assumes "flushed_agree k st st'" and "ls = [] \<or> boundary_line (hd ls)"
  shows "flushed_agree k (parse_from E loader n ls st) (parse_from E loader n' ls st')"
proof (cases ls)
  case (Cons raw rest)
  with assms(2) obtain d r where "directive_of raw = Some (d, r)" "d = ''host'' \<or> d = ''match''"
    by (auto simp: boundary_line_def)
  then have "agree k (parse_line E (Some loader) (n, raw) st) (parse_line E (Some loader) (n', raw) st')"
    using boundary_agree[OF assms(1)] by (simp add: parse_line_act)
  then show ?thesis using Cons parse_from_agree agree_flushed by (metis parse_from.simps(2))
qed (use assms in simp)

subsection \<open>Lines of a block that does not concern the name\<close>

text \<open>Reading a block none of whose settings apply to \<open>k\<close>.\<close>

definition elsewhere :: "string \<Rightarrow> parse_state \<Rightarrow> bool" where
  "elsewhere k st \<longleftrightarrow> \<not> ps_in_match st
     \<and> (\<exists>b. ps_current st = Some b \<and> hb_include_guards b = [] \<and> \<not> block_matches b k)"

definition quiet_line :: "string \<Rightarrow> bool" where
  "quiet_line raw \<longleftrightarrow> (case directive_of raw of None \<Rightarrow> True | Some (d, _) \<Rightarrow> d \<notin> {''host'', ''match'', ''include''})"

lemma header_elsewhere:
  assumes "directive_of raw = Some (''host'', r)" and "\<not> host_patterns_match (split_whitespace r) k"
  shows "elsewhere k (parse_line E (Some loader) (n, raw) st)"
    and "flushed_agree k (parse_line E (Some loader) (n, raw) st) st"
  using assms
  by (auto simp: parse_line_act act_def elsewhere_def flushed_agree_def all_blocks_def[of "_\<lparr>ps_in_match := _, ps_current := _\<rparr>"]
      block_default_def block_matches_def flushes)

lemma quiet_elsewhere:
  assumes "elsewhere k st" and "quiet_line raw"
  shows "elsewhere k (parse_line E (Some loader) (n, raw) st)"
    and "flushed_agree k (parse_line E (Some loader) (n, raw) st) st"
  using assms
  by (auto simp: parse_line_act act_def elsewhere_def quiet_line_def with_current_or_global_def directive_update_keeps
      flushed_agree_def all_blocks_def split: option.splits)

lemma include_elsewhere:
  assumes "elsewhere k st" and "elsewhere k st'" and "flushed_agree k st st'"
  shows "agree k (include_step loader n r st) (include_step loader n' r st')"
    and "elsewhere k (include_step loader n r st)"
proof -
  from assms(1,2) obtain b b' where c: "ps_current st = Some b" "ps_current st' = Some b'" "same_block k b b'"
    "\<not> block_matches b k" "\<not> block_matches b' k" "\<not> ps_in_match st" "\<not> ps_in_match st'" "hb_include_guards b = []"
    by (auto simp: elsewhere_def same_block_def)
  with assms(3) show "agree k (include_step loader n r st) (include_step loader n' r st')"
    by (intro include_same) (auto simp: flushed_agree_def all_blocks_def)
  show "elsewhere k (include_step loader n r st)"
    using c by (auto simp: elsewhere_def include_step_def Let_def block_default_def block_matches_def
        split: prod.splits option.splits)
qed

lemma line_elsewhere:
  assumes "elsewhere k st" and "elsewhere k st'" and "flushed_agree k st st'" and "\<not> boundary_line raw"
  shows "elsewhere k (parse_line E (Some loader) (n, raw) st)"
    and "flushed_agree k (parse_line E (Some loader) (n, raw) st) (parse_line E (Some loader) (n', raw) st')"
proof -
  consider "quiet_line raw" | r where "directive_of raw = Some (''include'', r)"
    using assms(4) by (cases "directive_of raw") (auto simp: quiet_line_def boundary_line_def)
  then have "elsewhere k (parse_line E (Some loader) (n, raw) st)
      \<and> flushed_agree k (parse_line E (Some loader) (n, raw) st) (parse_line E (Some loader) (n', raw) st')"
  proof cases
    case 1
    then show ?thesis
      using quiet_elsewhere[OF assms(1)] quiet_elsewhere[OF assms(2)] assms(3)
      by (blast intro: flushed_agree_trans flushed_agree_sym)
  next
    case 2
    moreover have "\<not> ps_in_match st" "\<not> ps_in_match st'" using assms(1,2) by (simp_all add: elsewhere_def)
    ultimately show ?thesis
      using include_elsewhere(2)[OF assms(1-3)] agree_flushed[OF include_elsewhere(1)[OF assms(1-3)]]
      by (simp add: parse_line_act act_def)
  qed
  then show "elsewhere k (parse_line E (Some loader) (n, raw) st)"
    and "flushed_agree k (parse_line E (Some loader) (n, raw) st) (parse_line E (Some loader) (n', raw) st')" by auto
qed

text \<open>Dropping quiet lines of such a block changes nothing for the name.\<close>

lemma block_elsewhere:
  assumes "elsewhere k st" and "elsewhere k st'" and "flushed_agree k st st'"
    and "\<And>raw. raw \<in> set ls \<Longrightarrow> \<not> boundary_line raw" and "\<And>raw. raw \<in> set ls \<Longrightarrow> \<not> keep raw \<Longrightarrow> quiet_line raw"
  shows "flushed_agree k (parse_from E loader n ls st) (parse_from E loader n' (filter keep ls) st')"
  using assms
proof (induction ls arbitrary: n n' st st')
  case (Cons raw ls)
  let ?s = "parse_line E (Some loader) (n, raw) st"
  have e: "elsewhere k ?s" using line_elsewhere(1)[OF Cons.prems(1) Cons.prems(1) flushed_agree_refl] Cons.prems(4) by simp
  show ?case
  proof (cases "keep raw")
    case True
    let ?s' = "parse_line E (Some loader) (n', raw) st'"
    have "elsewhere k ?s'" using line_elsewhere(1)[OF Cons.prems(2) Cons.prems(2) flushed_agree_refl] Cons.prems(4) by simp
    moreover have "flushed_agree k ?s ?s'" using line_elsewhere(2)[OF Cons.prems(1-3)] Cons.prems(4) by simp
    ultimately show ?thesis using Cons.IH[OF e] Cons.prems(4,5) True by simp
  next
    case False
    then have "quiet_line raw" using Cons.prems(5) by simp
    from quiet_elsewhere(2)[OF Cons.prems(1) this] Cons.prems(3) have "flushed_agree k ?s st'"
      by (blast intro: flushed_agree_trans)
    with Cons.IH[OF e Cons.prems(2)] Cons.prems(4,5) False show ?thesis by simp
  qed
qed simp

lemma quiet_lines_elsewhere:
  assumes "elsewhere k st" and "\<And>raw. raw \<in> set ls \<Longrightarrow> quiet_line raw"
  shows "elsewhere k (parse_from E loader n ls st)" and "flushed_agree k (parse_from E loader n ls st) st"
proof -
  have "elsewhere k (parse_from E loader n ls st) \<and> flushed_agree k (parse_from E loader n ls st) st"
    using assms
  proof (induction ls arbitrary: n st)
    case (Cons raw ls)
    let ?s = "parse_line E (Some loader) (n, raw) st"
    have q: "elsewhere k ?s" "flushed_agree k ?s st" using quiet_elsewhere[OF Cons.prems(1)] Cons.prems(2) by simp_all
    from Cons.IH[OF q(1), of "Suc n"] Cons.prems(2) q(2) show ?case by (auto intro: flushed_agree_trans)
  qed simp
  then show "elsewhere k (parse_from E loader n ls st)" and "flushed_agree k (parse_from E loader n ls st) st" by auto
qed

end
