(* ===== verification/System_Hosts.thy ===== *)
theory System_Hosts
  imports Config_Agreement Vault
begin

text \<open>
  The user's own OpenSSH configuration as an inventory and as a file Sloosh edits
  (\<open>src/src/system_hosts.rs\<close>): one \<open>Host\<close> block is added, replaced or removed, the result is read
  back through the configuration parser before it is installed, and it is installed only over
  the text it was made from. The file system is the record \<open>config_files\<close>.
\<close>

unbundle bit_operations_syntax

definition MAX_CONFIG_BYTES :: nat where "MAX_CONFIG_BYTES = 1024 * 1024"

datatype edit_error =
    NotLiteral | NoUniqueBlock | SharedHeader | HostExists | BlockIncludes
  | BadHostname | BadPort | BadUser | BadJump
  | Refused config_error | Overridden
  | Unreadable | NotPrivate | TooLarge | NoDirectory | ChangedDuringEdit | WriteFailed | InstallFailed

record host_summary =
  hs_alias :: string
  hs_hostname :: string
  hs_port :: "nat option"
  hs_user :: "string option"
  hs_auth :: host_auth_kind
  hs_route :: host_route

subsection \<open>Rewriting the text\<close>

definition safe_char :: "char \<Rightarrow> bool" where
  "safe_char c \<longleftrightarrow> (48 \<le> code c \<and> code c \<le> 57) \<or> (65 \<le> code c \<and> code c \<le> 90) \<or> (97 \<le> code c \<and> code c \<le> 122)
     \<or> c \<in> set ''-._:@,[]''"

definition safe_value :: "string \<Rightarrow> bool" where
  "safe_value value \<longleftrightarrow> value \<noteq> [] \<and> str_len value \<le> 1024 \<and> list_all safe_char value"

text \<open>The \<open>Host\<close> and \<open>Match\<close> lines: index, directive and the rest of the line.\<close>

definition boundary :: "string \<Rightarrow> (string \<times> string) option" where
  "boundary line = (case split_directive line of
     Some (key, rest) \<Rightarrow>
       if eq_ignore_ascii_case key ''host'' \<or> eq_ignore_ascii_case key ''match'' then Some (key, rest) else None
   | None \<Rightarrow> None)"

fun boundaries :: "nat \<Rightarrow> string list \<Rightarrow> (nat \<times> string \<times> string) list" where
  "boundaries i [] = []"
| "boundaries i (line # ls) = (case boundary line of
     Some (key, rest) \<Rightarrow> (i, key, rest) # boundaries (Suc i) ls
   | None \<Rightarrow> boundaries (Suc i) ls)"

text \<open>Each boundary with the end of its block: the next boundary, or the end of the file.\<close>

fun blocks_of :: "nat \<Rightarrow> (nat \<times> string \<times> string) list \<Rightarrow> (nat \<times> nat \<times> string \<times> string) list" where
  "blocks_of len [] = []"
| "blocks_of len ((start, key, rest) # bs) =
     (start, (case bs of [] \<Rightarrow> len | (next, _) # _ \<Rightarrow> next), key, rest) # blocks_of len bs"

definition names_alias :: "string \<Rightarrow> nat \<times> nat \<times> string \<times> string \<Rightarrow> bool" where
  "names_alias alias b = (case b of (_, _, key, rest) \<Rightarrow>
     eq_ignore_ascii_case key ''host'' \<and> alias \<in> set (split_whitespace rest))"

definition edit_range ::
  "config_env \<Rightarrow> string \<Rightarrow> string \<Rightarrow> string \<Rightarrow> bool \<Rightarrow> edit_error + (nat \<times> nat) option" where
  "edit_range E base text alias replace =
     (let lines = split_inclusive [] text in
      if replace
      then (case filter (names_alias alias) (blocks_of (length lines) (boundaries 0 lines)) of
              [(start, end, _, names)] \<Rightarrow>
                if trim names = alias then Inr (Some (start, end)) else Inl SharedHeader
            | _ \<Rightarrow> Inl NoUniqueBlock)
      else if contains_alias (parse_at E base text) alias then Inl HostExists else Inr None)"

definition directive_among :: "string list \<Rightarrow> string \<Rightarrow> bool" where
  "directive_among names line = (case split_directive line of
     Some (key, _) \<Rightarrow> list_ex (eq_ignore_ascii_case key) names | None \<Rightarrow> False)"

definition jump_text :: "host_route \<Rightarrow> string" where
  "jump_text route = (case route of Direct \<Rightarrow> ''none'' | ManagedHost alias \<Rightarrow> alias | ProxyJump spec \<Rightarrow> spec)"

definition desired_jump :: "host_route \<Rightarrow> string option" where
  "desired_jump route = (case route of Direct \<Rightarrow> None | ManagedHost alias \<Rightarrow> Some alias | ProxyJump spec \<Rightarrow> Some spec)"

definition check_host :: "host_summary \<Rightarrow> edit_error + unit" where
  "check_host h =
     (if \<not> safe_value (hs_hostname h) then Inl BadHostname
      else if hs_port h = Some 0 then Inl BadPort
      else if hs_user h \<noteq> None \<and> \<not> safe_value (the (hs_user h)) then Inl BadUser
      else if \<not> safe_value (jump_text (hs_route h)) then Inl BadJump
      else Inr ())"

definition block_lines :: "string \<Rightarrow> host_summary \<Rightarrow> string list" where
  "block_lines alias h =
     [''Host '' @ alias @ [LF], ''    HostName '' @ hs_hostname h @ [LF],
      ''    Port '' @ show_nat (case hs_port h of Some p \<Rightarrow> p | None \<Rightarrow> 22) @ [LF]]
     @ (case hs_user h of Some user \<Rightarrow> [''    User '' @ user @ [LF]] | None \<Rightarrow> [])
     @ [''    ProxyJump '' @ jump_text (hs_route h) @ [LF]]"

text \<open>What an edited block keeps: comments, identity settings, includes and all other lines.\<close>

definition kept_lines :: "string list \<Rightarrow> nat \<times> nat \<Rightarrow> string list" where
  "kept_lines lines extent = (case extent of (start, end) \<Rightarrow>
     filter (\<lambda>line. \<not> directive_among [''hostname'', ''port'', ''user'', ''proxyjump''] line)
       (drop (start + 1) (take end lines)))"

definition has_globals :: "string list \<Rightarrow> bool" where
  "has_globals ls = list_ex (\<lambda>line. trim line \<noteq> [] \<and> strip_prefix ''#'' (trim_start line) = None) ls"

definition edited_text :: "string list \<Rightarrow> (nat \<times> nat) option \<Rightarrow> string \<Rightarrow> host_summary option \<Rightarrow> string" where
  "edited_text lines extent alias host =
     (let block = (case host of
            None \<Rightarrow> []
          | Some h \<Rightarrow> concat (block_lines alias h)
              @ (case extent of Some r \<Rightarrow> concat (kept_lines lines r) | None \<Rightarrow> [])) in
      case extent of
        Some (start, end) \<Rightarrow> concat (take start lines) @ block @ concat (drop end lines)
      | None \<Rightarrow>
          let prefix_end = (case boundaries 0 lines of [] \<Rightarrow> length lines | (i, _) # _ \<Rightarrow> i) in
          block @ [LF] @ (if has_globals (take prefix_end lines) then ''Host *'' @ [LF] else []) @ concat lines)"

definition resolves_as :: "host_summary \<Rightarrow> host_config \<Rightarrow> bool" where
  "resolves_as h c \<longleftrightarrow> hc_hostname c = hs_hostname h
     \<and> hc_port c = (case hs_port h of Some p \<Rightarrow> p | None \<Rightarrow> 22)
     \<and> (case hs_user h of None \<Rightarrow> True | Some user \<Rightarrow> hc_user c = user)
     \<and> hc_proxy_jump c = desired_jump (hs_route h)"

definition block_includes :: "string list \<Rightarrow> (nat \<times> nat) option \<Rightarrow> bool" where
  "block_includes lines extent = (case extent of
     Some (start, end) \<Rightarrow> list_ex (directive_among [''include'']) (drop start (take end lines)) | None \<Rightarrow> False)"

definition rewrite ::
  "config_env \<Rightarrow> string \<Rightarrow> string \<Rightarrow> string \<Rightarrow> host_summary option \<Rightarrow> bool \<Rightarrow> edit_error + string" where
  "rewrite E base text alias host replace =
     (let lines = split_inclusive [] text in
      if \<not> safe_value alias \<or> list_ex (\<lambda>c. c \<in> set ''@,[]:'') alias then Inl NotLiteral
      else (case edit_range E base text alias replace of
        Inl e \<Rightarrow> Inl e
      | Inr extent \<Rightarrow>
          if host = None \<and> block_includes lines extent then Inl BlockIncludes
          else (case host of
            None \<Rightarrow> Inr (edited_text lines extent alias None)
          | Some h \<Rightarrow>
              (case check_host h of
                 Inl e \<Rightarrow> Inl e
               | Inr _ \<Rightarrow>
                   let updated = edited_text lines extent alias (Some h) in
                   (case resolve_for_connection E (parse_at E base updated) alias of
                      Inl e \<Rightarrow> Inl (Refused e)
                    | Inr c \<Rightarrow> if resolves_as h c then Inr updated else Inl Overridden)))))"

subsection \<open>The file\<close>

record config_file =
  cf_meta :: "(bool \<times> nat \<times> nat) option"
  cf_text :: "nat \<Rightarrow> string option"

datatype config_open = OpenMissing | OpenFailed | Opened config_file

definition read_config :: "nat \<Rightarrow> config_open \<Rightarrow> edit_error + string" where
  "read_config euid oc = (case oc of
     OpenMissing \<Rightarrow> Inr []
   | OpenFailed \<Rightarrow> Inl Unreadable
   | Opened f \<Rightarrow>
       (case cf_meta f of
          None \<Rightarrow> Inl Unreadable
        | Some (is_file, uid, mode) \<Rightarrow>
            if \<not> (is_file \<and> uid = euid \<and> mode AND 0x12 = 0) then Inl NotPrivate
            else (case cf_text f (MAX_CONFIG_BYTES + 1) of
                    None \<Rightarrow> Inl Unreadable
                  | Some text \<Rightarrow> if str_len text \<le> MAX_CONFIG_BYTES then Inr text else Inl TooLarge)))"

text \<open>
  One edit: the directory's hardening, the file as opened before and after the new text was
  written beside it, and whether writing, renaming and syncing succeed.
\<close>

record config_files =
  fl_private_dir :: bool
  fl_before :: config_open
  fl_written :: bool
  fl_after :: config_open
  fl_renamed :: bool
  fl_synced :: bool

text \<open>The outcome, and the text installed over the configuration, if any.\<close>

definition edit_at ::
  "config_env \<Rightarrow> nat \<Rightarrow> config_files \<Rightarrow> string \<Rightarrow> string \<Rightarrow> host_summary option \<Rightarrow> bool
     \<Rightarrow> (edit_error + unit) \<times> string option" where
  "edit_at E euid F base alias host replace =
     (if \<not> fl_private_dir F then (Inl NoDirectory, None)
      else (case read_config euid (fl_before F) of
        Inl e \<Rightarrow> (Inl e, None)
      | Inr original \<Rightarrow>
          (case rewrite E base original alias host replace of
             Inl e \<Rightarrow> (Inl e, None)
           | Inr updated \<Rightarrow>
               if str_len updated > MAX_CONFIG_BYTES then (Inl TooLarge, None)
               else if \<not> fl_written F then (Inl WriteFailed, None)
               else (case read_config euid (fl_after F) of
                       Inl e \<Rightarrow> (Inl e, None)
                     | Inr again \<Rightarrow>
                         if again \<noteq> original then (Inl ChangedDuringEdit, None)
                         else if \<not> fl_renamed F then (Inl InstallFailed, None)
                         else (if fl_synced F then Inr () else Inl InstallFailed, Some updated)))))"

definition save :: "config_env \<Rightarrow> nat \<Rightarrow> config_files \<Rightarrow> string \<Rightarrow> host_summary \<Rightarrow> bool \<Rightarrow> (edit_error + unit) \<times> string option" where
  "save E euid F base host replace = edit_at E euid F base (hs_alias host) (Some host) replace"

definition remove_host :: "config_env \<Rightarrow> nat \<Rightarrow> config_files \<Rightarrow> string \<Rightarrow> string \<Rightarrow> (edit_error + unit) \<times> string option" where
  "remove_host E euid F base alias = edit_at E euid F base alias None True"

text \<open>The inventory: each alias as it resolves, and why it cannot be edited, if it cannot.\<close>

definition system_host :: "config_env \<Rightarrow> string \<Rightarrow> string \<Rightarrow> ssh_config \<Rightarrow> string \<Rightarrow> host_summary \<times> edit_error option" where
  "system_host E base text cfg alias =
     (let c = resolve E cfg alias in
      (\<lparr>hs_alias = alias, hs_hostname = hc_hostname c, hs_port = Some (hc_port c), hs_user = Some (hc_user c),
        hs_auth = AgentKind,
        hs_route = (case hc_proxy_jump c of Some spec \<Rightarrow> ProxyJump spec | None \<Rightarrow> Direct)\<rparr>,
       case rewrite E base text alias None True of Inl e \<Rightarrow> Some e | Inr _ \<Rightarrow> None))"

definition list_hosts :: "config_env \<Rightarrow> nat \<Rightarrow> string \<Rightarrow> config_open \<Rightarrow> edit_error + (host_summary \<times> edit_error option) list" where
  "list_hosts E euid base oc = (case read_config euid oc of
     Inl e \<Rightarrow> Inl e
   | Inr text \<Rightarrow> let cfg = parse_at E base text in Inr (map (system_host E base text cfg) (aliases cfg)))"

subsection \<open>Lines of a text\<close>

text \<open>Every line but the last ends in a newline, and contains no other.\<close>

definition whole_line :: "string \<Rightarrow> bool" where
  "whole_line l \<longleftrightarrow> (\<exists>w. l = w @ [LF] \<and> LF \<notin> set w)"

fun lines_ok :: "string list \<Rightarrow> bool" where
  "lines_ok [] = True"
| "lines_ok [l] = (l \<noteq> [] \<and> LF \<notin> set (butlast l))"
| "lines_ok (l # ls) = (whole_line l \<and> lines_ok ls)"

lemma split_inclusive_ok: "LF \<notin> set acc \<Longrightarrow> lines_ok (split_inclusive acc s)"
proof (induction acc s rule: split_inclusive.induct)
  case (1 acc)
  then show ?case by (auto dest: in_set_butlastD)
next
  case (2 acc c s)
  show ?case
  proof (cases "c = LF")
    case True
    with 2 show ?thesis by (cases "split_inclusive [] s") (auto simp: whole_line_def)
  next
    case False
    with 2 show ?thesis by simp
  qed
qed

lemma split_inclusive_acc: "LF \<notin> set w \<Longrightarrow> split_inclusive acc (w @ s) = split_inclusive (acc @ w) s"
  by (induction w arbitrary: acc) auto

lemma split_inclusive_whole: "whole_line l \<Longrightarrow> split_inclusive [] (l @ s) = l # split_inclusive [] s"
  by (auto simp: whole_line_def split_inclusive_acc)

lemma split_inclusive_concat: "lines_ok ls \<Longrightarrow> split_inclusive [] (concat ls) = ls"
proof (induction ls rule: lines_ok.induct)
  case (2 l)
  show ?case
  proof (cases "last l = LF")
    case True
    with 2 have "whole_line l" unfolding whole_line_def by (metis append_butlast_last_id lines_ok.simps(2))
    from split_inclusive_whole[OF this, of "[]"] show ?thesis by simp
  next
    case False
    with 2 have "LF \<notin> set l" by (metis append_butlast_last_id lines_ok.simps(2) rotate1.simps(2) set_ConsD set_rotate1)
    from split_inclusive_acc[OF this, of "[]" "[]"] 2 show ?thesis by simp
  qed
qed (simp_all add: split_inclusive_whole)

lemma whole_line_ok: "whole_line l \<Longrightarrow> lines_ok (l # ls) = lines_ok ls"
  by (cases ls) (auto simp: whole_line_def)

lemma lines_ok_whole: "list_all whole_line xs \<Longrightarrow> lines_ok (xs @ ys) = lines_ok ys"
  by (induction xs) (auto simp: whole_line_ok)

lemma lines_ok_tail: "lines_ok (xs @ ys) \<Longrightarrow> lines_ok ys"
proof (induction xs)
  case (Cons x xs)
  then show ?case by (cases "xs @ ys") auto
qed simp

lemma lines_ok_init: "lines_ok (xs @ ys) \<Longrightarrow> ys \<noteq> [] \<Longrightarrow> list_all whole_line xs"
proof (induction xs)
  case (Cons x xs)
  then show ?case by (cases "xs @ ys") auto
qed simp

lemma lines_ok_filter: "lines_ok ls \<Longrightarrow> lines_ok (filter P ls)"
proof (induction ls rule: lines_ok.induct)
  case (3 l m ls)
  then show ?case by (cases "P l") (auto simp: whole_line_ok)
qed auto

lemma str_lines_concat: "lines_ok ls \<Longrightarrow> str_lines (concat ls) = map strip_newline ls"
  by (simp add: str_lines_def split_inclusive_concat)

subsection \<open>Directives of lines\<close>

lemma trim_snoc: "is_ws c \<Longrightarrow> trim (w @ [c]) = trim w"
proof -
  assume c: "is_ws c"
  show ?thesis
  proof (cases "list_all is_ws w")
    case True
    then have "dropWhile is_ws w = []" "dropWhile is_ws (w @ [c]) = []" using c by (simp_all add: list_all_iff)
    then show ?thesis by (simp only: trim_def trim_start_def)
  next
    case False
    then have "trim_start (w @ [c]) = trim_start w @ [c]"
      by (auto simp: trim_start_def dropWhile_append list_all_iff)
    then show ?thesis using c by (simp add: trim_def trim_end_def)
  qed
qed

lemma trim_strip_newline: "trim (strip_newline l) = trim l"
proof (cases "l \<noteq> [] \<and> last l = LF")
  case True
  have lf: "is_ws LF" and cr: "is_ws CR" by (simp_all add: is_ws_def)
  from True have l: "l = butlast l @ [LF]" by (metis append_butlast_last_id)
  then have t: "trim l = trim (butlast l)" using trim_snoc[OF lf] by metis
  show ?thesis
  proof (cases "butlast l \<noteq> [] \<and> last (butlast l) = CR")
    case cr_end: True
    then have "trim (butlast l) = trim (butlast (butlast l))" using trim_snoc[OF cr] by (metis append_butlast_last_id)
    then show ?thesis using True cr_end t by (simp add: strip_newline_def Let_def)
  next
    case False
    then show ?thesis using True t by (auto simp: strip_newline_def Let_def)
  qed
next
  case False
  then show ?thesis by (auto simp: strip_newline_def)
qed

lemma dropWhile_hd: "xs = [] \<or> \<not> P (hd xs) \<Longrightarrow> dropWhile P xs = xs"
  by (cases xs) auto

lemma trim_ends: "trim s = [] \<or> \<not> is_ws (hd (trim s)) \<and> \<not> is_ws (last (trim s))"
proof -
  let ?t = "dropWhile is_ws s"
  have last: "trim s = [] \<or> \<not> is_ws (last (trim s))"
  proof -
    have "trim s = rev (dropWhile is_ws (rev ?t))" by (simp add: trim_def trim_end_def trim_start_def)
    then show ?thesis using hd_dropWhile[of is_ws "rev ?t"] by (metis last_rev rev.simps(1))
  qed
  have hd: "\<not> is_ws (hd (trim s))" if n: "trim s \<noteq> []"
  proof -
    obtain ws where w: "?t = trim s @ ws"
      by (metis trim_def trim_end_def trim_start_def rev_append rev_rev_ident takeWhile_dropWhile_id)
    then have "?t \<noteq> []" "hd ?t = hd (trim s)" using n by auto
    then show ?thesis using hd_dropWhile[of is_ws s] by metis
  qed
  show ?thesis using last hd by blast
qed

lemma trim_id: "s = [] \<or> \<not> is_ws (hd s) \<and> \<not> is_ws (last s) \<Longrightarrow> trim s = s"
  by (auto simp: trim_def trim_end_def trim_start_def dropWhile_hd hd_rev)

lemma trim_trim [simp]: "trim (trim s) = trim s"
  using trim_ends trim_id by blast

lemma split_directive_trim [simp]: "split_directive (trim l) = split_directive l"
  by (simp add: split_directive_def)

lemma lower_hash: "take 1 d = ''#'' \<longleftrightarrow> take 1 (to_ascii_lowercase d) = ''#''"
proof (cases d)
  case (Cons c d)
  have "ascii_lower_char c = CHR ''#'' \<longleftrightarrow> c = CHR ''#''"
  proof
    assume a: "ascii_lower_char c = CHR ''#''"
    show "c = CHR ''#''"
    proof (rule ccontr)
      assume "c \<noteq> CHR ''#''"
      with a have u: "65 \<le> code c" "char_of (code c + 32) = CHR ''#''" "code c \<le> 90"
        by (auto simp: ascii_lower_char_def split: if_splits)
      have "(of_char (char_of (code c + 32) :: char) :: nat) = (code c + 32) mod 256" by (rule of_char_of)
      moreover have "(of_char (CHR ''#'') :: nat) = 35" by simp
      ultimately have "(code c + 32) mod 256 = 35" by (simp only: u(2))
      moreover have "(code c + 32) mod 256 = code c + 32" using u(3) by (intro mod_less) simp
      ultimately show False using u(1) by simp
    qed
  qed (simp add: ascii_lower_char_def)
  with Cons show ?thesis by (simp add: to_ascii_lowercase_def)
qed (simp add: to_ascii_lowercase_def)

text \<open>\<open>parse_line\<close> and the editor read the same directives.\<close>

lemma directive_of_split:
  "directive_of (strip_newline l) = (case split_directive l of
     None \<Rightarrow> None | Some (d, r) \<Rightarrow> if take 1 d = ''#'' then None else Some (to_ascii_lowercase d, trim r))"
proof -
  have hash: "take 1 (trim l) = ''#'' \<longleftrightarrow> take 1 d = ''#''" if d: "split_directive l = Some (d, r)" for d r
  proof (cases "trim l")
    case Nil
    with d show ?thesis by (auto simp: split_directive_def Let_def split: if_splits)
  next
    case (Cons c cs)
    have h: "\<not> (is_ws (CHR ''#'') \<or> CHR ''#'' = CHR ''='')" by (simp add: is_ws_def)
    have "d = takeWhile (\<lambda>c. \<not> (is_ws c \<or> c = CHR ''='')) (trim l) \<or> d = trim l"
      using d by (simp add: split_directive_def Let_def split: if_splits)
    with Cons h show ?thesis by (auto split: if_splits)
  qed
  have empty: "trim l = [] \<Longrightarrow> split_directive l = None" by (simp add: split_directive_def)
  show ?thesis
  proof (cases "split_directive l")
    case None
    then show ?thesis by (simp add: directive_of_def trim_strip_newline Let_def)
  next
    case (Some dr)
    obtain d r where dr: "dr = (d, r)" by (cases dr)
    have "trim l \<noteq> []" using Some empty by auto
    with Some dr hash[of d r] show ?thesis by (simp add: directive_of_def trim_strip_newline Let_def)
  qed
qed

subsection \<open>The shape of the edit\<close>

lemma boundary_iff: "boundary l \<noteq> None \<longleftrightarrow> boundary_line (strip_newline l)"
proof -
  have h: "take 1 d \<noteq> ''#''" if "to_ascii_lowercase d = ''host'' \<or> to_ascii_lowercase d = ''match''" for d
    using that lower_hash[of d] by auto
  have low: "to_ascii_lowercase ''host'' = ''host''" "to_ascii_lowercase ''match'' = ''match''" by code_simp+
  show ?thesis
    using h by (auto simp: boundary_def boundary_line_def directive_of_split eq_ignore_ascii_case_def low split: option.splits)
qed

lemma boundary_host:
  assumes "boundary l = Some (key, rest)" and "eq_ignore_ascii_case key ''host''"
  shows "directive_of (strip_newline l) = Some (''host'', trim rest)"
proof -
  have low: "to_ascii_lowercase ''host'' = ''host''" by code_simp
  have "split_directive l = Some (key, rest)" using assms(1) by (auto simp: boundary_def split: option.splits if_splits)
  moreover have "take 1 key \<noteq> ''#''" using assms(2) lower_hash[of key] by (auto simp: eq_ignore_ascii_case_def low)
  ultimately show ?thesis using assms(2) by (simp add: directive_of_split eq_ignore_ascii_case_def low)
qed

lemma boundaries_first:
  "case boundaries i ls of
     [] \<Rightarrow> list_all (\<lambda>l. boundary l = None) ls
   | (j, _) # _ \<Rightarrow> \<exists>body hdr rest. ls = body @ hdr # rest \<and> j = i + length body
       \<and> list_all (\<lambda>l. boundary l = None) body \<and> boundary hdr \<noteq> None"
proof (induction ls arbitrary: i)
  case (Cons l ls)
  show ?case
  proof (cases "boundary l")
    case None
    show ?thesis
    proof (cases "boundaries (Suc i) ls")
      case Nil
      then show ?thesis using Cons[of "Suc i"] None by simp
    next
      case (Cons a bs)
      obtain j kr where a: "a = (j, kr)" by (cases a)
      with Cons.IH[of "Suc i"] Cons obtain body hdr rest where
        b: "ls = body @ hdr # rest" "j = Suc i + length body" "list_all (\<lambda>l. boundary l = None) body" "boundary hdr \<noteq> None"
        by auto
      have "l # ls = (l # body) @ hdr # rest \<and> j = i + length (l # body)
          \<and> list_all (\<lambda>l. boundary l = None) (l # body) \<and> boundary hdr \<noteq> None"
        using b None by simp
      then have "\<exists>body hdr rest. l # ls = body @ hdr # rest \<and> j = i + length body
          \<and> list_all (\<lambda>l. boundary l = None) body \<and> boundary hdr \<noteq> None" by blast
      then show ?thesis using None Cons a by simp
    qed
  next
    case (Some kr)
    then have "l # ls = [] @ l # ls \<and> i = i + length [] \<and> list_all (\<lambda>l. boundary l = None) [] \<and> boundary l \<noteq> None" by simp
    then have "\<exists>body hdr rest. l # ls = body @ hdr # rest \<and> i = i + length body
          \<and> list_all (\<lambda>l. boundary l = None) body \<and> boundary hdr \<noteq> None" by blast
    then show ?thesis using Some by (simp split: prod.split)
  qed
qed simp

lemma blocks_of_shape:
  assumes "(start, end, key, names) \<in> set (blocks_of (i + length ls) (boundaries i ls))"
  shows "\<exists>pre hdr body rest. ls = pre @ hdr # body @ rest \<and> start = i + length pre \<and> end = start + 1 + length body
     \<and> boundary hdr = Some (key, names) \<and> list_all (\<lambda>l. boundary l = None) body
     \<and> (rest = [] \<or> boundary (hd rest) \<noteq> None)"
  using assms
proof (induction ls arbitrary: i)
  case (Cons l ls)
  have later: ?case if "(start, end, key, names) \<in> set (blocks_of (Suc i + length ls) (boundaries (Suc i) ls))"
  proof -
    from Cons.IH[OF that] obtain pre hdr body rest where
      "ls = pre @ hdr # body @ rest" "start = Suc i + length pre" "end = start + 1 + length body"
      "boundary hdr = Some (key, names)" "list_all (\<lambda>l. boundary l = None) body" "rest = [] \<or> boundary (hd rest) \<noteq> None"
      by blast
    then show ?thesis by (intro exI[of _ "l # pre"] exI[of _ hdr] exI[of _ body] exI[of _ rest]) simp
  qed
  show ?case
  proof (cases "boundary l")
    case None
    then show ?thesis using Cons.prems later by simp
  next
    case (Some kr)
    obtain k r where kr: "kr = (k, r)" by (cases kr)
    have "(start, end, key, names) \<in> set (blocks_of (Suc i + length ls) (boundaries (Suc i) ls))
      \<or> start = i \<and> key = k \<and> names = r
        \<and> end = (case boundaries (Suc i) ls of [] \<Rightarrow> Suc (i + length ls) | (next, _) # _ \<Rightarrow> next)"
      using Cons.prems Some kr by auto
    then show ?thesis
    proof
      assume here: "start = i \<and> key = k \<and> names = r
        \<and> end = (case boundaries (Suc i) ls of [] \<Rightarrow> Suc (i + length ls) | (next, _) # _ \<Rightarrow> next)"
      show ?thesis
      proof (cases "boundaries (Suc i) ls")
        case Nil
        with boundaries_first[where i = "Suc i" and ls = ls] have "list_all (\<lambda>l. boundary l = None) ls" by simp
        with here Nil Some kr show ?thesis by (intro exI[of _ "[]"] exI[of _ l] exI[of _ ls]) simp
      next
        case (Cons a bs)
        obtain j kr' where a: "a = (j, kr')" by (cases a)
        with boundaries_first[where i = "Suc i" and ls = ls] Cons obtain body hdr rest where
          "ls = body @ hdr # rest" "j = Suc i + length body" "list_all (\<lambda>l. boundary l = None) body" "boundary hdr \<noteq> None"
          by auto
        with here Cons a Some kr show ?thesis
          by (intro exI[of _ "[]"] exI[of _ l] exI[of _ body] exI[of _ "hdr # rest"]) simp
      qed
    qed (rule later)
  qed
qed simp

subsection \<open>The lines the editor writes\<close>

lemma safe_char_plain:
  assumes "safe_char c"
  shows "\<not> is_ws c" "c \<noteq> CHR ''=''" "c \<noteq> CHR ''#''" "c \<noteq> CHR ''*''" "c \<noteq> CHR ''?''" "c \<noteq> CHR ''!''" "c \<noteq> LF"
  using assms by (auto simp: safe_char_def is_ws_def)

lemma safe_value_chars: "safe_value v \<Longrightarrow> c \<in> set v \<Longrightarrow> safe_char c"
  by (simp add: safe_value_def list_all_iff)

lemma split_ws_plain: "list_all (\<lambda>c. \<not> is_ws c) s \<Longrightarrow> split_ws_from tok s = (if tok @ s = [] then [] else [tok @ s])"
  by (induction tok s rule: split_ws_from.induct) auto

lemma safe_word: "safe_value v \<Longrightarrow> split_whitespace v = [v]"
  using split_ws_plain[of v "[]"] safe_char_plain(1)
  by (auto simp: split_whitespace_def safe_value_def list_all_iff)

lemma safe_trim: "safe_value v \<Longrightarrow> trim v = v"
  by (rule trim_id) (auto simp: safe_value_def list_all_iff dest: safe_char_plain(1))

lemma glob_match_literal: "CHR ''*'' \<notin> set p \<Longrightarrow> CHR ''?'' \<notin> set p \<Longrightarrow> glob_match p t = (p = t)"
proof (induction p arbitrary: t)
  case (Cons c p)
  then show ?case by (cases t) auto
qed auto

text \<open>A literal alias names exactly itself.\<close>

lemma alias_pattern:
  assumes "safe_value alias" shows "host_patterns_match [alias] k \<longleftrightarrow> k = alias"
proof -
  have "take 1 alias \<noteq> ''!''" using assms by (cases "alias") (auto simp: safe_value_def dest: safe_char_plain(6))
  moreover have "glob_match alias k = (alias = k)"
    using safe_value_chars[OF assms] safe_char_plain(4,5) by (intro glob_match_literal) blast+
  ultimately show ?thesis by (auto simp: host_patterns_match_def host_patterns_match_from_iff)
qed

definition directive_word :: "string \<Rightarrow> bool" where
  "directive_word d \<longleftrightarrow> d \<noteq> [] \<and> take 1 d \<noteq> ''#'' \<and> list_all (\<lambda>c. \<not> is_ws c \<and> c \<noteq> CHR ''='') d"

lemma trim_indent: "list_all is_ws w \<Longrightarrow> trim (w @ s) = trim s"
  by (simp add: trim_def trim_start_def dropWhile_append list_all_iff)

lemma written_line:
  assumes "list_all is_ws indent" and "directive_word d" and "v \<noteq> []" and "list_all safe_char v"
  shows "directive_of (strip_newline (indent @ d @ CHR '' '' # v @ [LF])) = Some (to_ascii_lowercase d, v)"
proof -
  let ?stop = "\<lambda>c. is_ws c \<or> c = CHR ''=''"
  have v: "v \<noteq> []" "\<not> is_ws (hd v)" "\<not> is_ws (last v)" "hd v \<noteq> CHR ''=''"
    using assms(3,4) safe_char_plain(1,2)[of "hd v"] safe_char_plain(1)[of "last v"]
    by (auto simp: list_all_iff)
  have d: "d \<noteq> []" "\<not> is_ws (hd d)" "\<And>c. c \<in> set d \<Longrightarrow> \<not> ?stop c"
    using assms(2) by (auto simp: directive_word_def list_all_iff)
  have ws: "is_ws (CHR '' '')" "is_ws LF" by (simp_all add: is_ws_def)
  have "trim (indent @ d @ CHR '' '' # v @ [LF]) = trim (d @ CHR '' '' # v @ [LF])" using assms(1) by (rule trim_indent)
  also have "\<dots> = trim (d @ CHR '' '' # v)" using trim_snoc[OF ws(2), of "d @ CHR '' '' # v"] by simp
  also have "\<dots> = d @ CHR '' '' # v" using d v by (intro trim_id) simp
  finally have t: "trim (indent @ d @ CHR '' '' # v @ [LF]) = d @ CHR '' '' # v" .
  have tw: "takeWhile (\<lambda>c. \<not> is_ws c \<and> c \<noteq> CHR ''='') (d @ CHR '' '' # v) = d"
    "dropWhile (\<lambda>c. \<not> is_ws c \<and> c \<noteq> CHR ''='') (d @ CHR '' '' # v) = CHR '' '' # v"
    using d ws(1) by (simp_all add: takeWhile_append dropWhile_append)
  have ts: "trim_start v = v" "trim_start (CHR '' '' # v) = v" using v ws(1) by (simp_all add: trim_start_def dropWhile_hd)
  have "strip_prefix ''='' v = None" using v by (cases v) (auto simp: strip_prefix_def)
  then have "split_directive (indent @ d @ CHR '' '' # v @ [LF]) = Some (d, v)"
    using ws(1) by (simp add: split_directive_def t tw ts Let_def)
  then show ?thesis
    using assms(2) v by (simp add: directive_of_split directive_word_def trim_id)
qed

lemma show_nat_safe: "list_all safe_char (show_nat n) \<and> show_nat n \<noteq> []"
proof (induction n rule: show_nat.induct)
  case (1 n)
  have d: "safe_char (char_of (48 + m))" if "m < 10" for m :: nat
  proof -
    have "(of_char (char_of (48 + m) :: char) :: nat) = (48 + m) mod 256" by (rule of_char_of)
    also have "\<dots> = 48 + m" using that by (intro mod_less) simp
    finally show ?thesis using that by (simp add: safe_char_def)
  qed
  show ?case using 1 d[of n] d[of "n mod 10"] by (subst (1 2) show_nat.simps) auto
qed

subsection \<open>Edits and other hosts\<close>

lemma low_words:
  "to_ascii_lowercase ''Host'' = ''host''" "to_ascii_lowercase ''HostName'' = ''hostname''"
  "to_ascii_lowercase ''Port'' = ''port''" "to_ascii_lowercase ''User'' = ''user''"
  "to_ascii_lowercase ''ProxyJump'' = ''proxyjump''" "to_ascii_lowercase ''hostname'' = ''hostname''"
  "to_ascii_lowercase ''port'' = ''port''" "to_ascii_lowercase ''user'' = ''user''"
  "to_ascii_lowercase ''proxyjump'' = ''proxyjump''" "to_ascii_lowercase ''include'' = ''include''"
  by code_simp+

lemma directive_words:
  "directive_word ''Host''" "directive_word ''HostName''" "directive_word ''Port''" "directive_word ''User''"
  "directive_word ''ProxyJump''"
  by (simp_all add: directive_word_def is_ws_def)

text \<open>The first line the editor writes opens the alias's block; the others are quiet.\<close>

lemma header_line:
  assumes "safe_value alias" shows "directive_of (strip_newline (''Host '' @ alias @ [LF])) = Some (''host'', alias)"
  using written_line[of "[]" "''Host''" "alias"] assms by (simp add: directive_words low_words safe_value_def)

lemma written_quiet:
  assumes "check_host h = Inr ()" and "l \<in> set (tl (block_lines alias h))"
  shows "quiet_line (strip_newline l)"
proof -
  have ws: "list_all is_ws ''    ''" by (simp add: is_ws_def)
  have q: "quiet_line (strip_newline (''    '' @ d @ CHR '' '' # v @ [LF]))"
    if "directive_word d" "v \<noteq> []" "list_all safe_char v" "to_ascii_lowercase d \<notin> {''host'', ''match'', ''include''}" for d v
    using written_line[OF ws that(1-3)] that(4) by (simp add: quiet_line_def)
  have safe: "safe_value (hs_hostname h)" "safe_value (jump_text (hs_route h))" "\<And>u. hs_user h = Some u \<Longrightarrow> safe_value u"
    using assms(1) by (auto simp: check_host_def split: if_splits)
  show ?thesis
    using assms(2) q[of "''HostName''" "hs_hostname h"] q[of "''ProxyJump''" "jump_text (hs_route h)"]
      q[of "''Port''" "show_nat (case hs_port h of Some p \<Rightarrow> p | None \<Rightarrow> 22)"] q[of "''User''" "the (hs_user h)"] safe
    by (cases "hs_user h") (auto simp: block_lines_def directive_words low_words show_nat_safe safe_value_def)
qed

lemma written_whole:
  assumes "check_host h = Inr ()" and "safe_value alias" and "l \<in> set (block_lines alias h)"
  shows "whole_line l"
proof -
  have w: "whole_line (p @ v @ [LF])" if "LF \<notin> set p" "list_all safe_char v" for p v
    using that safe_char_plain(7) unfolding whole_line_def by (intro exI[of _ "p @ v"]) (auto simp: list_all_iff)
  have safe: "safe_value (hs_hostname h)" "safe_value (jump_text (hs_route h))" "\<And>u. hs_user h = Some u \<Longrightarrow> safe_value u"
    using assms(1) by (auto simp: check_host_def split: if_splits)
  show ?thesis
    using assms(2,3) safe w[of "''Host ''" "alias"] w[of "''    HostName ''" "hs_hostname h"]
      w[of "''    ProxyJump ''" "jump_text (hs_route h)"] w[of "''    User ''" "the (hs_user h)"]
      w[of "''    Port ''" "show_nat (case hs_port h of Some p \<Rightarrow> p | None \<Rightarrow> 22)"]
    by (cases "hs_user h") (auto simp: block_lines_def show_nat_safe safe_value_def)
qed

lemma directive_among_strip: "directive_among names (strip_newline l) = directive_among names l"
  using split_directive_trim[of "strip_newline l"] split_directive_trim[of l]
  by (simp add: directive_among_def trim_strip_newline)

lemma replaced_quiet:
  assumes "directive_among [''hostname'', ''port'', ''user'', ''proxyjump''] l"
  shows "quiet_line (strip_newline l)"
  using assms
  by (auto simp: directive_among_def quiet_line_def directive_of_split eq_ignore_ascii_case_def low_words
      split: option.splits)

lemma other_quiet:
  assumes "boundary l = None" and "\<not> directive_among [''include''] l"
  shows "quiet_line (strip_newline l)"
proof -
  have "\<not> boundary_line (strip_newline l)" using boundary_iff[of l] assms(1) by simp
  moreover have "directive_of (strip_newline l) \<noteq> Some (''include'', r)" for r
    using assms(2) by (auto simp: directive_among_def directive_of_split eq_ignore_ascii_case_def low_words split: option.splits)
  ultimately show ?thesis by (auto simp: quiet_line_def boundary_line_def split: option.splits)
qed

text \<open>A section read after \<open>st\<close>: a header of \<open>alias\<close> and lines of its block, or nothing.\<close>

lemma sections_agree:
  assumes al: "safe_value alias" "k \<noteq> alias"
    and hdr: "boundary hdr = Some (key, names)" "eq_ignore_ascii_case key ''host''" "trim names = alias"
    and body: "list_all (\<lambda>l. boundary l = None) body"
    and new: "new = [] \<and> \<not> list_ex (directive_among [''include'']) body
       \<or> (\<exists>h. check_host h = Inr () \<and> new = block_lines alias h
            @ filter (\<lambda>l. \<not> directive_among [''hostname'', ''port'', ''user'', ''proxyjump''] l) body)"
  shows "flushed_agree k (parse_from E loader n (map strip_newline (hdr # body)) st)
     (parse_from E loader n (map strip_newline new) st)"
proof -
  let ?keep = "\<lambda>l. \<not> directive_among [''hostname'', ''port'', ''user'', ''proxyjump''] l"
  have other: "\<not> host_patterns_match (split_whitespace alias) k"
    using al by (simp add: safe_word alias_pattern)
  let ?s = "parse_line E (Some loader) (n, strip_newline hdr) st"
  have s: "elsewhere k ?s" "flushed_agree k ?s st"
    using header_elsewhere[OF boundary_host[OF hdr(1,2)]] other by (simp_all add: hdr(3))
  have bodyraw: "\<And>raw. raw \<in> set (map strip_newline body) \<Longrightarrow> \<not> boundary_line raw"
    using body by (auto simp: list_all_iff simp flip: boundary_iff)
  from new show ?thesis
  proof
    assume n: "new = [] \<and> \<not> list_ex (directive_among [''include'']) body"
    then have "quiet_line raw" if "raw \<in> set (map strip_newline body)" for raw
      using that body other_quiet by (auto simp: list_all_iff list_ex_iff)
    then have "flushed_agree k (parse_from E loader (Suc n) (map strip_newline body) ?s) ?s"
      using quiet_lines_elsewhere(2)[OF s(1)] by blast
    with s(2) n show ?thesis by (auto intro: flushed_agree_trans)
  next
    assume "\<exists>h. check_host h = Inr () \<and> new = block_lines alias h @ filter ?keep body"
    then obtain h where h: "check_host h = Inr ()" "new = block_lines alias h @ filter ?keep body" by blast
    obtain written where w: "block_lines alias h = (''Host '' @ alias @ [LF]) # written" "written = tl (block_lines alias h)"
      by (simp add: block_lines_def)
    let ?t = "parse_line E (Some loader) (n, strip_newline (''Host '' @ alias @ [LF])) st"
    let ?u = "parse_from E loader (Suc n) (map strip_newline written) ?t"
    have t: "elsewhere k ?t" "flushed_agree k ?t st"
      using header_elsewhere[OF header_line[OF al(1)]] other by simp_all
    have q: "\<And>raw. raw \<in> set (map strip_newline written) \<Longrightarrow> quiet_line raw"
      using written_quiet[OF h(1)] w(2) by auto
    have u: "elsewhere k ?u" "flushed_agree k ?u ?t" using quiet_lines_elsewhere[OF t(1)] q by blast+
    have su: "flushed_agree k ?s ?u"
      using s(2) t(2) u(2) by (blast intro: flushed_agree_trans flushed_agree_sym)
    have dropped: "\<And>raw. raw \<in> set (map strip_newline body) \<Longrightarrow> \<not> ?keep raw \<Longrightarrow> quiet_line raw"
      using replaced_quiet by (auto simp: directive_among_strip)
    have kept: "map strip_newline (filter ?keep body) = filter ?keep (map strip_newline body)"
      by (simp add: filter_map o_def directive_among_strip)
    have "flushed_agree k (parse_from E loader (Suc n) (map strip_newline body) ?s)
        (parse_from E loader (Suc n + length written) (filter ?keep (map strip_newline body)) ?u)"
      by (rule block_elsewhere[OF s(1) u(1) su bodyraw dropped])
    then show ?thesis by (simp add: h(2) w(1) parse_from_append kept)
  qed
qed

text \<open>
  A new host goes before everything: what was global text is then read inside a \<open>Host *\<close> block.
\<close>

definition global_agree :: "string \<Rightarrow> parse_state \<Rightarrow> parse_state \<Rightarrow> bool" where
  "global_agree k st st' \<longleftrightarrow> ps_files st = ps_files st' \<and> \<not> ps_in_match st \<and> \<not> ps_in_match st'
     \<and> ps_current st = None \<and> effective k (ps_blocks st') = []
     \<and> (\<exists>g s. ps_blocks st = [g] \<and> ps_current st' = Some s \<and> erase s = erase g
          \<and> hb_patterns g = [''*''] \<and> hb_include_guards g = [])"

lemma global_flushed: "global_agree k st st' \<Longrightarrow> flushed_agree k st st'"
  by (auto simp: global_agree_def flushed_agree_def all_blocks_def dest: erase_effective[where k = k])

lemma erase_patterns: "erase s = erase g \<Longrightarrow> hb_patterns s = hb_patterns g \<and> hb_include_guards s = hb_include_guards g"
  by (cases s; cases g) (simp add: erase_def)

lemma default_bare [simp]: "effective k (block_default ps # bs) = effective k bs"
  by (simp add: effective_def bare_def block_default_def)

lemma global_include:
  assumes "global_agree k st st'"
  shows "agree k (include_step loader n r st) (include_step loader n' r st')"
proof -
  obtain g b where g: "ps_blocks st = [g]" "ps_current st' = Some b" "erase b = erase g" "hb_patterns g = [''*'']"
      "hb_include_guards g = []" "ps_files st = ps_files st'" "\<not> ps_in_match st" "\<not> ps_in_match st'"
      "ps_current st = None" "effective k (ps_blocks st') = []"
    using assms by (auto simp: global_agree_def)
  note p = erase_patterns[OF g(3)]
  have e: "effective k (b # bs) = effective k (g # bs)" for bs
    using erase_effective[OF g(3)] by (simp only: effective_Cons[of k b bs] effective_Cons[of k g bs])
  have d: "effective k (g # block_default ps # bs) = effective k (g # bs)" for ps bs
    by (simp only: effective_Cons[of k g "block_default ps # bs"] effective_Cons[of k g bs] default_bare)
  have d': "effective k (g # add_diagnostic n IncludeFailureKind (block_default ps) # bs) = effective k (g # bs)" for ps bs
    by (simp only: effective_Cons[of k g "add_diagnostic n IncludeFailureKind (block_default ps) # bs"]
        effective_Cons[of k g bs] effective_add_diagnostic default_bare)
  obtain files result where l: "loader (ps_files st') r = (files, result)" by fastforce
  have s: "same_block k (block_default ps) (block_default ps)" and pd: "hb_patterns (block_default ps) = ps" for ps
    by (simp_all add: same_block_def block_default_def)
  show ?thesis
  proof (cases result)
    case None
    then show ?thesis
      using g p by (simp add: include_step_def agree_def Let_def l e d' s pd)
  next
    case (Some included)
    then show ?thesis
      using g p by (simp add: include_step_def agree_def Let_def l e d s pd)
  qed
qed

lemma global_line:
  assumes "global_agree k st st' \<or> agree k st st'" and "\<not> boundary_line raw"
  shows "global_agree k (parse_line E (Some loader) (n, raw) st) (parse_line E (Some loader) (n', raw) st')
     \<or> agree k (parse_line E (Some loader) (n, raw) st) (parse_line E (Some loader) (n', raw) st')"
  using assms(1)
proof
  assume g: "global_agree k st st'"
  show ?thesis
  proof (cases "directive_of raw")
    case None
    with g show ?thesis by (simp add: parse_line_act)
  next
    case (Some dr)
    obtain d r where dr: "dr = (d, r)" by (cases dr)
    have nb: "d \<noteq> ''host''" "d \<noteq> ''match''" using assms(2) Some dr by (auto simp: boundary_line_def)
    have m: "\<not> ps_in_match st" "\<not> ps_in_match st'" using g by (simp_all add: global_agree_def)
    show ?thesis
    proof (cases "d = ''include''")
      case True
      then show ?thesis using global_include[OF g] Some dr m by (simp add: parse_line_act act_def)
    next
      case False
      have "global_agree k (with_current_or_global (directive_update E n d r) st) (with_current_or_global (directive_update E n' d r) st')"
        using g by (auto simp: global_agree_def with_current_or_global_def directive_update_keeps intro: erase_update)
      then show ?thesis using Some dr m nb False by (simp add: parse_line_act act_def)
    qed
  qed
qed (simp add: parse_line_agree)

lemma global_lines:
  assumes "global_agree k st st' \<or> agree k st st'" and "\<And>raw. raw \<in> set ls \<Longrightarrow> \<not> boundary_line raw"
  shows "flushed_agree k (parse_from E loader n ls st) (parse_from E loader n' ls st')"
  using assms
proof (induction ls arbitrary: n n' st st')
  case (Cons raw ls)
  from Cons.IH[OF global_line[OF Cons.prems(1)], of raw] Cons.prems(2) show ?case by simp
qed (auto dest: global_flushed agree_flushed)

lemma silent_lines: "(\<And>raw. raw \<in> set ls \<Longrightarrow> directive_of raw = None) \<Longrightarrow> parse_from E loader n ls st = st"
  by (induction ls arbitrary: n) (simp_all add: parse_line_act)

lemma not_global_silent:
  assumes "\<not> has_globals ls" and "l \<in> set ls"
  shows "directive_of (strip_newline l) = None"
proof -
  have "trim l = [] \<or> strip_prefix ''#'' (trim_start l) \<noteq> None" using assms by (auto simp: has_globals_def list_ex_iff)
  moreover have "take 1 (trim l) = ''#''" if p: "strip_prefix ''#'' (trim_start l) \<noteq> None"
  proof -
    obtain t where t: "trim_start l = CHR ''#'' # t"
      using p by (cases "trim_start l") (auto simp: strip_prefix_def split: if_splits)
    have "\<not> is_ws (CHR ''#'')" by (simp add: is_ws_def)
    then have "dropWhile is_ws (rev t @ [CHR ''#'']) = dropWhile is_ws (rev t) @ [CHR ''#'']"
      by (auto simp: dropWhile_append)
    then have "trim l = CHR ''#'' # rev (dropWhile is_ws (rev t))" using t by (simp add: trim_def trim_end_def)
    then show ?thesis by simp
  qed
  ultimately show ?thesis by (auto simp: directive_of_def trim_strip_newline Let_def)
qed

text \<open>What precedes the old text when a host is added: nothing that concerns another name.\<close>

lemma added_agree:
  assumes al: "safe_value alias" "k \<noteq> alias"
    and new: "new = [] \<or> (\<exists>h. check_host h = Inr () \<and> new = block_lines alias h)"
    and old: "ls = before @ rest" "list_all (\<lambda>l. boundary l = None) before" "rest = [] \<or> boundary (hd rest) \<noteq> None"
  shows "flushed_agree k (parse_from E loader 1 (map strip_newline ls) (parse_start 0))
     (parse_from E loader 1 (map strip_newline (new @ [[LF]] @ (if has_globals before then [''Host *'' @ [LF]] else []) @ ls))
        (parse_start 0))"
proof -
  let ?s0 = "parse_start 0"
  let ?s1 = "parse_from E loader 1 (map strip_newline new) ?s0"
  have s1: "flushed_agree k ?s1 ?s0"
    using new
  proof
    assume "\<exists>h. check_host h = Inr () \<and> new = block_lines alias h"
    then obtain h where h: "check_host h = Inr ()" "new = block_lines alias h" by blast
    obtain written where w: "new = (''Host '' @ alias @ [LF]) # written" "written = tl (block_lines alias h)"
      by (simp add: block_lines_def h)
    have other: "\<not> host_patterns_match (split_whitespace alias) k" using al by (simp add: safe_word alias_pattern)
    let ?t = "parse_line E (Some loader) (1, strip_newline (''Host '' @ alias @ [LF])) ?s0"
    have t: "elsewhere k ?t" "flushed_agree k ?t ?s0"
      using header_elsewhere[OF header_line[OF al(1)]] other by simp_all
    have "\<And>raw. raw \<in> set (map strip_newline written) \<Longrightarrow> quiet_line raw"
      using written_quiet[OF h(1)] w(2) by auto
    then have "flushed_agree k (parse_from E loader 2 (map strip_newline written) ?t) ?t"
      using quiet_lines_elsewhere(2)[OF t(1)] by blast
    with t(2) show ?thesis by (auto simp: w(1) numeral_2_eq_2 intro: flushed_agree_trans)
  qed simp
  have blank: "directive_of (strip_newline [LF]) = None" by (simp add: strip_newline_def directive_of_def trim_def trim_start_def trim_end_def)
  have nb: "\<And>raw. raw \<in> set (map strip_newline before) \<Longrightarrow> \<not> boundary_line raw"
    using old(2) by (auto simp: list_all_iff simp flip: boundary_iff)
  have tail: "map strip_newline rest = [] \<or> boundary_line (hd (map strip_newline rest))"
    using old(3) boundary_iff by (cases rest) auto
  show ?thesis
  proof (cases "has_globals before")
    case False
    have "flushed_agree k (parse_from E loader n (map strip_newline before) ?s0) (parse_from E loader n' (map strip_newline before) ?s1)" for n n'
    proof -
      have "\<And>raw. raw \<in> set (map strip_newline before) \<Longrightarrow> directive_of raw = None"
        using not_global_silent[OF False] by auto
      then show ?thesis using s1 silent_lines[of "map strip_newline before"] by (simp add: flushed_agree_sym)
    qed
    from parse_rest_agree[OF this tail] False show ?thesis
      by (simp add: old(1) parse_from_append parse_line_act blank)
  next
    case True
    have star: "directive_of (strip_newline (''Host *'' @ [LF])) = Some (''host'', ''*'')" by code_simp
    have "global_agree k ?s0 (parse_line E (Some loader) (m, raw) ?s1)" if "directive_of raw = Some (''host'', ''*'')" for m raw
    proof -
      have "split_whitespace ''*'' = [''*'']" by code_simp
      moreover have "effective k (all_blocks ?s1) = []" "ps_files ?s1 = 0"
        using s1 by (simp_all add: flushed_agree_def all_blocks_def parse_start_def)
      ultimately show ?thesis
        using that by (simp add: parse_line_act act_def global_agree_def flushes parse_start_def block_default_def)
    qed
    from this[OF star] have "flushed_agree k (parse_from E loader n (map strip_newline before) ?s0)
        (parse_from E loader n' (map strip_newline before) (parse_line E (Some loader) (m, strip_newline (''Host *'' @ [LF])) ?s1))" for m n n'
      using global_lines[OF disjI1 nb] by blast
    from parse_rest_agree[OF this tail] True show ?thesis
      by (simp add: old(1) parse_from_append parse_line_act[of _ _ _ "strip_newline [LF]"] blank)
  qed
qed

lemma blocks_agree:
  assumes al: "safe_value alias" "k \<noteq> alias" and ls: "lines_ok ls"
    and ext: "filter (names_alias alias) (blocks_of (length ls) (boundaries 0 ls)) = [(start, end, key, names)]" "trim names = alias"
    and h: "host = None \<longrightarrow> \<not> block_includes ls (Some (start, end))" "host \<noteq> None \<longrightarrow> check_host (the host) = Inr ()"
  shows "flushed_agree k (parse_from E loader 1 (str_lines (concat ls)) st)
    (parse_from E loader 1 (str_lines (edited_text ls (Some (start, end)) alias host)) st)"
proof -
  let ?keep = "\<lambda>l. \<not> directive_among [''hostname'', ''port'', ''user'', ''proxyjump''] l"
  have "(start, end, key, names) \<in> set (filter (names_alias alias) (blocks_of (length ls) (boundaries 0 ls)))"
    unfolding ext(1) by simp
  then have mem: "(start, end, key, names) \<in> set (blocks_of (0 + length ls) (boundaries 0 ls))"
    and key: "eq_ignore_ascii_case key ''host''" by (auto simp: names_alias_def)
  from blocks_of_shape[OF mem] obtain pre hdr body rest where b:
    "ls = pre @ hdr # body @ rest" "start = length pre" "end = start + 1 + length body"
    "boundary hdr = Some (key, names)" "list_all (\<lambda>l. boundary l = None) body" "rest = [] \<or> boundary (hd rest) \<noteq> None"
    by auto
  define new where "new = (case host of None \<Rightarrow> [] | Some h \<Rightarrow> block_lines alias h @ filter ?keep body)"
  have edited: "edited_text ls (Some (start, end)) alias host = concat (pre @ new @ rest)"
    by (cases host) (simp_all add: edited_text_def new_def b(1-3) kept_lines_def)
  have sec: "new = [] \<and> \<not> list_ex (directive_among [''include'']) body
       \<or> (\<exists>h. check_host h = Inr () \<and> new = block_lines alias h @ filter ?keep body)"
  proof (cases host)
    case None
    have "\<not> list_ex (directive_among [''include'']) body"
      using h(1) None by (simp add: block_includes_def b(1-3))
    with None show ?thesis by (simp add: new_def)
  next
    case (Some a)
    with h(2) show ?thesis by (auto simp: new_def)
  qed
  have pre: "list_all whole_line pre" using ls lines_ok_init[of pre "hdr # body @ rest"] b(1) by simp
  have tail: "lines_ok (body @ rest)" using ls lines_ok_tail[of "pre @ [hdr]" "body @ rest"] b(1) by simp
  have "lines_ok (new @ rest)"
  proof (cases host)
    case None
    then show ?thesis using lines_ok_tail[OF tail] by (simp add: new_def)
  next
    case (Some a)
    have "list_all whole_line (block_lines alias a)"
      using written_whole[OF _ al(1)] h(2) Some by (auto simp: list_all_iff)
    moreover have "lines_ok (filter ?keep body @ rest)"
    proof (cases rest)
      case Nil
      then show ?thesis using lines_ok_filter tail by simp
    next
      case (Cons r rs)
      then have "list_all whole_line (filter ?keep body)"
        using lines_ok_init[OF tail] by (auto simp: list_all_iff)
      then show ?thesis using lines_ok_whole lines_ok_tail[OF tail] by blast
    qed
    ultimately show ?thesis using Some by (simp add: new_def lines_ok_whole)
  qed
  then have ok: "lines_ok (pre @ new @ rest)" using pre lines_ok_whole by blast
  have restb: "map strip_newline rest = [] \<or> boundary_line (hd (map strip_newline rest))"
    using b(6) boundary_iff by (cases rest) auto
  have "flushed_agree k
     (parse_from E loader n (map strip_newline rest) (parse_from E loader m (map strip_newline (hdr # body)) s))
     (parse_from E loader n' (map strip_newline rest) (parse_from E loader m (map strip_newline new) s))" for n n' m s
    by (rule parse_rest_agree[OF sections_agree[OF al b(4) key ext(2) b(5) sec] restb])
  then show ?thesis
    unfolding edited str_lines_concat[OF ok] str_lines_concat[OF ls]
    by (simp only: b(1) parse_from_append map_append append.assoc[symmetric] append_Cons[symmetric])
qed

lemma rewrite_cases:
  assumes "rewrite E base text alias host replace = Inr updated"
  obtains extent where "safe_value alias" "edit_range E base text alias replace = Inr extent"
    "updated = edited_text (split_inclusive [] text) extent alias host"
    "host = None \<longrightarrow> \<not> block_includes (split_inclusive [] text) extent"
    "host \<noteq> None \<longrightarrow> check_host (the host) = Inr ()"
    "\<And>h. host = Some h \<Longrightarrow> \<exists>c. resolve_for_connection E (parse_at E base updated) alias = Inr c \<and> resolves_as h c"
  using assms that
  by (auto simp: rewrite_def Let_def split: if_splits sum.splits option.splits)

lemma rewrite_other_hosts:
  assumes "rewrite E base text alias host replace = Inr updated" and "snd (split_user_host other) \<noteq> alias"
  shows "resolve E (parse_at E base updated) other = resolve E (parse_at E base text) other"
proof -
  let ?ls = "split_inclusive [] text" and ?k = "snd (split_user_host other)"
  let ?loader = "load_includes MAX_INCLUDE_DEPTH E base"
  from assms(1) obtain extent where r: "safe_value alias" "edit_range E base text alias replace = Inr extent"
    "updated = edited_text ?ls extent alias host" "host = None \<longrightarrow> \<not> block_includes ?ls extent"
    "host \<noteq> None \<longrightarrow> check_host (the host) = Inr ()" by (rule rewrite_cases)
  have ls: "lines_ok ?ls" "concat ?ls = text" by (simp_all add: split_inclusive_ok concat_split_inclusive)
  have "flushed_agree ?k (parse_from E ?loader 1 (str_lines (concat ?ls)) (parse_start 0))
      (parse_from E ?loader 1 (str_lines updated) (parse_start 0))"
  proof (cases extent)
    case (Some se)
    obtain start fin where se: "se = (start, fin)" by (cases se)
    with r(2) Some obtain key names where
      "filter (names_alias alias) (blocks_of (length ?ls) (boundaries 0 ?ls)) = [(start, fin, key, names)]" "trim names = alias"
      by (auto simp: edit_range_def Let_def split: if_splits list.splits)
    from blocks_agree[OF r(1) assms(2) ls(1) this] r(4,5) show ?thesis unfolding r(3) Some se by simp
  next
    case None
    define at_boundary where "at_boundary = (case boundaries 0 ?ls of [] \<Rightarrow> length ?ls | (i, _) # _ \<Rightarrow> i)"
    define new where "new = (case host of None \<Rightarrow> [] | Some h \<Rightarrow> block_lines alias h)"
    have split: "?ls = take at_boundary ?ls @ drop at_boundary ?ls
      \<and> list_all (\<lambda>l. boundary l = None) (take at_boundary ?ls)
      \<and> (drop at_boundary ?ls = [] \<or> boundary (hd (drop at_boundary ?ls)) \<noteq> None)"
      using boundaries_first[where i = 0 and ls = ?ls] by (auto simp: at_boundary_def split: list.splits)
    let ?new = "new @ [[LF]] @ (if has_globals (take at_boundary ?ls) then [''Host *'' @ [LF]] else []) @ ?ls"
    have upd: "updated = concat ?new"
      by (cases host) (simp_all add: r(3) None edited_text_def new_def at_boundary_def Let_def)
    have "list_all whole_line new"
      using written_whole[OF _ r(1)] r(5) by (cases host) (auto simp: new_def list_all_iff)
    moreover have "whole_line [LF]" "whole_line (''Host *'' @ [LF])"
      unfolding whole_line_def by (rule exI[of _ "[]"], simp, rule exI[of _ "''Host *''"], simp)
    ultimately have ok: "lines_ok ?new" using ls(1) by (simp add: lines_ok_whole whole_line_ok)
    have "new = [] \<or> (\<exists>h. check_host h = Inr () \<and> new = block_lines alias h)"
      using r(5) by (cases host) (auto simp: new_def)
    from added_agree[OF r(1) assms(2) this conjunct1[OF split] conjunct1[OF conjunct2[OF split]] conjunct2[OF conjunct2[OF split]]]
    show ?thesis unfolding upd str_lines_concat[OF ok] str_lines_concat[OF ls(1)] .
  qed
  from flushed_agree_resolve[OF this] show ?thesis by (simp add: parse_at_from ls(2))
qed

subsection \<open>Properties\<close>

text \<open>
  C11: adding, replacing or removing a host changes no other host. Whatever the configuration
  holds, includes, \<open>Match\<close> sections and global settings among it, every name but the edited alias
  resolves to the same settings under the rewritten text as before.
\<close>

theorem edits_leave_other_hosts:
  assumes "rewrite E base text alias host replace = Inr updated" and "snd (split_user_host other) \<noteq> alias"
  shows "resolve E (parse_at E base updated) other = resolve E (parse_at E base text) other"
  using assms by (rule rewrite_other_hosts)

definition demo_config_text :: string where
  "demo_config_text = ''Host a'' @ [LF] @ '' User b'' @ [LF] @ ''Host b'' @ [LF]"

lemma demo_rewrite: "rewrite demo_config_env ''/b'' demo_config_text ''a'' None True = Inr (''Host b'' @ [LF])"
proof -
  have s: "safe_value ''a'' \<and> \<not> list_ex (\<lambda>c. c \<in> set ''@,[]:'') ''a''"
    by (simp add: safe_value_def safe_char_def str_len_def)
  have e: "edit_range demo_config_env ''/b'' demo_config_text ''a'' True = Inr (Some (0, 2))" by code_simp
  have i: "\<not> block_includes (split_inclusive [] demo_config_text) (Some (0, 2))" by code_simp
  have t: "edited_text (split_inclusive [] demo_config_text) (Some (0, 2)) ''a'' None = ''Host b'' @ [LF]" by code_simp
  show ?thesis
    unfolding rewrite_def Let_def e sum.case using s i t by simp
qed

theorem edits_leave_other_hosts_witness:
  "\<exists>updated. rewrite demo_config_env ''/b'' demo_config_text ''a'' None True = Inr updated
     \<and> updated \<noteq> demo_config_text
     \<and> resolve demo_config_env (parse_at demo_config_env ''/b'' updated) ''b''
         = resolve demo_config_env (parse_at demo_config_env ''/b'' demo_config_text) ''b''"
proof -
  have k: "snd (split_user_host ''b'') \<noteq> ''a''" by code_simp
  from edits_leave_other_hosts[OF demo_rewrite k] demo_rewrite show ?thesis by (auto simp: demo_config_text_def)
qed

text \<open>
  A configuration is only replaced by a checked rewrite of itself. When an edit installs a text,
  the file was private and read the same before and after the new text was written, the text is
  within the size its readers accept, and a saved host resolves from it for a connection to exactly
  the host name, port, user and jump that were asked for; when nothing is installed an error is
  reported.
\<close>

theorem installed_edit_is_checked:
  assumes "edit_at E euid F base alias host replace = (r, installed)"
  shows "case installed of
     None \<Rightarrow> r \<noteq> Inr ()
   | Some updated \<Rightarrow>
       \<exists>original. read_config euid (fl_before F) = Inr original \<and> read_config euid (fl_after F) = Inr original
         \<and> rewrite E base original alias host replace = Inr updated \<and> str_len updated \<le> MAX_CONFIG_BYTES
         \<and> (case host of None \<Rightarrow> True
            | Some h \<Rightarrow> \<exists>c. resolve_for_connection E (parse_at E base updated) alias = Inr c \<and> resolves_as h c)"
proof (cases installed)
  case None
  with assms show ?thesis
    by (auto simp: edit_at_def split: if_splits sum.splits)
next
  case (Some updated)
  with assms obtain original where o: "read_config euid (fl_before F) = Inr original" "read_config euid (fl_after F) = Inr original"
    "rewrite E base original alias host replace = Inr updated" "str_len updated \<le> MAX_CONFIG_BYTES"
    by (auto simp: edit_at_def split: if_splits sum.splits)
  from o(3) have "\<And>h. host = Some h \<Longrightarrow> \<exists>c. resolve_for_connection E (parse_at E base updated) alias = Inr c \<and> resolves_as h c"
    by (rule rewrite_cases)
  with o Some show ?thesis by (auto split: option.split)
qed

theorem installed_edit_is_checked_witness:
  "\<exists>original. read_config 7 (fl_before \<lparr>fl_private_dir = True,
      fl_before = Opened \<lparr>cf_meta = Some (True, 7, 0x180), cf_text = (\<lambda>_. Some demo_config_text)\<rparr>, fl_written = True,
      fl_after = Opened \<lparr>cf_meta = Some (True, 7, 0x180), cf_text = (\<lambda>_. Some demo_config_text)\<rparr>,
      fl_renamed = True, fl_synced = True\<rparr>) = Inr original
    \<and> rewrite demo_config_env ''/b'' original ''a'' None True = Inr (''Host b'' @ [LF])"
proof -
  let ?f = "Opened \<lparr>cf_meta = Some (True, 7, 0x180), cf_text = (\<lambda>_. Some demo_config_text)\<rparr>"
  let ?F = "\<lparr>fl_private_dir = True, fl_before = ?f, fl_written = True, fl_after = ?f, fl_renamed = True, fl_synced = True\<rparr>"
  have rd: "read_config 7 ?f = Inr demo_config_text"
    by (simp add: read_config_def demo_config_text_def MAX_CONFIG_BYTES_def str_len_def)
  have len: "str_len (''Host b'' @ [LF]) \<le> MAX_CONFIG_BYTES" by (simp add: str_len_def MAX_CONFIG_BYTES_def)
  have e: "edit_at demo_config_env 7 ?F ''/b'' ''a'' None True = (Inr (), Some (''Host b'' @ [LF]))"
    using len by (simp add: edit_at_def rd demo_rewrite)
  from installed_edit_is_checked[OF e] show ?thesis by auto
qed

end
