(* ===== verification/Wire.thy ===== *)
theory Wire
  imports Daemon_Script
begin

text \<open>
  The bytes on the local socket: newline-delimited messages (\<open>write_message\<close>, \<open>read_message\<close> of
  \<open>src/src/proto.rs\<close>), raw stream frames (\<open>send_raw_frame\<close>, \<open>recv_raw_frame\<close> of
  \<open>src/src/transport/unix.rs\<close>), and the file transfers made of them: the daemon's half
  (\<open>src/src/daemon/mod.rs\<close>, \<open>src/src/daemon/session/sftp.rs\<close>) and the client's
  (\<open>src/src/cli/transfer.rs\<close>). JSON is a codec; files and the SFTP server are answers.
\<close>

definition MAX_WIRE_MESSAGE_BYTES :: nat where "MAX_WIRE_MESSAGE_BYTES = 1024 * 1024"
definition MAX_RAW_FRAME_BYTES :: nat where "MAX_RAW_FRAME_BYTES = 1024 * 1024"

datatype wire_error = Unserializable | MessageTooLong | Undecodable | FrameTooLong | UnexpectedEof | SocketFailed

subsection \<open>A buffered reader\<close>

text \<open>
  What the next fills of the read buffer return: bytes, or \<open>None\<close> for an I/O error. The end of the
  list, like an empty fill, is the end of the stream.
\<close>

type_synonym reader = "bytes option list"

definition unread :: "bytes \<Rightarrow> reader \<Rightarrow> reader" where
  "unread bs r = (if bs = [] then r else Some bs # r)"

fun read_exact :: "nat \<Rightarrow> reader \<Rightarrow> (wire_error + bytes) \<times> reader" where
  "read_exact n [] = (if n = 0 then Inr [] else Inl UnexpectedEof, [])"
| "read_exact n (None # r) = (if n = 0 then (Inr [], None # r) else (Inl SocketFailed, r))"
| "read_exact n (Some chunk # r) =
     (if n = 0 then (Inr [], Some chunk # r)
      else if chunk = [] then (Inl UnexpectedEof, Some chunk # r)
      else if n \<le> length chunk then (Inr (take n chunk), unread (drop n chunk) r)
      else (case read_exact (n - length chunk) r of
              (Inl e, r) \<Rightarrow> (Inl e, r) | (Inr bs, r) \<Rightarrow> (Inr (chunk @ bs), r)))"

subsection \<open>Messages\<close>

text \<open>\<open>serde_json\<close> on one message type.\<close>

record 'm codec =
  cd_encode :: "'m \<Rightarrow> bytes option"
  cd_decode :: "bytes \<Rightarrow> 'm option"

definition codec_ok :: "'m codec \<Rightarrow> bool" where
  "codec_ok C \<longleftrightarrow> (\<forall>m bs. cd_encode C m = Some bs \<longrightarrow>
     bs \<noteq> [] \<and> LF \<notin> set bs \<and> last bs \<noteq> CR \<and> cd_decode C bs = Some m)"

definition write_message :: "'m codec \<Rightarrow> 'm \<Rightarrow> wire_error + bytes" where
  "write_message C msg = (case cd_encode C msg of
     None \<Rightarrow> Inl Unserializable
   | Some line \<Rightarrow>
       let line = line @ [LF] in
       if length line > MAX_WIRE_MESSAGE_BYTES then Inl MessageTooLong else Inr line)"

definition newline_at :: "bytes \<Rightarrow> nat option" where
  "newline_at bs = (if LF \<in> set bs then Some (length (takeWhile (\<lambda>b. b \<noteq> LF) bs)) else None)"

fun read_line :: "nat \<Rightarrow> bytes \<Rightarrow> reader \<Rightarrow> (wire_error + bytes) \<times> reader" where
  "read_line limit line [] = (Inr line, [])"
| "read_line limit line (None # r) = (Inl SocketFailed, r)"
| "read_line limit line (Some available # r) =
     (if available = [] then (Inr line, Some available # r)
      else
        let newline = newline_at available;
            n = (case newline of Some i \<Rightarrow> i + 1 | None \<Rightarrow> length available) in
        if length line + n > limit then (Inl MessageTooLong, Some available # r)
        else if newline \<noteq> None then (Inr (line @ take n available), unread (drop n available) r)
        else read_line limit (line @ available) r)"

definition strip_line_end :: "bytes \<Rightarrow> bytes" where
  "strip_line_end line = rev (dropWhile (\<lambda>b. b = LF \<or> b = CR) (rev line))"

definition read_message_with_limit :: "'m codec \<Rightarrow> nat \<Rightarrow> reader \<Rightarrow> (wire_error + 'm option) \<times> reader" where
  "read_message_with_limit C limit r = (case read_line limit [] r of
     (Inl e, r) \<Rightarrow> (Inl e, r)
   | (Inr line, r) \<Rightarrow>
       let line = strip_line_end line in
       if line = [] then (Inr None, r)
       else (case cd_decode C line of None \<Rightarrow> (Inl Undecodable, r) | Some m \<Rightarrow> (Inr (Some m), r)))"

definition read_message :: "'m codec \<Rightarrow> reader \<Rightarrow> (wire_error + 'm option) \<times> reader" where
  "read_message C r = read_message_with_limit C MAX_WIRE_MESSAGE_BYTES r"

subsection \<open>Raw frames\<close>

definition to_be_bytes :: "nat \<Rightarrow> bytes" where
  "to_be_bytes n = map (\<lambda>k. char_of (n div 256 ^ k)) [3, 2, 1, 0 :: nat]"

definition from_be_bytes :: "bytes \<Rightarrow> nat" where
  "from_be_bytes bs = foldl (\<lambda>n b. n * 256 + of_char b) 0 bs"

definition send_raw_frame :: "bytes \<Rightarrow> wire_error + bytes" where
  "send_raw_frame frame =
     (if length frame > MAX_RAW_FRAME_BYTES then Inl FrameTooLong
      else Inr (to_be_bytes (length frame) @ frame))"

definition recv_raw_frame :: "reader \<Rightarrow> (wire_error + bytes option) \<times> reader" where
  "recv_raw_frame r = (case read_exact 4 r of
     (Inl e, r) \<Rightarrow> (Inl e, r)
   | (Inr header, r) \<Rightarrow>
       let n = from_be_bytes header in
       if n = 0 then (Inr None, r)
       else if n > MAX_RAW_FRAME_BYTES then (Inl FrameTooLong, r)
       else (case read_exact n r of (Inl e, r) \<Rightarrow> (Inl e, r) | (Inr frame, r) \<Rightarrow> (Inr (Some frame), r)))"

text \<open>Every received frame takes bytes off the reader.\<close>

definition reader_size :: "reader \<Rightarrow> nat" where
  "reader_size r = sum_list (map (\<lambda>c. case c of None \<Rightarrow> 1 | Some bs \<Rightarrow> Suc (length bs)) r)"

lemma reader_size_simps [simp]:
  "reader_size [] = 0" "reader_size (None # r) = Suc (reader_size r)"
  "reader_size (Some bs # r) = Suc (length bs) + reader_size r"
  by (simp_all add: reader_size_def)

lemma reader_size_unread: "reader_size (unread bs r) \<le> Suc (length bs) + reader_size r"
  by (simp add: unread_def)

lemma read_exact_size: "read_exact n r = (Inr bs, r') \<Longrightarrow> reader_size r' + n \<le> reader_size r"
proof (induction n r arbitrary: bs r' rule: read_exact.induct)
  case (3 n chunk r)
  then show ?case
    using reader_size_unread[of "drop n chunk" r]
    by (auto split: if_splits prod.splits sum.splits)
qed (auto split: if_splits)

lemma recv_raw_frame_size:
  assumes "recv_raw_frame r = (Inr f, r')" shows "reader_size r' < reader_size r"
proof -
  obtain h r1 where h: "read_exact 4 r = (Inr h, r1)"
    using assms by (auto simp: recv_raw_frame_def split: prod.splits sum.splits)
  from read_exact_size[OF h] have s: "reader_size r1 < reader_size r" by simp
  have "r' = r1 \<or> (\<exists>n frame. read_exact n r1 = (Inr frame, r'))"
    using assms h by (auto simp: recv_raw_frame_def Let_def split: prod.splits sum.splits if_splits)
  with s show ?thesis by (auto dest: read_exact_size)
qed

subsection \<open>Uploads: the daemon's half\<close>

text \<open>
  \<open>wr written chunk\<close> is the SFTP write: \<open>None\<close> when all of it is written, else how many bytes were.
\<close>

record upload =
  up_label :: transfer_reply
  up_remote :: bytes
  up_bytes :: nat

definition write_chunk :: "(bytes \<Rightarrow> bytes \<Rightarrow> nat option) \<Rightarrow> upload \<Rightarrow> bytes \<Rightarrow> upload \<times> bool" where
  "write_chunk wr up chunk = (case wr (up_remote up) chunk of
     None \<Rightarrow> (up\<lparr>up_remote := up_remote up @ chunk, up_bytes := sat_add (up_bytes up) (length chunk)\<rparr>, True)
   | Some n \<Rightarrow> (up\<lparr>up_remote := up_remote up @ take n chunk\<rparr>, False))"

definition finish_put :: "bool \<Rightarrow> upload \<Rightarrow> transfer_reply option" where
  "finish_put shut up = (if shut then Some ((up_label up)\<lparr>tr_bytes_transferred := up_bytes up\<rparr>) else None)"

text \<open>After a failed write the rest of the stream is received and dropped.\<close>

function put_frames ::
  "(bytes \<Rightarrow> bytes \<Rightarrow> nat option) \<Rightarrow> reader \<Rightarrow> upload \<Rightarrow> bool \<Rightarrow> (wire_error + upload \<times> bool) \<times> reader" where
  "put_frames wr r up failed = (case recv_raw_frame r of
     (Inl e, r) \<Rightarrow> (Inl e, r)
   | (Inr None, r) \<Rightarrow> (Inr (up, failed), r)
   | (Inr (Some chunk), r) \<Rightarrow>
       if failed then put_frames wr r up True
       else (case write_chunk wr up chunk of (up, ok) \<Rightarrow> put_frames wr r up (\<not> ok)))"
  by pat_completeness auto
termination
  by (relation "measure (\<lambda>(wr, r, up, failed). reader_size r)") (auto dest: recv_raw_frame_size[OF sym])

declare put_frames.simps [simp del]

text \<open>What the daemon answers, or the error that drops the connection.\<close>

definition serve_put ::
  "(bytes \<Rightarrow> bytes \<Rightarrow> nat option) \<Rightarrow> bool \<Rightarrow> reader \<Rightarrow> upload \<Rightarrow> (wire_error + upload \<times> transfer_reply option) \<times> reader" where
  "serve_put wr shut r up = (case put_frames wr r up False of
     (Inl e, r) \<Rightarrow> (Inl e, r)
   | (Inr (up, failed), r) \<Rightarrow> (Inr (up, if failed then None else finish_put shut up), r))"

subsection \<open>Downloads: the daemon's half\<close>

text \<open>
  The results of the reads into a buffer of \<open>MAX_RAW_FRAME_BYTES\<close>: \<open>None\<close> an error, an empty read
  (or the end of the list) the end of the file.
\<close>

type_synonym reads = "bytes option list"

fun get_frames :: "reads \<Rightarrow> nat \<Rightarrow> wire_error + bytes \<times> bool \<times> nat" where
  "get_frames [] n = Inr ([], False, n)"
| "get_frames (None # rs) n = Inr ([], True, n)"
| "get_frames (Some chunk # rs) n =
     (if chunk = [] then Inr ([], False, n)
      else (case send_raw_frame chunk of
              Inl e \<Rightarrow> Inl e
            | Inr w \<Rightarrow> (case get_frames rs (sat_add n (length chunk)) of
                          Inl e \<Rightarrow> Inl e | Inr (ws, failed, n) \<Rightarrow> Inr (w @ ws, failed, n))))"

text \<open>All that is sent after \<open>TransferReady\<close>: the frames, the end of the stream and the reply.\<close>

definition serve_get :: "response codec \<Rightarrow> daemon_message \<Rightarrow> transfer_reply \<Rightarrow> reads \<Rightarrow> wire_error + bytes" where
  "serve_get C message label rs = (case get_frames rs 0 of
     Inl e \<Rightarrow> Inl e
   | Inr (ws, failed, n) \<Rightarrow>
       (case send_raw_frame [] of
          Inl e \<Rightarrow> Inl e
        | Inr stop \<Rightarrow>
            (case write_message C (if failed then ErrorR message else TransferR (label\<lparr>tr_bytes_transferred := n\<rparr>)) of
               Inl e \<Rightarrow> Inl e | Inr reply \<Rightarrow> Inr (ws @ stop @ reply))))"

subsection \<open>The client\<close>

datatype client_error =
    WireFailed wire_error | DaemonClosed | DaemonError daemon_message | UnexpectedReply
  | LocalReadFailed | LocalWriteFailed | LocalFlushFailed
  | DestinationExists | NoDestinationDirectory | NoTempFile | InstallRefused | TempCleanupFailed

text \<open>\<open>recv\<close> and \<open>bail_on_error_or_unexpected\<close>.\<close>

definition receive_reply :: "response codec \<Rightarrow> reader \<Rightarrow> (client_error + response) \<times> reader" where
  "receive_reply C r = (case read_message C r of
     (Inl e, r) \<Rightarrow> (Inl (WireFailed e), r)
   | (Inr None, r) \<Rightarrow> (Inl DaemonClosed, r)
   | (Inr (Some (ErrorR message)), r) \<Rightarrow> (Inl (DaemonError message), r)
   | (Inr (Some response), r) \<Rightarrow> (Inr response, r))"

definition expect_transfer_ready :: "response codec \<Rightarrow> reader \<Rightarrow> (client_error + unit) \<times> reader" where
  "expect_transfer_ready C r = (case receive_reply C r of
     (Inl e, r) \<Rightarrow> (Inl e, r)
   | (Inr TransferReady, r) \<Rightarrow> (Inr (), r)
   | (Inr _, r) \<Rightarrow> (Inl UnexpectedReply, r))"

definition transfer_outcome :: "response codec \<Rightarrow> reader \<Rightarrow> client_error + transfer_reply" where
  "transfer_outcome C r = (case fst (receive_reply C r) of
     Inl e \<Rightarrow> Inl e | Inr (TransferR t) \<Rightarrow> Inr t | Inr _ \<Rightarrow> Inl UnexpectedReply)"

text \<open>What an upload sends after its request: a failed read ends it without the end of the stream.\<close>

fun send_upload :: "reads \<Rightarrow> bytes \<times> (client_error + unit)" where
  "send_upload [] = (case send_raw_frame [] of Inl e \<Rightarrow> ([], Inl (WireFailed e)) | Inr w \<Rightarrow> (w, Inr ()))"
| "send_upload (None # rs) = ([], Inl LocalReadFailed)"
| "send_upload (Some chunk # rs) =
     (if chunk = []
      then (case send_raw_frame [] of Inl e \<Rightarrow> ([], Inl (WireFailed e)) | Inr w \<Rightarrow> (w, Inr ()))
      else (case send_raw_frame chunk of
              Inl e \<Rightarrow> ([], Inl (WireFailed e))
            | Inr w \<Rightarrow> (case send_upload rs of (ws, res) \<Rightarrow> (w @ ws, res))))"

definition cmd_put :: "response codec \<Rightarrow> reads \<Rightarrow> reader \<Rightarrow> bytes \<times> (client_error + transfer_reply)" where
  "cmd_put C rs r = (case expect_transfer_ready C r of
     (Inl e, r) \<Rightarrow> ([], Inl e)
   | (Inr _, r) \<Rightarrow> (case send_upload rs of
       (sent, Inl e) \<Rightarrow> (sent, Inl e)
     | (sent, Inr _) \<Rightarrow> (sent, transfer_outcome C r)))"

text \<open>The destination of a download and the temporary file beside it.\<close>

record local_files =
  lf_destination :: "bytes option"
  lf_temp :: "bytes option"

text \<open>
  What the file system answers: the parent directory, creating the temporary file, each write,
  flushing, and the rename or link and removal; \<open>others\<close> is what becomes of the destination
  while the download runs.
\<close>

record download_env =
  dl_parent :: bool
  dl_created :: bool
  dl_write :: "bytes \<Rightarrow> bytes \<Rightarrow> bool"
  dl_synced :: bool
  dl_renamed :: bool
  dl_linked :: bool
  dl_removed :: bool
  dl_dropped :: bool
  dl_others :: "bytes option \<Rightarrow> bytes option"

definition open_download :: "download_env \<Rightarrow> bool \<Rightarrow> local_files \<Rightarrow> client_error + local_files" where
  "open_download D force F =
     (if \<not> force \<and> lf_destination F \<noteq> None then Inl DestinationExists
      else if \<not> dl_parent D then Inl NoDestinationDirectory
      else if \<not> dl_created D then Inl NoTempFile
      else Inr (F\<lparr>lf_temp := Some []\<rparr>))"

text \<open>\<open>impl Drop for LocalDownload\<close>.\<close>

definition drop_download :: "download_env \<Rightarrow> local_files \<Rightarrow> local_files" where
  "drop_download D F = (if dl_dropped D then F\<lparr>lf_temp := None\<rparr> else F)"

definition finish_download :: "download_env \<Rightarrow> bool \<Rightarrow> local_files \<Rightarrow> local_files \<times> (client_error + unit)" where
  "finish_download D force F =
     (if \<not> dl_synced D then (drop_download D F, Inl LocalFlushFailed)
      else if force then
        (if dl_renamed D then (F\<lparr>lf_destination := lf_temp F, lf_temp := None\<rparr>, Inr ())
         else (drop_download D F, Inl InstallRefused))
      else if lf_destination F \<noteq> None then (drop_download D F, Inl DestinationExists)
      else if \<not> dl_linked D then (drop_download D F, Inl InstallRefused)
      else
        let F = F\<lparr>lf_destination := lf_temp F\<rparr> in
        if dl_removed D then (F\<lparr>lf_temp := None\<rparr>, Inr ())
        else (drop_download D F, Inl TempCleanupFailed))"

function receive_frames :: "download_env \<Rightarrow> reader \<Rightarrow> bytes \<Rightarrow> (client_error + bytes) \<times> reader \<times> bytes" where
  "receive_frames D r got = (case recv_raw_frame r of
     (Inl e, r) \<Rightarrow> (Inl (WireFailed e), r, got)
   | (Inr None, r) \<Rightarrow> (Inr got, r, got)
   | (Inr (Some chunk), r) \<Rightarrow>
       if dl_write D got chunk then receive_frames D r (got @ chunk) else (Inl LocalWriteFailed, r, got))"
  by pat_completeness auto
termination
  by (relation "measure (\<lambda>(D, r, got). reader_size r)") (auto dest: recv_raw_frame_size[OF sym])

declare receive_frames.simps [simp del]

text \<open>After the request was sent: the reply's frames, then the final reply, then the installation.\<close>

definition cmd_get ::
  "response codec \<Rightarrow> download_env \<Rightarrow> bool \<Rightarrow> reader \<Rightarrow> local_files \<Rightarrow> local_files \<times> (client_error + transfer_reply)" where
  "cmd_get C D force r F = (case open_download D force F of
     Inl e \<Rightarrow> (F, Inl e)
   | Inr F \<Rightarrow>
       let F = F\<lparr>lf_destination := dl_others D (lf_destination F)\<rparr> in
       (case expect_transfer_ready C r of
          (Inl e, _) \<Rightarrow> (drop_download D F, Inl e)
        | (Inr _, r) \<Rightarrow>
            (case receive_frames D r [] of
               (Inl e, _, got) \<Rightarrow> (drop_download D (F\<lparr>lf_temp := Some got\<rparr>), Inl e)
             | (Inr got, r, _) \<Rightarrow>
                 let F = F\<lparr>lf_temp := Some got\<rparr> in
                 (case transfer_outcome C r of
                    Inl e \<Rightarrow> (drop_download D F, Inl e)
                  | Inr t \<Rightarrow> (case finish_download D force F of
                       (F, Inl e) \<Rightarrow> (F, Inl e) | (F, Inr _) \<Rightarrow> (F, Inr t))))))"

subsection \<open>Reading a stream however it arrives\<close>

text \<open>A reader without failures or empty fills, and the bytes it holds.\<close>

definition clean :: "reader \<Rightarrow> bool" where
  "clean r \<longleftrightarrow> list_all (\<lambda>c. case c of None \<Rightarrow> False | Some bs \<Rightarrow> bs \<noteq> []) r"

definition flat :: "reader \<Rightarrow> bytes" where
  "flat r = concat (map (\<lambda>c. case c of None \<Rightarrow> [] | Some bs \<Rightarrow> bs) r)"

lemma clean_simps [simp]: "clean []" "\<not> clean (None # r)" "clean (Some bs # r) = (bs \<noteq> [] \<and> clean r)"
  by (simp_all add: clean_def)

lemma flat_simps [simp]: "flat [] = []" "flat (Some bs # r) = bs @ flat r"
  by (simp_all add: flat_def)

lemma unread_flat [simp]: "flat (unread bs r) = bs @ flat r" "clean (unread bs r) = clean r"
  by (simp_all add: unread_def)

text \<open>\<open>reads_as r bs rest\<close>: \<open>bs\<close> was taken off \<open>r\<close>, leaving a reader of \<open>rest\<close>.\<close>

lemma read_exact_flat:
  "clean r \<Longrightarrow> n \<le> length (flat r)
     \<Longrightarrow> \<exists>r'. read_exact n r = (Inr (take n (flat r)), r') \<and> clean r' \<and> flat r' = drop n (flat r)"
proof (induction n r rule: read_exact.induct)
  case (3 n chunk r)
  then have c: "chunk \<noteq> []" "clean r" by simp_all
  show ?case
  proof (cases "n = 0 \<or> n \<le> length chunk")
    case True
    then show ?thesis using c by (cases "n = 0") auto
  next
    case False
    then have "n - length chunk \<le> length (flat r)" using 3(3) by simp
    with 3(1) False c obtain r' where "read_exact (n - length chunk) r = (Inr (take (n - length chunk) (flat r)), r')"
      "clean r'" "flat r' = drop (n - length chunk) (flat r)" by auto
    then show ?thesis using False c by simp
  qed
qed auto

lemma newline_at_append:
  "newline_at bs = Some i \<Longrightarrow> take (i + 1) bs = takeWhile (\<lambda>b. b \<noteq> LF) bs @ [LF]"
proof -
  assume "newline_at bs = Some i"
  then have lf: "LF \<in> set bs" and i: "i = length (takeWhile (\<lambda>b. b \<noteq> LF) bs)" by (auto simp: newline_at_def split: if_splits)
  from lf have n: "dropWhile (\<lambda>b. b \<noteq> LF) bs \<noteq> []" by auto
  then have h: "hd (dropWhile (\<lambda>b. b \<noteq> LF) bs) = LF" using hd_dropWhile[of "\<lambda>b. b \<noteq> LF" bs] by auto
  have "bs = takeWhile (\<lambda>b. b \<noteq> LF) bs @ LF # tl (dropWhile (\<lambda>b. b \<noteq> LF) bs)"
    using n h by (metis list.collapse takeWhile_dropWhile_id)
  then show "take (i + 1) bs = takeWhile (\<lambda>b. b \<noteq> LF) bs @ [LF]"
    unfolding i by (metis Suc_eq_plus1 append_Cons append_Nil append_eq_conv_conj append.assoc length_append_singleton)
qed

lemma read_line_flat:
  "clean r \<Longrightarrow> flat r = l @ LF # rest \<Longrightarrow> LF \<notin> set l \<Longrightarrow> length line + length l + 1 \<le> limit
     \<Longrightarrow> \<exists>r'. read_line limit line r = (Inr (line @ l @ [LF]), r') \<and> clean r' \<and> flat r' = rest"
proof (induction limit line r arbitrary: l rule: read_line.induct)
  case (3 limit line available r)
  then have c: "available \<noteq> []" "clean r" and f: "available @ flat r = l @ LF # rest" by simp_all
  show ?case
  proof (cases "LF \<in> set available")
    case True
    then have tw: "takeWhile (\<lambda>b. b \<noteq> LF) available = l"
    proof -
      have "takeWhile (\<lambda>b. b \<noteq> LF) (available @ flat r) = takeWhile (\<lambda>b. b \<noteq> LF) available"
        using True by (intro takeWhile_append1) auto
      moreover have "takeWhile (\<lambda>b. b \<noteq> LF) (l @ LF # rest) = l" using 3(4) by (subst takeWhile_append2) auto
      ultimately show ?thesis using f by simp
    qed
    then have n: "newline_at available = Some (length l)" using True by (simp add: newline_at_def)
    from newline_at_append[OF n] tw have t: "take (length l + 1) available = l @ [LF]" by simp
    then have le: "length l + 1 \<le> length available"
      by (metis length_append_singleton length_take min.absorb_iff2 min.commute Suc_eq_plus1)
    have "drop (length l + 1) available @ flat r = drop (length l + 1) (available @ flat r)" using le by simp
    also have "\<dots> = rest" by (simp add: f)
    finally have d: "drop (Suc (length l)) available @ flat r = rest" by simp
    show ?thesis using 3(5) c n t d by (auto simp: Let_def)
  next
    case False
    have "\<exists>l'. l = available @ l' \<and> flat r = l' @ LF # rest"
    proof -
      from f consider us where "available = l @ us" "us @ flat r = LF # rest" | us where "l = available @ us" "flat r = us @ LF # rest"
        by (auto simp: append_eq_append_conv2)
      then show ?thesis
      proof cases
        case 1
        with False show ?thesis by (cases us) auto
      qed auto
    qed
    then obtain l' where l': "l = available @ l'" "flat r = l' @ LF # rest" by blast
    have n: "newline_at available = None" using False by (simp add: newline_at_def)
    have lim: "\<not> length line + length available > limit" using 3(5) l'(1) by simp
    have "\<exists>r'. read_line limit (line @ available) r = (Inr ((line @ available) @ l' @ [LF]), r') \<and> clean r' \<and> flat r' = rest"
      by (rule 3(1)[OF c(1) refl refl]) (use c n lim l' 3(4,5) in auto)
    then show ?thesis using c n lim l' by (auto simp: Let_def)
  qed
qed auto

lemma strip_written: "bs \<noteq> [] \<Longrightarrow> LF \<notin> set bs \<Longrightarrow> last bs \<noteq> CR \<Longrightarrow> strip_line_end (bs @ [LF]) = bs"
proof -
  assume b: "bs \<noteq> []" "LF \<notin> set bs" "last bs \<noteq> CR"
  then have "last bs \<noteq> LF" by (metis last_in_set)
  with b have "dropWhile (\<lambda>b. b = LF \<or> b = CR) (rev bs) = rev bs"
    by (cases "rev bs") (auto simp: rev_swap)
  then show ?thesis by (simp add: strip_line_end_def)
qed

lemma wire_read_written:
  assumes "codec_ok C" and "write_message C msg = Inr w" and "clean r" and "flat r = w @ rest"
  obtains r' where "read_message C r = (Inr (Some msg), r')" "clean r'" "flat r' = rest"
proof -
  obtain bs where e: "cd_encode C msg = Some bs" and w: "w = bs @ [LF]" and len: "length w \<le> MAX_WIRE_MESSAGE_BYTES"
    using assms(2) by (auto simp: write_message_def Let_def split: option.splits if_splits)
  then have bs: "bs \<noteq> []" "LF \<notin> set bs" "last bs \<noteq> CR" "cd_decode C bs = Some msg"
    using assms(1) by (auto simp: codec_ok_def)
  obtain r' where "read_line MAX_WIRE_MESSAGE_BYTES [] r = (Inr ([] @ bs @ [LF]), r')" "clean r'" "flat r' = rest"
    using read_line_flat[OF assms(3), of bs rest "[]" MAX_WIRE_MESSAGE_BYTES] assms(4) w len bs by auto
  then show ?thesis
    using bs that by (simp add: read_message_def read_message_with_limit_def strip_written Let_def)
qed

subsection \<open>Frames as sent and received\<close>

lemma be_bytes_roundtrip:
  assumes "n < 2 ^ 32" shows "from_be_bytes (to_be_bytes n) = n"
proof -
  have a: "n div 16777216 mod 256 = n div 16777216" using assms by (intro mod_less) (simp add: less_mult_imp_div_less)
  have b: "n div 16777216 * 256 + n div 65536 mod 256 = n div 65536"
    using div_mult_mod_eq[of "n div 65536" 256] by (simp flip: div_mult2_eq)
  have c: "n div 65536 * 256 + n div 256 mod 256 = n div 256"
    using div_mult_mod_eq[of "n div 256" 256] by (simp flip: div_mult2_eq)
  have d: "n div 256 * 256 + n mod 256 = n" by simp
  show ?thesis
    by (simp add: from_be_bytes_def to_be_bytes_def of_char_of a b c d)
qed

lemma sent_frame:
  assumes "send_raw_frame f = Inr w" and "clean r" and "flat r = w @ rest"
  obtains r' where "recv_raw_frame r = (Inr (if f = [] then None else Some f), r')" "clean r'" "flat r' = rest"
proof -
  have w: "w = to_be_bytes (length f) @ f" and le: "length f \<le> MAX_RAW_FRAME_BYTES"
    using assms(1) by (auto simp: send_raw_frame_def split: if_splits)
  have len: "length (to_be_bytes (length f)) = 4" by (simp add: to_be_bytes_def)
  have be: "from_be_bytes (to_be_bytes (length f)) = length f"
    using le by (intro be_bytes_roundtrip) (simp add: MAX_RAW_FRAME_BYTES_def)
  obtain r1 where h: "read_exact 4 r = (Inr (to_be_bytes (length f)), r1)" "clean r1" "flat r1 = f @ rest"
    using read_exact_flat[OF assms(2), of 4] assms(3) w len by auto
  show ?thesis
  proof (cases "f = []")
    case True
    then show ?thesis using h be that[of r1] by (simp add: recv_raw_frame_def Let_def)
  next
    case False
    obtain r' where "read_exact (length f) r1 = (Inr f, r')" "clean r'" "flat r' = rest"
      using read_exact_flat[OF h(2), of "length f"] h(3) by auto
    then show ?thesis using False h le be that[of r'] by (simp add: recv_raw_frame_def Let_def)
  qed
qed

subsection \<open>Transfers\<close>

text \<open>The bytes a sequence of reads yields before the end of the file.\<close>

fun read_data :: "reads \<Rightarrow> bytes" where
  "read_data [] = []"
| "read_data (None # rs) = []"
| "read_data (Some chunk # rs) = (if chunk = [] then [] else chunk @ read_data rs)"

lemma sat_add_sat_add [sat_simps]: "sat_add (sat_add a b) c = sat_add a (b + c)"
  by (simp add: sat_add_def)

lemma sat_add_zero [sat_simps]: "a \<le> u64_max \<Longrightarrow> sat_add a 0 = a"
  by (simp add: sat_add_def)

lemma sat_add_bound [simp]: "sat_add a b \<le> u64_max"
  by (simp add: sat_add_def)

definition uploaded :: "upload \<Rightarrow> bytes \<Rightarrow> upload" where
  "uploaded up data = up\<lparr>up_remote := up_remote up @ data, up_bytes := sat_add (up_bytes up) (length data)\<rparr>"

lemma uploaded_uploaded: "uploaded (uploaded up a) b = uploaded up (a @ b)"
  by (simp add: uploaded_def sat_simps)

lemma uploaded_none: "up_bytes up \<le> u64_max \<Longrightarrow> uploaded up [] = up"
  by (simp add: uploaded_def sat_simps)

lemma write_chunk_ok: "wr (up_remote up) chunk = None \<Longrightarrow> write_chunk wr up chunk = (uploaded up chunk, True)"
  by (simp add: write_chunk_def uploaded_def)

lemma write_chunk_cases:
  "write_chunk wr up chunk = (up', ok) \<Longrightarrow> up_bytes up \<le> u64_max
     \<Longrightarrow> up_bytes up' \<le> u64_max \<and> (ok \<longrightarrow> up' = uploaded up chunk) \<and> (\<not> ok \<longrightarrow> wr (up_remote up) chunk \<noteq> None)"
  by (auto simp: write_chunk_def uploaded_def split: option.splits)

lemma send_stop: "send_raw_frame [] = Inr (to_be_bytes 0)"
  by (simp add: send_raw_frame_def)

lemma put_frames_sent:
  "send_upload rs = (sent, Inr ()) \<Longrightarrow> clean r \<Longrightarrow> flat r = sent @ rest \<Longrightarrow> up_bytes up \<le> u64_max
     \<Longrightarrow> \<exists>up' failed' r'. put_frames wr r up failed = (Inr (up', failed'), r') \<and> clean r' \<and> flat r' = rest
          \<and> (\<not> failed' \<longrightarrow> up' = uploaded up (read_data rs))
          \<and> (\<not> failed \<and> (\<forall>w c. wr w c = None) \<longrightarrow> \<not> failed') \<and> (failed \<longrightarrow> failed')"
proof (induction rs arbitrary: sent r up failed)
  case Nil
  then have "send_raw_frame [] = Inr sent" by (simp add: send_stop)
  from sent_frame[OF this Nil(2,3)] obtain r' where "recv_raw_frame r = (Inr None, r')" "clean r'" "flat r' = rest" by auto
  then show ?case using Nil(4) by (simp add: put_frames.simps[of wr r] uploaded_none)
next
  case (Cons c rs)
  obtain chunk where c: "c = Some chunk" using Cons.prems(1) by (cases c) auto
  show ?case
  proof (cases "chunk = []")
    case True
    then have "send_raw_frame [] = Inr sent" using Cons.prems(1) c by (simp add: send_stop)
    from sent_frame[OF this Cons.prems(2,3)] obtain r' where "recv_raw_frame r = (Inr None, r')" "clean r'" "flat r' = rest" by auto
    then show ?thesis using True c Cons.prems(4) by (simp add: put_frames.simps[of wr r] uploaded_none)
  next
    case False
    with Cons.prems(1) c obtain w ws where f: "send_raw_frame chunk = Inr w" and ws: "send_upload rs = (ws, Inr ())" "sent = w @ ws"
      by (auto split: sum.splits prod.splits)
    from Cons.prems(3) ws(2) have fl: "flat r = w @ ws @ rest" by simp
    from sent_frame[OF f Cons.prems(2) fl] False obtain r1 where
      r1: "recv_raw_frame r = (Inr (Some chunk), r1)" "clean r1" "flat r1 = ws @ rest" by auto
    show ?thesis
    proof (cases failed)
      case True
      with Cons.IH[OF ws(1) r1(2,3) Cons.prems(4), of True] r1(1) show ?thesis
        by (auto simp: put_frames.simps[of wr r])
    next
      case go: False
      obtain up1 ok where w: "write_chunk wr up chunk = (up1, ok)" by fastforce
      note cs = write_chunk_cases[OF w Cons.prems(4)]
      have "put_frames wr r up failed = put_frames wr r1 up1 (\<not> ok)"
        using go r1(1) w by (simp add: put_frames.simps[of wr r])
      with Cons.IH[OF ws(1) r1(2,3), of up1 "\<not> ok"] cs False c go show ?thesis
        by (auto simp: uploaded_uploaded)
    qed
  qed
qed

text \<open>What the daemon sends of a download is what an upload of the same reads sends.\<close>

lemma get_frames_sends:
  "get_frames rs n = Inr (ws, failed, m) \<Longrightarrow> n \<le> u64_max
     \<Longrightarrow> m = sat_add n (length (read_data rs))
       \<and> (\<exists>qs. send_upload qs = (ws @ to_be_bytes 0, Inr ()) \<and> read_data qs = read_data rs)"
proof (induction rs arbitrary: n ws)
  case Nil
  then show ?case by (auto simp: sat_simps send_stop intro!: exI[of _ "[]"])
next
  case (Cons c rs)
  show ?case
  proof (cases "c = None \<or> c = Some []")
    case True
    then show ?thesis using Cons.prems by (auto simp: sat_simps send_stop intro!: exI[of _ "[]"])
  next
    case False
    then obtain chunk where c: "c = Some chunk" "chunk \<noteq> []" by (cases c) auto
    then obtain w ws' where f: "send_raw_frame chunk = Inr w" "get_frames rs (sat_add n (length chunk)) = Inr (ws', failed, m)"
      "ws = w @ ws'" using Cons.prems(1) by (auto split: sum.splits)
    from Cons.IH[OF f(2)] obtain qs where "m = sat_add (sat_add n (length chunk)) (length (read_data rs))"
      "send_upload qs = (ws' @ to_be_bytes 0, Inr ())" "read_data qs = read_data rs" by auto
    then show ?thesis using c f by (auto simp: sat_simps intro!: exI[of _ "Some chunk # qs"])
  qed
qed

lemma receive_frames_sent:
  "send_upload rs = (sent, Inr ()) \<Longrightarrow> clean r \<Longrightarrow> flat r = sent @ rest \<Longrightarrow> (\<forall>g c. dl_write D g c)
     \<Longrightarrow> \<exists>r'. receive_frames D r got = (Inr (got @ read_data rs), r', got @ read_data rs) \<and> clean r' \<and> flat r' = rest"
proof (induction rs arbitrary: sent r got)
  case Nil
  then have "send_raw_frame [] = Inr sent" by (simp add: send_stop)
  from sent_frame[OF this Nil(2,3)] obtain r' where "recv_raw_frame r = (Inr None, r')" "clean r'" "flat r' = rest" by auto
  then show ?case by (simp add: receive_frames.simps[of D r])
next
  case (Cons c rs)
  obtain chunk where c: "c = Some chunk" using Cons.prems(1) by (cases c) auto
  show ?case
  proof (cases "chunk = []")
    case True
    then have "send_raw_frame [] = Inr sent" using Cons.prems(1) c by (simp add: send_stop)
    from sent_frame[OF this Cons.prems(2,3)] obtain r' where "recv_raw_frame r = (Inr None, r')" "clean r'" "flat r' = rest" by auto
    then show ?thesis using True c by (simp add: receive_frames.simps[of D r])
  next
    case False
    with Cons.prems(1) c obtain w ws where f: "send_raw_frame chunk = Inr w" and ws: "send_upload rs = (ws, Inr ())" "sent = w @ ws"
      by (auto split: sum.splits prod.splits)
    from Cons.prems(3) ws(2) have fl: "flat r = w @ ws @ rest" by simp
    from sent_frame[OF f Cons.prems(2) fl] False obtain r1 where
      r1: "recv_raw_frame r = (Inr (Some chunk), r1)" "clean r1" "flat r1 = ws @ rest" by auto
    from Cons.IH[OF ws(1) r1(2,3) Cons.prems(4), of "got @ chunk"] r1(1) Cons.prems(4) c False show ?thesis
      by (simp add: receive_frames.simps[of D r])
  qed
qed

lemma receive_written:
  assumes "codec_ok C" and "write_message C response = Inr w" and "clean r" and "flat r = w @ rest"
    and "\<And>m. response \<noteq> ErrorR m"
  obtains r' where "receive_reply C r = (Inr response, r')" "clean r'" "flat r' = rest"
proof -
  from wire_read_written[OF assms(1-4)] obtain r' where "read_message C r = (Inr (Some response), r')" "clean r'" "flat r' = rest" .
  then show ?thesis using assms(5) that by (cases response) (auto simp: receive_reply_def)
qed

subsection \<open>Properties\<close>

text \<open>
  A message written to the socket is read back as itself, however the stream cuts it into
  reads, and what follows it is left for the next read: messages and frames never lose step.
\<close>

theorem wire_message_roundtrip:
  assumes "codec_ok C" and "write_message C msg = Inr w" and "clean r" and "flat r = w @ rest"
  shows "\<exists>r'. read_message C r = (Inr (Some msg), r') \<and> clean r' \<and> flat r' = rest"
  using wire_read_written[OF assms] by blast

definition demo_codec :: "bytes codec" where
  "demo_codec = \<lparr>cd_encode = (\<lambda>bs. if LF \<in> set bs \<or> CR \<in> set bs \<or> bs = [] then None else Some bs), cd_decode = Some\<rparr>"

theorem wire_message_roundtrip_witness:
  "\<exists>r'. read_message demo_codec [Some ''o'', Some (''k'' @ [LF] @ ''n''), Some ''ext''] = (Inr (Some ''ok''), r')
     \<and> clean r' \<and> flat r' = ''next''"
proof (rule wire_message_roundtrip)
  have "last bs \<noteq> CR" if "CR \<notin> set bs" "bs \<noteq> []" for bs :: bytes using that last_in_set by metis
  then show "codec_ok demo_codec" by (simp add: codec_ok_def demo_codec_def)
  show "write_message demo_codec ''ok'' = Inr (''ok'' @ [LF])"
    by (simp add: write_message_def demo_codec_def MAX_WIRE_MESSAGE_BYTES_def)
qed simp_all

text \<open>
  C29: an upload arrives whole or is reported. Of the frames a client sends for a file, cut in any
  way by the socket, the daemon takes exactly those off the stream, whether or not the remote
  writes succeed; it answers with a transfer only when the remote file has received every byte
  read, with their number (saturating at 64 bits), and it does when no write fails.
\<close>

theorem upload_arrives_or_fails:
  assumes "send_upload rs = (sent, Inr ())" and "clean r" and "flat r = sent @ rest" and "up_bytes up = 0"
  shows "\<exists>up' reply r'. serve_put wr shut r up = (Inr (up', reply), r') \<and> clean r' \<and> flat r' = rest
     \<and> (case reply of
          Some t \<Rightarrow> up_remote up' = up_remote up @ read_data rs
            \<and> t = (up_label up)\<lparr>tr_bytes_transferred := sat_add 0 (length (read_data rs))\<rparr>
        | None \<Rightarrow> \<not> shut \<or> (\<exists>w c. wr w c \<noteq> None))"
proof -
  from put_frames_sent[OF assms(1-3), of up wr False] assms(4) obtain up' failed r' where
    p: "put_frames wr r up False = (Inr (up', failed), r')" "clean r'" "flat r' = rest"
      "\<not> failed \<longrightarrow> up' = uploaded up (read_data rs)" "(\<forall>w c. wr w c = None) \<longrightarrow> \<not> failed" by fastforce
  then show ?thesis
    using assms(4) by (cases failed) (auto simp: serve_put_def finish_put_def uploaded_def)
qed

definition demo_label :: transfer_reply where
  "demo_label = \<lparr>tr_host = ''h'', tr_session = ''s'', tr_local_path = ''l'', tr_remote_path = ''r'', tr_bytes_transferred = 0\<rparr>"

definition demo_upload :: upload where
  "demo_upload = \<lparr>up_label = demo_label, up_remote = [], up_bytes = 0\<rparr>"

lemma demo_sent:
  "send_upload [Some ''ab'', Some ''c'', Some []]
     = (to_be_bytes 2 @ ''ab'' @ to_be_bytes 1 @ ''c'' @ to_be_bytes 0, Inr ())"
  by (simp add: send_raw_frame_def MAX_RAW_FRAME_BYTES_def numeral_2_eq_2)

lemma to_be_bytes_nonempty [simp]: "to_be_bytes n \<noteq> []"
  by (simp add: to_be_bytes_def)

theorem upload_arrives_or_fails_witness:
  "\<exists>up' r'. serve_put (\<lambda>_ _. None) True [Some (to_be_bytes 2 @ ''a''), Some (''b'' @ to_be_bytes 1 @ ''c'' @ to_be_bytes 0 @ ''n'')]
       demo_upload = (Inr (up', Some (demo_label\<lparr>tr_bytes_transferred := 3\<rparr>)), r')
     \<and> up_remote up' = ''abc'' \<and> flat r' = ''n''"
proof -
  let ?r = "[Some (to_be_bytes 2 @ ''a''), Some (''b'' @ to_be_bytes 1 @ ''c'' @ to_be_bytes 0 @ ''n'')]"
  have cl: "clean ?r" and fl: "flat ?r = (to_be_bytes 2 @ ''ab'' @ to_be_bytes 1 @ ''c'' @ to_be_bytes 0) @ ''n''" by simp_all
  have z: "up_bytes demo_upload = 0" by (simp add: demo_upload_def)
  from upload_arrives_or_fails[OF demo_sent cl fl z, where wr = "\<lambda>_ _. None" and shut = True] obtain up' reply r' where
    "serve_put (\<lambda>_ _. None) True ?r demo_upload = (Inr (up', reply), r')" "flat r' = ''n''"
    "case reply of Some t \<Rightarrow> up_remote up' = up_remote demo_upload @ read_data [Some ''ab'', Some ''c'', Some []]
       \<and> t = (up_label demo_upload)\<lparr>tr_bytes_transferred := sat_add 0 (length (read_data [Some ''ab'', Some ''c'', Some []]))\<rparr>
     | None \<Rightarrow> \<not> True \<or> (\<exists>(w :: bytes) (c :: bytes). (None :: nat option) \<noteq> None)" by blast
  moreover have "sat_add 0 (Suc (Suc (Suc 0))) = 3" by (simp add: sat_add_def u64_max_def)
  ultimately show ?thesis by (cases reply) (auto simp: demo_upload_def)
qed

text \<open>
  The daemon was ready, its frame stream ended, and its final reply was the transfer \<open>t\<close>; the
  frames received are \<open>content\<close>.
\<close>

definition complete_transfer :: "response codec \<Rightarrow> download_env \<Rightarrow> reader \<Rightarrow> bytes \<Rightarrow> transfer_reply \<Rightarrow> bool" where
  "complete_transfer C D r content t \<longleftrightarrow>
     (\<exists>r1 r2 got. expect_transfer_ready C r = (Inr (), r1) \<and> receive_frames D r1 [] = (Inr content, r2, got)
        \<and> transfer_outcome C r2 = Inr t)"

lemma finish_download_cases:
  "finish_download D force G = (F', res)
     \<Longrightarrow> lf_destination F' = lf_temp G \<and> (force \<or> lf_destination G = None) \<and> (res = Inr () \<or> res = Inl TempCleanupFailed)
       \<or> lf_destination F' = lf_destination G \<and> (\<exists>e. res = Inl e)"
  by (auto simp: finish_download_def drop_download_def Let_def split: if_splits)

text \<open>
  C13: a download touches its destination only to install a complete transfer. If the destination
  is not what it was, or what others made it meanwhile, then the daemon was ready, the end of the
  frame stream was reached, the final reply was a transfer and not an error, and the content is
  exactly the received frames; without \<open>--force\<close> there was no file to replace. Success is only
  reported after such an installation.
\<close>

theorem download_commits_only_complete:
  assumes "cmd_get C D force r F = (F', res)"
  shows "(\<exists>content t. complete_transfer C D r content t \<and> lf_destination F' = Some content
            \<and> (force \<or> dl_others D (lf_destination F) = None) \<and> (res = Inr t \<or> res = Inl TempCleanupFailed))
     \<or> lf_destination F' \<in> {lf_destination F, dl_others D (lf_destination F)} \<and> (\<exists>e. res = Inl e)"
proof (cases "open_download D force F")
  case (Inl e)
  with assms show ?thesis by (auto simp: cmd_get_def)
next
  case (Inr F1)
  then have F1: "lf_destination F1 = lf_destination F" by (auto simp: open_download_def split: if_splits)
  obtain ready r1 where x: "expect_transfer_ready C r = (ready, r1)" by fastforce
  obtain frames r2 got where y: "receive_frames D r1 [] = (frames, r2, got)" by (metis prod_cases3)
  have d: "lf_destination (drop_download D G) = lf_destination G" for G by (simp add: drop_download_def)
  show ?thesis
  proof (cases "(\<exists>e. ready = Inl e) \<or> (\<exists>e. frames = Inl e) \<or> (\<exists>e. transfer_outcome C r2 = Inl e)")
    case True
    have "lf_destination F' = dl_others D (lf_destination F) \<and> (\<exists>e. res = Inl e)"
    proof (cases ready)
      case (Inl e)
      with assms Inr F1 x d show ?thesis by (auto simp: cmd_get_def Let_def)
    next
      case r: (Inr u)
      show ?thesis
      proof (cases frames)
        case (Inl e)
        with assms Inr F1 x y r d show ?thesis by (auto simp: cmd_get_def Let_def)
      next
        case f: (Inr content)
        then obtain e where "transfer_outcome C r2 = Inl e" using True r by auto
        with assms Inr F1 x y r f have "F' = drop_download D (F1\<lparr>lf_destination := dl_others D (lf_destination F),
            lf_temp := Some content\<rparr>)" "res = Inl e" by (simp_all add: cmd_get_def Let_def)
        then show ?thesis using d by simp
      qed
    qed
    then show ?thesis by simp
  next
    case False
    then obtain content t where s: "ready = Inr ()" "frames = Inr content" "transfer_outcome C r2 = Inr t"
      by (cases ready; cases frames; cases "transfer_outcome C r2") auto
    have complete: "complete_transfer C D r content t" using x y s by (auto simp: complete_transfer_def)
    let ?G = "F1\<lparr>lf_destination := dl_others D (lf_destination F), lf_temp := Some content\<rparr>"
    obtain outcome where fin: "finish_download D force ?G = (F', outcome)"
      and res: "(\<exists>e. outcome = Inl e \<and> res = Inl e) \<or> outcome = Inr () \<and> res = Inr t"
      using assms Inr F1 x y s by (cases "finish_download D force ?G"; cases "snd (finish_download D force ?G)")
        (auto simp: cmd_get_def Let_def)
    from finish_download_cases[OF fin] res complete show ?thesis by auto
  qed
qed

lemma get_frames_complete: "get_frames rs n = Inr (ws, failed, m) \<Longrightarrow> None \<notin> set rs \<Longrightarrow> \<not> failed"
  by (induction rs n arbitrary: ws rule: get_frames.induct) (auto split: if_splits sum.splits prod.splits)

lemma complete_download:
  assumes "codec_ok C" and "write_message C TransferReady = Inr hello" and "serve_get C message label rs = Inr sent"
    and "clean r" and "flat r = hello @ sent @ rest" and "None \<notin> set rs" and "\<forall>g c. dl_write D g c"
  shows "complete_transfer C D r (read_data rs) (label\<lparr>tr_bytes_transferred := sat_add 0 (length (read_data rs))\<rparr>)"
proof -
  from assms(3) obtain ws failed n reply where g: "get_frames rs 0 = Inr (ws, failed, n)"
    "write_message C (if failed then ErrorR message else TransferR (label\<lparr>tr_bytes_transferred := n\<rparr>)) = Inr reply"
    "sent = ws @ to_be_bytes 0 @ reply"
    by (auto simp: serve_get_def send_stop split: sum.splits)
  have nf: "\<not> failed" using get_frames_complete[OF g(1) assms(6)] .
  from get_frames_sends[OF g(1)] obtain qs where n: "n = sat_add 0 (length (read_data rs))"
    and qs: "send_upload qs = (ws @ to_be_bytes 0, Inr ())" "read_data qs = read_data rs" by auto
  from receive_written[OF assms(1,2,4,5)] obtain r1 where
    r1: "receive_reply C r = (Inr TransferReady, r1)" "clean r1" "flat r1 = sent @ rest" by auto
  have f1: "flat r1 = (ws @ to_be_bytes 0) @ reply @ rest" using r1(3) g(3) by simp
  from receive_frames_sent[OF qs(1) r1(2) f1 assms(7), of "[]"] qs(2) obtain r2 where
    r2: "receive_frames D r1 [] = (Inr (read_data rs), r2, read_data rs)" "clean r2" "flat r2 = reply @ rest" by auto
  have w: "write_message C (TransferR (label\<lparr>tr_bytes_transferred := n\<rparr>)) = Inr reply" using g(2) nf by simp
  from receive_written[OF assms(1) w r2(2,3)] obtain r3 where
    "receive_reply C r2 = (Inr (TransferR (label\<lparr>tr_bytes_transferred := n\<rparr>)), r3)" by auto
  then show ?thesis
    using r1(1) r2(1) n by (auto simp: complete_transfer_def expect_transfer_ready_def transfer_outcome_def)
qed

lemma cmd_get_complete:
  assumes "complete_transfer C D r content t" and "dl_parent D" and "dl_created D" and "dl_synced D"
    and "if force then dl_renamed D
         else lf_destination F = None \<and> dl_others D None = None \<and> dl_linked D \<and> dl_removed D"
  shows "cmd_get C D force r F = (\<lparr>lf_destination = Some content, lf_temp = None\<rparr>, Inr t)"
proof -
  obtain r1 r2 got where c: "expect_transfer_ready C r = (Inr (), r1)" "receive_frames D r1 [] = (Inr content, r2, got)"
    "transfer_outcome C r2 = Inr t" using assms(1) by (auto simp: complete_transfer_def)
  show ?thesis
    using assms(2-5) by (simp add: cmd_get_def open_download_def finish_download_def c Let_def split: if_splits)
qed

text \<open>A reply codec for the two replies of the demonstration.\<close>

definition demo_reply_codec :: "response codec" where
  "demo_reply_codec = \<lparr>cd_encode = (\<lambda>m. if m = TransferReady then Some ''R''
       else if m = TransferR (demo_label\<lparr>tr_bytes_transferred := 3\<rparr>) then Some ''T'' else None),
     cd_decode = (\<lambda>bs. if bs = ''R'' then Some TransferReady
       else if bs = ''T'' then Some (TransferR (demo_label\<lparr>tr_bytes_transferred := 3\<rparr>)) else None)\<rparr>"

lemma demo_reply_codec_ok: "codec_ok demo_reply_codec"
  by (auto simp: codec_ok_def demo_reply_codec_def split: if_splits)

definition demo_download_env :: download_env where
  "demo_download_env = \<lparr>dl_parent = True, dl_created = True, dl_write = (\<lambda>_ _. True), dl_synced = True,
     dl_renamed = True, dl_linked = True, dl_removed = True, dl_dropped = True, dl_others = (\<lambda>f. f)\<rparr>"

lemma demo_served:
  "serve_get demo_reply_codec m demo_label [Some ''abc''] = Inr (to_be_bytes 3 @ ''abc'' @ to_be_bytes 0 @ ''T'' @ [LF])"
  by (simp add: serve_get_def send_raw_frame_def MAX_RAW_FRAME_BYTES_def write_message_def demo_reply_codec_def
      demo_label_def sat_add_def u64_max_def MAX_WIRE_MESSAGE_BYTES_def Let_def numeral_3_eq_3)

lemma demo_hello: "write_message demo_reply_codec TransferReady = Inr (''R'' @ [LF])"
  by (simp add: write_message_def demo_reply_codec_def MAX_WIRE_MESSAGE_BYTES_def)

text \<open>
  C19: what the daemon reads from the remote file is what the client installs. When the daemon's
  reads end at the end of the file without an error and the client's file operations succeed,
  the client, receiving the daemon's bytes in any pieces, leaves exactly the remote bytes at the
  destination and no temporary file, and reports their number.
\<close>

theorem download_roundtrip:
  assumes "codec_ok C" and "write_message C TransferReady = Inr hello" and "serve_get C message label rs = Inr sent"
    and "clean r" and "flat r = hello @ sent @ rest" and "None \<notin> set rs" and "\<forall>g c. dl_write D g c"
    and "dl_parent D" and "dl_created D" and "dl_synced D"
    and "if force then dl_renamed D
         else lf_destination F = None \<and> dl_others D None = None \<and> dl_linked D \<and> dl_removed D"
  shows "cmd_get C D force r F =
     (\<lparr>lf_destination = Some (read_data rs), lf_temp = None\<rparr>,
      Inr (label\<lparr>tr_bytes_transferred := sat_add 0 (length (read_data rs))\<rparr>))"
  by (rule cmd_get_complete[OF complete_download[OF assms(1-7)] assms(8-11)])

theorem download_roundtrip_witness:
  "\<exists>t. cmd_get demo_reply_codec demo_download_env False
      [Some ''R'', Some ([LF] @ to_be_bytes 3 @ ''a''), Some (''bc'' @ to_be_bytes 0 @ ''T'' @ [LF])]
      \<lparr>lf_destination = None, lf_temp = None\<rparr> = (\<lparr>lf_destination = Some ''abc'', lf_temp = None\<rparr>, Inr t)"
proof -
  let ?r = "[Some ''R'', Some ([LF] @ to_be_bytes 3 @ ''a''), Some (''bc'' @ to_be_bytes 0 @ ''T'' @ [LF])]"
  have r: "clean ?r" "flat ?r = (''R'' @ [LF]) @ (to_be_bytes 3 @ ''abc'' @ to_be_bytes 0 @ ''T'' @ [LF]) @ []" by simp_all
  from download_roundtrip[OF demo_reply_codec_ok demo_hello demo_served r, of demo_download_env False
      "\<lparr>lf_destination = None, lf_temp = None\<rparr>"]
  show ?thesis by (simp add: demo_download_env_def)
qed

theorem download_commits_only_complete_witness:
  "\<exists>content t. complete_transfer demo_reply_codec demo_download_env
      [Some ''R'', Some ([LF] @ to_be_bytes 3 @ ''a''), Some (''bc'' @ to_be_bytes 0 @ ''T'' @ [LF])] content t
    \<and> Some ''abc'' = Some content"
proof -
  let ?r = "[Some ''R'', Some ([LF] @ to_be_bytes 3 @ ''a''), Some (''bc'' @ to_be_bytes 0 @ ''T'' @ [LF])]"
  have r: "clean ?r" "flat ?r = (''R'' @ [LF]) @ (to_be_bytes 3 @ ''abc'' @ to_be_bytes 0 @ ''T'' @ [LF]) @ []" by simp_all
  have g: "\<exists>t. cmd_get demo_reply_codec demo_download_env False ?r \<lparr>lf_destination = None, lf_temp = None\<rparr>
      = (\<lparr>lf_destination = Some ''abc'', lf_temp = None\<rparr>, Inr t)"
    using cmd_get_complete[OF complete_download[OF demo_reply_codec_ok demo_hello demo_served r, of demo_download_env], of False]
    by (simp add: demo_download_env_def)
  then obtain t where "cmd_get demo_reply_codec demo_download_env False ?r \<lparr>lf_destination = None, lf_temp = None\<rparr>
      = (\<lparr>lf_destination = Some ''abc'', lf_temp = None\<rparr>, Inr t)" by blast
  from download_commits_only_complete[OF this] show ?thesis by (auto simp: demo_download_env_def)
qed

end
