(* ===== verification/Local_Socket.thy ===== *)
theory Local_Socket
  imports Wire
begin

text \<open>
  The local socket between the command line and the daemon: the directory it lives in, binding it
  (\<open>src/src/transport/unix.rs\<close>), authenticating who answers on it, starting the daemon and agreeing
  on the protocol (\<open>src/src/cli/client.rs\<close>, \<open>src/src/cli/daemon_cmd.rs\<close>). System calls are answers; what is
  sent to whom is recorded.
\<close>

unbundle bit_operations_syntax

subsection \<open>Private directories\<close>

datatype transport_error =
    CreateDir | OpenDirectory | SymbolicLink | NotADirectory | NotMode0700 | HasAcl
  | WrongOwner nat nat | PermissionsFailed | BindFailed

text \<open>
  Creating it, its \<open>lstat\<close> (symbolic link, directory), the opened directory (owner, mode, ACL if
  it can be read), and whether clearing the ACL and setting the mode succeed.
\<close>

record directory_answers =
  da_created :: bool
  da_lstat :: "(bool \<times> bool) option"
  da_opened :: "(nat \<times> nat \<times> bool option) option"
  da_acl_cleared :: bool
  da_mode_set :: bool

definition check_lstat :: "transport_error \<Rightarrow> directory_answers \<Rightarrow> transport_error + unit" where
  "check_lstat failure A = (case da_lstat A of
     None \<Rightarrow> Inl failure
   | Some (symlink, is_dir) \<Rightarrow>
       if symlink then Inl SymbolicLink else if \<not> is_dir then Inl NotADirectory else Inr ())"

definition validate_private_dir :: "nat \<Rightarrow> directory_answers \<Rightarrow> transport_error + unit" where
  "validate_private_dir euid A = (case check_lstat OpenDirectory A of
     Inl e \<Rightarrow> Inl e
   | Inr _ \<Rightarrow>
       (case da_opened A of
          None \<Rightarrow> Inl OpenDirectory
        | Some (uid, mode, acl) \<Rightarrow>
            if uid \<noteq> euid then Inl (WrongOwner uid euid)
            else if mode AND 0xFFF \<noteq> 0x1C0 then Inl NotMode0700
            else (case acl of None \<Rightarrow> Inl OpenDirectory | Some has \<Rightarrow> if has then Inl HasAcl else Inr ())))"

definition ensure_private_dir :: "nat \<Rightarrow> directory_answers \<Rightarrow> transport_error + unit" where
  "ensure_private_dir euid A =
     (if \<not> da_created A then Inl CreateDir
      else (case check_lstat CreateDir A of
        Inl e \<Rightarrow> Inl e
      | Inr _ \<Rightarrow>
          (case da_opened A of
             None \<Rightarrow> Inl OpenDirectory
           | Some (uid, _, _) \<Rightarrow>
               if uid \<noteq> euid then Inl (WrongOwner uid euid)
               else if \<not> da_acl_cleared A then Inl PermissionsFailed
               else if \<not> da_mode_set A then Inl PermissionsFailed
               else Inr ())))"

subsection \<open>Binding\<close>

definition linux_fallback_socket_path :: "nat \<Rightarrow> string" where
  "linux_fallback_socket_path uid = path_join (path_join ''/tmp'' (''sloosh-'' @ show_nat uid)) ''sloosh.sock''"

definition default_socket_path :: "string option \<Rightarrow> nat \<Rightarrow> string" where
  "default_socket_path runtime_dir uid = (case runtime_dir of
     Some dir \<Rightarrow> if dir \<noteq> [] then path_join dir ''sloosh.sock'' else linux_fallback_socket_path uid
   | None \<Rightarrow> linux_fallback_socket_path uid)"

definition resolve_socket_path :: "string option \<Rightarrow> string option \<Rightarrow> nat \<Rightarrow> string" where
  "resolve_socket_path override runtime_dir uid = (case override of
     Some path \<Rightarrow> path | None \<Rightarrow> default_socket_path runtime_dir uid)"

definition sloosh_home :: "string option \<Rightarrow> string option \<Rightarrow> nat \<Rightarrow> string" where
  "sloosh_home override home uid = (case override of
     Some path \<Rightarrow> path
   | None \<Rightarrow> (case home of
       Some h \<Rightarrow> path_join h ''.sloosh'' | None \<Rightarrow> path_join ''/tmp'' (''sloosh-'' @ show_nat uid)))"

datatype bind_answer = Bound | AddrInUse | BindRefused

text \<open>Two attempts to bind, whether someone answers on the path, and the later calls.\<close>

record bind_answers =
  ba_first :: bind_answer
  ba_alive :: bool
  ba_removed :: bool
  ba_second :: bind_answer
  ba_mode_set :: bool
  ba_listener :: bool

datatype bind_outcome = Listening | AlreadyRunning

datatype bind_event = RemovedSocket | SocketMode nat

definition finish_bind :: "bind_answers \<Rightarrow> bind_event list \<times> (transport_error + bind_outcome)" where
  "finish_bind B =
     (if \<not> ba_mode_set B then ([], Inl PermissionsFailed)
      else ([SocketMode 0x180], if ba_listener B then Inr Listening else Inl BindFailed))"

text \<open>\<open>managed\<close> is \<open>socket_path_uses_managed_parent\<close>; a path without a parent is not modelled.\<close>

definition bind_socket ::
  "nat \<Rightarrow> bool \<Rightarrow> directory_answers \<Rightarrow> bind_answers \<Rightarrow> bind_event list \<times> (transport_error + bind_outcome)" where
  "bind_socket euid managed A B =
     (case (if managed then ensure_private_dir euid A else validate_private_dir euid A) of
        Inl e \<Rightarrow> ([], Inl e)
      | Inr _ \<Rightarrow>
          (case ba_first B of
             Bound \<Rightarrow> finish_bind B
           | BindRefused \<Rightarrow> ([], Inl BindFailed)
           | AddrInUse \<Rightarrow>
               if ba_alive B then ([], Inr AlreadyRunning)
               else if \<not> ba_removed B then ([], Inl BindFailed)
               else (case ba_second B of
                       Bound \<Rightarrow> (case finish_bind B of (evs, res) \<Rightarrow> (RemovedSocket # evs, res))
                     | _ \<Rightarrow> ([RemovedSocket], Inl BindFailed))))"

subsection \<open>Who answers\<close>

datatype connect_failure = NotFound | ConnectionRefusedKind | PermissionDenied | OtherKind

text \<open>
  A connected server: its credentials (pid, uid), its executable, which requests reach it, which it
  ever answers, and its replies. The client's receive has no timeout.
\<close>

record peer =
  pe_credentials :: "connect_failure + nat \<times> nat"
  pe_executable :: "nat \<Rightarrow> connect_failure + string"
  pe_sent :: "request \<Rightarrow> bool"
  pe_answers :: "request \<Rightarrow> bool"
  pe_reply :: "request \<Rightarrow> wire_error + response option"

record client_env =
  cv_euid :: nat
  cv_canonical :: "string \<Rightarrow> connect_failure + string"
  cv_contact :: "nat \<Rightarrow> connect_failure + peer"
  cv_spawned :: bool

definition verify_peer_identity_against :: "peer \<Rightarrow> nat \<Rightarrow> string \<Rightarrow> connect_failure + unit" where
  "verify_peer_identity_against p expected_uid expected_exe = (case pe_credentials p of
     Inl k \<Rightarrow> Inl k
   | Inr (pid, uid) \<Rightarrow>
       if uid \<noteq> expected_uid then Inl PermissionDenied
       else (case pe_executable p pid of
               Inl k \<Rightarrow> Inl k
             | Inr peer_exe \<Rightarrow> if peer_exe \<noteq> expected_exe then Inl PermissionDenied else Inr ()))"

definition verify_peer_identity :: "client_env \<Rightarrow> string \<Rightarrow> peer \<Rightarrow> connect_failure + unit" where
  "verify_peer_identity E exe p = (case cv_canonical E exe of
     Inl k \<Rightarrow> Inl k
   | Inr expected \<Rightarrow> verify_peer_identity_against p (cv_euid E) expected)"

text \<open>The \<open>n\<close>-th connection attempt of a command.\<close>

definition connect_verified :: "client_env \<Rightarrow> string \<Rightarrow> nat \<Rightarrow> connect_failure + peer" where
  "connect_verified E exe n = (case cv_contact E n of
     Inl k \<Rightarrow> Inl k
   | Inr p \<Rightarrow> (case verify_peer_identity E exe p of Inr _ \<Rightarrow> Inr p | Inl _ \<Rightarrow> Inl PermissionDenied))"

text \<open>\<open>StillWaiting\<close> is no error: the call has not returned.\<close>

datatype connect_error =
    StillWaiting | UntrustedDaemon | CannotSpawn | Unreachable | CannotConnect
  | AskFailed | DaemonRefused daemon_message | NotAStatus | ClosedDuringCheck
  | ReplyFailed | NoReply | Incompatible nat | HelloFailed | HelloRejected daemon_message | NotReady | ClosedDuringHello | OtherProtocol nat

datatype client_event = Contact nat | Spawn | Sleep nat | Tell peer request

text \<open>Ask for the status, compare the protocol, then greet.\<close>

definition verify_wire_protocol :: "peer \<Rightarrow> client_event list \<times> (connect_error + peer)" where
  "verify_wire_protocol p =
     (if \<not> pe_sent p Status then ([], Inl AskFailed)
      else if \<not> pe_answers p Status then ([Tell p Status], Inl StillWaiting)
      else (case pe_reply p Status of
        Inr (Some (StatusR status)) \<Rightarrow>
          if sr_wire_protocol status \<noteq> WIRE_PROTOCOL_VERSION
          then ([Tell p Status], Inl (Incompatible (sr_wire_protocol status)))
          else if \<not> pe_sent p (Hello WIRE_PROTOCOL_VERSION) then ([Tell p Status], Inl HelloFailed)
          else
            ([Tell p Status, Tell p (Hello WIRE_PROTOCOL_VERSION)],
             if \<not> pe_answers p (Hello WIRE_PROTOCOL_VERSION) then Inl StillWaiting
             else case pe_reply p (Hello WIRE_PROTOCOL_VERSION) of
               Inl _ \<Rightarrow> Inl HelloFailed
             | Inr None \<Rightarrow> Inl ClosedDuringHello
             | Inr (Some (ProtocolReady v)) \<Rightarrow> if v = WIRE_PROTOCOL_VERSION then Inr p else Inl (OtherProtocol v)
             | Inr (Some (ErrorR message)) \<Rightarrow> Inl (HelloRejected message)
             | Inr (Some _) \<Rightarrow> Inl NotReady)
      | Inl _ \<Rightarrow> ([Tell p Status], Inl AskFailed)
      | Inr None \<Rightarrow> ([Tell p Status], Inl ClosedDuringCheck)
      | Inr (Some (ErrorR message)) \<Rightarrow> ([Tell p Status], Inl (DaemonRefused message))
      | Inr (Some _) \<Rightarrow> ([Tell p Status], Inl NotAStatus)))"

subsection \<open>Which executable\<close>

text \<open>
  An absolute path is the list of its components. \<open>file_extension\<close> is what follows the last dot of the
  last component, unless that dot is its first character.
\<close>

type_synonym path = "string list"

definition parent_path :: "path \<Rightarrow> path option" where
  "parent_path p = (if p = [] then None else Some (butlast p))"

definition file_name :: "path \<Rightarrow> string option" where
  "file_name p = (if p = [] then None else Some (last p))"

definition file_extension :: "path \<Rightarrow> string option" where
  "file_extension p = (case file_name p of
     None \<Rightarrow> None
   | Some name \<Rightarrow>
       (case dropWhile (\<lambda>c. c \<noteq> CHR ''.'') (rev name) of
          [] \<Rightarrow> None
        | _ # stem \<Rightarrow>
            if stem = [] \<or> name = ''..'' then None
            else Some (rev (takeWhile (\<lambda>c. c \<noteq> CHR ''.'') (rev name)))))"

record metadata =
  md_symlink :: bool
  md_file :: bool
  md_dir :: bool
  md_mode :: nat
  md_uid :: nat

record file_system =
  fs_euid :: nat
  fs_lstat :: "path \<Rightarrow> connect_failure + metadata"
  fs_stat :: "path \<Rightarrow> connect_failure + metadata"
  fs_canonical :: "path \<Rightarrow> connect_failure + path"

datatype executable_error =
    NoBundle | NotABundle path | CannotInspect path | ComponentSymlink path | NotExecutable path
  | ComponentNotADirectory path | UnexpectedOwner path nat | ComponentWritable path
  | CannotCanonicalize path | OutsideBundle path | NoSibling path

definition is_executable_mode :: "nat \<Rightarrow> bool" where
  "is_executable_mode mode \<longleftrightarrow> mode AND 0x49 \<noteq> 0"

definition is_writable_by_others :: "nat \<Rightarrow> bool" where
  "is_writable_by_others mode \<longleftrightarrow> mode AND 0x12 \<noteq> 0"

definition is_executable_file :: "file_system \<Rightarrow> path \<Rightarrow> bool" where
  "is_executable_file F p = (case fs_stat F p of
     Inl _ \<Rightarrow> False | Inr m \<Rightarrow> md_file m \<and> is_executable_mode (md_mode m))"

text \<open>One turn of the loop over the bundle's components; the daemon itself is the last one.\<close>

definition check_component :: "file_system \<Rightarrow> bool \<Rightarrow> path \<Rightarrow> executable_error + unit" where
  "check_component F is_last component = (case fs_lstat F component of
     Inl _ \<Rightarrow> Inl (CannotInspect component)
   | Inr m \<Rightarrow>
       if md_symlink m then Inl (ComponentSymlink component)
       else if is_last \<and> (\<not> md_file m \<or> \<not> is_executable_mode (md_mode m)) then Inl (NotExecutable component)
       else if \<not> is_last \<and> \<not> md_dir m then Inl (ComponentNotADirectory component)
       else if md_uid m \<noteq> 0 \<and> md_uid m \<noteq> fs_euid F then Inl (UnexpectedOwner component (md_uid m))
       else if is_writable_by_others (md_mode m) then Inl (ComponentWritable component)
       else Inr ())"

fun check_components :: "file_system \<Rightarrow> path list \<Rightarrow> executable_error + unit" where
  "check_components F [] = Inr ()"
| "check_components F (c # rest) = (case check_component F (rest = []) c of
     Inl e \<Rightarrow> Inl e | Inr _ \<Rightarrow> check_components F rest)"

definition starts_with :: "path \<Rightarrow> path \<Rightarrow> bool" where
  "starts_with p base \<longleftrightarrow> take (length base) p = base"

definition resolve_bundled :: "file_system \<Rightarrow> path \<Rightarrow> path \<Rightarrow> executable_error + path" where
  "resolve_bundled F app p = (case fs_canonical F app of
     Inl _ \<Rightarrow> Inl (CannotCanonicalize app)
   | Inr canonical_app \<Rightarrow>
       (case fs_canonical F p of
          Inl _ \<Rightarrow> Inl (CannotCanonicalize p)
        | Inr canonical_daemon \<Rightarrow>
            if \<not> starts_with canonical_daemon canonical_app then Inl (OutsideBundle p)
            else Inr canonical_daemon))"

definition validate_bundled_daemon_executable :: "file_system \<Rightarrow> path \<Rightarrow> executable_error + path" where
  "validate_bundled_daemon_executable F p = (case parent_path p of
     None \<Rightarrow> Inl NoBundle
   | Some helpers \<Rightarrow>
       (case parent_path helpers of
          None \<Rightarrow> Inl NoBundle
        | Some contents \<Rightarrow>
            (case parent_path contents of
               None \<Rightarrow> Inl NoBundle
             | Some app \<Rightarrow>
                 if file_name p \<noteq> Some ''slooshd'' \<or> file_name helpers \<noteq> Some ''Helpers''
                    \<or> file_name contents \<noteq> Some ''Contents'' \<or> file_extension app \<noteq> Some ''app''
                 then Inl (NotABundle p)
                 else (case check_components F [app, contents, helpers, p] of
                         Inl e \<Rightarrow> Inl e
                       | Inr _ \<Rightarrow> resolve_bundled F app p))))"

text \<open>\<open>app_helper\<close> is the installed application's helper: a fixed path in a macOS release, else none.\<close>

definition select_sibling :: "file_system \<Rightarrow> path \<Rightarrow> executable_error + path" where
  "select_sibling F current = (case parent_path current of
     None \<Rightarrow> Inl (NoSibling current)
   | Some parent \<Rightarrow>
       if is_executable_file F (parent @ [''slooshd'']) then Inr (parent @ [''slooshd''])
       else Inl (NoSibling (parent @ [''slooshd''])))"

definition select_daemon_executable :: "file_system \<Rightarrow> path \<Rightarrow> path option \<Rightarrow> executable_error + path" where
  "select_daemon_executable F current app_helper = (case app_helper of
     None \<Rightarrow> select_sibling F current
   | Some p \<Rightarrow>
       (case fs_lstat F p of
          Inr _ \<Rightarrow> validate_bundled_daemon_executable F p
        | Inl NotFound \<Rightarrow> select_sibling F current
        | Inl _ \<Rightarrow> Inl (CannotInspect p)))"

subsection \<open>Starting the daemon\<close>

definition MAX_ATTEMPTS :: nat where "MAX_ATTEMPTS = 12"
definition INITIAL_DELAY :: nat where "INITIAL_DELAY = 50"
definition MAX_DELAY :: nat where "MAX_DELAY = 1000"

text \<open>Delays in milliseconds.\<close>

fun wait_loop :: "client_env \<Rightarrow> string \<Rightarrow> nat \<Rightarrow> nat \<Rightarrow> nat \<Rightarrow> client_event list \<times> (connect_error + peer)" where
  "wait_loop E exe 0 delay n = ([], Inl Unreachable)"
| "wait_loop E exe (Suc left) delay n =
     (case connect_verified E exe n of
        Inr p \<Rightarrow> (case verify_wire_protocol p of (evs, res) \<Rightarrow> (Sleep delay # Contact n # evs, res))
      | Inl PermissionDenied \<Rightarrow> ([Sleep delay, Contact n], Inl UntrustedDaemon)
      | Inl _ \<Rightarrow> (case wait_loop E exe left (min (delay * 2) MAX_DELAY) (Suc n) of
                   (evs, res) \<Rightarrow> (Sleep delay # Contact n # evs, res)))"

definition wait_for_daemon :: "client_env \<Rightarrow> string \<Rightarrow> nat \<Rightarrow> client_event list \<times> (connect_error + peer)" where
  "wait_for_daemon E exe n = wait_loop E exe MAX_ATTEMPTS INITIAL_DELAY n"

definition spawn_and_wait :: "client_env \<Rightarrow> string \<Rightarrow> client_event list \<times> (connect_error + peer)" where
  "spawn_and_wait E exe =
     (if \<not> cv_spawned E then ([], Inl CannotSpawn)
      else (case wait_for_daemon E exe 1 of (evs, res) \<Rightarrow> (Spawn # evs, res)))"

definition connect_or_spawn :: "client_env \<Rightarrow> string \<Rightarrow> client_event list \<times> (connect_error + peer)" where
  "connect_or_spawn E exe = (case connect_verified E exe 0 of
     Inr p \<Rightarrow> (case verify_wire_protocol p of (evs, res) \<Rightarrow> (Contact 0 # evs, res))
   | Inl PermissionDenied \<Rightarrow> ([Contact 0], Inl UntrustedDaemon)
   | Inl _ \<Rightarrow> (case spawn_and_wait E exe of (evs, res) \<Rightarrow> (Contact 0 # evs, res)))"

text \<open>\<open>DaemonClient::request\<close>: one request over a fresh connection.\<close>

definition client_request ::
  "client_env \<Rightarrow> string \<Rightarrow> request \<Rightarrow> client_event list \<times> (connect_error + response)" where
  "client_request E exe r = (case connect_or_spawn E exe of
     (evs, Inl e) \<Rightarrow> (evs, Inl e)
   | (evs, Inr p) \<Rightarrow>
       if \<not> pe_sent p r then (evs, Inl AskFailed)
       else (evs @ [Tell p r], if \<not> pe_answers p r then Inl StillWaiting else case pe_reply p r of
               Inl _ \<Rightarrow> Inl ReplyFailed | Inr None \<Rightarrow> Inl NoReply | Inr (Some reply) \<Rightarrow> Inr reply))"

subsection \<open>Daemon commands\<close>

definition daemon_connect_error :: "connect_failure \<Rightarrow> connect_error" where
  "daemon_connect_error k = (if k = PermissionDenied then UntrustedDaemon else CannotConnect)"

definition daemon_is_not_running :: "connect_failure \<Rightarrow> bool" where
  "daemon_is_not_running k \<longleftrightarrow> k = NotFound \<or> k = ConnectionRefusedKind"

definition cmd_daemon_start :: "client_env \<Rightarrow> string \<Rightarrow> client_event list \<times> (connect_error + peer)" where
  "cmd_daemon_start E exe = (case connect_verified E exe 0 of
     Inr p \<Rightarrow> (case verify_wire_protocol p of (evs, res) \<Rightarrow> (Contact 0 # evs, res))
   | Inl k \<Rightarrow>
       if daemon_is_not_running k then (case spawn_and_wait E exe of (evs, res) \<Rightarrow> (Contact 0 # evs, res))
       else ([Contact 0], Inl (daemon_connect_error k)))"

text \<open>Stopping needs no verified peer; \<open>None\<close> is a daemon that was not running.\<close>

definition cmd_daemon_stop :: "client_env \<Rightarrow> client_event list \<times> (connect_error + peer option)" where
  "cmd_daemon_stop E = (case cv_contact E 0 of
     Inr p \<Rightarrow>
       if \<not> pe_sent p Shutdown then ([Contact 0], Inl AskFailed)
       else ([Contact 0, Tell p Shutdown], if pe_answers p Shutdown then Inr (Some p) else Inl StillWaiting)
   | Inl k \<Rightarrow> if daemon_is_not_running k then ([Contact 0], Inr None) else ([Contact 0], Inl (daemon_connect_error k)))"

definition request_status :: "peer \<Rightarrow> client_event list \<times> (connect_error + status_reply)" where
  "request_status p =
     (if \<not> pe_sent p Status then ([], Inl AskFailed)
      else ([Tell p Status], if \<not> pe_answers p Status then Inl StillWaiting else case pe_reply p Status of
        Inl _ \<Rightarrow> Inl AskFailed
      | Inr None \<Rightarrow> Inl ClosedDuringCheck
      | Inr (Some (StatusR status)) \<Rightarrow> Inr status
      | Inr (Some (ErrorR message)) \<Rightarrow> Inl (DaemonRefused message)
      | Inr (Some _) \<Rightarrow> Inl NotAStatus))"

text \<open>\<open>exe\<close> is the daemon executable, if one can be located.\<close>

definition cmd_daemon_status :: "client_env \<Rightarrow> string option \<Rightarrow> client_event list \<times> (connect_error + status_reply option)" where
  "cmd_daemon_status E exe = (case cv_contact E 0 of
     Inl k \<Rightarrow> if daemon_is_not_running k then ([Contact 0], Inr None) else ([Contact 0], Inl (daemon_connect_error k))
   | Inr p \<Rightarrow>
       (case exe of
          None \<Rightarrow> ([Contact 0], Inl CannotSpawn)
        | Some exe \<Rightarrow>
            (case verify_peer_identity E exe p of
               Inl k \<Rightarrow> ([Contact 0], Inl (daemon_connect_error k))
             | Inr _ \<Rightarrow> (case request_status p of (evs, res) \<Rightarrow> (Contact 0 # evs, map_sum id Some res)))))"

section \<open>What the client and the daemon's socket promise\<close>

subsection \<open>Authenticated conversations\<close>

definition identified :: "client_env \<Rightarrow> string \<Rightarrow> peer \<Rightarrow> bool" where
  "identified E exe p \<longleftrightarrow> (\<exists>expected pid.
     cv_canonical E exe = Inr expected \<and> pe_credentials p = Inr (pid, cv_euid E) \<and>
     pe_executable p pid = Inr expected)"

definition agreed :: "peer \<Rightarrow> bool" where
  "agreed p \<longleftrightarrow> (\<exists>status. pe_reply p Status = Inr (Some (StatusR status)) \<and>
       sr_wire_protocol status = WIRE_PROTOCOL_VERSION) \<and>
     pe_reply p (Hello WIRE_PROTOCOL_VERSION) = Inr (Some (ProtocolReady WIRE_PROTOCOL_VERSION))"

text \<open>
  What an execution of the client may have recorded: it says only the two opening messages, to
  identified servers, and one it returns has agreed.
\<close>

definition cautious :: "client_env \<Rightarrow> string \<Rightarrow> client_event list \<times> (connect_error + peer) \<Rightarrow> bool" where
  "cautious E exe run \<longleftrightarrow>
     (\<forall>p r. Tell p r \<in> set (fst run) \<longrightarrow>
        identified E exe p \<and> (r = Status \<or> r = Hello WIRE_PROTOCOL_VERSION)) \<and>
     (\<forall>p. snd run = Inr p \<longrightarrow> identified E exe p \<and> agreed p)"

lemma verified_identified:
  "verify_peer_identity E exe p = Inr u \<Longrightarrow> identified E exe p"
  by (auto simp: verify_peer_identity_def verify_peer_identity_against_def identified_def
      split: sum.splits prod.splits if_splits)

lemma connect_verified_identified:
  "connect_verified E exe n = Inr p \<Longrightarrow> cv_contact E n = Inr p \<and> identified E exe p"
  by (auto simp: connect_verified_def verified_identified split: sum.splits)

lemma protocol_says:
  "fst (verify_wire_protocol p) \<in> {[], [Tell p Status], [Tell p Status, Tell p (Hello WIRE_PROTOCOL_VERSION)]}"
proof (cases "\<exists>r. pe_reply p Status = Inr (Some r)")
  case True
  then obtain r where r: "pe_reply p Status = Inr (Some r)" by blast
  show ?thesis
  proof (cases "pe_answers p Status")
    case True
    with r show ?thesis by (cases r) (simp_all add: verify_wire_protocol_def)
  qed (simp add: verify_wire_protocol_def)
next
  case False
  then show ?thesis by (simp add: verify_wire_protocol_def split: sum.splits option.splits)
qed

lemma protocol_ok:
  assumes ok: "snd (verify_wire_protocol p) = Inr q"
  shows "q = p \<and> agreed p"
proof -
  have sent: "pe_sent p Status" "pe_answers p Status" using ok by (simp_all add: verify_wire_protocol_def split: if_splits)
  obtain r where r: "pe_reply p Status = Inr (Some r)"
    using ok sent by (simp add: verify_wire_protocol_def split: sum.splits option.splits)
  obtain status where status: "r = StatusR status"
    using ok sent r by (cases r) (simp_all add: verify_wire_protocol_def)
  have version: "sr_wire_protocol status = WIRE_PROTOCOL_VERSION" "pe_sent p (Hello WIRE_PROTOCOL_VERSION)"
    using ok sent r status by (simp_all add: verify_wire_protocol_def split: if_splits)
  have heard: "pe_answers p (Hello WIRE_PROTOCOL_VERSION)"
    using ok sent r status version by (simp add: verify_wire_protocol_def split: if_splits)
  obtain h where h: "pe_reply p (Hello WIRE_PROTOCOL_VERSION) = Inr (Some h)"
    using ok sent r status version heard by (simp add: verify_wire_protocol_def split: sum.splits option.splits)
  have "h = ProtocolReady WIRE_PROTOCOL_VERSION \<and> q = p"
    using ok sent r status version heard h by (cases h) (simp_all add: verify_wire_protocol_def split: if_splits)
  then show ?thesis using r status version h by (simp add: agreed_def)
qed

lemma protocol_cautious:
  "identified E exe p \<Longrightarrow> cautious E exe (verify_wire_protocol p)"
  using protocol_says[of p] protocol_ok[of p] by (auto simp: cautious_def)

lemma cautious_error: "(\<And>p r. Tell p r \<notin> set evs) \<Longrightarrow> cautious E exe (evs, Inl e)"
  by (simp add: cautious_def)

lemma cautious_Cons:
  "cautious E exe (case run of (evs, res) \<Rightarrow> (ev # evs, res)) \<longleftrightarrow>
     cautious E exe run \<and> (\<forall>p r. ev = Tell p r \<longrightarrow> identified E exe p \<and> (r = Status \<or> r = Hello WIRE_PROTOCOL_VERSION))"
  by (cases run) (auto simp: cautious_def)

lemma cautious_Cons2:
  "cautious E exe (case run of (evs, res) \<Rightarrow> (Sleep d # Contact n # evs, res)) \<longleftrightarrow> cautious E exe run"
  by (cases run) (simp add: cautious_def)

lemma wait_loop_cautious: "cautious E exe (wait_loop E exe left delay n)"
proof (induction left arbitrary: delay n)
  case 0
  show ?case by (simp add: cautious_error)
next
  case (Suc left)
  show ?case
  proof (cases "connect_verified E exe n")
    case (Inl k)
    then show ?thesis
      by (cases k) (simp_all add: Suc cautious_Cons2 cautious_error)
  next
    case (Inr p)
    then show ?thesis
      by (simp add: cautious_Cons2 protocol_cautious connect_verified_identified)
  qed
qed

lemma spawn_and_wait_cautious: "cautious E exe (spawn_and_wait E exe)"
  by (simp add: spawn_and_wait_def wait_for_daemon_def cautious_Cons wait_loop_cautious cautious_error)

lemma connect_or_spawn_cautious: "cautious E exe (connect_or_spawn E exe)"
proof (cases "connect_verified E exe 0")
  case (Inl k)
  then show ?thesis
    by (cases k) (simp_all add: connect_or_spawn_def cautious_Cons spawn_and_wait_cautious cautious_error)
next
  case (Inr p)
  then show ?thesis
    by (simp add: connect_or_spawn_def cautious_Cons protocol_cautious connect_verified_identified)
qed

lemma daemon_start_cautious: "cautious E exe (cmd_daemon_start E exe)"
proof (cases "connect_verified E exe 0")
  case (Inl k)
  then show ?thesis
    by (cases k) (simp_all add: cmd_daemon_start_def daemon_is_not_running_def cautious_Cons
        spawn_and_wait_cautious cautious_error)
next
  case (Inr p)
  then show ?thesis
    by (simp add: cmd_daemon_start_def cautious_Cons protocol_cautious connect_verified_identified)
qed

lemma request_after_agreement:
  assumes "client_request E exe r = (evs, res)" and "Tell p r' \<in> set evs"
  shows "identified E exe p \<and> (r' = Status \<or> r' = Hello WIRE_PROTOCOL_VERSION \<or> r' = r \<and> agreed p)"
proof -
  obtain evs' res' where run: "connect_or_spawn E exe = (evs', res')" by force
  have ok: "cautious E exe (evs', res')" using connect_or_spawn_cautious[of E exe] run by simp
  then show ?thesis using assms run
    by (cases res') (auto simp: client_request_def cautious_def split: if_splits, blast+)
qed

lemma untrusted_answer_is_the_end:
  assumes "cv_contact E 0 = Inr q" "\<not> identified E exe q"
  shows "client_request E exe r = ([Contact 0], Inl UntrustedDaemon)"
proof -
  have "verify_peer_identity E exe q \<noteq> Inr u" for u
    using assms(2) verified_identified by blast
  then have "connect_verified E exe 0 = Inl PermissionDenied"
    using assms(1) by (cases "verify_peer_identity E exe q") (auto simp: connect_verified_def)
  then show ?thesis by (simp add: client_request_def connect_or_spawn_def)
qed

subsection \<open>How long starting takes\<close>

fun sleeps :: "client_event list \<Rightarrow> nat list" where
  "sleeps [] = []"
| "sleeps (Sleep d # evs) = d # sleeps evs"
| "sleeps (ev # evs) = sleeps evs"

fun contacts :: "client_event list \<Rightarrow> nat list" where
  "contacts [] = []"
| "contacts (Contact n # evs) = n # contacts evs"
| "contacts (ev # evs) = contacts evs"

fun spawns :: "client_event list \<Rightarrow> nat" where
  "spawns [] = 0"
| "spawns (Spawn # evs) = Suc (spawns evs)"
| "spawns (ev # evs) = spawns evs"

fun delays :: "nat \<Rightarrow> nat \<Rightarrow> nat list" where
  "delays 0 delay = []"
| "delays (Suc left) delay = delay # delays left (min (delay * 2) MAX_DELAY)"

text \<open>\<open>quiet\<close>: neither waits, nor connects, nor spawns.\<close>

definition quiet :: "client_event list \<Rightarrow> bool" where
  "quiet evs \<longleftrightarrow> sleeps evs = [] \<and> contacts evs = [] \<and> spawns evs = 0"

lemma protocol_quiet: "quiet (fst (verify_wire_protocol p))"
  using protocol_says[of p] by (auto simp: quiet_def)

lemma wait_loop_shape:
  "\<exists>k \<le> left. sleeps (fst (wait_loop E exe left delay n)) = take k (delays left delay) \<and>
     contacts (fst (wait_loop E exe left delay n)) = [n..<n + k] \<and> spawns (fst (wait_loop E exe left delay n)) = 0"
proof (induction left arbitrary: delay n)
  case 0
  show ?case by simp
next
  case (Suc left)
  let ?delay = "min (delay * 2) MAX_DELAY"
  obtain k where k: "k \<le> left" "sleeps (fst (wait_loop E exe left ?delay (Suc n))) = take k (delays left ?delay)"
    "contacts (fst (wait_loop E exe left ?delay (Suc n))) = [Suc n..<Suc n + k]"
    "spawns (fst (wait_loop E exe left ?delay (Suc n))) = 0"
    using Suc.IH by blast
  show ?case
  proof (cases "connect_verified E exe n")
    case (Inr p)
    then show ?thesis using protocol_quiet[of p]
      by (intro exI[of _ 1]) (simp add: quiet_def case_prod_beta)
  next
    case (Inl f)
    show ?thesis
    proof (cases "f = PermissionDenied")
      case True
      then show ?thesis using Inl by (intro exI[of _ 1]) simp
    next
      case False
      then have "wait_loop E exe (Suc left) delay n =
          (case wait_loop E exe left ?delay (Suc n) of (evs, res) \<Rightarrow> (Sleep delay # Contact n # evs, res))"
        using Inl by (cases f) simp_all
      then show ?thesis using k
        by (intro exI[of _ "Suc k"]) (simp add: case_prod_beta upt_conv_Cons)
    qed
  qed
qed

lemma sum_delays: "sum_list (delays MAX_ATTEMPTS INITIAL_DELAY) = 8550"
  by (simp add: MAX_ATTEMPTS_def INITIAL_DELAY_def MAX_DELAY_def numeral_nat)

lemma sum_take_le: "sum_list (take k (xs :: nat list)) \<le> sum_list xs"
  by (metis append_take_drop_id le_add1 sum_list_append)

lemma connect_or_spawn_bounds:
  "sum_list (sleeps (fst (connect_or_spawn E exe))) \<le> 8550 \<and>
   (\<exists>k \<le> 13. contacts (fst (connect_or_spawn E exe)) = [0..<k]) \<and> spawns (fst (connect_or_spawn E exe)) \<le> 1"
proof -
  obtain k where k: "k \<le> MAX_ATTEMPTS"
    "sleeps (fst (wait_for_daemon E exe 1)) = take k (delays MAX_ATTEMPTS INITIAL_DELAY)"
    "contacts (fst (wait_for_daemon E exe 1)) = [1..<1 + k]" "spawns (fst (wait_for_daemon E exe 1)) = 0"
    using wait_loop_shape[of MAX_ATTEMPTS E exe INITIAL_DELAY 1] unfolding wait_for_daemon_def by blast
  have bounds: "sum_list (sleeps (fst (wait_for_daemon E exe 1))) \<le> 8550" "0 # [1..<1 + k] = [0..<1 + k]" "1 + k \<le> 13"
    using k sum_take_le[of k "delays MAX_ATTEMPTS INITIAL_DELAY"] sum_delays
    by (simp, simp add: upt_conv_Cons, simp add: MAX_ATTEMPTS_def)
  have waiting: ?thesis if "connect_or_spawn E exe =
      (case spawn_and_wait E exe of (evs, res) \<Rightarrow> (Contact 0 # evs, res))"
  proof (cases "cv_spawned E")
    case True
    then show ?thesis using that k bounds
      by (auto simp: spawn_and_wait_def case_prod_beta intro!: exI[of _ "Suc k"])
  next
    case False
    then show ?thesis using that by (auto simp: spawn_and_wait_def intro!: exI[of _ 1])
  qed
  have at_once: "\<exists>j \<le> 13. contacts [Contact 0] = [0..<j]" by (intro exI[of _ 1]) simp
  show ?thesis
  proof (cases "connect_verified E exe 0")
    case (Inl f)
    then show ?thesis using waiting at_once by (cases f) (simp_all add: connect_or_spawn_def)
  next
    case (Inr p)
    then show ?thesis using protocol_quiet[of p] at_once
      by (simp add: connect_or_spawn_def quiet_def case_prod_beta)
  qed
qed

lemma identified_verified: "identified E exe p \<Longrightarrow> verify_peer_identity E exe p = Inr ()"
  by (auto simp: verify_peer_identity_def verify_peer_identity_against_def identified_def)

lemma wait_loop_finds:
  "\<lbrakk>k < left; \<And>i. i < k \<Longrightarrow> \<exists>f. connect_verified E exe (n + i) = Inl f \<and> f \<noteq> PermissionDenied;
    connect_verified E exe (n + k) = Inr p\<rbrakk>
   \<Longrightarrow> snd (wait_loop E exe left delay n) = snd (verify_wire_protocol p)"
proof (induction k arbitrary: left delay n)
  case 0
  then show ?case by (cases left) (simp_all add: case_prod_beta)
next
  case (Suc k)
  obtain left' where left: "left = Suc left'" using Suc.prems(1) by (cases left) auto
  obtain f where f: "connect_verified E exe n = Inl f" "f \<noteq> PermissionDenied" using Suc.prems(2)[of 0] by auto
  have "snd (wait_loop E exe left' (min (delay * 2) MAX_DELAY) (Suc n)) = snd (verify_wire_protocol p)"
    using Suc.IH[of left' "Suc n"] Suc.prems left Suc.prems(2)[of "Suc i" for i] by simp
  then show ?case using f left by (cases f) (simp_all add: case_prod_beta)
qed

definition conversant :: "peer \<Rightarrow> bool" where
  "conversant p \<longleftrightarrow> (\<forall>r \<in> {Status, Hello WIRE_PROTOCOL_VERSION}. pe_sent p r \<and> pe_answers p r)"

lemma agreed_protocol:
  "\<lbrakk>agreed p; conversant p\<rbrakk>
   \<Longrightarrow> snd (verify_wire_protocol p) = Inr p"
  by (auto simp: verify_wire_protocol_def agreed_def conversant_def)

lemma connect_or_spawn_finds:
  assumes spawned: "cv_spawned E" and k: "k \<le> MAX_ATTEMPTS"
    and down: "\<And>i. i < k \<Longrightarrow> \<exists>f. cv_contact E i = Inl f \<and> f \<noteq> PermissionDenied"
    and up: "cv_contact E k = Inr p" "identified E exe p"
    and protocol: "agreed p" "conversant p"
  shows "snd (connect_or_spawn E exe) = Inr p"
proof -
  have found: "connect_verified E exe k = Inr p"
    using up by (simp add: connect_verified_def identified_verified)
  have missed: "\<exists>f. connect_verified E exe i = Inl f \<and> f \<noteq> PermissionDenied" if "i < k" for i
    using down[OF that] by (auto simp: connect_verified_def)
  show ?thesis
  proof (cases k)
    case 0
    then show ?thesis using found protocol
      by (simp add: connect_or_spawn_def case_prod_beta agreed_protocol)
  next
    case (Suc j)
    then have waits: "snd (wait_loop E exe MAX_ATTEMPTS INITIAL_DELAY 1) = Inr p"
      using wait_loop_finds[of j MAX_ATTEMPTS E exe 1 p INITIAL_DELAY] k missed[of "Suc i" for i] found
        agreed_protocol[OF protocol] by simp
    obtain f where "connect_verified E exe 0 = Inl f" "f \<noteq> PermissionDenied" using missed[of 0] Suc by auto
    then show ?thesis using waits spawned
      by (cases f) (simp_all add: connect_or_spawn_def spawn_and_wait_def wait_for_daemon_def case_prod_beta)
  qed
qed

text \<open>Only a verified server that has not answered an opening message holds a client up.\<close>

definition held_up :: "client_env \<Rightarrow> string \<Rightarrow> client_event list \<times> (connect_error + peer) \<Rightarrow> bool" where
  "held_up E exe run \<longleftrightarrow> (\<exists>n p. n \<in> set (contacts (fst run)) \<and> cv_contact E n = Inr p \<and> identified E exe p \<and>
     (\<exists>r \<in> {Status, Hello WIRE_PROTOCOL_VERSION}. Tell p r \<in> set (fst run) \<and> \<not> pe_answers p r))"

lemma protocol_waits:
  assumes "snd (verify_wire_protocol p) = Inl StillWaiting"
  shows "\<exists>r \<in> {Status, Hello WIRE_PROTOCOL_VERSION}. Tell p r \<in> set (fst (verify_wire_protocol p)) \<and> \<not> pe_answers p r"
proof (cases "\<exists>status. pe_reply p Status = Inr (Some (StatusR status))")
  case True
  then obtain status where status: "pe_reply p Status = Inr (Some (StatusR status))" by blast
  show ?thesis
  proof (cases "pe_answers p (Hello WIRE_PROTOCOL_VERSION)")
    case False
    with assms status show ?thesis by (simp add: verify_wire_protocol_def split: if_splits)
  next
    case True
    with assms status show ?thesis
      by (auto simp: verify_wire_protocol_def split: if_splits sum.splits option.splits response.splits)
  qed
next
  case False
  with assms show ?thesis
    by (auto simp: verify_wire_protocol_def split: if_splits sum.splits option.splits response.splits)
qed

lemma held_up_verified:
  "\<lbrakk>connect_verified E exe n = Inr p; snd (verify_wire_protocol p) = Inl StillWaiting;
    set (fst (verify_wire_protocol p)) \<subseteq> set (fst run); n \<in> set (contacts (fst run))\<rbrakk> \<Longrightarrow> held_up E exe run"
  using protocol_waits[of p] connect_verified_identified[of E exe n p] unfolding held_up_def by blast

lemma held_up_step: "held_up E exe (evs, res) \<Longrightarrow> held_up E exe (ev # evs, res')"
  unfolding held_up_def by (cases ev) auto

lemma held_up_run: "held_up E exe run \<Longrightarrow> held_up E exe (fst run, res)"
  by (simp add: held_up_def)

lemma wait_loop_held_up:
  "snd (wait_loop E exe left delay n) = Inl StillWaiting \<Longrightarrow> held_up E exe (wait_loop E exe left delay n)"
proof (induction left arbitrary: delay n)
  case (Suc left)
  show ?case
  proof (cases "connect_verified E exe n")
    case (Inr p)
    with Suc.prems show ?thesis by (auto simp: case_prod_beta intro!: held_up_verified)
  next
    case (Inl f)
    with Suc show ?thesis
      by (cases f) (auto simp: case_prod_beta intro!: held_up_step held_up_run)
  qed
qed simp

lemma connect_held_up:
  "snd (connect_or_spawn E exe) = Inl StillWaiting \<Longrightarrow> held_up E exe (connect_or_spawn E exe)"
proof (cases "connect_verified E exe 0")
  case (Inr p)
  assume "snd (connect_or_spawn E exe) = Inl StillWaiting"
  with Inr show ?thesis by (auto simp: connect_or_spawn_def case_prod_beta intro!: held_up_verified)
next
  case (Inl f)
  assume "snd (connect_or_spawn E exe) = Inl StillWaiting"
  with Inl show ?thesis using wait_loop_held_up[of E exe MAX_ATTEMPTS INITIAL_DELAY 1]
    by (cases f) (auto simp: connect_or_spawn_def spawn_and_wait_def wait_for_daemon_def case_prod_beta
        intro!: held_up_step held_up_run split: if_splits)
qed

subsection \<open>Binding\<close>

definition private_directory :: "nat \<Rightarrow> bool \<Rightarrow> directory_answers \<Rightarrow> bool" where
  "private_directory euid managed A \<longleftrightarrow>
     da_lstat A = Some (False, True) \<and>
     (\<exists>mode acl. da_opened A = Some (euid, mode, acl) \<and>
        (if managed then da_acl_cleared A \<and> da_mode_set A else mode AND 0xFFF = 0x1C0 \<and> acl = Some False))"

definition dir_prepared :: "nat \<Rightarrow> bool \<Rightarrow> directory_answers \<Rightarrow> bool" where
  "dir_prepared euid managed A \<longleftrightarrow> private_directory euid managed A \<and> (managed \<longrightarrow> da_created A)"

lemma lstat_ok: "check_lstat e A = Inr () \<longleftrightarrow> da_lstat A = Some (False, True)"
  by (auto simp: check_lstat_def split: option.splits)

lemma unit_sum: "x = Inr () \<or> (\<exists>e. x = (Inl e :: 'e + unit))"
  by (cases x) auto

lemma validate_ok: "validate_private_dir euid A = Inr () \<longleftrightarrow> dir_prepared euid False A"
  using unit_sum[of "check_lstat OpenDirectory A"] lstat_ok[of OpenDirectory A]
  by (auto simp: validate_private_dir_def dir_prepared_def private_directory_def split: option.splits if_splits)

lemma ensure_ok: "ensure_private_dir euid A = Inr () \<longleftrightarrow> dir_prepared euid True A"
  using unit_sum[of "check_lstat CreateDir A"] lstat_ok[of CreateDir A]
  by (auto simp: ensure_private_dir_def dir_prepared_def private_directory_def split: option.splits if_splits)

lemma bind_prepared:
  "dir_prepared euid managed A \<Longrightarrow> bind_socket euid managed A B =
     (case ba_first B of
        Bound \<Rightarrow> finish_bind B
      | BindRefused \<Rightarrow> ([], Inl BindFailed)
      | AddrInUse \<Rightarrow>
          if ba_alive B then ([], Inr AlreadyRunning)
          else if \<not> ba_removed B then ([], Inl BindFailed)
          else (case ba_second B of
                  Bound \<Rightarrow> (case finish_bind B of (evs, res) \<Rightarrow> (RemovedSocket # evs, res))
                | _ \<Rightarrow> ([RemovedSocket], Inl BindFailed)))"
  using ensure_ok[of euid A] validate_ok[of euid A] by (cases managed) (simp_all add: bind_socket_def)

lemma bind_unprepared:
  "\<not> dir_prepared euid managed A \<Longrightarrow> \<exists>e. bind_socket euid managed A B = ([], Inl e)"
  using ensure_ok[of euid A] validate_ok[of euid A] unit_sum[of "ensure_private_dir euid A"]
    unit_sum[of "validate_private_dir euid A"]
  by (cases managed) (auto simp: bind_socket_def)

lemma bind_careful:
  assumes run: "bind_socket euid managed A B = (evs, res)"
  shows "evs \<noteq> [] \<or> (\<exists>out. res = Inr out) \<Longrightarrow> dir_prepared euid managed A"
    and "RemovedSocket \<in> set evs \<longleftrightarrow>
      dir_prepared euid managed A \<and> ba_first B = AddrInUse \<and> \<not> ba_alive B \<and> ba_removed B"
    and "res = Inr Listening \<Longrightarrow> last evs = SocketMode 0x180 \<and> evs \<noteq> []"
    and "res = Inr AlreadyRunning \<longleftrightarrow> dir_prepared euid managed A \<and> ba_first B = AddrInUse \<and> ba_alive B"
proof -
  consider (no) "\<not> dir_prepared euid managed A" | (yes) "dir_prepared euid managed A" by blast
  then have all: "(evs \<noteq> [] \<or> (\<exists>out. res = Inr out) \<longrightarrow> dir_prepared euid managed A) \<and>
      (RemovedSocket \<in> set evs \<longleftrightarrow>
        dir_prepared euid managed A \<and> ba_first B = AddrInUse \<and> \<not> ba_alive B \<and> ba_removed B) \<and>
      (res = Inr Listening \<longrightarrow> last evs = SocketMode 0x180 \<and> evs \<noteq> []) \<and>
      (res = Inr AlreadyRunning \<longleftrightarrow> dir_prepared euid managed A \<and> ba_first B = AddrInUse \<and> ba_alive B)"
  proof cases
    case no
    then show ?thesis using bind_unprepared[OF no, of B] run by auto
  next
    case yes
    then show ?thesis using run
      by (cases "ba_first B"; cases "ba_second B")
        (auto simp: bind_prepared finish_bind_def split: if_splits)
  qed
  show "evs \<noteq> [] \<or> (\<exists>out. res = Inr out) \<Longrightarrow> dir_prepared euid managed A"
    and "RemovedSocket \<in> set evs \<longleftrightarrow>
      dir_prepared euid managed A \<and> ba_first B = AddrInUse \<and> \<not> ba_alive B \<and> ba_removed B"
    and "res = Inr Listening \<Longrightarrow> last evs = SocketMode 0x180 \<and> evs \<noteq> []"
    and "res = Inr AlreadyRunning \<longleftrightarrow> dir_prepared euid managed A \<and> ba_first B = AddrInUse \<and> ba_alive B"
    using all by blast+
qed

subsection \<open>The bundled executable\<close>

definition safe_component :: "file_system \<Rightarrow> path \<Rightarrow> bool" where
  "safe_component F c \<longleftrightarrow> (\<exists>m. fs_lstat F c = Inr m \<and> \<not> md_symlink m \<and>
     (md_uid m = 0 \<or> md_uid m = fs_euid F) \<and> \<not> is_writable_by_others (md_mode m))"

lemma component_safe:
  "check_component F is_last c = Inr u \<Longrightarrow> safe_component F c"
  by (auto simp: check_component_def safe_component_def split: sum.splits if_splits)

lemma components_safe:
  "check_components F cs = Inr u \<Longrightarrow> c \<in> set cs \<Longrightarrow> safe_component F c"
  by (induction cs) (auto simp: component_safe split: sum.splits)

lemma last_component_executable:
  "check_components F cs = Inr u \<Longrightarrow> cs \<noteq> [] \<Longrightarrow>
     \<exists>m. fs_lstat F (last cs) = Inr m \<and> md_file m \<and> is_executable_mode (md_mode m)"
  by (induction cs) (auto simp: check_component_def split: sum.splits if_splits)

lemma parent_pathD: "parent_path p = Some q \<Longrightarrow> p \<noteq> [] \<and> p = q @ [last p]"
  by (auto simp: parent_path_def split: if_splits)

lemma bundled_shape:
  assumes "validate_bundled_daemon_executable F p = Inr exe"
  shows "\<exists>app. p = app @ [''Contents'', ''Helpers'', ''slooshd''] \<and> file_extension app = Some ''app'' \<and>
     check_components F [app, app @ [''Contents''], app @ [''Contents'', ''Helpers''], p] = Inr () \<and>
     resolve_bundled F app p = Inr exe"
proof -
  obtain helpers contents app where parents: "parent_path p = Some helpers"
      "parent_path helpers = Some contents" "parent_path contents = Some app"
    and names: "file_name p = Some ''slooshd''" "file_name helpers = Some ''Helpers''"
      "file_name contents = Some ''Contents''" "file_extension app = Some ''app''"
    and ok: "check_components F [app, contents, helpers, p] = Inr ()" "resolve_bundled F app p = Inr exe"
    using assms by (auto simp: validate_bundled_daemon_executable_def split: option.splits if_splits sum.splits)
  have "contents = app @ [''Contents'']" "helpers = contents @ [''Helpers'']" "p = helpers @ [''slooshd'']"
    using parents[THEN parent_pathD] names by (auto simp: file_name_def split: if_splits)
  then show ?thesis using names(4) ok by auto
qed

lemma selected_executable:
  assumes "select_daemon_executable F current helper = Inr exe"
  shows "(\<exists>p. helper = Some p \<and> validate_bundled_daemon_executable F p = Inr exe) \<or>
    ((\<forall>p. helper = Some p \<longrightarrow> fs_lstat F p = Inl NotFound) \<and> current \<noteq> [] \<and>
     exe = butlast current @ [''slooshd''] \<and> is_executable_file F exe)"
  using assms
  by (auto simp: select_daemon_executable_def select_sibling_def parent_path_def
      split: option.splits sum.splits connect_failure.splits if_splits)

section \<open>Properties\<close>

lemma status_and_stop_cautious:
  "(\<forall>p r. Tell p r \<in> set (fst (cmd_daemon_status E exe)) \<longrightarrow> r = Status \<and> (\<exists>x. exe = Some x \<and> identified E x p)) \<and>
   (\<forall>p r. Tell p r \<in> set (fst (cmd_daemon_stop E)) \<longrightarrow> r = Shutdown)"
  by (auto simp: cmd_daemon_status_def cmd_daemon_stop_def request_status_def verified_identified
      split: sum.splits option.splits if_splits)

text \<open>
  C14: Whatever the client says to a server whose uid and executable it has not verified is a
  shutdown: a request, starting the daemon and asking for its status speak only to identified
  servers; a request is sent only after the status and the greeting agreed on the protocol, its
  reply comes from such a server, and a first answer that is not identified ends it, with nothing
  sent and nothing spawned.
\<close>

theorem strangers_hear_only_shutdown:
  assumes run: "client_request E exe req = (evs, res)"
  shows "(\<forall>p r. Tell p r \<in> set evs \<union> set (fst (cmd_daemon_start E exe)) \<union>
             set (fst (cmd_daemon_status E (Some exe))) \<union> set (fst (cmd_daemon_stop E)) \<longrightarrow>
           identified E exe p \<and> (r \<in> {Status, Hello WIRE_PROTOCOL_VERSION} \<or> r = req \<and> agreed p) \<or> r = Shutdown) \<and>
    (\<forall>reply. res = Inr reply \<longrightarrow>
       (\<exists>p. identified E exe p \<and> agreed p \<and> pe_reply p req = Inr (Some reply) \<and> last evs = Tell p req)) \<and>
    (\<forall>q. cv_contact E 0 = Inr q \<and> \<not> identified E exe q \<longrightarrow> evs = [Contact 0] \<and> res = Inl UntrustedDaemon)"
proof (intro conjI allI impI)
  fix p r
  assume "Tell p r \<in> set evs \<union> set (fst (cmd_daemon_start E exe)) \<union>
    set (fst (cmd_daemon_status E (Some exe))) \<union> set (fst (cmd_daemon_stop E))"
  then show "identified E exe p \<and> (r \<in> {Status, Hello WIRE_PROTOCOL_VERSION} \<or> r = req \<and> agreed p) \<or> r = Shutdown"
    using request_after_agreement[OF run, of p r] daemon_start_cautious[of E exe]
      status_and_stop_cautious[of E "Some exe"]
    by (auto simp: cautious_def)
next
  fix reply assume reply: "res = Inr reply"
  obtain evs' q where "connect_or_spawn E exe = (evs', Inr q)" "pe_reply q req = Inr (Some reply)" "evs = evs' @ [Tell q req]"
    using run reply by (auto simp: client_request_def split: prod.splits sum.splits if_splits option.splits)
  then show "\<exists>p. identified E exe p \<and> agreed p \<and> pe_reply p req = Inr (Some reply) \<and> last evs = Tell p req"
    using connect_or_spawn_cautious[of E exe] by (auto simp: cautious_def)
next
  fix q assume "cv_contact E 0 = Inr q \<and> \<not> identified E exe q"
  then show "evs = [Contact 0]" "res = Inl UntrustedDaemon"
    using untrusted_answer_is_the_end[of E q exe req] run by simp_all
qed

definition sample_status :: status_reply where
  "sample_status = \<lparr>sr_pid = 7, sr_version = ''1'', sr_wire_protocol = WIRE_PROTOCOL_VERSION, sr_uptime_secs = 0,
     sr_sessions = [], sr_leases = []\<rparr>"

definition sample_daemon :: peer where
  "sample_daemon = \<lparr>pe_credentials = Inr (7, 501), pe_executable = (\<lambda>pid. Inr ''/opt/slooshd''), pe_sent = (\<lambda>r. True),
     pe_answers = (\<lambda>r. True), pe_reply = (\<lambda>r. if r = Status then Inr (Some (StatusR sample_status))
                     else if r = Hello WIRE_PROTOCOL_VERSION then Inr (Some (ProtocolReady WIRE_PROTOCOL_VERSION))
                     else Inr None)\<rparr>"

text \<open>Nobody listens at first; the daemon answers the third connection.\<close>

definition sample_client :: client_env where
  "sample_client = \<lparr>cv_euid = 501, cv_canonical = Inr,
     cv_contact = (\<lambda>n. if n < 3 then Inl NotFound else Inr sample_daemon), cv_spawned = True\<rparr>"

definition impostor :: peer where
  "impostor = sample_daemon\<lparr>pe_executable := (\<lambda>pid. Inr ''/tmp/other'')\<rparr>"

theorem strangers_hear_only_shutdown_witness:
  "client_request (sample_client\<lparr>cv_contact := (\<lambda>n. Inr impostor)\<rparr>) ''/opt/slooshd'' ForwardLs = ([Contact 0], Inl UntrustedDaemon)"
proof -
  let ?E = "sample_client\<lparr>cv_contact := (\<lambda>n. Inr impostor)\<rparr>"
  have "\<not> identified ?E ''/opt/slooshd'' impostor"
    by (simp add: identified_def sample_client_def impostor_def sample_daemon_def)
  moreover obtain evs res where "client_request ?E ''/opt/slooshd'' ForwardLs = (evs, res)" by force
  ultimately show ?thesis
    using strangers_hear_only_shutdown[of ?E "''/opt/slooshd''" ForwardLs evs res] by simp
qed

text \<open>
  C32: Starting is bounded and works. Connecting, spawning included, pauses for at most 8.55 seconds
  in all between its attempts, contacts the socket at most 13 times and spawns at most once. The only
  other thing that can hold it up is a verified server that was told one of the two opening messages
  and never answers it, for which the code sets no limit. And if the daemon could be spawned, and a
  verified daemon of this protocol that receives and answers these messages is there at one of the
  13 contacts, while those before it failed otherwise than by a refused permission, the connection
  is made, to that daemon.
\<close>

theorem starting_is_bounded_and_finds_the_daemon:
  "sum_list (sleeps (fst (connect_or_spawn E exe))) \<le> 8550 \<and>
   (\<exists>n \<le> 13. contacts (fst (connect_or_spawn E exe)) = [0..<n]) \<and>
   spawns (fst (connect_or_spawn E exe)) \<le> 1 \<and>
   (snd (connect_or_spawn E exe) = Inl StillWaiting \<longrightarrow> held_up E exe (connect_or_spawn E exe)) \<and>
   (cv_spawned E \<and> k \<le> 12 \<and> (\<forall>i < k. \<exists>f. cv_contact E i = Inl f \<and> f \<noteq> PermissionDenied) \<and>
    cv_contact E k = Inr p \<and> identified E exe p \<and> agreed p \<and> conversant p \<longrightarrow>
    snd (connect_or_spawn E exe) = Inr p)"
  using connect_or_spawn_bounds[of E exe] connect_held_up[of E exe] connect_or_spawn_finds[of E k p exe]
  by (auto simp: MAX_ATTEMPTS_def)

lemma sample_daemon_good:
  "identified sample_client ''/opt/slooshd'' sample_daemon" "agreed sample_daemon"
  by (simp_all add: identified_def agreed_def sample_client_def sample_daemon_def sample_status_def)

theorem starting_is_bounded_and_finds_the_daemon_witness:
  "snd (connect_or_spawn sample_client ''/opt/slooshd'') = Inr sample_daemon"
proof -
  have "cv_contact sample_client i = Inl NotFound" if "i < 3" for i
    using that by (simp add: sample_client_def)
  moreover have "cv_contact sample_client 3 = Inr sample_daemon" "cv_spawned sample_client" "conversant sample_daemon"
    by (simp_all add: sample_client_def sample_daemon_def conversant_def)
  ultimately show ?thesis
    using starting_is_bounded_and_finds_the_daemon[of sample_client "''/opt/slooshd''" 3 sample_daemon]
      sample_daemon_good by simp
qed

text \<open>
  Binding touches the socket's path only inside a directory that is not a link, is owned by
  the daemon's user and is private (repaired, or found with mode 0700 and no ACL); it removes a
  socket only when the address was in use and nobody answered on it; it reports a running daemon
  exactly when somebody did; and a socket it listens on was given mode 0600 last.
\<close>

theorem binding_is_careful:
  assumes "bind_socket euid managed A B = (evs, res)"
  shows "(evs \<noteq> [] \<or> (\<exists>out. res = Inr out) \<longrightarrow> private_directory euid managed A) \<and>
    (RemovedSocket \<in> set evs \<longrightarrow> ba_first B = AddrInUse \<and> \<not> ba_alive B) \<and>
    (res = Inr AlreadyRunning \<longleftrightarrow> dir_prepared euid managed A \<and> ba_first B = AddrInUse \<and> ba_alive B) \<and>
    (res = Inr Listening \<longrightarrow> evs \<noteq> [] \<and> last evs = SocketMode 0x180)"
  using bind_careful[OF assms] unfolding dir_prepared_def by blast

theorem binding_is_careful_witness:
  "fst (bind_socket 501 False
     \<lparr>da_created = False, da_lstat = Some (False, True), da_opened = Some (501, 0x41C0, Some False),
      da_acl_cleared = False, da_mode_set = False\<rparr>
     \<lparr>ba_first = AddrInUse, ba_alive = False, ba_removed = True, ba_second = Bound, ba_mode_set = True,
      ba_listener = True\<rparr>) = [RemovedSocket, SocketMode 0x180]"
  (is "fst (bind_socket 501 False ?A ?B) = _")
proof -
  have run: "bind_socket 501 False ?A ?B = ([RemovedSocket, SocketMode 0x180], Inr Listening)"
    by (simp add: bind_socket_def validate_private_dir_def check_lstat_def finish_bind_def)
  then show ?thesis using binding_is_careful[OF run] by simp
qed

text \<open>
  The daemon executable the client spawns and verifies against is either the sibling
  \<open>slooshd\<close> of the running program, an executable file, used only where no application helper
  exists; or the canonical path of \<open><app>/Contents/Helpers/slooshd\<close> inside the canonical bundle, where
  every component from the bundle down was no link, owned by root or the user, and writable by
  nobody else.
\<close>

theorem selected_executable_is_trusted:
  assumes "select_daemon_executable F current helper = Inr exe"
  shows "(\<exists>app canonical_app p. helper = Some p \<and> p = app @ [''Contents'', ''Helpers'', ''slooshd''] \<and>
      file_extension app = Some ''app'' \<and>
      (\<forall>c \<in> {app, app @ [''Contents''], app @ [''Contents'', ''Helpers''], p}. safe_component F c) \<and>
      (\<exists>m. fs_lstat F p = Inr m \<and> md_file m \<and> is_executable_mode (md_mode m)) \<and>
      fs_canonical F app = Inr canonical_app \<and> fs_canonical F p = Inr exe \<and> starts_with exe canonical_app) \<or>
    ((\<forall>p. helper = Some p \<longrightarrow> fs_lstat F p = Inl NotFound) \<and> exe = butlast current @ [''slooshd''] \<and>
     is_executable_file F exe)"
proof (cases "\<exists>p. helper = Some p \<and> validate_bundled_daemon_executable F p = Inr exe")
  case True
  then obtain p where p: "helper = Some p" "validate_bundled_daemon_executable F p = Inr exe" by blast
  then obtain app where app: "p = app @ [''Contents'', ''Helpers'', ''slooshd'']" "file_extension app = Some ''app''"
    and ok: "check_components F [app, app @ [''Contents''], app @ [''Contents'', ''Helpers''], p] = Inr ()"
    and exe: "resolve_bundled F app p = Inr exe"
    using bundled_shape by blast
  have "\<exists>canonical_app. fs_canonical F app = Inr canonical_app \<and> fs_canonical F p = Inr exe \<and> starts_with exe canonical_app"
    using exe by (auto simp: resolve_bundled_def split: sum.splits if_splits)
  moreover have "\<forall>c \<in> {app, app @ [''Contents''], app @ [''Contents'', ''Helpers''], p}. safe_component F c"
    using components_safe[OF ok] by simp
  moreover have "\<exists>m. fs_lstat F p = Inr m \<and> md_file m \<and> is_executable_mode (md_mode m)"
    using last_component_executable[OF ok] by simp
  ultimately show ?thesis using p(1) app by blast
next
  case False
  then show ?thesis using selected_executable[OF assms] by blast
qed

definition sample_bundle :: file_system where
  "sample_bundle = \<lparr>fs_euid = 501,
     fs_lstat = (\<lambda>p. Inr \<lparr>md_symlink = False, md_file = (last p = ''slooshd''), md_dir = (last p \<noteq> ''slooshd''),
                          md_mode = 0x1ED, md_uid = 0\<rparr>),
     fs_stat = (\<lambda>p. Inl NotFound), fs_canonical = Inr\<rparr>"

theorem selected_executable_is_trusted_witness:
  "safe_component sample_bundle [''Applications'', ''Sloosh.app'']"
proof -
  let ?p = "[''Applications'', ''Sloosh.app'', ''Contents'', ''Helpers'', ''slooshd'']"
  have run: "select_daemon_executable sample_bundle [''usr'', ''sloosh''] (Some ?p) = Inr ?p"
    by (simp add: select_daemon_executable_def sample_bundle_def validate_bundled_daemon_executable_def parent_path_def
        file_name_def file_extension_def check_component_def is_executable_mode_def is_writable_by_others_def
        resolve_bundled_def starts_with_def)
  have "fs_lstat sample_bundle ?p \<noteq> Inl NotFound" by (simp add: sample_bundle_def)
  then show ?thesis using selected_executable_is_trusted[OF run] by auto
qed

end
