(* ===== verification/Human_Trust.thy ===== *)
theory Human_Trust
  imports Known_Hosts Routes Local_Socket
begin

text \<open>
  A human's decision about a host key (\<open>src/src/human_host_key.rs\<close>, the commands
  \<open>host trust\<close> and \<open>approve\<close> of \<open>src/src/cli/host.rs\<close> and \<open>src/src/cli/approval.rs\<close>): the key shown,
  the key recorded, the hosts shown and the hosts approved. Probing a host is an answer of the
  network, and what the human types is a list of lines.
\<close>

subsection \<open>Probing\<close>

record 'k probe_result =
  pb_hostname :: string
  pb_port :: nat
  pb_key :: 'k
  pb_key_alias :: "string option"

text \<open>\<open>HostKeyProbeResult::known_host_endpoint\<close>\<close>

definition probe_endpoint :: "'k probe_result \<Rightarrow> string \<times> nat" where
  "probe_endpoint probe =
     (case pb_key_alias probe of None \<Rightarrow> (pb_hostname probe, pb_port probe) | Some name \<Rightarrow> (name, 22))"

text \<open>
  Route resolution, the key a host presents directly or behind its hops, the algorithm of a key,
  the OpenSSH store's keys and the Sloosh store as the \<open>n\<close>-th inspection of the operation finds
  them, the cache after the operation's lookups, and the preparations of a commit.
\<close>

record 'k trust_env =
  te_route :: route_env
  te_direct :: "string \<Rightarrow> nat \<Rightarrow> ssh_error + 'k"
  te_via_hops :: "resolved_host list \<Rightarrow> resolved_host \<Rightarrow> ssh_error + 'k"
  te_algorithm :: "'k \<Rightarrow> string"
  te_openssh :: "nat \<Rightarrow> string \<Rightarrow> nat \<Rightarrow> kh_error + (nat \<times> 'k) list"
  te_store :: "nat \<Rightarrow> kh_entry"
  te_after :: "vault_cache \<Rightarrow> vault_cache"
  te_prepared :: bool
  te_written :: bool

definition fetch_host_key_for_confirmation_target ::
  "'k trust_env \<Rightarrow> confirmation_target \<Rightarrow> ssh_error + 'k probe_result" where
  "fetch_host_key_for_confirmation_target E target =
     (let route = ct_route target; c = rh_config (pr_target route) in
      case (if pr_hops route = [] then te_direct E (hc_hostname c) (hc_port c)
            else te_via_hops E (pr_hops route) (pr_target route)) of
        Inl e \<Rightarrow> Inl e
      | Inr key \<Rightarrow> Inr \<lparr>pb_hostname = hc_hostname c, pb_port = hc_port c, pb_key = key,
                       pb_key_alias = hc_host_key_alias c\<rparr>)"

subsection \<open>Preview\<close>

datatype preview_state = StateNew | StateChanged | ExternalMismatch

datatype trust_action = TrustAdd | TrustReplace

datatype trust_error =
    VaultUnlockRequired | VaultCacheInUse | TrustVault vault_error | TrustSsh ssh_error | TrustStore kh_error
  | PreviewChanged | AlreadyTrusted | InvalidAction | NoPlannedRoute

record trust_preview =
  tp_requested_host :: string
  tp_host :: string
  tp_hostname :: string
  tp_host_key_alias :: "string option"
  tp_port :: nat
  tp_algorithm :: string
  tp_fingerprint :: string
  tp_state :: preview_state
  tp_source :: "known_host_source option"
  tp_stored :: "string option"
  tp_replaceable :: bool

text \<open>\<open>NoPlannedRoute\<close> is the panic of the confirmation order, which it never reaches.\<close>

fun first_actionable ::
  "'k kh_lib \<Rightarrow> 'k trust_env \<Rightarrow> nat \<Rightarrow> confirmation_target option list
     \<Rightarrow> trust_error + (confirmation_target \<times> 'k probe_result \<times> host_key_trust_state) option" where
  "first_actionable lib E n [] = Inr None"
| "first_actionable lib E n (None # targets) = Inl NoPlannedRoute"
| "first_actionable lib E n (Some target # targets) =
     (case fetch_host_key_for_confirmation_target E target of
        Inl e \<Rightarrow> Inl (TrustSsh e)
      | Inr probe \<Rightarrow>
          (case probe_endpoint probe of (key_host, key_port) \<Rightarrow>
             (case inspect_at_paths lib key_host key_port (pb_key probe) (te_openssh E n key_host key_port) (te_store E n) of
                Inl e \<Rightarrow> Inl (TrustStore e)
              | Inr Trusted \<Rightarrow> first_actionable lib E (Suc n) targets
              | Inr trust \<Rightarrow> Inr (Some (target, probe, trust)))))"

definition first_actionable_preview ::
  "'k kh_lib \<Rightarrow> 'k trust_env \<Rightarrow> vault_world \<Rightarrow> string
     \<Rightarrow> trust_error + (confirmation_target \<times> 'k probe_result \<times> host_key_trust_state) option" where
  "first_actionable_preview lib E w requested =
     (case host_key_confirmation_order (snapshot_resolver (te_route E) w) [requested] of
        Inl e \<Rightarrow> Inl (TrustSsh e) | Inr targets \<Rightarrow> first_actionable lib E 0 targets)"

text \<open>A trusted key has no preview: the code does not reach it.\<close>

definition preview_state_of ::
  "host_key_trust_state \<Rightarrow> (preview_state \<times> known_host_source option \<times> string option \<times> bool) option" where
  "preview_state_of trust = (case trust of
     Trusted \<Rightarrow> None
   | Unknown \<Rightarrow> Some (StateNew, None, None, True)
   | Changed Sloosh stored replaceable \<Rightarrow> Some (StateChanged, Some Sloosh, Some stored, replaceable)
   | Changed OpenSsh stored _ \<Rightarrow> Some (ExternalMismatch, Some OpenSsh, Some stored, False))"

definition preview_from_probe ::
  "'k kh_lib \<Rightarrow> 'k trust_env \<Rightarrow> string \<Rightarrow> confirmation_target \<Rightarrow> 'k probe_result \<Rightarrow> host_key_trust_state
     \<Rightarrow> trust_preview option" where
  "preview_from_probe lib E requested target probe trust =
     map_option (\<lambda>(state, source, stored, replaceable).
       \<lparr>tp_requested_host = requested, tp_host = ct_alias target, tp_hostname = pb_hostname probe,
        tp_host_key_alias = pb_key_alias probe, tp_port = pb_port probe,
        tp_algorithm = te_algorithm E (pb_key probe), tp_fingerprint = kl_fingerprint lib (pb_key probe),
        tp_state = state, tp_source = source, tp_stored = stored, tp_replaceable = replaceable\<rparr>)
     (preview_state_of trust)"

definition preview_unlocked ::
  "'k kh_lib \<Rightarrow> 'k trust_env \<Rightarrow> vault_world \<Rightarrow> string \<Rightarrow> trust_error + trust_preview option" where
  "preview_unlocked lib E w requested = (case first_actionable_preview lib E w requested of
     Inl e \<Rightarrow> Inl e
   | Inr None \<Rightarrow> Inr None
   | Inr (Some (target, probe, trust)) \<Rightarrow> Inr (preview_from_probe lib E requested target probe trust))"

definition temporary_error :: "'e temporary_cache_error \<Rightarrow> ('e \<Rightarrow> trust_error) \<Rightarrow> trust_error" where
  "temporary_error e inner = (case e of
     CacheInUse \<Rightarrow> VaultCacheInUse | TemporaryVault e \<Rightarrow> TrustVault e | Operation e \<Rightarrow> inner e)"

definition preview_host_key ::
  "'k kh_lib \<Rightarrow> 'k trust_env \<Rightarrow> string \<Rightarrow> bytes option \<Rightarrow> vault_world
     \<Rightarrow> (trust_error + trust_preview option) \<times> vault_world" where
  "preview_host_key lib E requested password w = (case password of
     None \<Rightarrow>
       if \<not> contains_alias (re_config (te_route E)) requested then (Inl VaultUnlockRequired, w)
       else (preview_unlocked lib E w requested, w)
   | Some pw \<Rightarrow>
       (case with_temporary_cache_at (re_vault_ext (te_route E)) (re_vault_io (te_route E)) pw
               (\<lambda>guard. (preview_unlocked lib E (w\<lparr>vw_cache := guard\<rparr>) requested, te_after E guard)) w of
          (Inl e, w) \<Rightarrow> (Inl (temporary_error e id), w)
        | (Inr p, w) \<Rightarrow> (Inr p, w)))"

subsection \<open>Acting on a preview\<close>

text \<open>The write of a confirmed action to Sloosh's store.\<close>

definition commit_action ::
  "'k kh_lib \<Rightarrow> 'k trust_env \<Rightarrow> trust_preview \<Rightarrow> trust_action \<Rightarrow> 'k probe_result \<Rightarrow> kh_entry
     \<Rightarrow> (trust_error + unit) \<times> kh_entry" where
  "commit_action lib E observed action probe e =
     (let (key_host, key_port) = probe_endpoint probe;
          commit = (\<lambda>mutation. case commit_at_path lib (te_prepared E) (te_written E) key_host key_port (pb_key probe) mutation e of
            (None, e') \<Rightarrow> (Inr (), e') | (Some err, e') \<Rightarrow> (Inl (TrustStore err), e')) in
      if action = TrustAdd \<and> tp_state observed = StateNew then commit Add
      else if action = TrustReplace \<and> tp_state observed = StateChanged \<and> tp_replaceable observed
      then (case tp_stored observed of None \<Rightarrow> (Inl InvalidAction, e) | Some stored \<Rightarrow> commit (Replace stored))
      else (Inl InvalidAction, e))"

definition apply_operation ::
  "'k kh_lib \<Rightarrow> 'k trust_env \<Rightarrow> trust_preview \<Rightarrow> trust_action \<Rightarrow> vault_world \<Rightarrow> kh_entry
     \<Rightarrow> (trust_error + unit) \<times> kh_entry" where
  "apply_operation lib E expected action w e =
     (case first_actionable_preview lib E w (tp_requested_host expected) of
        Inl err \<Rightarrow> (Inl err, e)
      | Inr None \<Rightarrow> (Inl AlreadyTrusted, e)
      | Inr (Some (target, probe, trust)) \<Rightarrow>
          if preview_from_probe lib E (tp_requested_host expected) target probe trust \<noteq> Some expected
          then (Inl PreviewChanged, e)
          else commit_action lib E expected action probe e)"

definition apply_host_key_action ::
  "'k kh_lib \<Rightarrow> 'k trust_env \<Rightarrow> trust_preview \<Rightarrow> trust_action \<Rightarrow> bytes option \<Rightarrow> kh_entry \<Rightarrow> vault_world
     \<Rightarrow> (trust_error + unit) \<times> kh_entry \<times> vault_world" where
  "apply_host_key_action lib E expected action password e w = (case password of
     None \<Rightarrow>
       if \<not> contains_alias (re_config (te_route E)) (tp_requested_host expected) then (Inl VaultUnlockRequired, e, w)
       else (case apply_operation lib E expected action w e of (res, e') \<Rightarrow> (res, e', w))
   | Some pw \<Rightarrow>
       (case with_temporary_cache_at (re_vault_ext (te_route E)) (re_vault_io (te_route E)) pw
               (\<lambda>guard. case apply_operation lib E expected action (w\<lparr>vw_cache := guard\<rparr>) e of
                  (Inl err, e') \<Rightarrow> (Inl (err, e'), te_after E guard)
                | (Inr _, e') \<Rightarrow> (Inr e', te_after E guard)) w of
          (Inl (Operation (err, e')), w') \<Rightarrow> (Inl err, e', w')
        | (Inl CacheInUse, w') \<Rightarrow> (Inl VaultCacheInUse, e, w')
        | (Inl (TemporaryVault err), w') \<Rightarrow> (Inl (TrustVault err), e, w')
        | (Inr e', w') \<Rightarrow> (Inr (), e', w')))"

subsection \<open>The command \<open>host trust\<close>\<close>

text \<open>
  The first line typed that is one of the choices offered: \<open>None\<close> cancels, \<open>Some None\<close> checks again.
  The end of the input reads as an empty line.
\<close>

fun prompt_host_key_action :: "trust_preview \<Rightarrow> string list \<Rightarrow> trust_action option option \<times> string list" where
  "prompt_host_key_action p [] = (None, [])"
| "prompt_host_key_action p (line # lines) =
     (let answer = to_ascii_lowercase (trim line) in
      if answer \<in> {''a'', ''add''} \<and> tp_state p = StateNew then (Some (Some TrustAdd), lines)
      else if answer \<in> {''p'', ''replace''} \<and> tp_state p = StateChanged \<and> tp_replaceable p
      then (Some (Some TrustReplace), lines)
      else if answer \<in> {''r'', ''recheck''} then (Some None, lines)
      else if answer \<in> {''c'', ''cancel'', []} then (None, lines)
      else prompt_host_key_action p lines)"

datatype trust_event = Shown trust_preview | Acted trust_preview trust_action kh_entry kh_entry

datatype trust_end = AllTrusted | TrustCancelled | TrustFailed trust_error | StillAsking | NotATerminal

text \<open>Each turn previews and acts in the environment and on the store it finds then.\<close>

fun host_trust_loop ::
  "'k kh_lib \<Rightarrow> bytes \<Rightarrow> string \<Rightarrow> ('k trust_env \<times> 'k trust_env \<times> kh_entry) list \<Rightarrow> string list \<Rightarrow> vault_world
     \<Rightarrow> trust_event list \<times> trust_end" where
  "host_trust_loop lib pw host [] lines w = ([], StillAsking)"
| "host_trust_loop lib pw host ((Ep, Ea, e) # rounds) lines w =
     (case preview_host_key lib Ep host (Some pw) w of
        (Inl err, w) \<Rightarrow> ([], TrustFailed err)
      | (Inr None, w) \<Rightarrow> ([], AllTrusted)
      | (Inr (Some p), w) \<Rightarrow>
          (case prompt_host_key_action p lines of
             (None, lines) \<Rightarrow> ([Shown p], TrustCancelled)
           | (Some None, lines) \<Rightarrow>
               (case host_trust_loop lib pw host rounds lines w of (evs, res) \<Rightarrow> (Shown p # evs, res))
           | (Some (Some action), lines) \<Rightarrow>
               (case apply_host_key_action lib Ea p action (Some pw) e w of
                  (Inl err, e', w) \<Rightarrow>
                    if err = PreviewChanged \<or> err = AlreadyTrusted
                    then (case host_trust_loop lib pw host rounds lines w of
                            (evs, res) \<Rightarrow> (Shown p # Acted p action e e' # evs, res))
                    else ([Shown p, Acted p action e e'], TrustFailed err)
                | (Inr _, e', w) \<Rightarrow>
                    (case host_trust_loop lib pw host rounds lines w of
                       (evs, res) \<Rightarrow> (Shown p # Acted p action e e' # evs, res)))))"

definition cmd_host_trust ::
  "'k kh_lib \<Rightarrow> bool \<Rightarrow> bytes \<Rightarrow> string \<Rightarrow> ('k trust_env \<times> 'k trust_env \<times> kh_entry) list \<Rightarrow> string list \<Rightarrow> vault_world
     \<Rightarrow> trust_event list \<times> trust_end" where
  "cmd_host_trust lib tty pw host rounds lines w =
     (if \<not> tty then ([], NotATerminal) else host_trust_loop lib pw host rounds lines w)"

subsection \<open>The command \<open>approve\<close>\<close>

text \<open>\<open>send_request\<close> and \<open>bail_on_error_or_unexpected\<close>, over a connection of the command.\<close>

datatype approve_error =
    NoTerminal | RequestFailed connect_error | DaemonSaid daemon_message | UnexpectedAnswer | NoVaultYet | NoPassword
  | CannotUnlockVault vault_error | CannotPlanScope ssh_error | ApprovalCancelled | AnswerUnreadable
  | RecordFailed kh_error | MissingRoute

definition send_request :: "client_env \<Rightarrow> string \<Rightarrow> request \<Rightarrow> approve_error + response" where
  "send_request C exe r = (case snd (client_request C exe r) of
     Inl e \<Rightarrow> Inl (RequestFailed e)
   | Inr (ErrorR message) \<Rightarrow> Inl (DaemonSaid message)
   | Inr response \<Rightarrow> Inr response)"

text \<open>
  What the human is shown and does, in order: requests sent, the host list with the line typed in
  answer, and a host's key with the answer and the store before and after.
\<close>

datatype approve_event =
    Sent request
  | AskedHosts "string list" "string option"
  | AskedKey string string nat string "string option" kh_entry kh_entry

definition is_yes :: "string \<Rightarrow> bool" where
  "is_yes line \<longleftrightarrow> to_ascii_lowercase (trim line) \<in> {''y'', ''yes''}"

definition confirm_approved_hosts :: "string list \<Rightarrow> string option \<Rightarrow> approve_event list \<times> (approve_error + unit)" where
  "confirm_approved_hosts hosts line = ([AskedHosts hosts line], case line of
     None \<Rightarrow> Inl AnswerUnreadable
   | Some l \<Rightarrow> if is_yes l then Inr () else Inl ApprovalCancelled)"

text \<open>
  \<open>n\<close> counts the targets; the line typed and the store for each are functions of it. A probe that
  fails is skipped with a warning.
\<close>

definition confirm_and_record_host_key ::
  "'k kh_lib \<Rightarrow> 'k trust_env \<Rightarrow> nat \<Rightarrow> string option \<Rightarrow> confirmation_target \<Rightarrow> approve_event list \<times> (approve_error + unit)" where
  "confirm_and_record_host_key lib E n line target =
     (case fetch_host_key_for_confirmation_target E target of
        Inl _ \<Rightarrow> ([], Inr ())
      | Inr probe \<Rightarrow>
          (let e = te_store E n; (key_host, key_port) = probe_endpoint probe;
               asked = AskedKey (ct_alias target) key_host key_port (kl_fingerprint lib (pb_key probe)) line e in
           case line of
             None \<Rightarrow> ([asked e], Inl AnswerUnreadable)
           | Some l \<Rightarrow>
               if eq_ignore_ascii_case (trim l) ''y''
               then (case commit_at_path lib (te_prepared E) (te_written E) key_host key_port (pb_key probe) Add e of
                       (None, e') \<Rightarrow> ([asked e'], Inr ()) | (Some err, e') \<Rightarrow> ([asked e'], Inl (RecordFailed err)))
               else ([asked e], Inr ())))"

fun confirm_keys ::
  "'k kh_lib \<Rightarrow> 'k trust_env \<Rightarrow> (nat \<Rightarrow> string \<Rightarrow> nat \<Rightarrow> bool) \<Rightarrow> nat \<Rightarrow> (nat \<Rightarrow> string option) \<Rightarrow> confirmation_target option list
     \<Rightarrow> approve_event list \<times> (approve_error + unit)" where
  "confirm_keys lib E known n answers [] = ([], Inr ())"
| "confirm_keys lib E known n answers (None # targets) = ([], Inl MissingRoute)"
| "confirm_keys lib E known n answers (Some target # targets) =
     (case known_host_endpoint (rh_config (pr_target (ct_route target))) of (key_host, key_port) \<Rightarrow>
        if known n key_host key_port then confirm_keys lib E known (Suc n) answers targets
        else (case confirm_and_record_host_key lib E n (answers n) target of
                (evs, Inl err) \<Rightarrow> (evs, Inl err)
              | (evs, Inr _) \<Rightarrow> (case confirm_keys lib E known (Suc n) answers targets of
                                 (evs', res) \<Rightarrow> (evs @ evs', res))))"

record approve_env =
  ap_tty :: bool
  ap_exe :: string
  ap_describing :: client_env
  ap_approving :: client_env
  ap_password :: "bytes option"
  ap_confirmation :: "string option"
  ap_known :: "nat \<Rightarrow> string \<Rightarrow> nat \<Rightarrow> bool"
  ap_answers :: "nat \<Rightarrow> string option"

definition resolve_scope ::
  "resolver \<Rightarrow> string list \<Rightarrow> ssh_error + string list \<times> confirmation_target option list" where
  "resolve_scope res hosts = (case expand_lease_hosts res hosts of
     Inl e \<Rightarrow> Inl e
   | Inr approved \<Rightarrow> (case host_key_confirmation_order res approved of
        Inl e \<Rightarrow> Inl e | Inr targets \<Rightarrow> Inr (approved, targets)))"

definition resolve_confirm_and_submit_approval ::
  "approve_env \<Rightarrow> resolver \<Rightarrow> string \<Rightarrow> bytes \<Rightarrow> string list
     \<Rightarrow> approve_event list \<times> (approve_error + activated_info \<times> confirmation_target option list)" where
  "resolve_confirm_and_submit_approval A res rid pw requested = (case resolve_scope res requested of
     Inl e \<Rightarrow> ([], Inl (CannotPlanScope e))
   | Inr (approved, targets) \<Rightarrow>
       (case confirm_approved_hosts approved (ap_confirmation A) of
          (evs, Inl e) \<Rightarrow> (evs, Inl e)
        | (evs, Inr _) \<Rightarrow>
            (evs @ [Sent (ApproveLease rid pw approved)],
             case send_request (ap_approving A) (ap_exe A) (ApproveLease rid pw approved) of
               Inl e \<Rightarrow> Inl e
             | Inr (LeaseActivated info unverified) \<Rightarrow> Inr (info, targets)
             | Inr _ \<Rightarrow> Inl UnexpectedAnswer)))"

text \<open>\<open>w\<close> is this process's own view of the vault, unlocked only here and cleared at the end.\<close>

definition approve_unlocked ::
  "'k kh_lib \<Rightarrow> approve_env \<Rightarrow> 'k trust_env \<Rightarrow> string \<Rightarrow> bytes \<Rightarrow> string list \<Rightarrow> vault_world
     \<Rightarrow> approve_event list \<times> (approve_error + activated_info)" where
  "approve_unlocked lib A E rid pw hosts w =
     (case resolve_confirm_and_submit_approval A (snapshot_resolver (te_route E) w) rid pw hosts of
        (evs, Inl e) \<Rightarrow> (evs, Inl e)
      | (evs, Inr (info, targets)) \<Rightarrow>
          (case confirm_keys lib E (ap_known A) 0 (ap_answers A) targets of
             (evs', Inl e) \<Rightarrow> (evs @ evs', Inl e) | (evs', Inr _) \<Rightarrow> (evs @ evs', Inr info)))"

definition cmd_approve ::
  "'k kh_lib \<Rightarrow> approve_env \<Rightarrow> 'k trust_env \<Rightarrow> string \<Rightarrow> vault_world
     \<Rightarrow> (approve_event list \<times> (approve_error + activated_info)) \<times> vault_world" where
  "cmd_approve lib A E rid w =
     (if \<not> ap_tty A then (([], Inl NoTerminal), w)
      else let sent = Sent (DescribeLeaseRequest rid) in
       case send_request (ap_describing A) (ap_exe A) (DescribeLeaseRequest rid) of
         Inl e \<Rightarrow> (([sent], Inl e), w)
       | Inr (LeaseRequestPending info) \<Rightarrow>
           if \<not> rs_vault_exists info then (([sent], Inl NoVaultYet), w)
           else (case ap_password A of
             None \<Rightarrow> (([sent], Inl NoPassword), w)
           | Some pw \<Rightarrow>
               (case unlock_for_lease_at (re_vault_ext (te_route E)) (re_vault_io (te_route E)) pw w of
                  (Inl e, w) \<Rightarrow> (([sent], Inl (CannotUnlockVault e)), w)
                | (Inr _, w) \<Rightarrow>
                    (case approve_unlocked lib A E rid pw (rs_hosts info) w of
                       (evs, res) \<Rightarrow> ((sent # evs, res), w\<lparr>vw_cache := None\<rparr>))))
       | Inr _ \<Rightarrow> (([sent], Inl UnexpectedAnswer), w))"

section \<open>What the human saw is what happens\<close>

text \<open>
  A store written as shown: the key with the shown fingerprint was committed under the shown
  endpoint, as a first key of that endpoint or in the place of the one managed line whose
  fingerprint was shown.
\<close>

definition preview_endpoint :: "trust_preview \<Rightarrow> string \<times> nat" where
  "preview_endpoint p = (case tp_host_key_alias p of None \<Rightarrow> (tp_hostname p, tp_port p) | Some name \<Rightarrow> (name, 22))"

definition committed :: "'k kh_lib \<Rightarrow> string \<times> nat \<Rightarrow> string \<Rightarrow> known_host_mutation \<Rightarrow> kh_entry \<Rightarrow> kh_entry \<Rightarrow> bool" where
  "committed lib place fingerprint mutation e e' \<longleftrightarrow>
     (\<exists>key contents. kl_fingerprint lib key = fingerprint \<and> read_bounded e = Inr contents \<and>
        commit_at_path lib True True (fst place) (snd place) key mutation e = (None, e') \<and>
        (case mutation of
           Add \<Rightarrow> known_host_keys lib (fst place) (snd place) contents = Inr []
         | Replace stored \<Rightarrow> (\<exists>line old. known_host_keys lib (fst place) (snd place) contents = Inr [(line, old)] \<and>
             kl_fingerprint lib old = stored \<and> plain_target_line contents (fst place) (snd place) line)))"

definition written_as_shown :: "'k kh_lib \<Rightarrow> trust_preview \<Rightarrow> trust_action \<Rightarrow> kh_entry \<Rightarrow> kh_entry \<Rightarrow> bool" where
  "written_as_shown lib p action e e' \<longleftrightarrow>
     action = TrustAdd \<and> tp_state p = StateNew \<and> committed lib (preview_endpoint p) (tp_fingerprint p) Add e e' \<or>
     action = TrustReplace \<and> tp_state p = StateChanged \<and> tp_replaceable p \<and>
       (\<exists>stored. tp_stored p = Some stored \<and>
          committed lib (preview_endpoint p) (tp_fingerprint p) (Replace stored) e e')"

lemma commit_committed:
  assumes "commit_at_path lib prepared written host port key mutation e = (None, e')"
  shows "committed lib (host, port) (kl_fingerprint lib key) mutation e e'"
proof -
  from assms have flags: "prepared" "written"
    by (auto simp: commit_at_path_def split: if_splits sum.splits)
  with assms obtain contents updated where rd: "read_bounded e = Inr contents"
    and up: "updated_contents lib host port key mutation contents = Inr updated"
    by (auto simp: commit_at_path_def split: sum.splits if_splits)
  obtain existing ls where ex: "known_host_keys lib host port contents = Inr existing"
    and ls: "mutated_lines lib host port contents existing mutation (split_inclusive [] contents) = Inr ls"
    using up by (auto simp: updated_contents_def split: option.splits sum.splits)
  have "case mutation of
           Add \<Rightarrow> known_host_keys lib host port contents = Inr []
         | Replace stored \<Rightarrow> (\<exists>line old. known_host_keys lib host port contents = Inr [(line, old)] \<and>
             kl_fingerprint lib old = stored \<and> plain_target_line contents host port line)"
    using ls ex by (cases mutation) (auto simp: mutated_lines_def split: if_splits list.splits prod.splits)
  then show ?thesis using assms flags rd
    by (intro committed_def[THEN iffD2] exI[of _ key] exI[of _ contents]) (simp cong: known_host_mutation.case_cong)
qed

lemma commit_failed_keeps:
  "commit_at_path lib prepared written host port key mutation e = (Some err, e') \<Longrightarrow> e' = e"
  by (auto simp: commit_at_path_def split: if_splits sum.splits)

lemma preview_endpoint_of:
  "preview_from_probe lib E requested target probe trust = Some p \<Longrightarrow>
     preview_endpoint p = probe_endpoint probe \<and> tp_fingerprint p = kl_fingerprint lib (pb_key probe)"
  by (auto simp: preview_from_probe_def preview_endpoint_def probe_endpoint_def split: option.splits)

lemma commit_action_outcome:
  assumes "preview_from_probe lib E requested target probe trust = Some p"
    and "commit_action lib E p action probe e = (res, e')"
  shows "(res = Inr () \<and> written_as_shown lib p action e e') \<or> ((\<exists>err. res = Inl err) \<and> e' = e)"
proof -
  obtain host port where ep: "probe_endpoint probe = (host, port)" by force
  have shown: "preview_endpoint p = (host, port)" "tp_fingerprint p = kl_fingerprint lib (pb_key probe)"
    using preview_endpoint_of[OF assms(1)] ep by simp_all
  have commits: "(r = Inr () \<and> committed lib (host, port) (tp_fingerprint p) mutation e e'') \<or> ((\<exists>err. r = Inl err) \<and> e'' = e)"
    if "(case commit_at_path lib (te_prepared E) (te_written E) host port (pb_key probe) mutation e of
            (None, e') \<Rightarrow> (Inr (), e') | (Some err, e') \<Rightarrow> (Inl (TrustStore err), e')) = (r, e'')" for mutation r e''
    using that commit_committed[of lib "te_prepared E" "te_written E" host port "pb_key probe" mutation e]
      commit_failed_keeps[of lib "te_prepared E" "te_written E" host port "pb_key probe" mutation e] shown(2)
    by (auto split: prod.splits option.splits)
  show ?thesis
  proof (cases "action = TrustAdd \<and> tp_state p = StateNew")
    case True
    then show ?thesis using commits[of Add res e'] assms(2) ep shown
      by (auto simp: commit_action_def written_as_shown_def)
  next
    case False
    note new = False
    show ?thesis
    proof (cases "action = TrustReplace \<and> tp_state p = StateChanged \<and> tp_replaceable p \<and> tp_stored p \<noteq> None")
      case True
      then obtain stored where "tp_stored p = Some stored" by blast
      then show ?thesis using commits[of "Replace stored" res e'] assms(2) ep shown True
        by (auto simp: commit_action_def written_as_shown_def)
    next
      case False
      then show ?thesis using new assms(2) ep
        by (auto simp: commit_action_def split: if_splits option.splits)
    qed
  qed
qed

lemma apply_operation_outcome:
  assumes "apply_operation lib E p action w e = (res, e')"
  shows "(res = Inr () \<and> written_as_shown lib p action e e') \<or> ((\<exists>err. res = Inl err) \<and> e' = e)"
  using assms commit_action_outcome[of lib E _ _ _ _ p action e res e']
  by (auto simp: apply_operation_def split: sum.splits option.splits if_splits)

lemma apply_outcome:
  assumes "apply_host_key_action lib E p action password e w = (res, e', w')"
  shows "(res = Inr () \<and> written_as_shown lib p action e e') \<or> ((\<exists>err. res = Inl err) \<and> e' = e)"
proof (cases password)
  case None
  then show ?thesis using assms apply_operation_outcome[of lib E p action w e]
    by (auto simp: apply_host_key_action_def split: if_splits prod.splits)
next
  case (Some pw)
  let ?op = "\<lambda>guard. case apply_operation lib E p action (w\<lparr>vw_cache := guard\<rparr>) e of
       (Inl err, e') \<Rightarrow> (Inl (err, e'), te_after E guard) | (Inr _, e') \<Rightarrow> (Inr e', te_after E guard)"
  obtain r v where run: "with_temporary_cache_at (re_vault_ext (te_route E)) (re_vault_io (te_route E)) pw ?op w = (r, v)"
    by force
  have op: "(\<exists>e2. fst (?op guard) = Inr e2 \<and> written_as_shown lib p action e e2) \<or>
      (\<exists>err. fst (?op guard) = Inl (err, e))" for guard
    using apply_operation_outcome[of lib E p action "w\<lparr>vw_cache := guard\<rparr>" e] by (auto split: prod.splits sum.splits)
  have "(\<exists>e2. r = Inr e2 \<and> written_as_shown lib p action e e2) \<or> (\<exists>err. r = Inl (Operation (err, e))) \<or>
      r = Inl CacheInUse \<or> (\<exists>err. r = Inl (TemporaryVault err))"
  proof (cases "vw_cache w = None")
    case False
    then show ?thesis using run by (simp add: with_temporary_cache_at_def)
  next
    case True
    let ?ow = "Temporary (vw_temporary_sequence w)"
    let ?w = "w\<lparr>vw_temporary_sequence := (vw_temporary_sequence w + 1) mod 2 ^ 64\<rparr>"
    obtain q v1 where p: "populate_cache_at (re_vault_ext (te_route E)) (re_vault_io (te_route E)) pw ?ow ?w = (q, v1)"
      by force
    show ?thesis
    proof (cases q)
      case (Inl err)
      then show ?thesis using run True p by (auto simp: with_temporary_cache_at_def Let_def)
    next
      case (Inr u)
      obtain x g where x: "?op (vw_cache v1) = (x, g)" by force
      have "r = (case x of Inl e \<Rightarrow> Inl (Operation e) | Inr t \<Rightarrow> Inr t)"
        using run True p Inr x by (simp add: with_temporary_cache_at_def Let_def)
      then show ?thesis using op[of "vw_cache v1"] x by auto
    qed
  qed
  then show ?thesis using assms run Some
    by (auto simp: apply_host_key_action_def)
qed

lemma prompt_offers:
  "prompt_host_key_action p lines = (Some (Some action), rest) \<Longrightarrow>
     action = TrustAdd \<and> tp_state p = StateNew \<and>
       (\<exists>line \<in> set lines. to_ascii_lowercase (trim line) \<in> {''a'', ''add''}) \<or>
     action = TrustReplace \<and> tp_state p = StateChanged \<and> tp_replaceable p \<and>
       (\<exists>line \<in> set lines. to_ascii_lowercase (trim line) \<in> {''p'', ''replace''})"
  by (induction p lines rule: prompt_host_key_action.induct) (auto simp: Let_def split: if_splits)

text \<open>Every write follows the preview it acts on, and the choice of a line among those typed.\<close>

fun well_shown :: "'k kh_lib \<Rightarrow> string set \<Rightarrow> trust_preview option \<Rightarrow> trust_event list \<Rightarrow> bool" where
  "well_shown lib typed shown [] \<longleftrightarrow> True"
| "well_shown lib typed shown (Shown p # evs) \<longleftrightarrow> well_shown lib typed (Some p) evs"
| "well_shown lib typed shown (Acted p action e e' # evs) \<longleftrightarrow>
     shown = Some p \<and> (e' = e \<or> written_as_shown lib p action e e') \<and>
     (\<exists>line \<in> typed. to_ascii_lowercase (trim line) \<in>
        (case action of TrustAdd \<Rightarrow> {''a'', ''add''} | TrustReplace \<Rightarrow> {''p'', ''replace''})) \<and>
     well_shown lib typed None evs"

lemma well_shown_mono:
  "well_shown lib typed shown evs \<Longrightarrow> typed \<subseteq> typed' \<Longrightarrow> well_shown lib typed' shown evs"
proof (induction evs arbitrary: shown)
  case (Cons ev evs)
  then show ?case by (cases ev) auto
qed simp

lemma prompt_rest: "prompt_host_key_action p lines = (r, rest) \<Longrightarrow> set rest \<subseteq> set lines"
  by (induction p lines rule: prompt_host_key_action.induct) (auto simp: Let_def split: if_splits)

lemma well_shown_none: "well_shown lib typed None evs \<Longrightarrow> well_shown lib typed shown evs"
  by (cases "(lib, typed, shown, evs)" rule: well_shown.cases) auto

lemma loop_well_shown:
  "well_shown lib (set lines) None (fst (host_trust_loop lib pw host rounds lines w))"
proof (induction rounds arbitrary: lines w)
  case Nil
  show ?case by simp
next
  case (Cons round rounds)
  obtain Ep Ea e where round: "round = (Ep, Ea, e)" by (cases round)
  obtain r w1 where pre: "preview_host_key lib Ep host (Some pw) w = (r, w1)" by force
  show ?case
  proof (cases "\<exists>p. r = Inr (Some p)")
    case False
    then show ?thesis using pre round by (auto split: sum.splits option.splits)
  next
    case True
    then obtain p where p: "r = Inr (Some p)" by blast
    obtain choice rest where ch: "prompt_host_key_action p lines = (choice, rest)" by force
    have IH: "well_shown lib (set lines) None (fst (host_trust_loop lib pw host rounds rest w2))" for w2
      using Cons.IH[of rest w2] prompt_rest[OF ch] well_shown_mono by blast
    consider "choice = None" | "choice = Some None" | action where "choice = Some (Some action)"
      by (cases choice; cases "the choice") auto
    then show ?thesis
    proof cases
      case 1
      then show ?thesis using pre round p ch by simp
    next
      case 2
      then show ?thesis using pre round p ch IH by (simp add: case_prod_beta well_shown_none)
    next
      case 3
      obtain res e' w2 where act: "apply_host_key_action lib Ea p action (Some pw) e w1 = (res, e', w2)" by (metis prod_cases3)
      have good: "e' = e \<or> written_as_shown lib p action e e'" using apply_outcome[OF act] by blast
      have line: "\<exists>line \<in> set lines. to_ascii_lowercase (trim line) \<in>
          (case action of TrustAdd \<Rightarrow> {''a'', ''add''} | TrustReplace \<Rightarrow> {''p'', ''replace''})"
        using prompt_offers[of p lines action rest] ch 3 by auto
      show ?thesis using pre round p ch 3 act good line IH
        by (cases res) (simp_all add: case_prod_beta)
    qed
  qed
qed

subsection \<open>Approving\<close>

definition key_recorded_on_yes :: "'k kh_lib \<Rightarrow> (nat \<Rightarrow> string \<Rightarrow> nat \<Rightarrow> bool) \<Rightarrow> approve_event \<Rightarrow> bool" where
  "key_recorded_on_yes lib known ev \<longleftrightarrow>
     (\<exists>name host port fingerprint line e e' n. ev = AskedKey name host port fingerprint line e e' \<and> \<not> known n host port \<and>
        (e' = e \<or> (\<exists>l. line = Some l \<and> eq_ignore_ascii_case (trim l) ''y'' \<and>
                       committed lib (host, port) fingerprint Add e e')))"

lemma probed_endpoint:
  "fetch_host_key_for_confirmation_target E target = Inr probe \<Longrightarrow>
     probe_endpoint probe = known_host_endpoint (rh_config (pr_target (ct_route target)))"
  by (auto simp: fetch_host_key_for_confirmation_target_def probe_endpoint_def known_host_endpoint_def Let_def
      split: sum.splits option.splits)

lemma confirmed_key:
  assumes "known_host_endpoint (rh_config (pr_target (ct_route target))) = (host, port)" "\<not> known n host port"
    and "ev \<in> set (fst (confirm_and_record_host_key lib E n line target))"
  shows "key_recorded_on_yes lib known ev"
proof -
  obtain probe where probe: "fetch_host_key_for_confirmation_target E target = Inr probe"
    using assms(3) by (auto simp: confirm_and_record_host_key_def split: sum.splits)
  have at: "probe_endpoint probe = (host, port)" using probed_endpoint[OF probe] assms(1) by simp
  let ?fp = "kl_fingerprint lib (pb_key probe)"
  obtain err e' where commit: "commit_at_path lib (te_prepared E) (te_written E) host port (pb_key probe) Add (te_store E n) = (err, e')"
    by force
  have stored: "e' = te_store E n \<or> committed lib (host, port) ?fp Add (te_store E n) e'"
    using commit_committed[of lib "te_prepared E" "te_written E" host port "pb_key probe" Add "te_store E n" e']
      commit_failed_keeps[of lib "te_prepared E" "te_written E" host port "pb_key probe" Add "te_store E n" _ e'] commit
    by (cases err) auto
  have "\<exists>e2. ev = AskedKey (ct_alias target) host port ?fp line (te_store E n) e2 \<and>
      (e2 = te_store E n \<or> (\<exists>l. line = Some l \<and> eq_ignore_ascii_case (trim l) ''y'' \<and>
         committed lib (host, port) ?fp Add (te_store E n) e2))"
  proof (cases "\<exists>l. line = Some l \<and> eq_ignore_ascii_case (trim l) ''y''")
    case True
    then show ?thesis using assms(3) probe at commit stored
      by (cases err) (auto simp: confirm_and_record_host_key_def Let_def)
  next
    case False
    then show ?thesis using assms(3) probe at
      by (cases line) (auto simp: confirm_and_record_host_key_def Let_def)
  qed
  then show ?thesis using assms(2) unfolding key_recorded_on_yes_def by blast
qed

lemma confirm_keys_recorded:
  "ev \<in> set (fst (confirm_keys lib E known n answers targets)) \<Longrightarrow> key_recorded_on_yes lib known ev"
proof (induction targets arbitrary: n)
  case Nil
  then show ?case by simp
next
  case (Cons t targets)
  show ?case
  proof (cases t)
    case None
    then show ?thesis using Cons.prems by simp
  next
    case (Some target)
    obtain host port where at: "known_host_endpoint (rh_config (pr_target (ct_route target))) = (host, port)" by force
    obtain evs r where one: "confirm_and_record_host_key lib E n (answers n) target = (evs, r)" by force
    show ?thesis
    proof (cases "known n host port")
      case True
      then show ?thesis using Cons Some at by simp
    next
      case False
      then have "ev \<in> set evs \<or> ev \<in> set (fst (confirm_keys lib E known (Suc n) answers targets))"
        using Cons.prems Some at one by (auto simp: case_prod_beta split: sum.splits)
      then show ?thesis using confirmed_key[where known = known and n = n and lib = lib and E = E and line = "answers n", OF at False] one Cons.IH by auto
    qed
  qed
qed

lemma submitted:
  assumes "resolve_confirm_and_submit_approval A res rid pw requested = (evs, out)"
  shows "(evs = [] \<and> (\<exists>e. out = Inl e)) \<or>
     (\<exists>hosts line. evs = [AskedHosts hosts line] \<and> (\<exists>e. out = Inl e)) \<or>
     (\<exists>hosts line. expand_lease_hosts res requested = Inr hosts \<and> is_yes line \<and>
        evs = [AskedHosts hosts (Some line), Sent (ApproveLease rid pw hosts)] \<and>
        (\<forall>info targets. out = Inr (info, targets) \<longrightarrow>
           (\<exists>unverified. send_request (ap_approving A) (ap_exe A) (ApproveLease rid pw hosts) = Inr (LeaseActivated info unverified))))"
proof (cases "resolve_scope res requested")
  case (Inl e)
  then show ?thesis using assms by (auto simp: resolve_confirm_and_submit_approval_def)
next
  case (Inr plan)
  then obtain hosts targets where plan: "resolve_scope res requested = Inr (hosts, targets)" by (cases plan) auto
  have expanded: "expand_lease_hosts res requested = Inr hosts"
    using plan by (auto simp: resolve_scope_def split: sum.splits)
  show ?thesis
  proof (cases "\<exists>line. ap_confirmation A = Some line \<and> is_yes line")
    case False
    then show ?thesis using assms plan
      by (auto simp: resolve_confirm_and_submit_approval_def confirm_approved_hosts_def split: option.splits)
  next
    case True
    then obtain line where line: "ap_confirmation A = Some line" "is_yes line" by blast
    let ?r = "send_request (ap_approving A) (ap_exe A) (ApproveLease rid pw hosts)"
    have evs: "evs = [AskedHosts hosts (Some line), Sent (ApproveLease rid pw hosts)]"
      and out: "out = (case ?r of Inl e \<Rightarrow> Inl e | Inr (LeaseActivated info unverified) \<Rightarrow> Inr (info, targets)
                       | Inr _ \<Rightarrow> Inl UnexpectedAnswer)"
      using assms plan line by (simp_all add: resolve_confirm_and_submit_approval_def confirm_approved_hosts_def)
    have "\<exists>unverified. ?r = Inr (LeaseActivated info unverified)" if "out = Inr (info, ts)" for info ts
    proof (cases ?r)
      case (Inl e)
      then show ?thesis using that out by simp
    next
      case (Inr response)
      then show ?thesis using that out by (cases response) simp_all
    qed
    then show ?thesis using evs line(2) expanded by blast
  qed
qed

section \<open>Properties\<close>

text \<open>
  C23: A confirmed host-key action writes Sloosh's store only as shown: the key written has the
  fingerprint of the preview and goes under its endpoint, as the first key of that endpoint or in
  the place of the one managed line whose fingerprint was shown; a key OpenSSH's own store
  contradicts is never written; and when the action reports an error the store is as before. In
  the command, every action follows the preview it acts on and a line the human typed for it.
\<close>

theorem host_key_written_as_shown:
  assumes "apply_host_key_action lib E p action password e w = (res, e', w')"
  shows "((res = Inr () \<and> written_as_shown lib p action e e' \<and> tp_state p \<noteq> ExternalMismatch) \<or>
     ((\<exists>err. res = Inl err) \<and> e' = e)) \<and>
    well_shown lib (set lines) None (fst (cmd_host_trust lib tty pw host rounds lines w0))"
proof -
  have "tp_state p \<noteq> ExternalMismatch" if "written_as_shown lib p action e e'"
    using that by (auto simp: written_as_shown_def)
  moreover have "well_shown lib (set lines) None (fst (cmd_host_trust lib tty pw host rounds lines w0))"
    using loop_well_shown[of lib lines pw host rounds w0] by (simp add: cmd_host_trust_def)
  ultimately show ?thesis using apply_outcome[OF assms] by blast
qed

text \<open>A vault that any password opens, a host in the configuration, and the key it presents.\<close>

definition open_ext :: vault_ext where
  "open_ext = (re_vault_ext demo_route_env)
     \<lparr>vx_argon2 := (\<lambda>_ _ _. Some []), vx_decrypt := (\<lambda>_ _ _. Some []), vx_data_from_json := (\<lambda>_. Some []),
      vx_file_from_json := (\<lambda>_. Some \<lparr>vf_version = 3,
        vf_kdf = \<lparr>kp_m_cost = 1, kp_t_cost = 1, kp_p_cost = 1, kp_salt = []\<rparr>,
        vf_nonce = ''000000000000000000000000'', vf_ciphertext = []\<rparr>)\<rparr>"

definition open_route :: route_env where
  "open_route = demo_route_env\<lparr>re_vault_ext := open_ext, re_config := [block_default [''box'']]\<rparr>"

definition sample_trust :: "string trust_env" where
  "sample_trust = \<lparr>te_route = open_route, te_direct = (\<lambda>_ _. Inr ''NEW''), te_via_hops = (\<lambda>_ _. Inr ''NEW''),
     te_algorithm = (\<lambda>_. ''ssh-ed25519''), te_openssh = (\<lambda>_ _ _. Inr []), te_store = (\<lambda>_. State_File.Absent), te_after = id,
     te_prepared = True, te_written = True\<rparr>"

definition sample_preview :: trust_preview where
  "sample_preview = \<lparr>tp_requested_host = ''box'', tp_host = ''box'', tp_hostname = ''box'', tp_host_key_alias = None,
     tp_port = 22, tp_algorithm = ''ssh-ed25519'', tp_fingerprint = ''NEW'', tp_state = StateNew, tp_source = None,
     tp_stored = None, tp_replaceable = True\<rparr>"

lemma sample_preview_eval:
  "preview_host_key demo_lib sample_trust ''box'' None demo_world = (Inr (Some sample_preview), demo_world)"
  by code_simp

lemma sample_apply_eval:
  "fst (apply_host_key_action demo_lib sample_trust sample_preview TrustAdd None State_File.Absent demo_world) = Inr ()"
  by code_simp

theorem host_key_written_as_shown_witness:
  "\<exists>e'. written_as_shown demo_lib sample_preview TrustAdd State_File.Absent e'"
proof -
  obtain res e' w' where run: "apply_host_key_action demo_lib sample_trust sample_preview TrustAdd None State_File.Absent demo_world = (res, e', w')"
    by (metis prod_cases3)
  then have "res = Inr ()" using sample_apply_eval by simp
  then show ?thesis using conjunct1[OF host_key_written_as_shown[OF run]] by auto
qed

lemma failed_unlock_changes_nothing: "unlock_for_lease_at X io pw w = (Inl e, w') \<Longrightarrow> w' = w"
  by (auto simp: unlock_for_lease_at_def populate_cache_at_def split: sum.splits)

text \<open>
  C15: An approval sent is the approval confirmed: \<open>approve\<close> runs on a terminal, asks the daemon for
  the request, shows the expansion of its hosts over their routes, and sends exactly those hosts,
  with the request's id and a password that opened the vault, only if the human answered yes; it
  reports success only with the daemon's activation; a host key is recorded after that, only for an
  endpoint with no recorded key, with the fingerprint shown, on a yes. However it ends, refused,
  cancelled or failed included, it leaves this process's vault as it found it or locked.
\<close>

theorem approval_sent_as_confirmed:
  assumes run: "cmd_approve lib A E rid w = ((evs, res), w')"
  shows "(evs = [] \<or> evs = [Sent (DescribeLeaseRequest rid)] \<or>
       (\<exists>hosts line. evs = [Sent (DescribeLeaseRequest rid), AskedHosts hosts line])) \<and> (\<exists>e. res = Inl e) \<and>
       (w' = w \<or> vw_cache w' = None) \<or>
     (\<exists>info hosts line pw v keys. ap_tty A \<and> ap_password A = Some pw \<and>
        send_request (ap_describing A) (ap_exe A) (DescribeLeaseRequest rid) = Inr (LeaseRequestPending info) \<and>
        unlock_for_lease_at (re_vault_ext (te_route E)) (re_vault_io (te_route E)) pw w = (Inr (), v) \<and>
        expand_lease_hosts (snapshot_resolver (te_route E) v) (rs_hosts info) = Inr hosts \<and> is_yes line \<and>
        evs = [Sent (DescribeLeaseRequest rid), AskedHosts hosts (Some line), Sent (ApproveLease rid pw hosts)] @ keys \<and>
        (\<forall>ev \<in> set keys. key_recorded_on_yes lib (ap_known A) ev) \<and> vw_cache w' = None \<and>
        (\<forall>activated. res = Inr activated \<longrightarrow> (\<exists>unverified.
           send_request (ap_approving A) (ap_exe A) (ApproveLease rid pw hosts) = Inr (LeaseActivated activated unverified))))"
  (is "?early \<or> ?late")
proof (cases "\<exists>info pw v. ap_tty A \<and> ap_password A = Some pw \<and> rs_vault_exists info \<and>
    send_request (ap_describing A) (ap_exe A) (DescribeLeaseRequest rid) = Inr (LeaseRequestPending info) \<and>
    unlock_for_lease_at (re_vault_ext (te_route E)) (re_vault_io (te_route E)) pw w = (Inr (), v)")
  case False
  have ?early
  proof (cases "\<exists>info. send_request (ap_describing A) (ap_exe A) (DescribeLeaseRequest rid) = Inr (LeaseRequestPending info)")
    case True
    then show ?thesis using run False
      by (auto simp: cmd_approve_def Let_def dest: failed_unlock_changes_nothing
          split: if_splits option.splits prod.splits sum.splits)
  next
    case other: False
    show ?thesis
    proof (cases "send_request (ap_describing A) (ap_exe A) (DescribeLeaseRequest rid)")
      case (Inl e)
      then show ?thesis using run by (auto simp: cmd_approve_def Let_def split: if_splits)
    next
      case (Inr response)
      then show ?thesis using run other by (cases response) (auto simp: cmd_approve_def Let_def split: if_splits)
    qed
  qed
  then show ?thesis by blast
next
  case True
  then obtain info pw v where got: "ap_tty A" "ap_password A = Some pw" "rs_vault_exists info"
    "send_request (ap_describing A) (ap_exe A) (DescribeLeaseRequest rid) = Inr (LeaseRequestPending info)"
    "unlock_for_lease_at (re_vault_ext (te_route E)) (re_vault_io (te_route E)) pw w = (Inr (), v)" by blast
  obtain es out where sub: "resolve_confirm_and_submit_approval A (snapshot_resolver (te_route E) v) rid pw (rs_hosts info) = (es, out)"
    by force
  obtain evs1 where evs: "approve_unlocked lib A E rid pw (rs_hosts info) v = (evs1, res)" "evs = Sent (DescribeLeaseRequest rid) # evs1"
    and w': "vw_cache w' = None"
    using run got by (auto simp: cmd_approve_def Let_def split: prod.splits)
  show ?thesis
  proof (cases out)
    case (Inl e)
    then have "evs1 = es" "res = Inl e" using evs(1) sub by (simp_all add: approve_unlocked_def)
    then show ?thesis using submitted[OF sub] got evs(2) w' by fastforce
  next
    case (Inr answer)
    then obtain activated targets where answer: "out = Inr (activated, targets)" by (cases answer) auto
    obtain keys r where keys: "confirm_keys lib E (ap_known A) 0 (ap_answers A) targets = (keys, r)" by force
    have ends: "evs1 = es @ keys" "res = (case r of Inl e \<Rightarrow> Inl e | Inr _ \<Rightarrow> Inr activated)"
      using evs(1) sub answer keys by (auto simp: approve_unlocked_def split: sum.splits)
    have recorded: "\<forall>ev \<in> set keys. key_recorded_on_yes lib (ap_known A) ev"
      using confirm_keys_recorded[where targets = targets] keys by (metis fst_conv)
    obtain hosts line unverified where sent: "expand_lease_hosts (snapshot_resolver (te_route E) v) (rs_hosts info) = Inr hosts"
      "is_yes line" "es = [AskedHosts hosts (Some line), Sent (ApproveLease rid pw hosts)]"
      "send_request (ap_approving A) (ap_exe A) (ApproveLease rid pw hosts) = Inr (LeaseActivated activated unverified)"
      using submitted[OF sub] answer by auto
    have ?late
      using got(1,2,4,5) sent recorded w' ends evs(2)
      by (intro exI[of _ info] exI[of _ hosts] exI[of _ line] exI[of _ pw] exI[of _ v] exI[of _ keys])
        (auto split: sum.splits)
    then show ?thesis by blast
  qed
qed

definition sample_request :: request_summary where
  "sample_request = \<lparr>rs_id = ''11111111'', rs_hosts = [''box''], rs_anchor_name = None, rs_anchor_pid = 30,
     rs_age_secs = 0, rs_vault_exists = True\<rparr>"

definition sample_activated :: activated_info where
  "sample_activated = \<lparr>ac_hosts = [''box''], ac_anchor_name = None, ac_anchor_pid = 30, ac_token = ''t''\<rparr>"

definition lease_daemon :: peer where
  "lease_daemon = sample_daemon\<lparr>pe_reply := (\<lambda>r.
     if r = DescribeLeaseRequest ''11111111'' then Inr (Some (LeaseRequestPending sample_request))
     else if r = ApproveLease ''11111111'' ''pw'' [''box''] then Inr (Some (LeaseActivated sample_activated []))
     else pe_reply sample_daemon r)\<rparr>"

definition lease_client :: client_env where
  "lease_client = sample_client\<lparr>cv_contact := (\<lambda>n. Inr lease_daemon)\<rparr>"

definition sample_approve :: approve_env where
  "sample_approve = \<lparr>ap_tty = True, ap_exe = ''/opt/slooshd'', ap_describing = lease_client, ap_approving = lease_client,
     ap_password = Some ''pw'', ap_confirmation = Some ''y'', ap_known = (\<lambda>n host port. False), ap_answers = (\<lambda>n. Some ''Y'')\<rparr>"

lemma lease_client_answers:
  "send_request lease_client ''/opt/slooshd'' (DescribeLeaseRequest ''11111111'') = Inr (LeaseRequestPending sample_request)"
  "send_request lease_client ''/opt/slooshd'' (ApproveLease ''11111111'' ''pw'' [''box'']) = Inr (LeaseActivated sample_activated [])"
  by (simp_all add: send_request_def client_request_def connect_or_spawn_def connect_verified_def verify_peer_identity_def
      verify_peer_identity_against_def verify_wire_protocol_def lease_client_def sample_client_def lease_daemon_def
      sample_daemon_def sample_status_def)

definition sample_opened :: vault_world where
  "sample_opened = snd (unlock_for_lease_at open_ext demo_vault_io ''pw'' (demo_world\<lparr>vw_disk := Some []\<rparr>))"

definition sample_targets :: "confirmation_target option list" where
  "sample_targets = snd (projr (resolve_scope (snapshot_resolver open_route sample_opened) [''box'']))"

lemma sample_approve_parts:
  "ap_tty sample_approve" "ap_exe sample_approve = ''/opt/slooshd''" "ap_describing sample_approve = lease_client"
  "ap_approving sample_approve = lease_client" "ap_password sample_approve = Some ''pw''"
  "ap_confirmation sample_approve = Some ''y''" "ap_known sample_approve = (\<lambda>n host port. False)"
  "ap_answers sample_approve = (\<lambda>n. Some ''Y'')" "rs_vault_exists sample_request" "rs_hosts sample_request = [''box'']"
  "te_route sample_trust = open_route" "re_vault_ext open_route = open_ext" "re_vault_io open_route = demo_vault_io"
  by (simp_all add: sample_approve_def sample_request_def sample_trust_def open_route_def demo_route_env_def)

lemma sample_approve_eval:
  "is_yes ''y''"
  "unlock_for_lease_at open_ext demo_vault_io ''pw'' (demo_world\<lparr>vw_disk := Some []\<rparr>) = (Inr (), sample_opened)"
  "resolve_scope (snapshot_resolver open_route sample_opened) [''box''] = Inr ([''box''], sample_targets)"
  "snd (confirm_keys demo_lib sample_trust (\<lambda>n host port. False) 0 (\<lambda>n. Some ''Y'') sample_targets) = Inr ()"
  by code_simp+

lemma sample_approve_run:
  "\<exists>keys w'. cmd_approve demo_lib sample_approve sample_trust ''11111111'' (demo_world\<lparr>vw_disk := Some []\<rparr>)
     = ((Sent (DescribeLeaseRequest ''11111111'') # AskedHosts [''box''] (Some ''y'') #
         Sent (ApproveLease ''11111111'' ''pw'' [''box'']) # keys, Inr sample_activated), w')"
proof -
  obtain keys where "confirm_keys demo_lib sample_trust (\<lambda>n host port. False) 0 (\<lambda>n. Some ''Y'') sample_targets = (keys, Inr ())"
    using sample_approve_eval(4) by (metis prod.collapse)
  then show ?thesis
    by (simp add: cmd_approve_def sample_approve_parts lease_client_answers approve_unlocked_def
        resolve_confirm_and_submit_approval_def sample_approve_eval(1-3) confirm_approved_hosts_def)
qed

theorem approval_sent_as_confirmed_witness:
  "\<exists>v. expand_lease_hosts (snapshot_resolver open_route v) [''box''] = Inr [''box''] \<and>
     vw_cache (snd (cmd_approve demo_lib sample_approve sample_trust ''11111111'' (demo_world\<lparr>vw_disk := Some []\<rparr>))) = None"
proof -
  obtain keys w' where run: "cmd_approve demo_lib sample_approve sample_trust ''11111111'' (demo_world\<lparr>vw_disk := Some []\<rparr>)
     = ((Sent (DescribeLeaseRequest ''11111111'') # AskedHosts [''box''] (Some ''y'') #
         Sent (ApproveLease ''11111111'' ''pw'' [''box'']) # keys, Inr sample_activated), w')"
    using sample_approve_run by blast
  show ?thesis
    using approval_sent_as_confirmed[OF run] run lease_client_answers(1) sample_approve_parts by auto
qed

end
