(* ===== verification/Warnings.thy ===== *)
theory Warnings
  imports Prelude
begin

text \<open>
  The limiter of repeated warnings (\<open>src/src/diagnostics.rs\<close>): one window per code and scope, a bounded
  table whose oldest entry makes room, and the counts of what was suppressed. A scope is its
  64-bit hash; the process-wide mutex makes each call one step.
\<close>

definition WARNING_WINDOW :: nat where "WARNING_WINDOW = from_secs 60"
definition MAX_WARNING_KEYS :: nat where "MAX_WARNING_KEYS = 1024"

datatype warning_action = Emit nat | Suppress

type_synonym warning_key = "string \<times> nat"

record warning_entry =
  we_window_start :: instant
  we_suppressed :: nat

record warning_limiter =
  wl_window :: nat
  wl_entries :: "(warning_key, warning_entry) hmap"

definition new_limiter :: "nat \<Rightarrow> warning_limiter" where
  "new_limiter window = \<lparr>wl_window = window, wl_entries = []\<rparr>"

text \<open>\<open>min_by_key\<close> answers the first of the least entries in iteration order.\<close>

fun oldest :: "(warning_key, warning_entry) hmap \<Rightarrow> (warning_key \<times> warning_entry) option" where
  "oldest [] = None"
| "oldest ((k, e) # m) = (case oldest m of
     None \<Rightarrow> Some (k, e)
   | Some (k', e') \<Rightarrow> if we_window_start e \<le> we_window_start e' then Some (k, e) else Some (k', e'))"

definition make_room :: "(warning_key, warning_entry) hmap \<Rightarrow> (warning_key, warning_entry) hmap" where
  "make_room m = (if length m \<ge> MAX_WARNING_KEYS
     then (case oldest m of None \<Rightarrow> m | Some (k, _) \<Rightarrow> hm_remove k m) else m)"

definition observe_at :: "warning_limiter \<Rightarrow> warning_key \<Rightarrow> instant \<Rightarrow> warning_action \<times> warning_limiter" where
  "observe_at l key now =
     (case hm_get (wl_entries l) key of
        Some entry \<Rightarrow>
          if duration_since now (we_window_start entry) < wl_window l
          then (Suppress, l\<lparr>wl_entries := hm_insert key (entry\<lparr>we_suppressed := sat_add (we_suppressed entry) 1\<rparr>) (wl_entries l)\<rparr>)
          else (Emit (we_suppressed entry),
                l\<lparr>wl_entries := hm_insert key \<lparr>we_window_start = now, we_suppressed = 0\<rparr> (wl_entries l)\<rparr>)
      | None \<Rightarrow>
          (Emit 0,
           l\<lparr>wl_entries := hm_insert key \<lparr>we_window_start = now, we_suppressed = 0\<rparr> (make_room (wl_entries l))\<rparr>))"

definition recover :: "warning_limiter \<Rightarrow> warning_key \<Rightarrow> nat option \<times> warning_limiter" where
  "recover l key = (map_option we_suppressed (hm_get (wl_entries l) key), l\<lparr>wl_entries := hm_remove key (wl_entries l)\<rparr>)"

subsection \<open>Histories\<close>

datatype warning_call = Occurrence warning_key instant | Recovered warning_key

datatype warning_result = Action warning_action | Report "nat option"

fun warning_step :: "warning_call \<Rightarrow> warning_limiter \<Rightarrow> warning_result \<times> warning_limiter" where
  "warning_step (Occurrence key now) l = (case observe_at l key now of (a, l) \<Rightarrow> (Action a, l))"
| "warning_step (Recovered key) l = (case recover l key of (n, l) \<Rightarrow> (Report n, l))"

text \<open>The state after a list of calls and their results, the last call first.\<close>

fun warning_history :: "warning_limiter \<Rightarrow> warning_call list \<Rightarrow> (warning_call \<times> warning_result) list \<times> warning_limiter" where
  "warning_history l [] = ([], l)"
| "warning_history l (call # calls) = (case warning_history l calls of
     (hist, l) \<Rightarrow> (case warning_step call l of (res, l) \<Rightarrow> ((call, res) # hist, l)))"

text \<open>How many were suppressed, how many of those were reported, and how many are still counted.\<close>

fun suppressions :: "(warning_call \<times> warning_result) list \<Rightarrow> nat" where
  "suppressions [] = 0"
| "suppressions ((_, Action Suppress) # hist) = Suc (suppressions hist)"
| "suppressions (_ # hist) = suppressions hist"

fun reported :: "(warning_call \<times> warning_result) list \<Rightarrow> nat" where
  "reported [] = 0"
| "reported ((_, Action (Emit n)) # hist) = n + reported hist"
| "reported ((_, Report (Some n)) # hist) = n + reported hist"
| "reported (_ # hist) = reported hist"

definition counted :: "warning_limiter \<Rightarrow> nat" where
  "counted l = (\<Sum>(_, e) \<leftarrow> wl_entries l. we_suppressed e)"

text \<open>The last time a warning of a key was emitted.\<close>

fun last_emitted :: "warning_key \<Rightarrow> (warning_call \<times> warning_result) list \<Rightarrow> instant option" where
  "last_emitted key [] = None"
| "last_emitted key ((Occurrence k now, Action (Emit n)) # hist) = (if k = key then Some now else last_emitted key hist)"
| "last_emitted key (_ # hist) = last_emitted key hist"

lemma oldest_in: "oldest m = Some (k, e) \<Longrightarrow> (k, e) \<in> set m"
proof (induction m arbitrary: k e)
  case (Cons x m)
  then show ?case by (cases x; cases "oldest m") (auto split: if_splits)
qed simp

lemma oldest_some: "m \<noteq> [] \<Longrightarrow> oldest m \<noteq> None"
  by (induction m) (auto split: option.splits prod.splits)

lemma length_insert_new: "hm_get m k = None \<Longrightarrow> length (hm_insert k v m) = Suc (length m)"
  by (induction m) auto

lemma length_insert_old: "hm_get m k \<noteq> None \<Longrightarrow> length (hm_insert k v m) = length m"
  by (induction m) (auto split: if_splits)

lemma make_room_bound: "length m \<le> MAX_WARNING_KEYS \<Longrightarrow> length (make_room m) < MAX_WARNING_KEYS"
proof -
  assume b: "length m \<le> MAX_WARNING_KEYS"
  show ?thesis
  proof (cases "length m \<ge> MAX_WARNING_KEYS")
    case True
    then have "m \<noteq> []" by (auto simp: MAX_WARNING_KEYS_def)
    then obtain k e where o: "oldest m = Some (k, e)" using oldest_some by fastforce
    have "hm_get m k \<noteq> None" using oldest_in[OF o] by (auto dest: weak_map_of_SomeI)
    then show ?thesis using length_hm_remove[of m k] b o by (simp add: make_room_def)
  next
    case False
    then show ?thesis by (simp add: make_room_def)
  qed
qed

lemma make_room_get: "hm_get (make_room m) k = Some e \<Longrightarrow> hm_get m k = Some e"
  by (auto simp: make_room_def split: if_splits option.splits)

lemma make_room_absent: "hm_get m k = None \<Longrightarrow> hm_get (make_room m) k = None"
  by (auto simp: make_room_def split: option.splits)

abbreviation weight :: "(warning_key, warning_entry) hmap \<Rightarrow> nat" where
  "weight m \<equiv> (\<Sum>(_, e) \<leftarrow> m. we_suppressed e)"

lemma weight_insert_old:
  "\<lbrakk>hm_ok m; hm_get m k = Some e\<rbrakk> \<Longrightarrow> weight (hm_insert k e' m) + we_suppressed e = weight m + we_suppressed e'"
  by (induction m) (auto simp: hm_ok_def split: if_splits)

lemma weight_insert_new: "hm_get m k = None \<Longrightarrow> weight (hm_insert k e' m) = weight m + we_suppressed e'"
  by (induction m) auto

lemma weight_remove:
  "\<lbrakk>hm_ok m; hm_get m k = Some e\<rbrakk> \<Longrightarrow> weight (hm_remove k m) + we_suppressed e = weight m"
proof (induction m)
  case (Cons x m)
  obtain k' e' where x: "x = (k', e')" by (cases x)
  show ?case
  proof (cases "k' = k")
    case True
    then have "hm_get m k = None" using Cons.prems x by (auto simp: hm_ok_def map_of_eq_None_iff)
    then have "hm_remove k m = m" by (rule hm_remove_absent)
    then show ?thesis using Cons.prems True x by (simp add: AList.delete_eq)
  next
    case False
    then show ?thesis using Cons x by (simp add: hm_ok_def AList.delete_eq)
  qed
qed simp

lemma make_room_cases:
  "make_room m = m \<or> (\<exists>k e. (k, e) \<in> set m \<and> make_room m = hm_remove k m)"
  using oldest_in[of m] by (auto simp: make_room_def split: option.splits) blast

lemma make_room_ok: "hm_ok m \<Longrightarrow> hm_ok (make_room m)"
  using make_room_cases[of m] by auto

lemma weight_make_room: "hm_ok m \<Longrightarrow> weight (make_room m) \<le> weight m"
  using make_room_cases[of m] weight_remove[of m] hm_get_in[of m] by (metis le_add1 order_refl)

definition limiter_ok :: "warning_limiter \<Rightarrow> (warning_call \<times> warning_result) list \<Rightarrow> bool" where
  "limiter_ok l hist \<longleftrightarrow> hm_ok (wl_entries l) \<and> length (wl_entries l) \<le> MAX_WARNING_KEYS \<and>
     reported hist + counted l \<le> suppressions hist \<and>
     (\<forall>key e. hm_get (wl_entries l) key = Some e \<longrightarrow> last_emitted key hist = Some (we_window_start e))"

lemma observe_ok:
  assumes ok: "limiter_ok l hist" and run: "observe_at l key now = (a, l')"
  shows "limiter_ok l' ((Occurrence key now, Action a) # hist)"
    and "a = Suppress \<Longrightarrow> \<exists>t. last_emitted key hist = Some t \<and> duration_since now t < wl_window l"
proof -
  let ?m = "wl_entries l"
  have m: "hm_ok ?m" "length ?m \<le> MAX_WARNING_KEYS" "reported hist + weight ?m \<le> suppressions hist"
    "\<And>k e. hm_get ?m k = Some e \<Longrightarrow> last_emitted k hist = Some (we_window_start e)"
    using ok by (auto simp: limiter_ok_def counted_def)
  consider (fresh) "hm_get ?m key = None"
    | (quiet) e where "hm_get ?m key = Some e" "duration_since now (we_window_start e) < wl_window l"
    | (again) e where "hm_get ?m key = Some e" "\<not> duration_since now (we_window_start e) < wl_window l"
    by (cases "hm_get ?m key") auto
  then show "limiter_ok l' ((Occurrence key now, Action a) # hist)"
  proof cases
    case fresh
    have gone: "hm_get (make_room ?m) key = None" by (rule make_room_absent[OF fresh])
    show ?thesis using fresh run m make_room_ok[OF m(1)] make_room_bound[OF m(2)] weight_make_room[OF m(1)]
        make_room_get[of ?m]
      by (auto simp: observe_at_def limiter_ok_def counted_def length_insert_new[OF gone] weight_insert_new[OF gone] split: if_splits simp del: split_paired_All)
  next
    case quiet
    have "weight (hm_insert key (e\<lparr>we_suppressed := sat_add (we_suppressed e) 1\<rparr>) ?m) \<le> weight ?m + 1"
      using weight_insert_old[OF m(1) quiet(1), of "e\<lparr>we_suppressed := sat_add (we_suppressed e) 1\<rparr>"]
        sat_add_le[of "we_suppressed e" 1] by simp
    then show ?thesis using quiet run m by (auto simp: observe_at_def limiter_ok_def counted_def length_insert_old split: if_splits simp del: split_paired_All)
  next
    case again
    have "weight (hm_insert key \<lparr>we_window_start = now, we_suppressed = 0\<rparr> ?m) + we_suppressed e = weight ?m"
      using weight_insert_old[OF m(1) again(1), of "\<lparr>we_window_start = now, we_suppressed = 0\<rparr>"] by simp
    then show ?thesis using again run m by (auto simp: observe_at_def limiter_ok_def counted_def length_insert_old split: if_splits simp del: split_paired_All)
  qed
  show "\<exists>t. last_emitted key hist = Some t \<and> duration_since now t < wl_window l" if "a = Suppress"
    using run that m(4)[of key] by (auto simp: observe_at_def split: option.splits if_splits)
qed

lemma recover_ok:
  assumes ok: "limiter_ok l hist" and run: "recover l key = (n, l')"
  shows "limiter_ok l' ((Recovered key, Report n) # hist)"
proof -
  let ?m = "wl_entries l"
  have m: "hm_ok ?m" "length ?m \<le> MAX_WARNING_KEYS" "reported hist + weight ?m \<le> suppressions hist"
    "\<And>k e. hm_get ?m k = Some e \<Longrightarrow> last_emitted k hist = Some (we_window_start e)"
    using ok by (auto simp: limiter_ok_def counted_def)
  show ?thesis
  proof (cases "hm_get ?m key")
    case None
    then show ?thesis using run m by (auto simp: recover_def limiter_ok_def counted_def hm_remove_absent)
  next
    case (Some e)
    then show ?thesis using run m weight_remove[OF m(1) Some] length_hm_remove[of ?m key]
      by (auto simp: recover_def limiter_ok_def counted_def split: if_splits simp del: split_paired_All)
  qed
qed

lemma step_ok:
  "\<lbrakk>limiter_ok l hist; warning_step call l = (res, l')\<rbrakk> \<Longrightarrow> limiter_ok l' ((call, res) # hist)"
  by (cases call) (auto split: prod.splits simp: observe_ok(1) recover_ok)

lemma history_ok: "warning_history (new_limiter W) calls = (hist, l) \<Longrightarrow> limiter_ok l hist"
proof (induction calls arbitrary: hist l)
  case Nil
  then show ?case by (auto simp: new_limiter_def limiter_ok_def counted_def)
next
  case (Cons call calls)
  then show ?case using step_ok by (auto split: prod.splits)
qed

text \<open>
  The limiter's table never exceeds 1024 keys; a warning is suppressed only within the window
  of an emitted warning of the same code and scope; and the counts reported with later warnings
  and recoveries, together with those still kept, never exceed what was suppressed.
\<close>

theorem warnings_bounded_and_accounted:
  assumes "warning_history (new_limiter W) calls = (hist, l)"
  shows "length (wl_entries l) \<le> 1024 \<and> reported hist + counted l \<le> suppressions hist \<and>
    (fst (observe_at l key now) = Suppress \<longrightarrow> (\<exists>t. last_emitted key hist = Some t \<and> duration_since now t < wl_window l))"
  using history_ok[OF assms] observe_ok(2)[OF history_ok[OF assms] prod.collapse[symmetric], of key now]
  by (simp add: limiter_ok_def MAX_WARNING_KEYS_def)

theorem warnings_bounded_and_accounted_witness:
  "\<exists>hist l. warning_history (new_limiter WARNING_WINDOW)
      [Recovered (''A'', 7), Occurrence (''A'', 7) (from_secs 60), Occurrence (''A'', 7) (from_secs 1), Occurrence (''A'', 7) 0]
      = (hist, l) \<and> reported hist = 1 \<and> reported hist + counted l \<le> suppressions hist"
proof -
  let ?calls = "[Recovered (''A'', 7), Occurrence (''A'', 7) (from_secs 60), Occurrence (''A'', 7) (from_secs 1), Occurrence (''A'', 7) 0]"
  obtain hist l where run: "warning_history (new_limiter WARNING_WINDOW) ?calls = (hist, l)" by force
  then have "reported hist = 1"
    by (simp add: new_limiter_def observe_at_def recover_def make_room_def MAX_WARNING_KEYS_def WARNING_WINDOW_def
        duration_since_def from_secs_def sat_add_def u64_max_def split: prod.splits) auto
  then show ?thesis using warnings_bounded_and_accounted[OF run] run by blast
qed

end
