(* ===== verification/Audit_Log.thy ===== *)
theory Audit_Log
  imports Text
begin

text \<open>
  The audit log (\<open>src/src/daemon/audit.rs\<close>, read by \<open>src/src/cli/log.rs\<close>): time stamps and the
  hand-written calendar behind them, the line of an event, and reading the log back. The JSON
  printer and parser are arguments; the file is its text.
\<close>

subsection \<open>Time stamps\<close>

text \<open>\<open>div\<close> and \<open>mod\<close> are Rust's \<open>div_euclid\<close> and \<open>rem_euclid\<close> for the positive divisors used.\<close>

definition civil_from_days :: "int \<Rightarrow> int \<times> int \<times> int" where
  "civil_from_days z =
     (let z = z + 719468;
          era = z div 146097;
          doe = z mod 146097;
          yoe = (doe - doe div 1460 + doe div 36524 - doe div 146096) div 365;
          y = yoe + era * 400;
          doy = doe - (365 * yoe + yoe div 4 - yoe div 100);
          mp = (5 * doy + 2) div 153;
          d = doy - (153 * mp + 2) div 5 + 1;
          m = (if mp < 10 then mp + 3 else mp - 9);
          y = (if m \<le> 2 then y + 1 else y) in
      (y, m, d))"

text \<open>\<open>{:04}\<close> and \<open>{:02}\<close> of a number.\<close>

definition show_padded :: "nat \<Rightarrow> nat \<Rightarrow> string" where
  "show_padded width n = replicate (width - length (show_nat n)) (CHR ''0'') @ show_nat n"

text \<open>\<open>secs\<close> are the seconds since the epoch; an earlier clock counts as the epoch.\<close>

definition format_timestamp :: "nat \<Rightarrow> string" where
  "format_timestamp secs =
     (let days = int secs div 86400; sod = nat (int secs mod 86400); (year, month, day) = civil_from_days days in
      show_padded 4 (nat year) @ ''-'' @ show_padded 2 (nat month) @ ''-'' @ show_padded 2 (nat day) @ ''T''
      @ show_padded 2 (sod div 3600) @ '':'' @ show_padded 2 (sod mod 3600 div 60) @ '':'' @ show_padded 2 (sod mod 60) @ ''Z'')"

subsection \<open>Writing\<close>

datatype json =
    JNull | JBool bool | JNumber string | JString string | JArray "json list" | JObject "(string \<times> json) list"

text \<open>\<open>encode\<close> is \<open>serde_json::to_string\<close>; fields that are no object are dropped with a warning.\<close>

definition build_line :: "(json \<Rightarrow> string option) \<Rightarrow> nat \<Rightarrow> string \<Rightarrow> json \<Rightarrow> string option" where
  "build_line encode now event fields =
     (let obj = hm_insert ''event'' (JString event) (hm_insert ''ts'' (JString (format_timestamp now)) []) in
      encode (JObject (case fields of
        JObject extra \<Rightarrow> fold (\<lambda>(k, v). hm_insert k v) extra obj
      | _ \<Rightarrow> obj)))"

text \<open>How an append ends: before anything was written, in part, or whole.\<close>

datatype append_outcome = AppendFailed | AppendTorn nat | AppendDone

definition append_line :: "append_outcome \<Rightarrow> string \<Rightarrow> string \<Rightarrow> string" where
  "append_line outcome line log = (case outcome of
     AppendFailed \<Rightarrow> log
   | AppendTorn n \<Rightarrow> log @ take n (line @ [LF])
   | AppendDone \<Rightarrow> log @ line @ [LF])"

definition record_event ::
  "(json \<Rightarrow> string option) \<Rightarrow> append_outcome \<Rightarrow> nat \<Rightarrow> string \<Rightarrow> json \<Rightarrow> string \<Rightarrow> string" where
  "record_event encode outcome now event fields log = (case build_line encode now event fields of
     None \<Rightarrow> log | Some line \<Rightarrow> append_line outcome line log)"

subsection \<open>Reading\<close>

definition read_raw_lines :: "string \<Rightarrow> string list" where
  "read_raw_lines log = filter (\<lambda>l. l \<noteq> []) (map trim (str_lines log))"

text \<open>\<open>is_event\<close>: the line parses as an event; \<open>parse\<close>: as any JSON. The count is of malformed lines.\<close>

fun validate_lines :: "(string \<Rightarrow> bool) \<Rightarrow> (string \<Rightarrow> json option) \<Rightarrow> string list \<Rightarrow> (string \<times> json) list \<times> nat" where
  "validate_lines is_event parse [] = ([], 0)"
| "validate_lines is_event parse (raw # raws) = (case validate_lines is_event parse raws of
     (evs, malformed) \<Rightarrow>
       if \<not> is_event raw then (evs, Suc malformed)
       else (case parse raw of None \<Rightarrow> (evs, Suc malformed) | Some v \<Rightarrow> ((raw, v) # evs, malformed)))"

definition read_validated_raw_events :: "(string \<Rightarrow> bool) \<Rightarrow> (string \<Rightarrow> json option) \<Rightarrow> string \<Rightarrow> (string \<times> json) list \<times> nat" where
  "read_validated_raw_events is_event parse log = validate_lines is_event parse (read_raw_lines log)"

definition json_field :: "json \<Rightarrow> string \<Rightarrow> json option" where
  "json_field v k = (case v of JObject fields \<Rightarrow> map_of fields k | _ \<Rightarrow> None)"

text \<open>The events \<open>sloosh log\<close> prints: those of the host asked for, the last \<open>count\<close> of them.\<close>

definition cmd_log ::
  "(string \<Rightarrow> bool) \<Rightarrow> (string \<Rightarrow> json option) \<Rightarrow> string option \<Rightarrow> nat \<Rightarrow> string \<Rightarrow> (string \<times> json) list" where
  "cmd_log is_event parse host count log =
     (let filtered = filter (\<lambda>(raw, v). case host of None \<Rightarrow> True | Some h \<Rightarrow> json_field v ''host'' = Some (JString h))
                       (fst (read_validated_raw_events is_event parse log)) in
      drop (length filtered - count) filtered)"

section \<open>The calendar\<close>

definition leap :: "int \<Rightarrow> bool" where
  "leap y \<longleftrightarrow> y mod 4 = 0 \<and> (y mod 100 \<noteq> 0 \<or> y mod 400 = 0)"

definition month_days :: "int \<Rightarrow> int \<Rightarrow> int" where
  "month_days y m = (if m = 2 then if leap y then 29 else 28 else if m \<in> {4, 6, 9, 11} then 30 else 31)"

text \<open>The Gregorian calendar's next day.\<close>

definition next_day :: "int \<times> int \<times> int \<Rightarrow> int \<times> int \<times> int" where
  "next_day date = (case date of (y, m, d) \<Rightarrow>
     if d < month_days y m then (y, m, d + 1) else if m < 12 then (y, m + 1, 1) else (y + 1, 1, 1))"

text \<open>
  The calendar in years that begin on March 1: \<open>year_start\<close> is the first day of a year within its
  era of 400, \<open>year_days\<close> its length, and \<open>march_date\<close> turns a day of such a year into a date.
\<close>

definition year_start :: "int \<Rightarrow> int" where
  "year_start y = 365 * y + y div 4 - y div 100"

definition year_days :: "int \<Rightarrow> int" where
  "year_days y = (if leap (y + 1) then 366 else 365)"

definition march_date :: "int \<Rightarrow> int \<Rightarrow> int \<times> int \<times> int" where
  "march_date y doy =
     (let mp = (5 * doy + 2) div 153; m = (if mp < 10 then mp + 3 else mp - 9) in
      (if m \<le> 2 then y + 1 else y, m, doy - (153 * mp + 2) div 5 + 1))"

lemma year_of_day:
  assumes y: "0 \<le> y" "y < 400" and doy: "0 \<le> doy" "doy < year_days y"
    and doe: "doe = year_start y + doy"
  shows "(doe - doe div 1460 + doe div 36524 - doe div 146096) div 365 = y"
proof -
  define c q r where "c = y div 100" and "q = y mod 100 div 4" and "r = y mod 4"
  have parts: "y = 100 * c + 4 * q + r" "0 \<le> c" "c \<le> 3" "0 \<le> q" "q \<le> 24" "0 \<le> r" "r \<le> 3"
  proof -
    have r: "r = y mod 100 mod 4" by (simp add: r_def mod_mod_cancel)
    have "y = 100 * c + y mod 100" "y mod 100 = 4 * q + r" by (simp_all add: c_def q_def r)
    then show "y = 100 * c + 4 * q + r" by simp
    show "0 \<le> c" "c \<le> 3" "0 \<le> q" "0 \<le> r" "r \<le> 3" using y by (simp_all add: c_def q_def r_def)
    have "y mod 100 < 100" by simp
    then show "q \<le> 24" by (simp add: q_def)
  qed
  have divs: "y div 4 = 25 * c + q" "y div 100 = c" using parts by auto
  have start: "year_start y = 36524 * c + 1461 * q + 365 * r" using parts divs by (simp add: year_start_def)
  have leap: "leap (y + 1) \<longleftrightarrow> r = 3 \<and> (q < 24 \<or> c = 3)"
  proof -
    have small: "n mod k = 0 \<longleftrightarrow> n = k" if "0 < n" "n \<le> k" for n k :: int
      using that by (cases "n = k") (simp_all add: mod_pos_pos_trivial)
    have "y + 1 = (r + 1) + 4 * (25 * c + q)" using parts by simp
    then have "(y + 1) mod 4 = (r + 1) mod 4" by (simp only: mod_mult_self2)
    then have four: "(y + 1) mod 4 = 0 \<longleftrightarrow> r = 3" using small[of "r + 1" 4] parts by simp
    have "y + 1 = (4 * q + r + 1) + 100 * c" using parts by simp
    then have "(y + 1) mod 100 = (4 * q + r + 1) mod 100" by (simp only: mod_mult_self2)
    moreover have "(4 * q + r + 1) mod 100 = 0 \<longleftrightarrow> 4 * q + r + 1 = 100" using parts by (intro small) simp_all
    moreover have "4 * q + r + 1 = 100 \<longleftrightarrow> q = 24 \<and> r = 3" using parts by presburger
    ultimately have hundred: "(y + 1) mod 100 = 0 \<longleftrightarrow> q = 24 \<and> r = 3" by simp
    have "(y + 1) mod 400 = 0 \<longleftrightarrow> y + 1 = 400" using y by (intro small) simp_all
    moreover have "y + 1 = 400 \<longleftrightarrow> c = 3 \<and> 4 * q + r + 1 = 100" using parts by linarith
    ultimately have "(y + 1) mod 400 = 0 \<longleftrightarrow> c = 3 \<and> q = 24 \<and> r = 3"
      using \<open>4 * q + r + 1 = 100 \<longleftrightarrow> q = 24 \<and> r = 3\<close> by simp
    then show ?thesis using four hundred parts(5) by (auto simp: leap_def)
  qed
  define res where "res = 24 * c + q + 365 * r + doy"
  have long: "doy < 365 \<or> doy = 365 \<and> r = 3 \<and> (q < 24 \<or> c = 3)"
    using doy leap by (auto simp: year_days_def split: if_splits)
  have doe1460: "doe = 1460 * (25 * c + q) + res" using doe start by (simp add: res_def)
  have res: "0 \<le> res" "res < 2920" using parts doy long by (auto simp: res_def)
  have d1460: "doe div 1460 = 25 * c + q + (if res < 1460 then 0 else 1)"
    using doe1460 res by auto
  have doy365: "doy \<le> 365" using long by auto
  have total: "doe = 36524 * c + 1461 * q + 365 * r + doy" using doe start by simp
  have end_iff: "doe = 146096 \<longleftrightarrow> c = 3 \<and> q = 24 \<and> r = 3 \<and> doy = 365"
  proof
    assume "doe = 146096"
    then show "c = 3 \<and> q = 24 \<and> r = 3 \<and> doy = 365"
      using total parts(3,5,7) doy365 by (intro conjI) linarith+
  qed (use total in simp)
  have d36524: "doe div 36524 = c + (if doe = 146096 then 1 else 0)"
  proof (cases "doe = 146096")
    case True
    then show ?thesis using end_iff by simp
  next
    case False
    have "1461 * q + 365 * r + doy < 36524"
    proof (cases "doy = 365")
      case True
      then show ?thesis using long end_iff False parts(5,7) by auto
    next
      case False
      then show ?thesis using doy365 parts(5,7) by linarith
    qed
    moreover have "0 \<le> 1461 * q + 365 * r + doy" using parts(4,6) doy by simp
    moreover have "doe = 36524 * c + (1461 * q + 365 * r + doy)" using total by simp
    ultimately show ?thesis using False by (simp add: div_pos_pos_trivial)
  qed
  have "0 \<le> doe" "doe \<le> 146096" using total parts(2-7) doy(1) doy365 by linarith+
  then have d146096: "doe div 146096 = (if doe = 146096 then 1 else 0)"
    by (cases "doe = 146096") (simp_all add: div_pos_pos_trivial)
  have "doe - doe div 1460 + doe div 36524 - doe div 146096 = 365 * y + (doy - (if res < 1460 then 0 else 1))"
    using d1460 d36524 d146096 doe start parts by auto
  moreover have "0 \<le> doy - (if res < 1460 then 0 else 1)" "doy - (if res < 1460 then 0 else 1) < 365"
    using long parts doy by (auto simp: res_def)
  ultimately show ?thesis by simp
qed

lemma div_step: "0 < k \<Longrightarrow> (y + 1) div k = y div k + (if (y + 1) mod k = 0 then 1 else 0)" for y k :: int
proof -
  assume k: "0 < k"
  have bounds: "0 \<le> y mod k" "y mod k < k" using k by simp_all
  have y: "y + 1 = (y mod k + 1) + k * (y div k)" by simp
  show ?thesis
  proof (cases "y mod k + 1 = k")
    case True
    then have "y + 1 = k * (y div k + 1)" using y by (simp add: algebra_simps)
    then show ?thesis using k by simp
  next
    case False
    then have "y mod k + 1 < k" using bounds by simp
    then have "(y mod k + 1) div k = 0" "(y mod k + 1) mod k = y mod k + 1"
      using bounds by (simp_all add: div_pos_pos_trivial mod_pos_pos_trivial)
    moreover have "(y + 1) div k = (y mod k + 1) div k + y div k" using y k by (metis div_mult_self2 less_irrefl add.commute)
    moreover have "(y + 1) mod k = (y mod k + 1) mod k" by (simp add: mod_add_left_eq)
    ultimately show ?thesis using bounds by simp
  qed
qed

lemma year_step: "0 \<le> y \<Longrightarrow> y < 399 \<Longrightarrow> year_start (y + 1) = year_start y + year_days y"
proof -
  assume y: "0 \<le> y" "y < 399"
  have "(y + 1) mod 400 \<noteq> 0" using y by simp
  moreover have "(y + 1) mod 4 = (y + 1) mod 100 mod 4" by (simp add: mod_mod_cancel)
  ultimately have days: "year_days y = 365 + (if (y + 1) mod 4 = 0 then 1 else 0) - (if (y + 1) mod 100 = 0 then 1 else 0)"
    unfolding year_days_def leap_def by (cases "(y + 1) mod 100 = 0"; cases "(y + 1) mod 4 = 0") simp_all
  have sum: "365 * (y + 1) + (a + i) - (b + j) = 365 * y + a - b + (365 + i - j)" for a b i j by simp
  show ?thesis
    unfolding year_start_def days div_step[of 4 y, OF zero_less_numeral] div_step[of 100 y, OF zero_less_numeral] by (rule sum)
qed

lemma day_position:
  assumes "0 \<le> doe" "doe < 146097"
  shows "\<exists>y doy. 0 \<le> y \<and> y < 400 \<and> 0 \<le> doy \<and> doy < year_days y \<and> doe = year_start y + doy"
proof -
  have below: "\<exists>y doy. 0 \<le> y \<and> y < int n \<and> 0 \<le> doy \<and> doy < year_days y \<and> doe = year_start y + doy"
    if "n \<le> 399" "doe < year_start (int n)" for n
    using that
  proof (induction n)
    case 0
    then show ?case using assms(1) by (simp add: year_start_def)
  next
    case (Suc n)
    show ?case
    proof (cases "doe < year_start (int n)")
      case True
      then obtain y doy where "0 \<le> y" "y < int n" "0 \<le> doy" "doy < year_days y" "doe = year_start y + doy"
        using Suc by auto
      then show ?thesis by (intro exI[of _ y] exI[of _ doy]) simp
    next
      case False
      then show ?thesis using Suc.prems year_step[of "int n"]
        by (intro exI[of _ "int n"] exI[of _ "doe - year_start (int n)"]) (simp add: add.commute)
    qed
  qed
  have last: "year_start 399 = 145731" "year_days 399 = 366" by (simp_all add: year_start_def year_days_def leap_def)
  show ?thesis
  proof (cases "doe < year_start 399")
    case True
    then obtain y doy where "0 \<le> y" "y < 399" "0 \<le> doy" "doy < year_days y" "doe = year_start y + doy"
      using below[of 399] by auto
    then show ?thesis by (intro exI[of _ y] exI[of _ doy]) simp
  next
    case False
    then show ?thesis using assms(2) last by (intro exI[of _ 399] exI[of _ "doe - year_start 399"]) simp
  qed
qed

text \<open>A day is the \<open>doy\<close>-th of March-year \<open>y\<close> in its era; the conversion is that year's date.\<close>

definition day_at :: "int \<Rightarrow> int \<Rightarrow> int \<Rightarrow> int \<Rightarrow> bool" where
  "day_at z era y doy \<longleftrightarrow> 0 \<le> y \<and> y < 400 \<and> 0 \<le> doy \<and> doy < year_days y \<and>
     z + 719468 = 146097 * era + (year_start y + doy)"

lemma day_at_exists: "\<exists>era y doy. day_at z era y doy"
proof -
  have "0 \<le> (z + 719468) mod 146097" "(z + 719468) mod 146097 < 146097" by simp_all
  from day_position[OF this] obtain y doy where "0 \<le> y" "y < 400" "0 \<le> doy" "doy < year_days y"
    "(z + 719468) mod 146097 = year_start y + doy" by blast
  moreover have "z + 719468 = 146097 * ((z + 719468) div 146097) + (z + 719468) mod 146097" by simp
  ultimately show ?thesis unfolding day_at_def by metis
qed

lemma year_end:
  assumes "0 \<le> y" "y < 400" "0 \<le> doy" "doy < year_days y"
  shows "0 \<le> year_start y + doy" "year_start y + doy < 146097"
proof -
  have "y div 100 \<le> y div 4" using assms(1) by (intro zdiv_mono2) simp_all
  then show "0 \<le> year_start y + doy" using assms(1,3) by (simp add: year_start_def)
  have days: "doy \<le> 365" using assms(4) by (simp add: year_days_def split: if_splits)
  have "y div 4 \<le> 99" "0 \<le> y div 100" using assms(1,2) by simp_all
  moreover have "y div 100 = 3 \<or> y \<le> 299"
  proof (cases "y \<le> 299")
    case False
    then have "y = 3 * 100 + (y - 300)" "0 \<le> y - 300" "y - 300 < 100" using assms(2) by simp_all
    then have "y div 100 = 3" by (metis add_0_right div_mult_self3 div_pos_pos_trivial zero_neq_numeral)
    then show ?thesis by simp
  qed simp
  ultimately show "year_start y + doy < 146097" using days assms(2) unfolding year_start_def by linarith
qed

lemma civil_march: "day_at z era y doy \<Longrightarrow> civil_from_days z = march_date (y + era * 400) doy"
proof -
  assume at: "day_at z era y doy"
  let ?doe = "year_start y + doy"
  have parts: "0 \<le> y" "y < 400" "0 \<le> doy" "doy < year_days y" and z: "z + 719468 = ?doe + 146097 * era"
    using at by (auto simp: day_at_def)
  have "(z + 719468) div 146097 = era" "(z + 719468) mod 146097 = ?doe"
    using year_end[OF parts] unfolding z by simp_all
  moreover have "(?doe - ?doe div 1460 + ?doe div 36524 - ?doe div 146096) div 365 = y"
    by (rule year_of_day[OF parts refl])
  moreover have "?doe - (365 * y + y div 4 - y div 100) = doy" unfolding year_start_def by linarith
  ultimately show ?thesis by (simp only: civil_from_days_def march_date_def Let_def)
qed

subsection \<open>The next day\<close>

text \<open>Month and day of a day of a March-year; the checks below are over all days of a year.\<close>

definition march_month :: "int \<Rightarrow> int \<times> int" where
  "march_month doy =
     (let mp = (5 * doy + 2) div 153 in (if mp < 10 then mp + 3 else mp - 9, doy - (153 * mp + 2) div 5 + 1))"

lemma march_date_month: "march_date y doy = (case march_month doy of (m, d) \<Rightarrow> (if m \<le> 2 then y + 1 else y, m, d))"
  by (simp add: march_date_def march_month_def Let_def)

definition month_step :: "int \<Rightarrow> bool" where
  "month_step doy \<longleftrightarrow> (case march_month doy of (m, d) \<Rightarrow>
     1 \<le> m \<and> m \<le> 12 \<and>
     march_month (doy + 1) =
       (if m = 2 \<or> d < (if m \<in> {4, 6, 9, 11} then 30 else 31) then (m, d + 1) else (if m < 12 then m + 1 else 1, 1)) \<and>
     (m = 2 \<longrightarrow> d < 28))"

lemma months_step: "0 \<le> doy \<Longrightarrow> doy \<le> 363 \<Longrightarrow> month_step doy"
proof -
  assume "0 \<le> doy" "doy \<le> 363"
  moreover have "list_all month_step [0..363]" by code_simp
  ultimately show ?thesis by (simp add: list_all_iff)
qed

lemma february: "march_month 364 = (2, 28)" "march_month 365 = (2, 29)" "march_month 0 = (3, 1)"
  by (simp_all add: march_month_def)

lemma next_in_year:
  assumes "0 \<le> doy" "doy + 1 < (if leap (y + 1) then 366 else 365)"
  shows "march_date y (doy + 1) = next_day (march_date y doy)"
proof (cases "doy \<le> 363")
  case True
  obtain m d where md: "march_month doy = (m, d)" by force
  have "month_step doy" by (rule months_step[OF assms(1) True])
  then show ?thesis using md
    by (auto simp: month_step_def march_date_month next_day_def month_days_def split: if_splits)
next
  case False
  then have "doy = 364" "leap (y + 1)" using assms(2) by (auto split: if_splits)
  then show ?thesis by (simp add: march_date_month february next_day_def month_days_def)
qed

lemma next_year:
  assumes "doy + 1 = (if leap (y + 1) then 366 else 365)"
  shows "march_date (y + 1) 0 = next_day (march_date y doy)"
  using assms by (cases "leap (y + 1)") (simp_all add: march_date_month february next_day_def month_days_def)

lemma leap_era: "leap (y + era * 400 + 1) = leap (y + 1)"
proof -
  have "(y + era * 400 + 1) mod k = (y + 1) mod k" if k: "k dvd 400" for k
  proof -
    obtain j where "400 = k * j" using k by (elim dvdE)
    then have "y + era * 400 + 1 = (y + 1) + k * (j * era)" by (simp add: mult.commute)
    then show ?thesis by (simp only: mod_mult_self2)
  qed
  then show ?thesis by (simp add: leap_def)
qed

lemma civil_next: "civil_from_days (z + 1) = next_day (civil_from_days z)"
proof -
  obtain era y doy where at: "day_at z era y doy" using day_at_exists by blast
  let ?y = "y + era * 400"
  have days: "year_days y = (if leap (?y + 1) then 366 else 365)" by (simp add: year_days_def leap_era)
  consider (day) "doy + 1 < year_days y" | (year) "doy + 1 = year_days y" "y < 399" | (era) "doy + 1 = year_days y" "y = 399"
    using at by (fastforce simp: day_at_def)
  then show ?thesis
  proof cases
    case day
    then have "day_at (z + 1) era y (doy + 1)" using at by (simp add: day_at_def)
    then show ?thesis using civil_march[OF at] civil_march[of "z + 1" era y "doy + 1"] next_in_year[of doy ?y] day days at
      by (simp add: day_at_def)
  next
    case year
    then have "day_at (z + 1) era (y + 1) 0" using at year_step[of y] by (simp add: day_at_def year_days_def)
    then show ?thesis using civil_march[OF at] civil_march[of "z + 1" era "y + 1" 0] next_year[of doy ?y] year days
      by (simp add: algebra_simps)
  next
    case era
    have "year_start 399 + year_days 399 = 146097" "year_start 0 = 0" by (simp_all add: year_start_def year_days_def leap_def)
    then have "day_at (z + 1) (era + 1) 0 0" using at era by (simp add: day_at_def year_days_def)
    then show ?thesis using civil_march[OF at] civil_march[of "z + 1" "era + 1" 0 0] next_year[of doy ?y] era days
      by (simp add: algebra_simps)
  qed
qed

section \<open>Reading back\<close>

definition closed :: "string \<Rightarrow> bool" where
  "closed log \<longleftrightarrow> log = [] \<or> last log = LF"

lemma split_inclusive_at: "split_inclusive acc (a @ LF # b) = split_inclusive acc (a @ [LF]) @ split_inclusive [] b"
  by (induction a arbitrary: acc) auto

lemma str_lines_append: "closed log \<Longrightarrow> str_lines (log @ s) = str_lines log @ str_lines s"
proof -
  assume "closed log"
  then consider "log = []" | a where "log = a @ [LF]" unfolding closed_def by (metis append_butlast_last_id)
  then show ?thesis
  proof cases
    case 2
    then show ?thesis using split_inclusive_at[of "[]" a s] by (simp add: str_lines_def)
  qed (simp add: str_lines_def)
qed

lemma str_lines_one: "LF \<notin> set line \<Longrightarrow> str_lines (line @ [LF]) = [strip_newline (line @ [LF])]"
proof -
  have "LF \<notin> set line \<Longrightarrow> split_inclusive acc (line @ [LF]) = [acc @ line @ [LF]]" for acc
    by (induction line arbitrary: acc) auto
  then show "LF \<notin> set line \<Longrightarrow> ?thesis" by (simp add: str_lines_def)
qed

lemma trim_cr: "line \<noteq> [] \<Longrightarrow> last line = CR \<Longrightarrow> trim (butlast line) = trim line"
proof -
  assume cr: "line \<noteq> []" "last line = CR"
  obtain b where line: "line = b @ [CR]" using append_butlast_last_id[OF cr(1)] cr(2) by metis
  have ws: "is_ws CR" by (simp add: is_ws_def)
  have "trim_end (s @ [CR]) = trim_end s" for s using ws by (simp add: trim_end_def)
  moreover have "trim_start (b @ [CR]) = (if trim_start b = [] then [] else trim_start b @ [CR])"
    using ws by (induction b) (auto simp: trim_start_def)
  ultimately show ?thesis using line by (simp add: trim_def)
qed

lemma trim_line: "trim (strip_newline (line @ [LF])) = trim line"
  using trim_cr[of line] by (simp add: strip_newline_def Let_def)

lemma validate_append:
  "fst (validate_lines is_event parse (a @ b)) =
     fst (validate_lines is_event parse a) @ fst (validate_lines is_event parse b)"
  by (induction a) (auto split: prod.splits option.splits)

lemma read_append:
  "closed log \<Longrightarrow> fst (read_validated_raw_events is_event parse (log @ s)) =
     fst (read_validated_raw_events is_event parse log) @ fst (read_validated_raw_events is_event parse s)"
  by (simp add: read_validated_raw_events_def read_raw_lines_def str_lines_append validate_append)

text \<open>What JSON text of an object is: one line, nothing to trim, an event, and readable as JSON.\<close>

definition event_text :: "(string \<Rightarrow> bool) \<Rightarrow> (string \<Rightarrow> json option) \<Rightarrow> string \<Rightarrow> json \<Rightarrow> bool" where
  "event_text is_event parse line v \<longleftrightarrow>
     line \<noteq> [] \<and> LF \<notin> set line \<and> trim line = line \<and> is_event line \<and> parse line = Some v"

lemma read_event_text:
  "event_text is_event parse line v \<Longrightarrow> read_validated_raw_events is_event parse (line @ [LF]) = ([(line, v)], 0)"
  by (simp add: event_text_def read_validated_raw_events_def read_raw_lines_def str_lines_one trim_line)

section \<open>Properties\<close>

definition stamp :: "int \<times> int \<times> int \<Rightarrow> nat \<Rightarrow> string" where
  "stamp date sod = (case date of (year, month, day) \<Rightarrow>
     show_padded 4 (nat year) @ ''-'' @ show_padded 2 (nat month) @ ''-'' @ show_padded 2 (nat day) @ ''T''
     @ show_padded 2 (sod div 3600) @ '':'' @ show_padded 2 (sod mod 3600 div 60) @ '':'' @ show_padded 2 (sod mod 60) @ ''Z'')"

lemma civil_epoch: "civil_from_days 0 = (1970, 1, 1)"
  by code_simp

lemma civil_counts: "civil_from_days (int n) = (next_day ^^ n) (1970, 1, 1)"
proof (induction n)
  case 0
  show ?case by (simp add: civil_epoch)
next
  case (Suc n)
  then show ?case using civil_next[of "int n"] by (simp add: add.commute)
qed

text \<open>
  C34: The hand-written calendar is the Gregorian one: the day after any date is its next day, and
  a time stamp is January 1, 1970 advanced by its whole days, with the seconds of that day.
\<close>

theorem audit_dates_are_gregorian:
  "civil_from_days (z + 1) = next_day (civil_from_days z) \<and>
   format_timestamp secs = stamp ((next_day ^^ (secs div 86400)) (1970, 1, 1)) (secs mod 86400)"
proof -
  have "int secs div 86400 = int (secs div 86400)" "nat (int secs mod 86400) = secs mod 86400"
    by (simp_all add: zdiv_int nat_mod_distrib)
  then have "format_timestamp secs = stamp (civil_from_days (int (secs div 86400))) (secs mod 86400)"
    by (simp add: format_timestamp_def stamp_def Let_def)
  then show ?thesis using civil_next civil_counts by simp
qed

text \<open>
  An append never loses what the log held: however a write ends, the events before it are read
  back first and unchanged; and a whole append of a line of JSON is read back as itself, once,
  after them, and leaves the log ready for the next.
\<close>

theorem audit_log_keeps_events:
  assumes "closed log"
  shows "prefix (fst (read_validated_raw_events is_event parse log))
      (fst (read_validated_raw_events is_event parse (record_event encode outcome now event fields log))) \<and>
    (build_line encode now event fields = Some line \<and> event_text is_event parse line v \<longrightarrow>
       fst (read_validated_raw_events is_event parse (record_event encode AppendDone now event fields log))
         = fst (read_validated_raw_events is_event parse log) @ [(line, v)] \<and>
       closed (record_event encode AppendDone now event fields log))"
proof -
  have "\<exists>s. record_event encode outcome now event fields log = log @ s"
    by (auto simp: record_event_def append_line_def split: option.splits append_outcome.splits)
  then have "prefix (fst (read_validated_raw_events is_event parse log))
      (fst (read_validated_raw_events is_event parse (record_event encode outcome now event fields log)))"
    using read_append[OF assms] by auto
  then show ?thesis using read_append[OF assms] read_event_text[of is_event parse line v]
    by (simp add: record_event_def append_line_def closed_def)
qed

definition sample_line :: string where
  "sample_line = ''{e}''"

theorem audit_log_keeps_events_witness:
  "fst (read_validated_raw_events (\<lambda>l. hd l = CHR ''{'') (\<lambda>l. Some JNull)
     (record_event (\<lambda>_. Some sample_line) AppendDone 0 ''e'' JNull (''{old}'' @ [LF])))
   = [(''{old}'', JNull), (sample_line, JNull)]"
proof -
  have closed: "closed (''{old}'' @ [LF])" by (simp add: closed_def)
  have ws: "\<not> is_ws (CHR ''{'')" "\<not> is_ws (CHR ''}'')" by (simp_all add: is_ws_def)
  have "event_text (\<lambda>l. hd l = CHR ''{'') (\<lambda>l. Some JNull) sample_line JNull"
    "event_text (\<lambda>l. hd l = CHR ''{'') (\<lambda>l. Some JNull) ''{old}'' JNull"
    using ws by (simp_all add: event_text_def sample_line_def trim_def trim_start_def trim_end_def)
  moreover have "build_line (\<lambda>_. Some sample_line) 0 ''e'' JNull = Some sample_line" by (simp add: build_line_def)
  ultimately show ?thesis
    using audit_log_keeps_events[OF closed, of "\<lambda>l. hd l = CHR ''{''" "\<lambda>l. Some JNull" "\<lambda>_. Some sample_line" AppendDone 0
        "''e''" JNull sample_line JNull] read_event_text[of "\<lambda>l. hd l = CHR ''{''" "\<lambda>l. Some JNull" "''{old}''" JNull] by simp
qed

end
