(* ===== verification/Skill.thy ===== *)
theory Skill
  imports Local_Socket
begin

text \<open>
  Installing the embedded agent skill (\<open>src/src/cli/skill.rs\<close>): opening the target directory without
  following links, the marker that says a file is Sloosh's own, the status of an installation, and
  the installation that preserves what somebody else wrote. System calls are answers; SHA-256, JSON
  and the embedded text are fields of \<open>skill_env\<close>.
\<close>

subsection \<open>The target directory\<close>

datatype skill_error =
    CannotOpenDirectory | NotASkillDirectory | DirectoryOwner nat | DirectoryWritable | OutsideRoot | UnsafeComponent
  | CannotCreateDirectory | UnreadableFile | NotARegularFile | FileOwner nat | FileWritable | FileTooLarge
  | WriteFailed | LinkUnresolved | LinkParentMissing

datatype dir_answer = DirOpened metadata | DirAbsent | DirRefused

text \<open>Opening the root, then each component: the first answer, the creation, the answer after it.\<close>

record tree_answers =
  ta_root :: "path \<Rightarrow> metadata option"
  ta_open :: "path \<Rightarrow> dir_answer"
  ta_created :: "path \<Rightarrow> bool"
  ta_reopen :: "path \<Rightarrow> dir_answer"

definition validate_owned_directory :: "nat \<Rightarrow> metadata \<Rightarrow> skill_error + unit" where
  "validate_owned_directory euid m =
     (if \<not> md_dir m then Inl NotASkillDirectory
      else if md_uid m \<noteq> euid then Inl (DirectoryOwner (md_uid m))
      else if is_writable_by_others (md_mode m) then Inl DirectoryWritable
      else Inr ())"

definition open_component :: "tree_answers \<Rightarrow> bool \<Rightarrow> path \<Rightarrow> skill_error + metadata option" where
  "open_component T create p =
     (case ta_open T p of
        DirOpened m \<Rightarrow> Inr (Some m)
      | DirRefused \<Rightarrow> Inl CannotOpenDirectory
      | DirAbsent \<Rightarrow>
          if \<not> create then Inr None
          else if \<not> ta_created T p then Inl CannotCreateDirectory
          else (case ta_reopen T p of DirOpened m \<Rightarrow> Inr (Some m) | _ \<Rightarrow> Inl CannotOpenDirectory))"

text \<open>Whether the directory was opened; without \<open>create\<close> a missing component is no error.\<close>

fun open_components :: "nat \<Rightarrow> tree_answers \<Rightarrow> bool \<Rightarrow> path \<Rightarrow> path \<Rightarrow> skill_error + bool" where
  "open_components euid T create current [] = Inr True"
| "open_components euid T create current (name # names) =
     (if name = ''..'' then Inl UnsafeComponent
      else (case open_component T create (current @ [name]) of
              Inl e \<Rightarrow> Inl e
            | Inr None \<Rightarrow> Inr False
            | Inr (Some m) \<Rightarrow>
                (case validate_owned_directory euid m of
                   Inl e \<Rightarrow> Inl e
                 | Inr _ \<Rightarrow> open_components euid T create (current @ [name]) names)))"

record skill_target =
  st_root :: path
  st_directory :: path

definition open_target_directory :: "nat \<Rightarrow> tree_answers \<Rightarrow> skill_target \<Rightarrow> bool \<Rightarrow> skill_error + bool" where
  "open_target_directory euid T target create =
     (case ta_root T (st_root target) of
        None \<Rightarrow> Inl CannotOpenDirectory
      | Some m \<Rightarrow>
          (case validate_owned_directory euid m of
             Inl e \<Rightarrow> Inl e
           | Inr _ \<Rightarrow>
               if \<not> starts_with (st_directory target) (st_root target) then Inl OutsideRoot
               else open_components euid T create (st_root target)
                      (drop (length (st_root target)) (st_directory target))))"

subsection \<open>Files\<close>

record skill_file =
  sf_meta :: metadata
  sf_content :: bytes

datatype file_slot = NoFile | LinkOrError | FileAt skill_file

record skill_files =
  sk_skill :: file_slot
  sk_marker :: file_slot

record managed_marker =
  mm_schema :: nat
  mm_source :: string
  mm_version :: string
  mm_sha256 :: string

record skill_env =
  se_euid :: nat
  se_embedded :: bytes
  se_version :: string
  se_sha :: "bytes \<Rightarrow> string"
  se_encode :: "managed_marker \<Rightarrow> bytes"
  se_decode :: "bytes \<Rightarrow> managed_marker option"
  se_umask :: nat

definition MAX_MANAGED_FILE_BYTES :: nat where "MAX_MANAGED_FILE_BYTES = 1024 * 1024"

definition validate_owned_file :: "nat \<Rightarrow> metadata \<Rightarrow> skill_error + unit" where
  "validate_owned_file euid m =
     (if md_uid m \<noteq> euid then Inl (FileOwner (md_uid m))
      else if is_writable_by_others (md_mode m) then Inl FileWritable
      else Inr ())"

definition read_optional :: "nat \<Rightarrow> file_slot \<Rightarrow> skill_error + bytes option" where
  "read_optional euid slot = (case slot of
     NoFile \<Rightarrow> Inr None
   | LinkOrError \<Rightarrow> Inl UnreadableFile
   | FileAt f \<Rightarrow>
       if \<not> md_file (sf_meta f) then Inl NotARegularFile
       else (case validate_owned_file euid (sf_meta f) of
         Inl e \<Rightarrow> Inl e
       | Inr _ \<Rightarrow> if length (sf_content f) > MAX_MANAGED_FILE_BYTES then Inl FileTooLarge
                 else Inr (Some (sf_content f))))"

text \<open>
  How a write ends: before the file is in place, with it in place, or in place with an error after
  (removing the temporary name, syncing the directory).
\<close>

datatype write_outcome = WriteNothing | WriteDone | WriteDoneThenError

definition fresh_file :: "skill_env \<Rightarrow> bytes \<Rightarrow> skill_file" where
  "fresh_file E contents =
     \<lparr>sf_meta = \<lparr>md_symlink = False, md_file = True, md_dir = False, md_mode = 0x1A4 AND se_umask E, md_uid = se_euid E\<rparr>,
      sf_content = contents\<rparr>"

text \<open>Without \<open>replace\<close> the file is linked, which fails on an existing name.\<close>

definition atomic_write :: "skill_env \<Rightarrow> write_outcome \<Rightarrow> file_slot \<Rightarrow> bytes \<Rightarrow> bool \<Rightarrow> (skill_error + unit) \<times> file_slot" where
  "atomic_write E outcome slot contents replace =
     (if outcome = WriteNothing \<or> (\<not> replace \<and> slot \<noteq> NoFile) then (Inl WriteFailed, slot)
      else ((if outcome = WriteDone then Inr () else Inl WriteFailed), FileAt (fresh_file E contents)))"

definition parse_sloosh_marker :: "skill_env \<Rightarrow> bytes \<Rightarrow> managed_marker option" where
  "parse_sloosh_marker E raw = (case se_decode E raw of
     None \<Rightarrow> None | Some m \<Rightarrow> if mm_schema m = 1 \<and> mm_source m = ''sloosh'' then Some m else None)"

definition own_marker :: "skill_env \<Rightarrow> managed_marker" where
  "own_marker E = \<lparr>mm_schema = 1, mm_source = ''sloosh'', mm_version = se_version E,
                   mm_sha256 = se_sha E (se_embedded E)\<rparr>"

definition write_marker :: "skill_env \<Rightarrow> write_outcome \<Rightarrow> skill_files \<Rightarrow> (skill_error + unit) \<times> skill_files" where
  "write_marker E outcome F = (case read_optional (se_euid E) (sk_marker F) of
     Inl e \<Rightarrow> (Inl e, F)
   | Inr present \<Rightarrow>
       (case atomic_write E outcome (sk_marker F) (se_encode E (own_marker E) @ [LF]) (present \<noteq> None) of
          (r, slot) \<Rightarrow> (r, F\<lparr>sk_marker := slot\<rparr>)))"

subsection \<open>Status\<close>

datatype skill_status = SkillMissing | CurrentManaged | StatusExternalCurrent | UpgradeAvailable | SkillModified | SkillExternal

definition is_current :: "skill_status \<Rightarrow> bool" where
  "is_current s \<longleftrightarrow> s = CurrentManaged \<or> s = StatusExternalCurrent"

definition inspect_files :: "skill_env \<Rightarrow> skill_files \<Rightarrow> skill_error + skill_status" where
  "inspect_files E F = (case read_optional (se_euid E) (sk_skill F) of
     Inl e \<Rightarrow> Inl e
   | Inr None \<Rightarrow> Inr SkillMissing
   | Inr (Some skill) \<Rightarrow>
       (case read_optional (se_euid E) (sk_marker F) of
          Inl e \<Rightarrow> Inl e
        | Inr raw \<Rightarrow>
            (let marker = Option.bind raw (parse_sloosh_marker E) in
             if skill = se_embedded E
             then (case marker of
                     Some m \<Rightarrow> Inr (if mm_sha256 m = se_sha E skill then CurrentManaged else StatusExternalCurrent)
                   | None \<Rightarrow> Inr StatusExternalCurrent)
             else (case marker of
                     Some m \<Rightarrow> Inr (if mm_sha256 m = se_sha E skill then UpgradeAvailable else SkillModified)
                   | None \<Rightarrow> Inr SkillExternal))))"

text \<open>A link of the directory: its parent, where it resolves to, and what is there.\<close>

record link_answers =
  la_is_link :: bool
  la_parent :: tree_answers
  la_resolved :: "skill_target option"
  la_resolved_tree :: tree_answers
  la_resolved_files :: skill_files

definition inspect_directory ::
  "skill_env \<Rightarrow> tree_answers \<Rightarrow> skill_target \<Rightarrow> skill_files \<Rightarrow> skill_error + skill_status" where
  "inspect_directory E T target F = (case open_target_directory (se_euid E) T target False of
     Inl e \<Rightarrow> Inl e | Inr False \<Rightarrow> Inr SkillMissing | Inr True \<Rightarrow> inspect_files E F)"

definition inspect_target ::
  "skill_env \<Rightarrow> link_answers \<Rightarrow> tree_answers \<Rightarrow> skill_target \<Rightarrow> skill_files \<Rightarrow> skill_error + skill_status" where
  "inspect_target E L T target F =
     (if \<not> la_is_link L then inspect_directory E T target F
      else (case open_target_directory (se_euid E) (la_parent L)
                  (target\<lparr>st_directory := butlast (st_directory target)\<rparr>) False of
        Inl e \<Rightarrow> Inl e
      | Inr False \<Rightarrow> Inl LinkParentMissing
      | Inr True \<Rightarrow>
          (case la_resolved L of
             None \<Rightarrow> Inl LinkUnresolved
           | Some real_target \<Rightarrow> inspect_directory E (la_resolved_tree L) real_target (la_resolved_files L))))"

subsection \<open>Installation\<close>

datatype install_outcome =
    SkillInstalled | InstallCurrent | InstallCurrentExternal | SkillUpdated | PreservedExternal | PreservedModified

text \<open>Write the skill, then the marker.\<close>

definition write_skill ::
  "skill_env \<Rightarrow> (nat \<Rightarrow> write_outcome) \<Rightarrow> bool \<Rightarrow> install_outcome \<Rightarrow> skill_files
     \<Rightarrow> (skill_error + install_outcome) \<times> skill_files" where
  "write_skill E writes replace outcome F =
     (case atomic_write E (writes 0) (sk_skill F) (se_embedded E) replace of
        (Inl e, slot) \<Rightarrow> (Inl e, F\<lparr>sk_skill := slot\<rparr>)
      | (Inr _, slot) \<Rightarrow>
          (case write_marker E (writes 1) (F\<lparr>sk_skill := slot\<rparr>) of
             (Inl e, F) \<Rightarrow> (Inl e, F) | (Inr _, F) \<Rightarrow> (Inr outcome, F)))"

definition install_files ::
  "skill_env \<Rightarrow> (nat \<Rightarrow> write_outcome) \<Rightarrow> bool \<Rightarrow> skill_files \<Rightarrow> (skill_error + install_outcome) \<times> skill_files" where
  "install_files E writes force F = (case read_optional (se_euid E) (sk_skill F) of
     Inl e \<Rightarrow> (Inl e, F)
   | Inr None \<Rightarrow> write_skill E writes False SkillInstalled F
   | Inr (Some existing) \<Rightarrow>
       (case read_optional (se_euid E) (sk_marker F) of
          Inl e \<Rightarrow> (Inl e, F)
        | Inr raw \<Rightarrow>
            if existing = se_embedded E
            then (Inr (case Option.bind raw (parse_sloosh_marker E) of
                         Some m \<Rightarrow> if mm_sha256 m = se_sha E existing then InstallCurrent else InstallCurrentExternal
                       | None \<Rightarrow> InstallCurrentExternal), F)
            else if force then write_skill E writes True SkillUpdated F
            else (case Option.bind raw (parse_sloosh_marker E) of
                    None \<Rightarrow> (Inr PreservedExternal, F)
                  | Some m \<Rightarrow>
                      if mm_sha256 m = se_sha E existing then write_skill E writes True SkillUpdated F
                      else (Inr PreservedModified, F))))"

definition install_directory ::
  "skill_env \<Rightarrow> tree_answers \<Rightarrow> skill_target \<Rightarrow> (nat \<Rightarrow> write_outcome) \<Rightarrow> bool \<Rightarrow> skill_files
     \<Rightarrow> (skill_error + install_outcome) \<times> skill_files" where
  "install_directory E T target writes force F = (case open_target_directory (se_euid E) T target True of
     Inl e \<Rightarrow> (Inl e, F)
   | Inr _ \<Rightarrow> install_files E writes force F)"

definition install_target ::
  "skill_env \<Rightarrow> link_answers \<Rightarrow> tree_answers \<Rightarrow> skill_target \<Rightarrow> (nat \<Rightarrow> write_outcome) \<Rightarrow> bool \<Rightarrow> skill_files
     \<Rightarrow> (skill_error + install_outcome) \<times> skill_files" where
  "install_target E L T target writes force F =
     (if la_is_link L \<and> \<not> force
      then (case inspect_target E L T target F of
              Inl e \<Rightarrow> (Inl e, F)
            | Inr status \<Rightarrow> if is_current status then (Inr InstallCurrentExternal, F)
                           else install_directory E T target writes force F)
      else install_directory E T target writes force F)"

subsection \<open>Targets\<close>

datatype skill_agent = AgentCodex | AgentClaude | AgentAll | AgentAuto

definition codex_target :: "path \<Rightarrow> skill_target" where
  "codex_target home = \<lparr>st_root = home, st_directory = home @ [''.agents'', ''skills'', ''sloosh'']\<rparr>"

definition claude_target :: "path \<Rightarrow> skill_target" where
  "claude_target home = \<lparr>st_root = home, st_directory = home @ [''.claude'', ''skills'', ''sloosh'']\<rparr>"

definition resolve_targets_from_home :: "path \<Rightarrow> (path \<Rightarrow> bool) \<Rightarrow> skill_agent \<Rightarrow> skill_target list" where
  "resolve_targets_from_home home is_dir agent = (case agent of
     AgentCodex \<Rightarrow> [codex_target home]
   | AgentClaude \<Rightarrow> [claude_target home]
   | AgentAll \<Rightarrow> [codex_target home, claude_target home]
   | AgentAuto \<Rightarrow>
       (let targets =
          (if is_dir (home @ [''.agents'']) \<or> is_dir (home @ [''.codex'']) then [codex_target home] else [])
          @ (if is_dir (home @ [''.claude'']) then [claude_target home] else []) in
        if targets = [] then [codex_target home] else targets))"

section \<open>What an installation may change\<close>

definition own_directory :: "nat \<Rightarrow> metadata \<Rightarrow> bool" where
  "own_directory euid m \<longleftrightarrow> md_dir m \<and> md_uid m = euid \<and> \<not> is_writable_by_others (md_mode m)"

lemma validated_own: "validate_owned_directory euid m = Inr u \<longleftrightarrow> own_directory euid m"
  by (cases u) (auto simp: validate_owned_directory_def own_directory_def)

definition opened_own :: "nat \<Rightarrow> tree_answers \<Rightarrow> path \<Rightarrow> bool" where
  "opened_own euid T p \<longleftrightarrow> (\<exists>m. (ta_open T p = DirOpened m \<or>
      ta_open T p = DirAbsent \<and> ta_created T p \<and> ta_reopen T p = DirOpened m) \<and> own_directory euid m)"

lemma component_own:
  "\<lbrakk>open_component T create p = Inr (Some m); validate_owned_directory euid m = Inr u\<rbrakk> \<Longrightarrow> opened_own euid T p"
  by (auto simp: open_component_def opened_own_def validated_own split: dir_answer.splits if_splits)

lemma components_own:
  "open_components euid T create current names = Inr True \<Longrightarrow>
     ''..'' \<notin> set names \<and> (\<forall>n \<in> {1..length names}. opened_own euid T (current @ take n names))"
proof (induction names arbitrary: current)
  case Nil
  then show ?case by simp
next
  case (Cons name names)
  from Cons.prems obtain m where name: "name \<noteq> ''..''" and m: "open_component T create (current @ [name]) = Inr (Some m)"
    and own: "validate_owned_directory euid m = Inr ()"
    and rest: "open_components euid T create (current @ [name]) names = Inr True"
    by (auto split: if_splits sum.splits option.splits)
  have "opened_own euid T (current @ take n (name # names))" if n: "n \<in> {1..length (name # names)}" for n
  proof (cases "n = 1")
    case True
    then show ?thesis using component_own[OF m own] by simp
  next
    case False
    then obtain k where "n = Suc k" "k \<in> {1..length names}" using n by (cases n) auto
    then show ?thesis using Cons.IH[OF rest] by simp
  qed
  then show ?case using Cons.IH[OF rest] name by simp
qed

lemma directory_own:
  assumes "open_target_directory euid T target create = Inr True"
  shows "starts_with (st_directory target) (st_root target) \<and>
    (\<exists>m. ta_root T (st_root target) = Some m \<and> own_directory euid m) \<and>
    (\<forall>n \<in> {Suc (length (st_root target))..length (st_directory target)}. opened_own euid T (take n (st_directory target)))"
proof -
  let ?names = "drop (length (st_root target)) (st_directory target)"
  from assms obtain m where root: "ta_root T (st_root target) = Some m" "own_directory euid m"
    and starts: "starts_with (st_directory target) (st_root target)"
    and names: "open_components euid T create (st_root target) ?names = Inr True"
    by (auto simp: open_target_directory_def validated_own split: option.splits sum.splits if_splits)
  have split: "st_directory target = st_root target @ ?names"
    using starts by (metis append_take_drop_id starts_with_def)
  have "opened_own euid T (take n (st_directory target))"
    if "n \<in> {Suc (length (st_root target))..length (st_directory target)}" for n
  proof -
    have "n - length (st_root target) \<in> {1..length ?names}" using that by auto
    moreover have "take n (st_directory target) = st_root target @ take (n - length (st_root target)) ?names"
      using that by (subst split) simp
    ultimately show ?thesis using components_own[OF names] by simp
  qed
  then show ?thesis using root starts by blast
qed

lemma fresh_not_writable: "\<not> is_writable_by_others (0x1A4 AND x)"
proof -
  have "((0x1A4 :: nat) AND x) AND 0x12 = x AND (0x1A4 AND 0x12)"
    by (simp only: and.assoc and.commute and.left_commute)
  then show ?thesis by (simp add: is_writable_by_others_def)
qed

lemma skill_read_fresh:
  "length c \<le> MAX_MANAGED_FILE_BYTES \<Longrightarrow> read_optional (se_euid E) (FileAt (fresh_file E c)) = Inr (Some c)"
  by (simp add: read_optional_def fresh_file_def validate_owned_file_def fresh_not_writable)

text \<open>The own, unmodified skill of an earlier version.\<close>

definition unmodified :: "skill_env \<Rightarrow> skill_files \<Rightarrow> bool" where
  "unmodified E F \<longleftrightarrow> (\<exists>c raw m. read_optional (se_euid E) (sk_skill F) = Inr (Some c) \<and>
     read_optional (se_euid E) (sk_marker F) = Inr (Some raw) \<and> parse_sloosh_marker E raw = Some m \<and>
     mm_sha256 m = se_sha E c)"

lemma write_skill_slot:
  "write_skill E writes replace out F = (r, F') \<Longrightarrow>
     (sk_skill F' = sk_skill F \<or> sk_skill F' = FileAt (fresh_file E (se_embedded E))) \<and>
     (\<forall>x. r = Inr x \<longrightarrow> x = out \<and> sk_skill F' = FileAt (fresh_file E (se_embedded E)))"
  by (auto simp: write_skill_def atomic_write_def write_marker_def Let_def split: if_splits sum.splits prod.splits)

lemma write_skill_nothing:
  "\<lbrakk>write_skill E writes replace out F = (r, F'); sk_skill F' = sk_skill F;
    sk_skill F \<noteq> FileAt (fresh_file E (se_embedded E))\<rbrakk> \<Longrightarrow> F' = F"
  by (auto simp: write_skill_def atomic_write_def write_marker_def Let_def split: if_splits sum.splits prod.splits)

lemma install_files_cases:
  assumes "install_files E writes force F = (r, F')"
  shows "(F' = F \<and> r \<noteq> Inr SkillInstalled \<and> r \<noteq> Inr SkillUpdated) \<or>
    (\<exists>replace out. write_skill E writes replace out F = (r, F') \<and>
       (read_optional (se_euid E) (sk_skill F) = Inr None \<or> force \<or> unmodified E F))"
proof (cases "\<exists>c raw. read_optional (se_euid E) (sk_skill F) = Inr (Some c) \<and> c \<noteq> se_embedded E \<and>
    read_optional (se_euid E) (sk_marker F) = Inr raw")
  case True
  then obtain c raw where parts: "read_optional (se_euid E) (sk_skill F) = Inr (Some c)" "c \<noteq> se_embedded E"
    "read_optional (se_euid E) (sk_marker F) = Inr raw" by blast
  show ?thesis
  proof (cases "\<exists>m. Option.bind raw (parse_sloosh_marker E) = Some m \<and> mm_sha256 m = se_sha E c")
    case True
    then obtain x m where m: "raw = Some x" "parse_sloosh_marker E x = Some m" "mm_sha256 m = se_sha E c"
      by (auto simp: bind_eq_Some_conv)
    then have "unmodified E F" using parts unfolding unmodified_def by blast
    moreover have "write_skill E writes True SkillUpdated F = (r, F')"
      using assms parts m by (cases force) (simp_all add: install_files_def)
    ultimately show ?thesis by blast
  next
    case False
    then show ?thesis using assms parts
      by (cases force) (auto simp: install_files_def split: option.splits)
  qed
next
  case False
  then show ?thesis using assms
    by (auto simp: install_files_def split: sum.splits option.splits if_splits)
qed

lemma install_files_outcome:
  assumes "install_files E writes force F = (r, F')"
  shows "F' = F \<or> read_optional (se_euid E) (sk_skill F) = Inr None \<or> force \<or> unmodified E F"
    and "sk_skill F' = sk_skill F \<or> sk_skill F' = FileAt (fresh_file E (se_embedded E))"
    and "r = Inr SkillInstalled \<or> r = Inr SkillUpdated \<Longrightarrow> sk_skill F' = FileAt (fresh_file E (se_embedded E))"
  using install_files_cases[OF assms] write_skill_slot[of E writes _ _ F r F'] by blast+

fun announced :: "skill_status \<Rightarrow> install_outcome" where
  "announced SkillMissing = SkillInstalled"
| "announced CurrentManaged = InstallCurrent"
| "announced StatusExternalCurrent = InstallCurrentExternal"
| "announced UpgradeAvailable = SkillUpdated"
| "announced SkillModified = PreservedModified"
| "announced SkillExternal = PreservedExternal"

text \<open>What the libraries promise and a build of the program satisfies: JSON reads back, sizes fit.\<close>

definition skill_env_ok :: "skill_env \<Rightarrow> bool" where
  "skill_env_ok E \<longleftrightarrow> se_decode E (se_encode E (own_marker E) @ [LF]) = Some (own_marker E) \<and>
     length (se_encode E (own_marker E)) < MAX_MANAGED_FILE_BYTES \<and> length (se_embedded E) \<le> MAX_MANAGED_FILE_BYTES"

lemma written_skill_current:
  assumes "skill_env_ok E" "\<And>n. writes n = WriteDone" "replace \<or> sk_skill F = NoFile"
    and "read_optional (se_euid E) (sk_marker F) = Inr raw"
  shows "\<exists>F'. write_skill E writes replace out F = (Inr out, F') \<and> inspect_files E F' = Inr CurrentManaged"
proof -
  let ?m = "own_marker E"
  let ?slot = "FileAt (fresh_file E (se_encode E ?m @ [LF]))"
  have slot: "raw \<noteq> None \<or> sk_marker F = NoFile"
    using assms(4) by (auto simp: read_optional_def split: file_slot.splits if_splits sum.splits)
  have sizes: "length (se_encode E ?m @ [LF]) \<le> MAX_MANAGED_FILE_BYTES"
    using assms(1) by (auto simp: skill_env_ok_def Suc_le_eq)
  have run: "write_skill E writes replace out F
      = (Inr out, \<lparr>sk_skill = FileAt (fresh_file E (se_embedded E)), sk_marker = ?slot\<rparr>)"
    using assms(2,3,4) slot by (cases F) (auto simp: write_skill_def atomic_write_def write_marker_def Let_def)
  have "parse_sloosh_marker E (se_encode E ?m @ [LF]) = Some ?m"
    using assms(1) by (simp add: parse_sloosh_marker_def skill_env_ok_def own_marker_def)
  then have "inspect_files E \<lparr>sk_skill = FileAt (fresh_file E (se_embedded E)), sk_marker = ?slot\<rparr> = Inr CurrentManaged"
    using assms(1) sizes by (simp add: inspect_files_def skill_read_fresh skill_env_ok_def own_marker_def)
  then show ?thesis using run by blast
qed

lemma install_follows_status:
  assumes "skill_env_ok E" "\<And>n. writes n = WriteDone" "inspect_files E F = Inr s"
    and "read_optional (se_euid E) (sk_marker F) = Inr raw"
  shows "\<exists>F'. install_files E writes False F = (Inr (announced s), F') \<and>
     (if s = SkillMissing \<or> s = UpgradeAvailable then inspect_files E F' = Inr CurrentManaged else F' = F)"
proof (cases "read_optional (se_euid E) (sk_skill F)")
  case (Inl e)
  then show ?thesis using assms(3) by (simp add: inspect_files_def)
next
  case (Inr found)
  show ?thesis
  proof (cases found)
    case None
    then have none: "sk_skill F = NoFile" and s: "s = SkillMissing"
      using Inr assms(3) by (auto simp: read_optional_def inspect_files_def split: file_slot.splits if_splits sum.splits)
    show ?thesis using written_skill_current[where replace = False and out = SkillInstalled, OF assms(1,2) _ assms(4)] none s Inr None
      by (simp add: install_files_def)
  next
    case (Some c)
    note parts = Inr Some assms(4)
    show ?thesis
    proof (cases "c \<noteq> se_embedded E \<and> (\<exists>m. Option.bind raw (parse_sloosh_marker E) = Some m \<and> mm_sha256 m = se_sha E c)")
      case True
      then have "s = UpgradeAvailable" using assms(3) parts by (auto simp: inspect_files_def Let_def)
      then show ?thesis using written_skill_current[where replace = True and out = SkillUpdated, OF assms(1,2) _ assms(4)] True parts
        by (auto simp: install_files_def)
    next
      case False
      then show ?thesis using assms(3) parts
        by (auto simp: install_files_def inspect_files_def Let_def split: option.splits if_splits)
    qed
  qed
qed

lemma create_opens: "open_components euid T False current names = Inr True \<Longrightarrow> open_components euid T True current names = Inr True"
proof (induction names arbitrary: current)
  case (Cons name names)
  then show ?case
    by (auto simp: open_component_def split: if_splits sum.splits option.splits dir_answer.splits)
qed simp

lemma create_opens_or_fails: "open_components euid T True current names \<noteq> Inr False"
proof (induction names arbitrary: current)
  case (Cons name names)
  then show ?case
    by (auto simp: open_component_def split: if_splits sum.splits option.splits dir_answer.splits)
qed simp

lemma directory_create:
  "open_target_directory euid T target False = Inr True \<Longrightarrow> open_target_directory euid T target True = Inr True"
  by (auto simp: open_target_directory_def create_opens split: option.splits sum.splits if_splits)

lemma directory_create_opens: "open_target_directory euid T target True = Inr b \<Longrightarrow> b"
  using create_opens_or_fails by (cases b) (auto simp: open_target_directory_def split: option.splits sum.splits if_splits)

text \<open>
  An upgrade that fails between the skill and its marker leaves the new skill beside the old
  marker: the next version takes it for a local modification and keeps it, although nobody but
  Sloosh ever wrote it.
\<close>

lemma interrupted_upgrade_reads_as_modified:
  assumes "skill_env_ok E" "unmodified E F" "read_optional (se_euid E) (sk_skill F) = Inr (Some c)"
    and "c \<noteq> se_embedded E" "se_sha E c \<noteq> se_sha E (se_embedded E)" "e \<noteq> se_embedded E"
    and "writes 0 = WriteDone" "writes 1 = WriteNothing"
  shows "\<exists>F'. install_files E writes False F = (Inl WriteFailed, F') \<and>
     install_files (E\<lparr>se_embedded := e\<rparr>) later False F' = (Inr PreservedModified, F')"
proof -
  obtain raw m where marker: "read_optional (se_euid E) (sk_marker F) = Inr (Some raw)" "parse_sloosh_marker E raw = Some m"
    "mm_sha256 m = se_sha E c" using assms(2,3) by (auto simp: unmodified_def)
  let ?F = "F\<lparr>sk_skill := FileAt (fresh_file E (se_embedded E))\<rparr>"
  have one: "install_files E writes False F = (Inl WriteFailed, ?F)"
    using assms(3,4,7,8) marker
    by (simp add: install_files_def write_skill_def atomic_write_def write_marker_def Let_def)
  have "read_optional (se_euid E) (FileAt (fresh_file E (se_embedded E))) = Inr (Some (se_embedded E))"
    using assms(1) by (simp add: skill_read_fresh skill_env_ok_def)
  then have "install_files (E\<lparr>se_embedded := e\<rparr>) later False ?F = (Inr PreservedModified, ?F)"
    using assms(5,6) marker by (simp add: install_files_def parse_sloosh_marker_def)
  then show ?thesis using one by blast
qed

section \<open>Properties\<close>

text \<open>
  C37: Installing changes the target only where it is missing or Sloosh's own unmodified skill, or
  when forced; the skill it then holds is the embedded one or the one before; and whenever
  anything changed, every directory from the home down was opened without following a link, is
  owned by the user and writable by nobody else.
\<close>

theorem installing_keeps_others_work:
  assumes run: "install_target E L T target writes force F = (r, F')"
  shows "(F' = F \<or> read_optional (se_euid E) (sk_skill F) = Inr None \<or> unmodified E F \<or> force) \<and>
    (sk_skill F' = sk_skill F \<or> sk_skill F' = FileAt (fresh_file E (se_embedded E))) \<and>
    (r = Inr SkillInstalled \<or> r = Inr SkillUpdated \<longrightarrow> sk_skill F' = FileAt (fresh_file E (se_embedded E))) \<and>
    (F' \<noteq> F \<longrightarrow> (\<exists>m. ta_root T (st_root target) = Some m \<and> own_directory (se_euid E) m) \<and>
       starts_with (st_directory target) (st_root target) \<and>
       (\<forall>n \<in> {Suc (length (st_root target))..length (st_directory target)}. opened_own (se_euid E) T (take n (st_directory target))))"
proof (cases "\<exists>b. open_target_directory (se_euid E) T target True = Inr b \<and> install_files E writes force F = (r, F')")
  case True
  then obtain b where opened: "open_target_directory (se_euid E) T target True = Inr b"
    and files: "install_files E writes force F = (r, F')" by blast
  have "open_target_directory (se_euid E) T target True = Inr True" using opened directory_create_opens by auto
  from directory_own[OF this] show ?thesis using install_files_outcome[OF files] by blast
next
  case False
  then have "F' = F \<and> r \<noteq> Inr SkillInstalled \<and> r \<noteq> Inr SkillUpdated"
    using run by (auto simp: install_target_def install_directory_def split: if_splits sum.splits)
  then show ?thesis by blast
qed

definition sample_skill_env :: skill_env where
  "sample_skill_env = \<lparr>se_euid = 501, se_embedded = ''new'', se_version = ''2'', se_sha = id,
     se_encode = (\<lambda>m. mm_sha256 m),
     se_decode = (\<lambda>raw. Some \<lparr>mm_schema = 1, mm_source = ''sloosh'', mm_version = ''2'', mm_sha256 = butlast raw\<rparr>),
     se_umask = 0x1ED\<rparr>"

definition own_dir :: metadata where
  "own_dir = \<lparr>md_symlink = False, md_file = False, md_dir = True, md_mode = 0x1ED, md_uid = 501\<rparr>"

definition own_tree :: tree_answers where
  "own_tree = \<lparr>ta_root = (\<lambda>_. Some own_dir), ta_open = (\<lambda>_. DirOpened own_dir), ta_created = (\<lambda>_. False),
     ta_reopen = (\<lambda>_. DirRefused)\<rparr>"

definition not_linked :: link_answers where
  "not_linked = \<lparr>la_is_link = False, la_parent = own_tree, la_resolved = None, la_resolved_tree = own_tree,
     la_resolved_files = \<lparr>sk_skill = NoFile, sk_marker = NoFile\<rparr>\<rparr>"

definition foreign_skill :: skill_files where
  "foreign_skill = \<lparr>sk_skill = FileAt (fresh_file sample_skill_env ''mine''), sk_marker = NoFile\<rparr>"

lemma foreign_skill_read:
  "read_optional 501 (sk_skill foreign_skill) = Inr (Some ''mine'')" "read_optional 501 NoFile = Inr None"
  "se_euid sample_skill_env = 501"
  using skill_read_fresh[of "''mine''" sample_skill_env]
  by (simp_all add: foreign_skill_def MAX_MANAGED_FILE_BYTES_def sample_skill_env_def read_optional_def)

theorem installing_keeps_others_work_witness:
  "snd (install_target sample_skill_env not_linked own_tree (codex_target [''home'']) (\<lambda>_. WriteDone) False foreign_skill)
     = foreign_skill"
proof -
  obtain r F' where run: "install_target sample_skill_env not_linked own_tree (codex_target [''home'']) (\<lambda>_. WriteDone) False
      foreign_skill = (r, F')" by force
  have "\<not> unmodified sample_skill_env foreign_skill"
    by (simp add: unmodified_def foreign_skill_read) (simp add: foreign_skill_def foreign_skill_read)
  then show ?thesis using installing_keeps_others_work[OF run] run foreign_skill_read by auto
qed

text \<open>
  The installation does what the status announces: a missing or upgradable skill is written
  and then reported as current and managed, and every other state is reported under its name and
  left as it is.
\<close>

theorem install_does_what_status_says:
  assumes "skill_env_ok E" and "\<And>n. writes n = WriteDone" and "\<not> la_is_link L"
    and "open_target_directory (se_euid E) T target False = Inr True"
    and "inspect_target E L T target F = Inr s" and "read_optional (se_euid E) (sk_marker F) = Inr raw"
  shows "\<exists>F'. install_target E L T target writes False F = (Inr (announced s), F') \<and>
    (if s = SkillMissing \<or> s = UpgradeAvailable then inspect_target E L T target F' = Inr CurrentManaged else F' = F)"
proof -
  have files: "inspect_target E L T target G = inspect_files E G" for G
    using assms(3,4) by (simp add: inspect_target_def inspect_directory_def)
  have install: "install_target E L T target writes False F = install_files E writes False F"
    using assms(3) directory_create[OF assms(4)] by (simp add: install_target_def install_directory_def)
  have "inspect_files E F = Inr s" using assms(5) files by simp
  from install_follows_status[OF assms(1) assms(2) this assms(6)] show ?thesis by (simp only: files install)
qed

definition old_skill :: skill_files where
  "old_skill = \<lparr>sk_skill = FileAt (fresh_file sample_skill_env ''old''),
     sk_marker = FileAt (fresh_file sample_skill_env (''old'' @ [LF]))\<rparr>"

lemma sample_skill_ok: "skill_env_ok sample_skill_env"
  by (simp add: skill_env_ok_def sample_skill_env_def own_marker_def MAX_MANAGED_FILE_BYTES_def)

lemma old_skill_read:
  "read_optional 501 (sk_skill old_skill) = Inr (Some ''old'')"
  "read_optional 501 (sk_marker old_skill) = Inr (Some (''old'' @ [LF]))"
  using skill_read_fresh[of "''old''" sample_skill_env] skill_read_fresh[of "''old'' @ [LF]" sample_skill_env] foreign_skill_read(3)
  by (simp_all add: old_skill_def MAX_MANAGED_FILE_BYTES_def)

theorem install_does_what_status_says_witness:
  "\<exists>F'. install_target sample_skill_env not_linked own_tree (codex_target [''home'']) (\<lambda>_. WriteDone) False old_skill
       = (Inr SkillUpdated, F') \<and>
     inspect_target sample_skill_env not_linked own_tree (codex_target [''home'']) F' = Inr CurrentManaged"
proof -
  let ?T = "codex_target [''home'']"
  have own: "validate_owned_directory 501 own_dir = Inr ()"
    by (simp add: validate_owned_directory_def own_dir_def is_writable_by_others_def)
  have opened: "open_target_directory (se_euid sample_skill_env) own_tree ?T False = Inr True"
    using own by (simp add: open_target_directory_def own_tree_def codex_target_def starts_with_def
        open_component_def foreign_skill_read(3))
  have "parse_sloosh_marker sample_skill_env (''old'' @ [LF]) \<noteq> None"
    "map_option mm_sha256 (parse_sloosh_marker sample_skill_env (''old'' @ [LF])) = Some ''old''"
    "se_embedded sample_skill_env = ''new''" "se_sha sample_skill_env = id"
    by (simp_all add: parse_sloosh_marker_def sample_skill_env_def)
  then have "inspect_target sample_skill_env not_linked own_tree ?T old_skill = Inr UpgradeAvailable"
    using opened by (auto simp: inspect_target_def not_linked_def inspect_directory_def inspect_files_def
        foreign_skill_read(3) old_skill_read)
  then show ?thesis
    using install_does_what_status_says[of sample_skill_env "\<lambda>_. WriteDone" not_linked own_tree ?T old_skill
        UpgradeAvailable "Some (''old'' @ [LF])"] opened sample_skill_ok old_skill_read
    by (simp add: not_linked_def foreign_skill_read(3))
qed

end
