(* ===== verification/Desktop_Unlock.thy ===== *)
theory Desktop_Unlock
  imports Lease Settings
begin

text \<open>
  The desktop program's unlocked session (\<open>src/gui/src-tauri/src/desktop_unlock.rs\<close> and its callers in
  \<open>main.rs\<close>): the master password kept in memory under an idle and an absolute limit. The mutex makes
  each call one step; a failed \<open>assert!\<close> is \<open>None\<close>.
\<close>

definition DEFAULT_ABSOLUTE_TIMEOUT :: nat where "DEFAULT_ABSOLUTE_TIMEOUT = from_secs (8 * 60 * 60)"

datatype unlock_method = ByMasterPassword | ByTouchId | ByPin

datatype unlock_status = Locked | Unlocked unlock_method nat nat

record unlocked_credential =
  uc_password :: bytes
  uc_method :: unlock_method
  uc_unlocked_at :: instant
  uc_last_used_at :: instant

record desktop_session =
  ds_credential :: "unlocked_credential option"
  ds_idle :: nat
  ds_absolute :: nat

definition new_session :: "nat \<Rightarrow> nat \<Rightarrow> desktop_session option" where
  "new_session idle absolute =
     (if 0 < idle \<and> idle \<le> absolute then Some \<lparr>ds_credential = None, ds_idle = idle, ds_absolute = absolute\<rparr> else None)"

definition unlock_at :: "bytes \<Rightarrow> unlock_method \<Rightarrow> instant \<Rightarrow> desktop_session \<Rightarrow> desktop_session" where
  "unlock_at password how now s =
     s\<lparr>ds_credential := Some \<lparr>uc_password = password, uc_method = how, uc_unlocked_at = now, uc_last_used_at = now\<rparr>\<rparr>"

definition lock_session :: "desktop_session \<Rightarrow> desktop_session" where
  "lock_session s = s\<lparr>ds_credential := None\<rparr>"

definition is_expired_at :: "instant \<Rightarrow> desktop_session \<Rightarrow> bool" where
  "is_expired_at now s = (case ds_credential s of
     None \<Rightarrow> False
   | Some c \<Rightarrow> ds_idle s \<le> duration_since now (uc_last_used_at c) \<or> ds_absolute s \<le> duration_since now (uc_unlocked_at c))"

definition remaining_secs :: "instant \<Rightarrow> instant \<Rightarrow> nat" where
  "remaining_secs deadline now = as_secs (duration_since deadline now)"

definition status_at :: "instant \<Rightarrow> desktop_session \<Rightarrow> unlock_status \<times> desktop_session" where
  "status_at now s =
     (if is_expired_at now s then (Locked, lock_session s)
      else (case ds_credential s of
        None \<Rightarrow> (Locked, s)
      | Some c \<Rightarrow>
          (Unlocked (uc_method c) (remaining_secs (uc_last_used_at c + ds_idle s) now)
             (remaining_secs (uc_unlocked_at c + ds_absolute s) now), s)))"

text \<open>\<open>credential_at\<close>; \<open>touch\<close> is the same without the password.\<close>

definition credential_at :: "instant \<Rightarrow> desktop_session \<Rightarrow> bytes option \<times> desktop_session" where
  "credential_at now s =
     (if is_expired_at now s then (None, lock_session s)
      else (case ds_credential s of
        None \<Rightarrow> (None, s)
      | Some c \<Rightarrow> (Some (uc_password c), s\<lparr>ds_credential := Some (c\<lparr>uc_last_used_at := now\<rparr>)\<rparr>)))"

definition touch_at :: "instant \<Rightarrow> desktop_session \<Rightarrow> bool \<times> desktop_session" where
  "touch_at now s = (case credential_at now s of (r, s) \<Rightarrow> (r \<noteq> None, s))"

definition sync_idle_timeout :: "nat \<Rightarrow> desktop_session \<Rightarrow> desktop_session option" where
  "sync_idle_timeout idle s = (if 0 < idle \<and> idle \<le> ds_absolute s then Some (s\<lparr>ds_idle := idle\<rparr>) else None)"

definition set_idle_timeout_at :: "nat \<Rightarrow> instant \<Rightarrow> desktop_session \<Rightarrow> desktop_session option" where
  "set_idle_timeout_at idle now s =
     (if 0 < idle \<and> idle \<le> ds_absolute s
      then Some (if is_expired_at now s then lock_session (s\<lparr>ds_idle := idle\<rparr>)
                 else (case ds_credential s of
                   None \<Rightarrow> s\<lparr>ds_idle := idle\<rparr>
                 | Some c \<Rightarrow> s\<lparr>ds_idle := idle, ds_credential := Some (c\<lparr>uc_last_used_at := now\<rparr>)\<rparr>))
      else None)"

subsection \<open>The controller\<close>

definition configured_vault_timeout :: "settings_entry \<Rightarrow> nat" where
  "configured_vault_timeout e = (case load_timeout e of Inl _ \<Rightarrow> timeout_minimum | Inr minutes \<Rightarrow> minutes)"

definition unlock_snapshot :: "settings_entry \<Rightarrow> instant \<Rightarrow> desktop_session \<Rightarrow> (unlock_status \<times> desktop_session) option" where
  "unlock_snapshot e now s =
     map_option (status_at now) (sync_idle_timeout (timeout_duration (configured_vault_timeout e)) s)"

text \<open>
  An unlock command: the password a prompt, the helper or the PIN answered, accepted only if it
  opens the vault. \<open>initialize_vault\<close> unlocks with the password the daemon made the vault with, and
  sleep or a resigned session locks. No command changes a vault's password, so \<open>opens\<close> is fixed.
\<close>

definition unlock_command ::
  "(bytes \<Rightarrow> bool) \<Rightarrow> string + bytes \<Rightarrow> unlock_method \<Rightarrow> instant \<Rightarrow> desktop_session \<Rightarrow> bool \<times> desktop_session" where
  "unlock_command opens answer how now s = (case answer of
     Inl _ \<Rightarrow> (False, s)
   | Inr password \<Rightarrow> if opens password then (True, unlock_at password how now s) else (False, s))"

datatype desktop_call =
    UnlockCall "string + bytes" unlock_method
  | LockCall
  | CredentialCall
  | TouchCall
  | SnapshotCall settings_entry
  | SetTimeoutCall nat

text \<open>One call at a time; \<open>SetTimeoutCall\<close> takes the minutes of a supported timeout.\<close>

fun desktop_step :: "(bytes \<Rightarrow> bool) \<Rightarrow> instant \<Rightarrow> desktop_call \<Rightarrow> desktop_session \<Rightarrow> desktop_session option" where
  "desktop_step opens now (UnlockCall answer how) s = Some (snd (unlock_command opens answer how now s))"
| "desktop_step opens now LockCall s = Some (lock_session s)"
| "desktop_step opens now CredentialCall s = Some (snd (credential_at now s))"
| "desktop_step opens now TouchCall s = Some (snd (touch_at now s))"
| "desktop_step opens now (SnapshotCall e) s = map_option snd (unlock_snapshot e now s)"
| "desktop_step opens now (SetTimeoutCall minutes) s =
     (case try_timeout minutes of
        Inl _ \<Rightarrow> Some s | Inr m \<Rightarrow> set_idle_timeout_at (timeout_duration m) now s)"

text \<open>The session after timed calls, the last call first.\<close>

fun desktop_run :: "(bytes \<Rightarrow> bool) \<Rightarrow> desktop_session \<Rightarrow> (instant \<times> desktop_call) list \<Rightarrow> desktop_session option" where
  "desktop_run opens s [] = Some s"
| "desktop_run opens s ((now, call) # calls) = Option.bind (desktop_run opens s calls) (desktop_step opens now call)"

section \<open>Limits\<close>

lemma supported_timeouts:
  "minutes \<in> set SUPPORTED_TIMEOUT_MINUTES \<Longrightarrow>
     0 < timeout_duration minutes \<and> timeout_duration minutes \<le> DEFAULT_ABSOLUTE_TIMEOUT"
  by (auto simp: SUPPORTED_TIMEOUT_MINUTES_def timeout_duration_def DEFAULT_ABSOLUTE_TIMEOUT_def from_secs_def)

lemma configured_supported: "configured_vault_timeout e \<in> set SUPPORTED_TIMEOUT_MINUTES"
proof -
  have "timeout_minimum \<in> set SUPPORTED_TIMEOUT_MINUTES"
    by (simp add: timeout_minimum_def SUPPORTED_TIMEOUT_MINUTES_def)
  moreover have "load_timeout e = Inr m \<Longrightarrow> m \<in> set SUPPORTED_TIMEOUT_MINUTES" for m
    by (auto simp: load_timeout_def try_timeout_def split: sum.splits if_splits)
  ultimately show ?thesis by (auto simp: configured_vault_timeout_def split: sum.splits)
qed

text \<open>The unlocked credential lives by the two clocks of leases and of the automatic unlock.\<close>

definition desktop_live :: "nat \<Rightarrow> instant \<Rightarrow> unlocked_credential \<Rightarrow> bool" where
  "desktop_live idle now c \<longleftrightarrow>
     \<not> is_expired_at now \<lparr>ds_credential = Some c, ds_idle = idle, ds_absolute = DEFAULT_ABSOLUTE_TIMEOUT\<rparr>"

interpretation desktop_clock: two_clocks desktop_live uc_unlocked_at uc_last_used_at
  by unfold_locales (auto simp: desktop_live_def is_expired_at_def DEFAULT_ABSOLUTE_TIMEOUT_def MAX_LIFETIME_def)

definition session_limits :: "desktop_session \<Rightarrow> bool" where
  "session_limits s \<longleftrightarrow> ds_absolute s = DEFAULT_ABSOLUTE_TIMEOUT \<and> 0 < ds_idle s \<and> ds_idle s \<le> ds_absolute s"

lemma not_expired:
  assumes "session_limits s" "ds_credential s = Some c"
  shows "\<not> is_expired_at now s \<longleftrightarrow> now < uc_last_used_at c + ds_idle s \<and> now < uc_unlocked_at c + MAX_LIFETIME"
proof -
  have "\<not> is_expired_at now s \<longleftrightarrow> desktop_live (ds_idle s) now c"
    using assms by (simp add: desktop_live_def is_expired_at_def session_limits_def)
  moreover have "0 < ds_idle s" "0 < MAX_LIFETIME" using assms by (simp_all add: session_limits_def MAX_LIFETIME_def from_secs_def)
  ultimately show ?thesis by (auto simp: desktop_clock.live_iff duration_since_def)
qed

section \<open>What the calls alone say\<close>

text \<open>
  Functions of the calls, the last first, that say when a password may be handed out, without the
  session. A call that looks at the session finds it expired or not; all of these but a snapshot
  use it. \<open>limit_after\<close> is the idle limit the calls have set.
\<close>

definition accepted_timeout :: "nat \<Rightarrow> bool" where
  "accepted_timeout m \<longleftrightarrow> m \<in> set SUPPORTED_TIMEOUT_MINUTES"

fun uses_session :: "desktop_call \<Rightarrow> bool" where
  "uses_session CredentialCall = True"
| "uses_session TouchCall = True"
| "uses_session (SetTimeoutCall m) = accepted_timeout m"
| "uses_session _ = False"

fun relocks :: "(bytes \<Rightarrow> bool) \<Rightarrow> desktop_call \<Rightarrow> bool" where
  "relocks opens LockCall = True"
| "relocks opens (UnlockCall (Inr password) _) = opens password"
| "relocks opens _ = False"

fun limit_after :: "nat \<Rightarrow> (instant \<times> desktop_call) list \<Rightarrow> nat" where
  "limit_after first [] = first"
| "limit_after first ((_, SnapshotCall e) # calls) = timeout_duration (configured_vault_timeout e)"
| "limit_after first ((_, SetTimeoutCall m) # calls) = (if accepted_timeout m then timeout_duration m else limit_after first calls)"
| "limit_after first (_ # calls) = limit_after first calls"

fun last_use :: "instant \<Rightarrow> (instant \<times> desktop_call) list \<Rightarrow> instant" where
  "last_use unlocked [] = unlocked"
| "last_use unlocked ((now, call) # calls) = (if uses_session call then now else last_use unlocked calls)"

text \<open>
  \<open>in_time first t before later\<close>: each call of \<open>later\<close> that looked at the session unlocked at \<open>t\<close> did so
  within eight hours of it, and within the idle limit then in force of the last use before; for a
  snapshot that is the limit it has just taken over.
\<close>

fun in_time :: "nat \<Rightarrow> instant \<Rightarrow> (instant \<times> desktop_call) list \<Rightarrow> (instant \<times> desktop_call) list \<Rightarrow> bool" where
  "in_time first unlocked before [] = True"
| "in_time first unlocked before ((now, SnapshotCall e) # later) \<longleftrightarrow>
     now < last_use unlocked later + timeout_duration (configured_vault_timeout e) \<and>
     now < unlocked + from_secs (8 * 60 * 60) \<and> in_time first unlocked before later"
| "in_time first unlocked before ((now, call) # later) \<longleftrightarrow>
     (uses_session call \<longrightarrow> now < last_use unlocked later + limit_after first (later @ before) \<and>
        now < unlocked + from_secs (8 * 60 * 60)) \<and>
     in_time first unlocked before later"

text \<open>The last unlock was with this password at \<open>t\<close>, nothing has locked since, and the last use was at \<open>u\<close>.\<close>

definition unlocked_by :: "(bytes \<Rightarrow> bool) \<Rightarrow> nat \<Rightarrow> (instant \<times> desktop_call) list \<Rightarrow> bytes \<Rightarrow> instant \<Rightarrow> instant \<Rightarrow> bool" where
  "unlocked_by opens first calls password t u \<longleftrightarrow>
     (\<exists>later how earlier. calls = later @ (t, UnlockCall (Inr password) how) # earlier \<and> opens password \<and>
        (\<forall>(now, call) \<in> set later. \<not> relocks opens call) \<and> u = last_use t later \<and>
        in_time first t ((t, UnlockCall (Inr password) how) # earlier) later)"

lemma unlocked_by_Nil [simp]: "\<not> unlocked_by opens first [] password t u"
  by (simp add: unlocked_by_def)

lemma unlocked_by_Cons:
  "unlocked_by opens first ((now, call) # calls) password t u \<longleftrightarrow>
     (\<exists>how. call = UnlockCall (Inr password) how \<and> opens password \<and> t = now \<and> u = now) \<or>
     \<not> relocks opens call \<and> (\<exists>v. unlocked_by opens first calls password t v \<and>
        (case call of
           SnapshotCall e \<Rightarrow> u = v \<and> now < v + timeout_duration (configured_vault_timeout e) \<and> now < t + from_secs (8 * 60 * 60)
         | _ \<Rightarrow> if uses_session call then u = now \<and> now < v + limit_after first calls \<and> now < t + from_secs (8 * 60 * 60)
               else u = v))"
  (is "?all \<longleftrightarrow> ?first \<or> ?rest")
proof
  assume ?all
  then obtain later how earlier where split: "(now, call) # calls = later @ (t, UnlockCall (Inr password) how) # earlier"
    and ok: "opens password" "\<forall>(now, call) \<in> set later. \<not> relocks opens call" "u = last_use t later"
      "in_time first t ((t, UnlockCall (Inr password) how) # earlier) later"
    unfolding unlocked_by_def by blast
  show "?first \<or> ?rest"
  proof (cases later)
    case Nil
    with split ok show ?thesis by auto
  next
    case (Cons x rest)
    with split have x: "x = (now, call)" and calls: "calls = rest @ (t, UnlockCall (Inr password) how) # earlier" by auto
    have "in_time first t ((t, UnlockCall (Inr password) how) # earlier) rest" using ok(4) Cons x by (cases call) auto
    then have "unlocked_by opens first calls password t (last_use t rest)"
      using ok(1,2) Cons calls unfolding unlocked_by_def by auto
    moreover have "\<not> relocks opens call" using ok(2) Cons x by auto
    ultimately have ?rest using ok(3,4) Cons x calls by (cases call) (auto split: if_splits)
    then show ?thesis ..
  qed
next
  assume "?first \<or> ?rest"
  then show ?all
  proof
    assume ?first
    then obtain how where "call = UnlockCall (Inr password) how" "opens password" "t = now" "u = now" by blast
    then show ?all unfolding unlocked_by_def by (intro exI[of _ "[]"]) auto
  next
    assume ?rest
    then obtain v later how earlier where r: "\<not> relocks opens call"
      "calls = later @ (t, UnlockCall (Inr password) how) # earlier" "opens password"
      "\<forall>(now, call) \<in> set later. \<not> relocks opens call" "v = last_use t later"
      "in_time first t ((t, UnlockCall (Inr password) how) # earlier) later"
      "case call of
           SnapshotCall e \<Rightarrow> u = v \<and> now < v + timeout_duration (configured_vault_timeout e) \<and> now < t + from_secs (8 * 60 * 60)
         | _ \<Rightarrow> if uses_session call then u = now \<and> now < v + limit_after first calls \<and> now < t + from_secs (8 * 60 * 60)
               else u = v"
      unfolding unlocked_by_def by blast
    then have "in_time first t ((t, UnlockCall (Inr password) how) # earlier) ((now, call) # later) \<and> u = last_use t ((now, call) # later)"
      by (cases call) (auto split: if_splits)
    then show ?all using r(1-4) unfolding unlocked_by_def by (intro exI[of _ "(now, call) # later"]) auto
  qed
qed

text \<open>The session is what the calls say.\<close>

definition traced :: "(bytes \<Rightarrow> bool) \<Rightarrow> nat \<Rightarrow> (instant \<times> desktop_call) list \<Rightarrow> desktop_session \<Rightarrow> bool" where
  "traced opens first calls s \<longleftrightarrow> session_limits s \<and> ds_idle s = limit_after first calls \<and>
     (\<forall>password t u. unlocked_by opens first calls password t u \<longleftrightarrow>
        (\<exists>how. ds_credential s = Some \<lparr>uc_password = password, uc_method = how, uc_unlocked_at = t, uc_last_used_at = u\<rparr>))"

lemma tracedI:
  assumes "session_limits s" "ds_idle s = limit_after first calls"
    and "\<And>password t u. unlocked_by opens first calls password t u \<longleftrightarrow>
        (\<exists>c. ds_credential s = Some c \<and> uc_password c = password \<and> uc_unlocked_at c = t \<and> uc_last_used_at c = u)"
  shows "traced opens first calls s"
  using assms by (auto simp: traced_def) (metis unlocked_credential.surjective old.unit.exhaust)+

lemma tracedD:
  assumes "traced opens first calls s"
  shows "session_limits s" "ds_idle s = limit_after first calls"
    and "unlocked_by opens first calls password t u \<longleftrightarrow>
        (\<exists>c. ds_credential s = Some c \<and> uc_password c = password \<and> uc_unlocked_at c = t \<and> uc_last_used_at c = u)"
  using assms by (auto simp: traced_def) (metis unlocked_credential.surjective old.unit.exhaust)+

text \<open>
  A snapshot takes over the configured timeout before it looks at the clock: a session idle beyond
  its limit comes back when the configured limit has grown, while changing the limit in the
  program locks it first.
\<close>

lemma longer_timeout_revives_session:
  assumes "ds_credential s = Some c" "session_limits s" "ds_idle s \<le> duration_since now (uc_last_used_at c)"
    and "duration_since now (uc_last_used_at c) < timeout_duration (configured_vault_timeout e)"
    and "duration_since now (uc_unlocked_at c) < ds_absolute s"
  shows "is_expired_at now s" and "\<exists>m i a. map_option fst (unlock_snapshot e now s) = Some (Unlocked m i a)"
    and "map_option ds_credential (set_idle_timeout_at (timeout_duration (configured_vault_timeout e)) now s) = Some None"
proof -
  have t: "0 < timeout_duration (configured_vault_timeout e)" "timeout_duration (configured_vault_timeout e) \<le> ds_absolute s"
    using supported_timeouts[OF configured_supported] assms(2) by (simp_all add: session_limits_def)
  show "is_expired_at now s" using assms(1,3) by (simp add: is_expired_at_def)
  then show "map_option ds_credential (set_idle_timeout_at (timeout_duration (configured_vault_timeout e)) now s) = Some None"
    using t by (simp add: set_idle_timeout_at_def lock_session_def)
  show "\<exists>m i a. map_option fst (unlock_snapshot e now s) = Some (Unlocked m i a)"
    using assms(1,4,5) t by (simp add: unlock_snapshot_def sync_idle_timeout_def status_at_def is_expired_at_def)
qed


lemma looked_at:
  assumes "traced opens first calls s" "ds_credential s = Some c"
  shows "unlocked_by opens first calls (uc_password c) (uc_unlocked_at c) (uc_last_used_at c)"
    and "\<not> is_expired_at now s \<longleftrightarrow>
      now < uc_last_used_at c + limit_after first calls \<and> now < uc_unlocked_at c + from_secs (8 * 60 * 60)"
  using tracedD[OF assms(1)] assms(2) not_expired[of s c now] by (auto simp: MAX_LIFETIME_def)

lemma used_traced:
  assumes ok: "traced opens first calls s" and uses: "uses_session call"
    and idle: "limit_after first ((now, call) # calls) = idle" "0 < idle" "idle \<le> DEFAULT_ABSOLUTE_TIMEOUT"
  shows "traced opens first ((now, call) # calls)
     (if is_expired_at now s then lock_session (s\<lparr>ds_idle := idle\<rparr>)
      else case ds_credential s of None \<Rightarrow> s\<lparr>ds_idle := idle\<rparr>
        | Some c \<Rightarrow> s\<lparr>ds_idle := idle, ds_credential := Some (c\<lparr>uc_last_used_at := now\<rparr>)\<rparr>)" (is "traced _ _ _ ?s")
proof (rule tracedI)
  note known = tracedD[OF ok]
  show "session_limits ?s" using known(1) idle by (simp add: session_limits_def lock_session_def split: option.split)
  show "ds_idle ?s = limit_after first ((now, call) # calls)" using idle by (simp add: lock_session_def split: option.split)
  fix password t u
  have call: "\<not> relocks opens call" "call \<noteq> UnlockCall (Inr password) how" "call \<noteq> SnapshotCall e" for how e
    using uses by (cases call; auto)+
  have "unlocked_by opens first ((now, call) # calls) password t u \<longleftrightarrow>
      (\<exists>v. unlocked_by opens first calls password t v \<and> u = now \<and> now < v + limit_after first calls \<and> now < t + from_secs (8 * 60 * 60))"
    using uses by (cases call) (auto simp: unlocked_by_Cons)
  also have "\<dots> \<longleftrightarrow> (\<exists>c. ds_credential s = Some c \<and> uc_password c = password \<and> uc_unlocked_at c = t \<and> u = now \<and> \<not> is_expired_at now s)"
    using known(3) looked_at(2)[OF ok] by auto
  also have "\<dots> \<longleftrightarrow> (\<exists>c. ds_credential ?s = Some c \<and> uc_password c = password \<and> uc_unlocked_at c = t \<and> uc_last_used_at c = u)"
    by (auto simp: lock_session_def split: option.split)
  finally show "unlocked_by opens first ((now, call) # calls) password t u \<longleftrightarrow>
      (\<exists>c. ds_credential ?s = Some c \<and> uc_password c = password \<and> uc_unlocked_at c = t \<and> uc_last_used_at c = u)" .
qed

lemma unused_traced:
  assumes "traced opens first calls s" "\<not> uses_session call" "\<not> relocks opens call" "\<And>e. call \<noteq> SnapshotCall e"
  shows "traced opens first ((now, call) # calls) s"
proof (rule tracedI)
  note known = tracedD[OF assms(1)]
  show "session_limits s" by (rule known)
  show "ds_idle s = limit_after first ((now, call) # calls)" using assms(2,4) known(2) by (cases call) auto
  fix password t u
  have "unlocked_by opens first ((now, call) # calls) password t u \<longleftrightarrow> unlocked_by opens first calls password t u"
    using assms(2-4) by (cases call) (auto simp: unlocked_by_Cons)
  then show "unlocked_by opens first ((now, call) # calls) password t u \<longleftrightarrow>
      (\<exists>c. ds_credential s = Some c \<and> uc_password c = password \<and> uc_unlocked_at c = t \<and> uc_last_used_at c = u)"
    using known(3) by simp
qed

lemma unlock_traced:
  assumes "traced opens first calls s" "opens password"
  shows "traced opens first ((now, UnlockCall (Inr password) how) # calls) (unlock_at password how now s)"
proof (rule tracedI)
  note known = tracedD[OF assms(1)]
  show "session_limits (unlock_at password how now s)" using known(1) by (simp add: unlock_at_def session_limits_def)
  show "ds_idle (unlock_at password how now s) = limit_after first ((now, UnlockCall (Inr password) how) # calls)"
    using known(2) by (simp add: unlock_at_def)
qed (use assms(2) in \<open>auto simp: unlocked_by_Cons unlock_at_def\<close>)

lemma lock_traced: "traced opens first calls s \<Longrightarrow> traced opens first ((now, LockCall) # calls) (lock_session s)"
  by (rule tracedI) (auto simp: unlocked_by_Cons lock_session_def dest: tracedD(1,2) simp: session_limits_def)

lemma snapshot_traced:
  assumes ok: "traced opens first calls s"
  shows "\<exists>s'. desktop_step opens now (SnapshotCall e) s = Some s' \<and> traced opens first ((now, SnapshotCall e) # calls) s'"
proof -
  let ?idle = "timeout_duration (configured_vault_timeout e)"
  let ?t = "s\<lparr>ds_idle := ?idle\<rparr>"
  note known = tracedD[OF ok]
  have idle: "0 < ?idle" "?idle \<le> DEFAULT_ABSOLUTE_TIMEOUT" using supported_timeouts[OF configured_supported] by simp_all
  then have limits: "session_limits ?t" using known(1) by (simp add: session_limits_def)
  let ?s = "if is_expired_at now ?t then lock_session ?t else ?t"
  have step: "desktop_step opens now (SnapshotCall e) s = Some ?s"
    using idle known(1) by (auto simp: unlock_snapshot_def sync_idle_timeout_def status_at_def session_limits_def split: option.split)
  have "traced opens first ((now, SnapshotCall e) # calls) ?s"
  proof (rule tracedI)
    show "session_limits ?s" using limits by (simp add: lock_session_def session_limits_def)
    show "ds_idle ?s = limit_after first ((now, SnapshotCall e) # calls)" by (simp add: lock_session_def)
    fix password t u
    have live: "\<not> is_expired_at now ?t \<longleftrightarrow> now < uc_last_used_at c + ?idle \<and> now < uc_unlocked_at c + from_secs (8 * 60 * 60)"
      if "ds_credential s = Some c" for c
      using not_expired[OF limits, of c now] that by (simp add: MAX_LIFETIME_def)
    show "unlocked_by opens first ((now, SnapshotCall e) # calls) password t u \<longleftrightarrow>
        (\<exists>c. ds_credential ?s = Some c \<and> uc_password c = password \<and> uc_unlocked_at c = t \<and> uc_last_used_at c = u)"
      using known(3) live by (auto simp: unlocked_by_Cons lock_session_def)
  qed
  with step show ?thesis by blast
qed

lemma step_traced:
  assumes ok: "traced opens first calls s"
  shows "\<exists>s'. desktop_step opens now call s = Some s' \<and> traced opens first ((now, call) # calls) s'"
proof -
  note known = tracedD[OF ok]
  have idle: "0 < ds_idle s" "ds_idle s \<le> DEFAULT_ABSOLUTE_TIMEOUT" using known(1) by (simp_all add: session_limits_def)
  have keep: "s\<lparr>ds_idle := ds_idle s\<rparr> = s" "s\<lparr>ds_idle := ds_idle s, ds_credential := x\<rparr> = s\<lparr>ds_credential := x\<rparr>" for x by simp_all
  note used = used_traced[OF ok, of _ now "ds_idle s", unfolded keep]
  show ?thesis
  proof (cases call)
    case (UnlockCall answer how)
    show ?thesis
    proof (cases "\<exists>password. answer = Inr password \<and> opens password")
      case True
      with UnlockCall show ?thesis using unlock_traced[OF ok] by (auto simp: unlock_command_def)
    next
      case False
      with UnlockCall have "\<not> relocks opens call" by (cases answer) auto
      with UnlockCall unused_traced[OF ok, of call now] False show ?thesis by (cases answer) (auto simp: unlock_command_def)
    qed
  next
    case LockCall
    then show ?thesis using lock_traced[OF ok] by simp
  next
    case CredentialCall
    with used[of call] idle known(2) show ?thesis
      by (auto simp: credential_at_def split: option.splits if_splits)
  next
    case TouchCall
    with used[of call] idle known(2) show ?thesis
      by (auto simp: touch_at_def credential_at_def split: option.splits if_splits)
  next
    case (SnapshotCall e)
    then show ?thesis using snapshot_traced[OF ok] by simp
  next
    case (SetTimeoutCall m)
    show ?thesis
    proof (cases "accepted_timeout m")
      case True
      then have "try_timeout m = Inr m" "0 < timeout_duration m" "timeout_duration m \<le> DEFAULT_ABSOLUTE_TIMEOUT"
        using supported_timeouts[of m] by (simp_all add: accepted_timeout_def try_timeout_def)
      with used_traced[OF ok, of call now "timeout_duration m"] SetTimeoutCall True known(1) show ?thesis
        by (auto simp: set_idle_timeout_at_def session_limits_def split: option.splits if_splits)
    next
      case False
      with SetTimeoutCall unused_traced[OF ok, of call now] show ?thesis by (auto simp: accepted_timeout_def try_timeout_def)
    qed
  qed
qed

lemma run_traced:
  "traced opens first [] s \<Longrightarrow> \<exists>s'. desktop_run opens s calls = Some s' \<and> traced opens first calls s'"
proof (induction calls)
  case Nil
  then show ?case by simp
next
  case (Cons x calls)
  obtain now call where x: "x = (now, call)" by (cases x)
  from Cons obtain s' where "desktop_run opens s calls = Some s'" "traced opens first calls s'" by blast
  then show ?case using step_traced[of opens first calls s' now call] x by auto
qed

text \<open>
  C38: The desktop program hands out the master password exactly while it is unlocked, which is
  decided by the calls alone (none of which can panic): the last successful unlock gave this
  password, no lock followed it; every call since that looked at the session came within eight
  hours of the unlock, and within the idle limit then in force of the use before it, so that no
  call revives a session that has expired under its limit; and the same holds now. Looking at the
  status is no use. A status call has just taken over the configured limit when it looks, so a
  limit raised outside the program counts at once.
\<close>

theorem desktop_password_recently_unlocked:
  assumes "m \<in> set SUPPORTED_TIMEOUT_MINUTES" and "new_session (timeout_duration m) DEFAULT_ABSOLUTE_TIMEOUT = Some s0"
  shows "\<exists>s. desktop_run opens s0 calls = Some s \<and>
    (\<forall>password. fst (credential_at now s) = Some password \<longleftrightarrow>
       (\<exists>t u. unlocked_by opens (timeout_duration m) calls password t u \<and>
          now < t + from_secs (8 * 60 * 60) \<and> now < u + limit_after (timeout_duration m) calls))"
proof -
  have "traced opens (timeout_duration m) [] s0"
    using assms supported_timeouts[of m] by (auto simp: new_session_def traced_def session_limits_def split: if_splits)
  from run_traced[OF this] obtain s where run: "desktop_run opens s0 calls = Some s"
    and ok: "traced opens (timeout_duration m) calls s" by blast
  have "fst (credential_at now s) = Some password \<longleftrightarrow> (\<exists>c. ds_credential s = Some c \<and> uc_password c = password \<and> \<not> is_expired_at now s)"
    for password by (auto simp: credential_at_def split: option.split)
  with run show ?thesis using tracedD(3)[OF ok] looked_at(2)[OF ok] by auto
qed

text \<open>Unlocked at 0 with a quarter of an hour's limit, and used after fourteen minutes.\<close>

definition sample_calls :: "(instant \<times> desktop_call) list" where
  "sample_calls = [(from_secs 840, TouchCall), (0, UnlockCall (Inr ''pw'') ByPin)]"

theorem desktop_password_recently_unlocked_witness:
  "\<exists>s. desktop_run (\<lambda>p. p = ''pw'') \<lparr>ds_credential = None, ds_idle = timeout_duration 15, ds_absolute = DEFAULT_ABSOLUTE_TIMEOUT\<rparr>
       sample_calls = Some s \<and>
     fst (credential_at (from_secs 1500) s) = Some ''pw''"
proof -
  have new: "new_session (timeout_duration 15) DEFAULT_ABSOLUTE_TIMEOUT =
      Some \<lparr>ds_credential = None, ds_idle = timeout_duration 15, ds_absolute = DEFAULT_ABSOLUTE_TIMEOUT\<rparr>"
    by (simp add: new_session_def timeout_duration_def DEFAULT_ABSOLUTE_TIMEOUT_def from_secs_def)
  have "15 \<in> set SUPPORTED_TIMEOUT_MINUTES" by (simp add: SUPPORTED_TIMEOUT_MINUTES_def)
  moreover have "unlocked_by (\<lambda>p. p = ''pw'') (timeout_duration 15) sample_calls ''pw'' 0 (from_secs 840)"
    by (simp add: sample_calls_def unlocked_by_Cons timeout_duration_def from_secs_def)
  moreover have "from_secs 1500 < 0 + from_secs (8 * 60 * 60)" "from_secs 1500 < from_secs 840 + limit_after (timeout_duration 15) sample_calls"
    by (simp_all add: from_secs_def sample_calls_def timeout_duration_def)
  ultimately show ?thesis
    using desktop_password_recently_unlocked[OF _ new, of "\<lambda>p. p = ''pw''" sample_calls "from_secs 1500"] by blast
qed

end
