(* ===== verification/Utf8.thy ===== *)
theory Utf8
  imports Shape Text
begin

text \<open>
  Rust's \<open>str\<close> as the UTF-8 bytes it holds, for texts that come from outside and may hold any character:
  validation (\<open>str::from_utf8\<close>, \<open>read_to_string\<close>), lossy decoding, and the two functions on such a text
  that look at characters, \<open>trim\<close> and \<open>split_whitespace\<close>. A search for an ASCII character, slicing at one
  and comparison are the same on the bytes.
\<close>

function well_formed_utf8 :: "bytes \<Rightarrow> bool" where
  "well_formed_utf8 [] = True"
| "well_formed_utf8 (b # bs) =
     (let rest = utf8_width b - 1 in
      utf8_width b \<noteq> 0 \<and> rest \<le> length bs \<and> list_all is_cont (take rest bs)
      \<and> (rest \<noteq> 0 \<longrightarrow> second_ok b (hd bs)) \<and> well_formed_utf8 (drop rest bs))"
  by pat_completeness auto
termination by (relation "measure length") auto

definition decode_utf8 :: "bytes \<Rightarrow> string option" where
  "decode_utf8 bs = (if well_formed_utf8 bs then Some bs else None)"

text \<open>\<open>to_string_lossy\<close>: what \<open>utf8_next\<close> cannot decode becomes the bytes of U+FFFD.\<close>

function lossy :: "bytes \<Rightarrow> string" where
  "lossy [] = []"
| "lossy (b # bs) =
     (let (c, rest) = utf8_next b bs in
      (if c = REPLACEMENT then [CHR 0xEF, CHR 0xBF, CHR 0xBD] else take (length (b # bs) - length rest) (b # bs)) @ lossy rest)"
  by pat_completeness auto
termination by (relation "measure length") (auto simp: le_imp_less_Suc, metis le_imp_less_Suc snd_conv utf8_next_len)

text \<open>\<open>str::chars\<close>, each character as its bytes, and \<open>char::is_whitespace\<close>.\<close>

function utf8_chars :: "bytes \<Rightarrow> bytes list" where
  "utf8_chars [] = []"
| "utf8_chars (b # bs) = (let rest = utf8_width b - 1 in (b # take rest bs) # utf8_chars (drop rest bs))"
  by pat_completeness auto
termination by (relation "measure length") auto

definition white_space :: "bytes \<Rightarrow> bool" where
  "white_space c \<longleftrightarrow> map of_char c \<in> set (map (\<lambda>n. [n]) [9, 10, 11, 12, 13, 32]
     @ [[0xC2, 0x85], [0xC2, 0xA0], [0xE1, 0x9A, 0x80], [0xE2, 0x80, 0xA8], [0xE2, 0x80, 0xA9], [0xE2, 0x80, 0xAF],
        [0xE2, 0x81, 0x9F], [0xE3, 0x80, 0x80]]
     @ map (\<lambda>n. [0xE2, 0x80, 0x80 + n]) [0..<(11 :: nat)])"

definition utf8_trim :: "bytes \<Rightarrow> bytes" where
  "utf8_trim bs = concat (rev (dropWhile white_space (rev (dropWhile white_space (utf8_chars bs)))))"

fun words_from :: "bytes \<Rightarrow> bytes list \<Rightarrow> bytes list" where
  "words_from tok [] = (if tok = [] then [] else [tok])"
| "words_from tok (c # cs) =
     (if white_space c then (if tok = [] then words_from [] cs else tok # words_from [] cs)
      else words_from (tok @ c) cs)"

definition utf8_words :: "bytes \<Rightarrow> bytes list" where
  "utf8_words bs = words_from [] (utf8_chars bs)"

section \<open>ASCII\<close>

abbreviation ascii :: "bytes \<Rightarrow> bool" where "ascii bs \<equiv> list_all (\<lambda>b. code b < 128) bs"

lemma width_ascii [simp]: "code b < 128 \<Longrightarrow> utf8_width b = 1"
  by (simp add: utf8_width_def)

lemma ascii_not_cont: "code b < 128 \<Longrightarrow> \<not> is_cont b"
  by (simp add: is_cont_def)

text \<open>An ASCII byte is a character of its own: what stands before and behind it is valid on its own.\<close>

lemma well_formed_around_ascii:
  "code d < 128 \<Longrightarrow> well_formed_utf8 (s @ d # t) \<longleftrightarrow> well_formed_utf8 s \<and> well_formed_utf8 t"
proof (induction s rule: well_formed_utf8.induct)
  case (2 b bs)
  let ?n = "utf8_width b - 1"
  show ?case
  proof (cases "?n \<le> length bs")
    case True
    then have at: "take ?n (bs @ d # t) = take ?n bs" "drop ?n (bs @ d # t) = drop ?n bs @ d # t" by simp_all
    have "?n \<noteq> 0 \<Longrightarrow> hd (bs @ d # t) = hd bs" using True by (cases bs) auto
    moreover have "well_formed_utf8 (drop ?n bs @ d # t) \<longleftrightarrow> well_formed_utf8 (drop ?n bs) \<and> well_formed_utf8 t"
      using 2 by simp
    ultimately show ?thesis using True at by (cases "?n = 0") (simp_all add: Let_def)
  next
    case False
    then obtain k where "?n - length bs = Suc k" by (metis not_less_eq_eq Suc_diff_Suc not_le diff_is_0_eq not0_implies_Suc)
    with False 2(2) show ?thesis by (simp add: Let_def ascii_not_cont)
  qed
qed (simp add: Let_def)

lemma ascii_well_formed: "ascii s \<Longrightarrow> well_formed_utf8 (s @ t) \<longleftrightarrow> well_formed_utf8 t"
  by (induction s) (auto simp: Let_def)

lemma chars_ascii: "ascii s \<Longrightarrow> utf8_chars s = map (\<lambda>c. [c]) s"
  by (induction s) (auto simp: Let_def)

lemma white_ascii: "code c < 128 \<Longrightarrow> white_space [c] \<longleftrightarrow> is_ws c"
  by (auto simp: white_space_def is_ws_def)

lemma words_ascii: "ascii s \<Longrightarrow> utf8_words s = split_whitespace s"
proof -
  have "ascii s \<Longrightarrow> words_from tok (map (\<lambda>c. [c]) s) = split_ws_from tok s" for tok
    by (induction tok s rule: split_ws_from.induct) (auto simp: white_ascii)
  then show "ascii s \<Longrightarrow> utf8_words s = split_whitespace s"
    by (simp add: utf8_words_def split_whitespace_def chars_ascii)
qed

lemma lossy_ascii: "ascii s \<Longrightarrow> lossy s = s"
  by (induction s) (auto simp: utf8_next_def REPLACEMENT_def)

lemma trim_ascii: "ascii s \<Longrightarrow> utf8_trim s = trim s"
proof -
  have drop: "ascii s \<Longrightarrow> dropWhile white_space (map (\<lambda>c. [c]) s) = map (\<lambda>c. [c]) (dropWhile is_ws s)" for s
    by (induction s) (auto simp: white_ascii)
  have kept: "ascii s \<Longrightarrow> ascii (rev (dropWhile is_ws s))" for s
    by (auto simp: list_all_iff dest: set_dropWhileD)
  have flat: "concat (map (\<lambda>c. [c]) s) = s" for s :: bytes by (induction s) auto
  assume "ascii s"
  then show ?thesis
    using drop[OF kept[of s]] by (simp add: utf8_trim_def chars_ascii drop trim_def trim_start_def trim_end_def rev_map flat)
qed

end
