(* ===== verification/Proc_Tables.thy ===== *)
theory Proc_Tables
  imports Lease Known_Hosts Utf8 "HOL-Library.Word"
begin

text \<open>
  Where the process table of an ancestry walk comes from: \<open>src/src/procs/linux.rs\<close> reads
  \<open>/proc/<pid>/stat\<close>, \<open>src/src/procs/macos.rs\<close> the bytes of \<open>sysctl\<close>. What the kernel answers is the
  record \<open>proc_files\<close> or \<open>sysctls\<close> (\<open>None\<close> is an error); \<open>limit\<close> is the latest representable
  \<open>SystemTime\<close> in nanoseconds. Texts here are the UTF-8 bytes of the Rust strings.
\<close>

section \<open>Paths\<close>

text \<open>\<open>Path::file_name\<close>: the last normal component.\<close>

definition path_file_name :: "string \<Rightarrow> string option" where
  "path_file_name p =
     (let cs = filter (\<lambda>c. c \<noteq> [] \<and> c \<noteq> ''.'') (split_on CHR ''/'' p) in
      if cs = [] \<or> last cs = ''..'' then None else Some (last cs))"

section \<open>Linux\<close>

record proc_files =
  pf_stat :: "nat \<Rightarrow> bytes option"
  pf_exe :: "nat \<Rightarrow> bytes option"
  pf_cmdline :: "nat \<Rightarrow> bytes option"
  pf_boot_stat :: "bytes option"
  pf_clk_tck :: int

definition clock_ticks_per_sec :: "proc_files \<Rightarrow> nat" where
  "clock_ticks_per_sec F = (if 0 < pf_clk_tck F then nat (pf_clk_tck F) else 100)"

fun btime_line :: "nat \<Rightarrow> string list \<Rightarrow> nat option" where
  "btime_line limit [] = None"
| "btime_line limit (l # ls) =
     (case strip_prefix ''btime '' l of
        None \<Rightarrow> btime_line limit ls
      | Some rest \<Rightarrow>
          (case parse_bounded u64_max (utf8_trim rest) of
             None \<Rightarrow> None
           | Some secs \<Rightarrow> if from_secs secs \<le> limit then Some (from_secs secs) else None))"

definition boot_time :: "nat \<Rightarrow> proc_files \<Rightarrow> nat option" where
  "boot_time limit F =
     Option.bind (Option.bind (pf_boot_stat F) decode_utf8) (\<lambda>contents. btime_line limit (str_lines contents))"

text \<open>
  The texts before the first \<open>(\<close> and the last \<open>)\<close> stand for their positions; the byte after \<open>)\<close> is
  skipped, and a longer character there makes \<open>get\<close> fail.
\<close>

definition parse_stat_contents :: "string \<Rightarrow> (string \<times> nat \<times> nat) option" where
  "parse_stat_contents contents =
     (case (split_once CHR ''('' contents, rsplit_once CHR '')'' contents) of
        (Some (before_open, _), Some (before_close, behind)) \<Rightarrow>
          if length before_close \<le> length before_open then None
          else (case behind of
            [] \<Rightarrow> None
          | c # rest \<Rightarrow>
              if code c \<ge> 128 then None
              else
                let comm = drop (length before_open + 1) before_close;
                    fields = utf8_words rest
                in if length fields \<le> 19 then None
                   else (case (parse_bounded (2 ^ 32 - 1) (fields ! 1), parse_bounded u64_max (fields ! 19)) of
                     (Some ppid, Some starttime_ticks) \<Rightarrow> Some (comm, ppid, starttime_ticks)
                   | _ \<Rightarrow> None))
      | _ \<Rightarrow> None)"

record stat_fields =
  sf_ppid :: nat
  sf_start_time :: nat
  sf_comm :: string

definition parse_stat :: "nat \<Rightarrow> proc_files \<Rightarrow> nat \<Rightarrow> stat_fields option" where
  "parse_stat limit F pid =
     (case Option.bind (Option.bind (pf_stat F pid) decode_utf8) parse_stat_contents of
        None \<Rightarrow> None
      | Some (comm, ppid, starttime_ticks) \<Rightarrow>
          (case boot_time limit F of
             None \<Rightarrow> None
           | Some boot \<Rightarrow>
               map_option (\<lambda>start. \<lparr>sf_ppid = ppid, sf_start_time = start, sf_comm = comm\<rparr>)
                 (system_time_from_ticks limit boot starttime_ticks (clock_ticks_per_sec F))))"

definition linux_exe_path :: "proc_files \<Rightarrow> nat \<Rightarrow> string option" where
  "linux_exe_path F pid = Option.bind (pf_exe F pid) (\<lambda>target. map_option lossy (path_file_name target))"

definition linux_argv0 :: "proc_files \<Rightarrow> nat \<Rightarrow> string option" where
  "linux_argv0 F pid =
     (case pf_cmdline F pid of
        None \<Rightarrow> None
      | Some cmdline \<Rightarrow>
          let arg = takeWhile (\<lambda>b. b \<noteq> CHR 0x00) cmdline in
          if arg = [] then None else map_option lossy (path_file_name (lossy arg)))"

definition linux_table :: "nat \<Rightarrow> proc_files \<Rightarrow> process_table" where
  "linux_table limit F =
     \<lparr>pt_parent = (\<lambda>pid. map_option sf_ppid (parse_stat limit F pid)),
      pt_start = (\<lambda>pid. map_option sf_start_time (parse_stat limit F pid)),
      pt_comm = (\<lambda>pid. map_option sf_comm (parse_stat limit F pid)),
      pt_exe_path = linux_exe_path F, pt_argv0 = linux_argv0 F\<rparr>"

section \<open>macOS\<close>

definition KINFO_PROC_SIZE :: nat where "KINFO_PROC_SIZE = 648"
definition OFFSET_P_STARTTIME :: nat where "OFFSET_P_STARTTIME = 0"
definition OFFSET_P_STARTTIME_USEC :: nat where "OFFSET_P_STARTTIME_USEC = OFFSET_P_STARTTIME + 8"
definition OFFSET_P_PID :: nat where "OFFSET_P_PID = 40"
definition OFFSET_P_COMM :: nat where "OFFSET_P_COMM = 243"
definition COMM_LEN :: nat where "COMM_LEN = 17"
definition OFFSET_E_PPID :: nat where "OFFSET_E_PPID = 560"

text \<open>
  The bytes the calls wrote; \<open>sc_argmax\<close> bounds those of \<open>KERN_PROCARGS2\<close>. Both architectures are
  little-endian.
\<close>

record sysctls =
  sc_proc :: "nat \<Rightarrow> bytes option"
  sc_pidpath :: "nat \<Rightarrow> bytes option"
  sc_argmax :: "int option"
  sc_procargs :: "nat \<Rightarrow> bytes option"

primrec from_le :: "bytes \<Rightarrow> nat" where
  "from_le [] = 0"
| "from_le (b # bs) = code b + 256 * from_le bs"

definition slice :: "nat \<Rightarrow> nat \<Rightarrow> bytes \<Rightarrow> bytes" where
  "slice off n buf = take n (drop off buf)"

definition i32_at :: "nat \<Rightarrow> bytes \<Rightarrow> int" where
  "i32_at off buf = sint (word_of_nat (from_le (slice off 4 buf)) :: 32 word)"

definition i64_at :: "nat \<Rightarrow> bytes \<Rightarrow> int" where
  "i64_at off buf = sint (word_of_nat (from_le (slice off 8 buf)) :: 64 word)"

definition system_time_from_timeval :: "nat \<Rightarrow> int \<Rightarrow> int \<Rightarrow> nat option" where
  "system_time_from_timeval limit tv_sec tv_usec =
     (if tv_sec < 0 \<or> \<not> (0 \<le> tv_usec \<and> tv_usec < 1000000) then None
      else if from_secs (nat tv_sec) > limit then None
      else let t = from_secs (nat tv_sec) + nat tv_usec * 1000 in if t > limit then None else Some t)"

definition start_time_from_kinfo_bytes :: "nat \<Rightarrow> bytes \<Rightarrow> nat option" where
  "start_time_from_kinfo_bytes limit buf =
     (if length buf < OFFSET_P_STARTTIME_USEC + 4 then None
      else system_time_from_timeval limit (i64_at OFFSET_P_STARTTIME buf) (i32_at OFFSET_P_STARTTIME_USEC buf))"

record raw_proc =
  rp_ppid :: nat
  rp_start_time :: nat
  rp_comm :: "string option"

text \<open>The buffer has room for exactly \<open>KINFO_PROC_SIZE\<close> bytes, so a full answer has that length.\<close>

definition query :: "nat \<Rightarrow> sysctls \<Rightarrow> nat \<Rightarrow> raw_proc option" where
  "query limit S pid =
     (case sc_proc S pid of
        None \<Rightarrow> None
      | Some buf \<Rightarrow>
          if length buf < KINFO_PROC_SIZE then None
          else if i32_at OFFSET_P_PID buf \<noteq> sint (word_of_nat pid :: 32 word) then None
          else (case start_time_from_kinfo_bytes limit buf of
            None \<Rightarrow> None
          | Some start \<Rightarrow>
              let ppid = i32_at OFFSET_E_PPID buf;
                  comm_bytes = slice OFFSET_P_COMM COMM_LEN buf
              in if ppid < 0 then None
                 else Some \<lparr>rp_ppid = nat ppid, rp_start_time = start,
                        rp_comm = decode_utf8 (takeWhile (\<lambda>b. b \<noteq> CHR 0x00) comm_bytes)\<rparr>))"

definition exe_path :: "sysctls \<Rightarrow> nat \<Rightarrow> string option" where
  "exe_path S pid = (case sc_pidpath S pid of
     None \<Rightarrow> None | Some buf \<Rightarrow> if buf = [] then None else decode_utf8 buf)"

definition argv0 :: "sysctls \<Rightarrow> nat \<Rightarrow> string option" where
  "argv0 S pid =
     (case sc_argmax S of
        None \<Rightarrow> None
      | Some argmax \<Rightarrow>
          if argmax \<le> 0 then None
          else (case sc_procargs S pid of
            None \<Rightarrow> None
          | Some buf \<Rightarrow>
              if length buf < 4 then None
              else
                let after_path = dropWhile (\<lambda>b. b \<noteq> CHR 0x00) (drop 4 buf);
                    arg = takeWhile (\<lambda>b. b \<noteq> CHR 0x00) (dropWhile (\<lambda>b. b = CHR 0x00) after_path)
                in if arg = [] then None else decode_utf8 arg))"

definition macos_table :: "nat \<Rightarrow> sysctls \<Rightarrow> process_table" where
  "macos_table limit S =
     \<lparr>pt_parent = (\<lambda>pid. map_option rp_ppid (query limit S pid)),
      pt_start = (\<lambda>pid. map_option rp_start_time (query limit S pid)),
      pt_comm = (\<lambda>pid. Option.bind (query limit S pid) rp_comm),
      pt_exe_path = (\<lambda>pid. Option.bind (exe_path S pid) path_file_name),
      pt_argv0 = (\<lambda>pid. Option.bind (argv0 S pid) path_file_name)\<rparr>"

section \<open>What the kernel writes\<close>

text \<open>
  A process as the kernel has it, and its \<open>stat\<close> line (\<open>proc(5)\<close>): the name, any bytes, stands in
  parentheses as the process set it; \<open>kp_fields\<close> are fields 5 to 21, \<open>kp_tail\<close> those after the start time.
\<close>

record kernel_process =
  kp_comm :: bytes
  kp_state :: string
  kp_ppid :: nat
  kp_fields :: "string list"
  kp_start :: nat
  kp_tail :: "string list"

definition plain_field :: "string \<Rightarrow> bool" where
  "plain_field t \<longleftrightarrow> t \<noteq> [] \<and> list_all (\<lambda>c. \<not> is_ws c \<and> c \<noteq> CHR '')'' \<and> code c < 128) t"

definition stat_values :: "kernel_process \<Rightarrow> string list" where
  "stat_values k = kp_state k # show_nat (kp_ppid k) # kp_fields k @ show_nat (kp_start k) # kp_tail k"

definition kernel_process_ok :: "kernel_process \<Rightarrow> bool" where
  "kernel_process_ok k \<longleftrightarrow> plain_field (kp_state k) \<and> list_all plain_field (kp_fields k) \<and> list_all plain_field (kp_tail k)
     \<and> length (kp_fields k) = 17 \<and> kp_ppid k < 2 ^ 32 \<and> kp_start k \<le> u64_max"

definition stat_line :: "nat \<Rightarrow> kernel_process \<Rightarrow> bytes" where
  "stat_line pid k = show_nat pid @ '' ('' @ kp_comm k @ '') '' @ join_with '' '' (stat_values k) @ [LF]"

definition shows_processes :: "(nat \<Rightarrow> kernel_process option) \<Rightarrow> proc_files \<Rightarrow> bool" where
  "shows_processes K F \<longleftrightarrow> (\<forall>pid. pf_stat F pid = map_option (stat_line pid) (K pid))"

text \<open>
  The processes whose files can be read: \<open>read_to_string\<close> fails on a name that is not UTF-8. And the
  table the walk should see: parents and start times of the kernel, and no names.
\<close>

definition readable :: "(nat \<Rightarrow> kernel_process option) \<Rightarrow> nat \<Rightarrow> kernel_process option" where
  "readable K pid = Option.bind (K pid) (\<lambda>k. if well_formed_utf8 (kp_comm k) then Some k else None)"

definition kernel_table :: "nat \<Rightarrow> nat \<Rightarrow> nat \<Rightarrow> (nat \<Rightarrow> kernel_process option) \<Rightarrow> process_table" where
  "kernel_table limit boot hz K =
     (let start = (\<lambda>pid. Option.bind (K pid) (\<lambda>k. system_time_from_ticks limit boot (kp_start k) hz)) in
      \<lparr>pt_parent = (\<lambda>pid. if start pid = None then None else map_option kp_ppid (K pid)), pt_start = start,
       pt_comm = (\<lambda>_. None), pt_exe_path = (\<lambda>_. None), pt_argv0 = (\<lambda>_. None)\<rparr>)"

section \<open>Parsing what the kernel wrote\<close>

lemma parse_dec_append: "parse_dec n (s @ t) = Option.bind (parse_dec n s) (\<lambda>m. parse_dec m t)"
  by (induction n s rule: parse_dec.induct) (auto split: option.splits)

lemma parse_dec_show: "parse_dec 0 (show_nat n) = Some n"
proof (induction n rule: show_nat.induct)
  case (1 n)
  have digit: "d < 10 \<Longrightarrow> digit_of (char_of (48 + d)) = Some d" for d :: nat by (simp add: digit_of_def)
  show ?case
    using 1 digit[of "n mod 10"] digit[of n]
    by (subst show_nat.simps) (auto simp: parse_dec_append)
qed

lemma show_nat_plain: "plain_field (show_nat n)"
proof -
  have "\<not> is_ws c \<and> c \<noteq> CHR '')'' \<and> code c < (128 :: nat)" if "c \<in> set (show_nat n)" for c
    using show_nat_digits[OF that] by (auto simp: is_ws_def)
  moreover have "show_nat n \<noteq> []" by (subst show_nat.simps) simp
  ultimately show ?thesis by (auto simp: plain_field_def list_all_iff)
qed

lemma parse_shown: "n \<le> bound \<Longrightarrow> parse_bounded bound (show_nat n) = Some n"
proof -
  assume le: "n \<le> bound"
  obtain c r where s: "show_nat n = c # r" by (cases "show_nat n") (use show_nat_plain in \<open>auto simp: plain_field_def\<close>)
  have "c \<noteq> CHR ''+''" using show_nat_digits[of c n] s by auto
  then show ?thesis using le parse_dec_show[of n] s by (simp add: parse_bounded_def)
qed

lemma split_fields:
  "list_all plain_field ts \<Longrightarrow> split_whitespace (join_with '' '' ts @ [LF]) = ts"
proof (induction ts rule: induct_list012)
  case (2 t)
  have "split_ws_from tok t = (if tok @ t = [] then [] else [tok @ t])" if "list_all (\<lambda>c. \<not> is_ws c) t" for tok
    using that by (induction tok t rule: split_ws_from.induct) auto
  with 2 show ?case
    by (auto simp: split_whitespace_def split_ws_from_end is_ws_def plain_field_def list_all_iff)
next
  case (3 t u ts)
  then show ?case by (simp add: split_whitespace_def split_ws_token plain_field_def list_all_iff)
qed (simp add: split_whitespace_def is_ws_def)

lemma set_join_with: "set (join_with sep ts) \<subseteq> set sep \<union> \<Union> (set (map set ts))"
  by (induction sep ts rule: join_with.induct) auto

lemma stat_values_plain: "kernel_process_ok k \<Longrightarrow> list_all plain_field (stat_values k)"
  by (simp add: kernel_process_ok_def stat_values_def show_nat_plain)

lemma fields_ascii: "list_all plain_field ts \<Longrightarrow> ascii (join_with '' '' ts @ [LF])"
proof -
  assume "list_all plain_field ts"
  then have "\<forall>t\<in>set ts. \<forall>c\<in>set t. code c < (128 :: nat)" unfolding plain_field_def list_all_iff by blast
  then have "\<forall>c\<in>set (join_with '' '' ts). code c < (128 :: nat)" using set_join_with[of "'' ''" ts] by fastforce
  then show ?thesis by (simp add: list_all_iff)
qed

lemma stat_line_utf8:
  assumes "kernel_process_ok k"
  shows "well_formed_utf8 (stat_line pid k) \<longleftrightarrow> well_formed_utf8 (kp_comm k)"
proof -
  let ?rest = "CHR '' '' # join_with '' '' (stat_values k) @ [LF]"
  have "ascii ?rest" using fields_ascii[OF stat_values_plain[OF assms]] by simp
  then have "well_formed_utf8 ?rest" using ascii_well_formed[of ?rest "[]"] by simp
  moreover have "ascii (show_nat pid @ '' ('')" using show_nat_plain[of pid] by (simp add: plain_field_def list_all_iff)
  moreover have "stat_line pid k = (show_nat pid @ '' ('') @ kp_comm k @ CHR '')'' # ?rest" by (simp add: stat_line_def)
  ultimately show ?thesis
    by (simp only: ascii_well_formed) (simp add: well_formed_around_ascii)
qed

lemma parse_stat_line:
  assumes ok: "kernel_process_ok k"
  shows "parse_stat_contents (stat_line pid k) = Some (kp_comm k, kp_ppid k, kp_start k)"
proof -
  let ?a = "show_nat pid @ '' ''" and ?rest = "join_with '' '' (stat_values k) @ [LF]"
  have line: "stat_line pid k = ?a @ CHR ''('' # kp_comm k @ CHR '')'' # CHR '' '' # ?rest" by (simp add: stat_line_def)
  have "CHR ''('' \<notin> set ?a" using show_nat_digits[of "CHR ''(''" pid] by auto
  from split_once_at[OF this] have first: "split_once CHR ''('' (stat_line pid k) = Some (?a, kp_comm k @ CHR '')'' # CHR '' '' # ?rest)"
    unfolding line .
  have "CHR '')'' \<notin> set ?rest"
    using set_join_with[of "'' ''" "stat_values k"] stat_values_plain[OF ok] by (auto simp: plain_field_def list_all_iff)
  then have last: "rsplit_once CHR '')'' (stat_line pid k) = Some (?a @ CHR ''('' # kp_comm k, CHR '' '' # ?rest)"
    using rsplit_once_at[of "CHR '')''" "CHR '' '' # ?rest" "?a @ CHR ''('' # kp_comm k"] unfolding line by simp
  have fields: "utf8_words ?rest = stat_values k"
    using split_fields[OF stat_values_plain[OF ok]] words_ascii[OF fields_ascii[OF stat_values_plain[OF ok]]] by simp
  have at: "19 < length (stat_values k)" "stat_values k ! 1 = show_nat (kp_ppid k)" "stat_values k ! 19 = show_nat (kp_start k)"
    using ok by (simp_all add: kernel_process_ok_def stat_values_def nth_append)
  show ?thesis
    using first last fields at ok by (simp add: parse_stat_contents_def Let_def parse_shown kernel_process_ok_def)
qed

section \<open>Ancestries\<close>

definition process_identity :: "ancestor_info \<Rightarrow> nat \<times> nat" where
  "process_identity a = (ai_pid a, ai_start_time a)"

text \<open>Walks over tables that agree on parents and start times meet the same processes.\<close>

lemma walk_identities:
  assumes "pt_parent P = pt_parent Q" "pt_start P = pt_start Q"
  shows "walk_ancestors P pid start = Some rest \<Longrightarrow>
    \<exists>rest'. walk_ancestors Q pid start = Some rest' \<and> map process_identity rest = map process_identity rest'"
proof (induction rest arbitrary: pid start)
  case Nil
  then have "walk_ancestors Q pid start = Some []"
    using assms by (subst (asm) walk_ancestors.simps, subst walk_ancestors.simps) (auto split: option.splits if_splits bind_splits)
  then show ?case by simp
next
  case (Cons a rest)
  then obtain q qs where q: "pt_parent P pid = Some q" "q \<noteq> 0" "q \<noteq> pid" "pt_start P q = Some qs" "qs \<le> start"
    "walk_ancestors P q qs = Some rest" "a = ancestor_of P q qs"
    by (subst (asm) (2) walk_ancestors.simps) (auto split: option.splits if_splits bind_splits)
  from Cons.IH[OF q(6)] obtain rest' where r: "walk_ancestors Q q qs = Some rest'" "map process_identity rest = map process_identity rest'" by blast
  have "walk_ancestors Q pid start = Some (ancestor_of Q q qs # rest')"
    using q r assms by (subst walk_ancestors.simps) simp
  moreover have "process_identity a = process_identity (ancestor_of Q q qs)" using q by (simp add: process_identity_def ancestor_of_def)
  ultimately show ?case using r by simp
qed

lemma chain_identities:
  assumes "pt_parent P = pt_parent Q" "pt_start P = pt_start Q"
  shows "map_option (map process_identity) (ancestry_chain P pid) = map_option (map process_identity) (ancestry_chain Q pid)"
proof (cases "pt_start P pid")
  case (Some start)
  have "map_option (map process_identity) (walk_ancestors P pid start) = map_option (map process_identity) (walk_ancestors Q pid start)"
    using walk_identities[OF assms, of pid start] walk_identities[OF assms[symmetric], of pid start]
    by (cases "walk_ancestors P pid start"; cases "walk_ancestors Q pid start") auto
  with Some assms show ?thesis
    by (cases "walk_ancestors P pid start"; cases "walk_ancestors Q pid start")
      (auto simp: ancestry_chain_def process_identity_def ancestor_of_def)
qed (use assms in \<open>simp add: ancestry_chain_def\<close>)

lemma anchor_by_identity:
  "chain_contains_anchor n chain \<longleftrightarrow> (an_pid n, an_start_time n) \<in> set (map process_identity chain)"
  by (auto simp: chain_contains_anchor_def list_ex_iff anchor_matches_def process_identity_def)

lemma linux_table_agrees:
  assumes "shows_processes K F" "\<And>pid k. K pid = Some k \<Longrightarrow> kernel_process_ok k" "boot_time limit F = Some boot"
  shows "pt_parent (linux_table limit F) = pt_parent (kernel_table limit boot (clock_ticks_per_sec F) (readable K))"
    and "pt_start (linux_table limit F) = pt_start (kernel_table limit boot (clock_ticks_per_sec F) (readable K))"
proof -
  have "parse_stat limit F pid = (case readable K pid of None \<Rightarrow> None | Some k \<Rightarrow>
     map_option (\<lambda>start. \<lparr>sf_ppid = kp_ppid k, sf_start_time = start, sf_comm = kp_comm k\<rparr>)
       (system_time_from_ticks limit boot (kp_start k) (clock_ticks_per_sec F)))" for pid
    using assms(1,3) assms(2)[of pid]
    by (cases "K pid")
      (simp_all add: parse_stat_def shows_processes_def decode_utf8_def readable_def stat_line_utf8 parse_stat_line)
  then show "pt_parent (linux_table limit F) = pt_parent (kernel_table limit boot (clock_ticks_per_sec F) (readable K))"
    and "pt_start (linux_table limit F) = pt_start (kernel_table limit boot (clock_ticks_per_sec F) (readable K))"
    by (auto simp: linux_table_def kernel_table_def Let_def fun_eq_iff option.map_comp o_def option.map_ident split: option.splits)
qed

text \<open>
  The kernel cuts names at 15 bytes and takes any bytes for one: a name that ends inside a character
  makes the whole \<open>stat\<close> file unreadable, and the process has no ancestry and no lease.
\<close>

lemma cut_name_hides_process:
  assumes "pf_stat F pid = Some (before @ [CHR 0xC3] @ '')'' @ rest)"
  shows "ancestry_chain (linux_table limit F) pid = Some []" and "select_anchor [] = None"
proof -
  have cut: "\<not> well_formed_utf8 [CHR 0xC3]" by (simp add: Let_def utf8_width_def)
  have "\<not> well_formed_utf8 (s @ [CHR 0xC3])" for s
  proof (induction s rule: well_formed_utf8.induct)
    case (2 b bs)
    show ?case
    proof (cases "utf8_width b - 1 \<le> length bs")
      case False
      then show ?thesis by (auto simp: Let_def list_all_iff is_cont_def)
    qed (use 2 in \<open>simp add: Let_def\<close>)
  qed (simp add: Let_def utf8_width_def)
  then have "\<not> well_formed_utf8 ((before @ [CHR 0xC3]) @ CHR '')'' # rest)" by (subst well_formed_around_ascii) simp_all
  with assms(1) show "ancestry_chain (linux_table limit F) pid = Some []"
    by (simp add: ancestry_chain_def linux_table_def parse_stat_def decode_utf8_def)
qed (simp add: select_anchor_def)

text \<open>An empty \<open>argv[0]\<close> is skipped with the padding before it: \<open>argv[1]\<close> is answered in its place.\<close>

lemma empty_argv0_answers_argv1:
  assumes "sc_argmax S = Some n" "0 < n" "sc_procargs S pid = Some (argc @ path @ [CHR 0x00] @ [] @ [CHR 0x00] @ arg @ [CHR 0x00] @ rest)"
    and "length argc = 4" "CHR 0x00 \<notin> set path" "arg \<noteq> []" "CHR 0x00 \<notin> set arg"
  shows "argv0 S pid = decode_utf8 arg"
proof -
  have "dropWhile (\<lambda>b. b \<noteq> CHR 0x00) (path @ CHR 0x00 # CHR 0x00 # arg @ CHR 0x00 # rest) = CHR 0x00 # CHR 0x00 # arg @ CHR 0x00 # rest"
    using assms(5) by (induction path) auto
  moreover have "dropWhile (\<lambda>b. b = CHR 0x00) (arg @ CHR 0x00 # rest) = arg @ CHR 0x00 # rest"
    using assms(6,7) by (cases arg) auto
  moreover have "takeWhile (\<lambda>b. b \<noteq> CHR 0x00) (arg @ CHR 0x00 # rest) = arg"
    using assms(7) by (induction arg) auto
  ultimately show ?thesis using assms by (simp add: argv0_def Let_def)
qed

section \<open>Start times\<close>

lemma ticks_as_nanos:
  assumes "0 < hz" "system_time_from_ticks limit boot ticks hz = Some s"
  shows "s = boot + ticks * 1000000000 div hz"
proof -
  define q m where "q = ticks div hz" and "m = ticks mod hz"
  have ticks: "ticks = q * hz + m" and "m < hz" using assms(1) by (simp_all add: q_def m_def)
  then have "m * 1000000000 div hz < 1000000000" by (simp add: less_mult_imp_div_less)
  then have "m * 1000000000 div hz mod 2 ^ 64 = m * 1000000000 div hz" by simp
  with assms have s: "s = boot + from_secs q + m * 1000000000 div hz"
    by (auto simp: system_time_from_ticks_def Let_def simp flip: q_def m_def split: if_splits)
  have "ticks * 1000000000 = m * 1000000000 + (q * 1000000000) * hz" unfolding ticks by (simp add: algebra_simps)
  then have "ticks * 1000000000 div hz = q * 1000000000 + m * 1000000000 div hz"
    using assms(1) by (simp only: div_mult_self1)
  then show ?thesis using s by (simp add: from_secs_def)
qed

lemma later_ticks_later:
  assumes "0 < hz" "hz \<le> (1000000000 :: nat)" "a < b"
  shows "a * 1000000000 div hz < b * 1000000000 div hz"
proof -
  have "Suc (a * 1000000000 div hz) = (a * 1000000000 + hz) div hz" using assms(1) by simp
  also have "\<dots> \<le> (b * 1000000000) div hz"
    by (rule div_le_mono) (use assms(2,3) in linarith)
  finally show ?thesis by simp
qed

text \<open>
  C25: A name cannot forge an ancestry on Linux: with a \<open>stat\<close> file per process as the kernel writes it,
  the name in it any bytes at all, parentheses, spaces and line ends included, the walk from a process
  meets exactly the processes, with exactly the start times, of the kernel's own parents and start
  times among the readable processes, those whose name is valid UTF-8, and leases match accordingly.
  So a name never changes who an ancestor is; all it can do is hide its own process, by not being UTF-8.
\<close>

theorem names_cannot_forge_ancestry:
  assumes "shows_processes K F" and "\<And>pid k. K pid = Some k \<Longrightarrow> kernel_process_ok k" and "boot_time limit F = Some boot"
  shows "map_option (map process_identity) (ancestry_chain (linux_table limit F) pid) =
      map_option (map process_identity) (ancestry_chain (kernel_table limit boot (clock_ticks_per_sec F) (readable K)) pid) \<and>
    map_option (chain_contains_anchor n) (ancestry_chain (linux_table limit F) pid) =
      map_option (chain_contains_anchor n) (ancestry_chain (kernel_table limit boot (clock_ticks_per_sec F) (readable K)) pid)"
proof -
  let ?P = "linux_table limit F" and ?Q = "kernel_table limit boot (clock_ticks_per_sec F) (readable K)"
  have same: "map_option (map process_identity) (ancestry_chain ?P pid) = map_option (map process_identity) (ancestry_chain ?Q pid)"
    by (rule chain_identities[OF linux_table_agrees[OF assms]])
  then show ?thesis
    by (cases "ancestry_chain ?P pid"; cases "ancestry_chain ?Q pid") (auto simp: anchor_by_identity)
qed

text \<open>
  Two processes that had the same number keep different identities: on Linux different start
  ticks give different start times at every clock rate up to a gigahertz, on macOS different time
  values do.
\<close>

theorem incarnations_are_told_apart:
  "(0 < hz \<and> hz \<le> 1000000000 \<and> a < b \<and> system_time_from_ticks limit boot a hz = Some s \<and>
      system_time_from_ticks limit boot b hz = Some t \<longrightarrow> s < t) \<and>
   (system_time_from_timeval limit sec usec = Some s \<and> system_time_from_timeval limit sec' usec' = Some s \<longrightarrow>
      sec = sec' \<and> usec = usec')"
proof (intro conjI impI; elim conjE)
  assume hz: "0 < hz" "hz \<le> 1000000000" "a < b"
    and a: "system_time_from_ticks limit boot a hz = Some s" and b: "system_time_from_ticks limit boot b hz = Some t"
  from ticks_as_nanos[OF hz(1) a] ticks_as_nanos[OF hz(1) b] show "s < t" using later_ticks_later[OF hz] by simp
next
  assume times: "system_time_from_timeval limit sec usec = Some s" "system_time_from_timeval limit sec' usec' = Some s"
  define i j k l where "i = nat sec" and "j = nat usec" and "k = nat sec'" and "l = nat usec'"
  have pos: "0 \<le> sec" "0 \<le> usec" "0 \<le> sec'" "0 \<le> usec'" "j < 1000000" "l < 1000000"
    and nanos: "i * 1000000 + j = k * 1000000 + l"
    using times by (auto simp: system_time_from_timeval_def from_secs_def Let_def i_def j_def k_def l_def split: if_splits)
  have "i = k" using pos nanos by linarith
  with nanos have "j = l" by simp
  with \<open>i = k\<close> show "sec = sec'" "usec = usec'" using pos by (simp_all add: i_def j_def k_def l_def)
qed

definition demo_kernel :: "nat \<Rightarrow> kernel_process option" where
  "demo_kernel pid =
     (if pid = 40 then Some \<lparr>kp_comm = ''x) S 1 ('' @ [CHR 0xE7, CHR 0x8C, CHR 0xAB, LF], kp_state = ''S'', kp_ppid = 30, kp_fields = replicate 17 ''0'',
        kp_start = 5200, kp_tail = [''0'']\<rparr>
      else if pid = 30 then Some \<lparr>kp_comm = ''sh'', kp_state = ''S'', kp_ppid = 0, kp_fields = replicate 17 ''-1'',
        kp_start = 700, kp_tail = []\<rparr>
      else None)"

definition demo_proc :: proc_files where
  "demo_proc = \<lparr>pf_stat = (\<lambda>pid. map_option (stat_line pid) (demo_kernel pid)),
     pf_exe = (\<lambda>_. None), pf_cmdline = (\<lambda>_. None), pf_boot_stat = Some (''cpu 1'' @ [LF] @ ''btime 100'' @ [LF]),
     pf_clk_tck = 100\<rparr>"

theorem names_cannot_forge_ancestry_witness:
  "map_option (map process_identity) (ancestry_chain (linux_table (from_secs 1000) demo_proc) 40) =
     Some [(40, from_secs 152), (30, from_secs 107)]"
proof -
  have shown: "shows_processes demo_kernel demo_proc" by (simp add: shows_processes_def demo_proc_def)
  have "kernel_process_ok (the (demo_kernel 40))" "kernel_process_ok (the (demo_kernel 30))"
    by (simp_all add: kernel_process_ok_def demo_kernel_def plain_field_def is_ws_def u64_max_def list_all_iff)
  moreover have "demo_kernel pid = Some k \<Longrightarrow> pid = 40 \<or> pid = 30" for pid k
    by (simp add: demo_kernel_def split: if_splits)
  ultimately have ok: "demo_kernel pid = Some k \<Longrightarrow> kernel_process_ok k" for pid k by (metis option.sel)
  have boot: "boot_time (from_secs 1000) demo_proc = Some (from_secs 100)"
    by (simp add: boot_time_def demo_proc_def str_lines_def strip_newline_def strip_prefix_def trim_ascii trim_def trim_start_def
        trim_end_def is_ws_def decode_utf8_def utf8_width_def Let_def parse_bounded_def digit_of_def u64_max_def from_secs_def)
  have kernel: "map_option (map process_identity)
      (ancestry_chain (kernel_table (from_secs 1000) (from_secs 100) (clock_ticks_per_sec demo_proc) (readable demo_kernel)) 40) =
      Some [(40, from_secs 152), (30, from_secs 107)]"
    by (simp add: ancestry_chain_def walk_ancestors.simps kernel_table_def readable_def demo_kernel_def
        utf8_width_def is_cont_def second_ok_def demo_proc_def clock_ticks_per_sec_def
        system_time_from_ticks_def from_secs_def process_identity_def ancestor_of_def Let_def)
  show ?thesis using names_cannot_forge_ancestry[where pid = 40, OF shown ok boot] kernel by simp
qed

theorem incarnations_are_told_apart_witness:
  "(5201 :: nat) < 5202 \<and> from_secs 152 + 10000000 < (from_secs 152 + 20000000 :: nat)"
  using incarnations_are_told_apart[of 100 5201 5202 "from_secs 1000" "from_secs 100" "from_secs 152 + 10000000" "from_secs 152 + 20000000" 0 0 0 0]
  by (simp add: system_time_from_ticks_def from_secs_def Let_def)

end
