(* ===== verification/Client.thy ===== *)
theory Client
  imports Dispatch System_Hosts Settings
begin

text \<open>
  What a front end does, as a conversation with the daemon, the human and the user's own files: a
  tree of operations whose next step depends on the answer. The command line and the desktop
  program's host commands are such trees. \<open>send_request\<close> of \<open>src/src/cli/mod.rs\<close> is the operation
  \<open>AskDaemon\<close>.
\<close>

datatype client_op =
    AskDaemon request
  | PromptHidden string
  | SaveSystemHost host_summary bool
  | RemoveSystemHost string
  | ListSystemHosts
  | OwnedByConfig string
  | LoadKey host_auth
  | ReadUnlocked
  | TakePassword
  | LoadTimeout
  | SaveTimeout nat

text \<open>A request is answered by a reply or a failed connection; a prompt by what was typed.\<close>

datatype client_answer =
    ReplyC "string + response"
  | TypedC "string option"
  | EditedC "edit_error + unit"
  | InventoryC "edit_error + (host_summary \<times> edit_error option) list"
  | FlagC bool
  | TimeoutC "file_error + nat"

text \<open>\<open>Waiting\<close> is a command that goes on; it also stands for an answer of the wrong kind.\<close>

datatype 'a client = Done 'a | Do client_op "client_answer \<Rightarrow> 'a client" | Waiting

primrec bind_client :: "'a client \<Rightarrow> ('a \<Rightarrow> 'b client) \<Rightarrow> 'b client" where
  "bind_client (Done a) k = k a"
| "bind_client (Do p c) k = Do p (\<lambda>x. bind_client (c x) k)"
| "bind_client Waiting k = Waiting"

datatype cli_error =
    NeedsTerminal string
  | Disconnected string
  | DaemonError daemon_message
  | UnexpectedReply
  | BadUsage string
  | PromptFailed
  | NoHostNamed string
  | EditFailed edit_error
  | TimeoutRefused settings_error
  | TimeoutFile file_error
  | DesktopLocked
  | ApprovalPending request_summary

type_synonym 'a cli = "(cli_error + 'a) client"

abbreviation failed :: "cli_error \<Rightarrow> 'a cli" where "failed e \<equiv> Done (Inl e)"

definition and_then :: "'a cli \<Rightarrow> ('a \<Rightarrow> 'b cli) \<Rightarrow> 'b cli" where
  "and_then m k = bind_client m (\<lambda>r. case r of Inl e \<Rightarrow> failed e | Inr a \<Rightarrow> k a)"

text \<open>\<open>send_request\<close> followed by \<open>bail_on_error_or_unexpected\<close>.\<close>

definition ask :: "request \<Rightarrow> (response \<Rightarrow> 'a cli) \<Rightarrow> 'a cli" where
  "ask r k = Do (AskDaemon r) (\<lambda>a. case a of
     ReplyC (Inl e) \<Rightarrow> failed (Disconnected e)
   | ReplyC (Inr (ErrorR m)) \<Rightarrow> failed (DaemonError m)
   | ReplyC (Inr resp) \<Rightarrow> k resp
   | _ \<Rightarrow> Waiting)"

definition prompt :: "string \<Rightarrow> (string \<Rightarrow> 'a cli) \<Rightarrow> 'a cli" where
  "prompt label k = Do (PromptHidden label) (\<lambda>a. case a of
     TypedC (Some s) \<Rightarrow> k s | TypedC None \<Rightarrow> failed PromptFailed | _ \<Rightarrow> Waiting)"

section \<open>Runs\<close>

text \<open>The operations a conversation performs under given answers, and its result if it has one.\<close>

primrec performed :: "'a client \<Rightarrow> client_answer list \<Rightarrow> (client_op \<times> client_answer option) list \<times> 'a option" where
  "performed (Done a) = (\<lambda>answers. ([], Some a))"
| "performed (Do p c) = (\<lambda>answers. case answers of
     [] \<Rightarrow> ([(p, None)], None)
   | a # answers \<Rightarrow> (case performed (c a) answers of (tr, r) \<Rightarrow> ((p, Some a) # tr, r)))"
| "performed Waiting = (\<lambda>answers. ([], None))"

lemma performed_answered:
  "performed m answers = (tr, Some r) \<Longrightarrow> (p, a) \<in> set tr \<Longrightarrow> a \<noteq> None"
proof (induction m arbitrary: answers tr)
  case (Do q c)
  then obtain x rest tr' where "answers = x # rest" "performed (c x) rest = (tr', Some r)" "tr = (q, Some x) # tr'"
    by (auto split: list.splits prod.splits)
  with Do.IH[OF rangeI, of x rest tr'] Do.prems(2) show ?case by auto
qed auto

text \<open>\<open>always P m\<close>: every operation \<open>m\<close> can perform satisfies \<open>P\<close>.\<close>

primrec always :: "(client_op \<Rightarrow> bool) \<Rightarrow> 'a client \<Rightarrow> bool" where
  "always P (Done a) \<longleftrightarrow> True"
| "always P (Do p c) \<longleftrightarrow> P p \<and> (\<forall>x. always P (c x))"
| "always P Waiting \<longleftrightarrow> True"

lemma always_performed: "always P m \<Longrightarrow> (p, a) \<in> set (fst (performed m answers)) \<Longrightarrow> P p"
proof (induction m arbitrary: answers)
  case (Do q c)
  show ?case
  proof (cases answers)
    case (Cons x rest)
    obtain tr r where run: "performed (c x) rest = (tr, r)" by (cases "performed (c x) rest")
    with Do.prems(2) Cons have "p = q \<or> (p, a) \<in> set (fst (performed (c x) rest))" by auto
    with Do.prems(1) Do.IH[OF rangeI, of x rest] show ?thesis by auto
  qed (use Do.prems in simp)
qed simp_all

text \<open>
  \<open>answer_fits p a\<close>: the answer is of the kind the operation gets. \<open>careful m\<close>: on a refusal \<open>m\<close> fails at once
  and does nothing more.
\<close>

fun answer_fits :: "client_op \<Rightarrow> client_answer \<Rightarrow> bool" where
  "answer_fits (AskDaemon _) (ReplyC _) = True"
| "answer_fits (PromptHidden _) (TypedC _) = True"
| "answer_fits (SaveSystemHost _ _) (EditedC _) = True"
| "answer_fits (RemoveSystemHost _) (EditedC _) = True"
| "answer_fits ListSystemHosts (InventoryC _) = True"
| "answer_fits (OwnedByConfig _) (FlagC _) = True"
| "answer_fits (LoadKey _) (FlagC _) = True"
| "answer_fits ReadUnlocked (TypedC _) = True"
| "answer_fits TakePassword (TypedC _) = True"
| "answer_fits LoadTimeout (TimeoutC _) = True"
| "answer_fits (SaveTimeout _) (TimeoutC _) = True"
| "answer_fits _ _ = False"

definition refusal :: "client_answer \<Rightarrow> bool" where
  "refusal a \<longleftrightarrow> (\<exists>e. a = ReplyC (Inl e)) \<or> (\<exists>m. a = ReplyC (Inr (ErrorR m))) \<or> a = TypedC None
     \<or> (\<exists>e. a = EditedC (Inl e)) \<or> (\<exists>e. a = InventoryC (Inl e)) \<or> (\<exists>e. a = TimeoutC (Inl e))"

primrec careful :: "'a cli \<Rightarrow> bool" where
  "careful (Done r) \<longleftrightarrow> True"
| "careful (Do p c) \<longleftrightarrow> (\<forall>a. if refusal a then if answer_fits p a then \<exists>e. c a = failed e else c a = Waiting else careful (c a))"
| "careful Waiting \<longleftrightarrow> True"

lemma careful_performed:
  "careful m \<Longrightarrow> performed m answers = (before @ (p, Some a) # after, r) \<Longrightarrow> refusal a \<Longrightarrow> answer_fits p a \<Longrightarrow>
     after = [] \<and> (\<exists>e. r = Some (Inl e))"
proof (induction m arbitrary: answers before)
  case (Do q c)
  from Do.prems(2) obtain b rest tr
    where b: "answers = b # rest" "performed (c b) rest = (tr, r)" "before @ (p, Some a) # after = (q, Some b) # tr"
  proof (cases answers)
    case (Cons b rest)
    with Do.prems(2) that show thesis by (auto split: prod.splits)
  qed (cases before, auto)
  show ?case
  proof (cases before)
    case Nil
    with b Do.prems(3,4) have "a = b" "after = tr" "refusal b" "answer_fits q b" by auto
    moreover from this(3,4) Do.prems(1) have "\<exists>e. c b = failed e" by (metis careful.simps(2))
    then obtain e where "c b = failed e" ..
    ultimately show ?thesis using b(2) by auto
  next
    case (Cons x before')
    with b(3) have tr: "tr = before' @ (p, Some a) # after" by simp
    have "careful (c b)"
    proof (cases "refusal b")
      case True
      with Do.prems(1) have "c b = Waiting \<or> (\<exists>e. c b = failed e)" by (metis careful.simps(2))
      with b(2) tr show ?thesis by auto
    next
      case False
      with Do.prems(1) show ?thesis by simp
    qed
    from Do.IH[OF rangeI this] b(2) tr Do.prems(3,4) show ?thesis by blast
  qed
qed auto

lemma asked: "ask r k = Do (AskDaemon r) (\<lambda>a. case a of
     ReplyC x \<Rightarrow> (case x of Inl e \<Rightarrow> failed (Disconnected e) | Inr resp \<Rightarrow>
        if \<exists>m. resp = ErrorR m then failed (DaemonError (THE m. resp = ErrorR m)) else k resp)
   | _ \<Rightarrow> Waiting)"
  unfolding ask_def by (rule arg_cong[where f = "Do _"], rule ext) (auto split: client_answer.split sum.split response.split)

lemma always_ask: "P (AskDaemon r) \<Longrightarrow> (\<And>x. always P (k x)) \<Longrightarrow> always P (ask r k)"
  by (simp add: asked split: client_answer.split sum.split)

lemma always_prompt: "P (PromptHidden l) \<Longrightarrow> (\<And>x. always P (k x)) \<Longrightarrow> always P (prompt l k)"
  by (simp add: prompt_def split: client_answer.split option.split)

lemma careful_ask: "(\<And>x. careful (k x)) \<Longrightarrow> careful (ask r k)"
  by (auto simp: asked refusal_def split: client_answer.split sum.split)

lemma careful_prompt: "(\<And>x. careful (k x)) \<Longrightarrow> careful (prompt l k)"
  by (auto simp: prompt_def refusal_def split: client_answer.split option.split)

lemma careful_and_then: "careful m \<Longrightarrow> (\<And>x. careful (k x)) \<Longrightarrow> careful (and_then m k)"
proof (induction m)
  case (Do p c)
  have "if refusal a then if answer_fits p a then \<exists>e. bind_client (c a) (case_sum failed k) = failed e
        else bind_client (c a) (case_sum failed k) = Waiting
      else careful (bind_client (c a) (case_sum failed k))" for a
  proof (cases "refusal a")
    case True
    with Do.prems(1) have "if answer_fits p a then \<exists>e. c a = failed e else c a = Waiting" by simp
    with True show ?thesis by (auto split: if_splits)
  next
    case False
    with Do.prems(1) have "careful (c a)" by simp
    from Do.IH[OF rangeI this Do.prems(2)] False show ?thesis by (simp add: and_then_def)
  qed
  then show ?case by (simp add: and_then_def)
qed (auto simp: and_then_def split: sum.splits)

end
