(* ===== verification/Cli.thy ===== *)
theory Cli
  imports Client
begin

text \<open>
  The command line's commands (\<open>src/src/cli/mod.rs\<close>, \<open>session.rs\<close>, \<open>forward.rs\<close>, \<open>host.rs\<close> and
  \<open>approval.rs\<close>) as what they ask of the daemon, the terminal and the user's own configuration. Clap
  has parsed the arguments; printing is the reply shown. \<open>approve\<close>, \<open>host trust\<close>, the transfers, the
  daemon's own commands, \<open>log\<close> and \<open>skill\<close> are in the theories of their parts, and \<open>Command_Line\<close>
  dispatches over them all.
\<close>

definition require_tty :: "bool \<Rightarrow> string \<Rightarrow> 'a cli \<Rightarrow> 'a cli" where
  "require_tty tty command k = (if tty then k else failed (NeedsTerminal command))"

section \<open>Sessions and forwards\<close>

definition cmd_run :: "string option \<Rightarrow> string \<Rightarrow> string \<Rightarrow> string option \<Rightarrow> nat \<Rightarrow> bool \<Rightarrow> response option cli" where
  "cmd_run token host command session timeout raw = ask (Run host command session timeout raw token)
     (\<lambda>r. case r of RunR _ \<Rightarrow> Done (Inr (Some r)) | _ \<Rightarrow> failed UnexpectedReply)"

text \<open>A notice is represented by what it is formatted from.\<close>

datatype truncation_notice = CutInReply nat | CutWithSpool nat

definition run_truncation_notice :: "run_reply \<Rightarrow> truncation_notice option" where
  "run_truncation_notice r =
     (if \<not> rr_truncated r then None
      else if rr_spool_path r = [] then Some (CutInReply (rr_total_bytes r)) else Some (CutWithSpool (rr_total_bytes r)))"

definition cmd_peek :: "string option \<Rightarrow> string \<Rightarrow> string option \<Rightarrow> nat option \<Rightarrow> bool \<Rightarrow> response option cli" where
  "cmd_peek token host session tail_n raw = ask (Peek host session tail_n raw token)
     (\<lambda>r. case r of PeekR _ \<Rightarrow> Done (Inr (Some r)) | _ \<Rightarrow> failed UnexpectedReply)"

definition cmd_send :: "string option \<Rightarrow> string \<Rightarrow> string \<Rightarrow> string option \<Rightarrow> bool \<Rightarrow> response option cli" where
  "cmd_send token host keys session newline = ask (Send host keys session newline token) (\<lambda>_. Done (Inr None))"

definition cmd_interrupt :: "string option \<Rightarrow> string \<Rightarrow> string option \<Rightarrow> response option cli" where
  "cmd_interrupt token host session = ask (Interrupt host session token) (\<lambda>_. Done (Inr None))"

definition cmd_open :: "string option \<Rightarrow> string \<Rightarrow> string \<Rightarrow> response option cli" where
  "cmd_open token host name = ask (Open host name token)
     (\<lambda>r. case r of SessionR _ \<Rightarrow> Done (Inr (Some r)) | _ \<Rightarrow> failed UnexpectedReply)"

definition cmd_kill :: "string option \<Rightarrow> string \<Rightarrow> string option \<Rightarrow> response option cli" where
  "cmd_kill token host session = ask (Kill host session token) (\<lambda>_. Done (Inr None))"

definition cmd_ls :: "string option \<Rightarrow> response option cli" where
  "cmd_ls host = ask (Ls host) (\<lambda>r. case r of LsR _ \<Rightarrow> Done (Inr (Some r)) | _ \<Rightarrow> failed UnexpectedReply)"

definition cmd_forward_open :: "string option \<Rightarrow> string \<Rightarrow> forward_direction \<Rightarrow> response option cli" where
  "cmd_forward_open token host direction = ask (ForwardReq host direction token)
     (\<lambda>r. case r of ForwardR _ \<Rightarrow> Done (Inr (Some r)) | _ \<Rightarrow> failed UnexpectedReply)"

definition cmd_forward_ls :: "response option cli" where
  "cmd_forward_ls = ask ForwardLs
     (\<lambda>r. case r of ForwardLsR _ \<Rightarrow> Done (Inr (Some r)) | _ \<Rightarrow> failed UnexpectedReply)"

definition cmd_forward_stop :: "string \<Rightarrow> response option cli" where
  "cmd_forward_stop i = ask (ForwardStop i) (\<lambda>_. Done (Inr None))"

definition cmd_request :: "string list \<Rightarrow> bool \<Rightarrow> response option cli" where
  "cmd_request hosts trust_new_host =
     ask (if trust_new_host then RequestLeaseTrustNew hosts else RequestLease hosts)
       (\<lambda>r. case r of OkR \<Rightarrow> Done (Inr (Some r)) | LeaseRequestPending _ \<Rightarrow> Done (Inr (Some r))
          | _ \<Rightarrow> failed UnexpectedReply)"

section \<open>The vault\<close>

text \<open>The loop of \<open>prompt_master_password\<close>; \<open>tries\<close> is how often the human is asked before the run ends.\<close>

primrec prompt_new_password :: "nat \<Rightarrow> (string \<Rightarrow> 'a cli) \<Rightarrow> 'a cli" where
  "prompt_new_password 0 k = Waiting"
| "prompt_new_password (Suc tries) k = prompt ''Set a new master password: '' (\<lambda>password.
     if password = [] then prompt_new_password tries k
     else prompt ''Confirm master password: '' (\<lambda>confirmation.
       if password = confirmation then k password else prompt_new_password tries k))"

definition prompt_master_password_cli :: "nat \<Rightarrow> bool \<Rightarrow> (string \<Rightarrow> 'a cli) \<Rightarrow> 'a cli" where
  "prompt_master_password_cli tries vault_exists k =
     (if vault_exists then prompt ''Master password: '' k else prompt_new_password tries k)"

definition vault_exists_request :: "(bool \<Rightarrow> 'a cli) \<Rightarrow> 'a cli" where
  "vault_exists_request k = ask VaultExists (\<lambda>r. case r of VaultExistsR present \<Rightarrow> k present | _ \<Rightarrow> failed UnexpectedReply)"

definition cmd_vault_init_inner :: "nat \<Rightarrow> string option cli" where
  "cmd_vault_init_inner tries = vault_exists_request (\<lambda>present.
     if present then Done (Inr None)
     else prompt_master_password_cli tries False (\<lambda>password. ask (InitVaultReq password) (\<lambda>_. Done (Inr (Some password)))))"

definition cmd_vault_init :: "bool \<Rightarrow> nat \<Rightarrow> response option cli" where
  "cmd_vault_init tty tries = require_tty tty ''vault init'' (and_then (cmd_vault_init_inner tries) (\<lambda>_. Done (Inr None)))"

definition cmd_vault_timeout :: "nat option \<Rightarrow> response option cli" where
  "cmd_vault_timeout minutes = (case minutes of
     Some m \<Rightarrow> (case try_timeout m of
         Inl e \<Rightarrow> failed (TimeoutRefused e)
       | Inr m \<Rightarrow> Do (SaveTimeout m) (\<lambda>a. case a of
           TimeoutC (Inl e) \<Rightarrow> failed (TimeoutFile e) | TimeoutC (Inr _) \<Rightarrow> Done (Inr None) | _ \<Rightarrow> Waiting))
   | None \<Rightarrow> Do LoadTimeout (\<lambda>a. case a of
       TimeoutC (Inl e) \<Rightarrow> failed (TimeoutFile e) | TimeoutC (Inr _) \<Rightarrow> Done (Inr None) | _ \<Rightarrow> Waiting))"

section \<open>Hosts\<close>

datatype host_auth_arg = AgentArg | PasswordArg | KeyFileArg

record add_args =
  aa_alias :: string
  aa_hostname :: string
  aa_user :: "string option"
  aa_port :: "nat option"
  aa_auth :: host_auth_arg
  aa_key_file :: "string option"
  aa_via :: "string option"
  aa_proxy_jump :: "string option"
  aa_jump :: "string option"

record host_edit_args =
  ea_alias :: string
  ea_hostname :: "string option"
  ea_user :: "string option"
  ea_clear_user :: bool
  ea_port :: "nat option"
  ea_clear_port :: bool
  ea_auth :: "host_auth_arg option"
  ea_key_file :: "string option"
  ea_via :: "string option"
  ea_proxy_jump :: "string option"
  ea_direct :: bool
  ea_jump :: "string option"
  ea_clear_jump :: bool
  ea_change_password :: bool

definition host_auth_input :: "host_auth_arg \<Rightarrow> string option \<Rightarrow> string \<Rightarrow> (host_auth \<Rightarrow> 'a cli) \<Rightarrow> 'a cli" where
  "host_auth_input auth key_file alias k = (case auth of
     AgentArg \<Rightarrow> if key_file \<noteq> None then failed (BadUsage ''--key-file can only be used with --auth key-file'') else k AuthAgent
   | PasswordArg \<Rightarrow>
       if key_file \<noteq> None then failed (BadUsage ''--key-file can only be used with --auth key-file'')
       else prompt (''SSH password for '' @ alias @ '': '') (\<lambda>p. k (AuthPassword p))
   | KeyFileArg \<Rightarrow> (case key_file of
       None \<Rightarrow> failed (BadUsage ''--auth key-file requires --key-file <PATH>'') | Some path \<Rightarrow> k (AuthKeyFile path)))"

definition host_route_input :: "string option \<Rightarrow> string option \<Rightarrow> string option \<Rightarrow> host_route" where
  "host_route_input via proxy_jump legacy_jump = (case via of
     Some alias \<Rightarrow> ManagedHost alias
   | None \<Rightarrow> (case (case proxy_jump of Some s \<Rightarrow> Some s | None \<Rightarrow> legacy_jump) of
       Some spec \<Rightarrow> ProxyJump spec | None \<Rightarrow> Direct))"

definition auth_kind_of :: "host_auth_arg \<Rightarrow> host_auth_kind" where
  "auth_kind_of a = (case a of AgentArg \<Rightarrow> AgentKind | PasswordArg \<Rightarrow> PasswordKind | KeyFileArg \<Rightarrow> KeyFileKind)"

definition add_route :: "add_args \<Rightarrow> host_route" where
  "add_route a = host_route_input (aa_via a) (aa_proxy_jump a) (aa_jump a)"

definition cmd_add :: "bool \<Rightarrow> nat \<Rightarrow> add_args \<Rightarrow> response option cli" where
  "cmd_add tty tries a =
     (if aa_auth a = AgentArg
      then if aa_key_file a \<noteq> None then failed (BadUsage ''--key-file requires --auth key-file'')
           else Do (SaveSystemHost \<lparr>hs_alias = aa_alias a, hs_hostname = aa_hostname a, hs_port = aa_port a,
                      hs_user = aa_user a, hs_auth = AgentKind, hs_route = add_route a\<rparr> False)
                  (\<lambda>x. case x of EditedC (Inl e) \<Rightarrow> failed (EditFailed e) | EditedC (Inr _) \<Rightarrow> Done (Inr None) | _ \<Rightarrow> Waiting)
      else if \<not> tty
      then if aa_key_file a \<noteq> None \<and> aa_auth a \<noteq> KeyFileArg
           then failed (BadUsage ''--key-file can only be used with --auth key-file'')
           else ask (EnrollHost (aa_alias a) (aa_hostname a) (aa_port a) (aa_user a) (auth_kind_of (aa_auth a))
                       (aa_key_file a) (add_route a)) (\<lambda>_. Done (Inr None))
      else host_auth_input (aa_auth a) (aa_key_file a) (aa_alias a) (\<lambda>auth.
             vault_exists_request (\<lambda>present. prompt_master_password_cli tries present (\<lambda>password.
               ask (AddCred (aa_alias a) (aa_hostname a) (aa_port a) (aa_user a) auth password False (add_route a))
                 (\<lambda>_. Done (Inr None))))))"

definition cmd_rm :: "bool \<Rightarrow> string \<Rightarrow> response option cli" where
  "cmd_rm tty alias = require_tty tty ''rm'' (prompt ''Master password: '' (\<lambda>password.
     ask (RmCred alias password) (\<lambda>_. Done (Inr None))))"

definition read_host_inventory :: "string \<Rightarrow> (host_metadata_row list \<Rightarrow> 'a cli) \<Rightarrow> 'a cli" where
  "read_host_inventory password k =
     ask (ListHostsReq password) (\<lambda>r. case r of HostsR hosts \<Rightarrow> k hosts | _ \<Rightarrow> failed UnexpectedReply)"

definition cmd_host_list :: "bool \<Rightarrow> response option cli" where
  "cmd_host_list tty = require_tty tty ''host list'' (prompt ''Master password: '' (\<lambda>password.
     read_host_inventory password (\<lambda>hosts. Done (Inr (Some (HostsR hosts))))))"

definition named_host :: "string \<Rightarrow> host_metadata_row list \<Rightarrow> (host_metadata_row \<Rightarrow> 'a cli) \<Rightarrow> 'a cli" where
  "named_host alias hosts k = (case find (\<lambda>h. md_alias h = alias) hosts of
     None \<Rightarrow> failed (NoHostNamed alias) | Some h \<Rightarrow> k h)"

definition cmd_host_show :: "bool \<Rightarrow> string \<Rightarrow> response option cli" where
  "cmd_host_show tty alias = require_tty tty ''host show'' (prompt ''Master password: '' (\<lambda>password.
     read_host_inventory password (\<lambda>hosts. named_host alias hosts (\<lambda>h. Done (Inr (Some (HostsR [h])))))))"

definition no_changes :: "host_edit_args \<Rightarrow> bool" where
  "no_changes a \<longleftrightarrow> ea_hostname a = None \<and> ea_user a = None \<and> \<not> ea_clear_user a \<and> ea_port a = None \<and> \<not> ea_clear_port a
     \<and> ea_auth a = None \<and> ea_key_file a = None \<and> ea_via a = None \<and> ea_proxy_jump a = None \<and> \<not> ea_direct a
     \<and> ea_jump a = None \<and> \<not> ea_clear_jump a \<and> \<not> ea_change_password a"

definition edited_route :: "host_edit_args \<Rightarrow> host_route \<Rightarrow> host_route" where
  "edited_route a current =
     (if ea_direct a \<or> ea_clear_jump a then Direct
      else if ea_via a \<noteq> None \<or> ea_proxy_jump a \<noteq> None \<or> ea_jump a \<noteq> None
      then host_route_input (ea_via a) (ea_proxy_jump a) (ea_jump a)
      else current)"

definition edit_auth :: "host_edit_args \<Rightarrow> (host_auth option \<Rightarrow> 'a cli) \<Rightarrow> 'a cli" where
  "edit_auth a k =
     (if ea_change_password a then host_auth_input PasswordArg None (ea_alias a) (\<lambda>x. k (Some x))
      else (case ea_auth a of
        None \<Rightarrow> k None | Some auth \<Rightarrow> host_auth_input auth (ea_key_file a) (ea_alias a) (\<lambda>x. k (Some x))))"

definition update_request :: "host_edit_args \<Rightarrow> host_metadata_row \<Rightarrow> host_auth option \<Rightarrow> string \<Rightarrow> request" where
  "update_request a current auth password =
     UpdateHostReq (ea_alias a) (case ea_hostname a of Some h \<Rightarrow> h | None \<Rightarrow> md_hostname current)
       (if ea_clear_port a then None else case ea_port a of Some p \<Rightarrow> Some p | None \<Rightarrow> md_port current)
       (if ea_clear_user a then None else case ea_user a of Some u \<Rightarrow> Some u | None \<Rightarrow> md_user current)
       (edited_route a (md_route current)) auth password"

definition cmd_host_edit :: "bool \<Rightarrow> host_edit_args \<Rightarrow> response option cli" where
  "cmd_host_edit tty a = require_tty tty ''host edit''
     (if no_changes a then failed (BadUsage ''no changes requested; pass a field option or --change-password'')
      else prompt ''Master password: '' (\<lambda>password. read_host_inventory password (\<lambda>hosts.
        named_host (ea_alias a) hosts (\<lambda>current.
          if ea_key_file a \<noteq> None \<and> ea_auth a \<noteq> Some KeyFileArg then failed (BadUsage ''--key-file requires --auth key-file'')
          else edit_auth a (\<lambda>auth. ask (update_request a current auth password) (\<lambda>_. Done (Inr None)))))))"

text \<open>What a terminal is shown of a host's own text: \<open>escape_default\<close> of a control character.\<close>

definition hex_lower :: "nat \<Rightarrow> char" where
  "hex_lower n = (if n < 10 then char_of (48 + n) else char_of (87 + n))"

definition escape_default :: "char \<Rightarrow> string" where
  "escape_default c =
     (if code c = 9 then [BSL, CHR ''t''] else if code c = 10 then [BSL, CHR ''n''] else if code c = 13 then [BSL, CHR ''r'']
      else BSL # ''u{'' @ (if code c < 16 then [hex_lower (code c)] else [hex_lower (code c div 16), hex_lower (code c mod 16)]) @ ''}'')"

definition escape_terminal_controls :: "string \<Rightarrow> string" where
  "escape_terminal_controls s = concat (map (\<lambda>c. if is_control c then escape_default c else [c]) s)"

definition display_host_endpoint :: "string \<Rightarrow> nat option \<Rightarrow> string" where
  "display_host_endpoint hostname port = (case port of
     None \<Rightarrow> escape_terminal_controls hostname
   | Some p \<Rightarrow>
       if CHR '':'' \<in> set hostname then ''['' @ escape_terminal_controls hostname @ '']:'' @ show_nat p
       else escape_terminal_controls hostname @ '':'' @ show_nat p)"

text \<open>Whatever a host calls itself, the terminal receives no control character.\<close>

lemma escaped_is_plain: "c \<in> set (escape_terminal_controls s) \<Longrightarrow> \<not> is_control c"
proof -
  have hex: "n < 16 \<Longrightarrow> \<not> is_control (hex_lower n)" for n
    by (auto simp: hex_lower_def is_control_def)
  have "\<not> is_control x" if "x \<in> set (escape_default d)" for x d
  proof -
    have "of_char d div 16 < (16 :: nat)" by (rule less_mult_imp_div_less) (simp add: of_char_less_256)
    with that hex show ?thesis by (auto simp: escape_default_def is_control_def split: if_splits)
  qed
  then show "c \<in> set (escape_terminal_controls s) \<Longrightarrow> \<not> is_control c"
    by (auto simp: escape_terminal_controls_def split: if_splits)
qed

section \<open>Dispatch\<close>

datatype cli_command =
    RunCmd string string "string option" nat bool
  | PeekCmd string "string option" "nat option" bool
  | SendCmd string string "string option" bool
  | InterruptCmd string "string option"
  | OpenCmd string string
  | LsCmd "string option"
  | KillCmd string "string option"
  | RequestCmd "string list" bool
  | HostListCmd
  | HostShowCmd string
  | AddCmd add_args
  | EditCmd host_edit_args
  | RmCmd string
  | VaultInitCmd
  | VaultTimeoutCmd "nat option"
  | ForwardOpenCmd string forward_direction
  | ForwardLsCmd
  | ForwardStopCmd string

fun conversation :: "bool \<Rightarrow> nat \<Rightarrow> string option \<Rightarrow> cli_command \<Rightarrow> response option cli" where
  "conversation tty n token (RunCmd host command session timeout raw) = cmd_run token host command session timeout raw"
| "conversation tty n token (PeekCmd host session tail_n raw) = cmd_peek token host session tail_n raw"
| "conversation tty n token (SendCmd host keys session newline) = cmd_send token host keys session newline"
| "conversation tty n token (InterruptCmd host session) = cmd_interrupt token host session"
| "conversation tty n token (OpenCmd host name) = cmd_open token host name"
| "conversation tty n token (LsCmd host) = cmd_ls host"
| "conversation tty n token (KillCmd host session) = cmd_kill token host session"
| "conversation tty n token (RequestCmd hosts trust_new) = cmd_request hosts trust_new"
| "conversation tty n token HostListCmd = cmd_host_list tty"
| "conversation tty n token (HostShowCmd host) = cmd_host_show tty host"
| "conversation tty n token (AddCmd a) = cmd_add tty n a"
| "conversation tty n token (EditCmd a) = cmd_host_edit tty a"
| "conversation tty n token (RmCmd host) = cmd_rm tty host"
| "conversation tty n token VaultInitCmd = cmd_vault_init tty n"
| "conversation tty n token (VaultTimeoutCmd minutes) = cmd_vault_timeout minutes"
| "conversation tty n token (ForwardOpenCmd host direction) = cmd_forward_open token host direction"
| "conversation tty n token ForwardLsCmd = cmd_forward_ls"
| "conversation tty n token (ForwardStopCmd i) = cmd_forward_stop i"

section \<open>Commands without a terminal\<close>

definition carries_secret :: "request \<Rightarrow> bool" where
  "carries_secret r \<longleftrightarrow>
     request_kind r \<in> {''ApproveLease'', ''InitVault'', ''AddCred'', ''ListHosts'', ''UpdateHost'', ''RmCred''}"

definition unattended_op :: "client_op \<Rightarrow> bool" where
  "unattended_op p = (case p of PromptHidden _ \<Rightarrow> False | AskDaemon r \<Rightarrow> \<not> carries_secret r | _ \<Rightarrow> True)"

fun human_only :: "cli_command \<Rightarrow> bool" where
  "human_only HostListCmd = True"
| "human_only (HostShowCmd _) = True"
| "human_only (EditCmd _) = True"
| "human_only (RmCmd _) = True"
| "human_only VaultInitCmd = True"
| "human_only _ = False"

lemmas cli_commands = cmd_run_def cmd_peek_def cmd_send_def cmd_interrupt_def cmd_open_def cmd_kill_def cmd_ls_def
  cmd_forward_open_def cmd_forward_ls_def cmd_forward_stop_def cmd_request_def

lemmas human_commands = cmd_vault_init_def cmd_rm_def cmd_host_list_def cmd_host_show_def cmd_host_edit_def

lemma unattended_always: "always unattended_op (conversation False n token c)"
  by (cases c)
    (auto simp: cli_commands human_commands require_tty_def cmd_add_def cmd_vault_timeout_def unattended_op_def carries_secret_def
      intro!: always_ask split: response.split option.split sum.split client_answer.split)

section \<open>Refusals\<close>

lemma careful_prompt_new: "(\<And>p. careful (k p)) \<Longrightarrow> careful (prompt_new_password n k)"
  by (induction n) (auto intro!: careful_prompt)

lemma careful_prompt_master: "(\<And>p. careful (k p)) \<Longrightarrow> careful (prompt_master_password_cli n present k)"
  by (simp add: prompt_master_password_cli_def careful_prompt careful_prompt_new)

lemma careful_vault_exists: "(\<And>b. careful (k b)) \<Longrightarrow> careful (vault_exists_request k)"
  by (auto simp: vault_exists_request_def intro!: careful_ask split: response.split)

lemma careful_inventory: "(\<And>hs. careful (k hs)) \<Longrightarrow> careful (read_host_inventory password k)"
  by (auto simp: read_host_inventory_def intro!: careful_ask split: response.split)

lemma careful_named: "(\<And>h. careful (k h)) \<Longrightarrow> careful (named_host host hosts k)"
  by (simp add: named_host_def split: option.split)

lemma careful_auth_input: "(\<And>x. careful (k x)) \<Longrightarrow> careful (host_auth_input auth key_file host k)"
  by (auto simp: host_auth_input_def intro!: careful_prompt split: host_auth_arg.split option.split)

lemma careful_edit_auth: "(\<And>x. careful (k x)) \<Longrightarrow> careful (edit_auth a k)"
  by (auto simp: edit_auth_def intro!: careful_auth_input split: option.split)

lemmas careful_rules = careful_ask careful_prompt careful_and_then careful_prompt_new careful_prompt_master
  careful_vault_exists careful_inventory careful_named careful_auth_input careful_edit_auth

lemma careful_add: "careful (cmd_add tty n a)"
  by (auto simp: cmd_add_def refusal_def intro!: careful_rules split: client_answer.split sum.split)

lemma careful_vault_init: "careful (cmd_vault_init tty n)"
  by (auto simp: cmd_vault_init_def cmd_vault_init_inner_def require_tty_def intro!: careful_rules)

lemma careful_timeout: "careful (cmd_vault_timeout minutes)"
  by (auto simp: cmd_vault_timeout_def refusal_def split: option.split sum.split client_answer.split)

lemma careful_human: "careful (cmd_rm tty host)" "careful (cmd_host_list tty)" "careful (cmd_host_show tty host)" "careful (cmd_host_edit tty a)"
  by (auto simp: human_commands require_tty_def intro!: careful_rules)

lemma careful_conversation: "careful (conversation tty n token c)"
  by (cases c) (auto simp: cli_commands careful_add careful_vault_init careful_timeout careful_human
      intro!: careful_ask split: response.split)

section \<open>Properties\<close>

definition sample_add :: add_args where
  "sample_add = \<lparr>aa_alias = ''box'', aa_hostname = ''10.0.0.1'', aa_user = None, aa_port = None, aa_auth = PasswordArg,
     aa_key_file = None, aa_via = None, aa_proxy_jump = None, aa_jump = None\<rparr>"

text \<open>
  C36: No command that converses with the daemon, the human and the configuration files (sessions,
  forwards, requests, hosts, the vault) swallows an error: as soon as it receives one, be it an error
  of the daemon, a lost connection, a failed prompt or a failed edit of a file, it fails and does
  nothing more; so one that succeeds has received none.
\<close>

theorem errors_are_never_swallowed:
  assumes "performed (conversation tty n token c) answers = (before @ (p, Some a) # after, result)"
    and "answer_fits p a" and "refusal a"
  shows "after = [] \<and> (\<exists>e. result = Some (Inl e))"
  by (rule careful_performed[OF careful_conversation assms(1,3,2)])

theorem errors_are_never_swallowed_witness:
  "performed (conversation True 3 None (AddCmd sample_add)) [TypedC (Some ''key''), ReplyC (Inl ''closed''), TypedC (Some ''pw'')] =
     ([(PromptHidden ''SSH password for box: '', Some (TypedC (Some ''key''))), (AskDaemon VaultExists, Some (ReplyC (Inl ''closed'')))],
      Some (Inl (Disconnected ''closed'')))"
proof -
  have run: "performed (conversation True 3 None (AddCmd sample_add)) [TypedC (Some ''key''), ReplyC (Inl ''closed''), TypedC (Some ''pw'')] =
      ([(PromptHidden ''SSH password for box: '', Some (TypedC (Some ''key'')))] @ (AskDaemon VaultExists, Some (ReplyC (Inl ''closed''))) # [],
       Some (Inl (Disconnected ''closed'')))"
    by (simp add: cmd_add_def sample_add_def host_auth_input_def prompt_def vault_exists_request_def ask_def)
  from errors_are_never_swallowed[OF run] run show ?thesis by (simp add: refusal_def)
qed

section \<open>Editing a host\<close>

text \<open>
  The profile an edit asks for, written from the options alone: a route is replaced only by an
  option that names one, \<open>--via\<close> before \<open>--proxy-jump\<close> before \<open>--jump\<close>, or by one that drops it.
\<close>

definition edited_entry :: "host_edit_args \<Rightarrow> host_auth option \<Rightarrow> host_entry \<Rightarrow> host_entry" where
  "edited_entry a auth e =
     \<lparr>he_hostname = (case ea_hostname a of Some h \<Rightarrow> h | None \<Rightarrow> he_hostname e),
      he_port = (if ea_clear_port a then None else case ea_port a of Some p \<Rightarrow> Some p | None \<Rightarrow> he_port e),
      he_user = (if ea_clear_user a then None else case ea_user a of Some u \<Rightarrow> Some u | None \<Rightarrow> he_user e),
      he_auth = (case auth of Some x \<Rightarrow> auth_of x | None \<Rightarrow> he_auth e),
      he_route = (if ea_direct a \<or> ea_clear_jump a then Direct
         else case (ea_via a, ea_proxy_jump a, ea_jump a) of
           (Some hop, _, _) \<Rightarrow> ManagedHost hop
         | (None, Some spec, _) \<Rightarrow> ProxyJump spec
         | (None, None, Some spec) \<Rightarrow> ProxyJump spec
         | (None, None, None) \<Rightarrow> he_route e)\<rparr>"

definition asked_auth :: "host_edit_args \<Rightarrow> host_auth option \<Rightarrow> bool" where
  "asked_auth a auth \<longleftrightarrow>
     (if ea_change_password a then \<exists>p. auth = Some (AuthPassword p)
      else case ea_auth a of
        None \<Rightarrow> auth = None
      | Some AgentArg \<Rightarrow> auth = Some AuthAgent
      | Some PasswordArg \<Rightarrow> (\<exists>p. auth = Some (AuthPassword p))
      | Some KeyFileArg \<Rightarrow> (\<exists>path. ea_key_file a = Some path \<and> auth = Some (AuthKeyFile path)))"

definition update_of :: "host_edit_args \<Rightarrow> host_metadata_row \<Rightarrow> host_update" where
  "update_of a current =
     \<lparr>hu_alias = ea_alias a, hu_hostname = (case ea_hostname a of Some h \<Rightarrow> h | None \<Rightarrow> md_hostname current),
      hu_port = (if ea_clear_port a then None else case ea_port a of Some p \<Rightarrow> Some p | None \<Rightarrow> md_port current),
      hu_user = (if ea_clear_user a then None else case ea_user a of Some u \<Rightarrow> Some u | None \<Rightarrow> md_user current),
      hu_route = edited_route a (md_route current)\<rparr>"

lemma ask_success:
  assumes "performed (ask r k) answers = (tr, Some (Inr x))"
  obtains resp rest tr' where "answers = ReplyC (Inr resp) # rest" "\<And>m. resp \<noteq> ErrorR m"
    "performed (k resp) rest = (tr', Some (Inr x))" "tr = (AskDaemon r, Some (ReplyC (Inr resp))) # tr'"
  using assms by (auto simp: asked split: list.splits prod.splits client_answer.splits sum.splits if_splits)

lemma prompt_success:
  assumes "performed (prompt l k) answers = (tr, Some (Inr x))"
  obtains s rest tr' where "answers = TypedC (Some s) # rest" "performed (k s) rest = (tr', Some (Inr x))"
    "tr = (PromptHidden l, Some (TypedC (Some s))) # tr'"
  using assms by (auto simp: prompt_def split: list.splits prod.splits client_answer.splits option.splits)

lemma inventory_success:
  assumes "performed (read_host_inventory password k) answers = (tr, Some (Inr x))"
  obtains hosts rest tr' where "performed (k hosts) rest = (tr', Some (Inr x))"
    "tr = (AskDaemon (ListHostsReq password), Some (ReplyC (Inr (HostsR hosts)))) # tr'"
proof -
  from assms[unfolded read_host_inventory_def] show thesis
    by (rule ask_success) (auto intro: that split: response.splits)
qed

lemma auth_success:
  assumes "performed (edit_auth a k) answers = (tr, Some (Inr x))"
  obtains auth rest tr0 tr' where "asked_auth a auth" "performed (k auth) rest = (tr', Some (Inr x))" "tr = tr0 @ tr'"
proof -
  note result = that
  have input: thesis if run: "performed (host_auth_input auth key_file (ea_alias a) (\<lambda>x. k (Some x))) answers = (tr, Some (Inr x))"
    and key: "auth = KeyFileArg \<Longrightarrow> key_file = ea_key_file a"
    and sel: "if ea_change_password a then auth = PasswordArg else ea_auth a = Some auth" for auth key_file
  proof (cases auth)
    case AgentArg
    with run sel result[of "Some AuthAgent" answers tr "[]"] show thesis
      by (auto simp: host_auth_input_def asked_auth_def split: if_splits)
  next
    case PasswordArg
    with run have "performed (prompt (''SSH password for '' @ ea_alias a @ '': '') (\<lambda>p. k (Some (AuthPassword p)))) answers = (tr, Some (Inr x))"
      by (auto simp: host_auth_input_def split: if_splits)
    then show thesis
    proof (rule prompt_success)
      fix s rest tr' assume "performed (k (Some (AuthPassword s))) rest = (tr', Some (Inr x))"
        "tr = (PromptHidden (''SSH password for '' @ ea_alias a @ '': ''), Some (TypedC (Some s))) # tr'"
      with PasswordArg sel show thesis
        by (intro result[of "Some (AuthPassword s)" rest tr' "[_]"]) (auto simp: asked_auth_def split: if_splits)
    qed
  next
    case KeyFileArg
    with run obtain path where "key_file = Some path" "performed (k (Some (AuthKeyFile path))) answers = (tr, Some (Inr x))"
      by (auto simp: host_auth_input_def split: option.splits)
    with KeyFileArg key sel show thesis
      by (intro result[of "Some (AuthKeyFile path)" answers tr "[]"]) (auto simp: asked_auth_def split: if_splits)
  qed
  show thesis
  proof (cases "ea_change_password a")
    case True
    with assms show thesis by (intro input[of PasswordArg None]) (simp_all add: edit_auth_def)
  next
    case False
    show thesis
    proof (cases "ea_auth a")
      case None
      with False assms show thesis by (intro result[of None answers tr "[]"]) (simp_all add: edit_auth_def asked_auth_def)
    next
      case (Some auth)
      with False assms show thesis by (intro input[of auth "ea_key_file a"]) (simp_all add: edit_auth_def)
    qed
  qed
qed

lemma listed_entry:
  assumes "hm_ok v" "find (\<lambda>h. md_alias h = name) (host_metadata v) = Some row"
  obtains e where "hm_get v name = Some e" "row = \<lparr>md_alias = name, md_hostname = he_hostname e, md_port = he_port e,
    md_user = he_user e, md_auth = auth_kind (he_auth e), md_route = he_route e\<rparr>"
proof -
  from find_SomeD[OF assms(2)] have "row \<in> set (host_metadata v)" "md_alias row = name" by auto
  then obtain e where "(name, e) \<in> set v" "row = \<lparr>md_alias = name, md_hostname = he_hostname e, md_port = he_port e,
    md_user = he_user e, md_auth = auth_kind (he_auth e), md_route = he_route e\<rparr>"
    by (auto simp: host_metadata_def)
  with hm_get_in[OF assms(1)] show thesis by (intro that)
qed

lemma edited_route_asked: "edited_route a r =
    (if ea_direct a \<or> ea_clear_jump a then Direct
     else case (ea_via a, ea_proxy_jump a, ea_jump a) of
       (Some hop, _, _) \<Rightarrow> ManagedHost hop
     | (None, Some spec, _) \<Rightarrow> ProxyJump spec
     | (None, None, Some spec) \<Rightarrow> ProxyJump spec
     | (None, None, None) \<Rightarrow> r)"
  by (simp add: edited_route_def host_route_input_def split: option.split)

lemma updated_entry:
  assumes "hm_get v (ea_alias a) = Some e" "update_hosts v (update_of a row) (map_option auth_of auth) = Inr v'"
    and "row = \<lparr>md_alias = ea_alias a, md_hostname = he_hostname e, md_port = he_port e,
      md_user = he_user e, md_auth = auth_kind (he_auth e), md_route = he_route e\<rparr>"
  shows "hm_get v' = (hm_get v)(ea_alias a \<mapsto> edited_entry a auth e)"
  using assms(1,2)
  unfolding edited_entry_def edited_route_asked[symmetric] assms(3)
  by (auto simp: update_hosts_def update_of_def Let_def fun_eq_iff split: sum.splits option.splits)

lemma update_asked: "handle_negotiated cfg peer (update_request a row auth password) =
    change_vault (UpdateHost (update_of a row) (map_option auth_of auth) password)"
  by (simp add: update_request_def update_of_def)

lemma edit_success:
  assumes "performed (cmd_host_edit True a) answers = (tr, Some (Inr shown))"
  obtains password hosts row auth where
    "(AskDaemon (ListHostsReq password), Some (ReplyC (Inr (HostsR hosts)))) \<in> set tr"
    "find (\<lambda>h. md_alias h = ea_alias a) hosts = Some row" "asked_auth a auth"
    "fst (last tr) = AskDaemon (update_request a row auth password)"
proof -
  let ?change = "\<lambda>row password auth. ask (update_request a row auth password) (\<lambda>_. Done (Inr None)) :: response option cli"
  from assms have "performed (prompt ''Master password: '' (\<lambda>password. read_host_inventory password (\<lambda>hosts.
      named_host (ea_alias a) hosts (\<lambda>row.
        if ea_key_file a \<noteq> None \<and> ea_auth a \<noteq> Some KeyFileArg then failed (BadUsage ''--key-file requires --auth key-file'')
        else edit_auth a (?change row password))))) answers = (tr, Some (Inr shown))"
    by (simp add: cmd_host_edit_def require_tty_def split: if_splits)
  then obtain password rest1 tr1 where tr: "tr = (PromptHidden ''Master password: '', Some (TypedC (Some password))) # tr1"
    and run1: "performed (read_host_inventory password (\<lambda>hosts. named_host (ea_alias a) hosts (\<lambda>row.
        if ea_key_file a \<noteq> None \<and> ea_auth a \<noteq> Some KeyFileArg then failed (BadUsage ''--key-file requires --auth key-file'')
        else edit_auth a (?change row password)))) rest1 = (tr1, Some (Inr shown))"
    by (rule prompt_success) blast
  from run1 obtain hosts rest2 tr2
    where tr1: "tr1 = (AskDaemon (ListHostsReq password), Some (ReplyC (Inr (HostsR hosts)))) # tr2"
      and run2: "performed (named_host (ea_alias a) hosts (\<lambda>row.
        if ea_key_file a \<noteq> None \<and> ea_auth a \<noteq> Some KeyFileArg then failed (BadUsage ''--key-file requires --auth key-file'')
        else edit_auth a (?change row password))) rest2 = (tr2, Some (Inr shown))"
    by (rule inventory_success) blast
  from run2 obtain row where row: "find (\<lambda>h. md_alias h = ea_alias a) hosts = Some row"
    and run3: "performed (edit_auth a (?change row password)) rest2 = (tr2, Some (Inr shown))"
    by (auto simp: named_host_def split: option.splits if_splits)
  from run3 obtain auth rest3 tr0 tr3 where auth: "asked_auth a auth" and tr2: "tr2 = tr0 @ tr3"
    and run4: "performed (?change row password auth) rest3 = (tr3, Some (Inr shown))"
    by (rule auth_success) blast
  from run4 obtain resp where "tr3 = [(AskDaemon (update_request a row auth password), Some (ReplyC (Inr resp)))]"
    by (rule ask_success) auto
  with tr tr1 tr2 row auth show thesis by (intro that) auto
qed

text \<open>
  C28: Editing a host changes what was asked and nothing else: the request a successful \<open>host edit\<close>
  ends with makes the vault it listed keep every other profile, and of this one every field no
  option named; the credentials too, unless an option asked for new ones.
\<close>

theorem edit_changes_only_what_was_asked:
  assumes "performed (conversation True n token (EditCmd a)) answers = (tr, Some (Inr shown))"
    and "\<forall>password rows. (AskDaemon (ListHostsReq password), Some (ReplyC (Inr (HostsR rows)))) \<in> set tr \<longrightarrow> rows = host_metadata v"
    and "hm_ok v"
  shows "\<exists>r u auth password e. fst (last tr) = AskDaemon r \<and> asked_auth a auth \<and> hm_get v (ea_alias a) = Some e \<and>
    handle_negotiated cfg peer r = change_vault (UpdateHost u (map_option auth_of auth) password) \<and>
    (\<forall>v'. update_hosts v u (map_option auth_of auth) = Inr v' \<longrightarrow>
       hm_get v' = (hm_get v)(ea_alias a \<mapsto> edited_entry a auth e))"
proof -
  from assms(1) have "performed (cmd_host_edit True a) answers = (tr, Some (Inr shown))" by simp
  then obtain password hosts row auth where
      "(AskDaemon (ListHostsReq password), Some (ReplyC (Inr (HostsR hosts)))) \<in> set tr"
    and found: "find (\<lambda>h. md_alias h = ea_alias a) hosts = Some row" and auth: "asked_auth a auth"
    and final: "fst (last tr) = AskDaemon (update_request a row auth password)" by (rule edit_success)
  with assms(2) found have "find (\<lambda>h. md_alias h = ea_alias a) (host_metadata v) = Some row" by metis
  from listed_entry[OF assms(3) this] obtain e where e: "hm_get v (ea_alias a) = Some e"
    "row = \<lparr>md_alias = ea_alias a, md_hostname = he_hostname e, md_port = he_port e,
       md_user = he_user e, md_auth = auth_kind (he_auth e), md_route = he_route e\<rparr>" .
  show ?thesis using final auth e(1) update_asked updated_entry[OF e(1) _ e(2)] by metis
qed

definition sample_edit :: host_edit_args where
  "sample_edit = \<lparr>ea_alias = ''box'', ea_hostname = None, ea_user = None, ea_clear_user = False, ea_port = Some 2222,
     ea_clear_port = False, ea_auth = None, ea_key_file = None, ea_via = None, ea_proxy_jump = None,
     ea_direct = False, ea_jump = None, ea_clear_jump = False, ea_change_password = False\<rparr>"

definition sample_box :: vault_data where
  "sample_box = [(''box'', \<lparr>he_hostname = ''10.0.0.1'', he_port = None, he_user = Some ''me'', he_auth = Agent, he_route = Direct\<rparr>)]"

theorem edit_changes_only_what_was_asked_witness:
  "fst (performed (conversation True 3 None (EditCmd sample_edit))
       [TypedC (Some ''pw''), ReplyC (Inr (HostsR (host_metadata sample_box))), ReplyC (Inr OkR)]) =
     [(PromptHidden ''Master password: '', Some (TypedC (Some ''pw''))),
      (AskDaemon (ListHostsReq ''pw''), Some (ReplyC (Inr (HostsR (host_metadata sample_box))))),
      (AskDaemon (UpdateHostReq ''box'' ''10.0.0.1'' (Some 2222) (Some ''me'') Direct None ''pw''), Some (ReplyC (Inr OkR)))] \<and>
   (\<exists>auth e. asked_auth sample_edit auth \<and> hm_get sample_box ''box'' = Some e)"
proof -
  let ?tr = "[(PromptHidden ''Master password: '', Some (TypedC (Some ''pw''))),
     (AskDaemon (ListHostsReq ''pw''), Some (ReplyC (Inr (HostsR (host_metadata sample_box))))),
     (AskDaemon (UpdateHostReq ''box'' ''10.0.0.1'' (Some 2222) (Some ''me'') Direct None ''pw''), Some (ReplyC (Inr OkR)))]"
  have run: "performed (conversation True 3 None (EditCmd sample_edit))
       [TypedC (Some ''pw''), ReplyC (Inr (HostsR (host_metadata sample_box))), ReplyC (Inr OkR)] = (?tr, Some (Inr None))"
    by (simp add: cmd_host_edit_def require_tty_def no_changes_def sample_edit_def prompt_def read_host_inventory_def ask_def
        named_host_def host_metadata_def sample_box_def edit_auth_def update_request_def edited_route_def)
  have listed: "\<forall>password rows. (AskDaemon (ListHostsReq password), Some (ReplyC (Inr (HostsR rows)))) \<in> set ?tr
      \<longrightarrow> rows = host_metadata sample_box" by simp
  have "hm_ok sample_box" by (simp add: hm_ok_def sample_box_def)
  from edit_changes_only_what_was_asked[OF run, where v = sample_box and cfg = undefined and peer = None, OF listed this]
  have "\<exists>auth e. asked_auth sample_edit auth \<and> hm_get sample_box (ea_alias sample_edit) = Some e" by blast
  then have "\<exists>auth e. asked_auth sample_edit auth \<and> hm_get sample_box ''box'' = Some e" by (simp add: sample_edit_def)
  with run show ?thesis by simp
qed

end
