(* ===== verification/Desktop_Hosts.thy ===== *)
theory Desktop_Hosts
  imports Client
begin

text \<open>
  The desktop program's host commands (\<open>src/gui/src-tauri/src/host_commands.rs\<close>) and its connection
  test (\<open>host_operations.rs\<close>): the inventory of the user's OpenSSH configuration and of the vault, the
  edits of both, and keys loaded into the SSH agent. \<open>decodes\<close> is whether a pasted private key decodes.
\<close>

record host_input =
  hi_system :: bool
  hi_alias :: string
  hi_hostname :: string
  hi_port :: "nat option"
  hi_user :: "string option"
  hi_auth :: host_auth_kind
  hi_password :: "string option"
  hi_key_file :: "string option"
  hi_private_key :: "string option"
  hi_sync_to_agent :: bool
  hi_route :: host_route

definition input_summary :: "host_input \<Rightarrow> host_summary" where
  "input_summary h = \<lparr>hs_alias = hi_alias h, hs_hostname = hi_hostname h, hs_port = hi_port h, hs_user = hi_user h,
     hs_auth = AgentKind, hs_route = hi_route h\<rparr>"

definition host_auth :: "(string \<Rightarrow> bool) \<Rightarrow> host_input \<Rightarrow> cli_error + host_auth" where
  "host_auth decodes h = (case hi_auth h of
     AgentKind \<Rightarrow> Inr AuthAgent
   | PasswordKind \<Rightarrow> (case hi_password h of
       Some p \<Rightarrow> if p = [] then Inl (BadUsage ''Enter the SSH password.'') else Inr (AuthPassword p)
     | None \<Rightarrow> Inl (BadUsage ''Enter the SSH password.''))
   | KeyFileKind \<Rightarrow> (case hi_key_file h of
       Some path \<Rightarrow> if trim path = [] then Inl (BadUsage ''Choose a private key file path.'') else Inr (AuthKeyFile path)
     | None \<Rightarrow> Inl (BadUsage ''Choose a private key file path.''))
   | PrivateKeyKind \<Rightarrow> (case hi_private_key h of
       Some key \<Rightarrow> if decodes key then Inr (AuthPrivateKey key) else Inl (BadUsage ''Invalid or unsupported private key'')
     | None \<Rightarrow> Inl (BadUsage ''Paste a private key.'')))"

text \<open>The result is the warning that loading the key failed, if it did.\<close>

definition sync_saved_key :: "host_auth option \<Rightarrow> bool cli" where
  "sync_saved_key auth = (case auth of
     None \<Rightarrow> Done (Inr False)
   | Some (AuthKeyFile path) \<Rightarrow> Do (LoadKey (AuthKeyFile path)) (\<lambda>a. case a of FlagC ok \<Rightarrow> Done (Inr (\<not> ok)) | _ \<Rightarrow> Waiting)
   | Some (AuthPrivateKey key) \<Rightarrow> Do (LoadKey (AuthPrivateKey key)) (\<lambda>a. case a of FlagC ok \<Rightarrow> Done (Inr (\<not> ok)) | _ \<Rightarrow> Waiting)
   | Some _ \<Rightarrow> Done (Inr True))"

definition key_to_sync :: "host_auth \<Rightarrow> bool \<Rightarrow> cli_error + host_auth option" where
  "key_to_sync auth enabled =
     (if \<not> enabled then Inr None
      else (case auth of
        AuthKeyFile _ \<Rightarrow> Inr (Some auth) | AuthPrivateKey _ \<Rightarrow> Inr (Some auth)
      | _ \<Rightarrow> Inl (BadUsage ''Only private-key authentication can be loaded into SSH Agent.'')))"

definition checked :: "cli_error + 'a \<Rightarrow> ('a \<Rightarrow> 'b cli) \<Rightarrow> 'b cli" where
  "checked r k = (case r of Inl e \<Rightarrow> failed e | Inr x \<Rightarrow> k x)"

definition save_system_host :: "(string \<Rightarrow> bool) \<Rightarrow> host_input \<Rightarrow> bool \<Rightarrow> bool cli" where
  "save_system_host decodes h replace =
     (if hi_auth h = PasswordKind then failed (BadUsage ''Password profiles belong in the vault, under a separate alias.'')
      else checked (if hi_sync_to_agent h then map_sum id Some (host_auth decodes h) else Inr None) (\<lambda>sync.
        if hi_auth h \<noteq> AgentKind \<and> sync = None
        then failed (BadUsage ''System-host keys must be loaded into SSH Agent on save.'')
        else Do (SaveSystemHost (input_summary h) replace) (\<lambda>a. case a of
          EditedC (Inl e) \<Rightarrow> failed (EditFailed e) | EditedC (Inr _) \<Rightarrow> sync_saved_key sync | _ \<Rightarrow> Waiting)))"

definition owned_by_config :: "string \<Rightarrow> (bool \<Rightarrow> 'a cli) \<Rightarrow> 'a cli" where
  "owned_by_config alias k = Do (OwnedByConfig alias) (\<lambda>a. case a of FlagC b \<Rightarrow> k b | _ \<Rightarrow> Waiting)"

definition master_password :: "(string \<Rightarrow> 'a cli) \<Rightarrow> 'a cli" where
  "master_password k = Do TakePassword (\<lambda>a. case a of
     TypedC (Some p) \<Rightarrow> k p | TypedC None \<Rightarrow> failed DesktopLocked | _ \<Rightarrow> Waiting)"

definition host_inventory :: "string \<Rightarrow> (host_metadata_row list \<Rightarrow> 'a cli) \<Rightarrow> 'a cli" where
  "host_inventory password k =
     ask (ListHostsReq password) (\<lambda>r. case r of HostsR hosts \<Rightarrow> k hosts | _ \<Rightarrow> failed UnexpectedReply)"

definition saved :: "host_auth option \<Rightarrow> response \<Rightarrow> bool cli" where
  "saved sync r = (if r = OkR then sync_saved_key sync else failed UnexpectedReply)"

definition add_host :: "(string \<Rightarrow> bool) \<Rightarrow> host_input \<Rightarrow> bool cli" where
  "add_host decodes h =
     (if hi_system h then save_system_host decodes h False
      else owned_by_config (hi_alias h) (\<lambda>owned.
        if owned then failed (BadUsage ''This alias is owned by SSH config. Edit the system host or use another alias.'')
        else master_password (\<lambda>password. host_inventory password (\<lambda>existing.
          if \<exists>e\<in>set existing. md_alias e = hi_alias h then failed (BadUsage ''already in the vault'')
          else checked (host_auth decodes h) (\<lambda>auth. checked (key_to_sync auth (hi_sync_to_agent h)) (\<lambda>sync.
            ask (AddCred (hi_alias h) (hi_hostname h) (hi_port h) (hi_user h) auth password False (hi_route h)) (saved sync)))))))"

definition update_host :: "(string \<Rightarrow> bool) \<Rightarrow> host_input \<Rightarrow> bool \<Rightarrow> bool cli" where
  "update_host decodes h change_auth =
     owned_by_config (hi_alias h) (\<lambda>owned.
       if hi_system h
       then if owned then save_system_host decodes h True
            else failed (BadUsage ''This system host no longer exists. Reload the list before editing.'')
       else if owned then failed (BadUsage ''This alias is owned by SSH config; use a different alias for a vault profile.'')
       else master_password (\<lambda>password.
         checked (if change_auth then map_sum id Some (host_auth decodes h) else Inr None) (\<lambda>auth.
           checked (case auth of
               Some x \<Rightarrow> key_to_sync x (hi_sync_to_agent h)
             | None \<Rightarrow> if hi_sync_to_agent h
                 then Inl (BadUsage ''Select Change authentication and supply the key to load it into SSH Agent.'')
                 else Inr None) (\<lambda>sync.
             ask (UpdateHostReq (hi_alias h) (hi_hostname h) (hi_port h) (hi_user h) (hi_route h) auth password) (saved sync)))))"

definition remove_host_command :: "string \<Rightarrow> bool \<Rightarrow> bool cli" where
  "remove_host_command alias system =
     (if system
      then Do (RemoveSystemHost alias) (\<lambda>a. case a of
        EditedC (Inl e) \<Rightarrow> failed (EditFailed e) | EditedC (Inr _) \<Rightarrow> Done (Inr False) | _ \<Rightarrow> Waiting)
      else master_password (\<lambda>password. ask (RmCred alias password) (\<lambda>r. if r = OkR then Done (Inr False) else failed UnexpectedReply)))"

subsection \<open>The inventory\<close>

record managed_host =
  mh_host :: host_summary
  mh_system :: bool
  mh_edit_error :: "edit_error option"

definition row_summary :: "host_metadata_row \<Rightarrow> host_summary" where
  "row_summary r = \<lparr>hs_alias = md_alias r, hs_hostname = md_hostname r, hs_port = md_port r, hs_user = md_user r,
     hs_auth = md_auth r, hs_route = md_route r\<rparr>"

definition push_vault_host :: "host_metadata_row \<Rightarrow> managed_host list \<Rightarrow> managed_host list" where
  "push_vault_host r hosts =
     (if \<exists>m\<in>set hosts. hs_alias (mh_host m) = md_alias r then hosts
      else hosts @ [\<lparr>mh_host = row_summary r, mh_system = False, mh_edit_error = None\<rparr>])"

definition sorted_hosts :: "managed_host list \<Rightarrow> managed_host list" where
  "sorted_hosts = sort_key (\<lambda>m. hs_alias (mh_host m))"

definition list_hosts_command :: "managed_host list cli" where
  "list_hosts_command = Do ListSystemHosts (\<lambda>a. case a of
     InventoryC (Inl e) \<Rightarrow> failed (EditFailed e)
   | InventoryC (Inr entries) \<Rightarrow>
       let hosts = map (\<lambda>(h, e). \<lparr>mh_host = h, mh_system = True, mh_edit_error = e\<rparr>) entries in
       Do ReadUnlocked (\<lambda>a. case a of
         FlagC True \<Rightarrow> master_password (\<lambda>password. host_inventory password (\<lambda>rows.
           Done (Inr (sorted_hosts (fold push_vault_host rows hosts)))))
       | FlagC False \<Rightarrow> Done (Inr (sorted_hosts hosts))
       | _ \<Rightarrow> Waiting)
   | _ \<Rightarrow> Waiting)"

subsection \<open>The connection test\<close>

definition test_host_connection :: "string \<Rightarrow> unit cli" where
  "test_host_connection alias = ask (RequestLease [alias]) (\<lambda>r. case r of
     OkR \<Rightarrow> ask (TestConnection alias None) (\<lambda>r. if r = OkR then Done (Inr ()) else failed UnexpectedReply)
   | LeaseRequestPending info \<Rightarrow> failed (ApprovalPending info)
   | _ \<Rightarrow> failed UnexpectedReply)"

datatype desktop_command = AddHostD host_input | UpdateHostD host_input bool | RemoveHostD string bool

fun run_desktop :: "(string \<Rightarrow> bool) \<Rightarrow> desktop_command \<Rightarrow> bool cli" where
  "run_desktop decodes (AddHostD h) = add_host decodes h"
| "run_desktop decodes (UpdateHostD h change_auth) = update_host decodes h change_auth"
| "run_desktop decodes (RemoveHostD alias system) = remove_host_command alias system"

section \<open>Keys follow saves\<close>

text \<open>\<open>saves p k\<close>: operation \<open>p\<close> stores a profile whose key is \<open>k\<close>, or the system host it belongs to.\<close>

fun saves :: "client_op \<Rightarrow> host_auth \<Rightarrow> bool" where
  "saves (AskDaemon (AddCred _ _ _ _ auth _ _ _)) k \<longleftrightarrow> auth = k"
| "saves (AskDaemon (UpdateHostReq _ _ _ _ _ auth _)) k \<longleftrightarrow> auth = Some k"
| "saves (SaveSystemHost _ _) k \<longleftrightarrow> True"
| "saves _ k \<longleftrightarrow> False"

fun is_key :: "host_auth \<Rightarrow> bool" where
  "is_key (AuthKeyFile _) = True" | "is_key (AuthPrivateKey _) = True" | "is_key _ = False"

definition just_saved :: "(client_op \<times> client_answer) option \<Rightarrow> host_auth \<Rightarrow> bool" where
  "just_saved prev k \<longleftrightarrow> is_key k \<and> (\<exists>q x. prev = Some (q, x) \<and> saves q k \<and> \<not> refusal x)"

text \<open>Every key \<open>m\<close> loads was saved by the operation before, and loading it is the last operation.\<close>

primrec key_after :: "'a client \<Rightarrow> (client_op \<times> client_answer) option \<Rightarrow> bool" where
  "key_after (Done r) = (\<lambda>prev. True)"
| "key_after (Do p c) = (\<lambda>prev. (\<forall>k. p = LoadKey k \<longrightarrow> just_saved prev k \<and> (\<forall>a. c a = Waiting \<or> (\<exists>r. c a = Done r)))
     \<and> (\<forall>a. key_after (c a) (Some (p, a))))"
| "key_after Waiting = (\<lambda>prev. True)"

lemma key_after_performed:
  "key_after m prev \<Longrightarrow> performed m answers = (tr, r) \<Longrightarrow> (LoadKey k, a) \<in> set tr \<Longrightarrow>
     (\<exists>tr0 q x. tr = tr0 @ [(q, Some x), (LoadKey k, a)] \<and> is_key k \<and> saves q k \<and> \<not> refusal x) \<or> (tr = [(LoadKey k, a)] \<and> just_saved prev k)"
proof (induction m arbitrary: answers prev tr)
  case (Do p c)
  show ?case
  proof (cases answers)
    case Nil
    with Do.prems show ?thesis by auto
  next
    case (Cons x rest)
    obtain tr' where run: "performed (c x) rest = (tr', r)" and tr: "tr = (p, Some x) # tr'"
      using Do.prems(2) Cons by (auto split: prod.splits)
    show ?thesis
    proof (cases "p = LoadKey k \<and> a = Some x \<and> (LoadKey k, a) \<notin> set tr'")
      case True
      with Do.prems(1) have "just_saved prev k" "c x = Waiting \<or> (\<exists>r. c x = Done r)" by auto
      with run True tr show ?thesis by auto
    next
      case False
      with Do.prems(3) tr have "(LoadKey k, a) \<in> set tr'" by auto
      moreover have "key_after (c x) (Some (p, x))" using Do.prems(1) by simp
      ultimately have "(\<exists>tr0 q y. tr' = tr0 @ [(q, Some y), (LoadKey k, a)] \<and> is_key k \<and> saves q k \<and> \<not> refusal y)
          \<or> (tr' = [(LoadKey k, a)] \<and> just_saved (Some (p, x)) k)"
        using Do.IH[OF rangeI _ run] by blast
      then show ?thesis
      proof (elim disjE exE conjE)
        fix tr0 q y assume "tr' = tr0 @ [(q, Some y), (LoadKey k, a)]" "is_key k" "saves q k" "\<not> refusal y"
        with tr have "tr = ((p, Some x) # tr0) @ [(q, Some y), (LoadKey k, a)]" by simp
        with \<open>is_key k\<close> \<open>saves q k\<close> \<open>\<not> refusal y\<close> show ?thesis by blast
      next
        assume "tr' = [(LoadKey k, a)]" "just_saved (Some (p, x)) k"
        with tr show ?thesis by (auto simp: just_saved_def)
      qed
    qed
  qed
qed auto

lemma key_after_ask:
  "(\<And>x. (\<forall>m. x \<noteq> ErrorR m) \<Longrightarrow> key_after (k x) (Some (AskDaemon r, ReplyC (Inr x)))) \<Longrightarrow> key_after (ask r k) prev"
  by (auto simp: asked split: client_answer.split sum.split)

lemma key_after_sync:
  "(\<And>k. auth = Some k \<Longrightarrow> is_key k \<Longrightarrow> just_saved prev k) \<Longrightarrow> key_after (sync_saved_key auth) prev"
  by (auto simp: sync_saved_key_def split: option.split host_auth.split client_answer.split)

lemma key_after_checked: "(\<And>x. r = Inr x \<Longrightarrow> key_after (k x) prev) \<Longrightarrow> key_after (checked r k) prev"
  by (simp add: checked_def split: sum.split)

lemma key_after_owned: "(\<And>b x. key_after (k b) (Some (OwnedByConfig name, x))) \<Longrightarrow> key_after (owned_by_config name k) prev"
  by (simp add: owned_by_config_def split: client_answer.split)

lemma key_after_password: "(\<And>p x. key_after (k p) (Some (TakePassword, x))) \<Longrightarrow> key_after (master_password k) prev"
  by (simp add: master_password_def split: client_answer.split option.split)

lemma key_after_inventory: "(\<And>rows prev. key_after (k rows) prev) \<Longrightarrow> key_after (host_inventory p k) prev"
  by (auto simp: host_inventory_def intro!: key_after_ask split: response.split)

lemma synced_key: "key_to_sync auth enabled = Inr (Some k) \<Longrightarrow> k = auth \<and> is_key k"
  by (auto simp: key_to_sync_def split: if_splits host_auth.splits)

lemma key_after_saved:
  "(\<And>k. sync = Some k \<Longrightarrow> is_key k \<and> saves (AskDaemon r) k) \<Longrightarrow> key_after (saved sync x) (Some (AskDaemon r, ReplyC (Inr x)))"
  by (auto simp: saved_def just_saved_def refusal_def intro!: key_after_sync)

lemma key_after_system: "key_after (save_system_host decodes h replace) prev"
  by (auto simp: save_system_host_def just_saved_def refusal_def intro!: key_after_checked key_after_sync
      split: client_answer.split sum.split)

lemma key_after_add: "key_after (add_host decodes h) prev"
  unfolding add_host_def
  by (auto intro!: key_after_system key_after_owned key_after_password key_after_inventory key_after_checked
      key_after_ask key_after_saved dest!: synced_key)

lemma key_after_update: "key_after (update_host decodes h change) prev"
  unfolding update_host_def
  by (auto intro!: key_after_system key_after_owned key_after_password key_after_checked key_after_ask key_after_saved
      dest!: synced_key split: option.splits if_splits)

lemma key_after_desktop: "key_after (run_desktop decodes c) prev"
  by (cases c) (auto simp: key_after_add key_after_update remove_host_command_def
      intro!: key_after_password key_after_ask split: client_answer.split sum.split)

section \<open>The configuration owns its aliases\<close>

fun stored_alias :: "request \<Rightarrow> string option" where
  "stored_alias (AddCred name _ _ _ _ _ _ _) = Some name"
| "stored_alias (UpdateHostReq name _ _ _ _ _ _) = Some name"
| "stored_alias _ = None"

text \<open>Every profile \<open>m\<close> stores has an alias the configuration was seen not to own (\<open>S\<close> are those so far).\<close>

primrec cleared :: "'a client \<Rightarrow> string set \<Rightarrow> bool" where
  "cleared (Done r) = (\<lambda>S. True)"
| "cleared (Do p c) = (\<lambda>S. (\<forall>r name. p = AskDaemon r \<and> stored_alias r = Some name \<longrightarrow> name \<in> S)
     \<and> (\<forall>a. cleared (c a) (S \<union> {name. p = OwnedByConfig name \<and> a = FlagC False})))"
| "cleared Waiting = (\<lambda>S. True)"

lemma cleared_performed:
  "cleared m S \<Longrightarrow> performed m answers = (tr, res) \<Longrightarrow> (AskDaemon r, a) \<in> set tr \<Longrightarrow> stored_alias r = Some name \<Longrightarrow>
     name \<in> S \<or> (OwnedByConfig name, Some (FlagC False)) \<in> set tr"
proof (induction m arbitrary: answers S tr)
  case (Do p c)
  show ?case
  proof (cases answers)
    case Nil
    with Do.prems show ?thesis by auto
  next
    case (Cons x rest)
    obtain tr' where run: "performed (c x) rest = (tr', res)" and tr: "tr = (p, Some x) # tr'"
      using Do.prems(2) Cons by (auto split: prod.splits)
    show ?thesis
    proof (cases "(AskDaemon r, a) \<in> set tr'")
      case True
      have "cleared (c x) (S \<union> {name. p = OwnedByConfig name \<and> x = FlagC False})" using Do.prems(1) by simp
      from Do.IH[OF rangeI this run True Do.prems(4)] tr show ?thesis by auto
    next
      case False
      with Do.prems(3) tr have "p = AskDaemon r" by auto
      with Do.prems(1,4) show ?thesis by auto
    qed
  qed
qed auto

lemma cleared_ask: "(\<And>name. stored_alias r = Some name \<Longrightarrow> name \<in> S) \<Longrightarrow> (\<And>x. cleared (k x) S) \<Longrightarrow> cleared (ask r k) S"
  by (auto simp: asked split: client_answer.split sum.split)

lemma cleared_sync: "cleared (sync_saved_key auth) S"
  by (auto simp: sync_saved_key_def split: option.split host_auth.split client_answer.split)

lemma cleared_checked: "(\<And>x. cleared (k x) S) \<Longrightarrow> cleared (checked r k) S"
  by (simp add: checked_def split: sum.split)

lemma cleared_owned:
  assumes "cleared (k True) S" "cleared (k False) (insert name S)"
  shows "cleared (owned_by_config name k) S"
proof -
  have "cleared (case a of FlagC b \<Rightarrow> k b | _ \<Rightarrow> Waiting) (S \<union> {n. name = n \<and> a = FlagC False})" for a
  proof (cases a)
    case (FlagC b)
    with assms show ?thesis by (cases b) simp_all
  qed simp_all
  then show ?thesis by (simp add: owned_by_config_def)
qed

lemma cleared_password: "(\<And>p. cleared (k p) S) \<Longrightarrow> cleared (master_password k) S"
  by (simp add: master_password_def split: client_answer.split option.split)

lemma cleared_inventory: "(\<And>rows. cleared (k rows) S) \<Longrightarrow> cleared (host_inventory p k) S"
  by (auto simp: host_inventory_def intro!: cleared_ask split: response.split)

lemma cleared_system: "cleared (save_system_host decodes h replace) S"
  by (auto simp: save_system_host_def intro!: cleared_checked cleared_sync split: client_answer.split sum.split)

lemma cleared_saved: "cleared (saved sync r) S"
  by (simp add: saved_def cleared_sync)

lemmas cleared_rules = cleared_system cleared_password cleared_inventory cleared_checked cleared_saved

lemma cleared_add: "cleared (add_host decodes h) S"
  by (auto simp: add_host_def intro!: cleared_rules cleared_owned cleared_ask)

lemma cleared_update: "cleared (update_host decodes h change) S"
  unfolding update_host_def
  by (rule cleared_owned) (auto intro!: cleared_rules cleared_ask)

lemma cleared_remove: "cleared (remove_host_command name system) S"
  by (auto simp: remove_host_command_def intro!: cleared_password cleared_ask split: client_answer.split sum.split)

lemma cleared_desktop: "cleared (run_desktop decodes c) S"
  by (cases c) (simp_all add: cleared_add cleared_update cleared_remove)

text \<open>The inventory lists every alias once, and a vault's copy of a configured alias never.\<close>

lemma inventory_lists_once:
  "distinct (map (hs_alias \<circ> mh_host) hosts) \<Longrightarrow>
     distinct (map (hs_alias \<circ> mh_host) (fold push_vault_host rows hosts)) \<and>
     (\<exists>vault. fold push_vault_host rows hosts = hosts @ vault \<and> list_all (\<lambda>m. \<not> mh_system m) vault)"
proof (induction rows arbitrary: hosts)
  case (Cons r rows)
  have "distinct (map (hs_alias \<circ> mh_host) (push_vault_host r hosts))"
    using Cons.prems by (auto simp: push_vault_host_def row_summary_def comp_def)
  from Cons.IH[OF this] show ?case by (auto simp: push_vault_host_def split: if_splits)
qed simp

text \<open>
  C35: The desktop program loads a key into the SSH agent only as the last step of a command, right
  after the profile the key belongs to was saved without an error; and it stores a profile in the
  vault only under an alias the user's OpenSSH configuration was seen not to own.
\<close>

theorem desktop_keys_follow_saves:
  assumes "performed (run_desktop decodes c) answers = (tr, r)"
  shows "((LoadKey k, a) \<in> set tr \<longrightarrow>
      is_key k \<and> (\<exists>tr0 q x. tr = tr0 @ [(q, Some x), (LoadKey k, a)] \<and> saves q k \<and> \<not> refusal x)) \<and>
    ((AskDaemon rq, b) \<in> set tr \<and> stored_alias rq = Some name \<longrightarrow> (OwnedByConfig name, Some (FlagC False)) \<in> set tr)"
proof (intro conjI impI)
  assume "(LoadKey k, a) \<in> set tr"
  from key_after_performed[OF key_after_desktop[where prev = None] assms this]
  show "is_key k" "\<exists>tr0 q x. tr = tr0 @ [(q, Some x), (LoadKey k, a)] \<and> saves q k \<and> \<not> refusal x"
    by (auto simp: just_saved_def)
next
  assume "(AskDaemon rq, b) \<in> set tr \<and> stored_alias rq = Some name"
  with cleared_performed[OF cleared_desktop[where S = "{}"] assms] show "(OwnedByConfig name, Some (FlagC False)) \<in> set tr" by auto
qed

definition sample_input :: host_input where
  "sample_input = \<lparr>hi_system = False, hi_alias = ''box'', hi_hostname = ''10.0.0.1'', hi_port = None, hi_user = None,
     hi_auth = KeyFileKind, hi_password = None, hi_key_file = Some ''/k'', hi_private_key = None,
     hi_sync_to_agent = True, hi_route = Direct\<rparr>"

theorem desktop_keys_follow_saves_witness:
  "\<exists>tr0 q x. fst (performed (run_desktop (\<lambda>_. False) (AddHostD sample_input))
      [FlagC False, TypedC (Some ''pw''), ReplyC (Inr (HostsR [])), ReplyC (Inr OkR), FlagC True]) =
      tr0 @ [(q, Some x), (LoadKey (AuthKeyFile ''/k''), Some (FlagC True))] \<and> saves q (AuthKeyFile ''/k'') \<and>
      (OwnedByConfig ''box'', Some (FlagC False)) \<in> set tr0"
proof -
  let ?m = "run_desktop (\<lambda>_. False) (AddHostD sample_input)"
  let ?as = "[FlagC False, TypedC (Some ''pw''), ReplyC (Inr (HostsR [])), ReplyC (Inr OkR), FlagC True]"
  let ?add = "AddCred ''box'' ''10.0.0.1'' None None (AuthKeyFile ''/k'') ''pw'' False Direct"
  let ?tr = "[(OwnedByConfig ''box'', Some (FlagC False)), (TakePassword, Some (TypedC (Some ''pw''))),
     (AskDaemon (ListHostsReq ''pw''), Some (ReplyC (Inr (HostsR [])))), (AskDaemon ?add, Some (ReplyC (Inr OkR))),
     (LoadKey (AuthKeyFile ''/k''), Some (FlagC True))]"
  have run: "performed ?m ?as = (?tr, Some (Inr False))"
    by (simp add: add_host_def sample_input_def owned_by_config_def master_password_def host_inventory_def ask_def checked_def
        host_auth_def trim_def trim_start_def trim_end_def is_ws_def key_to_sync_def saved_def sync_saved_key_def)
  from desktop_keys_follow_saves[OF run, of "AuthKeyFile ''/k''" "Some (FlagC True)" ?add "Some (ReplyC (Inr OkR))" "''box''"]
  obtain tr0 q x where tr: "?tr = tr0 @ [(q, Some x), (LoadKey (AuthKeyFile ''/k''), Some (FlagC True))]"
    and q: "saves q (AuthKeyFile ''/k'')" and own: "(OwnedByConfig ''box'', Some (FlagC False)) \<in> set ?tr" by auto
  from tr have "tr0 = butlast (butlast ?tr)" by (simp add: butlast_append)
  then have "(OwnedByConfig ''box'', Some (FlagC False)) \<in> set tr0" by simp
  with tr q run show ?thesis by auto
qed

end
