(* ===== verification/Helper_Process.thy ===== *)
theory Helper_Process
  imports Local_Socket Native_Approval Utf8
begin

text \<open>
  The approval helper as a process (\<open>src/src/native_approval/helper.rs\<close> and \<open>enroll\<close> of
  \<open>native_approval.rs\<close>): where it is found, when it is started, and the bounded lines exchanged with
  it. Process creation, the pipes and the clock are answers; JSON is a codec. The reader returned after
  a failure is not meaningful: every caller then drops the helper.
\<close>

definition MAX_HELPER_MESSAGE_BYTES :: nat where "MAX_HELPER_MESSAGE_BYTES = 64 * 1024"

definition helper_path :: "bool \<Rightarrow> path option \<Rightarrow> path option" where
  "helper_path macos exe =
     (if \<not> macos then None
      else Option.bind exe (\<lambda>exe. Option.bind (parent_path exe) (\<lambda>dir. Option.bind (parent_path dir) (\<lambda>contents.
        Some (contents @ [''Helpers'', ''Sloosh Approval.app'', ''Contents'', ''MacOS'', ''sloosh-approval''])))))"

definition validate_helper :: "nat \<Rightarrow> connect_failure + metadata \<Rightarrow> native_error + unit" where
  "validate_helper euid lstat = (case lstat of
     Inl e \<Rightarrow> Inl (if e = NotFound then Unavailable else NativeIo)
   | Inr md \<Rightarrow>
       if md_symlink md \<or> \<not> md_file md then Inl Unavailable
       else if md_uid md \<noteq> 0 \<and> md_uid md \<noteq> euid then Inl Unavailable
       else if md_mode md AND 0x12 \<noteq> 0 then Inl Unavailable
       else Inr ())"

definition spawn_helper ::
  "bool \<Rightarrow> path option \<Rightarrow> nat \<Rightarrow> (path \<Rightarrow> connect_failure + metadata) \<Rightarrow> bool \<Rightarrow> native_error + path" where
  "spawn_helper macos exe euid lstat started = (case helper_path macos exe of
     None \<Rightarrow> Inl Unavailable
   | Some p \<Rightarrow> (case validate_helper euid (lstat p) of
       Inl e \<Rightarrow> Inl e | Inr _ \<Rightarrow> if started then Inr p else Inl NativeIo))"

definition is_available :: "bool \<Rightarrow> path option \<Rightarrow> nat \<Rightarrow> (path \<Rightarrow> connect_failure + metadata) \<Rightarrow> bool" where
  "is_available macos exe euid lstat = (case helper_path macos exe of
     None \<Rightarrow> False | Some p \<Rightarrow> validate_helper euid (lstat p) = Inr ())"

definition send_helper_request :: "helper_request codec \<Rightarrow> bool \<Rightarrow> helper_request \<Rightarrow> native_error + bytes" where
  "send_helper_request C written q = (case cd_encode C q of
     None \<Rightarrow> Inl InvalidData
   | Some encoded \<Rightarrow>
       if length encoded + 1 > MAX_HELPER_MESSAGE_BYTES then Inl InvalidData
       else if written then Inr (encoded @ [LF]) else Inl NativeIo)"

text \<open>\<open>take(n)\<close> and \<open>read_line\<close>: up to a newline, the end of the stream or \<open>n\<close> bytes.\<close>

fun take_line :: "nat \<Rightarrow> reader \<Rightarrow> bytes option \<times> reader" where
  "take_line n [] = (Some [], [])"
| "take_line n (None # r) = (if n = 0 then (Some [], None # r) else (None, r))"
| "take_line n (Some available # r) =
     (if n = 0 \<or> available = [] then (Some [], Some available # r)
      else (case newline_at (take n available) of
        Some i \<Rightarrow> (Some (take (i + 1) available), unread (drop (i + 1) available) r)
      | None \<Rightarrow>
          if n \<le> length available then (Some (take n available), unread (drop n available) r)
          else (case take_line (n - length available) r of
            (None, r) \<Rightarrow> (None, r) | (Some line, r) \<Rightarrow> (Some (available @ line), r))))"

text \<open>\<open>read_line\<close> fails with an I/O error when the line read is not UTF-8.\<close>

definition receive_helper_response ::
  "helper_response codec \<Rightarrow> bool \<Rightarrow> reader \<Rightarrow> (native_error + helper_response) \<times> reader" where
  "receive_helper_response C in_time r =
     (if \<not> in_time then (Inl NativeTimedOut, r)
      else (case take_line (MAX_HELPER_MESSAGE_BYTES + 1) r of
        (None, r) \<Rightarrow> (Inl NativeIo, r)
      | (Some line, r) \<Rightarrow>
          if \<not> well_formed_utf8 line then (Inl NativeIo, r)
          else if line = [] then (Inl InvalidData, r)
          else if length line > MAX_HELPER_MESSAGE_BYTES \<or> last line \<noteq> LF then (Inl InvalidData, r)
          else (case cd_decode C line of None \<Rightarrow> (Inl InvalidData, r) | Some m \<Rightarrow> (Inr m, r))))"

datatype helper_exit = NoExit | WaitFailed | Exited bool string

definition finish_helper :: "helper_exit \<Rightarrow> native_error + unit" where
  "finish_helper e = (case e of
     NoExit \<Rightarrow> Inl NativeTimedOut
   | WaitFailed \<Rightarrow> Inl NativeIo
   | Exited success status \<Rightarrow> if success then Inr () else Inl (Helper (''exited with status '' @ status)))"

definition enroll :: "vault_error + unit \<Rightarrow> bytes \<Rightarrow> (native_error + unit) script" where
  "enroll unlock password = (case unlock of
     Inl e \<Rightarrow> Return (Inl (NativeVault e))
   | Inr _ \<Rightarrow> converse (HEnroll password) (\<lambda>r. case r of HEnrolled \<Rightarrow> Some () | _ \<Rightarrow> None))"

section \<open>Trust and framing\<close>

lemma spawned_helper_trusted:
  "spawn_helper macos exe euid lstat started = Inr p \<Longrightarrow>
     \<exists>md. lstat p = Inr md \<and> md_file md \<and> \<not> md_symlink md \<and> md_uid md \<in> {0, euid} \<and> \<not> is_writable_by_others (md_mode md)
       \<and> last p = ''sloosh-approval'' \<and> is_available macos exe euid lstat"
  by (auto simp: spawn_helper_def validate_helper_def is_available_def is_writable_by_others_def helper_path_def
      split: option.splits sum.splits if_splits bind_splits)

lemma newline_in: "newline_at bs = Some i \<Longrightarrow> i < length bs"
proof -
  assume n: "newline_at bs = Some i"
  then have "i = length (takeWhile (\<lambda>b. b \<noteq> LF) bs)" by (auto simp: newline_at_def split: if_splits)
  with arg_cong[OF newline_at_append[OF n], of length] show ?thesis by simp
qed

lemma take_line_bounded: "take_line n r = (Some line, r') \<Longrightarrow> length line \<le> n"
proof (induction n r arbitrary: line r' rule: take_line.induct)
  case (3 n available r)
  show ?case
  proof (cases "n = 0 \<or> available = []")
    case False
    show ?thesis
    proof (cases "newline_at (take n available)")
      case (Some i)
      with newline_in[OF Some] 3(2) False show ?thesis by auto
    next
      case None
      with 3 False show ?thesis by (fastforce split: if_splits option.splits prod.splits)
    qed
  qed (use 3(2) in auto)
qed (auto split: if_splits)

lemma line_before: "LF \<notin> set l \<Longrightarrow> takeWhile (\<lambda>b. b \<noteq> LF) (l @ LF # x) = l"
  by (induction l) auto

lemma newline_after: "LF \<notin> set l \<Longrightarrow> newline_at (l @ LF # x) = Some (length l)"
  by (simp add: newline_at_def line_before del: takeWhile_append)

lemma take_line_flat:
  "clean r \<Longrightarrow> flat r = l @ LF # rest \<Longrightarrow> LF \<notin> set l \<Longrightarrow> length l < n \<Longrightarrow>
     \<exists>r'. take_line n r = (Some (l @ [LF]), r') \<and> clean r' \<and> flat r' = rest"
proof (induction n r arbitrary: l rule: take_line.induct)
  case (3 n available r)
  then have c: "available \<noteq> []" "clean r" and f: "available @ flat r = l @ LF # rest" by simp_all
  show ?case
  proof (cases "LF \<in> set available")
    case True
    then obtain a x where a: "available = a @ LF # x" "LF \<notin> set a" by (meson split_list_first)
    with f have "a @ LF # x @ flat r = l @ LF # rest" by simp
    with line_before[OF a(2), of "x @ flat r"] line_before[OF 3(4), of rest] have "a = l" by metis
    with a f have split: "available = l @ LF # x" "x @ flat r = rest" by simp_all
    have "take n available = l @ LF # take (n - length l - 1) x"
      using 3(5) split(1) by (simp add: take_Cons' )
    with newline_after[OF 3(4)] have "newline_at (take n available) = Some (length l)" by simp
    with c 3(5) split show ?thesis by simp
  next
    case False
    have "length available \<le> length l"
    proof (rule ccontr)
      assume "\<not> length available \<le> length l"
      then have "LF = available ! length l" using arg_cong[OF f, of "\<lambda>s. s ! length l"] by (simp add: nth_append)
      with \<open>\<not> length available \<le> length l\<close> False show False by auto
    qed
    then have "available = take (length available) l" "flat r = drop (length available) l @ LF # rest"
      using arg_cong[OF f, of "take (length available)"] arg_cong[OF f, of "drop (length available)"] by simp_all
    then obtain l' where l': "l = available @ l'" "flat r = l' @ LF # rest" by (metis append_take_drop_id)
    have none: "newline_at (take n available) = None" using False by (auto simp: newline_at_def dest: in_set_takeD)
    have "\<exists>r'. take_line (n - length available) r = (Some (l' @ [LF]), r') \<and> clean r' \<and> flat r' = rest"
      by (rule 3(1)) (use c l' 3(4,5) none in auto)
    with none c l' 3(5) show ?thesis by auto
  qed
qed auto

text \<open>
  A reply of the helper within the limit arrives whole however the pipe cuts it, and what is
  accepted is a whole line within the limit.
\<close>

lemma helper_reply_framed:
  "\<lbrakk>\<And>m bs. cd_encode C m = Some bs \<Longrightarrow> LF \<notin> set bs \<and> well_formed_utf8 (bs @ [LF]) \<and> cd_decode C (bs @ [LF]) = Some m; cd_encode C m = Some bs;
     length bs < MAX_HELPER_MESSAGE_BYTES; clean r; flat r = bs @ LF # rest\<rbrakk> \<Longrightarrow>
     \<exists>r'. receive_helper_response C True r = (Inr m, r') \<and> clean r' \<and> flat r' = rest"
  and "receive_helper_response C in_time r = (Inr m, r') \<Longrightarrow>
     \<exists>line. line \<noteq> [] \<and> length line \<le> MAX_HELPER_MESSAGE_BYTES \<and> last line = LF \<and> cd_decode C line = Some m"
proof -
  assume C: "\<And>m bs. cd_encode C m = Some bs \<Longrightarrow> LF \<notin> set bs \<and> well_formed_utf8 (bs @ [LF]) \<and> cd_decode C (bs @ [LF]) = Some m" "cd_encode C m = Some bs"
    and len: "length bs < MAX_HELPER_MESSAGE_BYTES" and r: "clean r" "flat r = bs @ LF # rest"
  from len have "length bs < MAX_HELPER_MESSAGE_BYTES + 1" by simp
  from take_line_flat[OF r _ this] C obtain r' where
    "take_line (MAX_HELPER_MESSAGE_BYTES + 1) r = (Some (bs @ [LF]), r')" "clean r'" "flat r' = rest" by blast
  with C len show "\<exists>r'. receive_helper_response C True r = (Inr m, r') \<and> clean r' \<and> flat r' = rest"
    by (simp add: receive_helper_response_def)
qed (auto simp: receive_helper_response_def split: if_splits prod.splits option.splits)

end
