(* ===== verification/Framing.thy ===== *)
theory Framing
  imports Scrubber Text
begin

text \<open>
  The framing round trip (\<open>frame_command\<close> and the scrubber of \<open>src/src/daemon/session.rs\<close>), from the line
  sent to the remote shell to what the daemon keeps of its output. The shell is an argument; of it the
  model has the simple command the daemon appends, \<open>printf\<close> with a quoted format and \<open>$?\<close>, and the tty's
  translation of line ends.
\<close>

section \<open>The remote shell\<close>

text \<open>\<open>printf\<close> of POSIX with one argument, for formats whose only escape is \<open>\n\<close> and only directive \<open>%s\<close>.\<close>

fun posix_printf :: "bytes \<Rightarrow> bytes \<Rightarrow> bytes option" where
  "posix_printf arg [] = Some []"
| "posix_printf arg (b # f) =
     (if b = CHR 0x5C then (case f of
        [] \<Rightarrow> None | c # g \<Rightarrow> if c = CHR ''n'' then map_option ((#) LF) (posix_printf arg g) else None)
      else if b = CHR ''%'' then (case f of
        [] \<Rightarrow> None | c # g \<Rightarrow> if c = CHR ''s'' then map_option ((@) arg) (posix_printf arg g) else None)
      else map_option ((#) b) (posix_printf arg f))"

text \<open>
  The command line \<open>printf '<format>' $?\<close> in a shell whose last exit status is \<open>status\<close>: single quotes
  keep the format as it stands, \<open>$?\<close> is the status in decimal. \<open>None\<close> is any other line.
\<close>

definition shell_printf :: "nat \<Rightarrow> bytes \<Rightarrow> bytes option" where
  "shell_printf status line =
     Option.bind (strip_prefix (''printf '' @ [CHR 0x27]) line) (\<lambda>quoted.
     Option.bind (split_once CHR 0x27 quoted) (\<lambda>(format, arg).
       if arg = '' $?'' @ [LF] then posix_printf (show_nat status) format else None))"

text \<open>
  A shell that takes \<open>command\<close> as a complete list: of the line \<open>command; p\<close> it runs \<open>command\<close>, which
  writes \<open>out\<close> and exits with \<open>status\<close>, and then \<open>p\<close>. A command that ends in a comment or an
  unfinished here-document is not taken so, and the code does not look for one.
\<close>

definition runs_then :: "(bytes \<Rightarrow> bytes) \<Rightarrow> bytes \<Rightarrow> bytes \<Rightarrow> nat \<Rightarrow> bool" where
  "runs_then shell command out status \<longleftrightarrow>
     (\<forall>p w. shell_printf status p = Some w \<longrightarrow> shell (command @ ''; '' @ p) = out @ w)"

text \<open>The tty between them: \<open>onlcr\<close> writes a carriage return before every line feed.\<close>

definition tty :: "bool \<Rightarrow> bytes \<Rightarrow> bytes" where
  "tty onlcr bs = (if onlcr then concat (map (\<lambda>b. if b = LF then [CR, LF] else [b]) bs) else bs)"

section \<open>What the appended command prints\<close>

lemma printf_plain:
  "\<forall>b\<in>set s. b \<noteq> CHR 0x5C \<and> b \<noteq> CHR ''%'' \<Longrightarrow> posix_printf arg (s @ f) = map_option ((@) s) (posix_printf arg f)"
proof (induction s)
  case Nil
  show ?case by (simp add: option.map_ident)
next
  case (Cons b s)
  then have "posix_printf arg ((b # s) @ f) = map_option ((#) b) (posix_printf arg (s @ f))" by simp
  also have "\<dots> = map_option ((#) b) (map_option ((@) s) (posix_printf arg f))" using Cons by simp
  finally show ?case by (cases "posix_printf arg f") simp_all
qed

lemma sentinel_plain:
  "b \<in> set (make_sentinel n) \<Longrightarrow> is_hex b \<or> b \<in> set ''_losh''"
proof -
  have "length HEX_CHARS = 16" by (simp add: HEX_CHARS_def)
  then have "HEX_CHARS ! (n mod 16) \<in> set HEX_CHARS" for n by (intro nth_mem) simp
  then have "set (hex_pad k n) \<subseteq> set HEX_CHARS" for k n
    by (induction k n rule: hex_pad.induct) auto
  then show "b \<in> set (make_sentinel n) \<Longrightarrow> is_hex b \<or> b \<in> set ''_losh''"
    by (auto simp: make_sentinel_def is_hex_def SENTINEL_PREFIX_def SENTINEL_SUFFIX_def)
qed

lemma sentinel_free: "c \<notin> set HEX_CHARS \<Longrightarrow> c \<notin> set ''_losh'' \<Longrightarrow> c \<notin> set (make_sentinel n)"
  using sentinel_plain[of c n] by (auto simp: is_hex_def)

lemma marker_printed:
  "shell_printf status (marker_printf (make_sentinel n)) =
     Some ([LF] @ make_sentinel n @ show_nat status @ make_sentinel n @ [LF])"
proof -
  let ?s = "make_sentinel n"
  let ?f = "[CHR 0x5C, CHR ''n''] @ ?s @ ''%s'' @ ?s @ [CHR 0x5C, CHR ''n'']"
  have free: "CHR 0x27 \<notin> set ?s" "CHR 0x5C \<notin> set ?s" "CHR ''%'' \<notin> set ?s"
    by (rule sentinel_free; simp add: HEX_CHARS_def)+
  have "marker_printf ?s = (''printf '' @ [CHR 0x27]) @ ?f @ CHR 0x27 # '' $?'' @ [LF]" by (simp add: marker_printf_def)
  moreover have "split_once CHR 0x27 (?f @ CHR 0x27 # '' $?'' @ [LF]) = Some (?f, '' $?'' @ [LF])"
    using free by (intro split_once_at) simp
  moreover have "posix_printf (show_nat status) (?s @ f) = map_option ((@) ?s) (posix_printf (show_nat status) f)" for f
    by (rule printf_plain) (use free in blast)
  then have "posix_printf (show_nat status) ?f = Some ([LF] @ ?s @ show_nat status @ ?s @ [LF])"
    by simp
  ultimately show ?thesis by (simp add: shell_printf_def strip_prefix_def)
qed

text \<open>An exit status is printed as at most three digits, which the scanner reads back.\<close>

lemma status_read: "is_status (show_nat status) \<and> parse_digits (show_nat status) = int status" if "status < 256"
proof -
  have dig: "is_digit (char_of (48 + d)) \<and> digit_val (char_of (48 + d)) = int d" if "d < 10" for d :: nat
  proof -
    from that have "d \<in> {0, 1, 2, 3, 4, 5, 6, 7, 8, 9}" by auto
    then show ?thesis by (auto simp: is_digit_def DIGIT_CHARS_def digit_val_def char_of_def bit_0)
  qed
  have "is_status (show_nat n) \<and> length (show_nat n) = 1 \<and> parse_digits (show_nat n) = int n" if "n < 10" for n
    using dig[OF that] that by (subst (1 2 3) show_nat.simps) (simp add: is_status_def MARKER_MAX_DIGITS_def parse_digits_def)
  note one = this
  have step: "is_status (show_nat n) \<and> length (show_nat n) = Suc k \<and> parse_digits (show_nat n) = int n"
    if pre: "is_status (show_nat (n div 10)) \<and> length (show_nat (n div 10)) = k \<and> parse_digits (show_nat (n div 10)) = int (n div 10)"
      "10 \<le> n" "k < 3" for n k
  proof -
    have shown: "show_nat n = show_nat (n div 10) @ [char_of (48 + n mod 10)]" using pre(2) by (subst show_nat.simps) simp
    have "parse_digits (show_nat n) = 10 * int (n div 10) + int (n mod 10)"
      using pre(1) dig[of "n mod 10"] unfolding shown by (simp add: parse_digits_def)
    also have "\<dots> = int n" by presburger
    finally show ?thesis
      using pre dig[of "n mod 10"] unfolding shown by (simp add: is_status_def MARKER_MAX_DIGITS_def)
  qed
  show ?thesis
  proof (cases "status < 10")
    case False
    show ?thesis
    proof (cases "status < 100")
      case True
      with step[of status 1] one[of "status div 10"] False show ?thesis by auto
    next
      case hundreds: False
      have "status div 10 div 10 < 10" "10 \<le> status div 10" using \<open>status < 256\<close> hundreds by auto
      with step[of "status div 10" 1] one[of "status div 10 div 10"] step[of status 2] False show ?thesis by auto
    qed
  qed (use one in auto)
qed

section \<open>The tty\<close>

lemma tty_Nil [simp]: "tty onlcr [] = []"
  by (simp add: tty_def)

lemma tty_Cons [simp]: "tty onlcr (b # s) = (if onlcr \<and> b = LF then [CR, LF] else [b]) @ tty onlcr s"
  by (simp add: tty_def)

lemma tty_append [simp]: "tty onlcr (a @ b) = tty onlcr a @ tty onlcr b"
  by (simp add: tty_def)

lemma tty_plain: "LF \<notin> set s \<Longrightarrow> tty onlcr s = s"
  by (induction s) auto

lemma tty_newline: "tty onlcr [LF] \<in> {[LF], [CR, LF]}"
  by simp

lemma tty_last: "out = [] \<or> last out \<noteq> CR \<Longrightarrow> tty onlcr out = [] \<or> last (tty onlcr out) \<noteq> CR"
  by (cases out rule: rev_cases) auto

lemma tty_prefix: "prefix p (tty onlcr out) \<Longrightarrow> CR \<notin> set p \<Longrightarrow> LF \<notin> set p \<Longrightarrow> prefix p out"
proof (induction p arbitrary: out)
  case (Cons c p)
  then obtain b rest where out: "out = b # rest" by (cases out) auto
  with Cons show ?case
    by (cases "onlcr \<and> b = LF") auto
qed simp

lemma tty_sublist: "sublist p (tty onlcr out) \<Longrightarrow> p \<noteq> [] \<Longrightarrow> CR \<notin> set p \<Longrightarrow> LF \<notin> set p \<Longrightarrow> sublist p out"
proof (induction out)
  case (Cons b out)
  obtain c q where p: "p = c # q" using Cons.prems(2) by (cases p) auto
  then have head: "\<not> prefix p (CR # s)" "\<not> prefix p (LF # s)" for s
    using Cons.prems(3,4) by auto
  have "tty onlcr (b # out) = CR # LF # tty onlcr out \<or> tty onlcr (b # out) = b # tty onlcr out"
    by simp
  then show ?case
  proof
    assume "tty onlcr (b # out) = CR # LF # tty onlcr out"
    with Cons head show ?thesis by (simp add: sublist_Cons_right)
  next
    assume "tty onlcr (b # out) = b # tty onlcr out"
    with Cons tty_prefix[of p onlcr "b # out"] show ?thesis by (auto simp: sublist_Cons_right)
  qed
qed simp

section \<open>The round trip\<close>

text \<open>
  C18: The framing round trip. A shell that takes a command as a complete list is sent the line
  \<open>frame_command\<close> makes of it and a sentinel of \<open>make_sentinel\<close>; the command writes \<open>out\<close> and exits with a
  status of 0 to 255. Then, however the tty translates line ends and however its bytes are cut into
  chunks, the scrubber emits exactly the output (as the tty translated it) and then one marker with
  this sentinel and this status, holds nothing back and has swallowed the framing newlines. The
  output must not contain the sentinel prefix \<open>__sloosh_\<close> nor end in a carriage return.
\<close>

theorem framing_roundtrip:
  assumes "runs_then shell command out status" and "status < 256"
    and "concat chunks = tty onlcr (shell (frame_command command (make_sentinel n)))"
    and "\<not> sublist SENTINEL_PREFIX out" and "out = [] \<or> last out \<noteq> CR"
  shows "map_prod id items (feed_chunks scrubber_default chunks)
     = (scrubber_default, map Byte (tty onlcr out) @ [Mark (make_sentinel n) (int status)])"
proof -
  let ?s = "make_sentinel n"
  have "shell (frame_command command ?s) = out @ [LF] @ ?s @ show_nat status @ ?s @ [LF]"
    using assms(1) marker_printed[of status n] by (simp add: runs_then_def frame_command_def)
  moreover have "LF \<notin> set ?s" by (rule sentinel_free; simp add: HEX_CHARS_def)
  moreover have "\<not> is_digit LF" by (simp add: is_digit_def DIGIT_CHARS_def)
  then have "LF \<notin> set (show_nat status)" using status_read[OF assms(2)] unfolding is_status_def by blast
  ultimately have chunks: "concat chunks = tty onlcr out @ tty onlcr [LF] @ ?s @ show_nat status @ ?s @ tty onlcr [LF]"
    using assms(3) by (simp add: tty_plain)
  have "\<not> sublist SENTINEL_PREFIX (tty onlcr out)"
    using tty_sublist[of SENTINEL_PREFIX onlcr out] assms(4) by (auto simp: SENTINEL_PREFIX_def)
  from framed_output[OF chunks make_sentinel_is_sentinel _ tty_newline tty_newline this tty_last[OF assms(5)]]
  show ?thesis using status_read[OF assms(2)] by metis
qed

text \<open>A shell that knows one command: it writes \<open>a_b\<close>, a line end and \<open>c\<close> and exits with 17.\<close>

definition demo_shell :: "bytes \<Rightarrow> bytes" where
  "demo_shell line = (case strip_prefix ''cmd; '' line of
     None \<Rightarrow> [] | Some p \<Rightarrow> ''a_b'' @ [LF] @ ''c'' @ (case shell_printf 17 p of None \<Rightarrow> [] | Some w \<Rightarrow> w))"

theorem framing_roundtrip_witness:
  "map_prod id items (feed_chunks scrubber_default
      (map (\<lambda>b. [b]) (tty True (demo_shell (frame_command ''cmd'' (make_sentinel 7))))))
     = (scrubber_default, map Byte (''a_b'' @ [CR, LF] @ ''c'') @ [Mark (make_sentinel 7) 17])"
proof -
  have flat: "concat (map (\<lambda>b. [b]) s) = s" for s :: bytes by (induction s) auto
  have "runs_then demo_shell ''cmd'' (''a_b'' @ [LF] @ ''c'') 17"
    by (simp add: runs_then_def demo_shell_def strip_prefix_def)
  moreover have "\<not> sublist SENTINEL_PREFIX (''a_b'' @ [LF] @ ''c'')"
    by (auto simp: SENTINEL_PREFIX_def dest: sublist_length_le)
  ultimately show ?thesis
    using framing_roundtrip[of demo_shell "''cmd''" "''a_b'' @ [LF] @ ''c''" 17
        "map (\<lambda>b. [b]) (tty True (demo_shell (frame_command ''cmd'' (make_sentinel 7))))" True 7] flat
    by simp
qed

end
