(* ===== verification/Command_Line.thy ===== *)
theory Command_Line
  imports Cli Human_Trust Audit_Log Skill
begin

text \<open>
  The whole command line: \<open>dispatch\<close> of \<open>src/src/cli/mod.rs\<close> over the commands of the other theories,
  and what is left of \<open>mod.rs\<close>, \<open>daemon_cmd.rs\<close> and \<open>transfer.rs\<close> to put them together. A run is the
  list of what the command does that another process or the human can see, and how it ends.
\<close>

section \<open>The commands\<close>

datatype command =
    Talk cli_command
  | StatusCmd
  | DaemonStartCmd
  | DaemonStopCmd
  | DaemonStatusCmd
  | ApproveCmd string
  | TrustCmd string
  | PutCmd string string string "string option"
  | GetCmd string string string "string option" bool
  | InitCmd skill_agent bool
  | SkillInstallCmd skill_agent bool
  | SkillStatusCmd skill_agent
  | LogCmd "string option" nat

text \<open>\<open>TypedHidden\<close> is a password read without echo; \<open>Conversed\<close> an operation of a conversation and its answer.\<close>

datatype cli_step =
    Conversed client_op "client_answer option"
  | ToDaemon client_event
  | Streamed bytes
  | TypedHidden
  | Approving approve_event
  | Trusting trust_event
  | Installed path
  | Inspected path
  | Printed string

datatype outcome = Succeeded | CommandFailed | GoesOn

text \<open>What a command meets: the terminal, the environment, the daemon, the user's files.\<close>

record 'k shell =
  sh_tty :: bool
  sh_tries :: nat
  sh_token :: "string option"
  sh_answers :: "client_answer list"
  sh_typed :: "bytes option"
  sh_exe :: "string option"
  sh_daemon :: client_env
  sh_lib :: "'k kh_lib"
  sh_approve :: approve_env
  sh_trust :: "'k trust_env"
  sh_vault :: vault_world
  sh_rounds :: "('k trust_env \<times> 'k trust_env \<times> kh_entry) list"
  sh_lines :: "string list"
  sh_cwd :: "string option"
  sh_upload :: "string \<Rightarrow> bool option \<times> reads option"
  sh_codec :: "response codec"
  sh_stream :: reader
  sh_download :: download_env
  sh_files :: local_files
  sh_home :: "path option"
  sh_is_dir :: "path \<Rightarrow> bool"
  sh_skill :: skill_env
  sh_target :: "skill_target \<Rightarrow> link_answers \<times> tree_answers \<times> (nat \<Rightarrow> write_outcome) \<times> skill_files"
  sh_log :: "string option"
  sh_is_event :: "string \<Rightarrow> bool"
  sh_parse :: "string \<Rightarrow> json option"

section \<open>Conversations and the daemon\<close>

definition run_conversation :: "response option cli \<Rightarrow> client_answer list \<Rightarrow> cli_step list \<times> outcome" where
  "run_conversation m answers = (case performed m answers of (tr, r) \<Rightarrow>
     (map (\<lambda>(p, a). Conversed p a) tr,
      case r of None \<Rightarrow> GoesOn | Some (Inl _) \<Rightarrow> CommandFailed | Some (Inr _) \<Rightarrow> Succeeded))"

definition ending :: "connect_error + 'a \<Rightarrow> outcome" where
  "ending r = (case r of Inr _ \<Rightarrow> Succeeded | Inl e \<Rightarrow> if e = StillWaiting then GoesOn else CommandFailed)"

definition with_daemon :: "client_event list \<times> (connect_error + 'a) \<Rightarrow> ('a \<Rightarrow> cli_step list \<times> outcome) \<Rightarrow> cli_step list \<times> outcome" where
  "with_daemon run k = (case run of
     (evs, Inl e) \<Rightarrow> (map ToDaemon evs, ending (Inl e :: connect_error + 'a))
   | (evs, Inr p) \<Rightarrow> (case k p of (steps, res) \<Rightarrow> (map ToDaemon evs @ steps, res)))"

text \<open>\<open>connect_or_spawn\<close> first locates the daemon's executable.\<close>

definition located :: "'k shell \<Rightarrow> (string \<Rightarrow> cli_step list \<times> outcome) \<Rightarrow> cli_step list \<times> outcome" where
  "located S k = (case sh_exe S of None \<Rightarrow> ([], CommandFailed) | Some exe \<Rightarrow> k exe)"

definition cmd_status :: "'k shell \<Rightarrow> cli_step list \<times> outcome" where
  "cmd_status S = located S (\<lambda>exe. with_daemon (connect_or_spawn (sh_daemon S) exe)
     (\<lambda>p. with_daemon (request_status p) (\<lambda>_. ([], Succeeded))))"

definition cmd_daemon :: "'k shell \<Rightarrow> command \<Rightarrow> cli_step list \<times> outcome" where
  "cmd_daemon S action = (case action of
     DaemonStartCmd \<Rightarrow> located S (\<lambda>exe. with_daemon (cmd_daemon_start (sh_daemon S) exe) (\<lambda>_. ([], Succeeded)))
   | DaemonStopCmd \<Rightarrow> with_daemon (cmd_daemon_stop (sh_daemon S)) (\<lambda>_. ([], Succeeded))
   | DaemonStatusCmd \<Rightarrow> with_daemon (cmd_daemon_status (sh_daemon S) (sh_exe S)) (\<lambda>_. ([], Succeeded))
   | _ \<Rightarrow> ([], CommandFailed))"

section \<open>Transfers\<close>

definition resolve_local_path :: "string option \<Rightarrow> string \<Rightarrow> string option" where
  "resolve_local_path cwd path =
     (if path \<noteq> [] \<and> hd path = CHR ''/'' then Some path
      else map_option (\<lambda>dir. if dir \<noteq> [] \<and> last dir = CHR ''/'' then dir @ path else dir @ ''/'' @ path) cwd)"

text \<open>Whether the path is a regular file, if it can be inspected, and what reading it gives, if it opens.\<close>

definition open_local_upload :: "bool option \<times> reads option \<Rightarrow> reads option" where
  "open_local_upload file = (case file of (Some True, Some reads) \<Rightarrow> Some reads | _ \<Rightarrow> None)"

definition send_over :: "peer \<Rightarrow> request \<Rightarrow> (unit \<Rightarrow> cli_step list \<times> outcome) \<Rightarrow> cli_step list \<times> outcome" where
  "send_over p r k = (if \<not> pe_sent p r then ([], CommandFailed)
     else case k () of (steps, res) \<Rightarrow> (ToDaemon (Tell p r) # steps, res))"

text \<open>The reply stream \<open>sh_stream\<close> is what arrives after the request; one that never ends is not represented.\<close>

definition run_put :: "'k shell \<Rightarrow> string \<Rightarrow> string \<Rightarrow> string \<Rightarrow> string option \<Rightarrow> cli_step list \<times> outcome" where
  "run_put S host local_path remote session = (case resolve_local_path (sh_cwd S) local_path of
     None \<Rightarrow> ([], CommandFailed)
   | Some path \<Rightarrow> (case open_local_upload (sh_upload S path) of
       None \<Rightarrow> ([], CommandFailed)
     | Some reads \<Rightarrow> located S (\<lambda>exe. with_daemon (connect_or_spawn (sh_daemon S) exe) (\<lambda>p.
         send_over p (Put host path remote session (sh_token S)) (\<lambda>_.
           case cmd_put (sh_codec S) reads (sh_stream S) of
             (sent, res) \<Rightarrow> ([Streamed sent], case res of Inl _ \<Rightarrow> CommandFailed | Inr _ \<Rightarrow> Succeeded))))))"

text \<open>The download's file is opened before the daemon is contacted, and dropped when that fails.\<close>

definition run_get ::
  "'k shell \<Rightarrow> string \<Rightarrow> string \<Rightarrow> string \<Rightarrow> string option \<Rightarrow> bool \<Rightarrow> cli_step list \<times> outcome" where
  "run_get S host remote local_path session force = (case resolve_local_path (sh_cwd S) local_path of
     None \<Rightarrow> ([], CommandFailed)
   | Some path \<Rightarrow> (case open_download (sh_download S) force (sh_files S) of
       Inl _ \<Rightarrow> ([], CommandFailed)
     | Inr _ \<Rightarrow> located S (\<lambda>exe. with_daemon (connect_or_spawn (sh_daemon S) exe) (\<lambda>p.
         send_over p (Get host remote path session (sh_token S)) (\<lambda>_.
           case cmd_get (sh_codec S) (sh_download S) force (sh_stream S) (sh_files S) of
             (_, res) \<Rightarrow> ([], case res of Inl _ \<Rightarrow> CommandFailed | Inr _ \<Rightarrow> Succeeded))))))"

section \<open>The skill, the log and the human's commands\<close>

definition skill_targets :: "'k shell \<Rightarrow> skill_agent \<Rightarrow> skill_target list option" where
  "skill_targets S agent = map_option (\<lambda>home. resolve_targets_from_home home (sh_is_dir S) agent) (sh_home S)"

fun install_all :: "'k shell \<Rightarrow> bool \<Rightarrow> skill_target list \<Rightarrow> cli_step list \<times> outcome" where
  "install_all S force [] = ([], Succeeded)"
| "install_all S force (target # targets) = (case sh_target S target of (L, T, writes, F) \<Rightarrow>
     (case fst (install_target (sh_skill S) L T target writes force F) of
        Inl _ \<Rightarrow> ([], CommandFailed)
      | Inr _ \<Rightarrow> (case install_all S force targets of (steps, res) \<Rightarrow> (Installed (st_directory target) # steps, res))))"

fun inspect_all :: "'k shell \<Rightarrow> skill_target list \<Rightarrow> cli_step list \<times> outcome" where
  "inspect_all S [] = ([], Succeeded)"
| "inspect_all S (target # targets) = (case sh_target S target of (L, T, writes, F) \<Rightarrow>
     (case inspect_target (sh_skill S) L T target F of
        Inl _ \<Rightarrow> ([], CommandFailed)
      | Inr _ \<Rightarrow> (case inspect_all S targets of (steps, res) \<Rightarrow> (Inspected (st_directory target) # steps, res))))"

definition cmd_skill_install :: "'k shell \<Rightarrow> skill_agent \<Rightarrow> bool \<Rightarrow> cli_step list \<times> outcome" where
  "cmd_skill_install S agent force = (case skill_targets S agent of
     None \<Rightarrow> ([], CommandFailed) | Some targets \<Rightarrow> install_all S force targets)"

definition cmd_skill_status :: "'k shell \<Rightarrow> skill_agent \<Rightarrow> cli_step list \<times> outcome" where
  "cmd_skill_status S agent = (case skill_targets S agent of
     None \<Rightarrow> ([], CommandFailed) | Some targets \<Rightarrow> inspect_all S targets)"

definition cmd_init :: "'k shell \<Rightarrow> skill_agent \<Rightarrow> bool \<Rightarrow> cli_step list \<times> outcome" where
  "cmd_init S agent force =
     (if \<not> sh_tty S then ([], CommandFailed)
      else case cmd_skill_install S agent force of
        (steps, Succeeded) \<Rightarrow>
          (case run_conversation (and_then (cmd_vault_init_inner (sh_tries S)) (\<lambda>_. Done (Inr None))) (sh_answers S) of
             (steps', res) \<Rightarrow> (steps @ steps', res))
      | (steps, res) \<Rightarrow> (steps, res))"

definition run_log :: "'k shell \<Rightarrow> string option \<Rightarrow> nat \<Rightarrow> cli_step list \<times> outcome" where
  "run_log S host count = (case sh_log S of
     None \<Rightarrow> ([], CommandFailed)
   | Some log \<Rightarrow> (map (Printed \<circ> fst) (cmd_log (sh_is_event S) (sh_parse S) host count log), Succeeded))"

text \<open>
  The password \<open>approve\<close> reads after its first request is no step of its own; the one \<open>host trust\<close>
  reads comes first, and that command has no end without a choice of the human.
\<close>

definition run_approve :: "'k shell \<Rightarrow> string \<Rightarrow> cli_step list \<times> outcome" where
  "run_approve S rid =
     (case cmd_approve (sh_lib S) ((sh_approve S)\<lparr>ap_tty := sh_tty S, ap_password := sh_typed S\<rparr>) (sh_trust S) rid (sh_vault S) of
        ((evs, res), _) \<Rightarrow>
          (map Approving evs,
           case res of Inr _ \<Rightarrow> Succeeded | Inl e \<Rightarrow> if e = RequestFailed StillWaiting then GoesOn else CommandFailed))"

definition run_trust :: "'k shell \<Rightarrow> string \<Rightarrow> cli_step list \<times> outcome" where
  "run_trust S host =
     (if sh_tty S \<and> sh_typed S = None then ([TypedHidden], CommandFailed)
      else case cmd_host_trust (sh_lib S) (sh_tty S) (case sh_typed S of Some pw \<Rightarrow> pw | None \<Rightarrow> []) host (sh_rounds S)
                  (sh_lines S) (sh_vault S) of
        (evs, res) \<Rightarrow>
          ((if res = NotATerminal then [] else [TypedHidden]) @ map Trusting evs,
           if res = AllTrusted then Succeeded else if res = StillAsking then GoesOn else CommandFailed))"

section \<open>Dispatch\<close>

fun dispatch :: "'k shell \<Rightarrow> command \<Rightarrow> cli_step list \<times> outcome" where
  "dispatch S (Talk c) = run_conversation (conversation (sh_tty S) (sh_tries S) (sh_token S) c) (sh_answers S)"
| "dispatch S StatusCmd = cmd_status S"
| "dispatch S (ApproveCmd rid) = run_approve S rid"
| "dispatch S (TrustCmd host) = run_trust S host"
| "dispatch S (PutCmd host local_path remote session) = run_put S host local_path remote session"
| "dispatch S (GetCmd host remote local_path session force) = run_get S host remote local_path session force"
| "dispatch S (InitCmd agent force) = cmd_init S agent force"
| "dispatch S (SkillInstallCmd agent force) = cmd_skill_install S agent force"
| "dispatch S (SkillStatusCmd agent) = cmd_skill_status S agent"
| "dispatch S (LogCmd host count) = run_log S host count"
| "dispatch S action = cmd_daemon S action"

section \<open>Without a terminal\<close>

text \<open>A step that neither reads a password nor sends one, nor decides what only a human may.\<close>

definition harmless :: "cli_step \<Rightarrow> bool" where
  "harmless s = (case s of
     Conversed p _ \<Rightarrow> unattended_op p
   | ToDaemon (Tell _ r) \<Rightarrow> \<not> carries_secret r
   | TypedHidden \<Rightarrow> False
   | Approving _ \<Rightarrow> False
   | Trusting _ \<Rightarrow> False
   | _ \<Rightarrow> True)"

text \<open>The commands that refuse to run without a terminal.\<close>

fun for_humans :: "command \<Rightarrow> bool" where
  "for_humans (Talk c) = human_only c"
| "for_humans (ApproveCmd _) = True"
| "for_humans (TrustCmd _) = True"
| "for_humans (InitCmd _ _) = True"
| "for_humans _ = False"

lemma harmless_simps [simp]:
  "harmless (Conversed p a) = unattended_op p" "harmless (Streamed bs)" "harmless (Installed d)" "harmless (Inspected d)"
  "harmless (Printed l)" "harmless (ToDaemon (Tell q r)) = (\<not> carries_secret r)"
  by (simp_all add: harmless_def)

definition quietly :: "cli_step list \<times> outcome \<Rightarrow> bool" where
  "quietly run \<longleftrightarrow> (\<forall>s \<in> set (fst run). harmless s)"

text \<open>Events of a client that tell the daemon no secret.\<close>

definition discreet :: "client_event list \<Rightarrow> bool" where
  "discreet evs \<longleftrightarrow> (\<forall>p r. Tell p r \<in> set evs \<longrightarrow> \<not> carries_secret r)"

lemma discreet_harmless: "discreet evs \<Longrightarrow> s \<in> set evs \<Longrightarrow> harmless (ToDaemon s)"
  by (auto simp: harmless_def discreet_def split: client_event.split)

lemma opening_discreet: "r = Status \<or> r = Hello v \<or> r = Shutdown \<Longrightarrow> \<not> carries_secret r"
  by (auto simp: carries_secret_def)

lemma cautious_discreet: "cautious E exe run \<Longrightarrow> discreet (fst run)"
  unfolding cautious_def discreet_def using opening_discreet by blast

lemma daemon_commands_discreet:
  "discreet (fst (connect_or_spawn E exe))" "discreet (fst (cmd_daemon_start E exe))"
  "discreet (fst (cmd_daemon_stop E))" "discreet (fst (cmd_daemon_status E x))" "discreet (fst (request_status p))"
proof -
  show "discreet (fst (connect_or_spawn E exe))" "discreet (fst (cmd_daemon_start E exe))"
    by (simp_all add: cautious_discreet[OF connect_or_spawn_cautious] cautious_discreet[OF daemon_start_cautious])
  show "discreet (fst (cmd_daemon_stop E))" "discreet (fst (cmd_daemon_status E x))"
    unfolding discreet_def using status_and_stop_cautious[of E x] opening_discreet by blast+
  show "discreet (fst (request_status p))"
    by (auto simp: discreet_def request_status_def opening_discreet split: if_splits)
qed

lemma quiet_end [simp]: "quietly ([], r)"
  by (simp add: quietly_def)

lemma quiet_with_daemon:
  assumes "discreet (fst run)" and "\<And>p. quietly (k p)"
  shows "quietly (with_daemon run k)"
proof -
  obtain evs res where run: "run = (evs, res)" by force
  with assms(1) have evs: "\<forall>s \<in> set (map ToDaemon evs). harmless s" by (auto intro: discreet_harmless)
  show ?thesis
  proof (cases res)
    case (Inl e)
    with run evs show ?thesis by (simp add: with_daemon_def quietly_def)
  next
    case (Inr p)
    obtain steps r where "k p = (steps, r)" by force
    with assms(2)[of p] run evs Inr show ?thesis by (auto simp: with_daemon_def quietly_def)
  qed
qed

lemma quiet_located: "(\<And>exe. quietly (k exe)) \<Longrightarrow> quietly (located S k)"
  by (simp add: located_def split: option.split)

lemma quiet_send_over: "\<not> carries_secret r \<Longrightarrow> quietly (k ()) \<Longrightarrow> quietly (send_over p r k)"
  by (auto simp: send_over_def quietly_def split: prod.split)

lemma quiet_conversation:
  assumes "always unattended_op m"
  shows "quietly (run_conversation m answers)"
proof -
  obtain tr r where run: "performed m answers = (tr, r)" by force
  with always_performed[OF assms] have "unattended_op p" if "(p, a) \<in> set tr" for p a
    using that by (metis fst_conv)
  with run show ?thesis by (auto simp: run_conversation_def quietly_def)
qed

lemma quiet_install: "quietly (install_all S force targets)"
  by (induction targets) (auto simp: quietly_def split: prod.split sum.split)

lemma quiet_inspect: "quietly (inspect_all S targets)"
  by (induction targets) (auto simp: quietly_def split: prod.split sum.split)

lemmas quiet_rules = quiet_located quiet_with_daemon quiet_send_over daemon_commands_discreet quiet_install quiet_inspect

lemma quiet_transfers:
  "quietly (run_put S host local_path remote session)" "quietly (run_get S host remote local_path session force)"
proof -
  have "\<not> carries_secret (Put host x remote session token)" "\<not> carries_secret (Get host remote x session token)" for x token
    by (simp_all add: carries_secret_def)
  moreover have "quietly ([Streamed bs], r)" for bs r by (simp add: quietly_def)
  ultimately show "quietly (run_put S host local_path remote session)" "quietly (run_get S host remote local_path session force)"
    by (auto simp: run_put_def run_get_def intro!: quiet_rules split: option.split sum.split prod.split)
qed

lemma quiet_services:
  "quietly (cmd_status S)" "quietly (cmd_daemon S action)" "quietly (run_log S host count)"
  "quietly (cmd_skill_install S agent force)" "quietly (cmd_skill_status S agent)"
proof -
  show "quietly (run_log S host count)" by (auto simp: run_log_def quietly_def split: option.split)
  show "quietly (cmd_status S)" "quietly (cmd_daemon S action)"
    "quietly (cmd_skill_install S agent force)" "quietly (cmd_skill_status S agent)"
    by (auto simp: cmd_status_def cmd_daemon_def cmd_skill_install_def cmd_skill_status_def
        intro!: quiet_rules split: command.split option.split)
qed

lemma refused_without_terminal:
  "\<not> sh_tty S \<Longrightarrow> for_humans c \<Longrightarrow> dispatch S c = ([], CommandFailed)"
  by (cases c rule: for_humans.cases)
    (auto simp: run_approve_def run_trust_def cmd_init_def cmd_approve_def cmd_host_trust_def run_conversation_def
      human_commands require_tty_def elim!: human_only.elims)

text \<open>
  C16: The command line keeps secrets away from agents: without a terminal no command of it reads a
  password, sends the daemon a request that carries one, or shows a host list or a host key for
  approval; and the commands only a human may give (approving, trusting and listing, showing,
  editing and removing hosts, creating the vault, \<open>init\<close>) fail before they do anything.
\<close>

theorem unattended_commands_handle_no_secrets:
  assumes "\<not> sh_tty S"
  shows "(\<forall>s \<in> set (fst (dispatch S c)). harmless s) \<and> (for_humans c \<longrightarrow> dispatch S c = ([], CommandFailed))"
proof (cases "for_humans c")
  case True
  then show ?thesis using refused_without_terminal[OF assms] by simp
next
  case False
  then have "quietly (dispatch S c)"
    by (cases c) (simp_all add: assms quiet_transfers quiet_services quiet_conversation unattended_always)
  with False show ?thesis by (simp add: quietly_def)
qed

definition sample_shell :: "string shell" where
  "sample_shell = \<lparr>sh_tty = False, sh_tries = 3, sh_token = None, sh_answers = [], sh_typed = Some ''pw'',
     sh_exe = Some ''/opt/slooshd'', sh_daemon = lease_client, sh_lib = demo_lib, sh_approve = sample_approve,
     sh_trust = sample_trust, sh_vault = demo_world, sh_rounds = [], sh_lines = [''a''], sh_cwd = None,
     sh_upload = (\<lambda>_. (None, None)), sh_codec = \<lparr>cd_encode = (\<lambda>_. None), cd_decode = (\<lambda>_. None)\<rparr>, sh_stream = [],
     sh_download = \<lparr>dl_parent = True, dl_created = True, dl_write = (\<lambda>_ _. True), dl_synced = True, dl_renamed = True,
       dl_linked = True, dl_removed = True, dl_dropped = True, dl_others = id\<rparr>,
     sh_files = \<lparr>lf_destination = None, lf_temp = None\<rparr>, sh_home = Some [''home''], sh_is_dir = (\<lambda>_. False),
     sh_skill = sample_skill_env, sh_target = (\<lambda>_. (not_linked, own_tree, \<lambda>_. WriteDone, foreign_skill)),
     sh_log = None, sh_is_event = (\<lambda>_. True), sh_parse = (\<lambda>_. None)\<rparr>"

theorem unattended_commands_handle_no_secrets_witness:
  "dispatch sample_shell (Talk (RequestCmd [''box''] False)) = ([Conversed (AskDaemon (RequestLease [''box''])) None], GoesOn) \<and>
   harmless (Conversed (AskDaemon (RequestLease [''box''])) None) \<and>
   dispatch sample_shell (ApproveCmd ''11111111'') = ([], CommandFailed) \<and>
   dispatch sample_shell (TrustCmd ''box'') = ([], CommandFailed)"
proof -
  have run: "dispatch sample_shell (Talk (RequestCmd [''box''] False)) = ([Conversed (AskDaemon (RequestLease [''box''])) None], GoesOn)"
    by (simp add: run_conversation_def sample_shell_def cmd_request_def ask_def)
  have tty: "\<not> sh_tty sample_shell" by (simp add: sample_shell_def)
  from unattended_commands_handle_no_secrets[OF tty, of "Talk (RequestCmd [''box''] False)"] run
    unattended_commands_handle_no_secrets[OF tty, of "ApproveCmd ''11111111''"]
    unattended_commands_handle_no_secrets[OF tty, of "TrustCmd ''box''"]
  show ?thesis by simp
qed

end
