(* ===== verification/Spec2Isabelle.thy ===== *)
theory Spec2Isabelle
  imports Ring Shape Scrubber Spool Session Config Vault Procs Routes Lease
    State_File Pin Settings Known_Hosts Forward Forward_Steps Forward_Safety
    Auth Daemon_Script Native_Approval Dispatch Dispatch_Steps Dispatch_Safety Dispatch_Replies
    Config_Agreement System_Hosts Wire Local_Socket Human_Trust Warnings Audit_Log Skill Desktop_Unlock Proc_Tables
    Client Cli Desktop_Hosts Helper_Process Utf8 Framing Command_Line
begin

text \<open>
  Sloosh is an SSH daemon for coding agents. An agent names a host; a human (or, for hosts
  confined to the system's SSH agent, a policy) approves a lease that covers the host and the
  jump hosts on its route; under the lease the daemon opens sessions and port forwards with
  credentials from an encrypted vault the agent never sees. This development models the daemon,
  what the command line and the desktop program add to its safety (all under \<open>src/src/\<close>, the desktop
  program under \<open>src/gui/src-tauri/src/\<close>), and proves what makes each part correct.

  \<^bold>\<open>How the parts interact.\<close> A request for a host goes through \<open>lease.rs\<close>: the caller's process
  chain (\<open>procs\<close>) is matched against the anchors of active leases. Approving a lease expands its
  hosts over \<open>ProxyJump\<close> (\<open>ssh.rs\<close>) using the OpenSSH configuration (\<open>ssh/config.rs\<close>) and the
  vault's managed routes (\<open>vault.rs\<close>), checks a master password or the approval PIN
  (\<open>local_approval.rs\<close>), and confirms host keys (\<open>ssh/known_hosts.rs\<close>). With a grant the daemon dials
  the chain and runs commands in a PTY session (\<open>session.rs\<close>), whose output is framed by sentinels,
  scrubbed, kept in a ring and in bounded spool files (\<open>session/spool.rs\<close>), or opens a port
  forward (\<open>forward.rs\<close>, \<open>ssh/route.rs\<close>), whose every connection rechecks its grant. The dispatcher
  (\<open>daemon/mod.rs\<close>) composes these parts: a request is a script of operations on them, each of which is
  answered by the part's own model. Requests, replies and file contents travel in frames (\<open>proto.rs\<close>)
  over a private socket whose two ends check each other (\<open>transport/\<close>, \<open>cli/client.rs\<close>). Around the
  daemon, humans confirm host keys and leases (\<open>human_host_key.rs\<close>, \<open>cli/approval.rs\<close>,
  \<open>native_approval.rs\<close>), and the desktop program keeps the vault unlocked for a while
  (\<open>desktop_unlock.rs\<close>).

  \<^bold>\<open>Theories, in the order of their imports.\<close>
  \<^item> \<open>Prelude\<close>: hash maps as association lists, durations, saturating arithmetic, list lemmas.
  \<^item> \<open>Text\<close>: the parts of Rust's \<open>str\<close> the parsers use.
  \<^item> \<open>Ring\<close>: \<open>RingBuffer\<close> of \<open>session.rs\<close>; locale \<open>stream_buffer\<close> states the contract of a bounded
    window of a stream, interpreted on the ring.
  \<^item> \<open>Scrubber\<close>: \<open>make_sentinel\<close>, \<open>scan_marker\<close>, \<open>FrameScrubber::feed\<close> of \<open>session.rs\<close>; chunk
    invariance, absence of markers in payload, a framed output recovered, bounded hold-back.
  \<^item> \<open>Framing\<close>: \<open>frame_command\<close> through a shell, its \<open>printf\<close> and the tty back to the scrubber.
  \<^item> \<open>Spool\<close>: \<open>session/spool.rs\<close>: ledger, evictions, writer, naming; locale \<open>byte_ledger\<close>.
  \<^item> \<open>Utf8\<close>: texts from outside as UTF-8 bytes: validation, lossy decoding, white space.
  \<^item> \<open>Shape\<close>: escape stripping, echo removal, lossy decoding and the tail cap of \<open>session.rs\<close>.
  \<^item> \<open>Session\<close>: the rest of \<open>session.rs\<close>: session state, reader path, \<open>run\<close> in its locked parts,
    \<open>peek\<close>, \<open>send\<close>, \<open>interrupt\<close>, registry and reaper, interleaved as a step relation.
  \<^item> \<open>Config\<close>: \<open>ssh/config.rs\<close>: patterns, parser, \<open>Include\<close>, first-value-wins, fail-closed gate.
  \<^item> \<open>Vault\<close>: \<open>vault.rs\<close>: profiles and validation, managed routes, file format, cache and its owners.
  \<^item> \<open>Procs\<close>: \<open>procs/mod.rs\<close>: the ancestry walk.
  \<^item> \<open>Routes\<close>: \<open>ssh.rs\<close>: resolution, \<open>ProxyJump\<close> expansion, lease scope, confirmation order,
    dialling; locale \<open>host_resolver\<close> is what an expansion needs of a snapshot.
  \<^item> \<open>Lease\<close>: \<open>lease.rs\<close>: requests, approvals, grants, expiry, on a reachability relation with the
    history of approvals; locale \<open>two_clocks\<close> is the idle-and-absolute expiry leases and the
    automatic unlock share.
  \<^item> \<open>State_File\<close>: private state files and their atomic replacement; locale \<open>state_store\<close>.
  \<^item> \<open>Pin\<close>: \<open>local_approval.rs\<close>: enrolment, verification with lock-outs, the bound on guesses.
  \<^item> \<open>Settings\<close>: \<open>vault_settings.rs\<close>: timeouts and the bypass flag.
  \<^item> \<open>Known_Hosts\<close>: \<open>ssh/known_hosts.rs\<close> and the key verification policy of \<open>ssh.rs\<close>.
  \<^item> \<open>Forward\<close>: \<open>forward.rs\<close>, \<open>ssh/route.rs\<close> and the forwarded-channel handler of \<open>ssh.rs\<close>: the
    specifications, the registry, and each task's run from one await to the next.
  \<^item> \<open>Forward_Steps\<close>: those runs interleaved, and the invariants that a number in use was allocated
    (\<open>reachable_numbers\<close>), a lifecycle is what the logged events made it (\<open>reachable_routes\<close>), and
    each stage was reached in order (\<open>reachable_stages\<close>).
  \<^item> \<open>Forward_Safety\<close>: stop channels and ownership (\<open>stop_move\<close>, \<open>reachable_owners\<close>), tunnel
    counters, the sweep, and the properties of forwards.
  \<^item> \<open>Auth\<close>: \<open>authenticate\<close> of \<open>ssh.rs\<close>: agent identities, password and key methods, their errors.
  \<^item> \<open>Daemon_Script\<close>, \<open>Native_Approval\<close>, \<open>Dispatch\<close>: messages of \<open>proto.rs\<close>, the operations a request
    awaits, the helper conversations of \<open>native_approval.rs\<close>, and one script per request of
    \<open>daemon/mod.rs\<close>, including the connection loop and the handshake.
  \<^item> \<open>Dispatch_Steps\<close>, \<open>Dispatch_Safety\<close>, \<open>Dispatch_Replies\<close>: the runs of scripts with the answers the
    parts can give; a host is touched only under a grant, native activation needs the human, and every
    request is answered once and in kind.
  \<^item> \<open>Config_Agreement\<close>: two parses of configurations that agree on an alias resolve it alike.
  \<^item> \<open>System_Hosts\<close>: \<open>system_hosts.rs\<close>: the user's OpenSSH configuration listed, edited and installed.
  \<^item> \<open>Wire\<close>: framing of \<open>proto.rs\<close>, and both halves of \<open>put\<close> and \<open>get\<close> (\<open>session/sftp.rs\<close>,
    \<open>cli/transfer.rs\<close>) over streams that may break anywhere.
  \<^item> \<open>Local_Socket\<close>: \<open>transport/\<close>, \<open>cli/client.rs\<close>, \<open>cli/daemon_cmd.rs\<close>: the socket's directory and
    binding, peer identity, starting and greeting the daemon.
  \<^item> \<open>Human_Trust\<close>: \<open>human_host_key.rs\<close>, the commands \<open>host trust\<close> and \<open>approve\<close>.
  \<^item> \<open>Warnings\<close>, \<open>Audit_Log\<close>, \<open>Skill\<close>: \<open>diagnostics.rs\<close>; \<open>daemon/audit.rs\<close> with \<open>cli/log.rs\<close>;
    \<open>cli/skill.rs\<close>.
  \<^item> \<open>Desktop_Unlock\<close>: \<open>desktop_unlock.rs\<close> and its callers; \<open>two_clocks\<close> is interpreted a third time.
  \<^item> \<open>Proc_Tables\<close>: \<open>procs/linux.rs\<close> and \<open>procs/macos.rs\<close>: the table a walk reads, parsed from what the
    kernel writes.
  \<^item> \<open>Client\<close>, \<open>Cli\<close>, \<open>Desktop_Hosts\<close>: the commands of \<open>cli/\<close> and the desktop program's host commands
    (\<open>host_commands.rs\<close>) as conversations with the daemon, the human and the user's files: no
    swallowed error, edits that change what was asked, keys that follow saves.
  \<^item> \<open>Command_Line\<close>: \<open>dispatch\<close> of \<open>cli/mod.rs\<close> over every command, those of the other theories included:
    no secret without a terminal.
  \<^item> \<open>Helper_Process\<close>: \<open>native_approval/helper.rs\<close> and \<open>enroll\<close>: which helper is trusted, and the bounded
    lines exchanged with it.

  \<^bold>\<open>Conventions.\<close> A Rust struct is a record with a two-letter prefix, an enum a datatype, a fallible
  function returns \<open>error + value\<close>. A function that runs under a lock is one step; where the code
  releases the lock or awaits, the model has two definitions, or an argument \<open>others\<close> for what
  other tasks do in between. Answers of the outside (operating system, network, clock, random bytes)
  are arguments; libraries (Argon2, ChaCha20-Poly1305, serde, russh, HMAC) are record fields, and
  a theorem that relies on one names what it needs as a hypothesis. Times are nanoseconds (\<open>instant\<close>),
  Unix seconds in \<open>Pin\<close>. Strings have characters up to U+00FF; process names are any UTF-8 bytes. Machine integers are natural
  numbers with saturation or bounds written out where the code has them.

  \<^bold>\<open>Bounds and fuel.\<close> \<open>ProxyJump\<close> expansion recurses on a counter that starts at one more than
  \<open>MAX_PROXY_JUMP_HOPS\<close>; \<open>expansion_returns\<close> shows it always returns. \<open>Include\<close> loading recurses on the
  depth limit 16 of the code, and managed routes on its 8 hops. The ancestry walk has no
  bound of its own and is a partial function; it returns on every process table in which some
  rank decreases from a process to its parent. Spool eviction loops consume their candidates.
  The interleavings (sessions, leases, forwards) are inductive relations of any length. A client
  waits for a starting daemon at most twelve times; a receive has no limit, and one that never ends is
  the answer \<open>StillWaiting\<close>. Frame loops consume a finite stream; a script is a
  finite tree, and a run of it takes any answers.

  \<^bold>\<open>Not modelled.\<close> The exec, PTY and SFTP channel functions of \<open>ssh.rs\<close> only drive russh; the accept
  loop, signals and the process's start (\<open>main.rs\<close>, \<open>bin/slooshd.rs\<close>) are the runtime's. Peer
  credentials, access-control lists, \<open>/proc\<close>, \<open>sysctl\<close> and file-system calls are answers; JSON is a
  codec. Process creation, clap's parsing, printing, and the
  desktop program's window and snapshot are system calls, libraries or glue.
  Logging and diagnostics inside modelled functions have no result there and are left out; audit
  records are kept as events of the dispatcher.

  \<^bold>\<open>What modelling showed.\<close> Lemmas exhibit behaviours the code does not intend: overlapping runs
  steal each other's outcome and can hit an \<open>expect\<close> (\<open>overlapping_runs_steal_outcome\<close>), a reply after a
  ring overrun contains later bytes (\<open>overrun_reply_has_later_bytes\<close>), starting a run is no activity
  for the reaper (\<open>starting_a_run_is_no_activity\<close>), concurrent PIN verifications count once
  (\<open>concurrent_guesses_count_once\<close>), a committed key store can exceed the size its readers
  accept (\<open>committed_store_may_be_refused\<close>), a comma in a host key alias makes the committed line speak
  for other hosts (\<open>comma_in_target\<close>), an interrupted upgrade of the skill reads as a user's
  edit (\<open>interrupted_upgrade_reads_as_modified\<close>), a longer timeout revives an expired desktop session
  (\<open>longer_timeout_revives_session\<close>), and a process whose name was cut inside a character has no
  ancestry (\<open>cut_name_hides_process\<close>), while an empty \<open>argv[0]\<close> is answered with the next argument
  (\<open>empty_argv0_answers_argv1\<close>). Besides, a download can be reported failed after it was installed,
  and the keys an approval lists as unverified are looked up under another endpoint than the one
  they are recorded under.
\<close>

end
